(* ===== verification/Js_Value.thy ===== *)
theory Js_Value
  imports Complex_Main Prelude
begin

text \<open>
  JavaScript values as the modelled code meets them: parsed JSON and plain objects, with
  \<open>undefined\<close> for an absent property. An object lists its own properties in insertion
  order with distinct names. Numbers are exact rationals; \<open>JInf\<close> is an infinity (JSON can
  spell one, as \<open>1e999\<close>), and NaN cannot come out of \<open>JSON.parse\<close>.
\<close>

datatype js =
    JUndef
  | JNull
  | JBool bool
  | JNum rat
  | JInf bool
  | JStr string
  | JArr "js list"
  | JObj "(string \<times> js) list"

text \<open>\<open>v.k\<close> on an object, and \<open>v?.k\<close> on anything: other values have none of the names used.\<close>

fun js_field :: "js \<Rightarrow> string \<Rightarrow> js" where
  "js_field (JObj ps) k = (case map_of ps k of Some v \<Rightarrow> v | None \<Rightarrow> JUndef)"
| "js_field _ k = JUndef"

fun truthy :: "js \<Rightarrow> bool" where
  "truthy JUndef = False"
| "truthy JNull = False"
| "truthy (JBool b) = b"
| "truthy (JNum n) = (n \<noteq> 0)"
| "truthy (JInf _) = True"
| "truthy (JStr s) = (s \<noteq> [])"
| "truthy (JArr _) = True"
| "truthy (JObj _) = True"

text \<open>\<open>a ?? b\<close>.\<close>

fun nullish :: "js \<Rightarrow> bool" where
  "nullish JUndef = True"
| "nullish JNull = True"
| "nullish _ = False"

definition js_or_null :: "js \<Rightarrow> js \<Rightarrow> js" where
  "js_or_null a b = (if nullish a then b else a)"

fun is_obj :: "js \<Rightarrow> bool" where
  "is_obj (JObj _) = True"
| "is_obj _ = False"

text \<open>\<open>typeof v === "object"\<close> for a value that is not \<open>null\<close>: objects and arrays.\<close>

fun is_objlike :: "js \<Rightarrow> bool" where
  "is_objlike (JObj _) = True"
| "is_objlike (JArr _) = True"
| "is_objlike _ = False"

fun str_of :: "js \<Rightarrow> string option" where
  "str_of (JStr s) = Some s"
| "str_of _ = None"

text \<open>A finite number, as \<open>typeof v === "number" && Number.isFinite(v)\<close> accepts.\<close>

fun num_of :: "js \<Rightarrow> rat option" where
  "num_of (JNum n) = Some n"
| "num_of _ = None"

fun is_true :: "js \<Rightarrow> bool" where
  "is_true (JBool b) = b"
| "is_true _ = False"

text \<open>\<open>String(v)\<close>.\<close>

fun js_text :: "(rat \<Rightarrow> string) \<Rightarrow> js \<Rightarrow> string" where
  "js_text nt JUndef = ''undefined''"
| "js_text nt JNull = ''null''"
| "js_text nt (JBool b) = (if b then ''true'' else ''false'')"
| "js_text nt (JNum n) = nt n"
| "js_text nt (JInf pos) = (if pos then ''Infinity'' else ''-Infinity'')"
| "js_text nt (JStr s) = s"
| "js_text nt (JArr xs) = js_join '','' (map (\<lambda>x. if nullish x then [] else js_text nt x) xs)"
| "js_text nt (JObj ps) = ''[object Object]''"

text \<open>\<open>{...v}\<close>: the own enumerable properties of a value.\<close>

fun spread :: "js \<Rightarrow> (string \<times> js) list" where
  "spread (JObj ps) = ps"
| "spread (JArr xs) = zip (map dec_nat [0..<length xs]) xs"
| "spread (JStr s) = zip (map dec_nat [0..<length s]) (map (\<lambda>c. JStr [c]) s)"
| "spread _ = []"

lemma str_of_Some [simp]: "str_of v = Some s \<longleftrightarrow> v = JStr s"
  by (cases v) auto

lemma num_of_Some [simp]: "num_of v = Some n \<longleftrightarrow> v = JNum n"
  by (cases v) auto

end
