(* ===== verification/Ordered_Map.thy ===== *)
theory Ordered_Map
  imports Prelude
begin

text \<open>
  JavaScript's \<open>Map\<close>: a finite map that iterates in insertion order. \<open>set\<close> on a present
  key keeps its place, on an absent one appends; \<open>delete\<close> removes the key. The interface
  \<open>js_map\<close> states these laws; the clients' lemmas rest on it, and the association-list
  functions below are its model.
\<close>

type_synonym ('k, 'v) omap = "('k \<times> 'v) list"

definition om_get :: "('k, 'v) omap \<Rightarrow> 'k \<Rightarrow> 'v option" where
  "om_get m k = map_of m k"

definition om_set :: "'k \<Rightarrow> 'v \<Rightarrow> ('k, 'v) omap \<Rightarrow> ('k, 'v) omap" where
  "om_set k v m = AList.update k v m"

definition om_delete :: "'k \<Rightarrow> ('k, 'v) omap \<Rightarrow> ('k, 'v) omap" where
  "om_delete k m = AList.delete k m"

definition om_keys :: "('k, 'v) omap \<Rightarrow> 'k list" where
  "om_keys m = map fst m"

definition om_ok :: "('k, 'v) omap \<Rightarrow> bool" where
  "om_ok m \<longleftrightarrow> distinct (map fst m)"

definition om_has :: "('k, 'v) omap \<Rightarrow> 'k \<Rightarrow> bool" where
  "om_has m k \<longleftrightarrow> om_get m k \<noteq> None"

text \<open>Deleting, while iterating, every entry that satisfies a predicate.\<close>

definition om_drop :: "('k \<Rightarrow> 'v \<Rightarrow> bool) \<Rightarrow> ('k, 'v) omap \<Rightarrow> ('k, 'v) omap" where
  "om_drop P m = filter (\<lambda>(k, v). \<not> P k v) m"

locale js_map =
  fixes get :: "'m \<Rightarrow> 'k \<Rightarrow> 'v option"
    and put :: "'k \<Rightarrow> 'v \<Rightarrow> 'm \<Rightarrow> 'm"
    and del :: "'k \<Rightarrow> 'm \<Rightarrow> 'm"
    and keys :: "'m \<Rightarrow> 'k list"
    and ok :: "'m \<Rightarrow> bool"
  assumes get_put: "get (put k v m) k' = (if k' = k then Some v else get m k')"
    and get_del: "get (del k m) k' = (if k' = k then None else get m k')"
    and keys_get: "k \<in> set (keys m) \<longleftrightarrow> get m k \<noteq> None"
    and keys_put: "keys (put k v m) = (if get m k = None then keys m @ [k] else keys m)"
    and keys_del: "keys (del k m) = filter (\<lambda>x. x \<noteq> k) (keys m)"
    and ok_put: "ok m \<Longrightarrow> ok (put k v m)"
    and ok_del: "ok m \<Longrightarrow> ok (del k m)"
    and ok_distinct: "ok m \<Longrightarrow> distinct (keys m)"
begin

lemma put_present_keeps_order: "get m k = Some w \<Longrightarrow> keys (put k v m) = keys m"
  by (simp add: keys_put)

lemma size_put: "length (keys (put k v m)) \<le> Suc (length (keys m))"
  by (simp add: keys_put)

lemma size_del: "length (keys (del k m)) \<le> length (keys m)"
  by (simp add: keys_del)

lemma del_absent: "get m k = None \<Longrightarrow> keys (del k m) = keys m"
  using keys_get by (auto simp: keys_del intro!: filter_True)

lemma size_del_present: "ok m \<Longrightarrow> get m k = Some v \<Longrightarrow> Suc (length (keys (del k m))) = length (keys m)"
proof -
  assume "ok m" and "get m k = Some v"
  then have d: "distinct (keys m)" and k: "k \<in> set (keys m)"
    using ok_distinct keys_get by auto
  obtain xs ys where "keys m = xs @ k # ys" using k by (auto simp: in_set_conv_decomp)
  moreover from this d have "filter (\<lambda>x. x \<noteq> k) xs = xs" "filter (\<lambda>x. x \<noteq> k) ys = ys"
    by (auto intro!: filter_True)
  ultimately show ?thesis by (simp add: keys_del)
qed

lemma get_after_dels: "get (fold del ks m) k = (if k \<in> set ks then None else get m k)"
  by (induction ks arbitrary: m) (auto simp: get_del)

end

interpretation om: js_map om_get om_set om_delete om_keys om_ok
proof unfold_locales
  fix k k' :: 'a and v :: 'b and m :: "('a, 'b) omap"
  show "om_get (om_set k v m) k' = (if k' = k then Some v else om_get m k')"
    by (simp add: om_get_def om_set_def update_conv')
  show "om_get (om_delete k m) k' = (if k' = k then None else om_get m k')"
    by (simp add: om_get_def om_delete_def delete_conv')
  show "k \<in> set (om_keys m) \<longleftrightarrow> om_get m k \<noteq> None"
    by (simp add: om_keys_def om_get_def map_of_eq_None_iff)
  show "om_keys (om_set k v m) = (if om_get m k = None then om_keys m @ [k] else om_keys m)"
    by (simp add: om_keys_def om_set_def om_get_def update_keys map_of_eq_None_iff)
  show "om_keys (om_delete k m) = filter (\<lambda>x. x \<noteq> k) (om_keys m)"
    by (simp add: om_keys_def om_delete_def delete_keys removeAll_filter_not_eq eq_commute)
  show "om_ok m \<Longrightarrow> om_ok (om_set k v m)"
    by (simp add: om_ok_def om_set_def distinct_update)
  show "om_ok m \<Longrightarrow> om_ok (om_delete k m)"
    by (simp add: om_ok_def om_delete_def distinct_delete)
  show "om_ok m \<Longrightarrow> distinct (om_keys m)"
    by (simp add: om_ok_def om_keys_def)
qed

lemmas om_simps [simp] = om.get_put om.get_del om.ok_put om.ok_del

lemma om_ok_Nil [simp]: "om_ok []"
  by (simp add: om_ok_def)

lemma om_get_Nil [simp]: "om_get [] k = None"
  by (simp add: om_get_def)

lemma om_get_mem: "om_get m k = Some v \<Longrightarrow> (k, v) \<in> set m"
  by (simp add: om_get_def map_of_SomeD)

lemma om_mem_get: "om_ok m \<Longrightarrow> (k, v) \<in> set m \<Longrightarrow> om_get m k = Some v"
  by (simp add: om_get_def om_ok_def)

lemma om_ok_drop: "om_ok m \<Longrightarrow> om_ok (om_drop P m)"
  by (simp add: om_ok_def om_drop_def distinct_map_filter)

lemma om_get_drop:
  "om_ok m \<Longrightarrow> om_get (om_drop P m) k =
     (case om_get m k of None \<Rightarrow> None | Some v \<Rightarrow> if P k v then None else Some v)"
  by (induction m) (auto simp: om_get_def om_ok_def om_drop_def map_of_eq_None_iff image_iff split: option.splits)

end
