(* ===== verification/Run_System.thy ===== *)
theory Run_System
  imports Prelude
begin

text \<open>
  Interfaces of the stateful components. A component is a step function over its events;
  \<open>run_invariant\<close> lifts what one step keeps to whole runs, \<open>monotone_run\<close> adds a counter
  that never goes back, and \<open>rate_limited\<close> is the restart budget that the agent engine, the MCP server
  and the tools restart share: at most \<open>max\<close> grants inside any window.
\<close>

locale run_invariant =
  fixes step :: "'s \<Rightarrow> 'e \<Rightarrow> 's"
    and inv :: "'s \<Rightarrow> bool"
  assumes step_inv: "inv s \<Longrightarrow> inv (step s e)"
begin

lemma run_inv: "inv s \<Longrightarrow> inv (foldl step s es)"
  by (induction es arbitrary: s) (auto intro: step_inv)

end

locale monotone_run = run_invariant +
  fixes counter :: "'a \<Rightarrow> nat"
  assumes step_mono: "inv s \<Longrightarrow> counter s \<le> counter (step s e)"
begin

lemma run_mono: "inv s \<Longrightarrow> counter s \<le> counter (foldl step s es)"
proof (induction es arbitrary: s)
  case (Cons e es)
  then have "counter s \<le> counter (step s e)" and "inv (step s e)"
    by (auto intro: step_mono step_inv)
  with Cons.IH [of "step s e"] show ?case by simp
qed simp

end

text \<open>The times at which a sequence of attempts was granted.\<close>

fun granted :: "(int \<Rightarrow> 's \<Rightarrow> 's \<times> bool) \<Rightarrow> 's \<Rightarrow> int list \<Rightarrow> int list" where
  "granted att s [] = []"
| "granted att s (t # ts) =
     (case att t s of (s', ok) \<Rightarrow> (if ok then [t] else []) @ granted att s' ts)"

locale rate_limited =
  fixes attempt :: "int \<Rightarrow> 's \<Rightarrow> 's \<times> bool"
    and history :: "'s \<Rightarrow> int list"
    and window :: int
    and limit :: nat
  assumes granted_history: "attempt t s = (s', True) \<Longrightarrow>
      history s' = filter (\<lambda>g. t - g < window) (history s) @ [t]"
    and refused_history: "attempt t s = (s', False) \<Longrightarrow>
      history s' = filter (\<lambda>g. t - g < window) (history s)"
    and granted_below: "attempt t s = (s', True) \<Longrightarrow>
      length (filter (\<lambda>g. t - g < window) (history s)) < limit"
begin

text \<open>\<open>past\<close> holds every grant so far, the history the recent ones; no window ending later
  than the last attempt sees a difference.\<close>

lemma window_bound_general:
  assumes "sorted ts" and "\<forall>t \<in> set ts. t0 \<le> t"
    and "\<And>x. t0 \<le> x \<Longrightarrow> filter (\<lambda>g. x - g < window) past = filter (\<lambda>g. x - g < window) (history s)"
    and "\<forall>g \<in> set past. g \<le> t0"
    and "\<And>x. length (filter (\<lambda>g. x - g < window \<and> g \<le> x) past) \<le> limit"
  shows "length (filter (\<lambda>g. x - g < window \<and> g \<le> x) (past @ granted attempt s ts)) \<le> limit"
  using assms
proof (induction ts arbitrary: s past t0)
  case Nil
  then show ?case by simp
next
  case (Cons t ts)
  obtain s' ok where att: "attempt t s = (s', ok)" by (cases "attempt t s") auto
  let ?past' = "past @ (if ok then [t] else [])"
  have le: "t0 \<le> t" and later: "\<forall>u \<in> set ts. t \<le> u" and srt: "sorted ts"
    using Cons.prems(1,2) by auto
  have recent: "filter (\<lambda>g. t - g < window) past = filter (\<lambda>g. t - g < window) (history s)"
    using Cons.prems(3) le by blast
  have hist': "history s' = filter (\<lambda>g. t - g < window) (history s) @ (if ok then [t] else [])"
    using att granted_history refused_history by (cases ok) auto
  have same: "filter (\<lambda>g. x - g < window) ?past' = filter (\<lambda>g. x - g < window) (history s')"
    if "t \<le> x" for x
  proof -
    have "filter (\<lambda>g. x - g < window) zs =
          filter (\<lambda>g. x - g < window) (filter (\<lambda>g. t - g < window) zs)" for zs
      using that by (auto intro!: filter_cong)
    then have "filter (\<lambda>g. x - g < window) past = filter (\<lambda>g. x - g < window) (filter (\<lambda>g. t - g < window) (history s))"
      using recent by metis
    then show ?thesis by (simp add: hist')
  qed
  have upto: "\<forall>g \<in> set ?past'. g \<le> t"
    using Cons.prems(4) le by (auto split: if_splits)
  have bound: "length (filter (\<lambda>g. x - g < window \<and> g \<le> x) ?past') \<le> limit" for x
  proof (cases "ok \<and> t \<le> x \<and> x - t < window")
    case False
    then show ?thesis using Cons.prems(5) [of x] by auto
  next
    case True
    then have "length (filter (\<lambda>g. x - g < window \<and> g \<le> x) past)
        \<le> length (filter (\<lambda>g. t - g < window) past)"
      by (induction past) auto
    also have "\<dots> < limit" using granted_below att True recent by simp
    finally show ?thesis using True by simp
  qed
  have "length (filter (\<lambda>g. x - g < window \<and> g \<le> x) (?past' @ granted attempt s' ts)) \<le> limit"
    using Cons.IH [OF srt later same upto bound] by blast
  then show ?case by (simp add: att)
qed

text \<open>However the attempts fall, every window of the given width holds at most \<open>limit\<close> grants.\<close>

lemma window_bound:
  "sorted ts \<Longrightarrow> history s = [] \<Longrightarrow>
   length (filter (\<lambda>g. x - g < window \<and> g \<le> x) (granted attempt s ts)) \<le> limit"
  using window_bound_general [of ts "if ts = [] then 0 else hd ts" "[]" s x]
  by (cases ts) auto

end

end
