(* ===== verification/Gate_Auth.thy ===== *)
theory Gate_Auth
  imports Js_Value Ordered_Map
begin

text \<open>
  The access gate's credentials (runtime/gate.cjs): one-time exchange tokens and their replay
  store, the session cookie and its header handling, the origin allow-list.

  What the code takes from Node is the record \<open>platform\<close>: \<open>hmac\<close> is
  \<open>crypto.createHmac("sha256", key).update(data).digest("base64url")\<close>, \<open>json_of_b64\<close> decodes a
  base64url segment and parses it (\<open>None\<close> where \<open>JSON.parse\<close> throws), \<open>url_parts\<close> is
  \<open>new URL(u)\<close> as pathname and search, \<open>norm_path\<close> is \<open>new URL(p, "http://gate").pathname\<close>.
  Times are seconds, exact rationals.
\<close>

record platform =
  hmac :: "string \<Rightarrow> string \<Rightarrow> string"
  json_of_b64 :: "string \<Rightarrow> js option"
  url_parts :: "string \<Rightarrow> (string \<times> string) option"
  norm_path :: "string \<Rightarrow> string option"

text \<open>What \<open>createGateServer\<close>'s \<open>context()\<close> hands to every decision.\<close>

record gate_ctx =
  key :: string
  project_id :: string
  auth_disabled :: bool
  allowed_origins :: "string list"
  used_jtis :: "(string, rat) omap option"
  now_s :: rat

subsection \<open>Constants\<close>

definition COOKIE_NAME :: string where "COOKIE_NAME = ''__Host-gc_ide''"
definition COOKIE_MAX_AGE_S :: int where "COOKIE_MAX_AGE_S = 43200"
definition TOKEN_AUDIENCE :: string where "TOKEN_AUDIENCE = ''ide-proxy''"
definition CLOCK_SKEW_S :: rat where "CLOCK_SKEW_S = 30"
definition MAX_TOKEN_LENGTH :: nat where "MAX_TOKEN_LENGTH = 4096"
definition MAX_JTI_LENGTH :: nat where "MAX_JTI_LENGTH = 256"
definition MAX_COOKIE_CANDIDATES :: nat where "MAX_COOKIE_CANDIDATES = 5"

subsection \<open>Tokens\<close>

definition is_b64url :: "string \<Rightarrow> bool" where
  "is_b64url s \<longleftrightarrow> s \<noteq> [] \<and> list_all is_b64 s"

definition decode_json_segment :: "'a platform_scheme \<Rightarrow> string \<Rightarrow> js option" where
  "decode_json_segment pf seg =
     (if \<not> is_b64url seg then None
      else (case json_of_b64 pf seg of
              Some v \<Rightarrow> if is_obj v then Some v else None
            | None \<Rightarrow> None))"

text \<open>Equal UTF-8 encodings: equal strings.\<close>

definition safe_equal_strings :: "string \<Rightarrow> string \<Rightarrow> bool" where
  "safe_equal_strings a b \<longleftrightarrow> a = b"

fun aud_ok :: "js \<Rightarrow> bool" where
  "aud_ok (JStr a) = (a = TOKEN_AUDIENCE)"
| "aud_ok (JArr xs) = (JStr TOKEN_AUDIENCE \<in> set xs)"
| "aud_ok _ = False"

text \<open>An optional claim: absent, or a number not later than \<open>limit\<close>. (Minus infinity is a number.)\<close>

fun not_after :: "js \<Rightarrow> rat \<Rightarrow> bool" where
  "not_after JUndef limit = True"
| "not_after (JNum n) limit = (n \<le> limit)"
| "not_after (JInf pos) limit = (\<not> pos)"
| "not_after _ limit = False"

definition check_claims :: "gate_ctx \<Rightarrow> js \<Rightarrow> string + js" where
  "check_claims ctx claims =
    (if \<not> aud_ok (js_field claims ''aud'') then Inl ''bad-aud''
     else (case js_field claims ''exp'' of
       JNum ex \<Rightarrow>
        (if ex \<le> now_s ctx - CLOCK_SKEW_S then Inl ''expired''
         else if \<not> not_after (js_field claims ''nbf'') (now_s ctx + CLOCK_SKEW_S) then Inl ''not-yet-valid''
         else if \<not> not_after (js_field claims ''iat'') (now_s ctx + CLOCK_SKEW_S) then Inl ''iat-in-future''
         else if js_field claims ''project_id'' \<noteq> JStr (project_id ctx) then Inl ''project-mismatch''
         else (case js_field claims ''jti'' of
           JStr jti \<Rightarrow>
             (if jti = [] \<or> length jti > MAX_JTI_LENGTH then Inl ''no-jti''
              else (case used_jtis ctx of
                 Some used \<Rightarrow> if om_has used jti then Inl ''jti-reused'' else Inr claims
               | None \<Rightarrow> Inr claims))
         | _ \<Rightarrow> Inl ''no-jti''))
     | _ \<Rightarrow> Inl ''no-exp''))"

definition verify_token :: "'a platform_scheme \<Rightarrow> gate_ctx \<Rightarrow> string \<Rightarrow> string + js" where
  "verify_token pf ctx token =
    (if key ctx = [] then Inl ''no-key''
     else if project_id ctx = [] then Inl ''no-project-id''
     else if token = [] \<or> length token > MAX_TOKEN_LENGTH then Inl ''malformed''
     else (case js_split CHR ''.'' token of
       [h, p, s] \<Rightarrow>
        (if \<not> is_b64url s then Inl ''malformed''
         else (case decode_json_segment pf h of
           None \<Rightarrow> Inl ''malformed''
         | Some header \<Rightarrow>
            (if js_field header ''alg'' \<noteq> JStr ''HS256'' then Inl ''bad-alg''
             else if \<not> safe_equal_strings s (hmac pf (key ctx) (h @ ''.'' @ p)) then Inl ''bad-signature''
             else (case decode_json_segment pf p of
               None \<Rightarrow> Inl ''malformed''
             | Some claims \<Rightarrow> check_claims ctx claims))))
     | _ \<Rightarrow> Inl ''malformed''))"

definition mark_jti_used :: "(string, rat) omap \<Rightarrow> string \<Rightarrow> rat \<Rightarrow> rat \<Rightarrow> (string, rat) omap" where
  "mark_jti_used used jti ex now =
     om_set jti ex (om_drop (\<lambda>_ idExp. idExp \<le> now - CLOCK_SKEW_S) used)"

subsection \<open>The session cookie\<close>

definition cookie_signature :: "'a platform_scheme \<Rightarrow> string \<Rightarrow> string \<Rightarrow> string \<Rightarrow> string" where
  "cookie_signature pf k pid expString = hmac pf k (''cookie|'' @ pid @ ''|'' @ expString)"

record cookie =
  cookie_value :: string
  cookie_exp :: int
  cookie_header :: string

definition cookie_attributes :: string where
  "cookie_attributes = ''; Path=/; Secure; HttpOnly; SameSite=None; Partitioned; Max-Age=''"

text \<open>\<open>None\<close> is the thrown error (no key or no project).\<close>

definition issue_cookie :: "'a platform_scheme \<Rightarrow> gate_ctx \<Rightarrow> cookie option" where
  "issue_cookie pf ctx =
    (if key ctx = [] \<or> project_id ctx = [] then None
     else (let ex = \<lfloor>now_s ctx\<rfloor> + COOKIE_MAX_AGE_S;
               v = ''v1.'' @ dec_int ex @ ''.'' @ cookie_signature pf (key ctx) (project_id ctx) (dec_int ex)
           in Some \<lparr>cookie_value = v, cookie_exp = ex,
                    cookie_header = COOKIE_NAME @ ''='' @ v @ cookie_attributes @ dec_int COOKIE_MAX_AGE_S\<rparr>))"

definition clear_cookie_header :: string where
  "clear_cookie_header = COOKIE_NAME @ ''='' @ cookie_attributes @ ''0''"

text \<open>\<open>COOKIE_VALUE_RE\<close>: \<open>v1\<close>, one to fifteen digits, forty-three base64url characters, with dots between.\<close>

definition match_cookie :: "string \<Rightarrow> (string \<times> string) option" where
  "match_cookie value =
    (case js_split CHR ''.'' value of
       [v, ex, sig] \<Rightarrow>
         (if v = ''v1'' \<and> ex \<noteq> [] \<and> length ex \<le> 15 \<and> list_all is_digit ex
             \<and> length sig = 43 \<and> list_all is_b64 sig
          then Some (ex, sig) else None)
     | _ \<Rightarrow> None)"

definition verify_cookie :: "'a platform_scheme \<Rightarrow> gate_ctx \<Rightarrow> string \<Rightarrow> string + nat" where
  "verify_cookie pf ctx value =
    (if key ctx = [] then Inl ''no-key''
     else if project_id ctx = [] then Inl ''no-project-id''
     else (case match_cookie value of
       None \<Rightarrow> Inl ''malformed''
     | Some (ex, sig) \<Rightarrow>
        (if \<not> safe_equal_strings sig (cookie_signature pf (key ctx) (project_id ctx) ex) then Inl ''bad-signature''
         else (let e = parse_dec ex in
           if of_nat e \<le> now_s ctx then Inl ''expired'' else Inr e))))"

text \<open>A header value as Node gives it: a string, or the list of a repeated header.\<close>

datatype hval = HStr string | HArr "string list"

fun cookie_raw :: "hval option \<Rightarrow> string option" where
  "cookie_raw None = None"
| "cookie_raw (Some (HStr s)) = (if s = [] then None else Some s)"
| "cookie_raw (Some (HArr xs)) = Some (js_join '';'' xs)"

definition unquote :: "string \<Rightarrow> string" where
  "unquote v = (if 2 \<le> length v \<and> hd v = CHR 0x22 \<and> last v = CHR 0x22 then butlast (tl v) else v)"

fun cookie_part_value :: "string \<Rightarrow> string \<Rightarrow> string option" where
  "cookie_part_value name part =
    (case cut_at CHR ''='' part of
       None \<Rightarrow> None
     | Some (n, v) \<Rightarrow> if js_trim n \<noteq> name then None else Some (unquote (js_trim v)))"

definition get_cookie_values :: "hval option \<Rightarrow> string \<Rightarrow> string list" where
  "get_cookie_values h name =
    (case cookie_raw h of
       None \<Rightarrow> []
     | Some raw \<Rightarrow> List.map_filter (cookie_part_value name) (js_split CHR '';'' raw))"

definition part_kept :: "string \<Rightarrow> string \<Rightarrow> bool" where
  "part_kept name part \<longleftrightarrow> part \<noteq> [] \<and>
     js_trim (case cut_at CHR ''='' part of None \<Rightarrow> part | Some (n, _) \<Rightarrow> n) \<noteq> name"

definition strip_cookie :: "hval option \<Rightarrow> string \<Rightarrow> string option" where
  "strip_cookie h name =
    (case cookie_raw h of
       None \<Rightarrow> None
     | Some raw \<Rightarrow>
        (let kept = filter (part_kept name) (map js_trim (js_split CHR '';'' raw))
         in if kept = [] then None else Some (js_join ''; '' kept)))"

text \<open>The loop over the candidates: the first accepted one wins, the last refusal is reported.\<close>

fun first_valid :: "'a platform_scheme \<Rightarrow> gate_ctx \<Rightarrow> string list \<Rightarrow> string \<Rightarrow> string + nat" where
  "first_valid pf ctx [] seen = Inl (''cookie-'' @ seen)"
| "first_valid pf ctx (v # vs) seen =
    (case verify_cookie pf ctx v of
       Inr e \<Rightarrow> Inr e
     | Inl r \<Rightarrow> first_valid pf ctx vs r)"

definition check_cookie_header :: "'a platform_scheme \<Rightarrow> gate_ctx \<Rightarrow> hval option \<Rightarrow> string + nat" where
  "check_cookie_header pf ctx h =
    (let values = take MAX_COOKIE_CANDIDATES (get_cookie_values h COOKIE_NAME)
     in if values = [] then Inl ''no-cookie'' else first_valid pf ctx values [])"

subsection \<open>Exchange: the only place that mints the cookie\<close>

record exchange_ok =
  set_cookie :: string
  ex_sub :: "string option"

definition exchange_token :: "'a platform_scheme \<Rightarrow> gate_ctx \<Rightarrow> string \<Rightarrow> (string + exchange_ok) \<times> gate_ctx" where
  "exchange_token pf ctx token =
    (if auth_disabled ctx then (Inr \<lparr>set_cookie = [], ex_sub = None\<rparr>, ctx)
     else if key ctx = [] then (Inl ''no-key'', ctx)
     else if project_id ctx = [] then (Inl ''no-project-id'', ctx)
     else (case used_jtis ctx of
       None \<Rightarrow> (Inl ''no-replay-store'', ctx)
     | Some used \<Rightarrow>
        (case verify_token pf ctx token of
           Inl r \<Rightarrow> (Inl r, ctx)
         | Inr claims \<Rightarrow>
            (case (js_field claims ''jti'', js_field claims ''exp'') of
               (JStr jti, JNum ex) \<Rightarrow>
                 (case issue_cookie pf ctx of
                    Some c \<Rightarrow>
                      (Inr \<lparr>set_cookie = cookie_header c, ex_sub = str_of (js_field claims ''sub'')\<rparr>,
                       ctx\<lparr>used_jtis := Some (mark_jti_used used jti ex (now_s ctx))\<rparr>)
                  | None \<Rightarrow> (Inl ''internal'', ctx))
             | _ \<Rightarrow> (Inl ''internal'', ctx)))))"

subsection \<open>Origins\<close>

definition origin_host_char :: "char \<Rightarrow> bool" where
  "origin_host_char c \<longleftrightarrow> is_lower c \<or> is_digit c \<or> c = CHR ''.'' \<or> c = CHR ''-''"

definition host_port_ok :: "string \<Rightarrow> bool" where
  "host_port_ok s =
    (case cut_at CHR '':'' s of
       None \<Rightarrow> s \<noteq> [] \<and> list_all origin_host_char s
     | Some (h, p) \<Rightarrow> h \<noteq> [] \<and> list_all origin_host_char h \<and> p \<noteq> [] \<and> list_all is_digit p)"

definition allow_entry_ok :: "string \<Rightarrow> bool" where
  "allow_entry_ok e =
    (case cut_sub ''://'' e of
       None \<Rightarrow> False
     | Some (scheme, rest) \<Rightarrow> scheme \<in> {''http'', ''https''} \<and>
         host_port_ok (if prefix ''*.'' rest then drop 2 rest else rest))"

definition parse_allowed_origins :: "string option \<Rightarrow> string list" where
  "parse_allowed_origins value =
     filter allow_entry_ok
       (map (\<lambda>e. js_lower (js_trim e))
         (js_split CHR '','' (case value of None \<Rightarrow> ''https://geocluster.net,https://www.geocluster.net''
                                          | Some v \<Rightarrow> v)))"

text \<open>\<open>entry.slice(star + 4)\<close>, where \<open>star\<close> is the index of \<open>"://*."\<close>: the suffix keeps its dot.\<close>

definition entry_allows :: "string \<Rightarrow> string \<Rightarrow> bool" where
  "entry_allows value entry \<longleftrightarrow> entry = value \<or>
    (case cut_sub ''://*.'' entry of
       None \<Rightarrow> False
     | Some (s, rest) \<Rightarrow>
        (let scheme = s @ ''://''; suff = CHR ''.'' # rest
         in prefix scheme value \<and> suffix suff value \<and> length value > length scheme + length suff))"

definition origin_allowed :: "string option \<Rightarrow> string list \<Rightarrow> bool" where
  "origin_allowed origin allowed =
    (case origin of
       None \<Rightarrow> False
     | Some v \<Rightarrow> v \<noteq> [] \<and> list_ex (entry_allows (js_lower v)) allowed)"

definition cors_headers :: "string option \<Rightarrow> string list \<Rightarrow> (string \<times> string) list" where
  "cors_headers origin allowed =
    (if origin_allowed origin allowed then
       [(''Access-Control-Allow-Origin'', the origin),
        (''Access-Control-Allow-Credentials'', ''true''),
        (''Access-Control-Expose-Headers'', ''ETag, Content-Disposition, Content-Range, Content-Length, Accept-Ranges, Location''),
        (''Vary'', ''Origin'')]
     else [(''Vary'', ''Origin'')])"

definition CORS_ALLOW_HEADERS :: string where
  "CORS_ALLOW_HEADERS = ''Content-Type, Accept, If-Match, If-None-Match, If-Range, Range, Last-Event-ID, X-Requested-With, X-GC-Base-Observation, X-Content-SHA256, X-GC-Require-Remote-Persistable, X-GC-Process-Document''"

definition preflight_headers :: "string option \<Rightarrow> string list \<Rightarrow> (string \<times> string) list" where
  "preflight_headers origin allowed =
    (if origin_allowed origin allowed then
       [(''Access-Control-Allow-Origin'', the origin),
        (''Access-Control-Allow-Credentials'', ''true''),
        (''Access-Control-Allow-Methods'', ''GET, HEAD, POST, PUT, DELETE, OPTIONS''),
        (''Access-Control-Allow-Headers'', CORS_ALLOW_HEADERS),
        (''Access-Control-Max-Age'', ''600''),
        (''Vary'', ''Origin'')]
     else [(''Vary'', ''Origin'')])"

subsection \<open>Token lemmas\<close>

definition token_claims :: "'a platform_scheme \<Rightarrow> string \<Rightarrow> js option" where
  "token_claims pf token =
     (case js_split CHR ''.'' token of [h, p, s] \<Rightarrow> decode_json_segment pf p | _ \<Rightarrow> None)"

lemma check_claims_Inr:
  assumes "check_claims ctx claims = Inr c"
  obtains jti ex where "c = claims" "aud_ok (js_field claims ''aud'')"
    "js_field claims ''jti'' = JStr jti" "js_field claims ''exp'' = JNum ex"
    "now_s ctx - CLOCK_SKEW_S < ex" "js_field claims ''project_id'' = JStr (project_id ctx)"
    "\<And>used. used_jtis ctx = Some used \<Longrightarrow> om_get used jti = None"
  using assms
  by (auto simp: check_claims_def om_has_def split: if_splits js.splits option.splits)

lemma verify_token_Inr:
  assumes "verify_token pf ctx token = Inr c"
  obtains h p s where "js_split CHR ''.'' token = [h, p, s]" "key ctx \<noteq> []"
    "s = hmac pf (key ctx) (h @ ''.'' @ p)" "token_claims pf token = Some c"
    "check_claims ctx c = Inr c"
  using assms
  by (auto simp: verify_token_def token_claims_def safe_equal_strings_def
        split: if_splits list.splits option.splits elim: check_claims_Inr)

text \<open>An accepted exchange records the token's \<open>jti\<close> under its \<open>exp\<close>; a refused one changes nothing.\<close>

lemma exchange_refused: "exchange_token pf ctx token = (Inl r, ctx') \<Longrightarrow> ctx' = ctx"
  by (auto simp: exchange_token_def split: if_splits option.splits sum.splits js.splits)

lemma exchange_accepted:
  assumes "exchange_token pf ctx token = (Inr ok, ctx')" and "\<not> auth_disabled ctx"
  obtains used claims jti ex where "used_jtis ctx = Some used" "token_claims pf token = Some claims"
    "check_claims ctx claims = Inr claims"
    "js_field claims ''jti'' = JStr jti" "js_field claims ''exp'' = JNum ex"
    "om_get used jti = None"
    "ctx' = ctx\<lparr>used_jtis := Some (mark_jti_used used jti ex (now_s ctx))\<rparr>"
proof -
  from assms obtain used claims where u: "used_jtis ctx = Some used"
    and v: "verify_token pf ctx token = Inr claims"
    by (auto simp: exchange_token_def split: if_splits option.splits sum.splits)
  from v obtain "token_claims pf token = Some claims" "check_claims ctx claims = Inr claims"
    by (rule verify_token_Inr)
  moreover from this(2) obtain jti ex where "js_field claims ''jti'' = JStr jti"
    "js_field claims ''exp'' = JNum ex" "om_get used jti = None"
    using u by (metis check_claims_Inr)
  moreover from this assms u v have "ctx' = ctx\<lparr>used_jtis := Some (mark_jti_used used jti ex (now_s ctx))\<rparr>"
    by (auto simp: exchange_token_def split: if_splits option.splits)
  ultimately show ?thesis using u that by blast
qed

text \<open>A spent token: its \<open>jti\<close> is on record under its own \<open>exp\<close>, or it is past its \<open>exp\<close> and skew.\<close>

definition spent :: "'a platform_scheme \<Rightarrow> (string, rat) omap \<Rightarrow> rat \<Rightarrow> string \<Rightarrow> bool" where
  "spent pf used t token \<longleftrightarrow> (\<exists>claims jti ex. token_claims pf token = Some claims \<and>
     js_field claims ''jti'' = JStr jti \<and> js_field claims ''exp'' = JNum ex \<and>
     (om_get used jti = Some ex \<or> ex \<le> t - CLOCK_SKEW_S))"

lemma om_ok_mark: "om_ok used \<Longrightarrow> om_ok (mark_jti_used used jti ex now)"
  by (simp add: mark_jti_used_def om_ok_drop)

lemma om_get_mark:
  "om_ok used \<Longrightarrow> om_get (mark_jti_used used jti ex now) j =
     (if j = jti then Some ex
      else (case om_get used j of None \<Rightarrow> None
            | Some e \<Rightarrow> if e \<le> now - CLOCK_SKEW_S then None else Some e))"
  by (simp add: mark_jti_used_def om_get_drop)

lemma spent_later: "spent pf used t token \<Longrightarrow> t \<le> t' \<Longrightarrow> spent pf used t' token"
  by (fastforce simp: spent_def)

lemma spent_mark:
  assumes "spent pf used t token" "om_ok used" "om_get used jti = None"
  shows "spent pf (mark_jti_used used jti ex t) t token"
  using assms by (fastforce simp: spent_def om_get_mark)

lemma spent_self:
  "om_ok used \<Longrightarrow> token_claims pf token = Some claims \<Longrightarrow> js_field claims ''jti'' = JStr jti \<Longrightarrow>
   js_field claims ''exp'' = JNum ex \<Longrightarrow> spent pf (mark_jti_used used jti ex t) t token"
  by (fastforce simp: spent_def om_get_mark)

lemma spent_refused:
  assumes "spent pf used (now_s ctx) token" "used_jtis ctx = Some used" "\<not> auth_disabled ctx"
  shows "exchange_token pf ctx token \<noteq> (Inr ok, ctx')"
proof
  assume "exchange_token pf ctx token = (Inr ok, ctx')"
  then obtain used' claims jti ex where x: "used_jtis ctx = Some used'" "token_claims pf token = Some claims"
    "check_claims ctx claims = Inr claims" "js_field claims ''jti'' = JStr jti"
    "js_field claims ''exp'' = JNum ex" "om_get used' jti = None"
    using assms(3) by (rule exchange_accepted)
  moreover have "now_s ctx - CLOCK_SKEW_S < ex"
    using x(3) by (rule check_claims_Inr) (use x(5) in auto)
  ultimately show False using assms(1,2) by (auto simp: spent_def)
qed

text \<open>The gate over time: each exchange at its own clock reading; the accepted tokens, in order.\<close>

fun exchanges :: "'a platform_scheme \<Rightarrow> gate_ctx \<Rightarrow> (rat \<times> string) list \<Rightarrow> string list" where
  "exchanges pf ctx [] = []"
| "exchanges pf ctx ((t, token) # xs) =
     (case exchange_token pf (ctx\<lparr>now_s := t\<rparr>) token of
        (Inl r, ctx') \<Rightarrow> exchanges pf ctx' xs
      | (Inr ok, ctx') \<Rightarrow> token # exchanges pf ctx' xs)"

lemma exchanges_not_spent:
  assumes "used_jtis ctx = Some used" "om_ok used" "\<not> auth_disabled ctx"
    and "sorted (map fst xs)" "\<forall>t \<in> set (map fst xs). t0 \<le> t" "spent pf used t0 token"
  shows "token \<notin> set (exchanges pf ctx xs)"
  using assms
proof (induction xs arbitrary: ctx used t0)
  case (Cons x xs)
  obtain t tok where x: "x = (t, tok)" by (cases x)
  let ?ctx = "ctx\<lparr>now_s := t\<rparr>"
  have sp: "spent pf used t token" using Cons.prems(5,6) x by (auto intro: spent_later)
  have le: "sorted (map fst xs)" "\<forall>u \<in> set (map fst xs). t \<le> u" using Cons.prems(4) x by auto
  show ?case
  proof (cases "exchange_token pf ?ctx tok")
    case (Pair r ctx')
    show ?thesis
    proof (cases r)
      case (Inl e)
      then have same: "ctx' = ?ctx" using Pair exchange_refused by blast
      have "token \<notin> set (exchanges pf ?ctx xs)"
        by (rule Cons.IH [OF _ _ _ le sp]) (use Cons.prems(1-3) in simp_all)
      then show ?thesis using same Pair Inl x by simp
    next
      case (Inr ok)
      then have acc: "exchange_token pf ?ctx tok = (Inr ok, ctx')" using Pair by simp
      have "tok \<noteq> token" using spent_refused [of pf used ?ctx token] sp Cons.prems(1,3) acc by auto
      moreover obtain jti ex where j: "om_get used jti = None"
        "ctx' = ?ctx\<lparr>used_jtis := Some (mark_jti_used used jti ex t)\<rparr>"
        using acc Cons.prems(1,3) by (auto elim!: exchange_accepted)
      have "token \<notin> set (exchanges pf ctx' xs)"
        by (rule Cons.IH [OF _ om_ok_mark _ le spent_mark [OF sp]]) (use j Cons.prems(2,3) in simp_all)
      ultimately show ?thesis using x acc by simp
    qed
  qed
qed simp

lemma exchanges_distinct:
  assumes "used_jtis ctx = Some used" "om_ok used" "\<not> auth_disabled ctx" "sorted (map fst xs)"
  shows "distinct (exchanges pf ctx xs)"
  using assms
proof (induction xs arbitrary: ctx used)
  case (Cons x xs)
  obtain t tok where x: "x = (t, tok)" by (cases x)
  let ?ctx = "ctx\<lparr>now_s := t\<rparr>"
  have le: "sorted (map fst xs)" "\<forall>u \<in> set (map fst xs). t \<le> u" using Cons.prems(4) x by auto
  obtain r ctx' where ex: "exchange_token pf ?ctx tok = (r, ctx')" by fastforce
  show ?case
  proof (cases r)
    case (Inl e)
    then have same: "ctx' = ?ctx" using ex exchange_refused by blast
    have "distinct (exchanges pf ?ctx xs)"
      by (rule Cons.IH [OF _ _ _ le(1)]) (use Cons.prems(1-3) in simp_all)
    then show ?thesis using same ex Inl x by simp
  next
    case (Inr ok)
    then have acc: "exchange_token pf ?ctx tok = (Inr ok, ctx')" using ex by simp
    obtain claims jti ex' where c: "token_claims pf tok = Some claims" "js_field claims ''jti'' = JStr jti"
        "js_field claims ''exp'' = JNum ex'"
        "ctx' = ?ctx\<lparr>used_jtis := Some (mark_jti_used used jti ex' t)\<rparr>"
      using acc Cons.prems(1,3) by (auto elim!: exchange_accepted)
    let ?used = "mark_jti_used used jti ex' t"
    have u: "used_jtis ctx' = Some ?used" "om_ok ?used" "\<not> auth_disabled ctx'" "spent pf ?used t tok"
      using c Cons.prems(2,3) by (auto intro: om_ok_mark spent_self)
    show ?thesis
      using Cons.IH [OF u(1-3) le(1)] exchanges_not_spent [OF u(1-3) le u(4)] x acc by simp
  qed
qed simp

end
