(* ===== verification/Gate_Http.thy ===== *)
theory Gate_Http
  imports Gate_Auth
begin

text \<open>
  The gate's request handling (runtime/gate.cjs): routing paths, the decision for a request and
  for a WebSocket upgrade, what is forwarded upstream, the exchange and lifecycle handlers, and
  the dispatch of the server; and the workspace fence of runtime/lib/workspace-relay.cjs. Sockets
  are not modelled: a handler returns the response or the upstream call it makes. Further
  standard-library functions are the record \<open>http_lib\<close>: \<open>json_parse\<close> and \<open>json_bytes\<close> (fatal UTF-8
  decoding, then parsing), \<open>query_token\<close> (\<open>URLSearchParams.get("token")\<close>, empty if absent),
  \<open>uri_decode\<close>, \<open>date_ms\<close> (\<open>Date.parse\<close>) and \<open>to_number\<close> (\<open>Number\<close> of a string).
\<close>

record http_lib = platform +
  json_parse :: "string \<Rightarrow> js option"
  json_bytes :: "string \<Rightarrow> js option"
  query_token :: "string \<Rightarrow> string"
  uri_decode :: "string \<Rightarrow> string option"
  date_ms :: "string \<Rightarrow> rat option"
  to_number :: "string \<Rightarrow> rat option"

type_synonym headers = "(string, hval) omap"

text \<open>\<open>req_headers\<close> has Node's lower-case names; \<open>raw_headers\<close> is the list of name and value as received.\<close>

record request =
  req_method :: string
  req_url :: string
  req_headers :: headers
  raw_headers :: "(string \<times> string) list"

definition hdr :: "request \<Rightarrow> string \<Rightarrow> hval option" where
  "hdr r name = om_get (req_headers r) name"

text \<open>\<open>originAllowed\<close> takes strings only.\<close>

fun header_string :: "hval option \<Rightarrow> string option" where
  "header_string (Some (HStr s)) = Some s"
| "header_string _ = None"

fun header_truthy :: "hval option \<Rightarrow> bool" where
  "header_truthy None = False"
| "header_truthy (Some (HStr s)) = (s \<noteq> [])"
| "header_truthy (Some (HArr _)) = True"

subsection \<open>Paths\<close>

definition before_char :: "char \<Rightarrow> string \<Rightarrow> string" where
  "before_char c s = (case cut_at c s of None \<Rightarrow> s | Some (a, _) \<Rightarrow> a)"

definition split_request_url :: "'a platform_scheme \<Rightarrow> string \<Rightarrow> (string \<times> string) option" where
  "split_request_url pf raw =
    (case (if prefix ''/'' raw then Some raw
           else (case url_parts pf raw of Some (p, s) \<Rightarrow> Some (p @ s) | None \<Rightarrow> None)) of
       None \<Rightarrow> None
     | Some url \<Rightarrow>
        (let u = before_char CHR ''#'' url
         in Some (case cut_at CHR ''?'' u of None \<Rightarrow> (u, []) | Some (p, q) \<Rightarrow> (p, q))))"

definition is_health_path :: "string \<Rightarrow> bool" where
  "is_health_path p \<longleftrightarrow> p = ''/livez'' \<or> p = ''/readyz''"

definition routing_path :: "'a platform_scheme \<Rightarrow> string \<Rightarrow> string" where
  "routing_path pf raw =
    (case split_request_url pf raw of
       None \<Rightarrow> []
     | Some (p, _) \<Rightarrow> (case norm_path pf p of None \<Rightarrow> [] | Some q \<Rightarrow> q))"

definition internal_path :: "'a platform_scheme \<Rightarrow> string \<Rightarrow> bool" where
  "internal_path pf raw \<longleftrightarrow>
     routing_path pf raw = ''/internal'' \<or> prefix ''/internal/'' (routing_path pf raw)"

subsection \<open>Decisions\<close>

datatype decision =
    Health
  | Preflight bool \<comment> \<open>whether it is a health preflight\<close>
  | Exchange
  | Logout
  | Proxy string
  | BadRequest
  | Deny nat string

definition trusted_write :: "string \<Rightarrow> string \<Rightarrow> bool" where
  "trusted_write meth path \<longleftrightarrow>
     (meth = ''PUT'' \<and> path = ''/files/upload'') \<or> (meth = ''POST'' \<and> prefix ''/files/processing/'' path)"

definition authorize :: "'a platform_scheme \<Rightarrow> request \<Rightarrow> gate_ctx \<Rightarrow> decision" where
  "authorize pf req ctx =
    (case split_request_url pf (req_url req) of
       None \<Rightarrow> BadRequest
     | Some (path, query) \<Rightarrow>
        (let meth = (if req_method req = [] then ''GET'' else req_method req) in
         if is_health_path path then (if meth = ''OPTIONS'' then Preflight True else Health)
         else if meth = ''OPTIONS'' \<and> header_truthy (hdr req ''access-control-request-method'') then Preflight False
         else if path = ''/auth/logout'' \<and> meth = ''POST'' then Logout
         else if path = ''/auth/exchange'' then (if meth = ''POST'' then Exchange else Deny 405 ''method'')
         else if auth_disabled ctx then Proxy ''auth-disabled''
         else if key ctx = [] then Deny 401 ''no-key''
         else if project_id ctx = [] then Deny 401 ''no-project-id''
         else (case check_cookie_header pf ctx (hdr req ''cookie'') of
           Inl r \<Rightarrow> Deny 401 r
         | Inr e \<Rightarrow>
            (if trusted_write meth (routing_path pf (req_url req)) \<and> hdr req ''origin'' \<noteq> None
                 \<and> \<not> origin_allowed (header_string (hdr req ''origin'')) (allowed_origins ctx)
             then Deny 403 ''bad-origin'' else Proxy ''cookie''))))"

definition authorize_upgrade :: "'a platform_scheme \<Rightarrow> request \<Rightarrow> gate_ctx \<Rightarrow> decision" where
  "authorize_upgrade pf req ctx =
    (if split_request_url pf (req_url req) = None then Deny 401 ''bad-url''
     else if hdr req ''origin'' \<noteq> None \<and> \<not> auth_disabled ctx
          \<and> \<not> origin_allowed (header_string (hdr req ''origin'')) (allowed_origins ctx) then Deny 403 ''bad-origin''
     else if auth_disabled ctx then Proxy ''auth-disabled''
     else if key ctx = [] then Deny 401 ''no-key''
     else if project_id ctx = [] then Deny 401 ''no-project-id''
     else (case check_cookie_header pf ctx (hdr req ''cookie'') of
       Inl r \<Rightarrow> Deny 401 r
     | Inr e \<Rightarrow> Proxy ''cookie''))"

subsection \<open>Response policy and configuration\<close>

definition DEFAULT_FRAME_ANCESTORS :: string where
  "DEFAULT_FRAME_ANCESTORS = ''https://geocluster.net https://*.geocluster.net''"

fun collapse_spaces :: "string \<Rightarrow> string" where
  "collapse_spaces (c # d # cs) =
     (if is_space c \<and> is_space d then collapse_spaces (d # cs)
      else (if is_space c then CHR '' '' else c) # collapse_spaces (d # cs))"
| "collapse_spaces [c] = [if is_space c then CHR '' '' else c]"
| "collapse_spaces [] = []"

definition sanitize_frame_ancestors :: "string option \<Rightarrow> string" where
  "sanitize_frame_ancestors value =
    (let raw = (case value of None \<Rightarrow> [] | Some v \<Rightarrow> v);
         spaced = map (\<lambda>c. if c = CHR ''\<newline>'' \<or> c = CHR 13 \<or> c = CHR '';'' \<or> c = CHR '','' then CHR '' '' else c) raw;
         printable = filter (\<lambda>c. in_range CHR 0x21 CHR 0x7e c \<or> c = CHR '' '') spaced;
         cleaned = js_trim (collapse_spaces printable)
     in if cleaned = [] then DEFAULT_FRAME_ANCESTORS else cleaned)"

definition with_frame_ancestors :: "headers \<Rightarrow> string \<Rightarrow> headers" where
  "with_frame_ancestors hs csp =
    om_set ''content-security-policy''
      (case om_get hs ''content-security-policy'' of
         None \<Rightarrow> HStr csp
       | Some (HStr s) \<Rightarrow> if s = [] then HStr csp else HArr [s, csp]
       | Some (HArr xs) \<Rightarrow> HArr (xs @ [csp])) hs"

definition parse_port :: "http_lib \<Rightarrow> string option \<Rightarrow> nat option \<Rightarrow> nat option" where
  "parse_port lib value fallback =
    (case value of
       None \<Rightarrow> fallback
     | Some [] \<Rightarrow> fallback
     | Some v \<Rightarrow>
        (case to_number lib v of
           Some q \<Rightarrow> if q \<in> \<int> \<and> 0 \<le> q \<and> q \<le> 65535 then Some (nat \<lfloor>q\<rfloor>) else fallback
         | None \<Rightarrow> fallback))"

record gate_config =
  listen_port :: nat
  upstream_port :: nat
  files_port :: "nat option"
  key_file :: string
  gate_file :: string
  files_control_file :: string
  cfg_project :: string
  machine_id :: string
  auth_disabled_requested :: bool
  cfg_auth_disabled :: bool
  cfg_origins :: "string list"
  frame_ancestors :: string

definition env_or :: "(string \<Rightarrow> string option) \<Rightarrow> string \<Rightarrow> string \<Rightarrow> string" where
  "env_or env name d = (case env name of Some v \<Rightarrow> if v = [] then d else v | None \<Rightarrow> d)"

definition load_config :: "http_lib \<Rightarrow> (string \<Rightarrow> string option) \<Rightarrow> gate_config" where
  "load_config lib env =
    (let machine = env_or env ''FLY_MACHINE_ID'' []; wanted = (env ''RUNTIME_AUTH_DISABLED'' = Some ''1'') in
     \<lparr>listen_port = the (parse_port lib (env ''RUNTIME_GATE_PORT'') (Some 3000)),
      upstream_port = the (parse_port lib (env ''RUNTIME_GATEWAY_PORT'') (Some 3001)),
      files_port = (if env_or env ''RUNTIME_FILES_PORT'' [] = [] then None
                    else parse_port lib (env ''RUNTIME_FILES_PORT'') (Some 3002)),
      key_file = env_or env ''RUNTIME_GATE_KEY_FILE'' ''/run/runtime/key'',
      gate_file = env_or env ''RUNTIME_GATE_SECRET_FILE'' ''/run/runtime/gate'',
      files_control_file = env_or env ''RUNTIME_FILES_CONTROL_FILE'' ''/run/runtime/files-control'',
      cfg_project = env_or env ''PROJECT_ID'' [],
      machine_id = machine,
      auth_disabled_requested = wanted,
      cfg_auth_disabled = (wanted \<and> machine = []),
      cfg_origins = parse_allowed_origins (env ''RUNTIME_ALLOWED_ORIGINS''),
      frame_ancestors = sanitize_frame_ancestors (env ''RUNTIME_FRAME_ANCESTORS'')\<rparr>)"

text \<open>The secret loader's closure: the cached secret and whether its absence was reported. \<open>file\<close> is the
  content read at this call, \<open>None\<close> where reading throws.\<close>

record loader =
  secret :: string
  reported_missing :: bool

definition get_secret :: "loader \<Rightarrow> string option \<Rightarrow> string \<times> loader" where
  "get_secret l file =
    (if secret l \<noteq> [] then (secret l, l)
     else (let v = (case file of None \<Rightarrow> [] | Some s \<Rightarrow> js_trim s) in
       if v \<noteq> [] then (v, l\<lparr>secret := v\<rparr>) else ([], l\<lparr>reported_missing := True\<rparr>)))"

subsection \<open>What goes upstream\<close>

definition GATE_HEADER :: string where "GATE_HEADER = ''x-gc-gate''"

definition raw_values :: "(string \<times> string) list \<Rightarrow> string \<Rightarrow> string list" where
  "raw_values raw name = map snd (filter (\<lambda>(n, v). js_lower n = name) raw)"

definition keep_raw :: "(string \<times> string) list \<Rightarrow> string \<Rightarrow> headers \<Rightarrow> headers" where
  "keep_raw raw name hs = (if raw_values raw name = [] then hs else om_set name (HArr (raw_values raw name)) hs)"

definition forwarded_headers :: "headers \<Rightarrow> string \<Rightarrow> (string \<times> string) list \<Rightarrow> headers" where
  "forwarded_headers hs0 gate raw =
    (let h1 = (case strip_cookie (om_get hs0 ''cookie'') COOKIE_NAME of
                 None \<Rightarrow> om_delete ''cookie'' hs0
               | Some c \<Rightarrow> om_set ''cookie'' (HStr c) hs0);
         h2 = fold om_delete [GATE_HEADER, ''x-gc-files-control'', ''x-gc-runtime-control'', ''x-ide-proxy-key''] h1;
         h3 = fold (keep_raw raw) [''x-gc-workspace-id'', ''x-gc-workspace-epoch''] h2
     in if gate = [] then h3 else om_set GATE_HEADER (HStr gate) h3)"

definition single_header :: "request \<Rightarrow> string \<Rightarrow> string option" where
  "single_header req name = (case raw_values (raw_headers req) name of [v] \<Rightarrow> Some v | _ \<Rightarrow> None)"

definition id_char :: "char \<Rightarrow> bool" where
  "id_char c \<longleftrightarrow> is_alnum c \<or> c \<in> {CHR ''_'', CHR ''.'', CHR '':'', CHR ''-''}"

definition bounded_id :: "string \<Rightarrow> bool" where
  "bounded_id s \<longleftrightarrow> s \<noteq> [] \<and> length s \<le> 128 \<and> list_all id_char s"

definition voxel_record_path :: "http_lib \<Rightarrow> string \<Rightarrow> string \<Rightarrow> bool" where
  "voxel_record_path lib path family =
    (let pre = ''/voxels/'' @ family @ ''/'' in
     if \<not> prefix pre path then False
     else (let raw = drop (length pre) path in
       if length raw > 384 \<or> CHR ''/'' \<in> set raw then False
       else (case uri_decode lib raw of None \<Rightarrow> False | Some s \<Rightarrow> bounded_id s)))"

definition operation_path :: "string \<Rightarrow> bool" where
  "operation_path path \<longleftrightarrow> prefix ''/voxels/operations/'' path \<and>
     (let r = drop (length ''/voxels/operations/'') path in r \<noteq> [] \<and> CHR ''/'' \<notin> set r)"

definition voxel_route :: "http_lib \<Rightarrow> request \<Rightarrow> string \<Rightarrow> bool" where
  "voxel_route lib req path \<longleftrightarrow>
     path = ''/voxels'' \<or> path = ''/voxels/member'' \<or> operation_path path \<or>
     (req_method req = ''GET'' \<and>
       (path = ''/voxels/named'' \<or> path = ''/voxels/artifacts'' \<or> voxel_record_path lib path ''named'')) \<or>
     (req_method req \<in> {''GET'', ''DELETE''} \<and> voxel_record_path lib path ''artifacts'')"

record upstream =
  up_port :: nat
  up_path :: string
  up_method :: string
  up_headers :: headers

definition proxy_request :: "http_lib \<Rightarrow> gate_config \<Rightarrow> string \<Rightarrow> string option \<Rightarrow> request \<Rightarrow> upstream" where
  "proxy_request lib cfg gate bootstrap req =
    (let path = routing_path lib (req_url req);
         useFiles = (files_port cfg \<noteq> None \<and>
            (path = ''/files'' \<or> prefix ''/files/'' path \<or> voxel_route lib req path));
         hs = forwarded_headers (req_headers req) gate (raw_headers req)
     in \<lparr>up_port = (if useFiles then the (files_port cfg) else upstream_port cfg),
         up_path = req_url req, up_method = req_method req,
         up_headers = (case bootstrap of
                         Some c \<Rightarrow> if c = [] then hs else om_set ''x-gc-files-control'' (HStr c) hs
                       | None \<Rightarrow> hs)\<rparr>)"

text \<open>The upstream's response headers as sent to the browser.\<close>

definition proxied_headers :: "headers \<Rightarrow> string \<Rightarrow> (string \<times> string) list \<Rightarrow> headers" where
  "proxied_headers hs csp cors =
     fold (\<lambda>(n, v). om_set (js_lower n) (HStr v)) cors (with_frame_ancestors hs csp)"

end
