(* ===== verification/Gate_Server.thy ===== *)
theory Gate_Server
  imports Gate_Http
begin

text \<open>
  The gate's server (runtime/gate.cjs, \<open>createGateServer\<close> and the handlers it calls) as functions
  from a request, the secrets loaded at that moment and the gate's state to what the gate does:
  an answer, or the upstream call it makes. The workspace fence of WebSocket admission is the one of
  runtime/lib/workspace-relay.cjs. Streams, timers and logging are not modelled.
\<close>

subsection \<open>Answers\<close>

text \<open>\<open>sendJson\<close>: the status, the body's string fields, and the extra headers.\<close>

datatype answer =
    Json nat "(string \<times> string) list" "(string \<times> string) list"
  | NoContent "(string \<times> string) list"

definition json_error :: "nat \<Rightarrow> string \<Rightarrow> answer" where
  "json_error status err = Json status [(''error'', err)] []"

subsection \<open>POST /auth/exchange\<close>

text \<open>\<open>body\<close> is what \<open>readBody\<close> resolved to: \<open>None\<close> past the limit. A body of JSON \<open>null\<close> makes the
  property read throw, which is the \<open>bad_json\<close> answer as well.\<close>

definition body_token :: "http_lib \<Rightarrow> string \<Rightarrow> string option" where
  "body_token lib body =
    (if body = [] then Some []
     else (case json_parse lib body of
        None \<Rightarrow> None
      | Some v \<Rightarrow> if v = JNull then None
                  else Some (case js_field v ''token'' of JStr t \<Rightarrow> t | _ \<Rightarrow> [])))"

definition handle_exchange ::
  "http_lib \<Rightarrow> gate_ctx \<Rightarrow> (string \<times> string) list \<Rightarrow> string \<Rightarrow> string option \<Rightarrow> answer \<times> gate_ctx" where
  "handle_exchange lib ctx cors url body =
    (let query = (case split_request_url lib url of None \<Rightarrow> [] | Some (_, q) \<Rightarrow> q);
         fromQuery = query_token lib query;
         token = (if fromQuery \<noteq> [] then Inr fromQuery
                  else (case body of
                     None \<Rightarrow> Inl (Json 413 [(''error'', ''body_too_large'')] cors)
                   | Some b \<Rightarrow> (case body_token lib b of
                        None \<Rightarrow> Inl (Json 400 [(''error'', ''bad_json'')] cors)
                      | Some t \<Rightarrow> Inr t)))
     in case token of
          Inl a \<Rightarrow> (a, ctx)
        | Inr t \<Rightarrow>
           (if t = [] then (Json 400 [(''error'', ''missing_token'')] cors, ctx)
            else (case exchange_token lib ctx t of
               (Inl reason, ctx') \<Rightarrow>
                 (Json 401 [(''error'', ''invalid_token''), (''reason'', reason)] cors, ctx')
             | (Inr ok, ctx') \<Rightarrow>
                 (NoContent ((''Cache-Control'', ''no-store'') # cors @
                    (if set_cookie ok = [] then [] else [(''Set-Cookie'', set_cookie ok)])), ctx'))))"

subsection \<open>The lifecycle routes\<close>

text \<open>The server-side key check shared by \<open>/internal/files/drain\<close> and the bootstrap \<open>/files/info\<close>:
  \<open>None\<close> when the request may go on.\<close>

definition server_caller :: "gate_config \<Rightarrow> string \<Rightarrow> request \<Rightarrow> string \<Rightarrow> answer option" where
  "server_caller cfg gateKey req meth =
    (let supplied = single_header req ''x-ide-proxy-key'' in
     if gateKey = [] \<or> supplied = None \<or> supplied = Some [] \<or> \<not> safe_equal_strings (the supplied) gateKey
        \<or> hdr req ''cookie'' \<noteq> None \<or> hdr req ''origin'' \<noteq> None then Some (json_error 404 ''not_found'')
     else if single_header req ''x-gc-project-id'' \<noteq> Some (cfg_project cfg) \<or> machine_id cfg = []
        \<or> single_header req ''x-gc-machine-id'' \<noteq> Some (machine_id cfg) then Some (json_error 409 ''runtime_changed'')
     else if req_method req \<noteq> meth then Some (json_error 405 ''method_not_allowed'')
     else None)"

definition control_ok :: "string \<Rightarrow> bool" where
  "control_ok c \<longleftrightarrow> length c = 64 \<and> list_all is_hex c"

text \<open>The request body's chunks, refused as soon as they pass 4096 bytes.\<close>

fun collect_chunks :: "nat \<Rightarrow> string list \<Rightarrow> string option" where
  "collect_chunks n [] = Some []"
| "collect_chunks n (c # cs) =
    (if n + length c > 4096 then None
     else map_option (\<lambda>rest. c @ rest) (collect_chunks (n + length c) cs))"

definition drain_body_ok :: "http_lib \<Rightarrow> js \<Rightarrow> bool" where
  "drain_body_ok lib body =
    (case body of
       JObj ps \<Rightarrow> set (map fst ps) \<subseteq> {''deadline'', ''admissionOnly'', ''runtimeId''} \<and>
         (case js_field body ''deadline'' of JStr d \<Rightarrow> date_ms lib d \<noteq> None | _ \<Rightarrow> False) \<and>
         js_field body ''admissionOnly'' = JBool True \<and>
         (case js_field body ''runtimeId'' of JStr i \<Rightarrow> bounded_id i | _ \<Rightarrow> False)
     | _ \<Rightarrow> False)"

text \<open>Either the refusal, or the body to post to the file service and the time left in milliseconds.\<close>

definition lifecycle_drain ::
  "http_lib \<Rightarrow> gate_config \<Rightarrow> string \<Rightarrow> string \<Rightarrow> rat \<Rightarrow> request \<Rightarrow> string list \<Rightarrow> answer + js \<times> rat" where
  "lifecycle_drain lib cfg gateKey control now_ms req chunks =
    (case server_caller cfg gateKey req ''POST'' of
       Some a \<Rightarrow> Inl a
     | None \<Rightarrow>
        (if files_port cfg = None \<or> files_port cfg = Some 0 \<or> \<not> control_ok control then Inl (json_error 503 ''lifecycle_unavailable'')
         else (case collect_chunks 0 chunks of
           None \<Rightarrow> Inl (json_error 413 ''body_too_large'')
         | Some bytes \<Rightarrow>
            (case json_bytes lib bytes of
               None \<Rightarrow> Inl (json_error 400 ''invalid_request'')
             | Some body \<Rightarrow>
                (if \<not> drain_body_ok lib body then Inl (json_error 400 ''invalid_request'')
                 else (case js_field body ''deadline'' of
                    JStr d \<Rightarrow>
                      (case date_ms lib d of
                         Some dl \<Rightarrow> if dl - now_ms \<le> 0 then Inl (json_error 503 ''drain_timeout'')
                                    else Inr (body, min (dl - now_ms) 2147483647)
                       | None \<Rightarrow> Inl (json_error 400 ''invalid_request''))
                  | _ \<Rightarrow> Inl (json_error 400 ''invalid_request'')))))))"

text \<open>The file service's reply: relayed, unless a 200 does not carry this machine's fence.\<close>

definition drain_reply :: "gate_config \<Rightarrow> nat \<Rightarrow> js option \<Rightarrow> answer + nat \<times> js" where
  "drain_reply cfg status reply =
    (case reply of
       None \<Rightarrow> Inl (json_error 503 ''invalid_lifecycle_fence'')
     | Some v \<Rightarrow>
        (if status = 200 \<and> (nullish v \<or> js_field v ''publicationFenced'' \<noteq> JBool True \<or>
              js_field v ''admittingMutations'' \<noteq> JBool False \<or>
              js_field v ''projectId'' \<noteq> JStr (cfg_project cfg) \<or>
              js_field v ''machineId'' \<noteq> JStr (machine_id cfg))
         then Inl (json_error 503 ''invalid_lifecycle_fence'') else Inr (status, v)))"

subsection \<open>Dispatch\<close>

datatype route =
    Answer answer
  | HealthProbe string
  | RunExchange "(string \<times> string) list"
  | RunDrain
  | ForwardTo upstream "(string \<times> string) list"

record secrets =
  sec_key :: string
  sec_gate :: string
  sec_control :: string

definition csp_value :: "gate_config \<Rightarrow> string" where
  "csp_value cfg = ''frame-ancestors '' @ frame_ancestors cfg"

definition HEALTH_CORS_HEADERS :: "(string \<times> string) list" where
  "HEALTH_CORS_HEADERS =
    [(''Access-Control-Allow-Origin'', ''*''),
     (''Access-Control-Allow-Methods'', ''GET, HEAD, OPTIONS''),
     (''Access-Control-Allow-Headers'', ''Content-Type'')]"

definition make_context :: "gate_config \<Rightarrow> secrets \<Rightarrow> (string, rat) omap \<Rightarrow> rat \<Rightarrow> gate_ctx" where
  "make_context cfg sec used now =
    \<lparr>key = (if cfg_auth_disabled cfg then [] else sec_key sec), project_id = cfg_project cfg,
     auth_disabled = cfg_auth_disabled cfg, allowed_origins = cfg_origins cfg,
     used_jtis = Some used, now_s = now\<rparr>"

definition deny_error :: "nat \<Rightarrow> string" where
  "deny_error status = (if status = 405 then ''method_not_allowed'' else ''unauthorized'')"

definition handle_request ::
  "http_lib \<Rightarrow> gate_config \<Rightarrow> secrets \<Rightarrow> (string, rat) omap \<Rightarrow> rat \<Rightarrow> request \<Rightarrow> route" where
  "handle_request lib cfg sec used now req =
    (if routing_path lib (req_url req) = [] then Answer (json_error 400 ''bad_request'')
     else if req_url req = ''/files/info'' \<and> hdr req ''x-ide-proxy-key'' \<noteq> None then
       (case server_caller cfg (sec_key sec) req ''GET'' of
          Some a \<Rightarrow> Answer a
        | None \<Rightarrow>
           (if \<not> control_ok (sec_control sec) \<or> files_port cfg = None \<or> files_port cfg = Some 0
            then Answer (json_error 503 ''lifecycle_unavailable'')
            else ForwardTo (proxy_request lib cfg (sec_gate sec) (Some (sec_control sec)) req) []))
     else if internal_path lib (req_url req) then
       (if req_url req = ''/internal/files/drain'' then RunDrain else Answer (json_error 404 ''not_found''))
     else (let cors = cors_headers (header_string (hdr req ''origin'')) (cfg_origins cfg) in
       case authorize lib req (make_context cfg sec used now) of
         Preflight True \<Rightarrow> Answer (NoContent HEALTH_CORS_HEADERS)
       | Preflight False \<Rightarrow>
           Answer (NoContent (preflight_headers (header_string (hdr req ''origin'')) (cfg_origins cfg)))
       | Health \<Rightarrow> HealthProbe (case split_request_url lib (req_url req) of Some (p, _) \<Rightarrow> p | None \<Rightarrow> [])
       | BadRequest \<Rightarrow> Answer (json_error 400 ''bad_request'')
       | Exchange \<Rightarrow> RunExchange cors
       | Logout \<Rightarrow> Answer (NoContent ([(''Set-Cookie'', clear_cookie_header), (''Cache-Control'', ''no-store'')] @ cors))
       | Proxy via \<Rightarrow> ForwardTo (proxy_request lib cfg (sec_gate sec) None req) cors
       | Deny status reason \<Rightarrow>
           Answer (Json status [(''error'', deny_error status), (''reason'', reason)]
                     ((''Content-Security-Policy'', csp_value cfg) # cors))))"

subsection \<open>WebSocket admission\<close>

datatype fence_error = FenceError nat string

definition fence_id :: "string \<Rightarrow> bool" where
  "fence_id s \<longleftrightarrow> s \<noteq> [] \<and> length s \<le> 128 \<and> list_all is_b64 s"

record fence =
  workspace_id :: string
  workspace_epoch :: string

definition parse_workspace_fence :: "request \<Rightarrow> fence_error + fence option" where
  "parse_workspace_fence req =
    (case (raw_values (raw_headers req) ''x-gc-workspace-id'', raw_values (raw_headers req) ''x-gc-workspace-epoch'') of
       ([], []) \<Rightarrow> Inr None
     | ([w], [e]) \<Rightarrow> if fence_id w \<and> fence_id e then Inr (Some \<lparr>workspace_id = w, workspace_epoch = e\<rparr>)
                     else Inl (FenceError 400 ''invalid_workspace_fence'')
     | _ \<Rightarrow> Inl (FenceError 400 ''invalid_workspace_fence''))"

text \<open>The file service's answer: \<open>None\<close> for no answer in time, a broken one or one over 64 KiB.\<close>

type_synonym info_reply = "(nat \<times> js option) option"

definition fence_unavailable :: fence_error where
  "fence_unavailable = FenceError 503 ''workspace_fence_unavailable''"

definition fence_changed :: fence_error where
  "fence_changed = FenceError 409 ''workspace_changed''"

text \<open>\<open>None\<close>: the check resolves.\<close>

definition check_workspace_fence :: "nat option \<Rightarrow> string \<Rightarrow> fence option \<Rightarrow> info_reply \<Rightarrow> fence_error option" where
  "check_workspace_fence port gate expected reply =
    (case expected of
       None \<Rightarrow> None
     | Some f \<Rightarrow>
        (if port = None \<or> port = Some 0 \<or> gate = [] then Some fence_unavailable
         else (case reply of
           None \<Rightarrow> Some fence_unavailable
         | Some (status, body) \<Rightarrow>
            (if status = 409 then Some fence_changed
             else if status \<noteq> 200 then Some fence_unavailable
             else (case body of
               None \<Rightarrow> Some fence_unavailable
             | Some info \<Rightarrow>
                (if js_field info ''filesContractVersion'' \<noteq> JNum 1 \<or> js_field info ''relayEpochFencingVersion'' \<noteq> JNum 1
                 then Some fence_unavailable
                 else if js_field info ''workspaceId'' \<noteq> JStr (workspace_id f) \<or>
                         js_field info ''workspaceEpoch'' \<noteq> JStr (workspace_epoch f)
                 then Some fence_changed else None))))))"

datatype ws_outcome =
    WsClose nat
  | WsFenceError fence_error
  | WsProxy "fence option" upstream

definition proxy_upgrade :: "gate_config \<Rightarrow> string \<Rightarrow> request \<Rightarrow> upstream" where
  "proxy_upgrade cfg gate req =
    \<lparr>up_port = upstream_port cfg, up_path = req_url req, up_method = req_method req,
     up_headers = forwarded_headers (req_headers req) gate (raw_headers req)\<rparr>"

definition handle_upgrade ::
  "http_lib \<Rightarrow> gate_config \<Rightarrow> secrets \<Rightarrow> (string, rat) omap \<Rightarrow> rat \<Rightarrow> request \<Rightarrow> info_reply \<Rightarrow> ws_outcome" where
  "handle_upgrade lib cfg sec used now req reply =
    (if routing_path lib (req_url req) = [] then WsClose 400
     else if internal_path lib (req_url req) then WsClose 404
     else (case authorize_upgrade lib req (make_context cfg sec used now) of
        Proxy via \<Rightarrow>
          (case parse_workspace_fence req of
             Inl e \<Rightarrow> WsFenceError e
           | Inr f \<Rightarrow>
              (case check_workspace_fence (files_port cfg) (sec_gate sec) f reply of
                 Some e \<Rightarrow> WsFenceError e
               | None \<Rightarrow> WsProxy f (proxy_upgrade cfg (sec_gate sec) req)))
      | Deny status reason \<Rightarrow> WsClose status
      | _ \<Rightarrow> WsClose 401))"

end
