(* ===== verification/Gate_Facts.thy ===== *)
theory Gate_Facts
  imports Gate_Server
begin

text \<open>
  What the gate guarantees (runtime/gate.cjs): the lemmas about cookies, headers, origins and the
  dispatch, and the gate's properties that follow from them.
\<close>

subsection \<open>White space and cookie parts\<close>

lemma dropWhile_space_prefix:
  "dropWhile is_space (a @ c # b) = (if list_all is_space a then dropWhile is_space (c # b)
     else dropWhile is_space a @ c # b)"
  by (induction a) auto

lemma js_trim_cons_space [simp]: "is_space c \<Longrightarrow> js_trim (c # s) = js_trim s"
  by (simp add: js_trim_def)

lemma js_trim_snoc_space [simp]: "is_space c \<Longrightarrow> js_trim (s @ [c]) = js_trim s"
proof -
  assume c: "is_space c"
  show ?thesis
  proof (cases "\<exists>x \<in> set s. \<not> is_space x")
    case True
    then have "dropWhile is_space (s @ [c]) = dropWhile is_space s @ [c]"
      by (simp add: dropWhile_append)
    then show ?thesis using c by (simp add: js_trim_def)
  next
    case False
    have all: "dropWhile is_space xs = []" if "\<forall>x \<in> set xs. is_space x" for xs
      using that by (induction xs) auto
    have "dropWhile is_space s = []" "dropWhile is_space (s @ [c]) = []"
      by (rule all; use False c in auto)+
    then show ?thesis by (simp only: js_trim_def)
  qed
qed

lemma js_trim_dropWhile [simp]: "js_trim (dropWhile is_space s) = js_trim s"
  by (simp add: js_trim_def)

lemma js_trim_rdropWhile [simp]: "js_trim (rev (dropWhile is_space (rev s))) = js_trim s"
  by (induction s rule: rev_induct) auto

lemma js_trim_idem [simp]: "js_trim (js_trim s) = js_trim s"
  by (simp add: js_trim_def [of s])

text \<open>Trimming a part that holds a separator trims each half on its outer side.\<close>

lemma js_trim_cut:
  assumes "\<not> is_space c"
  shows "js_trim (a @ c # b) = dropWhile is_space a @ c # rev (dropWhile is_space (rev b))"
proof -
  have "dropWhile is_space (a @ c # b) = dropWhile is_space a @ c # b"
    using assms by (induction a) auto
  moreover have "dropWhile is_space (rev (dropWhile is_space a @ c # b)) =
      dropWhile is_space (rev b) @ c # rev (dropWhile is_space a)"
    using assms by (induction b rule: rev_induct) auto
  ultimately show ?thesis by (simp add: js_trim_def)
qed

lemma cut_at_js_trim:
  assumes "\<not> is_space c"
  shows "cut_at c (js_trim s) = (case cut_at c s of None \<Rightarrow> None
     | Some (a, b) \<Rightarrow> Some (dropWhile is_space a, rev (dropWhile is_space (rev b))))"
proof (cases "cut_at c s")
  case None
  then have "c \<notin> set (js_trim s)" using js_trim_subset [of s] by (auto simp: cut_at_None)
  then have "cut_at c (js_trim s) = None" by (simp add: cut_at_None)
  then show ?thesis using None by simp
next
  case (Some ab)
  obtain a b where ab: "ab = (a, b)" by (cases ab)
  with Some have s: "s = a @ c # b" "c \<notin> set a" by (auto dest: cut_at_Some)
  then have "c \<notin> set (dropWhile is_space a)" by (auto dest: set_dropWhileD)
  then show ?thesis using assms s Some ab by (simp add: js_trim_cut cut_at_append)
qed

lemma eq_not_space [simp]: "\<not> is_space CHR ''=''"
  by (simp add: is_space_def)

lemma space_space [simp]: "is_space CHR '' ''"
  by (simp add: is_space_def)

lemma cookie_part_value_trim [simp]: "cookie_part_value n (js_trim p) = cookie_part_value n p"
  by (auto simp: cut_at_js_trim split: option.splits)

lemma cookie_part_value_space [simp]: "cookie_part_value n (CHR '' '' # p) = cookie_part_value n p"
  using cookie_part_value_trim [of n "CHR '' '' # p"] cookie_part_value_trim [of n p]
  by (metis js_trim_cons_space space_space)

declare cookie_part_value.simps [simp del]

lemma part_kept_value: "part_kept name p \<Longrightarrow> cookie_part_value name p = None"
  by (auto simp: part_kept_def cookie_part_value.simps split: option.splits)

lemma part_dropped_value:
  "\<not> part_kept name p \<Longrightarrow> name' \<noteq> name \<Longrightarrow> cookie_part_value name' p = None"
  by (auto simp: part_kept_def cookie_part_value.simps split: option.splits)

lemma cookie_part_value_Nil [simp]: "cookie_part_value name [] = None"
  by (simp add: cookie_part_value.simps)

subsection \<open>Splitting what was joined\<close>

lemma js_split_join:
  "ps \<noteq> [] \<Longrightarrow> \<forall>p \<in> set ps. CHR '';'' \<notin> set p \<Longrightarrow>
   js_split CHR '';'' (js_join ''; '' ps) = hd ps # map ((#) CHR '' '') (tl ps)"
proof (induction "''; ''" ps rule: js_join.induct)
  case (2 p)
  then show ?case by (simp add: js_split_no_sep)
next
  case (3 p q ps)
  have tail: "js_split c (CHR '' '' # s) = (CHR '' '' # hd (js_split c s)) # tl (js_split c s)"
    if "c \<noteq> CHR '' ''" for c s
    using that js_split_nonempty [of c s] by (auto split: list.splits simp del: js_split_nonempty)
  from 3 show ?case
    by (simp add: js_split_append tail del: js_split.simps js_join.simps(1,2))
qed simp

lemma map_filter_values_join:
  "ps \<noteq> [] \<Longrightarrow> \<forall>p \<in> set ps. CHR '';'' \<notin> set p \<Longrightarrow>
   List.map_filter (cookie_part_value n) (js_split CHR '';'' (js_join ''; '' ps)) =
   List.map_filter (cookie_part_value n) ps"
  by (cases ps) (simp_all add: js_split_join map_filter_def comp_def filter_map)

subsection \<open>Stripping the session cookie\<close>

definition kept_parts :: "string \<Rightarrow> string \<Rightarrow> string list" where
  "kept_parts name raw = filter (part_kept name) (map js_trim (js_split CHR '';'' raw))"

lemma kept_parts_free: "\<forall>p \<in> set (kept_parts name raw). CHR '';'' \<notin> set p"
  using js_trim_subset js_split_parts_free [of _ "CHR '';''" raw] by (fastforce simp: kept_parts_def)

lemma kept_parts_nonempty: "p \<in> set (kept_parts name raw) \<Longrightarrow> p \<noteq> []"
  by (auto simp: kept_parts_def part_kept_def)

lemma js_join_eq_Nil: "\<forall>p \<in> set ps. p \<noteq> [] \<Longrightarrow> ps \<noteq> [] \<Longrightarrow> js_join sep ps \<noteq> []"
  by (induction sep ps rule: js_join.induct) auto

lemma strip_cookie_kept:
  "strip_cookie h name = (case cookie_raw h of None \<Rightarrow> None | Some raw \<Rightarrow>
     if kept_parts name raw = [] then None else Some (js_join ''; '' (kept_parts name raw)))"
  by (simp add: strip_cookie_def kept_parts_def Let_def split: option.splits)

lemma map_filter_kept:
  "name' \<noteq> name \<Longrightarrow> List.map_filter (cookie_part_value name') (filter (part_kept name) (map js_trim ps))
     = List.map_filter (cookie_part_value name') ps"
proof (induction ps)
  case (Cons p ps)
  have "\<not> part_kept name (js_trim p) \<Longrightarrow> cookie_part_value name' p = None"
    using part_dropped_value [of name "js_trim p" name'] Cons.prems by simp
  with Cons show ?case by (auto simp: map_filter_simps split: option.splits)
qed simp

lemma get_cookie_values_stripped:
  "get_cookie_values (map_option HStr (strip_cookie h name)) name' =
     (if name' = name then [] else get_cookie_values h name')"
proof (cases "cookie_raw h")
  case None
  then show ?thesis by (simp add: strip_cookie_kept get_cookie_values_def)
next
  case (Some raw)
  let ?k = "kept_parts name raw"
  have same: "List.map_filter (cookie_part_value name') ?k =
      (if name' = name then [] else List.map_filter (cookie_part_value name') (js_split CHR '';'' raw))"
  proof (cases "name' = name")
    case True
    have "List.map_filter (cookie_part_value name) ?k = []"
      by (auto simp: kept_parts_def map_filter_def filter_empty_conv dest: part_kept_value)
    then show ?thesis using True by simp
  next
    case False
    then show ?thesis by (simp add: kept_parts_def map_filter_kept)
  qed
  show ?thesis
  proof (cases "?k = []")
    case True
    then show ?thesis using same Some by (auto simp: strip_cookie_kept get_cookie_values_def map_filter_simps)
  next
    case False
    have "js_join ''; '' ?k \<noteq> []" using False kept_parts_nonempty js_join_eq_Nil by blast
    moreover have "List.map_filter (cookie_part_value name') (js_split CHR '';'' (js_join ''; '' ?k)) =
        List.map_filter (cookie_part_value name') ?k"
      using map_filter_values_join [OF False kept_parts_free] .
    ultimately show ?thesis using same Some False
      by (auto simp: strip_cookie_kept get_cookie_values_def)
  qed
qed

subsection \<open>What a header lookup finds upstream\<close>

lemma keep_raw_other: "name \<noteq> k \<Longrightarrow> om_get (keep_raw raw name hs) k = om_get hs k"
  by (simp add: keep_raw_def)

lemma forwarded_cookie:
  "om_get (forwarded_headers hs gate raw) ''cookie'' = map_option HStr (strip_cookie (om_get hs ''cookie'') COOKIE_NAME)"
  by (simp add: forwarded_headers_def Let_def keep_raw_other GATE_HEADER_def split: option.splits)

lemma forwarded_gate:
  "om_get (forwarded_headers hs gate raw) ''x-gc-gate'' = (if gate = [] then None else Some (HStr gate))"
  by (simp add: forwarded_headers_def Let_def keep_raw_other GATE_HEADER_def split: option.splits)

lemma forwarded_dropped:
  "k \<in> {''x-gc-files-control'', ''x-gc-runtime-control'', ''x-ide-proxy-key''} \<Longrightarrow>
   om_get (forwarded_headers hs gate raw) k = None"
  by (auto simp: forwarded_headers_def Let_def keep_raw_other GATE_HEADER_def split: option.splits)

lemma forwarded_other:
  "k \<notin> {''cookie'', ''x-gc-gate'', ''x-gc-files-control'', ''x-gc-runtime-control'', ''x-ide-proxy-key'',
         ''x-gc-workspace-id'', ''x-gc-workspace-epoch''} \<Longrightarrow>
   om_get (forwarded_headers hs gate raw) k = om_get hs k"
  by (auto simp: forwarded_headers_def Let_def keep_raw_other GATE_HEADER_def split: option.splits)

subsection \<open>Credentials\<close>

text \<open>A session cookie value that this gate's key and project vouch for until \<open>e\<close>.\<close>

definition genuine_cookie :: "'a platform_scheme \<Rightarrow> gate_ctx \<Rightarrow> string \<Rightarrow> nat \<Rightarrow> bool" where
  "genuine_cookie pf ctx v e \<longleftrightarrow> (\<exists>ex. list_all is_digit ex \<and> ex \<noteq> [] \<and> parse_dec ex = e \<and>
     v = ''v1.'' @ ex @ ''.'' @ hmac pf (key ctx) (''cookie|'' @ project_id ctx @ ''|'' @ ex))"

lemma js_split_join_dots: "js_split CHR ''.'' v = [a, b, c] \<Longrightarrow> v = a @ ''.'' @ b @ ''.'' @ c"
proof -
  have join: "js_join [c] (js_split c s) = s" for c s
  proof (induction s)
    case (Cons x xs)
    obtain p ps where "js_split c xs = p # ps" by (cases "js_split c xs") auto
    with Cons show ?case by (cases ps) auto
  qed simp
  assume "js_split CHR ''.'' v = [a, b, c]"
  with join [of "CHR ''.''" v] show ?thesis by simp
qed

lemma verify_cookie_Inr:
  assumes "verify_cookie pf ctx v = Inr e"
  shows "genuine_cookie pf ctx v e \<and> now_s ctx < of_nat e \<and> key ctx \<noteq> [] \<and> project_id ctx \<noteq> []"
proof -
  from assms obtain ex sig where m: "match_cookie v = Some (ex, sig)" and k: "key ctx \<noteq> []" "project_id ctx \<noteq> []"
    by (auto simp: verify_cookie_def split: if_splits option.splits)
  with assms have "sig = hmac pf (key ctx) (''cookie|'' @ project_id ctx @ ''|'' @ ex)"
    "parse_dec ex = e" "now_s ctx < of_nat e"
    by (auto simp: verify_cookie_def safe_equal_strings_def cookie_signature_def Let_def split: if_splits)
  moreover from m have "v = ''v1'' @ ''.'' @ ex @ ''.'' @ sig" "list_all is_digit ex" "ex \<noteq> []"
    by (auto simp: match_cookie_def dest: js_split_join_dots split: list.splits if_splits)
  ultimately show ?thesis using k by (auto simp: genuine_cookie_def)
qed

lemma first_valid_Inr: "first_valid pf ctx vs r = Inr e \<Longrightarrow> \<exists>v \<in> set vs. verify_cookie pf ctx v = Inr e"
  by (induction vs arbitrary: r) (auto split: sum.splits)

lemma check_cookie_header_Inr:
  "check_cookie_header pf ctx h = Inr e \<Longrightarrow>
   \<exists>v \<in> set (get_cookie_values h COOKIE_NAME). verify_cookie pf ctx v = Inr e"
  by (auto simp: check_cookie_header_def Let_def split: if_splits dest!: first_valid_Inr in_set_takeD)

text \<open>A request that carries a genuine cookie that has not expired.\<close>

definition signed_in :: "'a platform_scheme \<Rightarrow> gate_ctx \<Rightarrow> request \<Rightarrow> bool" where
  "signed_in pf ctx req \<longleftrightarrow> (\<exists>v \<in> set (get_cookie_values (hdr req ''cookie'') COOKIE_NAME). \<exists>e.
     genuine_cookie pf ctx v e \<and> now_s ctx < of_nat e)"

lemma check_cookie_signed_in:
  "check_cookie_header pf ctx (hdr req ''cookie'') = Inr e \<Longrightarrow> signed_in pf ctx req"
  by (auto simp: signed_in_def dest!: check_cookie_header_Inr verify_cookie_Inr)

lemma authorize_proxy:
  assumes "authorize pf req ctx = Proxy via"
  shows "auth_disabled ctx \<or> signed_in pf ctx req"
  using assms check_cookie_signed_in
  by (auto simp: authorize_def Let_def split: option.splits if_splits sum.splits)

text \<open>The origin rule for state-changing trusted routes.\<close>

definition origin_ok :: "request \<Rightarrow> string list \<Rightarrow> bool" where
  "origin_ok req allowed \<longleftrightarrow> hdr req ''origin'' = None \<or> origin_allowed (header_string (hdr req ''origin'')) allowed"

lemma authorize_proxy_origin:
  "authorize pf req ctx = Proxy via \<Longrightarrow> \<not> auth_disabled ctx \<Longrightarrow>
   trusted_write (req_method req) (routing_path pf (req_url req)) \<Longrightarrow> origin_ok req (allowed_origins ctx)"
  by (auto simp: authorize_def origin_ok_def Let_def trusted_write_def split: option.splits if_splits sum.splits)

lemma authorize_upgrade_proxy:
  assumes "authorize_upgrade pf req ctx = Proxy via"
  shows "auth_disabled ctx \<or> (signed_in pf ctx req \<and> origin_ok req (allowed_origins ctx))"
  using assms check_cookie_signed_in
  by (auto simp: authorize_upgrade_def origin_ok_def split: if_splits sum.splits)

lemma server_caller_pass:
  "server_caller cfg k req m = None \<Longrightarrow>
   k \<noteq> [] \<and> single_header req ''x-ide-proxy-key'' = Some k \<and> hdr req ''cookie'' = None \<and>
   hdr req ''origin'' = None \<and> single_header req ''x-gc-project-id'' = Some (cfg_project cfg) \<and>
   machine_id cfg \<noteq> [] \<and> single_header req ''x-gc-machine-id'' = Some (machine_id cfg) \<and> req_method req = m"
  by (auto simp: server_caller_def safe_equal_strings_def Let_def split: if_splits)

lemma proxy_request_headers:
  "up_headers (proxy_request lib cfg gate b req) =
     (case b of None \<Rightarrow> forwarded_headers (req_headers req) gate (raw_headers req)
      | Some c \<Rightarrow> if c = [] then forwarded_headers (req_headers req) gate (raw_headers req)
                  else om_set ''x-gc-files-control'' (HStr c) (forwarded_headers (req_headers req) gate (raw_headers req)))"
  by (simp add: proxy_request_def Let_def split: option.splits)

text \<open>The forwarding cases of the dispatch.\<close>

lemma handle_request_forward:
  assumes "handle_request lib cfg sec used now req = ForwardTo u cors"
  obtains (bootstrap) "req_url req = ''/files/info''" "server_caller cfg (sec_key sec) req ''GET'' = None"
      "control_ok (sec_control sec)" "u = proxy_request lib cfg (sec_gate sec) (Some (sec_control sec)) req"
    | (browser) via where "\<not> internal_path lib (req_url req)" "routing_path lib (req_url req) \<noteq> []"
      "authorize lib req (make_context cfg sec used now) = Proxy via"
      "u = proxy_request lib cfg (sec_gate sec) None req"
  using assms
  by (auto simp: handle_request_def Let_def split: if_splits option.splits decision.splits bool.splits)

subsection \<open>A freshly issued cookie\<close>

lemma is_b64_plain: "is_b64 c \<Longrightarrow> \<not> is_space c \<and> c \<noteq> CHR '';'' \<and> c \<noteq> CHR ''.''"
  by (auto simp: char_class_defs)

lemma is_digit_plain: "is_digit c \<Longrightarrow> \<not> is_space c \<and> c \<noteq> CHR '';'' \<and> c \<noteq> CHR ''.''"
  by (auto simp: char_class_defs)

text \<open>HMAC-SHA-256 in base64url: thirty-two bytes, forty-three characters without padding.\<close>

definition mac_shape :: "'a platform_scheme \<Rightarrow> bool" where
  "mac_shape pf \<longleftrightarrow> (\<forall>k d. length (hmac pf k d) = 43 \<and> list_all is_b64 (hmac pf k d))"

lemma dec_int_nonneg: "0 \<le> n \<Longrightarrow> dec_int n = dec_nat (nat n)"
  by (simp add: dec_int_def)

lemma issued_value:
  assumes "issue_cookie pf ctx = Some c" "0 \<le> now_s ctx" "mac_shape pf"
  obtains ex sig where "cookie_value c = ''v1.'' @ ex @ ''.'' @ sig" "ex = dec_nat (nat (cookie_exp c))"
    "sig = hmac pf (key ctx) (''cookie|'' @ project_id ctx @ ''|'' @ ex)"
    "cookie_exp c = \<lfloor>now_s ctx\<rfloor> + 43200" "key ctx \<noteq> []" "project_id ctx \<noteq> []"
    "length sig = 43" "list_all is_b64 sig" "list_all is_digit ex"
proof -
  have "0 \<le> \<lfloor>now_s ctx\<rfloor> + 43200" using assms(2) by (simp add: zero_le_floor add_nonneg_nonneg)
  with assms that show ?thesis
    by (auto simp: issue_cookie_def Let_def cookie_signature_def COOKIE_MAX_AGE_S_def dec_int_nonneg
        mac_shape_def dec_nat_digits split: if_splits)
qed

lemma issued_part:
  assumes "v = ''v1.'' @ ex @ ''.'' @ sig" "list_all is_digit ex" "length sig = 43" "list_all is_b64 sig"
  shows "cookie_part_value COOKIE_NAME (COOKIE_NAME @ ''='' @ v) = Some v"
    and "CHR '';'' \<notin> set (COOKIE_NAME @ ''='' @ v)"
proof -
  have sig: "sig \<noteq> []" using assms(3) by auto
  then have "last v = last sig" using assms(1) by simp
  moreover have "is_b64 (last sig)" using sig assms(4) by (auto simp: list_all_iff)
  ultimately have "\<not> is_space (last v)" by (simp add: is_b64_plain)
  moreover have "\<not> is_space (hd v)" "v \<noteq> []" using assms(1) by (simp_all add: is_space_def)
  ultimately have v: "js_trim v = v" by (simp add: js_trim_id)
  have "js_trim COOKIE_NAME = COOKIE_NAME"
    by (rule js_trim_id) (simp_all add: COOKIE_NAME_def is_space_def)
  moreover have "cut_at CHR ''='' (COOKIE_NAME @ ''='' @ v) = Some (COOKIE_NAME, v)"
    by (simp add: cut_at_append COOKIE_NAME_def)
  moreover have "unquote v = v" using assms(1) by (simp add: unquote_def)
  ultimately show "cookie_part_value COOKIE_NAME (COOKIE_NAME @ ''='' @ v) = Some v"
    using v by (simp add: cookie_part_value.simps)
  show "CHR '';'' \<notin> set (COOKIE_NAME @ ''='' @ v)"
    using assms by (auto simp: COOKIE_NAME_def list_all_iff dest: is_b64_plain is_digit_plain)
qed

lemma issued_match:
  assumes "v = ''v1.'' @ ex @ ''.'' @ sig" "list_all is_digit ex" "length sig = 43" "list_all is_b64 sig"
    "ex \<noteq> []" "length ex \<le> 15"
  shows "match_cookie v = Some (ex, sig)"
proof -
  have "CHR ''.'' \<notin> set ex" "CHR ''.'' \<notin> set sig"
    using assms by (auto simp: list_all_iff dest: is_b64_plain is_digit_plain)
  then have "js_split CHR ''.'' v = [''v1'', ex, sig]"
    using assms(1) js_split_append [of "CHR ''.''" "''v1''" "ex @ ''.'' @ sig"]
    by (simp add: js_split_append js_split_no_sep)
  then show ?thesis using assms by (simp add: match_cookie_def)
qed

lemma get_cookie_values_among:
  assumes "\<forall>p \<in> set (before @ after). CHR '';'' \<notin> set p \<and> cookie_part_value name p = None"
    and "CHR '';'' \<notin> set q" "cookie_part_value name q = Some v" "q \<noteq> []"
  shows "get_cookie_values (Some (HStr (js_join ''; '' (before @ q # after)))) name = [v]"
proof -
  have "js_join ''; '' (before @ q # after) \<noteq> []"
  proof (cases before)
    case Nil
    then show ?thesis using assms(4) by (cases after) auto
  next
    case (Cons b bs)
    then show ?thesis by (cases bs) auto
  qed
  moreover have none: "List.map_filter (cookie_part_value name) ps = []"
    if "\<forall>p \<in> set ps. cookie_part_value name p = None" for ps
    using that by (induction ps) (auto simp: map_filter_simps)
  moreover have "List.map_filter (cookie_part_value name) (before @ q # after) = [v]"
    using assms none [of before] none [of after] by (simp add: map_filter_def)
  ultimately show ?thesis
    using assms map_filter_values_join [of "before @ q # after" name] by (simp add: get_cookie_values_def)
qed

end
