(* ===== verification/Gate_Props.thy ===== *)
theory Gate_Props
  imports Gate_Facts
begin

text \<open>
  The gate's properties. Their hypotheses are met by the sample library \<open>sample_lib\<close>, which
  signs everything with the same forty-three characters and knows one token.
\<close>

definition sample_claims :: js where
  "sample_claims = JObj [(''aud'', JStr ''ide-proxy''), (''exp'', JNum 100), (''project_id'', JStr ''p1''),
     (''jti'', JStr ''j1'')]"

definition sample_sig :: string where
  "sample_sig = ''AAAAAAAAAAAAAAAAAAAAAAAAAAAAAAAAAAAAAAAAAAA''"

definition sample_lib :: http_lib where
  "sample_lib =
    \<lparr>hmac = (\<lambda>k d. sample_sig),
     json_of_b64 = (\<lambda>s. if s = ''h'' then Some (JObj [(''alg'', JStr ''HS256'')])
                        else if s = ''c'' then Some sample_claims else None),
     url_parts = (\<lambda>_. None), norm_path = Some, json_parse = (\<lambda>_. None), json_bytes = (\<lambda>_. None),
     query_token = (\<lambda>_. []), uri_decode = Some, date_ms = (\<lambda>_. None), to_number = (\<lambda>_. None)\<rparr>"

definition sample_token :: string where
  "sample_token = ''h.c.'' @ sample_sig"

definition sample_ctx :: gate_ctx where
  "sample_ctx = \<lparr>key = ''k'', project_id = ''p1'', auth_disabled = False,
     allowed_origins = [''https://geocluster.net''], used_jtis = Some [], now_s = 0\<rparr>"

definition sample_cfg :: gate_config where
  "sample_cfg = \<lparr>listen_port = 3000, upstream_port = 3001, files_port = Some 3002, key_file = ''k'',
     gate_file = ''g'', files_control_file = ''f'', cfg_project = ''p1'', machine_id = ''m1'',
     auth_disabled_requested = False, cfg_auth_disabled = False, cfg_origins = [''https://geocluster.net''],
     frame_ancestors = ''x''\<rparr>"

definition sample_secrets :: secrets where
  "sample_secrets = \<lparr>sec_key = ''k'', sec_gate = ''g'', sec_control = replicate 64 CHR ''a''\<rparr>"

definition sample_cookie :: string where
  "sample_cookie = ''v1.43200.'' @ sample_sig"

definition sample_request :: "(string \<times> hval) list \<Rightarrow> request" where
  "sample_request extra = \<lparr>req_method = ''GET'', req_url = ''/api'',
     req_headers = (''cookie'', HStr (''a=1; '' @ COOKIE_NAME @ ''='' @ sample_cookie)) # extra,
     raw_headers = []\<rparr>"

lemmas sample_defs = sample_claims_def sample_sig_def sample_lib_def sample_token_def sample_ctx_def
  sample_cfg_def sample_secrets_def sample_cookie_def sample_request_def

lemma sample_chars: "is_b64 CHR ''A''" "is_b64 CHR ''h''" "is_b64 CHR ''c''"
  by (simp_all add: char_class_defs)

lemma sample_split: "js_split CHR ''.'' sample_token = [''h'', ''c'', sample_sig]"
  by (simp add: sample_token_def sample_sig_def)

lemma sample_decode: "decode_json_segment sample_lib ''h'' = Some (JObj [(''alg'', JStr ''HS256'')])"
  "decode_json_segment sample_lib ''c'' = Some sample_claims" "is_b64url sample_sig"
  "length sample_token = 47" "sample_token \<noteq> []" "hmac sample_lib k d = sample_sig"
  by (simp_all add: decode_json_segment_def is_b64url_def sample_chars sample_lib_def sample_claims_def
      sample_sig_def sample_token_def)

lemma sample_verify:
  "verify_token sample_lib (sample_ctx\<lparr>used_jtis := Some u, now_s := t\<rparr>) sample_token =
     (if 100 \<le> t - CLOCK_SKEW_S then Inl ''expired'' else if om_has u ''j1'' then Inl ''jti-reused'' else Inr sample_claims)"
  by (simp add: verify_token_def sample_split sample_decode check_claims_def safe_equal_strings_def
      sample_ctx_def MAX_TOKEN_LENGTH_def MAX_JTI_LENGTH_def TOKEN_AUDIENCE_def sample_claims_def)

lemma sample_exchange:
  "exchange_token sample_lib (sample_ctx\<lparr>used_jtis := Some u, now_s := t\<rparr>) sample_token =
     (if 100 \<le> t - CLOCK_SKEW_S then (Inl ''expired'', sample_ctx\<lparr>used_jtis := Some u, now_s := t\<rparr>)
      else if om_has u ''j1'' then (Inl ''jti-reused'', sample_ctx\<lparr>used_jtis := Some u, now_s := t\<rparr>)
      else (Inr \<lparr>set_cookie = cookie_header (the (issue_cookie sample_lib (sample_ctx\<lparr>used_jtis := Some u, now_s := t\<rparr>))),
                 ex_sub = None\<rparr>,
            sample_ctx\<lparr>used_jtis := Some (mark_jti_used u ''j1'' 100 t), now_s := t\<rparr>))"
  unfolding exchange_token_def
  by (simp add: sample_verify) (simp add: sample_ctx_def sample_claims_def issue_cookie_def Let_def)

lemma sample_start: "sample_ctx\<lparr>now_s := t\<rparr> = sample_ctx\<lparr>used_jtis := Some [], now_s := t\<rparr>"
  by (simp add: sample_ctx_def)

text \<open>Claim C16. One-time tokens: from an empty replay store, with authentication on and a clock that
  does not go back, no token string is accepted twice, although entries of the store are dropped
  once their token has expired.\<close>

theorem token_accepted_once:
  assumes "used_jtis ctx = Some []" and "\<not> auth_disabled ctx" and "sorted (map fst attempts)"
  shows "distinct (exchanges pf ctx attempts)"
  using exchanges_distinct [OF assms(1) om_ok_Nil assms(2,3)] .

theorem token_accepted_once_witness:
  "distinct (exchanges sample_lib sample_ctx [(0, sample_token), (1, sample_token), (129, sample_token)])
   \<and> exchanges sample_lib sample_ctx [(0, sample_token), (1, sample_token), (129, sample_token)] = [sample_token]"
proof
  show "distinct (exchanges sample_lib sample_ctx [(0, sample_token), (1, sample_token), (129, sample_token)])"
    by (rule token_accepted_once) (simp_all add: sample_ctx_def)
  show "exchanges sample_lib sample_ctx [(0, sample_token), (1, sample_token), (129, sample_token)] = [sample_token]"
    by (simp add: sample_start sample_exchange mark_jti_used_def om_drop_def om_set_def
        om_has_def om_get_def CLOCK_SKEW_S_def)
qed

text \<open>Claim C20. Round trip of the session cookie: the cookie an exchange mints, sent back in a cookie
  header between any other cookies and checked under the same key and project, is accepted with its own
  expiry until that moment and refused as expired from then on.\<close>

theorem cookie_roundtrip:
  assumes "issue_cookie pf ctx = Some c" and "mac_shape pf"
    and "0 \<le> now_s ctx" and "now_s ctx < 10 ^ 14"
    and "key ctx' = key ctx" and "project_id ctx' = project_id ctx"
    and "\<forall>p \<in> set (before @ after). CHR '';'' \<notin> set p \<and> cookie_part_value COOKIE_NAME p = None"
  shows "check_cookie_header pf ctx'
      (Some (HStr (js_join ''; '' (before @ (COOKIE_NAME @ ''='' @ cookie_value c) # after)))) =
    (if of_int (cookie_exp c) \<le> now_s ctx' then Inl ''cookie-expired'' else Inr (nat (cookie_exp c)))"
proof -
  obtain ex sig where v: "cookie_value c = ''v1.'' @ ex @ ''.'' @ sig" "ex = dec_nat (nat (cookie_exp c))"
    "sig = hmac pf (key ctx) (''cookie|'' @ project_id ctx @ ''|'' @ ex)"
    "cookie_exp c = \<lfloor>now_s ctx\<rfloor> + 43200" "key ctx \<noteq> []" "project_id ctx \<noteq> []"
    "length sig = 43" "list_all is_b64 sig" "list_all is_digit ex"
    using issued_value [OF assms(1,3,2)] by blast
  have "0 \<le> \<lfloor>now_s ctx\<rfloor>" "\<lfloor>now_s ctx\<rfloor> < 100000000000000" using assms(3,4) by (simp_all add: floor_less_iff)
  then have exp: "0 \<le> cookie_exp c" and "cookie_exp c < 1000000000000000" using v(4) by linarith+
  then have exp_nat: "nat (cookie_exp c) < 10 ^ 15" by (simp add: nat_less_iff)
  have "length ex \<le> 15" "ex \<noteq> []" using exp_nat dec_nat_length [of 15] v(2) by simp_all
  then have m: "match_cookie (cookie_value c) = Some (ex, sig)"
    using v by (intro issued_match) auto
  have "get_cookie_values (Some (HStr (js_join ''; '' (before @ (COOKIE_NAME @ ''='' @ cookie_value c) # after)))) COOKIE_NAME
      = [cookie_value c]"
    by (rule get_cookie_values_among [OF assms(7)])
       (use issued_part [OF v(1,9,7,8)] in \<open>auto simp: COOKIE_NAME_def\<close>)
  moreover have "verify_cookie pf ctx' (cookie_value c) =
      (if of_int (cookie_exp c) \<le> now_s ctx' then Inl ''expired'' else Inr (nat (cookie_exp c)))"
    using m v exp assms(5,6)
    by (simp add: verify_cookie_def safe_equal_strings_def cookie_signature_def Let_def)
  ultimately show ?thesis by (simp add: check_cookie_header_def MAX_COOKIE_CANDIDATES_def)
qed

lemma sample_mac: "mac_shape sample_lib"
  by (simp add: mac_shape_def sample_lib_def sample_sig_def sample_chars)

theorem cookie_roundtrip_witness:
  "\<exists>c. issue_cookie sample_lib sample_ctx = Some c \<and> check_cookie_header sample_lib (sample_ctx\<lparr>now_s := 50\<rparr>)
     (Some (HStr (js_join ''; '' ([''a=1''] @ (COOKIE_NAME @ ''='' @ cookie_value c) # [])))) = Inr 43200"
proof -
  let ?c = "the (issue_cookie sample_lib sample_ctx)"
  have c: "issue_cookie sample_lib sample_ctx = Some ?c" "cookie_exp ?c = 43200"
    by (simp_all add: issue_cookie_def sample_ctx_def Let_def COOKIE_MAX_AGE_S_def)
  have "check_cookie_header sample_lib (sample_ctx\<lparr>now_s := 50\<rparr>)
     (Some (HStr (js_join ''; '' ([''a=1''] @ (COOKIE_NAME @ ''='' @ cookie_value ?c) # [])))) =
    (if of_int (cookie_exp ?c) \<le> now_s (sample_ctx\<lparr>now_s := 50\<rparr>) then Inl ''cookie-expired''
     else Inr (nat (cookie_exp ?c)))"
    by (rule cookie_roundtrip [OF c(1) sample_mac])
       (simp_all add: sample_ctx_def cookie_part_value.simps COOKIE_NAME_def js_trim_def is_space_def)
  then show ?thesis using c by (auto simp: sample_ctx_def)
qed

text \<open>Claim C18. Whatever the gate forwards over HTTP is authenticated: either it is the file-service
  bootstrap of a server-side caller that presented the gate key for this very project and machine and
  no browser credential, or it is no internal path and authentication is off (never on a machine of
  the fleet) or the request carries an unexpired session cookie signed by this gate for this project.
  A state-changing trusted route is moreover forwarded only for an allow-listed origin or none.\<close>

theorem forwarded_authenticated:
  assumes "handle_request lib cfg sec used now req = ForwardTo u cors"
  shows "(req_url req = ''/files/info'' \<and> sec_key sec \<noteq> [] \<and>
          single_header req ''x-ide-proxy-key'' = Some (sec_key sec) \<and> hdr req ''cookie'' = None \<and>
          hdr req ''origin'' = None \<and> single_header req ''x-gc-project-id'' = Some (cfg_project cfg) \<and>
          single_header req ''x-gc-machine-id'' = Some (machine_id cfg) \<and> machine_id cfg \<noteq> []) \<or>
         (\<not> internal_path lib (req_url req) \<and>
          (cfg_auth_disabled cfg \<or> signed_in lib (make_context cfg sec used now) req) \<and>
          (\<not> cfg_auth_disabled cfg \<longrightarrow> trusted_write (req_method req) (routing_path lib (req_url req)) \<longrightarrow>
             origin_ok req (cfg_origins cfg)))"
  using assms
proof (cases rule: handle_request_forward)
  case bootstrap
  then show ?thesis using server_caller_pass by blast
next
  case (browser via)
  from browser(3) have "cfg_auth_disabled cfg \<or> signed_in lib (make_context cfg sec used now) req"
    using authorize_proxy by (fastforce simp: make_context_def)
  moreover have "\<not> cfg_auth_disabled cfg \<Longrightarrow> trusted_write (req_method req) (routing_path lib (req_url req)) \<Longrightarrow>
      origin_ok req (cfg_origins cfg)"
    using authorize_proxy_origin [OF browser(3)] by (simp add: make_context_def)
  ultimately show ?thesis using browser(1) by blast
qed

lemma sample_cookie_values:
  "get_cookie_values (hdr (sample_request extra) ''cookie'') COOKIE_NAME = [sample_cookie]"
proof -
  have v: "sample_cookie = ''v1.'' @ ''43200'' @ ''.'' @ sample_sig" "list_all is_digit ''43200''"
    "length sample_sig = 43" "list_all is_b64 sample_sig"
    by (simp_all add: sample_cookie_def sample_sig_def sample_chars char_class_defs)
  have "get_cookie_values (Some (HStr (js_join ''; '' ([''a=1''] @ (COOKIE_NAME @ ''='' @ sample_cookie) # [])))) COOKIE_NAME
      = [sample_cookie]"
    by (rule get_cookie_values_among)
       (use issued_part [OF v] in \<open>auto simp: COOKIE_NAME_def cookie_part_value.simps js_trim_def is_space_def\<close>)
  then show ?thesis by (simp add: hdr_def om_get_def sample_request_def)
qed

lemma sample_check: "check_cookie_header sample_lib (make_context sample_cfg sample_secrets [] 7)
    (hdr (sample_request extra) ''cookie'') = Inr 43200"
proof -
  have "match_cookie sample_cookie = Some (''43200'', sample_sig)"
    by (rule issued_match) (simp_all add: sample_cookie_def sample_sig_def sample_chars char_class_defs)
  then have "verify_cookie sample_lib (make_context sample_cfg sample_secrets [] 7) sample_cookie = Inr 43200"
    by (simp add: verify_cookie_def make_context_def sample_cfg_def sample_secrets_def safe_equal_strings_def
        cookie_signature_def sample_decode parse_dec_def)
  then show ?thesis by (simp add: check_cookie_header_def sample_cookie_values MAX_COOKIE_CANDIDATES_def)
qed

lemma sample_routing: "split_request_url sample_lib ''/api'' = Some (''/api'', [])"
  "routing_path sample_lib ''/api'' = ''/api''"
  "req_method (sample_request extra) = ''GET''" "req_url (sample_request extra) = ''/api''"
  by (simp_all add: routing_path_def split_request_url_def before_char_def sample_request_def sample_lib_def)

lemma sample_handled:
  "handle_request sample_lib sample_cfg sample_secrets [] 7 (sample_request []) =
     ForwardTo (proxy_request sample_lib sample_cfg (sec_gate sample_secrets) None (sample_request []))
       (cors_headers (header_string (hdr (sample_request []) ''origin'')) (cfg_origins sample_cfg))"
  unfolding handle_request_def authorize_def
  by (simp add: sample_routing sample_check internal_path_def is_health_path_def trusted_write_def Let_def)
     (simp add: make_context_def sample_cfg_def sample_secrets_def)

theorem forwarded_authenticated_witness:
  "signed_in sample_lib (make_context sample_cfg sample_secrets [] 7) (sample_request [])"
  using forwarded_authenticated [OF sample_handled] by (simp add: sample_routing) (simp add: sample_cfg_def)

text \<open>Claim C19. Nothing of the gate's own credentials leaks upstream and nothing can be smuggled past it:
  in whatever the gate forwards, the session cookie is gone while every other cookie keeps its values, the
  gate header is exactly the gate secret, client-supplied control and key headers are absent (the
  file-service control secret is present only on the bootstrap), and every other header is untouched.\<close>

theorem forwarded_credentials:
  assumes "handle_request lib cfg sec used now req = ForwardTo u cors"
  shows "get_cookie_values (om_get (up_headers u) ''cookie'') name =
           (if name = COOKIE_NAME then [] else get_cookie_values (hdr req ''cookie'') name) \<and>
         om_get (up_headers u) ''x-gc-gate'' = (if sec_gate sec = [] then None else Some (HStr (sec_gate sec))) \<and>
         om_get (up_headers u) ''x-ide-proxy-key'' = None \<and>
         om_get (up_headers u) ''x-gc-runtime-control'' = None \<and>
         om_get (up_headers u) ''x-gc-files-control'' =
           (if req_url req = ''/files/info'' \<and> hdr req ''x-ide-proxy-key'' \<noteq> None
            then Some (HStr (sec_control sec)) else None) \<and>
         (k \<notin> {''cookie'', ''x-gc-gate'', ''x-gc-files-control'', ''x-gc-runtime-control'', ''x-ide-proxy-key'',
               ''x-gc-workspace-id'', ''x-gc-workspace-epoch''} \<longrightarrow> om_get (up_headers u) k = hdr req k)"
proof -
  let ?f = "forwarded_headers (req_headers req) (sec_gate sec) (raw_headers req)"
  have h: "up_headers u = (if req_url req = ''/files/info'' \<and> hdr req ''x-ide-proxy-key'' \<noteq> None
      then om_set ''x-gc-files-control'' (HStr (sec_control sec)) ?f else ?f)"
    using assms by (auto simp: handle_request_def Let_def proxy_request_headers control_ok_def
        split: if_splits option.splits decision.splits bool.splits)
  show ?thesis
    by (simp add: h forwarded_cookie forwarded_gate forwarded_dropped forwarded_other
        get_cookie_values_stripped hdr_def)
qed

theorem forwarded_credentials_witness:
  "get_cookie_values (om_get (up_headers (proxy_request sample_lib sample_cfg (sec_gate sample_secrets) None
       (sample_request []))) ''cookie'') COOKIE_NAME = []"
  using forwarded_credentials [OF sample_handled, of COOKIE_NAME] by simp

lemma host_port_no_slash: "host_port_ok s \<Longrightarrow> CHR ''/'' \<notin> set s"
proof (cases "cut_at CHR '':'' s")
  case None
  assume "host_port_ok s"
  with None show ?thesis
    by (auto simp: host_port_ok_def list_all_iff origin_host_char_def char_class_defs)
next
  case (Some ab)
  obtain a b where ab: "ab = (a, b)" by (cases ab)
  assume "host_port_ok s"
  with Some ab have "CHR ''/'' \<notin> set a" "CHR ''/'' \<notin> set b"
    by (auto simp: host_port_ok_def list_all_iff origin_host_char_def char_class_defs)
  then show ?thesis using Some ab by (auto dest: cut_at_Some)
qed

lemma between_iff:
  "prefix p v \<and> suffix q v \<and> length v > length p + length q \<longleftrightarrow> (\<exists>x. x \<noteq> [] \<and> v = p @ x @ q)"
proof
  assume a: "prefix p v \<and> suffix q v \<and> length v > length p + length q"
  then obtain z w where z: "v = p @ z" and w: "v = w @ q" unfolding prefix_def suffix_def by blast
  have "length w + length q = length v" using w by simp
  then have "length w \<ge> length p" using a by linarith
  then obtain x where "w = p @ x" using z w by (auto simp: append_eq_append_conv2)
  then show "\<exists>x. x \<noteq> [] \<and> v = p @ x @ q" using a w by auto
qed (auto simp: prefix_def suffix_def)

text \<open>In an allow-list entry, \<open>://*.\<close> can only stand right after the scheme.\<close>

lemma wildcard_place:
  assumes "entry = sch @ ''://'' @ rest" "CHR '':'' \<notin> set sch" "CHR ''/'' \<notin> set rest"
    and "cut_sub ''://*.'' entry = Some (s, h)"
  shows "s = sch \<and> rest = ''*.'' @ h"
proof -
  have "sch @ ''://'' @ rest = s @ ''://*.'' @ h" using assms(1) cut_sub_Some [OF assms(4)] by simp
  then obtain us where us: "(sch = s @ us \<and> us @ ''://'' @ rest = ''://*.'' @ h) \<or>
      (sch @ us = s \<and> ''://'' @ rest = us @ ''://*.'' @ h)"
    using append_eq_append_conv2 [THEN iffD1] by metis
  show ?thesis
  proof (cases us)
    case Nil
    with us show ?thesis by auto
  next
    case (Cons c u)
    with us assms(2) have "u @ ''://*.'' @ h = ''//'' @ rest" by auto
    then show ?thesis using assms(3) by (cases u; cases "tl u"; cases "tl (tl u)") auto
  qed
qed

text \<open>The origin allow-list is exact: a wildcard entry of the parsed list,
  \<open>scheme://*.host\<close>, admits precisely the origins \<open>scheme://x.host\<close> with a non-empty \<open>x\<close>, never the bare
  host nor another scheme, and any other entry admits only itself.\<close>

theorem origin_entry_exact:
  assumes "entry \<in> set (parse_allowed_origins conf)"
  shows "entry_allows v entry \<longleftrightarrow> v = entry \<or>
    (\<exists>scheme host x. scheme \<in> {''http'', ''https''} \<and> entry = scheme @ ''://*.'' @ host \<and> x \<noteq> [] \<and>
       v = scheme @ ''://'' @ x @ ''.'' @ host)"
proof -
  from assms have "allow_entry_ok entry" by (auto simp: parse_allowed_origins_def)
  then obtain sch rest where c: "cut_sub ''://'' entry = Some (sch, rest)" "sch \<in> {''http'', ''https''}"
    "host_port_ok (if prefix ''*.'' rest then drop 2 rest else rest)"
    by (auto simp: allow_entry_ok_def split: option.splits)
  then have sr: "entry = sch @ ''://'' @ rest" "CHR '':'' \<notin> set sch" using cut_sub_Some [OF c(1)] by auto
  have noslash: "CHR ''/'' \<notin> set rest"
    using host_port_no_slash [OF c(3)] by (auto simp: prefix_def split: if_splits)
  show ?thesis
  proof (cases "\<exists>host. rest = ''*.'' @ host")
    case True
    then obtain host where h: "rest = ''*.'' @ host" by blast
    then have "cut_sub ''://*.'' entry = Some (sch, host)" using sr c(2) by auto
    then have "entry_allows v entry \<longleftrightarrow> v = entry \<or> (prefix (sch @ ''://'') v \<and> suffix (CHR ''.'' # host) v \<and>
        length v > length (sch @ ''://'') + length (CHR ''.'' # host))"
      by (auto simp: entry_allows_def Let_def)
    then have star: "entry_allows v entry \<longleftrightarrow> v = entry \<or> (\<exists>x. x \<noteq> [] \<and> v = sch @ ''://'' @ x @ ''.'' @ host)"
      by (simp only: between_iff append_assoc append_Cons append_Nil)
    have "scheme @ ''://*.'' @ host' = sch @ ''://*.'' @ host \<longleftrightarrow> scheme = sch \<and> host' = host"
      if "scheme \<in> {''http'', ''https''}" for scheme host'
      using that c(2) by auto
    then show ?thesis using star sr c(2) h by fastforce
  next
    case False
    then have "cut_sub ''://*.'' entry = None"
      using wildcard_place [OF sr noslash] by (cases "cut_sub ''://*.'' entry") auto
    moreover have "entry \<noteq> scheme @ ''://*.'' @ host" if "scheme \<in> {''http'', ''https''}" for scheme host
      using that False sr(1) c(2) by auto
    ultimately show ?thesis by (auto simp: entry_allows_def)
  qed
qed

theorem origin_entry_exact_witness:
  "entry_allows ''https://www.geocluster.net'' ''https://*.geocluster.net'' \<and>
   \<not> entry_allows ''https://geocluster.net'' ''https://*.geocluster.net''"
proof -
  have m: "''https://*.geocluster.net'' \<in> set (parse_allowed_origins (Some ''https://*.geocluster.net''))"
    by (simp add: parse_allowed_origins_def js_trim_def is_space_def js_lower_def lower_char_def allow_entry_ok_def
        host_port_ok_def origin_host_char_def char_class_defs)
  have "entry_allows ''https://www.geocluster.net'' ''https://*.geocluster.net''"
    unfolding origin_entry_exact [OF m]
    by (rule disjI2, rule exI [of _ "''https''"], rule exI [of _ "''geocluster.net''"], rule exI [of _ "''www''"]) simp
  moreover have "\<not> entry_allows ''https://geocluster.net'' ''https://*.geocluster.net''"
    by (simp add: entry_allows_def)
  ultimately show ?thesis ..
qed

text \<open>A WebSocket is relayed only to an authenticated, allow-listed client, and with a workspace
  fence only while the file service confirms that very workspace and epoch; the fence sent upstream is the
  one the client asked for, or none.\<close>

theorem upgrade_fenced:
  assumes "handle_upgrade lib cfg sec used now req reply = WsProxy f u"
  shows "\<not> internal_path lib (req_url req) \<and>
    (cfg_auth_disabled cfg \<or> (signed_in lib (make_context cfg sec used now) req \<and> origin_ok req (cfg_origins cfg))) \<and>
    parse_workspace_fence req = Inr f \<and>
    (\<forall>w. f = Some w \<longrightarrow> sec_gate sec \<noteq> [] \<and> (\<exists>info. reply = Some (200, Some info) \<and>
       js_field info ''workspaceId'' = JStr (workspace_id w) \<and>
       js_field info ''workspaceEpoch'' = JStr (workspace_epoch w)))"
proof -
  from assms obtain via where a: "\<not> internal_path lib (req_url req)"
    "authorize_upgrade lib req (make_context cfg sec used now) = Proxy via"
    "parse_workspace_fence req = Inr f" "check_workspace_fence (files_port cfg) (sec_gate sec) f reply = None"
    by (auto simp: handle_upgrade_def split: if_splits decision.splits sum.splits option.splits)
  have "cfg_auth_disabled cfg \<or> (signed_in lib (make_context cfg sec used now) req \<and> origin_ok req (cfg_origins cfg))"
    using authorize_upgrade_proxy [OF a(2)] by (simp add: make_context_def)
  moreover have "\<forall>w. f = Some w \<longrightarrow> sec_gate sec \<noteq> [] \<and> (\<exists>info. reply = Some (200, Some info) \<and>
       js_field info ''workspaceId'' = JStr (workspace_id w) \<and>
       js_field info ''workspaceEpoch'' = JStr (workspace_epoch w))"
    using a(4) by (auto simp: check_workspace_fence_def fence_unavailable_def fence_changed_def
        split: if_splits option.splits)
  ultimately show ?thesis using a by blast
qed

definition sample_info :: js where
  "sample_info = JObj [(''filesContractVersion'', JNum 1), (''relayEpochFencingVersion'', JNum 1),
     (''workspaceId'', JStr ''w''), (''workspaceEpoch'', JStr ''e'')]"

definition sample_upgrade :: request where
  "sample_upgrade = (sample_request [])\<lparr>raw_headers := [(''X-GC-Workspace-Id'', ''w''), (''X-GC-Workspace-Epoch'', ''e'')]\<rparr>"

lemma sample_fence: "parse_workspace_fence sample_upgrade = Inr (Some \<lparr>workspace_id = ''w'', workspace_epoch = ''e''\<rparr>)"
  by (simp add: parse_workspace_fence_def raw_values_def sample_upgrade_def js_lower_def lower_char_def
      fence_id_def char_class_defs char_of_eq_iff)

lemma sample_upgraded:
  "handle_upgrade sample_lib sample_cfg sample_secrets [] 7 sample_upgrade (Some (200, Some sample_info)) =
     WsProxy (Some \<lparr>workspace_id = ''w'', workspace_epoch = ''e''\<rparr>) (proxy_upgrade sample_cfg ''g'' sample_upgrade)"
proof -
  have u: "req_url sample_upgrade = ''/api''" "hdr sample_upgrade = hdr (sample_request [])"
    by (simp_all add: sample_upgrade_def sample_request_def hdr_def fun_eq_iff)
  have "authorize_upgrade sample_lib sample_upgrade (make_context sample_cfg sample_secrets [] 7) = Proxy ''cookie''"
    using sample_check [of "[]"]
    by (simp add: authorize_upgrade_def u sample_routing)
       (simp add: hdr_def sample_request_def om_get_def make_context_def sample_cfg_def sample_secrets_def)
  then show ?thesis
    unfolding handle_upgrade_def
    by (simp add: u sample_routing internal_path_def sample_fence check_workspace_fence_def sample_info_def)
       (simp add: sample_cfg_def sample_secrets_def)
qed

theorem upgrade_fenced_witness:
  "signed_in sample_lib (make_context sample_cfg sample_secrets [] 7) sample_upgrade"
  using upgrade_fenced [OF sample_upgraded] by (simp add: sample_cfg_def)

text \<open>The configured framing policy cannot carry a second directive or break the header: the
  sanitised value is never empty and has only printable ASCII, no semicolon and no comma.\<close>

theorem frame_ancestors_safe:
  "sanitize_frame_ancestors conf \<noteq> [] \<and>
   list_all (\<lambda>c. in_range CHR 0x20 CHR 0x7e c \<and> c \<noteq> CHR '';'' \<and> c \<noteq> CHR '','')
     (sanitize_frame_ancestors conf)"
proof -
  have collapse: "set (collapse_spaces s) \<subseteq> insert CHR '' '' (set s)" for s
    by (induction s rule: collapse_spaces.induct) auto
  let ?sp = "\<lambda>c. if c = CHR ''\<newline>'' \<or> c = CHR 13 \<or> c = CHR '';'' \<or> c = CHR '','' then CHR '' '' else c"
  have clean: "in_range CHR 0x20 CHR 0x7e c \<and> c \<noteq> CHR '';'' \<and> c \<noteq> CHR '',''"
    if "c \<in> set (js_trim (collapse_spaces (filter (\<lambda>c. in_range CHR 0x21 CHR 0x7e c \<or> c = CHR '' '') (map ?sp raw))))"
    for c raw
  proof -
    have "c = CHR '' '' \<or> c \<in> set (filter (\<lambda>c. in_range CHR 0x21 CHR 0x7e c \<or> c = CHR '' '') (map ?sp raw))"
      using that js_trim_subset collapse by blast
    then have "c = CHR '' '' \<or> (in_range CHR 0x21 CHR 0x7e c \<and> (\<exists>d. c = ?sp d))" by auto
    then show ?thesis
    proof
      assume "in_range CHR 0x21 CHR 0x7e c \<and> (\<exists>d. c = ?sp d)"
      then obtain d where d: "c = ?sp d" and r: "in_range CHR 0x21 CHR 0x7e c" by blast
      have "c \<noteq> CHR '';''" "c \<noteq> CHR '',''" unfolding d by (simp_all split: if_split)
      then show ?thesis using r by (simp add: in_range_def)
    qed (simp add: in_range_def)
  qed
  have "list_all (\<lambda>c. in_range CHR 0x20 CHR 0x7e c \<and> c \<noteq> CHR '';'' \<and> c \<noteq> CHR '','') DEFAULT_FRAME_ANCESTORS"
    by (simp add: DEFAULT_FRAME_ANCESTORS_def in_range_def)
  moreover have "DEFAULT_FRAME_ANCESTORS \<noteq> []" by (simp add: DEFAULT_FRAME_ANCESTORS_def)
  ultimately have either: "(if v = [] then DEFAULT_FRAME_ANCESTORS else v) \<noteq> [] \<and>
      list_all (\<lambda>c. in_range CHR 0x20 CHR 0x7e c \<and> c \<noteq> CHR '';'' \<and> c \<noteq> CHR '','')
        (if v = [] then DEFAULT_FRAME_ANCESTORS else v)"
    if "\<And>c. c \<in> set v \<Longrightarrow> in_range CHR 0x20 CHR 0x7e c \<and> c \<noteq> CHR '';'' \<and> c \<noteq> CHR '',''" for v
    using that by (simp add: list_all_iff)
  show ?thesis
    unfolding sanitize_frame_ancestors_def Let_def by (rule either) (erule clean)
qed

end
