(* ===== verification/Agent_Supervisor.thy ===== *)
theory Agent_Supervisor
  imports Js_Value Ordered_Map Run_System
begin

text \<open>
  The engine supervisor (runtime/lib/agent-supervisor.js) as an event-driven machine: a record of its
  fields, and one function per method or continuation after an \<open>await\<close>. A launch and a stop are
  suspended computations, kept under the epoch they were given; a continuation that has to wait for a
  process to be gone does nothing before. Process records are never reused: \<open>procs\<close> only grows and
  \<open>current\<close> is an index into it (the \<open>#proc\<close> reference). Times are milliseconds. Process trees, log lines
  and the payloads of calls are not modelled; listeners of the emitted events run elsewhere.
\<close>

datatype sup_phase = Stopped | Starting | Ready | Restarting | Stopping | Unavailable

datatype tools_state = ToolsPending | ToolsConnected | ToolsMissing

record engine =
  e_gen :: nat
  e_spawned :: int
  e_ready :: bool
  e_gone :: bool
  e_terminating :: bool
  e_expected :: bool
  e_reason :: "string option"
  e_tools :: tools_state
  e_tools_at :: int
  e_serve :: "nat option"
  e_misses :: nat
  e_calls :: "nat list"

text \<open>Where a launch is suspended; the process it has spawned, if any.\<close>

datatype launch_phase =
    AwaitPrevious nat
  | PrepareDirs
  | Initialize nat
  | WarmNew nat
  | WarmDelete nat
  | WaitTools nat
  | CleanUp nat

datatype stop_phase =
    Snapshot nat
  | AwaitExit nat
  | Reaping bool \<comment> \<open>whether there was a process to stop\<close>

record sup =
  procs :: "engine list"
  current :: "nat option"
  epoch :: nat
  restarting :: bool
  phase :: sup_phase
  generation :: nat
  restarts :: "int list"
  stopping :: bool
  restart_timer :: bool
  launches :: "(nat, launch_phase \<times> bool) omap" \<comment> \<open>the flag: started by \<open>restart()\<close>\<close>
  stops :: "(nat, stop_phase \<times> bool) omap"
  waiters :: "nat list"

record sup_cfg =
  has_default_model :: bool
  backoff :: "int list"
  mcp_wait :: int
  tools_settle :: int

text \<open>What the supervisor does to the outside.\<close>

datatype sup_out =
    Spawned nat
  | SigTerm nat
  | ReadyEvent nat bool tools_state
  | ExitEvent nat bool string
  | UnavailableEvent
  | ToolsEvent tools_state nat
  | RestartIn int
  | StartRefused
  | RestartCancelled
  | Resolved nat nat
  | Rejected nat
  | CallRefused nat
  | CallSent nat nat
  | CallFailed nat

type_synonym sup_result = "sup \<times> sup_out list"

definition RESTART_BACKOFF_MS :: "int list" where "RESTART_BACKOFF_MS = [1000, 2000, 5000, 15000, 30000]"
definition RESTART_WINDOW_MS :: int where "RESTART_WINDOW_MS = 600000"
definition MAX_RESTARTS_IN_WINDOW :: nat where "MAX_RESTARTS_IN_WINDOW = 5"

definition sup_init :: sup where
  "sup_init = \<lparr>procs = [], current = None, epoch = 0, restarting = False, phase = Stopped, generation = 0,
     restarts = [], stopping = False, restart_timer = False, launches = [], stops = [], waiters = []\<rparr>"

definition set_engine :: "nat \<Rightarrow> (engine \<Rightarrow> engine) \<Rightarrow> sup \<Rightarrow> sup" where
  "set_engine i f s = s\<lparr>procs := (procs s)[i := f (procs s ! i)]\<rparr>"

text \<open>\<open>killReason ??= reason\<close>.\<close>

definition keep_reason :: "string \<Rightarrow> engine \<Rightarrow> engine" where
  "keep_reason reason e = (case e_reason e of None \<Rightarrow> e\<lparr>e_reason := Some reason\<rparr> | Some _ \<Rightarrow> e)"

definition then_do :: "sup_result \<Rightarrow> (sup \<Rightarrow> sup_result) \<Rightarrow> sup_result" where
  "then_do r f = (case r of (s, o1) \<Rightarrow> (case f s of (s', o2) \<Rightarrow> (s', o1 @ o2)))"

subsection \<open>Restarts\<close>

text \<open>The budget of \<open>#scheduleRestart\<close>: the attempt's own state change and whether it is granted.\<close>

definition restart_attempt :: "int \<Rightarrow> sup \<Rightarrow> sup \<times> bool" where
  "restart_attempt now s =
    (let recent = filter (\<lambda>t. now - t < RESTART_WINDOW_MS) (restarts s) in
     if length recent \<ge> MAX_RESTARTS_IN_WINDOW then (s\<lparr>restarts := recent, phase := Unavailable\<rparr>, False)
     else (s\<lparr>restarts := recent @ [now], phase := Restarting, restart_timer := True\<rparr>, True))"

definition restart_delay :: "sup_cfg \<Rightarrow> nat \<Rightarrow> int" where
  "restart_delay cfg n = backoff cfg ! min n (length (backoff cfg) - 1)"

definition schedule_restart :: "sup_cfg \<Rightarrow> int \<Rightarrow> sup \<Rightarrow> sup_result" where
  "schedule_restart cfg now s =
    (case restart_attempt now s of
       (s', True) \<Rightarrow> (s', [RestartIn (restart_delay cfg (length (restarts s') - 1))])
     | (s', False) \<Rightarrow> (s'\<lparr>waiters := []\<rparr>, UnavailableEvent # map Rejected (waiters s')))"

definition terminate :: "nat \<Rightarrow> string \<Rightarrow> sup \<Rightarrow> sup_result" where
  "terminate p reason s =
    (let e = procs s ! p in
     if e_gone e \<or> e_terminating e then (s, [])
     else (set_engine p (\<lambda>e. keep_reason reason (e\<lparr>e_terminating := True\<rparr>))
             (s\<lparr>phase := (if e_ready e \<and> phase s = Ready then Restarting else phase s)\<rparr>), [SigTerm p]))"

definition on_gone :: "sup_cfg \<Rightarrow> nat \<Rightarrow> int \<Rightarrow> sup \<Rightarrow> sup_result" where
  "on_gone cfg p now s =
    (let e = procs s ! p in
     if e_gone e then (s, [])
     else (let s1 = set_engine p (\<lambda>e. e\<lparr>e_gone := True, e_calls := []\<rparr>) s;
               failures = map CallFailed (e_calls e) in
       if current s \<noteq> Some p then (s1, failures)
       else (let expctd = (stopping s \<or> e_expected e);
                 reason = (case e_reason e of Some r \<Rightarrow> r
                           | None \<Rightarrow> if expctd then ''stop'' else if e_ready e then ''crash'' else ''start_failed'');
                 again = (e_ready e \<and> \<not> expctd \<and> phase s \<noteq> Starting);
                 s2 = s1\<lparr>current := None, phase := (if again then Restarting else phase s)\<rparr>;
                 outs = failures @ [ExitEvent (e_gen e) expctd reason]
             in if again then then_do (s2, outs) (schedule_restart cfg now) else (s2, outs))))"

subsection \<open>Start, stop, restart\<close>

text \<open>The flag says that \<open>restart()\<close> awaits this start.\<close>

definition start :: "sup_cfg \<Rightarrow> bool \<Rightarrow> sup \<Rightarrow> sup_result" where
  "start cfg again s =
    (if \<not> has_default_model cfg then
       (s\<lparr>phase := Unavailable, restarting := (if again then False else restarting s)\<rparr>, [StartRefused])
     else if phase s = Ready \<and> current s \<noteq> None then (s\<lparr>restarting := (if again then False else restarting s)\<rparr>, [])
     else if phase s = Starting then (s, [])
     else (let n = epoch s + 1 in
       (s\<lparr>stopping := False, restart_timer := False, phase := Starting, epoch := n,
          launches := om_set n (case current s of Some p \<Rightarrow> AwaitPrevious p | None \<Rightarrow> PrepareDirs, again) (launches s)\<rparr>, [])))"

definition stop :: "bool \<Rightarrow> sup \<Rightarrow> sup_result" where
  "stop again s =
    (let n = epoch s + 1; s1 = s\<lparr>stopping := True, epoch := n, restart_timer := False\<rparr> in
     case current s of
       None \<Rightarrow> (s1\<lparr>phase := Stopped, stops := om_set n (Reaping False, again) (stops s)\<rparr>, [])
     | Some p \<Rightarrow>
        (set_engine p (\<lambda>e. keep_reason ''stop'' (e\<lparr>e_expected := True\<rparr>))
          (s1\<lparr>phase := Stopping, stops := om_set n (Snapshot p, again) (stops s)\<rparr>), []))"

definition restart :: "string \<Rightarrow> sup \<Rightarrow> sup_result" where
  "restart reason s =
    (let s1 = (case current s of None \<Rightarrow> s | Some p \<Rightarrow> set_engine p (keep_reason reason) s) in
     then_do (stop True s1) (\<lambda>s2. (s2\<lparr>restarting := True\<rparr>, [])))"

text \<open>A stop goes on: signal, wait for the exit, reap; \<open>restart()\<close> then starts, unless overtaken.\<close>

definition stop_goes :: "sup_cfg \<Rightarrow> nat \<Rightarrow> sup \<Rightarrow> sup_result" where
  "stop_goes cfg n s =
    (case om_get (stops s) n of
       None \<Rightarrow> (s, [])
     | Some (Snapshot p, again) \<Rightarrow>
         (if e_gone (procs s ! p) then (s\<lparr>stops := om_set n (Reaping True, again) (stops s)\<rparr>, [])
          else (s\<lparr>stops := om_set n (AwaitExit p, again) (stops s)\<rparr>, [SigTerm p]))
     | Some (AwaitExit p, again) \<Rightarrow>
         (if e_gone (procs s ! p) then (s\<lparr>stops := om_set n (Reaping True, again) (stops s)\<rparr>, []) else (s, []))
     | Some (Reaping had, again) \<Rightarrow>
         (let s1 = s\<lparr>stops := om_delete n (stops s),
                     phase := (if had \<and> epoch s = n then Stopped else phase s)\<rparr> in
          if \<not> again then (s1, [])
          else if epoch s \<noteq> n then (s1\<lparr>restarting := False\<rparr>, [RestartCancelled])
          else start cfg True s1))"

definition timer_fires :: "sup_cfg \<Rightarrow> sup \<Rightarrow> sup_result" where
  "timer_fires cfg s =
    (if \<not> restart_timer s then (s, [])
     else (let s1 = s\<lparr>restart_timer := False\<rparr> in
       if stopping s \<or> phase s \<noteq> Restarting then (s1, []) else start cfg False s1))"

text \<open>\<open>whenReady\<close>: \<open>w\<close> names the caller.\<close>

definition when_ready :: "sup_cfg \<Rightarrow> nat \<Rightarrow> sup \<Rightarrow> sup_result" where
  "when_ready cfg w s =
    (if \<not> has_default_model cfg then (s, [Rejected w])
     else if phase s = Ready \<and> (\<exists>p. current s = Some p \<and> e_ready (procs s ! p)) then (s, [Resolved w (generation s)])
     else if stopping s \<and> \<not> restarting s then (s, [Rejected w])
     else (let r = (if phase s = Unavailable then start cfg False (s\<lparr>restarts := []\<rparr>) else (s, []))
           in then_do r (\<lambda>s1. (s1\<lparr>waiters := waiters s1 @ [w]\<rparr>, []))))"

definition waiter_times_out :: "nat \<Rightarrow> sup \<Rightarrow> sup_result" where
  "waiter_times_out w s =
    (if w \<in> set (waiters s) then (s\<lparr>waiters := removeAll w (waiters s)\<rparr>, [Rejected w]) else (s, []))"

subsection \<open>A launch\<close>

text \<open>The end of a launch that failed: nobody is told but the restart budget, unless a stop overtook it.\<close>

definition launch_ends :: "sup_cfg \<Rightarrow> nat \<Rightarrow> bool \<Rightarrow> int \<Rightarrow> sup \<Rightarrow> sup_result" where
  "launch_ends cfg n again now s =
    (let s1 = s\<lparr>launches := om_delete n (launches s)\<rparr>;
         r = (if stopping s \<or> n \<noteq> epoch s then (s1, []) else schedule_restart cfg now s1)
     in then_do r (\<lambda>s2. (s2\<lparr>restarting := (if again then False else restarting s2)\<rparr>, [])))"

text \<open>The catch block with a process: it is ended, and its exit awaited.\<close>

definition launch_fails :: "sup_cfg \<Rightarrow> nat \<Rightarrow> bool \<Rightarrow> nat \<Rightarrow> int \<Rightarrow> sup \<Rightarrow> sup_result" where
  "launch_fails cfg n again p now s =
    (if e_gone (procs s ! p) then launch_ends cfg n again now s
     else then_do (terminate p ''start_failed'' s)
            (\<lambda>s1. (s1\<lparr>launches := om_set n (CleanUp p, again) (launches s1)\<rparr>, [])))"

definition new_engine :: "nat \<Rightarrow> int \<Rightarrow> engine" where
  "new_engine gen now = \<lparr>e_gen = gen, e_spawned = now, e_ready = False, e_gone = False, e_terminating = False,
     e_expected = False, e_reason = None, e_tools = ToolsPending, e_tools_at = 0, e_serve = None, e_misses = 0,
     e_calls = []\<rparr>"

definition spawn :: "nat \<Rightarrow> bool \<Rightarrow> int \<Rightarrow> sup \<Rightarrow> sup_result" where
  "spawn n again now s =
    (let p = length (procs s) in
     (s\<lparr>procs := procs s @ [new_engine (generation s + 1) now], current := Some p,
        launches := om_set n (Initialize p, again) (launches s)\<rparr>, [Spawned p]))"

definition becomes_ready :: "nat \<Rightarrow> bool \<Rightarrow> nat \<Rightarrow> sup \<Rightarrow> sup_result" where
  "becomes_ready n again p s =
    (let e = procs s ! p in
     ((set_engine p (\<lambda>e. e\<lparr>e_ready := True\<rparr>) s)
        \<lparr>generation := e_gen e, phase := Ready, launches := om_delete n (launches s),
         restarting := (if again then False else restarting s), waiters := []\<rparr>,
      ReadyEvent (e_gen e) (e_gen e > 1) (e_tools e) # map (\<lambda>w. Resolved w (e_gen e)) (waiters s)))"

definition set_tools :: "nat \<Rightarrow> tools_state \<Rightarrow> int \<Rightarrow> sup \<Rightarrow> sup_result" where
  "set_tools p t now s =
    (let e = procs s ! p in
     (set_engine p (\<lambda>e. e\<lparr>e_tools := t, e_tools_at := (if t = ToolsConnected then now else e_tools_at e)\<rparr>) s,
      if e_tools e \<noteq> t \<and> e_ready e \<and> current s = Some p \<and> \<not> e_gone e then [ToolsEvent t (e_gen e)] else []))"

text \<open>One wake-up of \<open>#waitForTools\<close>: whether it returns, and the state of the tools then.\<close>

definition tools_wait :: "sup_cfg \<Rightarrow> nat \<Rightarrow> int \<Rightarrow> sup \<Rightarrow> bool \<times> sup" where
  "tools_wait cfg p now s =
    (let e = procs s ! p in
     case e_tools e of
       ToolsMissing \<Rightarrow> (True, s)
     | ToolsConnected \<Rightarrow> (e_tools_at e + tools_settle cfg - now \<le> 0, s)
     | ToolsPending \<Rightarrow>
        (if e_spawned e + mcp_wait cfg - now \<le> 0 then (True, fst (set_tools p ToolsMissing now s)) else (False, s)))"

text \<open>The continuation of the launch of epoch \<open>n\<close>; \<open>ok\<close> is whether the awaited step succeeded (for
  \<open>initialize\<close>: and acknowledged the child updates). A step of a process that is gone has failed.\<close>

definition launch_goes :: "sup_cfg \<Rightarrow> nat \<Rightarrow> bool \<Rightarrow> int \<Rightarrow> sup \<Rightarrow> sup_result" where
  "launch_goes cfg n ok now s =
    (let next = (\<lambda>p again ph. if ok \<and> \<not> e_gone (procs s ! p)
                   then (s\<lparr>launches := om_set n (ph, again) (launches s)\<rparr>, [])
                   else launch_fails cfg n again p now s)
     in case om_get (launches s) n of
       None \<Rightarrow> (s, [])
     | Some (AwaitPrevious p, again) \<Rightarrow>
         (if e_gone (procs s ! p) then (s\<lparr>launches := om_set n (PrepareDirs, again) (launches s)\<rparr>, []) else (s, []))
     | Some (PrepareDirs, again) \<Rightarrow>
         (if \<not> ok \<or> stopping s \<or> n \<noteq> epoch s then launch_ends cfg n again now s else spawn n again now s)
     | Some (Initialize p, again) \<Rightarrow> next p again (WarmNew p)
     | Some (WarmNew p, again) \<Rightarrow> next p again (WarmDelete p)
     | Some (WarmDelete p, again) \<Rightarrow> next p again (WaitTools p)
     | Some (WaitTools p, again) \<Rightarrow>
         (if \<not> ok \<or> e_gone (procs s ! p) then launch_fails cfg n again p now s
          else (case tools_wait cfg p now s of
            (False, s1) \<Rightarrow> (s1, [])
          | (True, s1) \<Rightarrow> if current s1 \<noteq> Some p then launch_fails cfg n again p now s1
                         else becomes_ready n again p s1))
     | Some (CleanUp p, again) \<Rightarrow>
         (if e_gone (procs s ! p) then launch_ends cfg n again now s else (s, [])))"

subsection \<open>Watching\<close>

text \<open>One tick of the server watch: \<open>found\<close> is what \<open>findServe\<close> returned, \<open>alive\<close> whether the known server
  runs, \<open>exiting\<close> whether the engine itself is already dead or a zombie.\<close>

definition check_serve :: "nat \<Rightarrow> nat option \<Rightarrow> bool \<Rightarrow> bool \<Rightarrow> sup \<Rightarrow> sup_result" where
  "check_serve p found alive exiting s =
    (let e = procs s ! p in
     if e_gone e \<or> e_terminating e then (s, [])
     else if e_serve e = None then
       (set_engine p (\<lambda>e. e\<lparr>e_serve := found,
          e_misses := (if found = None \<and> e_ready e then e_misses e + 1 else e_misses e)\<rparr>) s, [])
     else if alive \<or> exiting then (s, [])
     else terminate p ''server_died'' s)"

datatype probe = ProbeOk | ProbeGone | ProbeTimeout | ProbeError int "string option"

definition probe_dead :: "probe \<Rightarrow> bool" where
  "probe_dead r = (case r of ProbeTimeout \<Rightarrow> True
     | ProbeError c n \<Rightarrow> c = -32603 \<and> n = Some ''ClientError'' | _ \<Rightarrow> False)"

definition may_probe :: "sup \<Rightarrow> bool" where
  "may_probe s = (case current s of None \<Rightarrow> False
     | Some p \<Rightarrow> e_ready (procs s ! p) \<and> \<not> e_gone (procs s ! p) \<and> \<not> e_terminating (procs s ! p) \<and> phase s = Ready)"

text \<open>The outcome of \<open>#probe\<close> and what it resolves to.\<close>

definition probe_goes :: "nat \<Rightarrow> probe \<Rightarrow> sup \<Rightarrow> sup_result \<times> bool" where
  "probe_goes p r s =
    (case r of
       ProbeOk \<Rightarrow> ((s, []), True)
     | ProbeGone \<Rightarrow> ((s, []), False)
     | _ \<Rightarrow> if probe_dead r
            then (terminate p (if r = ProbeTimeout then ''server_unresponsive'' else ''server_died'') s, False)
            else ((s, []), True))"

subsection \<open>The stderr lines\<close>

text \<open>\<open>GEOCLUSTER_SERVER_RE\<close>; the flag: at the start or after white space.\<close>

fun server_field :: "bool \<Rightarrow> string \<Rightarrow> bool" where
  "server_field b [] = False"
| "server_field b (c # cs) =
    ((b \<and> prefix ''server=geocluster'' (c # cs) \<and>
       (case drop 17 (c # cs) of [] \<Rightarrow> True | d # _ \<Rightarrow> is_space d)) \<or>
     server_field (is_space c) cs)"

definition quoted_message :: "string \<Rightarrow> string" where
  "quoted_message t = ''message='' @ [CHR 0x22] @ t"

definition line_tools :: "string \<Rightarrow> tools_state option" where
  "line_tools line =
    (if \<not> has_sub line (quoted_message ''mcp connect'') \<or> \<not> server_field True line then None
     else if has_sub line (quoted_message ''mcp connected'' @ [CHR 0x22]) then Some ToolsConnected
     else if has_sub line (quoted_message ''mcp connect failed'' @ [CHR 0x22]) then Some ToolsMissing
     else None)"

definition on_stderr_line :: "nat \<Rightarrow> string \<Rightarrow> int \<Rightarrow> sup \<Rightarrow> sup_result" where
  "on_stderr_line p line now s =
    (case line_tools line of None \<Rightarrow> (s, []) | Some t \<Rightarrow> set_tools p t now s)"

text \<open>The line splitter of \<open>#captureStderr\<close>: the complete lines of a chunk and the new partial line.\<close>

definition STDERR_LINE_MAX :: nat where "STDERR_LINE_MAX = 65536"

definition stderr_chunk :: "string \<Rightarrow> string \<Rightarrow> string list \<times> string" where
  "stderr_chunk partial chunk =
    (let parts = js_split CHR ''\<newline>'' (partial @ chunk); rest = last parts
     in (butlast parts, if length rest > STDERR_LINE_MAX then [] else rest))"

subsection \<open>Frames, permissions, calls\<close>

text \<open>Whether a frame of process \<open>p\<close> is passed on, and under which generation.\<close>

definition emit_frame :: "nat \<Rightarrow> sup \<Rightarrow> nat option" where
  "emit_frame p s =
    (let e = procs s ! p in
     if current s \<noteq> Some p \<or> e_gone e then None else if \<not> e_ready e then None else Some (e_gen e))"

datatype permission = AskListener nat | AnswerCancelled

definition on_permission :: "nat \<Rightarrow> nat \<Rightarrow> sup \<Rightarrow> permission" where
  "on_permission p listeners s =
    (let e = procs s ! p in
     if current s \<noteq> Some p \<or> e_gone e \<or> \<not> e_ready e \<or> listeners = 0 then AnswerCancelled else AskListener (e_gen e))"

text \<open>The \<open>answer\<close> closure: the first answer wins, and none counts once the engine is gone.\<close>

definition permission_answer :: "bool \<Rightarrow> 'a option \<Rightarrow> 'a \<Rightarrow> 'a option" where
  "permission_answer gone answered r = (if answered \<noteq> None \<or> gone then answered else Some r)"

definition may_call :: "sup \<Rightarrow> nat option" where
  "may_call s = (case current s of None \<Rightarrow> None
     | Some p \<Rightarrow> if phase s = Ready \<and> e_ready (procs s ! p) \<and> \<not> e_gone (procs s ! p) then Some p else None)"

definition call :: "nat \<Rightarrow> sup \<Rightarrow> sup_result" where
  "call c s =
    (case may_call s of
       None \<Rightarrow> (s, [CallRefused c])
     | Some p \<Rightarrow> (set_engine p (\<lambda>e. e\<lparr>e_calls := e_calls e @ [c]\<rparr>) s, [CallSent c p]))"

definition call_settles :: "nat \<Rightarrow> nat \<Rightarrow> sup \<Rightarrow> sup_result" where
  "call_settles p c s = (set_engine p (\<lambda>e. e\<lparr>e_calls := removeAll c (e_calls e)\<rparr>) s, [])"

subsection \<open>The engine's environment\<close>

record env_cfg =
  agent_env :: "(string \<times> string option) list"
  engine_home :: string
  engine_state_dir :: string
  engine_xdg_config_home :: string
  engine_config_dir :: string
  engine_models_path :: string
  tool_home :: string
  mcp_url :: string

text \<open>\<open>join\<close> is \<open>path.join\<close>.\<close>

definition env_puts :: "(string \<Rightarrow> string \<Rightarrow> string) \<Rightarrow> env_cfg \<Rightarrow> (string \<times> string option) list" where
  "env_puts join c = agent_env c @
     [(''HOME'', Some (engine_home c)),
      (''XDG_DATA_HOME'', Some (join (engine_state_dir c) ''data'')),
      (''XDG_STATE_HOME'', Some (join (engine_state_dir c) ''state'')),
      (''XDG_CACHE_HOME'', Some (join (engine_state_dir c) ''cache'')),
      (''XDG_CONFIG_HOME'', Some (engine_xdg_config_home c)),
      (''OPENCODE_CONFIG_DIR'', Some (engine_config_dir c)),
      (''OPENCODE_MODELS_PATH'', Some (engine_models_path c)),
      (''OPENCODE_CONFIG_PROJECT_DISABLE'', Some ''1''),
      (''OPENCODE_DISABLE_PROJECT_CONFIG'', Some ''1''),
      (''OPENCODE_DISABLE_MODELS_FETCH'', Some ''1''),
      (''OPENCODE_DISABLE_AUTOUPDATE'', Some ''1''),
      (''OPENCODE_PRINT_LOGS'', Some ''1''),
      (''GEOCLUSTER_MCP_URL'', Some (mcp_url c)),
      (''GEOCLUSTER_TOOL_HOME'', Some (tool_home c))]"

fun env_put :: "string \<times> string option \<Rightarrow> (string, string) omap \<Rightarrow> (string, string) omap" where
  "env_put (name, v) env = (case v of None \<Rightarrow> env | Some x \<Rightarrow> if x = [] then env else om_set name x env)"

definition engine_env :: "(string \<Rightarrow> string \<Rightarrow> string) \<Rightarrow> env_cfg \<Rightarrow> (string, string) omap" where
  "engine_env join c = fold env_put (env_puts join c) []"

subsection \<open>Events\<close>

datatype sup_event =
    Start
  | Stop
  | Restart string
  | TimerFires
  | LaunchGoes nat bool int
  | StopGoes nat
  | ProcessExits nat int
  | ServeTick nat "nat option" bool bool
  | ProbeGoes nat probe
  | StderrLine nat string int
  | WhenReady nat
  | WaiterTimesOut nat
  | Call nat
  | CallSettles nat nat

text \<open>Events of a process that was never spawned do not occur.\<close>

fun event_proc :: "sup_event \<Rightarrow> nat option" where
  "event_proc (ProcessExits p _) = Some p"
| "event_proc (ServeTick p _ _ _) = Some p"
| "event_proc (ProbeGoes p _) = Some p"
| "event_proc (StderrLine p _ _) = Some p"
| "event_proc (CallSettles p _) = Some p"
| "event_proc _ = None"

fun handle_event :: "sup_cfg \<Rightarrow> sup_event \<Rightarrow> sup \<Rightarrow> sup_result" where
  "handle_event cfg Start s = start cfg False s"
| "handle_event cfg Stop s = stop False s"
| "handle_event cfg (Restart r) s = restart r s"
| "handle_event cfg TimerFires s = timer_fires cfg s"
| "handle_event cfg (LaunchGoes n ok now) s = launch_goes cfg n ok now s"
| "handle_event cfg (StopGoes n) s = stop_goes cfg n s"
| "handle_event cfg (ProcessExits p now) s = on_gone cfg p now s"
| "handle_event cfg (ServeTick p f a x) s = check_serve p f a x s"
| "handle_event cfg (ProbeGoes p r) s = fst (probe_goes p r s)"
| "handle_event cfg (StderrLine p l now) s = on_stderr_line p l now s"
| "handle_event cfg (WhenReady w) s = when_ready cfg w s"
| "handle_event cfg (WaiterTimesOut w) s = waiter_times_out w s"
| "handle_event cfg (Call c) s = call c s"
| "handle_event cfg (CallSettles p c) s = call_settles p c s"

definition sup_step :: "sup_cfg \<Rightarrow> sup \<Rightarrow> sup_event \<Rightarrow> sup_result" where
  "sup_step cfg s e =
    (case event_proc e of
       Some p \<Rightarrow> if p < length (procs s) then handle_event cfg e s else (s, [])
     | None \<Rightarrow> handle_event cfg e s)"

fun sup_run :: "sup_cfg \<Rightarrow> sup \<Rightarrow> sup_event list \<Rightarrow> sup_result" where
  "sup_run cfg s [] = (s, [])"
| "sup_run cfg s (e # es) = then_do (sup_step cfg s e) (\<lambda>s'. sup_run cfg s' es)"

end
