(* ===== verification/Agent_Facts.thy ===== *)
theory Agent_Facts
  imports Agent_Supervisor
begin

text \<open>
  The engine supervisor's invariant, its preservation by every event, and the properties that follow:
  one engine at a time, generations in order, a stop that stays stopped, bounded restarts, no lost call.
\<close>

subsection \<open>The invariant\<close>

text \<open>The process a launch is bringing up.\<close>

fun rising :: "launch_phase \<Rightarrow> nat option" where
  "rising (Initialize p) = Some p"
| "rising (WarmNew p) = Some p"
| "rising (WarmDelete p) = Some p"
| "rising (WaitTools p) = Some p"
| "rising _ = None"

text \<open>A launch of the present epoch waits for the current process, or there is none to replace.\<close>

fun launch_ok :: "sup \<Rightarrow> nat \<Rightarrow> launch_phase \<Rightarrow> bool" where
  "launch_ok s n (AwaitPrevious p) =
     (p < length (procs s) \<and> (n = epoch s \<longrightarrow> current s = None \<or> current s = Some p))"
| "launch_ok s n PrepareDirs = (n = epoch s \<longrightarrow> current s = None)"
| "launch_ok s n (CleanUp p) = (p < length (procs s))"
| "launch_ok s n (Initialize p) = (p < length (procs s) \<and> \<not> e_ready (procs s ! p))"
| "launch_ok s n (WarmNew p) = (p < length (procs s) \<and> \<not> e_ready (procs s ! p))"
| "launch_ok s n (WarmDelete p) = (p < length (procs s) \<and> \<not> e_ready (procs s ! p))"
| "launch_ok s n (WaitTools p) = (p < length (procs s) \<and> \<not> e_ready (procs s ! p))"

definition launches_ok :: "sup \<Rightarrow> bool" where
  "launches_ok s \<longleftrightarrow> om_ok (launches s) \<and>
     (\<forall>n ph a. om_get (launches s) n = Some (ph, a) \<longrightarrow> n \<le> epoch s \<and> launch_ok s n ph) \<and>
     (\<forall>n m ph ph' a a' p. om_get (launches s) n = Some (ph, a) \<longrightarrow> om_get (launches s) m = Some (ph', a') \<longrightarrow>
        rising ph = Some p \<longrightarrow> rising ph' = Some p \<longrightarrow> n = m)"

definition engines_ok :: "sup \<Rightarrow> bool" where
  "engines_ok s \<longleftrightarrow>
     (\<forall>p. current s = Some p \<longrightarrow> p < length (procs s) \<and> \<not> e_gone (procs s ! p) \<and>
        e_gen (procs s ! p) = (if e_ready (procs s ! p) then generation s else generation s + 1)) \<and>
     (\<forall>p < length (procs s). \<not> e_gone (procs s ! p) \<longrightarrow> current s = Some p) \<and>
     (\<forall>p < length (procs s). e_gone (procs s ! p) \<longrightarrow> e_calls (procs s ! p) = [])"

fun stop_ok :: "sup \<Rightarrow> stop_phase \<Rightarrow> bool" where
  "stop_ok s (Snapshot p) = (p < length (procs s))"
| "stop_ok s (AwaitExit p) = (p < length (procs s))"
| "stop_ok s (Reaping had) = True"

definition stops_ok :: "sup \<Rightarrow> bool" where
  "stops_ok s \<longleftrightarrow> om_ok (stops s) \<and> (\<forall>n ph a. om_get (stops s) n = Some (ph, a) \<longrightarrow> n \<le> epoch s \<and> stop_ok s ph)"

definition sup_ok :: "sup \<Rightarrow> bool" where
  "sup_ok s \<longleftrightarrow> launches_ok s \<and> engines_ok s \<and> stops_ok s"

lemma sup_okI: "launches_ok s \<Longrightarrow> engines_ok s \<Longrightarrow> stops_ok s \<Longrightarrow> sup_ok s"
  by (simp add: sup_ok_def)

lemma sup_okD: "sup_ok s \<Longrightarrow> launches_ok s" "sup_ok s \<Longrightarrow> engines_ok s" "sup_ok s \<Longrightarrow> stops_ok s"
  by (simp_all add: sup_ok_def)

lemma launch_ok_cong:
  "length (procs s') = length (procs s) \<Longrightarrow> epoch s' = epoch s \<Longrightarrow> current s' = current s \<Longrightarrow>
   (\<And>p. p < length (procs s) \<Longrightarrow> e_ready (procs s' ! p) = e_ready (procs s ! p)) \<Longrightarrow>
   launch_ok s' n ph = launch_ok s n ph"
  by (cases ph) auto

lemma stop_ok_cong: "length (procs s') = length (procs s) \<Longrightarrow> stop_ok s' ph = stop_ok s ph"
  by (cases ph) auto

text \<open>Fields the invariant does not mention.\<close>

lemma sup_ok_core:
  assumes "sup_ok s" "procs s' = procs s" "current s' = current s" "epoch s' = epoch s"
    "generation s' = generation s" "launches s' = launches s" "stops s' = stops s"
  shows "sup_ok s'"
proof -
  have same: "launch_ok s' = launch_ok s" "stop_ok s' = stop_ok s"
    by (intro ext launch_ok_cong stop_ok_cong; simp add: assms)+
  show ?thesis
    using assms(1) unfolding sup_ok_def launches_ok_def engines_ok_def stops_ok_def same assms(2-7) .
qed

lemma launches_okI:
  assumes "om_ok (launches s)"
    and "\<And>n ph a. om_get (launches s) n = Some (ph, a) \<Longrightarrow> n \<le> epoch s \<and> launch_ok s n ph"
    and "\<And>n m ph ph' a a' p. om_get (launches s) n = Some (ph, a) \<Longrightarrow> om_get (launches s) m = Some (ph', a') \<Longrightarrow>
      rising ph = Some p \<Longrightarrow> rising ph' = Some p \<Longrightarrow> n = m"
  shows "launches_ok s"
  using assms unfolding launches_ok_def by blast

lemma launch_okD:
  assumes "sup_ok s" "om_get (launches s) n = Some (ph, a)"
  shows "n \<le> epoch s" "launch_ok s n ph"
  using assms unfolding sup_ok_def launches_ok_def by blast+

lemma launch_uniqueD:
  assumes "sup_ok s" "om_get (launches s) n = Some (ph, a)" "om_get (launches s) m = Some (ph', a')"
    "rising ph = Some p" "rising ph' = Some p"
  shows "n = m"
  using assms unfolding sup_ok_def launches_ok_def by blast

lemma launches_distinctD: "sup_ok s \<Longrightarrow> om_ok (launches s)"
  unfolding sup_ok_def launches_ok_def by blast

lemma current_okD:
  assumes "sup_ok s" "current s = Some p"
  shows "p < length (procs s)" "\<not> e_gone (procs s ! p)"
    "e_gen (procs s ! p) = (if e_ready (procs s ! p) then generation s else generation s + 1)"
  using assms unfolding sup_ok_def engines_ok_def by blast+

lemma current_of_live: "sup_ok s \<Longrightarrow> p < length (procs s) \<Longrightarrow> \<not> e_gone (procs s ! p) \<Longrightarrow> current s = Some p"
  unfolding sup_ok_def engines_ok_def by blast

lemma calls_of_gone: "sup_ok s \<Longrightarrow> p < length (procs s) \<Longrightarrow> e_gone (procs s ! p) \<Longrightarrow> e_calls (procs s ! p) = []"
  unfolding sup_ok_def engines_ok_def by blast

lemma engines_okI:
  assumes "\<And>p. current s = Some p \<Longrightarrow> p < length (procs s) \<and> \<not> e_gone (procs s ! p) \<and>
      e_gen (procs s ! p) = (if e_ready (procs s ! p) then generation s else generation s + 1)"
    and "\<And>p. p < length (procs s) \<Longrightarrow> \<not> e_gone (procs s ! p) \<Longrightarrow> current s = Some p"
    and "\<And>p. p < length (procs s) \<Longrightarrow> e_gone (procs s ! p) \<Longrightarrow> e_calls (procs s ! p) = []"
  shows "engines_ok s"
  using assms unfolding engines_ok_def by blast

lemma sup_ok_flags [simp]:
  "sup_ok (s\<lparr>phase := a\<rparr>) = sup_ok s" "sup_ok (s\<lparr>restarts := b\<rparr>) = sup_ok s"
  "sup_ok (s\<lparr>stopping := c\<rparr>) = sup_ok s" "sup_ok (s\<lparr>restart_timer := c\<rparr>) = sup_ok s"
  "sup_ok (s\<lparr>waiters := d\<rparr>) = sup_ok s" "sup_ok (s\<lparr>restarting := c\<rparr>) = sup_ok s"
  by (rule iffI; erule sup_ok_core; simp)+

text \<open>A change of one process that keeps its generation, readiness and life.\<close>

definition mild :: "(engine \<Rightarrow> engine) \<Rightarrow> bool" where
  "mild f \<longleftrightarrow> (\<forall>e. e_gen (f e) = e_gen e \<and> e_ready (f e) = e_ready e \<and> e_gone (f e) = e_gone e \<and>
     (e_gone e \<longrightarrow> e_calls e = [] \<longrightarrow> e_calls (f e) = []))"

lemma set_engine_fields [simp]:
  "current (set_engine p f s) = current s" "epoch (set_engine p f s) = epoch s"
  "generation (set_engine p f s) = generation s" "launches (set_engine p f s) = launches s"
  "stops (set_engine p f s) = stops s" "length (procs (set_engine p f s)) = length (procs s)"
  "phase (set_engine p f s) = phase s" "stopping (set_engine p f s) = stopping s"
  "waiters (set_engine p f s) = waiters s" "restarting (set_engine p f s) = restarting s"
  "restarts (set_engine p f s) = restarts s" "restart_timer (set_engine p f s) = restart_timer s"
  by (simp_all add: set_engine_def)

lemma set_engine_nth [simp]:
  "q < length (procs s) \<Longrightarrow> procs (set_engine p f s) ! q = (if q = p then f (procs s ! p) else procs s ! q)"
  by (simp add: set_engine_def nth_list_update)

lemma sup_ok_mild [inv_intros]:
  assumes "sup_ok s" "mild f"
  shows "sup_ok (set_engine p f s)"
proof (rule sup_okI)
  have g: "e_gen (procs (set_engine p f s) ! q) = e_gen (procs s ! q)"
    "e_ready (procs (set_engine p f s) ! q) = e_ready (procs s ! q)"
    "e_gone (procs (set_engine p f s) ! q) = e_gone (procs s ! q)"
    "e_gone (procs s ! q) \<Longrightarrow> e_calls (procs s ! q) = [] \<Longrightarrow> e_calls (procs (set_engine p f s) ! q) = []"
    if "q < length (procs s)" for q
    using assms(2) that by (cases "q = p"; simp add: mild_def)+
  have l: "launch_ok (set_engine p f s) n ph = launch_ok s n ph" for n ph
    by (rule launch_ok_cong) (simp_all add: g del: set_engine_nth)
  show "launches_ok (set_engine p f s)" using sup_okD(1) [OF assms(1)] by (simp add: launches_ok_def l)
  show "engines_ok (set_engine p f s)"
    using sup_okD(2) [OF assms(1)] unfolding engines_ok_def set_engine_fields
    by (metis g)
  show "stops_ok (set_engine p f s)" using sup_okD(3) [OF assms(1)] by (simp add: stops_ok_def stop_ok_cong [of "set_engine p f s" s])
qed

lemma mild_intros [simp]:
  "mild (keep_reason r)" "mild (\<lambda>e. e\<lparr>e_expected := b\<rparr>)" "mild (\<lambda>e. e\<lparr>e_terminating := b\<rparr>)"
  "mild (\<lambda>e. keep_reason r (e\<lparr>e_terminating := b\<rparr>))" "mild (\<lambda>e. keep_reason r (e\<lparr>e_expected := b\<rparr>))"
  "mild (\<lambda>e. e\<lparr>e_tools := t, e_tools_at := g e\<rparr>)" "mild (\<lambda>e. e\<lparr>e_serve := v, e_misses := h e\<rparr>)"
  "mild (\<lambda>e. e\<lparr>e_calls := removeAll c (e_calls e)\<rparr>)"
  by (auto simp: mild_def keep_reason_def split: option.splits)

subsection \<open>Every operation keeps the invariant\<close>

lemma then_do_simps [simp]:
  "fst (then_do r f) = fst (f (fst r))" "snd (then_do r f) = snd r @ snd (f (fst r))"
  by (simp_all add: then_do_def split: prod.splits)

lemma then_do_ok [inv_intros]:
  "sup_ok (fst r) \<Longrightarrow> (\<And>s. sup_ok s \<Longrightarrow> sup_ok (fst (f s))) \<Longrightarrow> sup_ok (fst (then_do r f))"
  by simp

lemma schedule_restart_ok [inv_intros]: "sup_ok s \<Longrightarrow> sup_ok (fst (schedule_restart cfg now s))"
  by (auto simp: schedule_restart_def restart_attempt_def Let_def)

lemma terminate_ok [inv_intros]: "sup_ok s \<Longrightarrow> sup_ok (fst (terminate p r s))"
  by (auto simp: terminate_def Let_def intro!: inv_intros)

text \<open>Launch and stop entries that come, change place or go.\<close>

lemma launch_ok_table [simp]: "launch_ok (s\<lparr>launches := l\<rparr>) = launch_ok s" "launch_ok (s\<lparr>stops := t\<rparr>) = launch_ok s"
  "stop_ok (s\<lparr>launches := l\<rparr>) = stop_ok s" "stop_ok (s\<lparr>stops := t\<rparr>) = stop_ok s"
  by (intro ext launch_ok_cong stop_ok_cong; simp)+

lemma ok_other_fields [simp]:
  "engines_ok (s\<lparr>launches := l\<rparr>) = engines_ok s" "engines_ok (s\<lparr>stops := t\<rparr>) = engines_ok s"
  "engines_ok (s\<lparr>epoch := n\<rparr>) = engines_ok s"
  "stops_ok (s\<lparr>launches := l\<rparr>) = stops_ok s" "launches_ok (s\<lparr>stops := t\<rparr>) = launches_ok s"
  by (simp_all add: engines_ok_def stops_ok_def launches_ok_def)

lemma sup_ok_drop_launch [inv_intros]:
  assumes "sup_ok s"
  shows "sup_ok (s\<lparr>launches := om_delete n (launches s)\<rparr>)"
proof (rule sup_okI)
  show "launches_ok (s\<lparr>launches := om_delete n (launches s)\<rparr>)"
    using sup_okD(1) [OF assms] by (simp add: launches_ok_def)
qed (use assms in \<open>simp_all add: sup_ok_def\<close>)

lemma sup_ok_set_launch:
  assumes "sup_ok s" "n \<le> epoch s" "launch_ok s n ph"
    and "\<And>p m ph' a'. rising ph = Some p \<Longrightarrow> om_get (launches s) m = Some (ph', a') \<Longrightarrow> rising ph' = Some p \<Longrightarrow> m = n"
  shows "sup_ok (s\<lparr>launches := om_set n (ph, a) (launches s)\<rparr>)"
proof (rule sup_okI)
  have l: "launches_ok s" by (rule sup_okD [OF assms(1)])
  show "launches_ok (s\<lparr>launches := om_set n (ph, a) (launches s)\<rparr>)"
    unfolding launches_ok_def
  proof (intro conjI allI impI)
    show "om_ok (launches (s\<lparr>launches := om_set n (ph, a) (launches s)\<rparr>))"
      using l by (simp add: launches_ok_def)
  next
    fix m ph' a'
    assume "om_get (launches (s\<lparr>launches := om_set n (ph, a) (launches s)\<rparr>)) m = Some (ph', a')"
    then show "m \<le> epoch (s\<lparr>launches := om_set n (ph, a) (launches s)\<rparr>)"
      "launch_ok (s\<lparr>launches := om_set n (ph, a) (launches s)\<rparr>) m ph'"
      using l assms(2,3) by (auto simp: launches_ok_def split: if_splits)
  next
    fix m k ph1 ph2 a1 a2 p
    assume "om_get (launches (s\<lparr>launches := om_set n (ph, a) (launches s)\<rparr>)) m = Some (ph1, a1)"
      "om_get (launches (s\<lparr>launches := om_set n (ph, a) (launches s)\<rparr>)) k = Some (ph2, a2)"
      "rising ph1 = Some p" "rising ph2 = Some p"
    then show "m = k" using l assms(4) unfolding launches_ok_def by (auto split: if_splits)
  qed
qed (use assms(1) in \<open>simp_all add: sup_ok_def\<close>)

lemma sup_ok_set_stop:
  assumes "sup_ok s" "n \<le> epoch s" "stop_ok s ph"
  shows "sup_ok (s\<lparr>stops := om_set n (ph, a) (stops s)\<rparr>)"
  using assms by (simp add: sup_ok_def) (simp add: stops_ok_def)

lemma sup_ok_drop_stop [inv_intros]: "sup_ok s \<Longrightarrow> sup_ok (s\<lparr>stops := om_delete n (stops s)\<rparr>)"
  by (simp add: sup_ok_def) (simp add: stops_ok_def)

text \<open>A new epoch outdates every launch there is.\<close>

lemma sup_ok_new_epoch:
  assumes "sup_ok s"
  shows "sup_ok (s\<lparr>epoch := epoch s + 1\<rparr>)"
proof (rule sup_okI)
  have "launch_ok (s\<lparr>epoch := epoch s + 1\<rparr>) n ph" if "launch_ok s n ph" "n \<le> epoch s" for n ph
    using that by (cases ph) auto
  then show "launches_ok (s\<lparr>epoch := epoch s + 1\<rparr>)"
    using sup_okD(1) [OF assms] unfolding launches_ok_def by (simp add: le_Suc_eq)
  show "engines_ok (s\<lparr>epoch := epoch s + 1\<rparr>)" using sup_okD(2) [OF assms] by simp
  have "stop_ok (s\<lparr>epoch := epoch s + 1\<rparr>) = stop_ok s" by (intro ext stop_ok_cong) simp
  then show "stops_ok (s\<lparr>epoch := epoch s + 1\<rparr>)"
    using sup_okD(3) [OF assms] by (simp add: stops_ok_def) (metis le_SucI)
qed

text \<open>A process that is gone is nobody's current process.\<close>

lemma sup_ok_gone:
  assumes "sup_ok s" "p < length (procs s)" "\<not> e_gone (procs s ! p)"
  shows "sup_ok ((set_engine p (\<lambda>e. e\<lparr>e_gone := True, e_calls := []\<rparr>) s)\<lparr>current := None\<rparr>)"
    (is "sup_ok ?s'")
proof (rule sup_okI)
  have cur: "current s = Some p" using current_of_live [OF assms] .
  have "launch_ok ?s' n ph" if "launch_ok s n ph" for n ph
    using that assms(2) by (cases ph) auto
  then show "launches_ok ?s'" using sup_okD(1) [OF assms(1)] by (auto simp: launches_ok_def)
  show "engines_ok ?s'"
  proof (rule engines_okI)
    fix q
    assume "q < length (procs ?s')"
    then show "\<not> e_gone (procs ?s' ! q) \<Longrightarrow> current ?s' = Some q" "e_gone (procs ?s' ! q) \<Longrightarrow> e_calls (procs ?s' ! q) = []"
      using current_of_live [OF assms(1), of q] calls_of_gone [OF assms(1), of q] cur by (auto split: if_splits)
  qed simp
  have "stop_ok ?s' = stop_ok s" by (intro ext stop_ok_cong) simp
  then show "stops_ok ?s'" using sup_okD(3) [OF assms(1)] by (simp add: stops_ok_def)
qed

lemma on_gone_ok [inv_intros]:
  assumes "sup_ok s" "p < length (procs s)"
  shows "sup_ok (fst (on_gone cfg p now s))"
proof (cases "e_gone (procs s ! p)")
  case False
  let ?s1 = "set_engine p (\<lambda>e. e\<lparr>e_gone := True, e_calls := []\<rparr>) s"
  have c: "current s = Some p" using current_of_live assms False by blast
  have ok: "sup_ok (?s1\<lparr>current := None\<rparr>)" by (rule sup_ok_gone [OF assms False])
  have ok': "sup_ok (?s1\<lparr>current := None, phase := x\<rparr>)" for x
    by (rule sup_ok_core [OF ok]) simp_all
  show ?thesis using False c ok'
    by (auto simp: on_gone_def Let_def intro!: then_do_ok schedule_restart_ok)
qed (simp add: on_gone_def assms)

lemma sup_ok_start:
  assumes "sup_ok s"
  shows "sup_ok (s\<lparr>epoch := epoch s + 1, launches := om_set (epoch s + 1)
      (case current s of Some p \<Rightarrow> AwaitPrevious p | None \<Rightarrow> PrepareDirs, again) (launches s)\<rparr>)"
proof -
  let ?s = "s\<lparr>epoch := epoch s + 1\<rparr>"
  have "sup_ok ?s" by (rule sup_ok_new_epoch [OF assms])
  moreover have "launch_ok ?s (epoch s + 1) (case current s of Some p \<Rightarrow> AwaitPrevious p | None \<Rightarrow> PrepareDirs)"
    using current_okD(1) [OF assms] by (auto split: option.splits)
  moreover have "rising (case current s of Some p \<Rightarrow> AwaitPrevious p | None \<Rightarrow> PrepareDirs) = None"
    by (auto split: option.splits)
  ultimately show ?thesis
    using sup_ok_set_launch [of ?s "epoch s + 1" "case current s of Some p \<Rightarrow> AwaitPrevious p | None \<Rightarrow> PrepareDirs"]
    by simp
qed

lemma start_ok [inv_intros]:
  assumes "sup_ok s"
  shows "sup_ok (fst (start cfg again s))"
proof -
  let ?n = "epoch s + 1"
  let ?l = "om_set ?n (case current s of Some p \<Rightarrow> AwaitPrevious p | None \<Rightarrow> PrepareDirs, again) (launches s)"
  have "sup_ok (s\<lparr>epoch := ?n, launches := ?l\<rparr>)" by (rule sup_ok_start [OF assms])
  then have "sup_ok (s\<lparr>stopping := False, restart_timer := False, phase := Starting, epoch := ?n, launches := ?l\<rparr>)"
    by (rule sup_ok_core) simp_all
  then show ?thesis using assms by (simp add: start_def Let_def)
qed

lemma stop_ok_step [inv_intros]:
  assumes "sup_ok s"
  shows "sup_ok (fst (stop again s))"
proof -
  have e: "sup_ok (s\<lparr>epoch := epoch s + 1\<rparr>)" by (rule sup_ok_new_epoch [OF assms])
  show ?thesis
  proof (cases "current s")
    case None
    have "sup_ok (s\<lparr>epoch := epoch s + 1, stops := om_set (epoch s + 1) (Reaping False, again) (stops s)\<rparr>)"
      using sup_ok_set_stop [OF e, of "epoch s + 1" "Reaping False"] by simp
    then have "sup_ok (s\<lparr>stopping := True, epoch := epoch s + 1, restart_timer := False, phase := Stopped,
        stops := om_set (epoch s + 1) (Reaping False, again) (stops s)\<rparr>)" by (rule sup_ok_core) simp_all
    then show ?thesis using None by (simp add: stop_def Let_def)
  next
    case (Some p)
    have "p < length (procs s)" using current_okD(1) [OF assms Some] .
    then have "sup_ok (s\<lparr>epoch := epoch s + 1, stops := om_set (epoch s + 1) (Snapshot p, again) (stops s)\<rparr>)"
      using sup_ok_set_stop [OF e, of "epoch s + 1" "Snapshot p"] by simp
    then have "sup_ok (s\<lparr>stopping := True, epoch := epoch s + 1, restart_timer := False, phase := Stopping,
        stops := om_set (epoch s + 1) (Snapshot p, again) (stops s)\<rparr>)" by (rule sup_ok_core) simp_all
    then show ?thesis using Some sup_ok_mild [OF _ mild_intros(5)] by (simp add: stop_def Let_def)
  qed
qed

lemma restart_ok [inv_intros]: "sup_ok s \<Longrightarrow> sup_ok (fst (restart r s))"
  by (auto simp: restart_def Let_def intro!: then_do_ok stop_ok_step sup_ok_mild split: option.splits)

lemma timer_fires_ok [inv_intros]: "sup_ok s \<Longrightarrow> sup_ok (fst (timer_fires cfg s))"
  by (auto simp: timer_fires_def Let_def intro!: start_ok)

lemma when_ready_ok [inv_intros]: "sup_ok s \<Longrightarrow> sup_ok (fst (when_ready cfg w s))"
  by (auto simp: when_ready_def Let_def intro!: then_do_ok start_ok)

lemma waiter_times_out_ok [inv_intros]: "sup_ok s \<Longrightarrow> sup_ok (fst (waiter_times_out w s))"
  by (auto simp: waiter_times_out_def)

lemma sup_ok_stop_at: "sup_ok s \<Longrightarrow> om_get (stops s) n = Some (ph, a) \<Longrightarrow> n \<le> epoch s \<and> stop_ok s ph"
  unfolding sup_ok_def stops_ok_def by blast

lemma stop_goes_ok [inv_intros]:
  assumes "sup_ok s"
  shows "sup_ok (fst (stop_goes cfg n s))"
proof (cases "om_get (stops s) n")
  case (Some pa)
  obtain ph a where pa: "pa = (ph, a)" by (cases pa)
  have b: "n \<le> epoch s" "stop_ok s ph" using sup_ok_stop_at [OF assms] Some pa by blast+
  have drop: "sup_ok (s\<lparr>stops := om_delete n (stops s), phase := x\<rparr>)" for x
    by (rule sup_ok_core [OF sup_ok_drop_stop [OF assms, of n]]) simp_all
  show ?thesis
    using Some pa b drop assms
    by (cases ph) (auto simp: stop_goes_def Let_def intro!: sup_ok_set_stop start_ok)
qed (simp add: stop_goes_def assms)

lemma launch_ends_ok [inv_intros]: "sup_ok s \<Longrightarrow> sup_ok (fst (launch_ends cfg n again now s))"
  by (auto simp: launch_ends_def Let_def intro!: then_do_ok schedule_restart_ok sup_ok_drop_launch)

lemma terminate_fields [simp]:
  "epoch (fst (terminate p r s)) = epoch s" "length (procs (fst (terminate p r s))) = length (procs s)"
  "launches (fst (terminate p r s)) = launches s" "current (fst (terminate p r s)) = current s"
  "generation (fst (terminate p r s)) = generation s" "stops (fst (terminate p r s)) = stops s"
  "restarts (fst (terminate p r s)) = restarts s" "stopping (fst (terminate p r s)) = stopping s"
  by (simp_all add: terminate_def Let_def)

lemma launch_fails_ok [inv_intros]:
  assumes "sup_ok s" "n \<le> epoch s" "p < length (procs s)"
  shows "sup_ok (fst (launch_fails cfg n again p now s))"
proof -
  obtain s1 o1 where t: "terminate p ''start_failed'' s = (s1, o1)" by fastforce
  have "sup_ok s1" "epoch s1 = epoch s" "length (procs s1) = length (procs s)"
    using terminate_ok [OF assms(1), of p "''start_failed''"] terminate_fields [of p "''start_failed''" s] t by auto
  then have "sup_ok (s1\<lparr>launches := om_set n (CleanUp p, again) (launches s1)\<rparr>)"
    using assms by (intro sup_ok_set_launch) auto
  then show ?thesis using launch_ends_ok [OF assms(1)] by (simp add: launch_fails_def then_do_def t)
qed

lemma spawn_ok:
  assumes "sup_ok s" "n = epoch s" "current s = None"
  shows "sup_ok (fst (spawn n again now s))"
proof -
  let ?p = "length (procs s)"
  let ?s = "s\<lparr>procs := procs s @ [new_engine (generation s + 1) now], current := Some ?p,
              launches := om_set n (Initialize ?p, again) (launches s)\<rparr>"
  have keep: "launch_ok ?s m ph" if "launch_ok s m ph" "m \<noteq> epoch s" for m ph
    using that by (cases ph) (auto simp: nth_append)
  have rise: "rising ph = Some q \<Longrightarrow> q < ?p" if "launch_ok s m ph" for m ph q
    using that by (cases ph) auto
  have "launches_ok ?s"
  proof (rule launches_okI)
    show "om_ok (launches ?s)" using launches_distinctD [OF assms(1)] by simp
  next
    fix m ph a
    assume m: "om_get (launches ?s) m = Some (ph, a)"
    show "m \<le> epoch ?s \<and> launch_ok ?s m ph"
    proof (cases "m = n")
      case True
      then show ?thesis using m assms(2) by (auto simp: nth_append new_engine_def)
    next
      case False
      then show ?thesis using m launch_okD [OF assms(1), of m ph a] keep assms(2) by auto
    qed
  next
    fix m k ph ph' a a' q
    assume m: "om_get (launches ?s) m = Some (ph, a)" and k: "om_get (launches ?s) k = Some (ph', a')"
      and r: "rising ph = Some q" "rising ph' = Some q"
    have old: "j \<noteq> n \<Longrightarrow> om_get (launches ?s) j = Some (ph'', a'') \<Longrightarrow> rising ph'' = Some q \<Longrightarrow> q < ?p" for j ph'' a''
      using launch_okD(2) [OF assms(1), of j ph'' a''] rise by auto
    have new: "om_get (launches ?s) n = Some (ph'', a'') \<Longrightarrow> rising ph'' = Some q \<Longrightarrow> q = ?p" for ph'' a''
      by auto
    show "m = k"
    proof (cases "m = n \<or> k = n")
      case True
      then show ?thesis using old [OF _ m] old [OF _ k] new m k r by (metis less_irrefl)
    next
      case False
      then show ?thesis using m k r launch_uniqueD [OF assms(1), of m ph a k ph' a' q] by auto
    qed
  qed
  moreover have "engines_ok ?s"
    using current_of_live [OF assms(1)] calls_of_gone [OF assms(1)] assms(3)
    by (intro engines_okI) (auto simp: nth_append new_engine_def split: if_splits dest: less_antisym)
  moreover have "stop_ok ?s ph" if "stop_ok s ph" for ph using that by (cases ph) auto
  then have "stops_ok ?s" using sup_okD(3) [OF assms(1)] unfolding stops_ok_def by auto
  ultimately have "sup_ok ?s" by (rule sup_okI)
  then show ?thesis by (simp add: spawn_def Let_def)
qed

text \<open>The process that becomes ready is the current one, and its generation is the next.\<close>

lemma becomes_ready_ok:
  assumes "sup_ok s" "om_get (launches s) n = Some (WaitTools p, again)" "current s = Some p"
  shows "sup_ok (fst (becomes_ready n again p s))" and "e_gen (procs s ! p) = generation s + 1"
proof -
  have l: "p < length (procs s)" "\<not> e_ready (procs s ! p)"
    using launch_okD(2) [OF assms(1,2)] by auto
  then show g: "e_gen (procs s ! p) = generation s + 1" using current_okD(3) [OF assms(1,3)] by simp
  let ?s = "(set_engine p (\<lambda>e. e\<lparr>e_ready := True\<rparr>) s)\<lparr>generation := e_gen (procs s ! p), launches := om_delete n (launches s)\<rparr>"
  have others: "m \<noteq> n \<Longrightarrow> om_get (launches s) m = Some (ph, a) \<Longrightarrow> rising ph \<noteq> Some p" for m ph a
    using launch_uniqueD [OF assms(1), of m ph a n "WaitTools p" again p] assms(2) by auto
  have keep: "launch_ok ?s m ph" if "launch_ok s m ph" "rising ph \<noteq> Some p" for m ph
    using that by (cases ph) auto
  have "launches_ok ?s"
  proof (rule launches_okI)
    show "om_ok (launches ?s)" using launches_distinctD [OF assms(1)] by simp
  next
    fix m ph a
    assume "om_get (launches ?s) m = Some (ph, a)"
    then have m: "m \<noteq> n" "om_get (launches s) m = Some (ph, a)" by (auto split: if_splits)
    then show "m \<le> epoch ?s \<and> launch_ok ?s m ph"
      using launch_okD [OF assms(1) m(2)] others keep by auto
  next
    fix m k ph ph' a a' q
    assume "om_get (launches ?s) m = Some (ph, a)" "om_get (launches ?s) k = Some (ph', a')"
      "rising ph = Some q" "rising ph' = Some q"
    then show "m = k" using launch_uniqueD [OF assms(1), of m ph a k ph' a' q] by (auto split: if_splits)
  qed
  moreover have "engines_ok ?s"
  proof (rule engines_okI)
    fix q
    assume "current ?s = Some q"
    then have "q = p" using assms(3) by simp
    then show "q < length (procs ?s) \<and> \<not> e_gone (procs ?s ! q) \<and>
        e_gen (procs ?s ! q) = (if e_ready (procs ?s ! q) then generation ?s else generation ?s + 1)"
      using l current_okD(2) [OF assms(1,3)] by simp
  next
    fix q
    assume "q < length (procs ?s)"
    then show "\<not> e_gone (procs ?s ! q) \<Longrightarrow> current ?s = Some q" "e_gone (procs ?s ! q) \<Longrightarrow> e_calls (procs ?s ! q) = []"
      using current_of_live [OF assms(1), of q] calls_of_gone [OF assms(1), of q] by (auto split: if_splits)
  qed
  moreover have "stop_ok ?s ph" if "stop_ok s ph" for ph using that by (cases ph) auto
  then have "stops_ok ?s" using sup_okD(3) [OF assms(1)] unfolding stops_ok_def by auto
  ultimately have "sup_ok ?s" by (rule sup_okI)
  then show "sup_ok (fst (becomes_ready n again p s))"
    by (rule sup_ok_core) (simp_all add: becomes_ready_def Let_def)
qed

lemma set_tools_ok [inv_intros]: "sup_ok s \<Longrightarrow> sup_ok (fst (set_tools p t now s))"
  by (auto simp: set_tools_def Let_def intro!: sup_ok_mild)

lemma set_tools_fields [simp]:
  "launches (fst (set_tools p t now s)) = launches s" "current (fst (set_tools p t now s)) = current s"
  "epoch (fst (set_tools p t now s)) = epoch s" "length (procs (fst (set_tools p t now s))) = length (procs s)"
  "generation (fst (set_tools p t now s)) = generation s" "stopping (fst (set_tools p t now s)) = stopping s"
  by (simp_all add: set_tools_def Let_def)

lemma tools_wait_ok:
  assumes "tools_wait cfg p now s = (b, s1)" "sup_ok s"
  shows "sup_ok s1" "launches s1 = launches s" "current s1 = current s" "epoch s1 = epoch s"
    "length (procs s1) = length (procs s)" "generation s1 = generation s" "stopping s1 = stopping s"
  using assms by (auto simp: tools_wait_def Let_def intro: set_tools_ok split: tools_state.splits if_splits)

lemma launch_goes_ok [inv_intros]:
  assumes "sup_ok s"
  shows "sup_ok (fst (launch_goes cfg n ok now s))"
proof (cases "om_get (launches s) n")
  case None
  then show ?thesis using assms by (simp add: launch_goes_def Let_def)
next
  case (Some pa)
  obtain ph a where pa: "pa = (ph, a)" by (cases pa)
  note get = Some [unfolded pa]
  have n: "n \<le> epoch s" "launch_ok s n ph" using launch_okD [OF assms get] by blast+
  have fails: "p < length (procs s) \<Longrightarrow> sup_ok (fst (launch_fails cfg n a p now s))" for p
    by (rule launch_fails_ok [OF assms n(1)])
  have ends: "sup_ok (fst (launch_ends cfg n a now s))" by (rule launch_ends_ok [OF assms])
  have move: "sup_ok (s\<lparr>launches := om_set n (ph', a) (launches s)\<rparr>)"
    if "launch_ok s n ph'" "\<And>p. rising ph' = Some p \<Longrightarrow> rising ph = Some p" for ph'
    using launch_uniqueD [OF assms _ get] that by (intro sup_ok_set_launch [OF assms n(1) that(1)]) blast
  show ?thesis
  proof (cases ph)
    case (AwaitPrevious p)
    have "sup_ok (s\<lparr>launches := om_set n (PrepareDirs, a) (launches s)\<rparr>)" if "e_gone (procs s ! p)"
      using n(2) AwaitPrevious that current_okD(2) [OF assms, of p] by (intro move) auto
    then show ?thesis using get AwaitPrevious assms by (simp add: launch_goes_def Let_def)
  next
    case PrepareDirs
    then have "n = epoch s \<Longrightarrow> sup_ok (fst (spawn n a now s))" using n(2) by (intro spawn_ok [OF assms]) auto
    then show ?thesis using get PrepareDirs ends by (auto simp: launch_goes_def Let_def)
  next
    case (Initialize p)
    then show ?thesis using get n(2) fails move [of "WarmNew p"] by (simp add: launch_goes_def Let_def)
  next
    case (WarmNew p)
    then show ?thesis using get n(2) fails move [of "WarmDelete p"] by (simp add: launch_goes_def Let_def)
  next
    case (WarmDelete p)
    then show ?thesis using get n(2) fails move [of "WaitTools p"] by (simp add: launch_goes_def Let_def)
  next
    case (WaitTools p)
    obtain b s1 where t: "tools_wait cfg p now s = (b, s1)" by fastforce
    note t1 = tools_wait_ok [OF t assms]
    have g1: "om_get (launches s1) n = Some (WaitTools p, a)" using get WaitTools t1(2) by simp
    have "sup_ok (fst (launch_fails cfg n a p now s1))"
      using t1 n WaitTools by (intro launch_fails_ok) auto
    moreover have "current s1 = Some p \<Longrightarrow> sup_ok (fst (becomes_ready n a p s1))"
      using becomes_ready_ok(1) [OF t1(1) g1] by simp
    ultimately show ?thesis using get WaitTools n(2) fails t t1(1)
      by (simp add: launch_goes_def Let_def split: bool.split)
  next
    case (CleanUp p)
    then show ?thesis using get ends assms by (simp add: launch_goes_def Let_def)
  qed
qed

lemma call_ok [inv_intros]:
  assumes "sup_ok s"
  shows "sup_ok (fst (call c s))"
proof (cases "may_call s")
  case (Some p)
  then have p: "current s = Some p" "\<not> e_gone (procs s ! p)" by (auto simp: may_call_def split: option.splits if_splits)
  let ?s = "set_engine p (\<lambda>e. e\<lparr>e_calls := e_calls e @ [c]\<rparr>) s"
  have same: "launch_ok ?s = launch_ok s" "stop_ok ?s = stop_ok s"
    by (intro ext launch_ok_cong stop_ok_cong; simp)+
  have "engines_ok ?s"
  proof (rule engines_okI)
    fix q
    assume "current ?s = Some q"
    then show "q < length (procs ?s) \<and> \<not> e_gone (procs ?s ! q) \<and>
        e_gen (procs ?s ! q) = (if e_ready (procs ?s ! q) then generation ?s else generation ?s + 1)"
      using current_okD [OF assms, of q] by auto
  next
    fix q
    assume "q < length (procs ?s)"
    then show "\<not> e_gone (procs ?s ! q) \<Longrightarrow> current ?s = Some q" "e_gone (procs ?s ! q) \<Longrightarrow> e_calls (procs ?s ! q) = []"
      using current_of_live [OF assms, of q] calls_of_gone [OF assms, of q] p by (cases "q = p"; simp)+
  qed
  moreover have "launches_ok ?s" using sup_okD(1) [OF assms] by (simp add: launches_ok_def same)
  moreover have "stops_ok ?s" using sup_okD(3) [OF assms] by (simp add: stops_ok_def same)
  ultimately have "sup_ok ?s" by (intro sup_okI)
  then show ?thesis using Some by (simp add: call_def)
qed (simp add: call_def assms)

lemma check_serve_ok [inv_intros]: "sup_ok s \<Longrightarrow> sup_ok (fst (check_serve p f al x s))"
  by (auto simp: check_serve_def Let_def intro!: sup_ok_mild terminate_ok)

lemma probe_goes_ok [inv_intros]: "sup_ok s \<Longrightarrow> sup_ok (fst (fst (probe_goes p r s)))"
  by (auto simp: probe_goes_def split: probe.splits intro!: terminate_ok)

lemma on_stderr_line_ok [inv_intros]: "sup_ok s \<Longrightarrow> sup_ok (fst (on_stderr_line p l now s))"
  by (auto simp: on_stderr_line_def split: option.splits intro!: set_tools_ok)

lemma call_settles_ok [inv_intros]: "sup_ok s \<Longrightarrow> sup_ok (fst (call_settles p c s))"
  by (auto simp: call_settles_def intro!: sup_ok_mild)

lemma sup_step_ok: "sup_ok s \<Longrightarrow> sup_ok (fst (sup_step cfg s e))"
  by (cases e) (auto simp: sup_step_def intro!: inv_intros)

interpretation engine_runs: run_invariant "\<lambda>s e. fst (sup_step cfg s e)" sup_ok for cfg
  by unfold_locales (rule sup_step_ok)

lemma sup_run_state: "fst (sup_run cfg s es) = foldl (\<lambda>s e. fst (sup_step cfg s e)) s es"
  by (induction es arbitrary: s) simp_all

lemma sup_init_ok: "sup_ok sup_init"
  by (rule sup_okI) (simp_all add: launches_ok_def engines_ok_def stops_ok_def sup_init_def)

lemma sup_run_ok: "sup_ok s \<Longrightarrow> sup_ok (fst (sup_run cfg s es))"
  unfolding sup_run_state by (rule engine_runs.run_inv)

end
