(* ===== verification/Agent_Props.thy ===== *)
theory Agent_Props
  imports Agent_Facts
begin

text \<open>
  The properties of the engine supervisor (runtime/lib/agent-supervisor.js).
\<close>

subsection \<open>One engine\<close>

text \<open>Claim C1. However starts, stops, restarts, launches, exits, timers and probes interleave, at most one engine
  process is alive at any time, and it is the one the supervisor knows as its own: no orphan.\<close>

theorem one_engine_at_a_time:
  "length (filter (\<lambda>e. \<not> e_gone e) (procs (fst (sup_run cfg sup_init es)))) \<le> 1 \<and>
   (\<forall>p < length (procs (fst (sup_run cfg sup_init es))).
      \<not> e_gone (procs (fst (sup_run cfg sup_init es)) ! p) \<longrightarrow> current (fst (sup_run cfg sup_init es)) = Some p)"
proof -
  let ?s = "fst (sup_run cfg sup_init es)"
  have ok: "sup_ok ?s" by (rule sup_run_ok [OF sup_init_ok])
  have own: "current ?s = Some p" if "p < length (procs ?s)" "\<not> e_gone (procs ?s ! p)" for p
    using current_of_live [OF ok that] .
  have "card {i. i < length (procs ?s) \<and> \<not> e_gone (procs ?s ! i)} \<le> card (set_option (current ?s))"
    using own by (intro card_mono) (auto simp: elem_set)
  also have "\<dots> \<le> 1" by (cases "current ?s") simp_all
  finally show ?thesis using own by (simp add: length_filter_conv_card)
qed

subsection \<open>Generations\<close>

definition ready_gens :: "sup_out list \<Rightarrow> nat list" where
  "ready_gens outs = List.map_filter (\<lambda>x. case x of ReadyEvent g _ _ \<Rightarrow> Some g | _ \<Rightarrow> None) outs"

lemma ready_gens_simps [simp]:
  "ready_gens [] = []" "ready_gens (xs @ ys) = ready_gens xs @ ready_gens ys"
  "ready_gens (x # xs) = (case x of ReadyEvent g _ _ \<Rightarrow> [g] | _ \<Rightarrow> []) @ ready_gens xs"
  by (auto simp: ready_gens_def map_filter_def split: sup_out.splits)

lemma ready_gens_map [simp]:
  "ready_gens (map Rejected ws) = []" "ready_gens (map CallFailed ws) = []" "ready_gens (map (\<lambda>w. Resolved w g) ws) = []"
  by (induction ws) simp_all

text \<open>A step that announces no engine, and one that announces the next.\<close>

definition keeps_gen :: "sup \<Rightarrow> sup_result \<Rightarrow> bool" where
  "keeps_gen s r \<longleftrightarrow> ready_gens (snd r) = [] \<and> generation (fst r) = generation s"

definition advances :: "sup \<Rightarrow> sup_result \<Rightarrow> bool" where
  "advances s r \<longleftrightarrow> keeps_gen s r \<or>
     (ready_gens (snd r) = [generation s + 1] \<and> generation (fst r) = generation s + 1)"

lemma keeps_gen_then: "keeps_gen s r \<Longrightarrow> (\<And>s'. keeps_gen s' (f s')) \<Longrightarrow> keeps_gen s (then_do r f)"
  by (simp add: keeps_gen_def)

lemma keeps_schedule: "keeps_gen s (schedule_restart cfg now s)"
  by (auto simp: keeps_gen_def schedule_restart_def restart_attempt_def Let_def)

lemma schedule_quiet [simp]:
  "ready_gens (snd (schedule_restart cfg now s)) = []" "generation (fst (schedule_restart cfg now s)) = generation s"
  using keeps_schedule [of s cfg now] by (simp_all add: keeps_gen_def)

lemma keeps_terminate: "keeps_gen s (terminate p r s)"
  by (auto simp: keeps_gen_def terminate_def Let_def)

lemma keeps_start: "keeps_gen s (start cfg again s)"
  by (auto simp: keeps_gen_def start_def Let_def)

lemma keeps_stop: "keeps_gen s (stop again s)"
  by (auto simp: keeps_gen_def stop_def Let_def split: option.splits)

lemma keeps_on_gone: "keeps_gen s (on_gone cfg p now s)"
  by (auto simp: on_gone_def Let_def keeps_gen_def)

lemma keeps_launch_ends: "keeps_gen s (launch_ends cfg n again now s)"
  by (simp add: launch_ends_def Let_def keeps_gen_def)

lemma keeps_launch_fails: "keeps_gen s (launch_fails cfg n again p now s)"
  using keeps_launch_ends keeps_terminate by (auto simp: launch_fails_def keeps_gen_def)

lemma keeps_when_ready: "keeps_gen s (when_ready cfg w s)"
  using keeps_start [of "s\<lparr>restarts := []\<rparr>"] by (auto simp: when_ready_def Let_def keeps_gen_def)

lemma keeps_stop_goes: "keeps_gen s (stop_goes cfg n s)"
  using keeps_start [of "s\<lparr>stops := x, phase := y\<rparr>" for x y]
  by (auto simp: stop_goes_def Let_def keeps_gen_def split: option.splits stop_phase.splits)

lemma keeps_timer: "keeps_gen s (timer_fires cfg s)"
  using keeps_start [of "s\<lparr>restart_timer := False\<rparr>"] by (auto simp: timer_fires_def Let_def keeps_gen_def)

lemma keeps_set_tools: "keeps_gen s (set_tools p t now s)"
  by (simp add: set_tools_def keeps_gen_def Let_def)

lemma keeps_others:
  "keeps_gen s (restart r s)" "keeps_gen s (waiter_times_out w s)" "keeps_gen s (call c s)"
  "keeps_gen s (call_settles p c s)" "keeps_gen s (check_serve p f a x s)" "keeps_gen s (fst (probe_goes p b s))"
  "keeps_gen s (on_stderr_line p l now s)"
  using keeps_stop keeps_terminate keeps_set_tools
  by (auto simp: restart_def Let_def waiter_times_out_def call_def call_settles_def check_serve_def probe_goes_def
      on_stderr_line_def keeps_gen_def split: option.splits probe.splits)

lemma launch_goes_advances:
  assumes "sup_ok s"
  shows "advances s (launch_goes cfg n ok now s)"
proof (cases "om_get (launches s) n")
  case None
  then show ?thesis by (simp add: launch_goes_def Let_def advances_def keeps_gen_def)
next
  case (Some pa)
  obtain ph a where pa: "pa = (ph, a)" by (cases pa)
  note facts = keeps_launch_ends keeps_launch_fails
  show ?thesis
  proof (cases ph)
    case (WaitTools p)
    obtain b s1 where t: "tools_wait cfg p now s = (b, s1)" by fastforce
    note t1 = tools_wait_ok [OF t assms]
    have g1: "om_get (launches s1) n = Some (WaitTools p, a)" using Some pa WaitTools t1(2) by simp
    have "advances s (becomes_ready n a p s1)" if "current s1 = Some p"
      using becomes_ready_ok(2) [OF t1(1) g1 that] t1(6) by (simp add: advances_def becomes_ready_def Let_def)
    moreover have "advances s (launch_fails cfg n a p now s1)" "advances s (s1, [])"
      using keeps_launch_fails [of s1] t1(6) by (simp_all add: advances_def keeps_gen_def)
    ultimately show ?thesis
      using Some pa WaitTools t facts by (simp add: launch_goes_def Let_def advances_def split: bool.split)
  qed (use Some pa facts in \<open>auto simp: launch_goes_def Let_def advances_def keeps_gen_def spawn_def\<close>)
qed

lemma sup_step_advances: "sup_ok s \<Longrightarrow> advances s (sup_step cfg s e)"
  using launch_goes_advances keeps_start keeps_stop keeps_timer keeps_stop_goes keeps_on_gone keeps_when_ready keeps_others
  by (cases e) (auto simp: sup_step_def advances_def keeps_gen_def)

interpretation engine_generations: monotone_run "\<lambda>s e. fst (sup_step cfg s e)" sup_ok generation for cfg
proof unfold_locales
  fix s e
  show "sup_ok s \<Longrightarrow> generation s \<le> generation (fst (sup_step cfg s e))"
    using sup_step_advances [of s cfg e] by (auto simp: advances_def keeps_gen_def)
qed

lemma generation_of_run: "sup_ok s \<Longrightarrow> generation s \<le> generation (fst (sup_run cfg s es))"
  using engine_generations.run_mono [of s cfg es] by (simp add: sup_run_state)

text \<open>Generations are announced in order, one by one: the ready events of any run carry exactly
  \<open>1, 2, 3, \<dots>\<close> up to the supervisor's generation, whichever launches failed or were overtaken between.\<close>

theorem generations_consecutive:
  "ready_gens (snd (sup_run cfg sup_init es)) = [1..<Suc (generation (fst (sup_run cfg sup_init es)))]"
proof -
  have "ready_gens (snd (sup_run cfg s es)) = [Suc (generation s)..<Suc (generation (fst (sup_run cfg s es)))]" if "sup_ok s" for s
    using that
  proof (induction es arbitrary: s)
    case (Cons e es)
    let ?r = "sup_step cfg s e"
    have "ready_gens (snd (sup_run cfg (fst ?r) es)) =
        [Suc (generation (fst ?r))..<Suc (generation (fst (sup_run cfg (fst ?r) es)))]"
      "generation (fst ?r) \<le> generation (fst (sup_run cfg (fst ?r) es))"
      using Cons.IH [OF sup_step_ok [OF Cons.prems]] generation_of_run [OF sup_step_ok [OF Cons.prems]] by blast+
    moreover from sup_step_advances [OF Cons.prems, of cfg e] have "keeps_gen s ?r \<or>
        (ready_gens (snd ?r) = [generation s + 1] \<and> generation (fst ?r) = generation s + 1)"
      by (simp add: advances_def)
    ultimately show ?case by (auto simp: keeps_gen_def upt_conv_Cons simp del: upt_Suc)
  qed simp
  from this [OF sup_init_ok] show ?thesis by (simp add: sup_init_def)
qed

subsection \<open>A stop stays a stop\<close>

text \<open>A supervisor that is stopping, with no restart of its own epoch pending.\<close>

definition halted :: "sup_cfg \<Rightarrow> sup \<Rightarrow> bool" where
  "halted cfg s \<longleftrightarrow> stopping s \<and> (phase s = Unavailable \<longrightarrow> \<not> has_default_model cfg) \<and>
     (\<forall>ph. om_get (stops s) (epoch s) \<noteq> Some (ph, True))"

text \<open>It stays so, and spawns nothing.\<close>

definition stays_halted :: "sup_cfg \<Rightarrow> sup_result \<Rightarrow> bool" where
  "stays_halted cfg r \<longleftrightarrow> halted cfg (fst r) \<and> (\<forall>p. Spawned p \<notin> set (snd r))"

fun asks_start :: "sup_event \<Rightarrow> bool" where
  "asks_start Start = True"
| "asks_start (Restart _) = True"
| "asks_start _ = False"

lemma halted_same:
  "halted cfg s \<Longrightarrow> stopping s' = stopping s \<Longrightarrow> phase s' = phase s \<or> phase s' \<noteq> Unavailable \<Longrightarrow>
   stops s' = stops s \<Longrightarrow> epoch s' = epoch s \<Longrightarrow> halted cfg s'"
  by (auto simp: halted_def)

lemma halted_flags [simp]:
  "halted cfg (s\<lparr>launches := l\<rparr>) = halted cfg s" "halted cfg (s\<lparr>waiters := w\<rparr>) = halted cfg s"
  "halted cfg (s\<lparr>restarting := b\<rparr>) = halted cfg s"
  by (simp_all add: halted_def)

lemma stays_terminate: "halted cfg s \<Longrightarrow> stays_halted cfg (terminate p r s)"
  by (auto simp: stays_halted_def terminate_def Let_def elim: halted_same)

lemma stays_launch_ends: "halted cfg s \<Longrightarrow> stays_halted cfg (launch_ends cfg n again now s)"
proof -
  assume h: "halted cfg s"
  then have "stopping s" by (simp add: halted_def)
  then show ?thesis using h by (auto simp: stays_halted_def launch_ends_def Let_def elim!: halted_same)
qed

lemma stays_launch_fails: "halted cfg s \<Longrightarrow> stays_halted cfg (launch_fails cfg n again p now s)"
  using stays_launch_ends [of cfg s n again now] stays_terminate [of cfg s p "''start_failed''"]
  by (simp add: launch_fails_def stays_halted_def)

lemma stays_set_tools: "halted cfg s \<Longrightarrow> stays_halted cfg (set_tools p t now s)"
  by (auto simp: stays_halted_def set_tools_def Let_def elim!: halted_same)

lemma stays_launch_goes:
  assumes h: "halted cfg s"
  shows "stays_halted cfg (launch_goes cfg n ok now s)"
proof (cases "om_get (launches s) n")
  case None
  then show ?thesis using h by (simp add: launch_goes_def Let_def stays_halted_def)
next
  case (Some pa)
  obtain ph a where pa: "pa = (ph, a)" by (cases pa)
  have keep: "halted cfg (s\<lparr>launches := l\<rparr>)" for l using h by (auto elim!: halted_same)
  note facts = stays_launch_ends [OF h] stays_launch_fails [OF h]
  show ?thesis
  proof (cases ph)
    case (WaitTools p)
    obtain b s1 where t: "tools_wait cfg p now s = (b, s1)" by fastforce
    have s1: "halted cfg s1"
      using t h stays_set_tools [OF h, of p ToolsMissing now]
      by (auto simp: tools_wait_def Let_def stays_halted_def split: tools_state.splits if_splits)
    then have "halted cfg (fst (becomes_ready n a p s1))" by (auto simp: becomes_ready_def Let_def elim!: halted_same)
    then have "stays_halted cfg (becomes_ready n a p s1)"
      by (auto simp: stays_halted_def becomes_ready_def Let_def)
    then show ?thesis
      using Some pa WaitTools t facts s1 stays_launch_fails [OF s1]
      by (simp add: launch_goes_def Let_def split: bool.split) (simp add: stays_halted_def)
  next
    case PrepareDirs
    have "stopping s" using h by (simp add: halted_def)
    then show ?thesis using Some pa PrepareDirs facts by (simp add: launch_goes_def Let_def)
  qed (use Some pa facts h keep in \<open>auto simp: launch_goes_def Let_def stays_halted_def\<close>)
qed

lemma stays_on_gone: "halted cfg s \<Longrightarrow> stays_halted cfg (on_gone cfg p now s)"
proof -
  assume h: "halted cfg s"
  then have "stopping s" by (simp add: halted_def)
  then show ?thesis using h by (auto simp: stays_halted_def on_gone_def Let_def elim!: halted_same)
qed

lemma stays_stop:
  assumes "sup_ok s"
  shows "stays_halted cfg (stop False s)"
  by (auto simp: stays_halted_def stop_def Let_def halted_def split: option.splits)

lemma stays_stop_goes:
  assumes "halted cfg s"
  shows "stays_halted cfg (stop_goes cfg n s)"
proof (cases "om_get (stops s) n")
  case (Some pa)
  obtain ph a where pa: "pa = (ph, a)" by (cases pa)
  then show ?thesis using Some assms
    by (cases ph) (auto simp: stop_goes_def Let_def stays_halted_def halted_def)
qed (use assms in \<open>simp add: stop_goes_def stays_halted_def\<close>)

lemma sup_step_halted:
  assumes "halted cfg s" "sup_ok s" "\<not> asks_start e"
  shows "stays_halted cfg (sup_step cfg s e)"
proof -
  have stp: "stopping s" "phase s = Unavailable \<Longrightarrow> \<not> has_default_model cfg" using assms(1) by (auto simp: halted_def)
  have quiet: "stays_halted cfg (s, outs)" if "\<forall>p. Spawned p \<notin> set outs" for outs
    using assms(1) that by (simp add: stays_halted_def)
  have same: "halted cfg s'" if "stopping s' = stopping s" "phase s' = phase s" "stops s' = stops s" "epoch s' = epoch s" for s'
    using halted_same [OF assms(1)] that by blast
  show ?thesis
  proof (cases e)
    case (WhenReady w)
    show ?thesis using WhenReady stp
      by (auto simp: sup_step_def when_ready_def Let_def stays_halted_def intro!: same assms(1))
  next
    case (ServeTick p f al x)
    then show ?thesis using stays_terminate [OF assms(1)]
      by (auto simp: sup_step_def check_serve_def Let_def intro!: quiet) (auto simp: stays_halted_def intro!: same)
  next
    case (ProbeGoes p r)
    then show ?thesis using stays_terminate [OF assms(1)]
      by (auto simp: sup_step_def probe_goes_def intro!: quiet split: probe.splits)
  next
    case (StderrLine p l now)
    then show ?thesis using stays_set_tools [OF assms(1)]
      by (auto simp: sup_step_def on_stderr_line_def intro!: quiet split: option.splits)
  next
    case (LaunchGoes n ok now)
    then show ?thesis using stays_launch_goes [OF assms(1)] by (simp add: sup_step_def)
  next
    case (StopGoes n)
    then show ?thesis using stays_stop_goes [OF assms(1)] by (simp add: sup_step_def)
  next
    case (ProcessExits p now)
    then show ?thesis using stays_on_gone [OF assms(1)] by (auto simp: sup_step_def intro!: quiet)
  next
    case Stop
    then show ?thesis using stays_stop [OF assms(2)] by (simp add: sup_step_def)
  qed (use assms(3) stp in \<open>auto simp: sup_step_def timer_fires_def Let_def waiter_times_out_def call_def call_settles_def
       stays_halted_def intro!: same assms(1) split: option.splits\<close>)
qed

lemma sup_run_halted:
  "halted cfg s \<Longrightarrow> sup_ok s \<Longrightarrow> \<forall>e \<in> set es. \<not> asks_start e \<Longrightarrow> stays_halted cfg (sup_run cfg s es)"
proof (induction es arbitrary: s)
  case (Cons e es)
  have st: "stays_halted cfg (sup_step cfg s e)" using Cons.prems by (intro sup_step_halted) auto
  then have "stays_halted cfg (sup_run cfg (fst (sup_step cfg s e)) es)"
    using Cons.prems sup_step_ok by (intro Cons.IH) (auto simp: stays_halted_def)
  then show ?case using st by (auto simp: stays_halted_def)
qed (simp add: stays_halted_def)

text \<open>Claim C2. A stop is final: once \<open>stop()\<close> was called, whatever launches, restarts, timers, probes, exits and
  requests were pending or follow, no engine is spawned until somebody calls \<open>start()\<close> or \<open>restart()\<close> again.\<close>

theorem stop_is_final:
  assumes "\<forall>e \<in> set after. \<not> asks_start e"
  shows "Spawned p \<notin> set (snd (sup_run cfg (fst (stop False (fst (sup_run cfg sup_init before)))) after))"
proof -
  let ?s = "fst (sup_run cfg sup_init before)"
  have ok: "sup_ok ?s" by (rule sup_run_ok [OF sup_init_ok])
  have "halted cfg (fst (stop False ?s))" using stays_stop [OF ok] by (simp add: stays_halted_def)
  from sup_run_halted [OF this stop_ok_step [OF ok] assms] show ?thesis by (simp add: stays_halted_def)
qed

definition sample_sup_cfg :: sup_cfg where
  "sample_sup_cfg = \<lparr>has_default_model = True, backoff = RESTART_BACKOFF_MS, mcp_wait = 15000, tools_settle = 250\<rparr>"

theorem stop_is_final_witness:
  "Spawned 0 \<notin> set (snd (sup_run sample_sup_cfg (fst (stop False (fst (sup_run sample_sup_cfg sup_init [Start]))))
     [LaunchGoes 1 True 0, TimerFires, WhenReady 7, StopGoes 2]))"
  by (rule stop_is_final) simp

subsection \<open>The restart budget\<close>

interpretation engine_budget: rate_limited restart_attempt restarts RESTART_WINDOW_MS MAX_RESTARTS_IN_WINDOW
proof unfold_locales
  fix t s s'
  show "restart_attempt t s = (s', True) \<Longrightarrow> restarts s' = filter (\<lambda>g. t - g < RESTART_WINDOW_MS) (restarts s) @ [t]"
    by (auto simp: restart_attempt_def Let_def split: if_splits)
  show "restart_attempt t s = (s', False) \<Longrightarrow> restarts s' = filter (\<lambda>g. t - g < RESTART_WINDOW_MS) (restarts s)"
    by (auto simp: restart_attempt_def Let_def split: if_splits)
  show "restart_attempt t s = (s', True) \<Longrightarrow>
      length (filter (\<lambda>g. t - g < RESTART_WINDOW_MS) (restarts s)) < MAX_RESTARTS_IN_WINDOW"
    by (auto simp: restart_attempt_def Let_def split: if_splits)
qed

text \<open>A crash loop is bounded: of any series of restart attempts of the engine, however they fall in
  time, at most five are granted within any ten minutes.\<close>

theorem engine_restarts_bounded:
  assumes "sorted ts" and "restarts s = []"
  shows "length (filter (\<lambda>g. x - g < 600000 \<and> g \<le> x) (granted restart_attempt s ts)) \<le> 5"
  using engine_budget.window_bound [OF assms, of x]
  by (simp add: RESTART_WINDOW_MS_def MAX_RESTARTS_IN_WINDOW_def)

theorem engine_restarts_bounded_witness:
  "length (filter (\<lambda>g. 6 - g < 600000 \<and> g \<le> 6) (granted restart_attempt sup_init [0, 1, 2, 3, 4, 5, 6])) \<le> 5
   \<and> granted restart_attempt sup_init [0, 1, 2, 3, 4, 5, 6] = [0, 1, 2, 3, 4]"
proof
  show "length (filter (\<lambda>g. 6 - g < 600000 \<and> g \<le> 6) (granted restart_attempt sup_init [0, 1, 2, 3, 4, 5, 6])) \<le> 5"
    by (rule engine_restarts_bounded) (simp_all add: sup_init_def)
  show "granted restart_attempt sup_init [0, 1, 2, 3, 4, 5, 6] = [0, 1, 2, 3, 4]"
    by (simp add: restart_attempt_def sup_init_def Let_def RESTART_WINDOW_MS_def MAX_RESTARTS_IN_WINDOW_def)
qed

subsection \<open>Calls and frames\<close>

lemma schedule_procs [simp]: "procs (fst (schedule_restart cfg now s)) = procs s"
  by (auto simp: schedule_restart_def restart_attempt_def Let_def)

lemma on_gone_calls:
  assumes "p < length (procs s)" "\<not> e_gone (procs s ! p)" "c \<in> set (e_calls (procs s ! p))"
  shows "CallFailed c \<in> set (snd (on_gone cfg p now s))" "e_calls (procs (fst (on_gone cfg p now s)) ! p) = []"
  using assms by (auto simp: on_gone_def Let_def)

text \<open>Claim C37. No forwarded call is left hanging: in every reachable state a call in flight belongs to the live
  current engine, and when that process exits, for whatever reason, every one of its calls is failed and none
  remains in flight.\<close>

theorem calls_never_hang:
  assumes "p < length (procs (fst (sup_run cfg sup_init es)))"
    and "c \<in> set (e_calls (procs (fst (sup_run cfg sup_init es)) ! p))"
  shows "current (fst (sup_run cfg sup_init es)) = Some p \<and>
    CallFailed c \<in> set (snd (sup_step cfg (fst (sup_run cfg sup_init es)) (ProcessExits p now))) \<and>
    e_calls (procs (fst (sup_step cfg (fst (sup_run cfg sup_init es)) (ProcessExits p now))) ! p) = []"
proof -
  let ?s = "fst (sup_run cfg sup_init es)"
  have ok: "sup_ok ?s" by (rule sup_run_ok [OF sup_init_ok])
  have live: "\<not> e_gone (procs ?s ! p)" using calls_of_gone [OF ok assms(1)] assms(2) by auto
  have "sup_step cfg ?s (ProcessExits p now) = on_gone cfg p now ?s" using assms(1) by (simp add: sup_step_def)
  then show ?thesis using current_of_live [OF ok assms(1) live] on_gone_calls [OF assms(1) live assms(2)] by simp
qed

definition launch_events :: "sup_event list" where
  "launch_events = [Start, LaunchGoes 1 True 0, LaunchGoes 1 True 0, LaunchGoes 1 True 0, LaunchGoes 1 True 0,
     LaunchGoes 1 True 15000]"

lemma launched: "sup_run sample_sup_cfg sup_init (launch_events @ es) =
    then_do (sup_run sample_sup_cfg sup_init launch_events) (\<lambda>s. sup_run sample_sup_cfg s es)"
  by (simp add: launch_events_def then_do_def split: prod.splits)

lemma launched_state:
  "sup_run sample_sup_cfg sup_init launch_events =
    (\<lparr>procs = [(new_engine 1 0)\<lparr>e_ready := True, e_tools := ToolsMissing\<rparr>], current = Some 0, epoch = 1,
       restarting = False, phase = Ready, generation = 1, restarts = [], stopping = False, restart_timer = False,
       launches = [], stops = [], waiters = []\<rparr>, [Spawned 0, ReadyEvent 1 False ToolsMissing])"
  by (simp add: launch_events_def sup_step_def start_def sup_init_def sample_sup_cfg_def launch_goes_def Let_def
      om_set_def om_get_def om_delete_def spawn_def new_engine_def then_do_def tools_wait_def set_tools_def
      set_engine_def becomes_ready_def)

theorem one_engine_at_a_time_witness:
  "length (filter (\<lambda>e. \<not> e_gone e) (procs (fst (sup_run sample_sup_cfg sup_init launch_events)))) \<le> 1 \<and>
   0 < length (procs (fst (sup_run sample_sup_cfg sup_init launch_events))) \<and>
   \<not> e_gone (procs (fst (sup_run sample_sup_cfg sup_init launch_events)) ! 0) \<and>
   current (fst (sup_run sample_sup_cfg sup_init launch_events)) = Some 0"
  using one_engine_at_a_time [of sample_sup_cfg launch_events] by (simp add: launched_state new_engine_def)

theorem calls_never_hang_witness:
  "CallFailed 9 \<in> set (snd (sup_step sample_sup_cfg
     (fst (sup_run sample_sup_cfg sup_init (launch_events @ [Call 9]))) (ProcessExits 0 20000)))"
proof -
  have "length (procs (fst (sup_run sample_sup_cfg sup_init (launch_events @ [Call 9])))) = 1"
    "e_calls (procs (fst (sup_run sample_sup_cfg sup_init (launch_events @ [Call 9]))) ! 0) = [9]"
    by (simp_all add: launched launched_state sup_step_def call_def may_call_def new_engine_def set_engine_def)
  then show ?thesis
    using calls_never_hang [of 0 sample_sup_cfg "launch_events @ [Call 9]" 9 20000] by simp
qed

text \<open>Every frame passed on, and every call sent, is of the current, ready engine and of the present
  generation: a frame of an old or a starting engine never reaches the broker.\<close>

theorem frames_are_current:
  "(emit_frame p (fst (sup_run cfg sup_init es)) = Some g \<longrightarrow>
      current (fst (sup_run cfg sup_init es)) = Some p \<and> g = generation (fst (sup_run cfg sup_init es))) \<and>
   (may_call (fst (sup_run cfg sup_init es)) = Some p \<longrightarrow>
      emit_frame p (fst (sup_run cfg sup_init es)) = Some (generation (fst (sup_run cfg sup_init es))))"
proof -
  let ?s = "fst (sup_run cfg sup_init es)"
  have ok: "sup_ok ?s" by (rule sup_run_ok [OF sup_init_ok])
  show ?thesis
    using current_okD [OF ok, of p] by (auto simp: emit_frame_def may_call_def Let_def split: if_splits option.splits)
qed

theorem frames_are_current_witness:
  "emit_frame 0 (fst (sup_run sample_sup_cfg sup_init launch_events)) = Some 1"
proof -
  have "may_call (fst (sup_run sample_sup_cfg sup_init launch_events)) = Some 0"
    by (simp add: launched_state may_call_def new_engine_def)
  then show ?thesis
    using frames_are_current [of 0 sample_sup_cfg launch_events] by (simp add: launched_state)
qed

text \<open>The launch of an engine that is being stopped can still announce it: the tools wait ends before the exit.\<close>

lemma ready_while_stopping:
  "ReadyEvent 1 False ToolsMissing \<in> set (snd (sup_run sample_sup_cfg sup_init
     [Start, LaunchGoes 1 True 0, LaunchGoes 1 True 0, LaunchGoes 1 True 0, LaunchGoes 1 True 0, Stop,
      LaunchGoes 1 True 15000]))"
  by (simp add: sup_step_def start_def stop_def sup_init_def sample_sup_cfg_def launch_goes_def Let_def
      om_set_def om_get_def om_delete_def spawn_def new_engine_def then_do_def tools_wait_def set_tools_def
      set_engine_def becomes_ready_def keep_reason_def)

subsection \<open>The environment\<close>

definition env_names :: "string list" where
  "env_names = [''HOME'', ''XDG_DATA_HOME'', ''XDG_STATE_HOME'', ''XDG_CACHE_HOME'', ''XDG_CONFIG_HOME'',
     ''OPENCODE_CONFIG_DIR'', ''OPENCODE_MODELS_PATH'', ''OPENCODE_CONFIG_PROJECT_DISABLE'',
     ''OPENCODE_DISABLE_PROJECT_CONFIG'', ''OPENCODE_DISABLE_MODELS_FETCH'', ''OPENCODE_DISABLE_AUTOUPDATE'',
     ''OPENCODE_PRINT_LOGS'', ''GEOCLUSTER_MCP_URL'', ''GEOCLUSTER_TOOL_HOME'']"

lemma env_put_get:
  "om_get (env_put p env) k = (if fst p = k \<and> (\<exists>x. snd p = Some x \<and> x \<noteq> []) then snd p else om_get env k)"
  by (cases p) (auto split: option.splits)

declare env_put.simps [simp del]

lemma fold_env_put:
  "om_get (fold env_put ps env) k = Some v \<Longrightarrow> (k, Some v) \<in> set ps \<and> v \<noteq> [] \<or> om_get env k = Some v"
proof (induction ps arbitrary: env)
  case (Cons q ps)
  from Cons.IH [of "env_put q env"] Cons.prems show ?case
    by (cases q) (auto simp: env_put_get split: if_splits)
qed simp

text \<open>The engine's environment is a whitelist: every variable in it was listed in the agent's environment
  or is one of the fourteen the supervisor sets, none is empty, and no agent variable can undo the policy
  switches (no project configuration, no model fetch, no update).\<close>

theorem engine_env_whitelisted:
  "(om_get (engine_env join c) k = Some v \<longrightarrow> v \<noteq> [] \<and> (k \<in> set env_names \<or> (k, Some v) \<in> set (agent_env c))) \<and>
   om_get (engine_env join c) ''OPENCODE_CONFIG_PROJECT_DISABLE'' = Some ''1'' \<and>
   om_get (engine_env join c) ''OPENCODE_DISABLE_PROJECT_CONFIG'' = Some ''1'' \<and>
   om_get (engine_env join c) ''OPENCODE_DISABLE_MODELS_FETCH'' = Some ''1'' \<and>
   om_get (engine_env join c) ''OPENCODE_DISABLE_AUTOUPDATE'' = Some ''1''"
proof -
  have "om_get (engine_env join c) k = Some v \<Longrightarrow> (k, Some v) \<in> set (env_puts join c) \<and> v \<noteq> []"
    using fold_env_put [of "env_puts join c" "[]" k v] by (simp add: engine_env_def)
  moreover have "(k, Some v) \<in> set (env_puts join c) \<Longrightarrow> k \<in> set env_names \<or> (k, Some v) \<in> set (agent_env c)"
    by (auto simp: env_puts_def env_names_def)
  moreover have "om_get (engine_env join c) n = Some ''1''"
    if "n \<in> {''OPENCODE_CONFIG_PROJECT_DISABLE'', ''OPENCODE_DISABLE_PROJECT_CONFIG'',
      ''OPENCODE_DISABLE_MODELS_FETCH'', ''OPENCODE_DISABLE_AUTOUPDATE''}" for n
    using that by (elim insertE emptyE) (simp_all add: engine_env_def env_puts_def env_put_get)
  ultimately show ?thesis by blast
qed

definition sample_env :: env_cfg where
  "sample_env = \<lparr>agent_env = [(''LANG'', Some ''C''), (''OPENCODE_DISABLE_AUTOUPDATE'', Some ''0'')],
     engine_home = ''/h'', engine_state_dir = ''/s'', engine_xdg_config_home = ''/x'', engine_config_dir = ''/c'',
     engine_models_path = ''/m'', tool_home = ''/t'', mcp_url = ''http://127.0.0.1:1/mcp''\<rparr>"

theorem engine_env_whitelisted_witness:
  "om_get (engine_env (\<lambda>a b. a @ ''/'' @ b) sample_env) ''LANG'' = Some ''C'' \<and>
   (''LANG'' \<in> set env_names \<or> (''LANG'', Some ''C'') \<in> set (agent_env sample_env))"
proof -
  have g: "om_get (engine_env (\<lambda>a b. a @ ''/'' @ b) sample_env) ''LANG'' = Some ''C''"
    by (simp add: engine_env_def env_puts_def sample_env_def env_put_get)
  then show ?thesis using engine_env_whitelisted [of "\<lambda>a b. a @ ''/'' @ b" sample_env "''LANG''" "''C''"] by simp
qed

end
