(* ===== verification/Mcp_Supervisor.thy ===== *)
theory Mcp_Supervisor
  imports Agent_Supervisor
begin

text \<open>
  The shared MCP server's supervisor (runtime/lib/mcp-supervisor.js), as an event-driven machine like the
  engine's: one start attempt, one stop and the restart timer are suspended computations that events
  continue. \<open>servers\<close> only grows; \<open>mcp_child\<close> indexes it. Times are milliseconds. Process trees, the log
  stream and the error texts (all but their codes) are not modelled.
\<close>

datatype mcp_state = McpStopped | McpStarting | McpReady | McpUnavailable

record server =
  v_ready :: bool
  v_gone :: bool
  v_expected :: bool

text \<open>Where the start attempt is: before the log is open, before the port check's answer, at the head of the poll
  loop, waiting for a probe, or ending its server with the error it will report.\<close>

datatype attempt_phase =
    Opening
  | PortCheck
  | PollHead nat
  | PollProbe nat
  | Ending nat string

text \<open>Where the stop is: awaiting the attempt in flight (with its \<open>drainMs\<close>), draining a ready server, or waiting for
  the exit of the server it ended, if any.\<close>

datatype mcp_stop =
    WaitAttempt int
  | Draining nat
  | Ended "nat option"

record mcp_health =
  h_ok :: bool
  h_mode :: "string option"
  h_in_flight :: "rat option"

record mcp =
  servers :: "server list"
  mcp_child :: "nat option"
  mcp_phase :: mcp_state
  attempt :: "(attempt_phase \<times> string) option" \<comment> \<open>with the reason\<close>
  retry_timer :: bool
  mcp_restarts :: "int list"
  stop_requested :: bool
  mcp_stopping :: "mcp_stop option"
  waiting_starts :: nat \<comment> \<open>\<open>start()\<close> calls awaiting the stop under way\<close>
  released_starts :: nat \<comment> \<open>those whose stop is over and that have not gone on yet\<close>
  last_health :: "mcp_health option"

record mcp_cfg =
  port_valid :: bool
  mcp_backoff :: "int list"
  restart_window :: int
  max_restarts :: nat

datatype mcp_out =
    McpSpawned nat
  | McpSigTerm nat
  | McpReadyEvent nat bool
  | McpExitEvent nat bool
  | McpUnavailableEvent
  | McpRestartIn int
  | StartFailed string
  | StopDone

type_synonym mcp_result = "mcp \<times> mcp_out list"

definition mcp_init :: mcp where
  "mcp_init = \<lparr>servers = [], mcp_child = None, mcp_phase = McpStopped, attempt = None, retry_timer = False,
     mcp_restarts = [], stop_requested = False, mcp_stopping = None, waiting_starts = 0, released_starts = 0,
     last_health = None\<rparr>"

definition set_server :: "nat \<Rightarrow> (server \<Rightarrow> server) \<Rightarrow> mcp \<Rightarrow> mcp" where
  "set_server i f s = s\<lparr>servers := (servers s)[i := f (servers s ! i)]\<rparr>"

definition mcp_then :: "mcp_result \<Rightarrow> (mcp \<Rightarrow> mcp_result) \<Rightarrow> mcp_result" where
  "mcp_then r f = (case r of (s, o1) \<Rightarrow> (case f s of (s', o2) \<Rightarrow> (s', o1 @ o2)))"

subsection \<open>Health\<close>

text \<open>\<open>#probe\<close>: what came back. \<open>None\<close> for no answer, otherwise the status and the parsed body, if it is JSON.\<close>

datatype mcp_probe = McpOk js | McpHttp nat | McpDown

definition mcp_probe :: "(nat \<times> js option) option \<Rightarrow> mcp_probe" where
  "mcp_probe response =
    (case response of
       None \<Rightarrow> McpDown
     | Some (status, body) \<Rightarrow>
        (if status \<noteq> 200 then McpHttp status
         else (case body of Some b \<Rightarrow> if is_objlike b then McpOk b else McpHttp status | None \<Rightarrow> McpHttp status)))"

definition record_health :: "js \<Rightarrow> mcp_health" where
  "record_health body =
    \<lparr>h_ok = (js_field body ''ok'' = JBool True), h_mode = str_of (js_field body ''mode''),
     h_in_flight = num_of (js_field body ''in_flight'')\<rparr>"

definition mcp_health_call :: "(nat \<times> js option) option \<Rightarrow> mcp \<Rightarrow> mcp_health option \<times> mcp" where
  "mcp_health_call response s =
    (case mcp_probe response of
       McpOk b \<Rightarrow> (Some (record_health b), s\<lparr>last_health := Some (record_health b)\<rparr>)
     | _ \<Rightarrow> (None, s\<lparr>last_health := Some \<lparr>h_ok = False, h_mode = None, h_in_flight = None\<rparr>\<rparr>))"

definition last_lines :: "nat \<Rightarrow> string \<Rightarrow> string" where
  "last_lines n t = js_join '' | '' (take_last n (filter (\<lambda>l. l \<noteq> []) (map js_trim (js_split CHR ''\<newline>'' t))))"

subsection \<open>Restarts\<close>

definition mcp_attempt_restart :: "mcp_cfg \<Rightarrow> int \<Rightarrow> mcp \<Rightarrow> mcp \<times> bool" where
  "mcp_attempt_restart cfg now s =
    (let recent = filter (\<lambda>t. now - t < restart_window cfg) (mcp_restarts s) in
     if length recent \<ge> max_restarts cfg then (s\<lparr>mcp_restarts := recent, mcp_phase := McpUnavailable\<rparr>, False)
     else (s\<lparr>mcp_restarts := recent @ [now], mcp_phase := McpStarting, retry_timer := True\<rparr>, True))"

definition mcp_schedule_restart :: "mcp_cfg \<Rightarrow> int \<Rightarrow> mcp \<Rightarrow> mcp_result" where
  "mcp_schedule_restart cfg now s =
    (if stop_requested s then (s, [])
     else (case mcp_attempt_restart cfg now s of
       (s', True) \<Rightarrow>
         (s', [McpRestartIn (mcp_backoff cfg ! min (length (mcp_restarts s') - 1) (length (mcp_backoff cfg) - 1))])
     | (s', False) \<Rightarrow> (s', [McpUnavailableEvent])))"

subsection \<open>Start and revive\<close>

definition mcp_launch :: "string \<Rightarrow> mcp \<Rightarrow> mcp" where
  "mcp_launch reason s = s\<lparr>retry_timer := False, mcp_phase := McpStarting, attempt := Some (Opening, reason)\<rparr>"

definition start_now :: "mcp \<Rightarrow> mcp" where
  "start_now s =
    (let s1 = s\<lparr>stop_requested := False\<rparr> in
     if mcp_phase s = McpReady \<and> mcp_child s \<noteq> None then s1
     else if attempt s \<noteq> None then s1
     else mcp_launch ''start'' s1)"

definition mcp_start :: "mcp \<Rightarrow> mcp" where
  "mcp_start s = (if mcp_stopping s \<noteq> None then s\<lparr>waiting_starts := waiting_starts s + 1\<rparr> else start_now s)"

text \<open>A \<open>start()\<close> that awaited a stop goes on some time after that stop was over. It awaits only once: when
  another \<open>stop()\<close> began in between, it clears the request and launches all the same.\<close>

definition start_resumes :: "mcp \<Rightarrow> mcp" where
  "start_resumes s =
    (if released_starts s = 0 then s else start_now (s\<lparr>released_starts := released_starts s - 1\<rparr>))"

definition revive :: "mcp \<Rightarrow> mcp" where
  "revive s =
    (let s1 = s\<lparr>mcp_restarts := []\<rparr> in
     if stop_requested s \<or> mcp_stopping s \<noteq> None then s1
     else if mcp_phase s = McpReady \<and> mcp_child s \<noteq> None then s1
     else if attempt s \<noteq> None then s1 else mcp_launch ''revive'' s1)"

definition mcp_timer_fires :: "mcp \<Rightarrow> mcp" where
  "mcp_timer_fires s =
    (if \<not> retry_timer s then s
     else if stop_requested s \<or> mcp_child s \<noteq> None \<or> attempt s \<noteq> None then s\<lparr>retry_timer := False\<rparr>
     else mcp_launch ''restart'' s)"

text \<open>The attempt's promise rejects.\<close>

definition attempt_fails :: "mcp_cfg \<Rightarrow> string \<Rightarrow> int \<Rightarrow> mcp \<Rightarrow> mcp_result" where
  "attempt_fails cfg code now s =
    mcp_then (s\<lparr>attempt := None\<rparr>, [StartFailed code]) (mcp_schedule_restart cfg now)"

text \<open>\<open>#terminate\<close> up to the wait for the exit.\<close>

definition mcp_terminate :: "nat \<Rightarrow> mcp \<Rightarrow> mcp_result" where
  "mcp_terminate p s =
    (set_server p (\<lambda>v. v\<lparr>v_expected := True\<rparr>) s, if v_gone (servers s ! p) then [] else [McpSigTerm p])"

definition attempt_ends :: "nat \<Rightarrow> string \<Rightarrow> string \<Rightarrow> mcp \<Rightarrow> mcp_result" where
  "attempt_ends p code reason s =
    mcp_then (mcp_terminate p s) (\<lambda>s'. (s'\<lparr>attempt := Some (Ending p code, reason)\<rparr>, []))"

text \<open>What the environment tells a waiting attempt: whether the port is taken (after orphans were reaped), whether a
  process came up, the time left, the probe's answer.\<close>

record attempt_obs =
  port_busy :: bool
  spawn_ok :: bool
  time_left :: int
  probed :: "(nat \<times> js option) option"

definition attempt_goes :: "mcp_cfg \<Rightarrow> attempt_obs \<Rightarrow> int \<Rightarrow> mcp \<Rightarrow> mcp_result" where
  "attempt_goes cfg ob now s =
    (case attempt s of
       None \<Rightarrow> (s, [])
     | Some (Opening, reason) \<Rightarrow>
         (if \<not> port_valid cfg then attempt_fails cfg ''MCP_SPAWN_FAILED'' now s
          else if stop_requested s then attempt_fails cfg ''MCP_START_CANCELLED'' now s
          else (s\<lparr>attempt := Some (PortCheck, reason)\<rparr>, []))
     | Some (PortCheck, reason) \<Rightarrow>
         (if port_busy ob then attempt_fails cfg ''MCP_PORT_IN_USE'' now s
          else if stop_requested s then attempt_fails cfg ''MCP_START_CANCELLED'' now s
          else if \<not> spawn_ok ob then attempt_fails cfg ''MCP_SPAWN_FAILED'' now s
          else (let p = length (servers s) in
            (s\<lparr>servers := servers s @ [\<lparr>v_ready = False, v_gone = False, v_expected = False\<rparr>],
               mcp_child := Some p, attempt := Some (PollHead p, reason)\<rparr>, [McpSpawned p])))
     | Some (PollHead p, reason) \<Rightarrow>
         (if v_gone (servers s ! p) then attempt_ends p ''MCP_EARLY_EXIT'' reason s
          else if stop_requested s then attempt_ends p ''MCP_START_CANCELLED'' reason s
          else if time_left ob \<le> 0 then attempt_ends p ''MCP_START_TIMEOUT'' reason s
          else (s\<lparr>attempt := Some (PollProbe p, reason)\<rparr>, []))
     | Some (PollProbe p, reason) \<Rightarrow>
         (case mcp_probe (probed ob) of
            McpOk b \<Rightarrow>
              (if js_field b ''mode'' \<noteq> JStr ''shared'' then attempt_ends p ''MCP_WRONG_SERVER'' reason s
               else if js_field b ''ok'' = JBool True then
                 (if v_gone (servers s ! p) then attempt_ends p ''MCP_EARLY_EXIT'' reason s
                  else ((set_server p (\<lambda>v. v\<lparr>v_ready := True\<rparr>) s)
                          \<lparr>attempt := None, mcp_phase := McpReady, last_health := Some (record_health b)\<rparr>,
                        [McpReadyEvent p (reason \<noteq> ''start'')]))
               else (s\<lparr>attempt := Some (PollHead p, reason)\<rparr>, []))
          | McpHttp _ \<Rightarrow> attempt_ends p ''MCP_WRONG_SERVER'' reason s
          | McpDown \<Rightarrow> (s\<lparr>attempt := Some (PollHead p, reason)\<rparr>, []))
     | Some (Ending p code, reason) \<Rightarrow>
         (if v_gone (servers s ! p) then attempt_fails cfg code now s else (s, [])))"

subsection \<open>Exit and stop\<close>

definition mcp_exits :: "mcp_cfg \<Rightarrow> nat \<Rightarrow> int \<Rightarrow> mcp \<Rightarrow> mcp_result" where
  "mcp_exits cfg p now s =
    (let v = servers s ! p in
     if v_gone v then (s, [])
     else (let s1 = (set_server p (\<lambda>v. v\<lparr>v_gone := True\<rparr>) s)
                      \<lparr>mcp_child := (if mcp_child s = Some p then None else mcp_child s)\<rparr>;
               r = (s1, [McpExitEvent p (v_expected v)])
           in if \<not> v_expected v \<and> v_ready v \<and> \<not> stop_requested s
              then mcp_then r (mcp_schedule_restart cfg now) else r))"

text \<open>\<open>stop()\<close> runs to its first await at once: it awaits the attempt in flight, or goes on to the child.\<close>

definition stop_child :: "int \<Rightarrow> mcp \<Rightarrow> mcp_result" where
  "stop_child drain_ms s =
    (case mcp_child s of
       None \<Rightarrow> (s\<lparr>mcp_stopping := Some (Ended None)\<rparr>, [])
     | Some p \<Rightarrow>
         (if v_ready (servers s ! p) \<and> 0 < drain_ms then (s\<lparr>mcp_stopping := Some (Draining p)\<rparr>, [])
          else mcp_then (mcp_terminate p s) (\<lambda>s'. (s'\<lparr>mcp_stopping := Some (Ended (Some p))\<rparr>, []))))"

definition mcp_stop :: "int \<Rightarrow> mcp \<Rightarrow> mcp_result" where
  "mcp_stop drain_ms s =
    (let s1 = s\<lparr>stop_requested := True, retry_timer := False\<rparr> in
     if mcp_stopping s \<noteq> None then (s1, [])
     else if attempt s \<noteq> None then (s1\<lparr>mcp_stopping := Some (WaitAttempt drain_ms)\<rparr>, [])
     else stop_child drain_ms s1)"

text \<open>One iteration of \<open>#drain\<close>: whether it goes on. \<open>left\<close> is the time left, \<open>h\<close> the health answer.\<close>

definition drain_more :: "bool \<Rightarrow> int \<Rightarrow> mcp_health option \<Rightarrow> bool" where
  "drain_more gone left h \<longleftrightarrow> \<not> gone \<and> 0 < left \<and>
     (case h of None \<Rightarrow> False | Some x \<Rightarrow> (case h_in_flight x of None \<Rightarrow> False | Some n \<Rightarrow> 0 < n))"

definition stop_proceeds :: "int \<Rightarrow> (nat \<times> js option) option \<Rightarrow> mcp \<Rightarrow> mcp_result" where
  "stop_proceeds left response s =
    (case mcp_stopping s of
       None \<Rightarrow> (s, [])
     | Some (WaitAttempt d) \<Rightarrow> (if attempt s \<noteq> None then (s, []) else stop_child d s)
     | Some (Draining p) \<Rightarrow>
         (case mcp_health_call response s of
            (h, s1) \<Rightarrow>
              (if drain_more (v_gone (servers s ! p)) left h then (s1, [])
               else mcp_then (mcp_terminate p s1) (\<lambda>s'. (s'\<lparr>mcp_stopping := Some (Ended (Some p))\<rparr>, []))))
     | Some (Ended q) \<Rightarrow>
         (if (case q of None \<Rightarrow> False | Some p \<Rightarrow> \<not> v_gone (servers s ! p)) then (s, [])
          else (s\<lparr>mcp_stopping := None, mcp_phase := (if stop_requested s then McpStopped else mcp_phase s),
                  waiting_starts := 0, released_starts := released_starts s + waiting_starts s\<rparr>,
                [StopDone])))"

subsection \<open>The environment\<close>

record mcp_env_cfg =
  env_path :: "string option"
  env_lang :: "string option"
  env_tool_home :: string
  env_port :: nat
  env_root :: string
  env_cache_mb :: "string option"
  env_threads :: "string option"
  env_run_threads :: "string option"

definition mcp_env :: "mcp_env_cfg \<Rightarrow> (string, string) omap" where
  "mcp_env c = fold env_put
     [(''PATH'', env_path c), (''LANG'', env_lang c), (''HOME'', Some (env_tool_home c)),
      (''MCP_TRANSPORT'', Some ''http''), (''MCP_HOST'', Some ''127.0.0.1''), (''MCP_PORT'', Some (dec_nat (env_port c))),
      (''MCP_WORKSPACE_ROOT'', Some (env_root c)), (''MCP_CACHE_MAX_MB'', env_cache_mb c),
      (''MCP_TOOL_THREADS'', env_threads c), (''MCP_TOOL_THREADS_PER_RUN'', env_run_threads c),
      (''OPENBLAS_NUM_THREADS'', Some ''1''), (''NUMBA_THREADING_LAYER'', Some ''omp''),
      (''FASTMCP_ENV_FILE'', Some ''/nonexistent''), (''FASTMCP_CHECK_FOR_UPDATES'', Some ''off''),
      (''PYTHONUNBUFFERED'', Some ''1'')] []"

subsection \<open>Events\<close>

datatype mcp_event =
    McpStart
  | StartResumes
  | Revive
  | McpTimer
  | AttemptGoes attempt_obs int
  | McpExits nat int
  | McpStop int
  | StopProceeds int "(nat \<times> js option) option"
  | HealthCall "(nat \<times> js option) option"

fun mcp_step :: "mcp_cfg \<Rightarrow> mcp \<Rightarrow> mcp_event \<Rightarrow> mcp_result" where
  "mcp_step cfg s McpStart = (mcp_start s, [])"
| "mcp_step cfg s StartResumes = (start_resumes s, [])"
| "mcp_step cfg s Revive = (revive s, [])"
| "mcp_step cfg s McpTimer = (mcp_timer_fires s, [])"
| "mcp_step cfg s (AttemptGoes ob now) = attempt_goes cfg ob now s"
| "mcp_step cfg s (McpExits p now) = (if p < length (servers s) then mcp_exits cfg p now s else (s, []))"
| "mcp_step cfg s (McpStop d) = mcp_stop d s"
| "mcp_step cfg s (StopProceeds l r) = stop_proceeds l r s"
| "mcp_step cfg s (HealthCall r) = (snd (mcp_health_call r s), [])"

fun mcp_run :: "mcp_cfg \<Rightarrow> mcp \<Rightarrow> mcp_event list \<Rightarrow> mcp_result" where
  "mcp_run cfg s [] = (s, [])"
| "mcp_run cfg s (e # es) = mcp_then (mcp_step cfg s e) (\<lambda>s'. mcp_run cfg s' es)"

end
