(* ===== verification/Mcp_Props.thy ===== *)
theory Mcp_Props
  imports Mcp_Supervisor
begin

text \<open>
  The MCP supervisor's invariant and properties (runtime/lib/mcp-supervisor.js): one server at a time, a
  stop that leaves nothing behind unless a start that waited for an earlier stop overtakes it (\<open>stop_overtaken\<close>),
  bounded restarts.
\<close>

subsection \<open>The invariant\<close>

text \<open>The server a phase of the attempt is about.\<close>

fun attempt_ok :: "mcp \<Rightarrow> attempt_phase \<Rightarrow> bool" where
  "attempt_ok s Opening = (mcp_child s = None)"
| "attempt_ok s PortCheck = (mcp_child s = None)"
| "attempt_ok s (PollHead p) = (p < length (servers s) \<and> (mcp_child s = None \<or> mcp_child s = Some p))"
| "attempt_ok s (PollProbe p) = (p < length (servers s) \<and> (mcp_child s = None \<or> mcp_child s = Some p))"
| "attempt_ok s (Ending p c) = (p < length (servers s) \<and> (mcp_child s = None \<or> mcp_child s = Some p))"

fun mcp_stop_ok :: "mcp \<Rightarrow> mcp_stop \<Rightarrow> bool" where
  "mcp_stop_ok s (WaitAttempt d) = True"
| "mcp_stop_ok s (Draining p) =
     (attempt s = None \<and> p < length (servers s) \<and> (mcp_child s = None \<or> mcp_child s = Some p))"
| "mcp_stop_ok s (Ended q) = (attempt s = None \<and> (case q of None \<Rightarrow> mcp_child s = None
     | Some p \<Rightarrow> p < length (servers s) \<and> (mcp_child s = None \<or> mcp_child s = Some p)))"

definition mcp_ok :: "mcp \<Rightarrow> bool" where
  "mcp_ok s \<longleftrightarrow>
     (\<forall>p. mcp_child s = Some p \<longrightarrow> p < length (servers s) \<and> \<not> v_gone (servers s ! p)) \<and>
     (\<forall>p < length (servers s). v_gone (servers s ! p) \<or> mcp_child s = Some p) \<and>
     (case attempt s of
        None \<Rightarrow> mcp_child s = None \<or> (mcp_phase s = McpReady \<and> v_ready (servers s ! the (mcp_child s)))
      | Some (ph, _) \<Rightarrow> attempt_ok s ph) \<and>
     (case mcp_stopping s of None \<Rightarrow> True | Some st \<Rightarrow> stop_requested s \<and> mcp_stop_ok s st) \<and>
     (stop_requested s \<longrightarrow> \<not> retry_timer s)"

lemma mcp_okD:
  assumes "mcp_ok s"
  shows "mcp_child s = Some p \<Longrightarrow> p < length (servers s) \<and> \<not> v_gone (servers s ! p)"
    and "p < length (servers s) \<Longrightarrow> v_gone (servers s ! p) \<or> mcp_child s = Some p"
    and "attempt s = Some (ph, r) \<Longrightarrow> attempt_ok s ph"
    and "attempt s = None \<Longrightarrow> mcp_child s = Some p \<Longrightarrow> mcp_phase s = McpReady \<and> v_ready (servers s ! p)"
    and "mcp_stopping s = Some st \<Longrightarrow> stop_requested s \<and> mcp_stop_ok s st"
    and "stop_requested s \<Longrightarrow> \<not> retry_timer s"
  using assms unfolding mcp_ok_def by (auto split: option.splits)

lemma mcp_okI:
  assumes "\<And>p. mcp_child s = Some p \<Longrightarrow> p < length (servers s) \<and> \<not> v_gone (servers s ! p)"
    and "\<And>p. p < length (servers s) \<Longrightarrow> v_gone (servers s ! p) \<or> mcp_child s = Some p"
    and "\<And>ph r. attempt s = Some (ph, r) \<Longrightarrow> attempt_ok s ph"
    and "\<And>p. attempt s = None \<Longrightarrow> mcp_child s = Some p \<Longrightarrow> mcp_phase s = McpReady \<and> v_ready (servers s ! p)"
    and "\<And>st. mcp_stopping s = Some st \<Longrightarrow> stop_requested s \<and> mcp_stop_ok s st"
    and "stop_requested s \<Longrightarrow> \<not> retry_timer s"
  shows "mcp_ok s"
  using assms unfolding mcp_ok_def by (auto split: option.splits)

text \<open>The checks look at the attempt, the child and the number of servers only.\<close>

lemma attempt_ok_cong:
  "mcp_child s' = mcp_child s \<Longrightarrow> length (servers s') = length (servers s) \<Longrightarrow> attempt_ok s' ph = attempt_ok s ph"
  by (cases ph) auto

lemma mcp_stop_ok_cong:
  "mcp_child s' = mcp_child s \<Longrightarrow> length (servers s') = length (servers s) \<Longrightarrow> attempt s' = attempt s \<Longrightarrow>
   mcp_stop_ok s' st = mcp_stop_ok s st"
  by (cases st) (auto split: option.splits)

lemma set_server_fields [simp]:
  "mcp_child (set_server p f s) = mcp_child s" "attempt (set_server p f s) = attempt s"
  "length (servers (set_server p f s)) = length (servers s)" "mcp_stopping (set_server p f s) = mcp_stopping s"
  "mcp_phase (set_server p f s) = mcp_phase s" "stop_requested (set_server p f s) = stop_requested s"
  "retry_timer (set_server p f s) = retry_timer s" "mcp_restarts (set_server p f s) = mcp_restarts s"
  "waiting_starts (set_server p f s) = waiting_starts s" "released_starts (set_server p f s) = released_starts s"
  "last_health (set_server p f s) = last_health s"
  by (simp_all add: set_server_def)

lemma set_server_nth [simp]:
  "q < length (servers s) \<Longrightarrow> servers (set_server p f s) ! q = (if q = p then f (servers s ! p) else servers s ! q)"
  by (simp add: set_server_def nth_list_update)

lemma mcp_then_simps [simp]:
  "fst (mcp_then r f) = fst (f (fst r))" "snd (mcp_then r f) = snd r @ snd (f (fst r))"
  by (simp_all add: mcp_then_def split: prod.splits)

subsection \<open>Every operation keeps it\<close>

text \<open>A state that agrees on what the invariant reads, up to a phase and a timer.\<close>

lemma mcp_ok_similar:
  assumes "mcp_ok s" "servers s' = servers s" "mcp_child s' = mcp_child s" "attempt s' = attempt s"
    "mcp_stopping s' = mcp_stopping s" "stop_requested s' = stop_requested s"
    "mcp_phase s' = mcp_phase s \<or> attempt s \<noteq> None \<or> mcp_child s = None" "retry_timer s' \<Longrightarrow> \<not> stop_requested s \<or> retry_timer s"
  shows "mcp_ok s'"
proof (rule mcp_okI)
  have a: "attempt_ok s' ph = attempt_ok s ph" for ph by (rule attempt_ok_cong) (simp_all add: assms)
  have b: "mcp_stop_ok s' st = mcp_stop_ok s st" for st by (rule mcp_stop_ok_cong) (simp_all add: assms)
  note d = mcp_okD [OF assms(1)]
  show "\<And>ph r. attempt s' = Some (ph, r) \<Longrightarrow> attempt_ok s' ph" using d(3) by (simp add: a assms)
  show "\<And>st. mcp_stopping s' = Some st \<Longrightarrow> stop_requested s' \<and> mcp_stop_ok s' st" using d(5) by (simp add: b assms)
  show "stop_requested s' \<Longrightarrow> \<not> retry_timer s'" using d(6) assms(6,8) by auto
  show "\<And>p. attempt s' = None \<Longrightarrow> mcp_child s' = Some p \<Longrightarrow> mcp_phase s' = McpReady \<and> v_ready (servers s' ! p)"
    using d(4) assms(7) by (simp add: assms(2-4))
qed (use mcp_okD(1,2) [OF assms(1)] in \<open>simp_all add: assms(2,3)\<close>)

lemma schedule_ok: "mcp_ok s \<Longrightarrow> attempt s \<noteq> None \<or> mcp_child s = None \<Longrightarrow> mcp_ok (fst (mcp_schedule_restart cfg now s))"
  by (auto simp: mcp_schedule_restart_def mcp_attempt_restart_def Let_def intro: mcp_ok_similar)

lemma mcp_launch_ok:
  assumes "mcp_ok s" "attempt s = None" "mcp_child s = None" "mcp_stopping s = None"
  shows "mcp_ok (mcp_launch r s)"
  using mcp_okD(2) [OF assms(1)] assms(2-4) by (intro mcp_okI) (auto simp: mcp_launch_def)

lemma start_now_ok:
  assumes "mcp_ok s" "mcp_stopping s = None"
  shows "mcp_ok (start_now s)"
proof -
  have s1: "mcp_ok (s\<lparr>stop_requested := False\<rparr>)"
  proof (rule mcp_okI)
    fix ph r
    assume "attempt (s\<lparr>stop_requested := False\<rparr>) = Some (ph, r)"
    then show "attempt_ok (s\<lparr>stop_requested := False\<rparr>) ph"
      using mcp_okD(3) [OF assms(1), of ph r] attempt_ok_cong [of "s\<lparr>stop_requested := False\<rparr>" s ph] by simp
  qed (use mcp_okD(1,2,4) [OF assms(1)] assms(2) in simp_all)
  have "attempt s = None \<Longrightarrow> \<not> (mcp_phase s = McpReady \<and> mcp_child s \<noteq> None) \<Longrightarrow> mcp_child s = None"
    using mcp_okD(4) [OF assms(1)] by (cases "mcp_child s") auto
  then show ?thesis
    using s1 assms(2) by (cases "attempt s") (auto simp: start_now_def Let_def intro!: mcp_launch_ok)
qed

lemma mcp_start_ok: "mcp_ok s \<Longrightarrow> mcp_ok (mcp_start s)"
  by (auto simp: mcp_start_def intro: start_now_ok mcp_ok_similar)

text \<open>A \<open>start()\<close> that awaited one stop overtakes the next one when it goes on while that one is under way.\<close>

definition overtakes :: "mcp \<Rightarrow> mcp_event \<Rightarrow> bool" where
  "overtakes s e \<longleftrightarrow> e = StartResumes \<and> 0 < released_starts s \<and> mcp_stopping s \<noteq> None"

lemma start_resumes_ok:
  assumes "mcp_ok s" "\<not> overtakes s StartResumes"
  shows "mcp_ok (start_resumes s)"
proof -
  have "mcp_ok (s\<lparr>released_starts := n\<rparr>)" for n using assms(1) by (rule mcp_ok_similar) simp_all
  then show ?thesis using assms by (auto simp: start_resumes_def overtakes_def intro: start_now_ok)
qed

lemma revive_ok:
  assumes "mcp_ok s"
  shows "mcp_ok (revive s)"
proof -
  have s1: "mcp_ok (s\<lparr>mcp_restarts := []\<rparr>)" using assms by (rule mcp_ok_similar) simp_all
  have "attempt s = None \<Longrightarrow> \<not> (mcp_phase s = McpReady \<and> mcp_child s \<noteq> None) \<Longrightarrow> mcp_child s = None"
    using mcp_okD(4) [OF assms] by (cases "mcp_child s") auto
  then show ?thesis using s1 by (cases "attempt s") (auto simp: revive_def Let_def intro!: mcp_launch_ok)
qed

lemma timer_ok:
  assumes "mcp_ok s"
  shows "mcp_ok (mcp_timer_fires s)"
proof -
  have "\<not> stop_requested s \<Longrightarrow> mcp_stopping s = None"
    using mcp_okD(5) [OF assms] by (cases "mcp_stopping s") auto
  moreover have "mcp_ok (s\<lparr>retry_timer := False\<rparr>)" using assms by (rule mcp_ok_similar) simp_all
  ultimately show ?thesis using assms by (cases "attempt s") (auto simp: mcp_timer_fires_def intro!: mcp_launch_ok)
qed

text \<open>While an attempt is in flight, a stop is still waiting for it.\<close>

lemma stop_waits: "mcp_ok s \<Longrightarrow> attempt s \<noteq> None \<Longrightarrow> mcp_stopping s = None \<or> (\<exists>d. mcp_stopping s = Some (WaitAttempt d))"
proof -
  assume "mcp_ok s" "attempt s \<noteq> None"
  then show ?thesis
    using mcp_okD(5) [of s "the (mcp_stopping s)"] by (cases "mcp_stopping s"; cases "the (mcp_stopping s)") auto
qed

lemma attempt_step_ok:
  assumes "mcp_ok s" "attempt s \<noteq> None" "attempt_ok s ph"
  shows "mcp_ok (s\<lparr>attempt := Some (ph, r)\<rparr>)"
proof (rule mcp_okI)
  fix ph' r'
  assume "attempt (s\<lparr>attempt := Some (ph, r)\<rparr>) = Some (ph', r')"
  then show "attempt_ok (s\<lparr>attempt := Some (ph, r)\<rparr>) ph'"
    using assms(3) attempt_ok_cong [of "s\<lparr>attempt := Some (ph, r)\<rparr>" s ph'] by simp
next
  fix st
  assume "mcp_stopping (s\<lparr>attempt := Some (ph, r)\<rparr>) = Some st"
  then show "stop_requested (s\<lparr>attempt := Some (ph, r)\<rparr>) \<and> mcp_stop_ok (s\<lparr>attempt := Some (ph, r)\<rparr>) st"
    using stop_waits [OF assms(1,2)] mcp_okD(5) [OF assms(1)] by auto
qed (use mcp_okD(1,2,6) [OF assms(1)] in simp_all)

text \<open>An attempt that is over: no server of its own is left.\<close>

lemma attempt_over_ok:
  assumes "mcp_ok s" "attempt s \<noteq> None" "mcp_child s = None"
  shows "mcp_ok (s\<lparr>attempt := None\<rparr>)"
proof (rule mcp_okI)
  fix st
  assume "mcp_stopping (s\<lparr>attempt := None\<rparr>) = Some st"
  then show "stop_requested (s\<lparr>attempt := None\<rparr>) \<and> mcp_stop_ok (s\<lparr>attempt := None\<rparr>) st"
    using stop_waits [OF assms(1,2)] mcp_okD(5) [OF assms(1)] by auto
qed (use mcp_okD(2,6) [OF assms(1)] assms(3) in simp_all)

lemma attempt_fails_ok:
  "mcp_ok s \<Longrightarrow> attempt s \<noteq> None \<Longrightarrow> mcp_child s = None \<Longrightarrow> mcp_ok (fst (attempt_fails cfg c now s))"
  by (simp add: attempt_fails_def attempt_over_ok schedule_ok)

text \<open>Changes of one server that keep whether it is gone, and readiness once it is ready.\<close>

lemma set_server_ok:
  assumes "mcp_ok s" "\<And>v. v_gone (f v) = v_gone v" "\<And>v. v_ready v \<Longrightarrow> v_ready (f v)"
  shows "mcp_ok (set_server p f s)"
proof (rule mcp_okI)
  have g: "v_gone (servers (set_server p f s) ! q) = v_gone (servers s ! q)" if "q < length (servers s)" for q
    using that assms(2) by (cases "q = p") simp_all
  have r: "v_ready (servers s ! q) \<Longrightarrow> v_ready (servers (set_server p f s) ! q)" if "q < length (servers s)" for q
    using that assms(3) by (cases "q = p") simp_all
  show "mcp_child (set_server p f s) = Some q \<Longrightarrow>
      q < length (servers (set_server p f s)) \<and> \<not> v_gone (servers (set_server p f s) ! q)" for q
    using mcp_okD(1) [OF assms(1), of q] g [of q] by (simp del: set_server_nth)
  show "q < length (servers (set_server p f s)) \<Longrightarrow>
      v_gone (servers (set_server p f s) ! q) \<or> mcp_child (set_server p f s) = Some q" for q
    using mcp_okD(2) [OF assms(1), of q] g [of q] by (simp del: set_server_nth)
  show "attempt (set_server p f s) = None \<Longrightarrow> mcp_child (set_server p f s) = Some q \<Longrightarrow>
      mcp_phase (set_server p f s) = McpReady \<and> v_ready (servers (set_server p f s) ! q)" for q
    using mcp_okD(1,4) [OF assms(1), of q] r [of q] by (simp del: set_server_nth)
  show "attempt (set_server p f s) = Some (ph, rr) \<Longrightarrow> attempt_ok (set_server p f s) ph" for ph rr
    using mcp_okD(3) [OF assms(1), of ph rr] attempt_ok_cong [of "set_server p f s" s ph] by simp
  show "mcp_stopping (set_server p f s) = Some st \<Longrightarrow>
      stop_requested (set_server p f s) \<and> mcp_stop_ok (set_server p f s) st" for st
    using mcp_okD(5) [OF assms(1), of st] mcp_stop_ok_cong [of "set_server p f s" s st] by simp
  show "stop_requested (set_server p f s) \<Longrightarrow> \<not> retry_timer (set_server p f s)"
    using mcp_okD(6) [OF assms(1)] by simp
qed

lemma mcp_terminate_ok: "mcp_ok s \<Longrightarrow> mcp_ok (fst (mcp_terminate p s))"
  by (simp add: mcp_terminate_def set_server_ok)

lemma attempt_ends_ok:
  assumes "mcp_ok s" "attempt s \<noteq> None" "p < length (servers s)" "mcp_child s = None \<or> mcp_child s = Some p"
  shows "mcp_ok (fst (attempt_ends p c r s))"
  using attempt_step_ok [OF mcp_terminate_ok [OF assms(1), of p], of "Ending p c" r] assms
  by (simp add: attempt_ends_def) (simp add: mcp_terminate_def)

lemma server_spawn_ok:
  assumes "mcp_ok s" "mcp_child s = None" "attempt s \<noteq> None"
  shows "mcp_ok (s\<lparr>servers := servers s @ [\<lparr>v_ready = False, v_gone = False, v_expected = False\<rparr>],
      mcp_child := Some (length (servers s)), attempt := Some (PollHead (length (servers s)), r)\<rparr>)"
    (is "mcp_ok ?s'")
proof (rule mcp_okI)
  show "q < length (servers ?s') \<Longrightarrow> v_gone (servers ?s' ! q) \<or> mcp_child ?s' = Some q" for q
    using mcp_okD(2) [OF assms(1), of q] assms(2) by (cases "q = length (servers s)") (auto simp: nth_append)
  fix st
  assume "mcp_stopping ?s' = Some st"
  then show "stop_requested ?s' \<and> mcp_stop_ok ?s' st"
    using stop_waits [OF assms(1,3)] mcp_okD(5) [OF assms(1)] by auto
qed (use mcp_okD(6) [OF assms(1)] in auto)

lemma server_ready_ok:
  assumes "mcp_ok s" "attempt s = Some (PollProbe p, r)" "\<not> v_gone (servers s ! p)"
  shows "mcp_ok ((set_server p (\<lambda>v. v\<lparr>v_ready := True\<rparr>) s)\<lparr>attempt := None, mcp_phase := McpReady, last_health := h\<rparr>)"
    (is "mcp_ok ?s'")
proof (rule mcp_okI)
  have p: "p < length (servers s)" using mcp_okD(3) [OF assms(1,2)] by simp
  then have c: "mcp_child s = Some p" using mcp_okD(2) [OF assms(1), of p] assms(3) by simp
  show "mcp_child ?s' = Some q \<Longrightarrow> q < length (servers ?s') \<and> \<not> v_gone (servers ?s' ! q)" for q
    using p c assms(3) by simp
  show "q < length (servers ?s') \<Longrightarrow> v_gone (servers ?s' ! q) \<or> mcp_child ?s' = Some q" for q
    using mcp_okD(2) [OF assms(1), of q] by (cases "q = p") simp_all
  show "attempt ?s' = None \<Longrightarrow> mcp_child ?s' = Some q \<Longrightarrow> mcp_phase ?s' = McpReady \<and> v_ready (servers ?s' ! q)" for q
    using p c by simp
  fix st
  assume st: "mcp_stopping ?s' = Some st"
  then obtain d where "st = WaitAttempt d" using stop_waits [OF assms(1)] assms(2) by auto
  then show "stop_requested ?s' \<and> mcp_stop_ok ?s' st" using mcp_okD(5) [OF assms(1)] st by simp
qed (use mcp_okD(6) [OF assms(1)] in simp_all)

lemma attempt_goes_ok:
  assumes "mcp_ok s"
  shows "mcp_ok (fst (attempt_goes cfg ob now s))"
proof (cases "attempt s")
  case None
  then show ?thesis using assms by (simp add: attempt_goes_def)
next
  case (Some a)
  obtain ph r where a: "a = (ph, r)" by (cases a)
  have some: "attempt s \<noteq> None" using Some by simp
  have ok: "attempt_ok s ph" using mcp_okD(3) [OF assms] Some a by simp
  note fails = attempt_fails_ok [OF assms some]
  note ends = attempt_ends_ok [OF assms some]
  note move = attempt_step_ok [OF assms some]
  show ?thesis
  proof (cases ph)
    case Opening
    then show ?thesis using Some a ok fails move [of PortCheck] by (auto simp: attempt_goes_def)
  next
    case PortCheck
    then show ?thesis using Some a ok fails server_spawn_ok [OF assms _ some]
      by (auto simp: attempt_goes_def Let_def)
  next
    case (PollHead p)
    then show ?thesis using Some a ok ends move [of "PollProbe p"] by (auto simp: attempt_goes_def)
  next
    case (PollProbe p)
    then show ?thesis using Some a ok ends move [of "PollHead p"] server_ready_ok [OF assms, of p r]
      by (auto simp: attempt_goes_def split: mcp_probe.splits)
  next
    case (Ending p c)
    have "v_gone (servers s ! p) \<Longrightarrow> mcp_child s = None"
      using ok Ending mcp_okD(1) [OF assms, of p] by auto
    then show ?thesis using Some a Ending fails assms by (auto simp: attempt_goes_def)
  qed
qed

lemma mcp_exits_ok:
  assumes "mcp_ok s" "p < length (servers s)"
  shows "mcp_ok (fst (mcp_exits cfg p now s))"
proof (cases "v_gone (servers s ! p)")
  case True
  then show ?thesis using assms(1) by (simp add: mcp_exits_def)
next
  case False
  then have c: "mcp_child s = Some p" using mcp_okD(2) [OF assms] by simp
  let ?s' = "(set_server p (\<lambda>v. v\<lparr>v_gone := True\<rparr>) s)\<lparr>mcp_child := None\<rparr>"
  have "mcp_ok ?s'"
  proof (rule mcp_okI)
    show "q < length (servers ?s') \<Longrightarrow> v_gone (servers ?s' ! q) \<or> mcp_child ?s' = Some q" for q
      using mcp_okD(2) [OF assms(1), of q] c by (cases "q = p") auto
    show "attempt ?s' = Some (ph, r) \<Longrightarrow> attempt_ok ?s' ph" for ph r
      using mcp_okD(3) [OF assms(1), of ph r] by (cases ph) auto
    show "mcp_stopping ?s' = Some st \<Longrightarrow> stop_requested ?s' \<and> mcp_stop_ok ?s' st" for st
      using mcp_okD(5) [OF assms(1), of st] by (cases st) (auto split: option.splits)
  qed (use mcp_okD(6) [OF assms(1)] in simp_all)
  then show ?thesis using False c schedule_ok [of ?s'] by (auto simp: mcp_exits_def Let_def)
qed

text \<open>A stop that moves to its next phase.\<close>

lemma stop_phase_ok:
  assumes "mcp_ok s" "stop_requested s" "mcp_stop_ok s st"
  shows "mcp_ok (s\<lparr>mcp_stopping := Some st\<rparr>)"
proof (rule mcp_okI)
  show "attempt (s\<lparr>mcp_stopping := Some st\<rparr>) = Some (ph, r) \<Longrightarrow> attempt_ok (s\<lparr>mcp_stopping := Some st\<rparr>) ph" for ph r
    using mcp_okD(3) [OF assms(1), of ph r] attempt_ok_cong [of "s\<lparr>mcp_stopping := Some st\<rparr>" s ph] by simp
  show "mcp_stopping (s\<lparr>mcp_stopping := Some st\<rparr>) = Some st' \<Longrightarrow>
      stop_requested (s\<lparr>mcp_stopping := Some st\<rparr>) \<and> mcp_stop_ok (s\<lparr>mcp_stopping := Some st\<rparr>) st'" for st'
    using assms(2,3) mcp_stop_ok_cong [of "s\<lparr>mcp_stopping := Some st\<rparr>" s st'] by auto
qed (use mcp_okD(1,2,4,6) [OF assms(1)] in simp_all)

lemma health_call_ok: "mcp_ok s \<Longrightarrow> mcp_ok (snd (mcp_health_call r s))"
  by (auto simp: mcp_health_call_def split: mcp_probe.splits elim: mcp_ok_similar)

lemma health_call_fields [simp]:
  "servers (snd (mcp_health_call r s)) = servers s" "mcp_child (snd (mcp_health_call r s)) = mcp_child s"
  "attempt (snd (mcp_health_call r s)) = attempt s" "mcp_stopping (snd (mcp_health_call r s)) = mcp_stopping s"
  "stop_requested (snd (mcp_health_call r s)) = stop_requested s" "waiting_starts (snd (mcp_health_call r s)) = waiting_starts s"
  "released_starts (snd (mcp_health_call r s)) = released_starts s"
  by (auto simp: mcp_health_call_def split: mcp_probe.splits)

lemma terminate_then_end_ok:
  assumes "mcp_ok s" "stop_requested s" "attempt s = None" "p < length (servers s)"
    "mcp_child s = None \<or> mcp_child s = Some p"
  shows "mcp_ok (fst (mcp_then (mcp_terminate p s) (\<lambda>s'. (s'\<lparr>mcp_stopping := Some (Ended (Some p))\<rparr>, []))))"
  using stop_phase_ok [OF mcp_terminate_ok [OF assms(1), of p], of "Ended (Some p)"] assms
  by (simp add: mcp_terminate_def)

lemma stop_child_ok:
  assumes "mcp_ok s" "stop_requested s" "attempt s = None"
  shows "mcp_ok (fst (stop_child d s))"
  using stop_phase_ok [OF assms(1,2)] terminate_then_end_ok [OF assms] mcp_okD(1) [OF assms(1)] assms(3)
  by (auto simp: stop_child_def split: option.splits)

lemma mcp_stop_step_ok:
  assumes "mcp_ok s"
  shows "mcp_ok (fst (mcp_stop d s))"
proof -
  let ?s = "s\<lparr>stop_requested := True, retry_timer := False\<rparr>"
  have s: "mcp_ok ?s"
  proof (rule mcp_okI)
    show "attempt ?s = Some (ph, r) \<Longrightarrow> attempt_ok ?s ph" for ph r
      using mcp_okD(3) [OF assms, of ph r] attempt_ok_cong [of ?s s ph] by simp
    show "mcp_stopping ?s = Some st \<Longrightarrow> stop_requested ?s \<and> mcp_stop_ok ?s st" for st
      using mcp_okD(5) [OF assms, of st] mcp_stop_ok_cong [of ?s s st] by simp
  qed (use mcp_okD(1,2,4) [OF assms] in simp_all)
  show ?thesis
    using s stop_phase_ok [OF s, of "WaitAttempt d"] stop_child_ok [OF s, of d]
    by (cases "attempt s") (simp_all add: mcp_stop_def Let_def)
qed

lemma stop_over_ok:
  assumes "mcp_ok s" "mcp_child s = None" "attempt s = None"
  shows "mcp_ok (s\<lparr>mcp_stopping := None, mcp_phase := x, waiting_starts := n, released_starts := m\<rparr>)"
  by (rule mcp_okI) (use mcp_okD(2,6) [OF assms(1)] assms in simp_all)

lemma stop_proceeds_ok:
  assumes "mcp_ok s"
  shows "mcp_ok (fst (stop_proceeds l r s))"
proof (cases "mcp_stopping s")
  case None
  then show ?thesis using assms by (simp add: stop_proceeds_def)
next
  case (Some st)
  have ok: "mcp_stop_ok s st" and req: "stop_requested s" using mcp_okD(5) [OF assms Some] by simp_all
  show ?thesis
  proof (cases st)
    case (WaitAttempt d)
    then show ?thesis
      using Some assms stop_child_ok [OF assms req] by (cases "attempt s") (simp_all add: stop_proceeds_def)
  next
    case (Draining p)
    obtain h s1 where h: "mcp_health_call r s = (h, s1)" by fastforce
    have s1: "mcp_ok s1" "stop_requested s1" "attempt s1 = None" "p < length (servers s1)"
      "mcp_child s1 = None \<or> mcp_child s1 = Some p"
      using health_call_ok [OF assms, of r] health_call_fields [of r s] h ok Draining req by auto
    show ?thesis using Some Draining h s1 terminate_then_end_ok [OF s1]
      by (simp add: stop_proceeds_def)
  next
    case (Ended q)
    have "attempt s = None" "(case q of None \<Rightarrow> False | Some p \<Rightarrow> \<not> v_gone (servers s ! p)) \<or> mcp_child s = None"
      using ok Ended mcp_okD(1) [OF assms] by (auto split: option.splits)
    then show ?thesis using Some Ended assms req stop_over_ok [OF assms] by (auto simp: stop_proceeds_def)
  qed
qed

text \<open>Every event keeps the invariant but the one: a \<open>start()\<close> overtaking a later stop.\<close>

lemma mcp_step_ok: "mcp_ok s \<Longrightarrow> \<not> overtakes s e \<Longrightarrow> mcp_ok (fst (mcp_step cfg s e))"
  by (cases e) (simp_all add: mcp_start_ok start_resumes_ok revive_ok timer_ok attempt_goes_ok mcp_exits_ok
      mcp_stop_step_ok stop_proceeds_ok health_call_ok)

text \<open>Runs in which that does not happen.\<close>

fun calm :: "mcp_cfg \<Rightarrow> mcp \<Rightarrow> mcp_event list \<Rightarrow> bool" where
  "calm cfg s [] = True"
| "calm cfg s (e # es) = (\<not> overtakes s e \<and> calm cfg (fst (mcp_step cfg s e)) es)"

definition calm_step :: "mcp_cfg \<Rightarrow> mcp \<Rightarrow> mcp_event \<Rightarrow> mcp" where
  "calm_step cfg s e = (if overtakes s e then s else fst (mcp_step cfg s e))"

interpretation mcp_runs: run_invariant "calm_step cfg" mcp_ok for cfg
  by unfold_locales (simp add: calm_step_def mcp_step_ok)

lemma mcp_run_state: "calm cfg s es \<Longrightarrow> fst (mcp_run cfg s es) = foldl (calm_step cfg) s es"
  by (induction es arbitrary: s) (simp_all add: calm_step_def)

lemma mcp_init_ok: "mcp_ok mcp_init"
  by (simp add: mcp_ok_def mcp_init_def)

lemma mcp_run_ok: "calm cfg mcp_init es \<Longrightarrow> mcp_ok (fst (mcp_run cfg mcp_init es))"
  by (simp add: mcp_run_state mcp_runs.run_inv [OF mcp_init_ok])

subsection \<open>Properties\<close>

text \<open>The steps that can resolve a stop.\<close>

lemma schedule_never_stops: "StopDone \<notin> set (snd (mcp_schedule_restart cfg now s))"
  by (auto simp: mcp_schedule_restart_def split: prod.splits bool.splits)

lemma stop_child_never_stops: "StopDone \<notin> set (snd (stop_child d s))"
  by (auto simp: stop_child_def mcp_terminate_def split: option.splits)

lemma stop_done_step:
  assumes "StopDone \<in> set (snd (mcp_step cfg s e))"
  obtains l r where "e = StopProceeds l r"
proof (cases e)
  case (AttemptGoes ob now)
  then show thesis using assms schedule_never_stops
    by (auto simp: attempt_goes_def attempt_fails_def attempt_ends_def mcp_terminate_def Let_def
        split: option.splits attempt_phase.splits if_splits mcp_probe.splits)
next
  case (McpExits p now)
  then show thesis using assms schedule_never_stops by (auto simp: mcp_exits_def Let_def split: if_splits)
next
  case (McpStop d)
  then show thesis using assms stop_child_never_stops by (auto simp: mcp_stop_def Let_def split: if_splits)
qed (use assms that in auto)

text \<open>Claim C3. When a stop resolves, nothing is left behind, not even by a start that was in flight when it
  began: every server process ever spawned is gone, no attempt is under way and no restart is scheduled. The
  runs are those in which no \<open>start()\<close> that had awaited an earlier stop goes on while a later one is under way
  (\<open>calm\<close>); \<open>stop_overtaken\<close> below shows that the code breaks the claim when one does.\<close>

theorem mcp_stop_leaves_nothing:
  assumes "calm cfg mcp_init es"
    and "StopDone \<in> set (snd (mcp_step cfg (fst (mcp_run cfg mcp_init es)) e))"
  shows "list_all v_gone (servers (fst (mcp_step cfg (fst (mcp_run cfg mcp_init es)) e))) \<and>
    attempt (fst (mcp_step cfg (fst (mcp_run cfg mcp_init es)) e)) = None \<and>
    \<not> retry_timer (fst (mcp_step cfg (fst (mcp_run cfg mcp_init es)) e)) \<and>
    mcp_phase (fst (mcp_step cfg (fst (mcp_run cfg mcp_init es)) e)) = McpStopped"
proof -
  let ?s = "fst (mcp_run cfg mcp_init es)"
  have ok: "mcp_ok ?s" by (rule mcp_run_ok [OF assms(1)])
  obtain l r where e: "e = StopProceeds l r" by (rule stop_done_step [OF assms(2)])
  then obtain q where q: "mcp_stopping ?s = Some (Ended q)" "case q of None \<Rightarrow> True | Some p \<Rightarrow> v_gone (servers ?s ! p)"
    using assms(2) stop_child_never_stops
    by (auto simp: stop_proceeds_def mcp_terminate_def split: option.splits mcp_stop.splits if_splits prod.splits)
  have st: "stop_requested ?s" "attempt ?s = None" using mcp_okD(5) [OF ok q(1)] by auto
  have none: "mcp_child ?s = None"
    using mcp_okD(5) [OF ok q(1)] mcp_okD(1) [OF ok] q(2) by (auto split: option.splits)
  have "list_all v_gone (servers ?s)" using mcp_okD(2) [OF ok] none by (auto simp: list_all_length)
  then show ?thesis using e q st mcp_okD(6) [OF ok] by (auto simp: stop_proceeds_def split: option.splits)
qed

text \<open>A stop is final for the MCP too: with no \<open>start()\<close> that awaited an earlier stop, once \<open>stop()\<close> was
  called no server is spawned and no restart happens until the next \<open>start()\<close>, whatever was in flight.\<close>

theorem mcp_stop_is_final:
  assumes "waiting_starts s = 0" "released_starts s = 0" and "McpStart \<notin> set es"
  shows "McpSpawned p \<notin> set (snd (mcp_run cfg (fst (mcp_stop d s)) es))"
proof -
  have "stop_requested t \<Longrightarrow> waiting_starts t = 0 \<and> released_starts t = 0 \<Longrightarrow> McpStart \<notin> set es \<Longrightarrow>
      McpSpawned p \<notin> set (snd (mcp_run cfg t es))" for t
  proof (induction es arbitrary: t)
    case (Cons e es)
    note h = Cons.prems(1,2)
    have sch: "stop_requested u \<Longrightarrow> mcp_schedule_restart cfg now u = (u, [])" for u now
      by (simp add: mcp_schedule_restart_def)
    have "stop_requested (fst (mcp_step cfg t e)) \<and> waiting_starts (fst (mcp_step cfg t e)) = 0 \<and>
        released_starts (fst (mcp_step cfg t e)) = 0 \<and> McpSpawned p \<notin> set (snd (mcp_step cfg t e))"
    proof (cases e)
      case (AttemptGoes ob now)
      then show ?thesis using h
        by (auto simp: attempt_goes_def attempt_fails_def attempt_ends_def mcp_terminate_def sch Let_def
            split: option.splits attempt_phase.splits mcp_probe.splits)
    next
      case (StopProceeds l r)
      then show ?thesis using h health_call_fields [of r t]
        by (auto simp: stop_proceeds_def stop_child_def mcp_terminate_def simp del: health_call_fields
            split: option.splits mcp_stop.splits prod.splits)
    qed (use h Cons.prems(3) in \<open>auto simp: start_resumes_def revive_def mcp_timer_fires_def mcp_exits_def mcp_stop_def
          stop_child_def mcp_terminate_def Let_def sch split: option.splits\<close>)
    with Cons show ?case by auto
  qed simp
  then show ?thesis
    using assms by (auto simp: mcp_stop_def stop_child_def mcp_terminate_def Let_def split: option.splits)
qed

text \<open>A start, its server ready, a stop that drains it and ends it.\<close>

definition sample_mcp_cfg :: mcp_cfg where
  "sample_mcp_cfg = \<lparr>port_valid = True, mcp_backoff = [1000, 2000, 5000, 15000, 30000], restart_window = 600000,
     max_restarts = 5\<rparr>"

definition healthy :: "rat \<Rightarrow> (nat \<times> js option) option" where
  "healthy n = Some (200, Some (JObj [(''ok'', JBool True), (''mode'', JStr ''shared''), (''in_flight'', JNum n)]))"

definition good_obs :: attempt_obs where
  "good_obs = \<lparr>port_busy = False, spawn_ok = True, time_left = 1000, probed = healthy 0\<rparr>"

definition mcp_up :: "mcp_event list" where
  "mcp_up = [McpStart, AttemptGoes good_obs 0, AttemptGoes good_obs 0, AttemptGoes good_obs 0, AttemptGoes good_obs 0]"

lemma mcp_run_append: "mcp_run cfg s (es @ fs) = mcp_then (mcp_run cfg s es) (\<lambda>t. mcp_run cfg t fs)"
  by (induction es arbitrary: s) (simp_all add: mcp_then_def split: prod.splits)

lemma mcp_up_state: "mcp_run sample_mcp_cfg mcp_init mcp_up =
   (\<lparr>servers = [\<lparr>v_ready = True, v_gone = False, v_expected = False\<rparr>], mcp_child = Some 0, mcp_phase = McpReady,
     attempt = None, retry_timer = False, mcp_restarts = [], stop_requested = False, mcp_stopping = None,
     waiting_starts = 0, released_starts = 0, last_health = Some \<lparr>h_ok = True, h_mode = Some ''shared'', h_in_flight = Some 0\<rparr>\<rparr>,
    [McpSpawned 0, McpReadyEvent 0 False])"
  by (simp add: mcp_up_def mcp_then_def mcp_start_def start_now_def mcp_launch_def mcp_init_def attempt_goes_def
      sample_mcp_cfg_def good_obs_def healthy_def mcp_probe_def set_server_def record_health_def)

definition mcp_drained :: "mcp_event list" where
  "mcp_drained = mcp_up @ [McpStop 10, StopProceeds 5 (healthy 1), StopProceeds 2 (healthy 0), McpExits 0 9]"

lemma mcp_drained_calm: "calm sample_mcp_cfg mcp_init mcp_drained"
  by (simp add: mcp_drained_def mcp_up_def overtakes_def)

theorem mcp_stop_leaves_nothing_witness:
  "StopDone \<in> set (snd (mcp_step sample_mcp_cfg (fst (mcp_run sample_mcp_cfg mcp_init mcp_drained)) (StopProceeds 0 None))) \<and>
   list_all v_gone (servers (fst (mcp_step sample_mcp_cfg (fst (mcp_run sample_mcp_cfg mcp_init mcp_drained))
     (StopProceeds 0 None))))"
  (is "?done \<and> ?gone")
proof
  show d: ?done
    by (simp add: mcp_drained_def mcp_run_append mcp_up_state mcp_stop_def stop_child_def stop_proceeds_def
        mcp_health_call_def mcp_probe_def healthy_def record_health_def drain_more_def mcp_terminate_def set_server_def
        mcp_exits_def mcp_then_def)
  show ?gone using mcp_stop_leaves_nothing [OF mcp_drained_calm d] by blast
qed

text \<open>And with one overtaking: \<open>stop()\<close>, a \<open>start()\<close> that awaits it, a second \<open>stop()\<close> once it is over, and the
  \<open>start()\<close> goes on. The second stop resolves while the server it should have prevented is being started.\<close>

lemma stop_overtaken:
  "StopDone \<in> set (snd (mcp_step cfg (fst (mcp_run cfg mcp_init
       [McpStop 10, McpStart, StopProceeds 0 None, McpStop 10, StartResumes])) (StopProceeds 0 None)))"
  "attempt (fst (mcp_step cfg (fst (mcp_run cfg mcp_init
       [McpStop 10, McpStart, StopProceeds 0 None, McpStop 10, StartResumes])) (StopProceeds 0 None))) =
     Some (Opening, ''start'')"
  by (simp_all add: mcp_init_def mcp_stop_def stop_child_def mcp_start_def stop_proceeds_def start_resumes_def
      start_now_def mcp_launch_def Let_def)

theorem mcp_stop_is_final_witness:
  "McpSpawned 0 \<notin> set (snd (mcp_run sample_mcp_cfg (fst (mcp_stop 10 (mcp_start mcp_init)))
     [AttemptGoes good_obs 0, Revive, McpTimer, StopProceeds 10 None, StopProceeds 10 None, AttemptGoes good_obs 1]))"
  by (rule mcp_stop_is_final) (simp_all add: mcp_start_def start_now_def mcp_launch_def mcp_init_def)

subsection \<open>One server\<close>

text \<open>At most one MCP server process is alive in any state of a run in which no \<open>start()\<close> overtakes a stop, and it is the child
  the supervisor knows: no server escapes its \<open>stop()\<close>.\<close>

theorem one_server_at_a_time:
  assumes "calm cfg mcp_init es"
  shows "length (filter (\<lambda>v. \<not> v_gone v) (servers (fst (mcp_run cfg mcp_init es)))) \<le> 1 \<and>
   (\<forall>p < length (servers (fst (mcp_run cfg mcp_init es))).
      v_gone (servers (fst (mcp_run cfg mcp_init es)) ! p) \<or> mcp_child (fst (mcp_run cfg mcp_init es)) = Some p)"
proof -
  let ?s = "fst (mcp_run cfg mcp_init es)"
  note own = mcp_okD(2) [OF mcp_run_ok [OF assms]]
  have "card {i. i < length (servers ?s) \<and> \<not> v_gone (servers ?s ! i)} \<le> card (set_option (mcp_child ?s))"
    using own by (intro card_mono) (auto simp: elem_set)
  also have "\<dots> \<le> 1" by (cases "mcp_child ?s") simp_all
  finally show ?thesis using own by (auto simp: length_filter_conv_card)
qed

theorem one_server_at_a_time_witness:
  "length (filter (\<lambda>v. \<not> v_gone v) (servers (fst (mcp_run sample_mcp_cfg mcp_init mcp_up)))) = 1"
  using one_server_at_a_time [of sample_mcp_cfg mcp_up] by (simp add: mcp_up_state mcp_up_def [symmetric])

subsection \<open>The restart budget\<close>

interpretation mcp_budget: rate_limited "mcp_attempt_restart cfg" mcp_restarts "restart_window cfg" "max_restarts cfg" for cfg
proof unfold_locales
  fix t s s'
  show "mcp_attempt_restart cfg t s = (s', True) \<Longrightarrow>
      mcp_restarts s' = filter (\<lambda>g. t - g < restart_window cfg) (mcp_restarts s) @ [t]"
    by (auto simp: mcp_attempt_restart_def Let_def split: if_splits)
  show "mcp_attempt_restart cfg t s = (s', False) \<Longrightarrow>
      mcp_restarts s' = filter (\<lambda>g. t - g < restart_window cfg) (mcp_restarts s)"
    by (auto simp: mcp_attempt_restart_def Let_def split: if_splits)
  show "mcp_attempt_restart cfg t s = (s', True) \<Longrightarrow>
      length (filter (\<lambda>g. t - g < restart_window cfg) (mcp_restarts s)) < max_restarts cfg"
    by (auto simp: mcp_attempt_restart_def Let_def split: if_splits)
qed

text \<open>Automatic restarts of the MCP are bounded: of any series of attempts, at most \<open>maxRestarts\<close> are
  granted within any window of \<open>restartWindowMs\<close>; a revive in between is what starts a new count.\<close>

theorem mcp_restarts_bounded:
  assumes "sorted ts"
  shows "length (filter (\<lambda>g. x - g < restart_window cfg \<and> g \<le> x) (granted (mcp_attempt_restart cfg) (revive s) ts))
    \<le> max_restarts cfg"
proof (rule mcp_budget.window_bound [OF assms])
  show "mcp_restarts (revive s) = []" by (simp add: revive_def Let_def mcp_launch_def)
qed

theorem mcp_restarts_bounded_witness:
  "length (filter (\<lambda>g. 7 - g < 600000 \<and> g \<le> 7)
     (granted (mcp_attempt_restart sample_mcp_cfg) (revive mcp_init) [1, 2, 3, 4, 5, 6, 7])) \<le> 5"
  using mcp_restarts_bounded [of "[1, 2, 3, 4, 5, 6, 7]" 7 sample_mcp_cfg mcp_init] by (simp add: sample_mcp_cfg_def)

end
