(* ===== verification/Turn_Tracker.thy ===== *)
theory Turn_Tracker
  imports Js_Value Ordered_Map Run_System
begin

text \<open>
  What the broker observes on one conversation's stream (runtime/lib/turn-tracker.js): the final answer
  of the current turn and the files the conversation has read. Updates are raw JSON values.
  \<open>resolve\<close> is \<open>path.resolve(cwd, p)\<close> of Node, a parameter; the reads are a set.
\<close>

definition ends_with :: "string \<Rightarrow> string \<Rightarrow> bool" where
  "ends_with s t \<longleftrightarrow> suffix t s"

text \<open>\<open>READ_TITLE\<close>: the title is \<open>read\<close>, or ends in \<open>: read\<close>.\<close>

definition is_read_call :: "js \<Rightarrow> bool" where
  "is_read_call u \<longleftrightarrow> js_field u ''kind'' = JStr ''read'' \<and>
     (case js_field u ''title'' of JStr t \<Rightarrow> t = ''read'' \<or> ends_with t '': read'' | _ \<Rightarrow> False)"

definition js_at :: "js \<Rightarrow> nat \<Rightarrow> js" where
  "js_at v i = (case v of JArr xs \<Rightarrow> if i < length xs then xs ! i else JUndef | _ \<Rightarrow> JUndef)"

definition path_of :: "js \<Rightarrow> string option" where
  "path_of u =
    (case js_or_null (js_field (js_field u ''rawInput'') ''path'') (js_field (js_at (js_field u ''locations'') 0) ''path'') of
       JStr p \<Rightarrow> if p = [] then None else Some p
     | _ \<Rightarrow> None)"

record tracker =
  max_child_depth :: int
  answer :: string
  pending :: "(string, string option) omap"
  reads :: "string set"
  committed :: nat
  failed :: nat
  completed_without_path :: nat

definition new_tracker :: "int \<Rightarrow> tracker" where
  "new_tracker d = \<lparr>max_child_depth = d, answer = [], pending = [], reads = {}, committed = 0, failed = 0,
     completed_without_path = 0\<rparr>"

definition ROOT_KEY :: string where "ROOT_KEY = []"

definition is_kind :: "js \<Rightarrow> string \<Rightarrow> bool" where
  "is_kind u k \<longleftrightarrow> js_field u ''sessionUpdate'' = JStr k"

definition call_id :: "js \<Rightarrow> string option" where
  "call_id u = (case js_field u ''toolCallId'' of JStr i \<Rightarrow> if i = [] then None else Some i | _ \<Rightarrow> None)"

definition call_key :: "string \<Rightarrow> string \<Rightarrow> string" where
  "call_key sessionKey i = sessionKey @ [CHR 0x00] @ i"

text \<open>The first half of \<open>#track\<close>: what is remembered of the call; \<open>None\<close> where it returns there.\<close>

definition note_call :: "string \<Rightarrow> js \<Rightarrow> (string, string option) omap \<Rightarrow> (string, string option) omap \<times> bool" where
  "note_call k u pend =
    (if is_read_call u then
       (if path_of u \<noteq> None \<or> is_kind u ''tool_call'' \<or> \<not> om_has pend k then (om_set k (path_of u) pend, True)
        else (pend, True))
     else if is_kind u ''tool_call'' \<or> js_field u ''kind'' \<noteq> JUndef then (om_delete k pend, False)
     else (pend, True))"

definition track :: "(string \<Rightarrow> string) \<Rightarrow> string \<Rightarrow> js \<Rightarrow> tracker \<Rightarrow> tracker" where
  "track resolve sessionKey u t =
    (case call_id u of
       None \<Rightarrow> t
     | Some i \<Rightarrow>
        (let k = call_key sessionKey i in
         case note_call k u (pending t) of
           (pend, False) \<Rightarrow> t\<lparr>pending := pend\<rparr>
         | (pend, True) \<Rightarrow>
            (case om_get pend k of
               None \<Rightarrow> t\<lparr>pending := pend\<rparr>
             | Some p \<Rightarrow>
                (if js_field u ''status'' = JStr ''completed'' then
                   (case p of
                      None \<Rightarrow> t\<lparr>pending := om_delete k pend, completed_without_path := completed_without_path t + 1\<rparr>
                    | Some q \<Rightarrow> t\<lparr>pending := om_delete k pend, reads := insert (resolve q) (reads t),
                                   committed := committed t + 1\<rparr>)
                 else if js_field u ''status'' = JStr ''failed'' then
                   t\<lparr>pending := om_delete k pend, failed := failed t + 1\<rparr>
                 else t\<lparr>pending := pend\<rparr>))))"

definition begin_turn :: "tracker \<Rightarrow> tracker" where
  "begin_turn t = t\<lparr>answer := []\<rparr>"

definition root_update :: "js \<Rightarrow> js" where
  "root_update update = (case js_field update ''sessionUpdate'' of JStr _ \<Rightarrow> update | _ \<Rightarrow> js_field update ''update'')"

definition chunk_text :: "js \<Rightarrow> string" where
  "chunk_text u =
    (if is_kind u ''agent_message_chunk'' \<and> js_field (js_field u ''content'') ''type'' = JStr ''text''
     then (case js_field (js_field u ''content'') ''text'' of JStr s \<Rightarrow> s | _ \<Rightarrow> []) else [])"

definition on_update :: "(string \<Rightarrow> string) \<Rightarrow> js \<Rightarrow> tracker \<Rightarrow> tracker" where
  "on_update resolve update t =
    (let u = root_update update in
     if is_kind u ''tool_call'' then track resolve ROOT_KEY u (t\<lparr>answer := []\<rparr>)
     else if is_kind u ''tool_call_update'' then track resolve ROOT_KEY u t
     else if is_kind u ''agent_message_chunk'' then t\<lparr>answer := answer t @ chunk_text u\<rparr>
     else t)"

text \<open>The session of a child frame that counts, and its update.\<close>

definition child_session :: "int \<Rightarrow> js \<Rightarrow> string option" where
  "child_session maxDepth frame =
    (if js_field frame ''type'' \<noteq> JStr ''update'' then None
     else (case js_field (js_field frame ''child'') ''depth'' of
       JNum d \<Rightarrow>
         (if d \<notin> \<int> \<or> d < 1 \<or> d > of_int maxDepth then None
          else (case js_field (js_field frame ''child'') ''sessionId'' of
             JStr s \<Rightarrow> if s = [] then None else Some s
           | _ \<Rightarrow> None))
     | _ \<Rightarrow> None))"

definition on_child :: "(string \<Rightarrow> string) \<Rightarrow> js \<Rightarrow> tracker \<Rightarrow> tracker" where
  "on_child resolve frame t =
    (case child_session (max_child_depth t) frame of
       None \<Rightarrow> t
     | Some s \<Rightarrow>
        (let u = js_field frame ''update'' in
         if is_kind u ''tool_call'' \<or> is_kind u ''tool_call_update'' then track resolve s u t else t))"

subsection \<open>The stream as events\<close>

datatype tracker_event = BeginTurn | RootUpdate js | ChildFrame js

fun tracker_step :: "(string \<Rightarrow> string) \<Rightarrow> tracker \<Rightarrow> tracker_event \<Rightarrow> tracker" where
  "tracker_step resolve t BeginTurn = begin_turn t"
| "tracker_step resolve t (RootUpdate u) = on_update resolve u t"
| "tracker_step resolve t (ChildFrame f) = on_child resolve f t"

definition tracker_run :: "(string \<Rightarrow> string) \<Rightarrow> tracker \<Rightarrow> tracker_event list \<Rightarrow> tracker" where
  "tracker_run resolve t es = foldl (tracker_step resolve) t es"

text \<open>The call an event is about: its key and the update; and what the call is doing.\<close>

fun event_call :: "int \<Rightarrow> tracker_event \<Rightarrow> (string \<times> js) option" where
  "event_call d BeginTurn = None"
| "event_call d (RootUpdate update) =
     (let u = root_update update in
      if is_kind u ''tool_call'' \<or> is_kind u ''tool_call_update''
      then map_option (\<lambda>i. (call_key ROOT_KEY i, u)) (call_id u) else None)"
| "event_call d (ChildFrame f) =
     (let u = js_field f ''update'' in
      case child_session d f of
        None \<Rightarrow> None
      | Some s \<Rightarrow> if is_kind u ''tool_call'' \<or> is_kind u ''tool_call_update''
                  then map_option (\<lambda>i. (call_key s i, u)) (call_id u) else None)"

text \<open>The part of the state calls act on, one call at a time.\<close>

definition calls_only :: "tracker \<Rightarrow> (string, string option) omap \<times> string set" where
  "calls_only t = (pending t, reads t)"

definition apply_call :: "(string \<Rightarrow> string) \<Rightarrow> string \<Rightarrow> js \<Rightarrow> (string, string option) omap \<times> string set \<Rightarrow>
    (string, string option) omap \<times> string set" where
  "apply_call resolve k u = (\<lambda>(pend, rd).
    (case note_call k u pend of
       (p, False) \<Rightarrow> (p, rd)
     | (p, True) \<Rightarrow>
        (case om_get p k of
           None \<Rightarrow> (p, rd)
         | Some q \<Rightarrow>
            (if js_field u ''status'' = JStr ''completed'' then
               (om_delete k p, case q of None \<Rightarrow> rd | Some x \<Rightarrow> insert (resolve x) rd)
             else if js_field u ''status'' = JStr ''failed'' then (om_delete k p, rd) else (p, rd)))))"

lemma calls_only_track:
  "calls_only (track resolve s u t) =
     (case call_id u of None \<Rightarrow> calls_only t | Some i \<Rightarrow> apply_call resolve (call_key s i) u (calls_only t))"
  by (auto simp: track_def apply_call_def calls_only_def Let_def split: option.splits prod.splits bool.splits)

lemma track_keeps [simp]:
  "answer (track resolve s u t) = answer t" "max_child_depth (track resolve s u t) = max_child_depth t"
  by (auto simp: track_def Let_def split: option.splits prod.splits bool.splits)

lemma step_depth [simp]: "max_child_depth (tracker_step resolve t e) = max_child_depth t"
  by (cases e) (auto simp: begin_turn_def on_update_def on_child_def Let_def split: option.splits)

lemma calls_only_step:
  "calls_only (tracker_step resolve t e) =
     (case event_call (max_child_depth t) e of None \<Rightarrow> calls_only t | Some (k, u) \<Rightarrow> apply_call resolve k u (calls_only t))"
proof (cases e)
  case BeginTurn
  then show ?thesis by (simp add: calls_only_def begin_turn_def)
next
  case (RootUpdate x)
  have a: "calls_only (t\<lparr>answer := v\<rparr>) = calls_only t" for v by (simp add: calls_only_def)
  show ?thesis using RootUpdate
    by (auto simp: on_update_def Let_def calls_only_track a split: option.splits)
next
  case (ChildFrame f)
  then show ?thesis by (auto simp: on_child_def Let_def calls_only_track split: option.splits)
qed

subsection \<open>The specification: one small automaton per call\<close>

text \<open>\<open>None\<close>: no open read call; \<open>Some None\<close>: open, path unknown. The second component is what the update commits.\<close>

definition other_tool :: "js \<Rightarrow> bool" where
  "other_tool u \<longleftrightarrow> \<not> is_read_call u \<and> (is_kind u ''tool_call'' \<or> js_field u ''kind'' \<noteq> JUndef)"

definition ended :: "js \<Rightarrow> bool" where
  "ended u \<longleftrightarrow> js_field u ''status'' = JStr ''completed'' \<or> js_field u ''status'' = JStr ''failed''"

definition call_step :: "js \<Rightarrow> string option option \<Rightarrow> string option option \<times> string set" where
  "call_step u s =
    (if other_tool u then (None, {})
     else (let s1 = (if is_read_call u \<and> (path_of u \<noteq> None \<or> is_kind u ''tool_call'' \<or> s = None)
                     then Some (path_of u) else s) in
       if ended u then (None, if js_field u ''status'' = JStr ''completed''
                              then (case s1 of Some (Some x) \<Rightarrow> {x} | _ \<Rightarrow> {}) else {})
       else (s1, {})))"

fun call_run :: "js list \<Rightarrow> string option option \<times> string set" where
  "call_run [] = (None, {})"
| "call_run (u # us) = (case call_run us of (s, c) \<Rightarrow> (case call_step u s of (s', c') \<Rightarrow> (s', c \<union> c')))"

text \<open>The updates of one call, latest first.\<close>

definition call_updates :: "int \<Rightarrow> string \<Rightarrow> tracker_event list \<Rightarrow> js list" where
  "call_updates d k es = rev (List.map_filter (\<lambda>e. case event_call d e of None \<Rightarrow> None
     | Some (k', u) \<Rightarrow> if k' = k then Some u else None) es)"

lemma call_updates_simps [simp]:
  "call_updates d k [] = []"
  "call_updates d k (es @ [e]) = (case event_call d e of None \<Rightarrow> call_updates d k es
     | Some (k', u) \<Rightarrow> if k' = k then u # call_updates d k es else call_updates d k es)"
  by (auto simp: call_updates_def map_filter_def split: option.splits)

lemma apply_call_local:
  assumes "apply_call resolve k u (p, rd) = (p', rd')"
  shows "om_get p' k = fst (call_step u (om_get p k)) \<and> rd' = rd \<union> resolve ` snd (call_step u (om_get p k)) \<and>
     (\<forall>j. j \<noteq> k \<longrightarrow> om_get p' j = om_get p j)"
  using assms
  by (auto simp: apply_call_def call_step_def note_call_def other_tool_def ended_def Let_def om_has_def
        split: if_splits option.splits)

lemma tracker_run_snoc: "tracker_run resolve t (es @ [e]) = tracker_step resolve (tracker_run resolve t es) e"
  by (simp add: tracker_run_def)

lemma new_tracker_depth [simp]: "max_child_depth (new_tracker d) = d"
  by (simp add: new_tracker_def)

lemma tracker_run_depth [simp]: "max_child_depth (tracker_run resolve t es) = max_child_depth t"
  by (induction es rule: rev_induct) (simp_all add: tracker_run_def)

lemma UN_image_point: "(\<Union>j. f ` (if j = k then A k \<union> B else A j)) = (\<Union>j. f ` A j) \<union> f ` B"
proof -
  have "(if j = k then A k \<union> B else A j) = A j \<union> (if j = k then B else {})" for j by simp
  then have "(\<Union>j. f ` (if j = k then A k \<union> B else A j)) = (\<Union>j. f ` A j) \<union> (\<Union>j. f ` (if j = k then B else {}))"
    by (simp add: image_Un UN_Un_distrib)
  moreover have "(\<Union>j. f ` (if j = k then B else {})) = f ` B" by (auto split: if_splits)
  ultimately show ?thesis by simp
qed

lemma tracker_refines:
  "(\<forall>k. om_get (pending (tracker_run resolve (new_tracker d) es)) k = fst (call_run (call_updates d k es))) \<and>
   reads (tracker_run resolve (new_tracker d) es) = (\<Union>k. resolve ` snd (call_run (call_updates d k es)))"
proof (induction es rule: rev_induct)
  case Nil
  then show ?case by (simp add: tracker_run_def new_tracker_def)
next
  case (snoc e es)
  let ?t = "tracker_run resolve (new_tracker d) es"
  show ?case
  proof (cases "event_call d e")
    case None
    then have "calls_only (tracker_step resolve ?t e) = calls_only ?t" by (simp add: calls_only_step)
    with snoc None show ?thesis by (simp add: tracker_run_snoc calls_only_def)
  next
    case (Some ku)
    obtain k u where ku: "ku = (k, u)" by (cases ku)
    let ?t' = "tracker_step resolve ?t e"
    have "calls_only ?t' = apply_call resolve k u (calls_only ?t)"
      using Some ku by (simp add: calls_only_step)
    then have step: "om_get (pending ?t') k = fst (call_step u (om_get (pending ?t) k))"
      "reads ?t' = reads ?t \<union> resolve ` snd (call_step u (om_get (pending ?t) k))"
      "\<And>j. j \<noteq> k \<Longrightarrow> om_get (pending ?t') j = om_get (pending ?t) j"
      using apply_call_local [of resolve k u "pending ?t" "reads ?t" "pending ?t'" "reads ?t'"]
      by (simp_all add: calls_only_def)
    have run: "call_run (call_updates d j (es @ [e])) =
        (if j = k then (fst (call_step u (om_get (pending ?t) k)),
                        snd (call_run (call_updates d k es)) \<union> snd (call_step u (om_get (pending ?t) k)))
         else call_run (call_updates d j es))" for j
      using snoc Some ku by (simp split: prod.splits)
    have "(\<Union>j. resolve ` snd (call_run (call_updates d j (es @ [e])))) =
        (\<Union>j. resolve ` snd (call_run (call_updates d j es))) \<union> resolve ` snd (call_step u (om_get (pending ?t) k))"
      unfolding run using UN_image_point [of resolve k "\<lambda>j. snd (call_run (call_updates d j es))"]
      by (simp add: if_distrib cong: if_cong)
    with snoc step run show ?thesis by (auto simp: tracker_run_snoc)
  qed
qed

text \<open>An open read call with a known path: the read call that named the path, and nothing since that ended
  it, replaced it by another tool, or named another path. (Lists are latest first.)\<close>

definition quiet :: "js \<Rightarrow> bool" where
  "quiet w \<longleftrightarrow> \<not> other_tool w \<and> \<not> ended w \<and> (is_read_call w \<longrightarrow> path_of w = None \<and> \<not> is_kind w ''tool_call'')"

lemma call_run_Cons: "call_run (u # us) =
    (fst (call_step u (fst (call_run us))), snd (call_run us) \<union> snd (call_step u (fst (call_run us))))"
  by (simp split: prod.splits)

declare call_run.simps(2) [simp del]

lemma call_open:
  assumes "fst (call_run us) = Some (Some x)"
  shows "\<exists>b v a. us = b @ v # a \<and> is_read_call v \<and> path_of v = Some x \<and> \<not> ended v \<and> list_all quiet b"
  using assms
proof (induction us)
  case (Cons u us)
  consider (new) "is_read_call u" "path_of u = Some x" "\<not> ended u"
    | (old) "quiet u" "fst (call_run us) = Some (Some x)"
    using Cons.prems
    by (auto simp: call_run_Cons call_step_def quiet_def Let_def split: if_splits)
  then show ?case
  proof cases
    case new
    then show ?thesis by (intro exI [of _ "[]"]) auto
  next
    case old
    then obtain b v a where "us = b @ v # a" "is_read_call v" "path_of v = Some x" "\<not> ended v" "list_all quiet b"
      using Cons.IH by blast
    with old show ?thesis by (intro exI [of _ "u # b"]) auto
  qed
qed simp

lemma call_committed:
  assumes "x \<in> snd (call_run us)"
  shows "\<exists>later u b v a. us = later @ u # b @ a \<and> js_field u ''status'' = JStr ''completed'' \<and> \<not> other_tool u \<and>
    (v = u \<and> b = [] \<or> (\<exists>b'. b = b' @ [v] \<and> list_all quiet b' \<and> \<not> ended v)) \<and>
    is_read_call v \<and> path_of v = Some x"
  using assms
proof (induction us)
  case (Cons u us)
  show ?case
  proof (cases "x \<in> snd (call_run us)")
    case True
    with Cons.IH obtain later w b v a where "us = later @ w # b @ a" and "js_field w ''status'' = JStr ''completed'' \<and> \<not> other_tool w \<and>
        (v = w \<and> b = [] \<or> (\<exists>b'. b = b' @ [v] \<and> list_all quiet b' \<and> \<not> ended v)) \<and> is_read_call v \<and> path_of v = Some x"
      by blast
    then show ?thesis by (intro exI [of _ "u # later"]) auto
  next
    case False
    then have u: "js_field u ''status'' = JStr ''completed''" "\<not> other_tool u"
      and "(is_read_call u \<and> path_of u = Some x) \<or> fst (call_run us) = Some (Some x)"
      using Cons.prems by (auto simp: call_run_Cons call_step_def Let_def split: if_splits option.splits)
    then consider "is_read_call u" "path_of u = Some x" | "fst (call_run us) = Some (Some x)" by blast
    then show ?thesis
    proof cases
      case 1
      have "u # us = [] @ u # [] @ us" by simp
      with 1 u show ?thesis by blast
    next
      case 2
      then obtain b v a where b: "us = b @ v # a" "is_read_call v" "path_of v = Some x" "\<not> ended v" "list_all quiet b"
        using call_open by blast
      have "u # us = [] @ u # (b @ [v]) @ a" using b by simp
      with u b show ?thesis by blast
    qed
  qed
qed simp

subsection \<open>The answer\<close>

fun resets :: "tracker_event \<Rightarrow> bool" where
  "resets BeginTurn = True"
| "resets (RootUpdate u) = is_kind (root_update u) ''tool_call''"
| "resets (ChildFrame f) = False"

fun event_text :: "tracker_event \<Rightarrow> string" where
  "event_text (RootUpdate u) = chunk_text (root_update u)"
| "event_text _ = []"

text \<open>What was said since the last reset.\<close>

definition said_since :: "tracker_event list \<Rightarrow> string" where
  "said_since es = concat (map event_text (rev (takeWhile (\<lambda>e. \<not> resets e) (rev es))))"

lemma answer_step:
  "answer (tracker_step resolve t e) = (if resets e then [] else answer t @ event_text e)"
  by (cases e) (auto simp: begin_turn_def on_update_def on_child_def chunk_text_def is_kind_def Let_def
      split: option.splits)

subsection \<open>Properties\<close>

text \<open>The answer is exactly the root's message text since the turn began or its last root tool call, in
  order; child frames, thoughts and tool updates never add to it and never cut it.\<close>

theorem answer_is_final_text:
  "answer (tracker_run resolve (new_tracker d) es) = said_since es"
proof (induction es rule: rev_induct)
  case Nil
  then show ?case by (simp add: tracker_run_def new_tracker_def said_since_def)
next
  case (snoc e es)
  then show ?case by (simp add: tracker_run_snoc answer_step said_since_def)
qed

text \<open>Claim C36. The read ledger holds nothing but completed reads: for every path in it there is one call of the
  root or of a child within the depth, whose update \<open>u\<close> reported completion, and a read call \<open>v\<close> of that same
  call (\<open>u\<close> itself, or an earlier update) that named the path, with no update between that failed the call,
  completed it, turned it into another tool or named another path. However the calls of the root and the
  children interleave, they do not disturb one another.\<close>

theorem reads_are_completed:
  assumes "p \<in> reads (tracker_run resolve (new_tracker d) es)"
  shows "\<exists>k x later u b v a. p = resolve x \<and> call_updates d k es = later @ u # b @ a \<and>
    js_field u ''status'' = JStr ''completed'' \<and> \<not> other_tool u \<and>
    (v = u \<and> b = [] \<or> (\<exists>b'. b = b' @ [v] \<and> list_all quiet b' \<and> \<not> ended v)) \<and>
    is_read_call v \<and> path_of v = Some x"
proof -
  from assms obtain k x where k: "p = resolve x" "x \<in> snd (call_run (call_updates d k es))"
    using tracker_refines [of resolve d es] by auto
  from call_committed [OF k(2)] k(1) show ?thesis by blast
qed

definition sample_read :: "string \<Rightarrow> (string \<times> js) list \<Rightarrow> js" where
  "sample_read kind extra = JObj ([(''sessionUpdate'', JStr kind), (''toolCallId'', JStr ''c1'')] @ extra)"

definition sample_stream :: "tracker_event list" where
  "sample_stream =
    [BeginTurn,
     RootUpdate (sample_read ''tool_call'' [(''kind'', JStr ''read''), (''title'', JStr ''read''), (''rawInput'', JObj [])]),
     RootUpdate (sample_read ''tool_call_update'' [(''kind'', JStr ''read''), (''title'', JStr ''read''),
       (''rawInput'', JObj [(''path'', JStr ''a.md'')])]),
     RootUpdate (sample_read ''tool_call_update'' [(''status'', JStr ''completed'')])]"

lemma sample_stream_reads: "reads (tracker_run (\<lambda>p. ''/w/'' @ p) (new_tracker 1) sample_stream) = {''/w/a.md''}"
  by (simp add: tracker_run_def sample_stream_def sample_read_def begin_turn_def on_update_def root_update_def
      track_def note_call_def is_read_call_def ends_with_def is_kind_def call_id_def call_key_def ROOT_KEY_def
      path_of_def js_or_null_def js_at_def om_has_def new_tracker_def Let_def)

theorem reads_are_completed_witness:
  "\<exists>k x later u b v a. ''/w/a.md'' = ''/w/'' @ x \<and> call_updates 1 k sample_stream = later @ u # b @ a \<and>
    js_field u ''status'' = JStr ''completed'' \<and> \<not> other_tool u \<and>
    (v = u \<and> b = [] \<or> (\<exists>b'. b = b' @ [v] \<and> list_all quiet b' \<and> \<not> ended v)) \<and>
    is_read_call v \<and> path_of v = Some x"
proof -
  have "''/w/a.md'' \<in> reads (tracker_run (\<lambda>p. ''/w/'' @ p) (new_tracker 1) sample_stream)"
    unfolding sample_stream_reads by simp
  from reads_are_completed [OF this] show ?thesis .
qed

end
