(* ===== verification/Citation_Guard.thy ===== *)
theory Citation_Guard
  imports Prelude
begin

text \<open>
  The citation guard (runtime/lib/citation-guard.js): the files an answer cites in \<open>[source: ...]\<close>
  brackets that were never read. The regular expressions are written out as scanning functions; each is
  anchored or deterministic, so no backtracking is lost.
\<close>

definition ends_with_any :: "string list \<Rightarrow> string \<Rightarrow> bool" where
  "ends_with_any ts s \<longleftrightarrow> list_ex (\<lambda>t. suffix t s) ts"

text \<open>\<open>norm\<close>: forward slashes, no leading \<open>./\<close> or slashes, trimmed, lower case.\<close>

definition strip_lead :: "string \<Rightarrow> string" where
  "strip_lead s =
    (let r = (case s of c # cs \<Rightarrow> if c = CHR ''.'' then cs else s | [] \<Rightarrow> s)
     in if prefix ''/'' r then dropWhile (\<lambda>c. c = CHR ''/'') r else s)"

definition norm_name :: "string \<Rightarrow> string" where
  "norm_name s = js_lower (js_trim (strip_lead (map (\<lambda>c. if c = CHR 0x5C then CHR ''/'' else c) s)))"

text \<open>\<open>FIGURE_MEMBER_SUFFIX\<close>, \<open>FIGURE_ID\<close>, \<open>FILE_EXT\<close>, all case-insensitive.\<close>

definition member_suffixes :: "string list" where
  "member_suffixes = [''.description.md'', ''.jpg'', ''.jpeg'', ''.png'', ''.tif'', ''.tiff'', ''.webp'']"

definition strip_member :: "string \<Rightarrow> string" where
  "strip_member n =
    (case List.find (\<lambda>t. suffix t (js_lower n)) member_suffixes of
       None \<Rightarrow> n
     | Some t \<Rightarrow> take (length n - length t) n)"

definition figure_char :: "char \<Rightarrow> bool" where
  "figure_char c \<longleftrightarrow> is_lower c \<or> is_digit c \<or> c = CHR ''_'' \<or> c = CHR ''-''"

definition figure_id :: "string \<Rightarrow> bool" where
  "figure_id n =
    (let seg = js_lower (last (js_split CHR ''/'' n))
     in prefix ''fig_'' seg \<and> drop 4 seg \<noteq> [] \<and> list_all figure_char (drop 4 seg))"

definition figure_key :: "string \<Rightarrow> string option" where
  "figure_key n = (if figure_id (strip_member n) then Some (strip_member n) else None)"

definition file_exts :: "string list" where
  "file_exts = [''.md'', ''.csv'', ''.json'', ''.png'', ''.jpg'', ''.jpeg'', ''.txt'', ''.tsv'', ''.tif'', ''.geojson'', ''.pdf'']"

definition lead_quote :: "char \<Rightarrow> bool" where
  "lead_quote c \<longleftrightarrow> c \<in> {CHR 0x60, CHR 0x22, CHR 0x27, CHR ''<'', CHR ''(''}"

definition trail_quote :: "char \<Rightarrow> bool" where
  "trail_quote c \<longleftrightarrow> c \<in> {CHR 0x60, CHR 0x22, CHR 0x27, CHR ''>'', CHR '')''}"

definition clean :: "string \<Rightarrow> string" where
  "clean tok = js_trim (rev (dropWhile trail_quote (rev (dropWhile lead_quote (js_trim tok)))))"

text \<open>A word character of a regular expression (\<open>\b\<close> looks for one).\<close>

definition word_char :: "char \<Rightarrow> bool" where
  "word_char c \<longleftrightarrow> is_alnum c \<or> c = CHR ''_''"

definition is_web :: "string \<Rightarrow> bool" where
  "is_web src =
    (let s = js_lower src in
     (prefix ''web'' s \<and> (case drop 3 src of [] \<Rightarrow> True | c # _ \<Rightarrow> \<not> word_char c)) \<or>
     prefix ''http://'' s \<or> prefix ''https://'' s)"

definition looks_like_file :: "string \<Rightarrow> bool" where
  "looks_like_file src \<longleftrightarrow> \<not> is_web src \<and>
     (CHR ''/'' \<in> set src \<or> ends_with_any file_exts (js_lower src) \<or> figure_id (strip_member src))"

subsection \<open>Splitting outside quotes\<close>

definition quote_mark :: "char \<Rightarrow> bool" where
  "quote_mark c \<longleftrightarrow> c = CHR 0x22 \<or> c = CHR 0x60"

lemma cut_at_length: "cut_at c s = Some (a, b) \<Longrightarrow> length b < length s"
  by (auto dest: cut_at_Some)

text \<open>For every position, whether it lies strictly inside a balanced pair of quotes.\<close>

function quoted :: "string \<Rightarrow> bool list" where
  "quoted [] = []"
| "quoted (c # cs) =
    (if quote_mark c then
       (case cut_at c cs of
          Some (a, b) \<Rightarrow> False # replicate (length a) True @ False # quoted b
        | None \<Rightarrow> False # quoted cs)
     else False # quoted cs)"
  by pat_completeness auto
termination
  by (relation "measure length") (auto dest: cut_at_length)

text \<open>A separator: the length of its match at the front of a string, 0 for none.\<close>

type_synonym separator = "string \<Rightarrow> nat"

fun split_from :: "separator \<Rightarrow> string \<Rightarrow> (char \<times> bool) list \<Rightarrow> string list" where
  "split_from sep cur [] = [rev cur]"
| "split_from sep cur ((c, q) # xs) =
    (if \<not> q \<and> 0 < sep (c # map fst xs)
     then rev cur # split_from sep [] (drop (sep (c # map fst xs) - 1) xs)
     else split_from sep (c # cur) xs)"

definition split_outside :: "string \<Rightarrow> separator \<Rightarrow> string list" where
  "split_outside s sep = split_from sep [] (zip s (quoted s))"

definition char_sep :: "char \<Rightarrow> separator" where
  "char_sep c s = (case s of x # _ \<Rightarrow> if x = c then 1 else 0 | [] \<Rightarrow> 0)"

text \<open>\<open>,|\s+(?:and|&|\+)\s+\<close>.\<close>

definition list_sep :: separator where
  "list_sep s =
    (case s of
       [] \<Rightarrow> 0
     | x # _ \<Rightarrow>
        (if x = CHR '','' then 1
         else (let sp = takeWhile is_space s; r = dropWhile is_space s;
                   w = (if prefix ''and'' (js_lower r) then 3
                        else if prefix ''&'' r \<or> prefix ''+'' r then 1 else 0 :: nat);
                   sp2 = takeWhile is_space (drop w r)
               in if sp = [] \<or> w = 0 \<or> sp2 = [] then 0 else length sp + w + length sp2)))"

subsection \<open>The brackets\<close>

text \<open>One match of \<open>\[\s*source\s*:([^\]\n]*)(?:\]|$)\<close> at the front: the body and what follows the match.\<close>

definition match_source :: "string \<Rightarrow> (string \<times> string) option" where
  "match_source s =
    (case s of
       [] \<Rightarrow> None
     | c # s1 \<Rightarrow>
        (let s2 = dropWhile is_space s1; s3 = dropWhile is_space (drop 6 s2) in
         if c = CHR ''['' \<and> prefix ''source'' (js_lower s2) \<and> prefix '':'' s3
         then (let stop = (\<lambda>x. x \<noteq> CHR '']'' \<and> x \<noteq> CHR ''\<newline>'');
                   body = takeWhile stop (tl s3); rest = dropWhile stop (tl s3)
               in Some (body, if prefix '']'' rest then tl rest else rest))
         else None))"

lemma match_source_length: "match_source s = Some (b, r) \<Longrightarrow> length r < length s"
proof -
  assume m: "match_source s = Some (b, r)"
  then obtain c s1 where s: "s = c # s1" by (auto simp: match_source_def split: list.splits)
  let ?s3 = "dropWhile is_space (drop 6 (dropWhile is_space s1))"
  have "length (tl ?s3) \<le> length s1"
    using length_dropWhile_le [of is_space "drop 6 (dropWhile is_space s1)"] length_dropWhile_le [of is_space s1]
    by simp
  moreover have "length r \<le> length (tl ?s3)"
    using m s length_dropWhile_le [of "\<lambda>x. x \<noteq> CHR '']'' \<and> x \<noteq> CHR ''\<newline>''" "tl ?s3"]
    by (auto simp: match_source_def Let_def split: if_splits)
  ultimately show ?thesis using s by simp
qed

function source_bodies :: "string \<Rightarrow> string list" where
  "source_bodies [] = []"
| "source_bodies (c # cs) =
    (case match_source (c # cs) of
       Some (b, r) \<Rightarrow> b # source_bodies r
     | None \<Rightarrow> source_bodies cs)"
  by pat_completeness auto
termination
  by (relation "measure length") (auto dest: match_source_length)

definition MAX_BODY :: nat where "MAX_BODY = 4096"

text \<open>\<open>/^\s*source\s*:/i\<close>: what follows it, if it matches.\<close>

definition after_source :: "string \<Rightarrow> string option" where
  "after_source f =
    (let s2 = dropWhile is_space f; s3 = dropWhile is_space (drop 6 s2)
     in if prefix ''source'' (js_lower s2) \<and> prefix '':'' s3 then Some (tl s3) else None)"

definition strip_source :: "string \<Rightarrow> string" where
  "strip_source raw = (case after_source raw of None \<Rightarrow> raw | Some r \<Rightarrow> dropWhile is_space r)"

text \<open>A group is the list as written and its tokens.\<close>

type_synonym group = "string \<times> string list"

definition list_group :: "string \<Rightarrow> group" where
  "list_group raw =
    (let l = strip_source raw
     in (clean l, filter (\<lambda>p. p \<noteq> []) (map clean (split_outside l list_sep))))"

definition clause_lists :: "string \<Rightarrow> string list" where
  "clause_lists clause =
    (let fields = split_outside clause (char_sep CHR ''|'')
     in hd fields # filter (\<lambda>f. after_source f \<noteq> None) (tl fields))"

definition extract_source_groups :: "string \<Rightarrow> group list" where
  "extract_source_groups ans =
    concat (map (\<lambda>body. concat (map (\<lambda>clause. map list_group (clause_lists clause))
      (split_outside (take MAX_BODY body) (char_sep CHR '';'')))) (source_bodies ans))"

subsection \<open>The check\<close>

definition name_match :: "string \<Rightarrow> string \<Rightarrow> bool" where
  "name_match r n \<longleftrightarrow> r = n \<or> suffix (CHR ''/'' # n) r"

definition was_read :: "string list \<Rightarrow> string \<Rightarrow> bool" where
  "was_read reads cited =
    (let rs = map norm_name reads; n = norm_name cited in
     list_ex (\<lambda>r. name_match r n) rs \<or>
     (case figure_key n of
        None \<Rightarrow> False
      | Some key \<Rightarrow> list_ex (\<lambda>rk. name_match rk key) (List.map_filter figure_key rs)))"

fun flag_parts :: "string list \<Rightarrow> string list \<Rightarrow> string list \<Rightarrow> string list" where
  "flag_parts reads [] acc = acc"
| "flag_parts reads (p # ps) acc =
    flag_parts reads ps (if looks_like_file p \<and> \<not> was_read reads p \<and> p \<notin> set acc then acc @ [p] else acc)"

definition excused :: "string list \<Rightarrow> group \<Rightarrow> bool" where
  "excused reads g \<longleftrightarrow> length (snd g) > 1 \<and> looks_like_file (fst g) \<and> was_read reads (fst g)"

fun flag_groups :: "string list \<Rightarrow> group list \<Rightarrow> string list \<Rightarrow> string list" where
  "flag_groups reads [] acc = acc"
| "flag_groups reads (g # gs) acc =
    flag_groups reads gs (if excused reads g then acc else flag_parts reads (snd g) acc)"

definition find_fabricated :: "string \<Rightarrow> string list \<Rightarrow> string list" where
  "find_fabricated ans reads = (if ans = [] then [] else flag_groups reads (extract_source_groups ans) [])"

subsection \<open>Lemmas\<close>

lemma flag_parts_set:
  "set (flag_parts reads ps acc) = set acc \<union> {p \<in> set ps. looks_like_file p \<and> \<not> was_read reads p}"
  by (induction ps arbitrary: acc) auto

lemma flag_parts_distinct: "distinct acc \<Longrightarrow> distinct (flag_parts reads ps acc)"
  by (induction ps arbitrary: acc) auto

lemma flag_groups_set:
  "set (flag_groups reads gs acc) = set acc \<union>
     {p. \<exists>g \<in> set gs. \<not> excused reads g \<and> p \<in> set (snd g) \<and> looks_like_file p \<and> \<not> was_read reads p}"
  by (induction gs arbitrary: acc) (auto simp: flag_parts_set)

lemma flag_groups_distinct: "distinct acc \<Longrightarrow> distinct (flag_groups reads gs acc)"
  by (induction gs arbitrary: acc) (auto simp: flag_parts_distinct)

lemma was_read_mono: "set reads \<subseteq> set reads' \<Longrightarrow> was_read reads c \<Longrightarrow> was_read reads' c"
  by (fastforce simp: was_read_def Let_def list_ex_iff map_filter_def split: option.splits)

lemma excused_mono: "set reads \<subseteq> set reads' \<Longrightarrow> excused reads g \<Longrightarrow> excused reads' g"
  by (auto simp: excused_def intro: was_read_mono)

lemma quoted_length [simp]: "length (quoted s) = length s"
proof (induction s rule: quoted.induct)
  case (2 c cs)
  show ?case
  proof (cases "quote_mark c \<and> cut_at c cs \<noteq> None")
    case True
    then obtain a b where "cut_at c cs = Some (a, b)" by auto
    then have "cs = a @ c # b" and "length (quoted b) = length b" using cut_at_Some 2 True by blast+
    then show ?thesis using \<open>cut_at c cs = Some (a, b)\<close> True by simp
  next
    case False
    then have "\<not> quote_mark c \<or> cut_at c cs = None" by blast
    then show ?thesis using 2 by auto
  qed
qed simp

lemma split_from_nonempty [simp]: "split_from sep cur xs \<noteq> []"
  by (induction sep cur xs rule: split_from.induct) auto

lemma js_join_Cons: "ps \<noteq> [] \<Longrightarrow> js_join sep (p # ps) = p @ sep @ js_join sep ps"
  by (cases ps) auto

lemma split_from_char_join:
  "js_join [c] (split_from (char_sep c) cur xs) = rev cur @ map fst xs"
proof (induction "char_sep c" cur xs rule: split_from.induct)
  case (2 cur x q xs)
  then show ?case by (auto simp: char_sep_def js_join_Cons)
qed simp

lemma quoted_plain: "\<forall>c \<in> set s. \<not> quote_mark c \<Longrightarrow> quoted s = replicate (length s) False"
  by (induction s) auto

lemma split_from_plain:
  "(\<And>ys zs. map fst xs = ys @ zs \<Longrightarrow> zs \<noteq> [] \<Longrightarrow> sep zs = 0) \<Longrightarrow> split_from sep cur xs = [rev cur @ map fst xs]"
proof (induction sep cur xs rule: split_from.induct)
  case (2 sep cur c q xs)
  have "sep (c # map fst xs) = 0" using 2(3) [of "[]" "c # map fst xs"] by simp
  moreover have "split_from sep (c # cur) xs = [rev (c # cur) @ map fst xs]"
  proof (rule 2(2))
    show "\<not> (\<not> q \<and> 0 < sep (c # map fst xs))" using calculation by simp
    fix ys zs
    assume "map fst xs = ys @ zs" "zs \<noteq> []"
    then show "sep zs = 0" using 2(3) [of "c # ys" zs] by simp
  qed
  ultimately show ?case by simp
qed simp

lemma split_outside_plain:
  "(\<And>ys zs. s = ys @ zs \<Longrightarrow> zs \<noteq> [] \<Longrightarrow> sep zs = 0) \<Longrightarrow> split_outside s sep = [s]"
  using split_from_plain [of "zip s (quoted s)" sep "[]"] by (simp add: split_outside_def)

lemma char_sep_absent: "c \<notin> set zs \<Longrightarrow> char_sep c zs = 0"
  by (cases zs) (auto simp: char_sep_def)

lemma split_outside_absent: "c \<notin> set s \<Longrightarrow> split_outside s (char_sep c) = [s]"
  by (rule split_outside_plain) (auto intro: char_sep_absent)

lemma split_from_at:
  "c \<notin> set (map fst xs) \<Longrightarrow> split_from (char_sep c) cur (xs @ (c, False) # ys) =
     (rev cur @ map fst xs) # split_from (char_sep c) [] ys"
proof (induction xs arbitrary: cur)
  case Nil
  then show ?case by (simp add: char_sep_def)
next
  case (Cons x xs)
  obtain a q where x: "x = (a, q)" by (cases x)
  with Cons.prems have "a \<noteq> c" "c \<notin> set (map fst xs)" by auto
  moreover from this(1) have "char_sep c (a # zs) = 0" for zs by (simp add: char_sep_def)
  ultimately show ?case using Cons.IH [of "a # cur"] x by simp
qed

lemma split_outside_at:
  assumes "c \<notin> set f" "\<forall>x \<in> set (f @ c # q). \<not> quote_mark x"
  shows "split_outside (f @ c # q) (char_sep c) = f # split_outside q (char_sep c)"
proof -
  have "zip (f @ c # q) (quoted (f @ c # q)) = zip f (replicate (length f) False) @ (c, False) # zip q (quoted q)"
  proof -
    have "quoted (f @ c # q) = replicate (length f) False @ False # replicate (length q) False"
      by (simp only: quoted_plain [OF assms(2)] length_append list.size replicate_add)
        (simp add: replicate_append_same)
    moreover have "quoted q = replicate (length q) False" using assms(2) by (intro quoted_plain) auto
    ultimately show ?thesis by simp
  qed
  then show ?thesis using assms(1) split_from_at [of c "zip f (replicate (length f) False)" "[]"]
    by (simp add: split_outside_def)
qed

subsection \<open>A plainly written citation\<close>

text \<open>A path of letters, digits and \<open>_ . - /\<close>, as the citation grammar of the prompts has it.\<close>

definition path_char :: "char \<Rightarrow> bool" where
  "path_char c \<longleftrightarrow> is_alnum c \<or> c \<in> {CHR ''_'', CHR ''.'', CHR ''-'', CHR ''/''}"

definition plain_path :: "string \<Rightarrow> bool" where
  "plain_path f \<longleftrightarrow> f \<noteq> [] \<and> list_all path_char f \<and> js_lower f \<noteq> ''and''"

text \<open>A qualifier field without bracket, separator or quote that does not open another list.\<close>

definition plain_qualifier :: "string \<Rightarrow> bool" where
  "plain_qualifier q \<longleftrightarrow> (\<forall>c \<in> set q. \<not> quote_mark c \<and> c \<notin> {CHR ''|'', CHR '';'', CHR '']'', CHR ''\<newline>''}) \<and>
     after_source q = None"

lemma path_char_facts:
  "path_char c \<Longrightarrow> \<not> is_space c \<and> \<not> quote_mark c \<and> \<not> lead_quote c \<and> \<not> trail_quote c \<and>
     c \<notin> {CHR ''|'', CHR '';'', CHR '']'', CHR ''\<newline>'', CHR '','', CHR '':'', CHR ''&'', CHR ''+'', CHR ''[''}"
  by (auto simp: path_char_def char_class_defs quote_mark_def lead_quote_def trail_quote_def)

lemma clean_plain:
  assumes "plain_path f" "list_all is_space ws"
  shows "clean ('' '' @ f @ ws) = f"
proof -
  have f: "f \<noteq> []" "path_char (hd f)" "path_char (last f)"
    using assms by (auto simp: plain_path_def list_all_iff)
  have "dropWhile is_space (rev ws @ rev f) = rev f"
  proof -
    have "dropWhile is_space (rev ws @ rev f) = dropWhile is_space (rev f)"
      using assms(2) by (intro dropWhile_append2) (simp add: list_all_iff)
    also have "\<dots> = rev f"
      using f path_char_facts by (simp add: dropWhile_eq_self_iff [THEN iffD2] hd_rev)
    finally show ?thesis .
  qed
  moreover have "dropWhile is_space ('' '' @ f @ ws) = f @ ws"
    using f path_char_facts by (cases f) (auto simp: is_space_def)
  ultimately have t: "js_trim ('' '' @ f @ ws) = f" by (simp add: js_trim_def)
  have "dropWhile lead_quote f = f" "dropWhile trail_quote (rev f) = rev f"
    using f path_char_facts by (simp_all add: dropWhile_eq_self_iff [THEN iffD2] hd_rev)
  moreover have "js_trim f = f" using f path_char_facts by (intro js_trim_id) auto
  ultimately show ?thesis unfolding clean_def t by simp
qed

lemma after_source_plain:
  assumes "plain_path f" "list_all is_space ws"
  shows "after_source ('' '' @ f @ ws) = None"
proof -
  have "dropWhile is_space ('' '' @ f @ ws) = f @ ws"
    using assms(1) path_char_facts by (cases f) (auto simp: is_space_def plain_path_def)
  moreover have "CHR '':'' \<notin> set (f @ ws)"
    using assms path_char_facts by (fastforce simp: plain_path_def list_all_iff is_space_def)
  then have "\<not> prefix '':'' (dropWhile is_space (drop 6 (f @ ws)))"
    by (metis in_set_dropD list.set_intros(1) prefix_def set_dropWhileD append_Cons)
  ultimately show ?thesis by (simp add: after_source_def)
qed

lemma no_and_after:
  assumes "plain_path f" "list_all is_space ws" "prefix ''and'' (js_lower (f @ ws))"
  shows "takeWhile is_space (drop 3 (f @ ws)) = []"
proof -
  have fc: "\<And>c. c \<in> set f \<Longrightarrow> path_char c" and noand: "js_lower f \<noteq> ''and''"
    using assms(1) by (auto simp: plain_path_def list_all_iff)
  have l: "length f + length ws \<ge> 3" using prefix_length_le [OF assms(3)] by (simp add: js_lower_def)
  have "length f > 3"
  proof (rule ccontr)
    assume "\<not> length f > 3"
    then consider "length f = 3" | "length f < 3" by linarith
    then show False
    proof cases
      case 1
      then obtain c d e where "f = [c, d, e]" by (auto simp: numeral_3_eq_3 length_Suc_conv)
      then show False using assms(3) noand by (simp add: js_lower_def)
    next
      case 2
      with l obtain w ws' where w: "ws = w # ws'" by (cases ws) auto
      then have "is_space w" using assms(2) by simp
      moreover from 2 consider "f = []" | c where "f = [c]" | c d where "f = [c, d]"
        by (cases f; cases "tl f"; auto)
      then have "lower_char w \<in> set ''and''" by cases (use assms(3) w in \<open>auto simp: js_lower_def\<close>)
      ultimately show False by (auto simp: is_space_def lower_char_def Let_def split: if_splits)
    qed
  qed
  then have "drop 3 f \<noteq> []" by simp
  then have "\<not> is_space (hd (drop 3 f))" using fc path_char_facts by (metis hd_in_set in_set_dropD)
  then show ?thesis using \<open>drop 3 f \<noteq> []\<close> by (cases "drop 3 f") auto
qed

lemma dropWhile_spaces: "list_all is_space xs \<Longrightarrow> dropWhile is_space xs = []"
  by (simp add: list_all_iff)

lemma list_sep_plain:
  assumes "plain_path f" "list_all is_space ws" "'' '' @ f @ ws = ys @ zs" "zs \<noteq> []"
  shows "list_sep zs = 0"
proof -
  have fc: "\<And>c. c \<in> set f \<Longrightarrow> path_char c" and ne: "f \<noteq> []"
    using assms(1) by (auto simp: plain_path_def list_all_iff)
  have wsc: "\<And>c. c \<in> set ws \<Longrightarrow> is_space c" using assms(2) by (simp add: list_all_iff)
  have comma: "CHR '','' \<notin> set ws" using wsc [of "CHR '',''"] by (auto simp: is_space_def)
  consider (front) "ys = []" "zs = '' '' @ f @ ws" | (mid) c cs where "zs = c # cs" "path_char c"
    | (rear) "list_all is_space zs" "CHR '','' \<notin> set zs"
  proof (cases ys)
    case Nil
    then show ?thesis using assms(3) front by simp
  next
    case (Cons y ys')
    then have e: "f @ ws = ys' @ zs" using assms(3) by simp
    then obtain us where "(f = ys' @ us \<and> us @ ws = zs) \<or> (f @ us = ys' \<and> ws = us @ zs)"
      using append_eq_append_conv2 [THEN iffD1] by metis
    then show ?thesis
    proof (elim disjE conjE)
      assume u: "f = ys' @ us" "us @ ws = zs"
      show ?thesis
      proof (cases us)
        case Nil
        then have "zs = ws" using u by simp
        then show ?thesis using assms(2) comma rear by simp
      next
        case (Cons c cs)
        then show ?thesis using u fc mid by auto
      qed
    next
      assume "ws = us @ zs"
      then show ?thesis using wsc comma rear by (auto simp: list_all_iff)
    qed
  qed
  then show ?thesis
  proof cases
    case front
    have "\<not> is_space (hd f)" using fc ne path_char_facts by (metis hd_in_set)
    then have tw: "takeWhile is_space zs = '' ''" "dropWhile is_space zs = f @ ws"
      using front ne by (cases f; simp add: is_space_def)+
    have nopref: "\<not> prefix ''&'' (f @ ws)" "\<not> prefix ''+'' (f @ ws)"
      using fc ne path_char_facts by (cases f; fastforce)+
    have "prefix ''and'' (js_lower (f @ ws)) \<Longrightarrow> takeWhile is_space (drop 3 (f @ ws)) = []"
      using no_and_after [OF assms(1,2)] .
    then show ?thesis using tw nopref front by (auto simp: list_sep_def Let_def split: list.splits)
  next
    case (mid c cs)
    then show ?thesis using path_char_facts [of c] by (simp add: list_sep_def)
  next
    case rear
    then show ?thesis using assms(4)
      by (cases zs) (auto simp: list_sep_def js_lower_def Let_def dropWhile_spaces)
  qed
qed

text \<open>A bracket in the prompts' grammar: a file, and possibly a qualifier field.\<close>

definition cite :: "string \<Rightarrow> string option \<Rightarrow> string" where
  "cite f q = '' '' @ f @ (case q of None \<Rightarrow> [] | Some x \<Rightarrow> '' |'' @ x)"

lemma list_group_plain:
  assumes "plain_path f" "list_all is_space ws"
  shows "list_group ('' '' @ f @ ws) = (f, [f])"
proof -
  have "strip_source ('' '' @ f @ ws) = '' '' @ f @ ws"
    by (simp only: strip_source_def after_source_plain [OF assms] option.case)
  moreover have "split_outside ('' '' @ f @ ws) list_sep = ['' '' @ f @ ws]"
    by (rule split_outside_plain) (rule list_sep_plain [OF assms])
  moreover have "f \<noteq> []" using assms(1) by (simp add: plain_path_def)
  ultimately show ?thesis
    by (simp only: list_group_def Let_def list.map clean_plain [OF assms] filter.simps) simp
qed

lemma clause_lists_cite:
  assumes "plain_path f" "\<forall>x. q = Some x \<longrightarrow> plain_qualifier x"
  shows "map list_group (clause_lists (cite f q)) = [(f, [f])]"
proof -
  have f: "\<forall>c \<in> set f. \<not> quote_mark c" "CHR ''|'' \<notin> set f"
    using assms(1) path_char_facts by (auto simp: plain_path_def list_all_iff)
  show ?thesis
  proof (cases q)
    case None
    have "split_outside ('' '' @ f) (char_sep CHR ''|'') = ['' '' @ f]"
      using f by (intro split_outside_absent) simp
    then show ?thesis
      using None list_group_plain [OF assms(1), of "[]"] by (simp add: clause_lists_def cite_def)
  next
    case (Some x)
    then have x: "\<forall>c \<in> set x. \<not> quote_mark c" "CHR ''|'' \<notin> set x" "after_source x = None"
      using assms(2) by (auto simp: plain_qualifier_def)
    have "split_outside (('' '' @ f @ '' '') @ CHR ''|'' # x) (char_sep CHR ''|'') =
        ('' '' @ f @ '' '') # split_outside x (char_sep CHR ''|'')"
      using f x by (intro split_outside_at) (auto simp: quote_mark_def)
    also have "split_outside x (char_sep CHR ''|'') = [x]" using x by (intro split_outside_absent)
    finally show ?thesis
      using Some x list_group_plain [OF assms(1), of "'' ''"]
      by (simp add: clause_lists_def cite_def is_space_def)
  qed
qed

lemma cite_free:
  assumes "plain_path f" "\<forall>x. q = Some x \<longrightarrow> plain_qualifier x"
  shows "set (cite f q) \<inter> {CHR '';'', CHR '']'', CHR ''\<newline>''} = {}"
proof -
  have "set f \<inter> {CHR '';'', CHR '']'', CHR ''\<newline>''} = {}"
    using assms(1) path_char_facts by (auto simp: plain_path_def list_all_iff)
  moreover have "set x \<inter> {CHR '';'', CHR '']'', CHR ''\<newline>''} = {}" if "q = Some x" for x
    using assms(2) that by (auto simp: plain_qualifier_def)
  ultimately show ?thesis by (cases q) (simp_all add: cite_def)
qed

lemma match_source_cite:
  assumes "set body \<inter> {CHR '']'', CHR ''\<newline>''} = {}"
  shows "match_source (''[source:'' @ body @ '']'' @ post) = Some (body, post)"
proof -
  let ?stop = "\<lambda>x. x \<noteq> CHR '']'' \<and> x \<noteq> CHR ''\<newline>''"
  have "takeWhile ?stop (body @ CHR '']'' # post) = body" "dropWhile ?stop (body @ CHR '']'' # post) = CHR '']'' # post"
    using assms by (subst takeWhile_append2 dropWhile_append2; auto)+
  then show ?thesis by (simp add: match_source_def is_space_def js_lower_def lower_char_def char_of_eq_iff)
qed

lemma source_bodies_skip: "CHR ''['' \<notin> set pre \<Longrightarrow> source_bodies (pre @ s) = source_bodies s"
  by (induction pre) (auto simp: match_source_def)

lemma source_bodies_cite:
  assumes "CHR ''['' \<notin> set pre" "set body \<inter> {CHR '']'', CHR ''\<newline>''} = {}"
  shows "source_bodies (pre @ ''[source:'' @ body @ '']'' @ post) = body # source_bodies post"
  using source_bodies_skip [OF assms(1)] match_source_cite [OF assms(2), of post] by simp

lemma flagged_single:
  assumes "(f, [f]) \<in> set (extract_source_groups ans)" "ans \<noteq> []" "looks_like_file f"
  shows "f \<in> set (find_fabricated ans reads) \<longleftrightarrow> \<not> was_read reads f"
proof -
  have "\<not> excused reads (f, [f])" by (simp add: excused_def)
  then show ?thesis using assms by (auto simp: find_fabricated_def flag_groups_set intro!: bexI [of _ "(f, [f])"])
qed

subsection \<open>Properties\<close>

text \<open>The guard reports exactly the cited tokens that look like files and were not read, each once; a
  bracket whose whole list is the name of one file that was read reports nothing.\<close>

theorem fabricated_exact:
  "distinct (find_fabricated ans reads) \<and>
   set (find_fabricated ans reads) =
     {p. ans \<noteq> [] \<and> (\<exists>g \<in> set (extract_source_groups ans). \<not> excused reads g \<and> p \<in> set (snd g) \<and>
        looks_like_file p \<and> \<not> was_read reads p)}"
  by (simp add: find_fabricated_def flag_groups_set flag_groups_distinct)

text \<open>Reading more files never adds a report: the correction turn can only shrink the list.\<close>

theorem fabricated_antimono:
  assumes "set reads \<subseteq> set reads'"
  shows "set (find_fabricated ans reads') \<subseteq> set (find_fabricated ans reads)"
  using was_read_mono [OF assms] excused_mono [OF assms]
  by (auto simp: find_fabricated_def flag_groups_set)

text \<open>A file cited in the prompts' grammar, \<open>[source: file]\<close> or \<open>[source: file | qualifier]\<close>, anywhere
  after bracket-free text, is reported if and only if it was not read.\<close>

theorem plain_citation_caught:
  assumes "plain_path f" and "looks_like_file f" and "\<forall>x. q = Some x \<longrightarrow> plain_qualifier x"
    and "length (cite f q) \<le> 4096" and "CHR ''['' \<notin> set pre"
  shows "f \<in> set (find_fabricated (pre @ ''[source:'' @ cite f q @ '']'' @ post) reads) \<longleftrightarrow> \<not> was_read reads f"
proof -
  have free: "set (cite f q) \<inter> {CHR '']'', CHR ''\<newline>''} = {}" "CHR '';'' \<notin> set (cite f q)"
    using cite_free [OF assms(1,3)] by auto
  have "split_outside (take MAX_BODY (cite f q)) (char_sep CHR '';'') = [cite f q]"
    using assms(4) free(2) by (simp add: MAX_BODY_def split_outside_absent)
  then have "(f, [f]) \<in> set (extract_source_groups (pre @ ''[source:'' @ cite f q @ '']'' @ post))"
    unfolding extract_source_groups_def source_bodies_cite [OF assms(5) free(1)]
    using clause_lists_cite [OF assms(1,3)] by simp
  then show ?thesis by (rule flagged_single [OF _ _ assms(2)]) simp
qed

theorem plain_citation_caught_witness:
  "''a.md'' \<in> set (find_fabricated (''See '' @ ''[source:'' @ cite ''a.md'' (Some '' p:3'') @ '']'' @ []) [''/w/b.md''])"
proof -
  have low: "js_lower ''a.md'' = ''a.md''" by (simp add: js_lower_def lower_char_def)
  have "norm_name ''a.md'' = ''a.md''" "norm_name ''/w/b.md'' = ''w/b.md''"
    by (simp_all add: norm_name_def strip_lead_def js_trim_def is_space_def js_lower_def lower_char_def)
  moreover have "figure_key ''a.md'' = None"
    by (simp add: figure_key_def figure_id_def strip_member_def member_suffixes_def low suffix_to_prefix)
  ultimately have nr: "\<not> was_read [''/w/b.md''] ''a.md''"
    by (simp add: was_read_def name_match_def suffix_to_prefix)
  have p: "plain_path ''a.md''" by (simp add: plain_path_def low path_char_def char_class_defs)
  have l: "looks_like_file ''a.md''"
    by (simp add: looks_like_file_def is_web_def low ends_with_any_def file_exts_def suffix_to_prefix)
  have q: "\<forall>x. Some '' p:3'' = Some x \<longrightarrow> plain_qualifier x"
    by (simp add: plain_qualifier_def quote_mark_def after_source_def is_space_def js_lower_def lower_char_def)
  show ?thesis
    by (rule plain_citation_caught [OF p l q, THEN iffD2, OF _ _ nr]) (simp_all add: cite_def)
qed

theorem fabricated_antimono_witness:
  "set (find_fabricated ''[source: b.md]'' [''/w/a.md'', ''/w/b.md'']) \<subseteq>
   set (find_fabricated ''[source: b.md]'' [''/w/a.md''])"
  by (rule fabricated_antimono) simp

end
