(* ===== verification/Session_Log.thy ===== *)
theory Session_Log
  imports Prelude
begin

text \<open>
  The durable per-session event log (runtime/lib/session-log.js). Files are byte strings, events are their
  NDJSON lines: \<open>ev_body\<close> is the JSON text after \<open>"kind":"\<close>, as \<open>JSON.stringify\<close> writes it. The write queue is a
  list of tasks that run one after the other; an input/output outcome tells how each ended. The ring, the
  counters and the on-disk meta.json are the code's own. \<open>JSON.parse\<close> of a line is a parameter.
\<close>

definition RING :: nat where "RING = 256"
definition RING_BYTES :: nat where "RING_BYTES = 8 * 1024 * 1024"
definition TAIL_CHUNK :: nat where "TAIL_CHUNK = 64 * 1024"
definition ROTATE_BYTES :: nat where "ROTATE_BYTES = 64 * 1024 * 1024"

abbreviation nl :: char where "nl \<equiv> CHR ''\<newline>''"

subsection \<open>Lines\<close>

record event =
  ev_seq :: nat
  ev_ts :: nat
  ev_body :: string

definition text_of :: "event \<Rightarrow> string" where
  "text_of e = ''{\"seq\":'' @ dec_nat (ev_seq e) @ '',\"ts\":'' @ dec_nat (ev_ts e) @ '',\"kind\":\"'' @ ev_body e"

definition line_of :: "event \<Rightarrow> string" where
  "line_of e = text_of e @ [nl]"

definition strip_pre :: "string \<Rightarrow> string \<Rightarrow> string option" where
  "strip_pre p s = (if prefix p s then Some (drop (length p) s) else None)"

text \<open>\<open>\d+\<close> at the start, and what follows.\<close>

definition digits_then :: "string \<Rightarrow> (string \<times> string) option" where
  "digits_then s = (if takeWhile is_digit s = [] then None else Some (takeWhile is_digit s, dropWhile is_digit s))"

definition line_prefix :: "string \<Rightarrow> nat option" where
  "line_prefix s =
     Option.bind (strip_pre ''{\"seq\":'' s) (\<lambda>r.
     Option.bind (digits_then r) (\<lambda>(ds, r2).
     Option.bind (strip_pre '',\"ts\":'' r2) (\<lambda>r3.
     Option.bind (digits_then r3) (\<lambda>(_, r4).
     Option.bind (strip_pre '',\"kind\":\"'' r4) (\<lambda>_. Some (parse_dec ds))))))"

subsection \<open>Reading a file from its end\<close>

fun last_pos :: "char \<Rightarrow> string \<Rightarrow> nat option" where
  "last_pos c [] = None"
| "last_pos c (x # xs) =
     (case last_pos c xs of Some i \<Rightarrow> Some (Suc i) | None \<Rightarrow> if x = c then Some 0 else None)"

text \<open>\<open>lastIndexOfByte\<close>: chunk by chunk, backwards.\<close>

function last_index_of_byte :: "string \<Rightarrow> char \<Rightarrow> nat \<Rightarrow> nat option" where
  "last_index_of_byte s c e =
    (if e = 0 then None
     else (case last_pos c (take (e - (e - TAIL_CHUNK)) (drop (e - TAIL_CHUNK) s)) of
             Some i \<Rightarrow> Some (e - TAIL_CHUNK + i)
           | None \<Rightarrow> last_index_of_byte s c (e - TAIL_CHUNK)))"
  by pat_completeness auto
termination by (relation "measure (\<lambda>(s, c, e). e)") (auto simp: TAIL_CHUNK_def)

declare last_index_of_byte.simps [simp del]

definition last_nl :: "string \<Rightarrow> nat \<Rightarrow> int" where
  "last_nl s e = (case last_index_of_byte s nl e of Some i \<Rightarrow> int i | None \<Rightarrow> - 1)"

definition seq_at :: "string \<Rightarrow> nat \<Rightarrow> nat \<Rightarrow> nat option" where
  "seq_at s from to = (let head = take (min 128 (to - from)) (drop from s) in
     if head = [] then None else line_prefix head)"

text \<open>The last seq: at most \<open>tries\<close> lines back from the line that ends at \<open>e\<close>.\<close>

fun seq_back :: "nat \<Rightarrow> string \<Rightarrow> int \<Rightarrow> nat" where
  "seq_back 0 s e = 0"
| "seq_back (Suc tries) s e =
    (if e \<le> 0 then 0
     else (let prev = last_nl s (nat e);
               q = (case seq_at s (nat (prev + 1)) (nat e) of Some n \<Rightarrow> n | None \<Rightarrow> 0)
           in if q \<noteq> 0 then q else seq_back tries s prev))"

definition first_index_of_newline :: "string \<Rightarrow> nat \<Rightarrow> nat option" where
  "first_index_of_newline s sz =
     (case cut_at nl (take (min TAIL_CHUNK sz) s) of Some (a, _) \<Rightarrow> Some (length a) | None \<Rightarrow> None)"

record inspection =
  in_size :: nat
  in_seq :: nat
  in_first :: "nat option"

definition inspect_file :: "bool \<Rightarrow> string option \<Rightarrow> inspection \<times> string option" where
  "inspect_file repair file =
    (case file of
       None \<Rightarrow> (\<lparr>in_size = 0, in_seq = 0, in_first = None\<rparr>, None)
     | Some s \<Rightarrow>
        (let sz = nat (last_nl s (length s) + 1);
             s' = (if sz < length s \<and> repair then take sz s else s);
             sq = seq_back 16 s' (int sz - 1);
             first = (if sz = 0 then None
                      else seq_at s' 0 (case first_index_of_newline s' sz of None \<Rightarrow> sz | Some i \<Rightarrow> i))
         in (\<lparr>in_size = sz, in_seq = sq, in_first = first\<rparr>, Some s')))"

subsection \<open>The log\<close>

datatype log_task =
    WriteEvent event bool
  | TakeSnapshot nat
  | WriteMeta

record slog =
  last_seq :: nat
  written_seq :: nat
  first_seq :: nat
  truncated :: bool
  ring :: "(event \<times> nat) list"
  ring_bytes :: nat
  file_bytes :: nat
  cur_file :: "string option"
  old_file :: "string option"
  disk_meta :: "(nat \<times> nat \<times> bool) option" \<comment> \<open>\<open>lastSeq\<close>, \<open>firstSeq\<close>, \<open>truncated\<close> of meta.json\<close>
  tasks :: "log_task list"
  log_closed :: bool

record snapshot =
  sn_until :: nat
  sn_first :: nat
  sn_ring :: "event list"
  sn_files :: "string list"

datatype log_out =
    Appended nat
  | AppendFailed nat
  | AppendRefused
  | Snapped nat snapshot

definition new_log :: "(nat \<times> nat \<times> bool) option \<Rightarrow> string option \<Rightarrow> string option \<Rightarrow> slog" where
  "new_log meta cur old =
    (let lst = (case meta of Some (l, _, _) \<Rightarrow> l | None \<Rightarrow> 0) in
     \<lparr>last_seq = lst, written_seq = lst, first_seq = (case meta of Some (_, f, _) \<Rightarrow> f | None \<Rightarrow> 1),
      truncated = (case meta of Some (_, _, t) \<Rightarrow> t | None \<Rightarrow> False), ring = [], ring_bytes = 0, file_bytes = 0,
      cur_file = cur, old_file = old, disk_meta = meta, tasks = [], log_closed = False\<rparr>)"

definition recover :: "slog \<Rightarrow> slog \<times> bool" where
  "recover s =
    (case inspect_file True (cur_file s) of (cur, f) \<Rightarrow>
      (case inspect_file False (old_file s) of (old, _) \<Rightarrow>
        (let on_disk = (if in_seq cur \<noteq> 0 then in_seq cur else in_seq old);
             first = (case in_first old of Some n \<Rightarrow> Some n | None \<Rightarrow> in_first cur);
             lst = max (last_seq s) on_disk
         in (s\<lparr>cur_file := f, file_bytes := in_size cur, last_seq := lst, written_seq := lst,
               first_seq := (case first of Some n \<Rightarrow> n | None \<Rightarrow> lst + 1)\<rparr>,
             on_disk > last_seq s))))"

definition write_meta_now :: "slog \<Rightarrow> slog" where
  "write_meta_now s = s\<lparr>disk_meta := Some (last_seq s, first_seq s, truncated s)\<rparr>"

text \<open>\<open>open\<close> of an existing directory; \<open>extra\<close> tells whether the caller passed meta fields.\<close>

definition open_log :: "bool \<Rightarrow> (nat \<times> nat \<times> bool) option \<Rightarrow> string option \<Rightarrow> string option \<Rightarrow> slog" where
  "open_log extra meta cur old =
    (case recover (new_log meta cur old) of
       (s, behind) \<Rightarrow> if behind \<or> extra \<or> meta = None then s\<lparr>tasks := [WriteMeta]\<rparr> else s)"

text \<open>\<open>#remember\<close> and \<open>#forget\<close>.\<close>

fun ring_trim :: "(event \<times> nat) list \<Rightarrow> nat \<Rightarrow> (event \<times> nat) list \<times> nat" where
  "ring_trim [] b = ([], b)"
| "ring_trim (x # xs) b =
    (if length (x # xs) > RING \<or> (b > RING_BYTES \<and> length (x # xs) > 1) then ring_trim xs (b - snd x) else (x # xs, b))"

definition remember :: "event \<Rightarrow> nat \<Rightarrow> slog \<Rightarrow> slog" where
  "remember e n s = (case ring_trim (ring s @ [(e, n)]) (ring_bytes s + n) of
     (r, b) \<Rightarrow> s\<lparr>ring := r, ring_bytes := b\<rparr>)"

fun ring_forget :: "event \<Rightarrow> (event \<times> nat) list \<Rightarrow> nat \<Rightarrow> (event \<times> nat) list \<times> nat" where
  "ring_forget e [] b = ([], b)"
| "ring_forget e (x # xs) b =
    (if fst x = e then (xs, b - snd x) else (case ring_forget e xs b of (r, b') \<Rightarrow> (x # r, b')))"

definition forget :: "event \<Rightarrow> slog \<Rightarrow> slog" where
  "forget e s = (case ring_forget e (ring s) (ring_bytes s) of (r, b) \<Rightarrow> s\<lparr>ring := r, ring_bytes := b\<rparr>)"

definition append_event :: "nat \<Rightarrow> string \<Rightarrow> bool \<Rightarrow> slog \<Rightarrow> slog \<times> log_out list" where
  "append_event ts body sync s =
    (if log_closed s then (s, [AppendRefused])
     else (let e = \<lparr>ev_seq = last_seq s + 1, ev_ts = ts, ev_body = body\<rparr>;
               s1 = remember e (length (line_of e)) (s\<lparr>last_seq := last_seq s + 1\<rparr>)
           in (s1\<lparr>tasks := tasks s1 @ [WriteEvent e sync]\<rparr>, [])))"

text \<open>How a task's input and output went: the rotation's rename, the number of bytes that reached the file (\<open>None\<close>:
  all of them, and the file was closed), meta.json.\<close>

record log_io =
  io_rename :: bool
  io_write :: "nat option"
  io_meta :: bool

definition rotate_log :: "log_io \<Rightarrow> slog \<Rightarrow> slog \<times> bool" where
  "rotate_log io s =
    (let dropped = (old_file s \<noteq> None);
         s1 = (if io_rename io then s\<lparr>old_file := cur_file s, cur_file := None\<rparr> else s);
         first = (case in_first (fst (inspect_file False (old_file s1))) of Some n \<Rightarrow> n | None \<Rightarrow> written_seq s + 1);
         s2 = s1\<lparr>file_bytes := 0, first_seq := first, truncated := dropped \<or> truncated s\<rparr>
     in if io_meta io then (write_meta_now s2, True) else (s2, False))"

definition append_bytes :: "string \<Rightarrow> slog \<Rightarrow> slog" where
  "append_bytes b s = s\<lparr>cur_file := Some ((case cur_file s of Some c \<Rightarrow> c | None \<Rightarrow> []) @ b)\<rparr>"

definition write_event :: "nat \<Rightarrow> log_io \<Rightarrow> event \<Rightarrow> bool \<Rightarrow> slog \<Rightarrow> slog \<times> log_out list" where
  "write_event limit io e sync s =
    (let n = length (line_of e);
         rot = (if 0 < file_bytes s \<and> file_bytes s + n > limit then rotate_log io s else (s, True));
         s1 = fst rot
     in if \<not> snd rot then (forget e s1, [AppendFailed (ev_seq e)])
        else (case io_write io of
          Some k \<Rightarrow> (forget e (append_bytes (take k (line_of e)) s1), [AppendFailed (ev_seq e)])
        | None \<Rightarrow>
            (let s2 = (append_bytes (line_of e) s1)\<lparr>file_bytes := file_bytes s1 + n, written_seq := ev_seq e\<rparr>
             in if \<not> sync then (s2, [Appended (ev_seq e)])
                else if io_meta io then (write_meta_now s2, [Appended (ev_seq e)])
                else (s2, [AppendFailed (ev_seq e)]))))"

definition take_snapshot :: "slog \<Rightarrow> snapshot" where
  "take_snapshot s = \<lparr>sn_until = written_seq s, sn_first = first_seq s,
     sn_ring = filter (\<lambda>e. first_seq s \<le> ev_seq e \<and> ev_seq e \<le> written_seq s) (map fst (ring s)),
     sn_files = (case old_file s of Some o1 \<Rightarrow> [o1] | None \<Rightarrow> []) @ (case cur_file s of Some c \<Rightarrow> [c] | None \<Rightarrow> [])\<rparr>"

fun run_task :: "nat \<Rightarrow> log_io \<Rightarrow> slog \<Rightarrow> log_task \<Rightarrow> slog \<times> log_out list" where
  "run_task limit io s (WriteEvent e sync) = write_event limit io e sync s"
| "run_task limit io s (TakeSnapshot r) = (s, [Snapped r (take_snapshot s)])"
| "run_task limit io s WriteMeta = (if io_meta io then write_meta_now s else s, [])"

text \<open>The head of the queue runs.\<close>

definition log_goes :: "nat \<Rightarrow> log_io \<Rightarrow> slog \<Rightarrow> slog \<times> log_out list" where
  "log_goes limit io s =
    (case tasks s of [] \<Rightarrow> (s, []) | t # ts \<Rightarrow> run_task limit io (s\<lparr>tasks := ts\<rparr>) t)"

definition log_busy :: "slog \<Rightarrow> bool" where
  "log_busy s \<longleftrightarrow> tasks s \<noteq> []"

subsection \<open>Replay\<close>

text \<open>\<open>readline\<close>: lines end at a line feed or a carriage return; empty ones are skipped.\<close>

fun split_lines :: "string \<Rightarrow> string list" where
  "split_lines [] = [[]]"
| "split_lines (x # xs) =
     (if x = nl \<or> x = CHR 0x0D then [] # split_lines xs
      else (case split_lines xs of [] \<Rightarrow> [[x]] | p # ps \<Rightarrow> (x # p) # ps))"

definition deliver_line :: "(string \<Rightarrow> event option) \<Rightarrow> nat \<Rightarrow> nat \<Rightarrow> string \<Rightarrow> event list" where
  "deliver_line json after until l =
    (case json l of Some e \<Rightarrow> if after < ev_seq e \<and> ev_seq e \<le> until then [e] else [] | None \<Rightarrow> [])"

fun stream_lines :: "(string \<Rightarrow> event option) \<Rightarrow> nat \<Rightarrow> nat \<Rightarrow> string list \<Rightarrow> event list" where
  "stream_lines json after until [] = []"
| "stream_lines json after until (l # ls) =
    (if l = [] then stream_lines json after until ls
     else (case line_prefix (take 64 l) of
       Some q \<Rightarrow> (if q \<le> after then stream_lines json after until ls
                  else if q > until then []
                  else deliver_line json after until l @ stream_lines json after until ls)
     | None \<Rightarrow> deliver_line json after until l @ stream_lines json after until ls))"

text \<open>\<open>replay\<close> on its snapshot; \<open>files\<close> is what the snapshot's handles read, which may have grown since.\<close>

definition replay_events :: "(string \<Rightarrow> event option) \<Rightarrow> nat \<Rightarrow> snapshot \<Rightarrow> string list \<Rightarrow> event list" where
  "replay_events json after sn files =
    (if after \<ge> sn_until sn then []
     else if sn_ring sn \<noteq> [] \<and> ev_seq (hd (sn_ring sn)) \<le> after + 1 then filter (\<lambda>e. ev_seq e > after) (sn_ring sn)
     else concat (map (\<lambda>c. stream_lines json after (sn_until sn) (split_lines c)) files))"

definition replay_truncated :: "nat \<Rightarrow> snapshot \<Rightarrow> bool" where
  "replay_truncated after sn \<longleftrightarrow> after + 1 < sn_first sn \<and> after < sn_until sn"

subsection \<open>Events\<close>

text \<open>\<open>LogCrash k\<close> is the death of the process while the head task writes, \<open>k\<close> bytes in, and the next open.\<close>

datatype log_event =
    Append nat string bool
  | Replay nat
  | PutMeta
  | LogGoes log_io
  | CloseLog
  | LogCrash nat

definition crash_files :: "nat \<Rightarrow> slog \<Rightarrow> slog" where
  "crash_files k s =
    (case tasks s of WriteEvent e _ # _ \<Rightarrow> append_bytes (take k (line_of e)) s | _ \<Rightarrow> s)"

fun log_step :: "nat \<Rightarrow> slog \<Rightarrow> log_event \<Rightarrow> slog \<times> log_out list" where
  "log_step limit s (Append ts body sync) = append_event ts body sync s"
| "log_step limit s (Replay r) = (s\<lparr>tasks := tasks s @ [TakeSnapshot r]\<rparr>, [])"
| "log_step limit s PutMeta = (s\<lparr>tasks := tasks s @ [WriteMeta]\<rparr>, [])"
| "log_step limit s (LogGoes io) = log_goes limit io s"
| "log_step limit s CloseLog = (s\<lparr>log_closed := True\<rparr>, [])"
| "log_step limit s (LogCrash k) =
    (let d = crash_files k s in (open_log False (disk_meta d) (cur_file d) (old_file d), []))"

fun log_run :: "nat \<Rightarrow> slog \<Rightarrow> log_event list \<Rightarrow> slog \<times> log_out list" where
  "log_run limit s [] = (s, [])"
| "log_run limit s (e # es) =
    (case log_step limit s e of (s', o1) \<Rightarrow> (case log_run limit s' es of (s'', o2) \<Rightarrow> (s'', o1 @ o2)))"

end
