(* ===== verification/Log_Facts.thy ===== *)
theory Log_Facts
  imports Session_Log
begin

text \<open>
  Facts and properties of the session log (runtime/lib/session-log.js): the reading of a file from its end,
  the invariant that ties files, ring and counters to the history of written events, across rotations,
  failed writes, crashes and reopenings, and what a replay delivers.
\<close>

subsection \<open>Lines and their prefixes\<close>

definition ev_clean :: "event \<Rightarrow> bool" where
  "ev_clean e \<longleftrightarrow> 1 \<le> ev_seq e \<and> ev_ts e < 10 ^ 16 \<and> nl \<notin> set (ev_body e) \<and> CHR 0x0D \<notin> set (ev_body e)"

definition ev_good :: "event \<Rightarrow> bool" where
  "ev_good e \<longleftrightarrow> ev_clean e \<and> ev_seq e < 10 ^ 16"

definition head_of :: "event \<Rightarrow> string" where
  "head_of e = ''{\"seq\":'' @ dec_nat (ev_seq e) @ '',\"ts\":'' @ dec_nat (ev_ts e) @ '',\"kind\":\"''"

definition lines_of :: "event list \<Rightarrow> string" where
  "lines_of es = concat (map line_of es)"

lemma lines_of_simps [simp]:
  "lines_of [] = []" "lines_of (e # es) = line_of e @ lines_of es" "lines_of (es @ fs) = lines_of es @ lines_of fs"
  by (simp_all add: lines_of_def)

lemma line_of_nonempty [simp]: "line_of e \<noteq> []" "0 < length (line_of e)"
  by (simp_all add: line_of_def)

lemma lines_of_empty [simp]: "lines_of es = [] \<longleftrightarrow> es = []"
  by (cases es) simp_all

lemma text_of_head: "text_of e = head_of e @ ev_body e"
  by (simp add: text_of_def head_of_def)

lemma head_of_length: "ev_good e \<Longrightarrow> length (head_of e) \<le> 64"
  using dec_nat_length [of 16 "ev_seq e"] dec_nat_length [of 16 "ev_ts e"]
  by (simp add: ev_good_def ev_clean_def head_of_def)

lemma strip_pre_append [simp]: "strip_pre p (p @ r) = Some r"
  by (simp add: strip_pre_def)

lemma digits_then_dec: "\<not> is_digit c \<Longrightarrow> digits_then (dec_nat n @ c # r) = Some (dec_nat n, c # r)"
  using dec_nat_digits [of n]
  by (auto simp: digits_then_def takeWhile_append2 dropWhile_append2 list_all_iff)

lemma line_prefix_head: "line_prefix (head_of e @ x) = Some (ev_seq e)"
proof -
  have s: "strip_pre ''{\"seq\":'' (head_of e @ x) =
      Some (dec_nat (ev_seq e) @ CHR '','' # (''\"ts\":'' @ dec_nat (ev_ts e) @ '',\"kind\":\"'' @ x))"
    using strip_pre_append [of "''{\"seq\":''"] by (simp add: head_of_def del: strip_pre_append)
  have t: "strip_pre '',\"ts\":'' (CHR '','' # (''\"ts\":'' @ dec_nat (ev_ts e) @ '',\"kind\":\"'' @ x)) =
      Some (dec_nat (ev_ts e) @ CHR '','' # (''\"kind\":\"'' @ x))"
    using strip_pre_append [of "'',\"ts\":''"] by (simp del: strip_pre_append)
  have k: "strip_pre '',\"kind\":\"'' (CHR '','' # (''\"kind\":\"'' @ x)) = Some x"
    using strip_pre_append [of "'',\"kind\":\"''" x] by (simp del: strip_pre_append)
  have c: "\<not> is_digit CHR '',''" by (simp add: is_digit_def in_range_def)
  show ?thesis
    unfolding line_prefix_def s by (simp only: bind.simps digits_then_dec [OF c] prod.case t k parse_dec_dec_nat)
qed

lemma line_prefix_take: "ev_good e \<Longrightarrow> 64 \<le> n \<Longrightarrow> line_prefix (take n (text_of e @ x)) = Some (ev_seq e)"
  using head_of_length [of e] line_prefix_head by (simp add: text_of_head)

lemma line_prefix_text: "line_prefix (text_of e) = Some (ev_seq e)"
  by (simp add: text_of_head line_prefix_head)

lemma digit_not_nl: "is_digit c \<Longrightarrow> c \<noteq> nl \<and> c \<noteq> CHR 0x0D"
  by (auto simp: is_digit_def in_range_def)

lemma text_of_no_nl: "ev_clean e \<Longrightarrow> nl \<notin> set (text_of e) \<and> CHR 0x0D \<notin> set (text_of e)"
  using dec_nat_digits [of "ev_seq e"] dec_nat_digits [of "ev_ts e"] digit_not_nl
  by (auto simp: text_of_def ev_clean_def list_all_iff)

subsection \<open>Reading from the end\<close>

lemma last_pos_None: "last_pos c s = None \<longleftrightarrow> c \<notin> set s"
  by (induction s) (auto split: option.splits)

lemma last_pos_append: "last_pos c (s @ t) =
   (case last_pos c t of Some i \<Rightarrow> Some (length s + i) | None \<Rightarrow> last_pos c s)"
  by (induction s) (auto split: option.splits)

text \<open>The chunked backward search is the last position.\<close>

lemma last_index_is_last_pos: "e \<le> length s \<Longrightarrow> last_index_of_byte s c e = last_pos c (take e s)"
proof (induction s c e rule: last_index_of_byte.induct)
  case (1 s c e)
  show ?case
  proof (cases "e = 0")
    case True
    then show ?thesis by (simp add: last_index_of_byte.simps)
  next
    case False
    let ?b = "e - TAIL_CHUNK"
    have split: "take e s = take ?b s @ take (e - ?b) (drop ?b s)"
      using take_add [of ?b "e - ?b" s] by simp
    have len: "length (take ?b s) = ?b" using "1.prems" by simp
    have "last_index_of_byte s c e =
        (case last_pos c (take (e - ?b) (drop ?b s)) of Some i \<Rightarrow> Some (?b + i) | None \<Rightarrow> last_index_of_byte s c ?b)"
      using False by (subst last_index_of_byte.simps) simp
    also have "\<dots> = last_pos c (take ?b s @ take (e - ?b) (drop ?b s))"
      unfolding last_pos_append len using "1.IH" [OF False] "1.prems" by (auto split: option.splits)
    finally show ?thesis by (simp only: split)
  qed
qed

lemma last_nl_lines: "list_all ev_clean es \<Longrightarrow> nl \<notin> set t \<Longrightarrow> length (lines_of es @ t) \<le> length s \<Longrightarrow>
   take (length (lines_of es @ t)) s = lines_of es @ t \<Longrightarrow>
   last_nl s (length (lines_of es @ t)) = int (length (lines_of es)) - 1"
proof -
  assume "nl \<notin> set t" "length (lines_of es @ t) \<le> length s" "take (length (lines_of es @ t)) s = lines_of es @ t"
  then have "last_nl s (length (lines_of es @ t)) = (case last_pos nl (lines_of es) of Some i \<Rightarrow> int i | None \<Rightarrow> - 1)"
    by (simp add: last_nl_def last_index_is_last_pos last_pos_append last_pos_None [THEN iffD2])
  moreover have "last_pos nl (lines_of es) = (if es = [] then None else Some (length (lines_of es) - 1))"
    by (induction es rule: rev_induct) (simp_all add: last_pos_append line_of_def)
  moreover have "es \<noteq> [] \<Longrightarrow> 1 \<le> length (lines_of es)" by (cases es) (simp_all add: Suc_le_eq)
  ultimately show ?thesis by (auto simp: of_nat_diff)
qed

lemma seq_at_line: "ev_good e \<Longrightarrow> seq_at (x @ text_of e @ nl # y) (length x) (length x + length (text_of e)) = Some (ev_seq e)"
proof -
  assume g: "ev_good e"
  have "line_prefix (take (min 128 (length (text_of e))) (text_of e)) = Some (ev_seq e)"
    using line_prefix_take [OF g, of 128 "[]"] line_prefix_text by (simp add: min_def)
  moreover have "text_of e \<noteq> []" by (simp add: text_of_def)
  ultimately show ?thesis by (simp add: seq_at_def Let_def min_def)
qed

lemma seq_back_empty: "seq_back n s (- 1) = 0"
  by (cases n) simp_all

definition file_seq :: "event list \<Rightarrow> nat" where
  "file_seq es = (if es = [] then 0 else ev_seq (last es))"

lemma seq_back_found:
  "last_nl s n = int k - 1 \<Longrightarrow> seq_at s k n = Some q \<Longrightarrow> 0 < q \<Longrightarrow> 0 < n \<Longrightarrow> seq_back (Suc tries) s (int n) = q"
  by (simp add: Let_def)

lemma seq_back_lines:
  assumes "list_all ev_good es" "es \<noteq> []"
  shows "seq_back 16 (lines_of es @ t) (int (length (lines_of es)) - 1) = ev_seq (last es)"
proof -
  obtain xs e where es: "es = xs @ [e]" using assms(2) by (metis append_butlast_last_id)
  have g: "ev_good e" "list_all ev_clean xs" "nl \<notin> set (text_of e)"
    using assms(1) text_of_no_nl [of e] by (auto simp: es list_all_iff ev_good_def)
  let ?s = "lines_of es @ t" and ?n = "length (lines_of xs @ text_of e)"
  have s: "?s = lines_of xs @ text_of e @ nl # t" by (simp add: es line_of_def)
  have "take ?n ?s = lines_of xs @ text_of e" "?n \<le> length ?s" by (simp_all add: s)
  then have p: "last_nl ?s ?n = int (length (lines_of xs)) - 1" using last_nl_lines [OF g(2,3), of ?s] by simp
  have q: "seq_at ?s (length (lines_of xs)) ?n = Some (ev_seq e)"
    using seq_at_line [OF g(1), of "lines_of xs" t] by (simp only: s length_append)
  have e: "int (length (lines_of es)) - 1 = int ?n" "0 < ?n" by (simp_all add: es line_of_def text_of_def)
  have "0 < ev_seq e" using g(1) by (simp add: ev_good_def ev_clean_def)
  from seq_back_found [OF p q this e(2), of 15] show ?thesis by (simp add: es line_of_def)
qed

lemma first_of_lines:
  assumes "list_all ev_good es" "es \<noteq> []"
  shows "seq_at (lines_of es @ t) 0 (case first_index_of_newline (lines_of es @ t) (length (lines_of es)) of
      None \<Rightarrow> length (lines_of es) | Some i \<Rightarrow> i) = Some (ev_seq (hd es))"
proof -
  obtain e ys where es: "es = e # ys" using assms(2) by (cases es) auto
  have g: "ev_good e" "nl \<notin> set (text_of e)" using assms(1) text_of_no_nl [of e] by (auto simp: es ev_good_def)
  let ?s = "lines_of es @ t" and ?m = "min TAIL_CHUNK (length (lines_of es))"
  have s: "?s = text_of e @ nl # lines_of ys @ t" by (simp add: es line_of_def)
  show ?thesis
  proof (cases "length (text_of e) < TAIL_CHUNK")
    case True
    then have "take ?m ?s = text_of e @ nl # take (?m - length (text_of e) - 1) (lines_of ys @ t)"
      by (simp add: s es line_of_def take_Cons' min_def)
    then have "first_index_of_newline ?s (length (lines_of es)) = Some (length (text_of e))"
      by (simp add: first_index_of_newline_def cut_at_append g(2))
    then show ?thesis using seq_at_line [OF g(1), of "[]" "lines_of ys @ t"] by (simp add: es line_of_def)
  next
    case False
    then have m: "?m = TAIL_CHUNK" by (simp add: es line_of_def)
    have "take ?m ?s = take ?m (text_of e)" using False by (simp add: m s)
    then have "cut_at nl (take ?m ?s) = None" using g(2) by (auto simp: cut_at_None dest: in_set_takeD)
    then have f: "first_index_of_newline ?s (length (lines_of es)) = None" by (simp add: first_index_of_newline_def)
    have n: "128 \<le> length (text_of e)" "128 \<le> length (lines_of es)"
      using False by (simp_all add: TAIL_CHUNK_def es line_of_def)
    have "take 128 ?s = take 128 (text_of e @ nl # lines_of ys @ t)" by (simp only: s)
    then have "line_prefix (take 128 ?s) = Some (ev_seq e)" using line_prefix_take [OF g(1), of 128] by simp
    moreover have "take 128 ?s \<noteq> []" using n by (auto simp: s)
    ultimately show ?thesis using n by (simp only: f option.case seq_at_def Let_def) (simp add: es min_def)
  qed
qed

text \<open>What \<open>inspectFile\<close> reads off a file of complete lines with a torn tail, and what the repair leaves.\<close>

lemma inspect_lines:
  assumes "list_all ev_good es" "nl \<notin> set t" "t \<noteq> [] \<longrightarrow> rep"
  shows "inspect_file rep (Some (lines_of es @ t)) =
    (\<lparr>in_size = length (lines_of es), in_seq = file_seq es,
      in_first = (if es = [] then None else Some (ev_seq (hd es)))\<rparr>, Some (lines_of es))"
proof -
  have c: "list_all ev_clean es" using assms(1) by (auto simp: list_all_iff ev_good_def)
  have "last_nl (lines_of es @ t) (length (lines_of es @ t)) = int (length (lines_of es)) - 1"
    by (rule last_nl_lines [OF c assms(2)]) simp_all
  then have n: "nat (last_nl (lines_of es @ t) (length (lines_of es @ t)) + 1) = length (lines_of es)" by simp
  have cut: "(if length (lines_of es) < length (lines_of es @ t) \<and> rep then take (length (lines_of es)) (lines_of es @ t)
      else lines_of es @ t) = lines_of es" using assms(3) by auto
  show ?thesis
    unfolding inspect_file_def option.case n Let_def cut
    using seq_back_lines [OF assms(1), of "[]"] first_of_lines [OF assms(1), of "[]"]
    by (auto simp: file_seq_def seq_back_empty)
qed

subsection \<open>The invariant\<close>

fun task_events :: "log_task list \<Rightarrow> event list" where
  "task_events [] = []"
| "task_events (WriteEvent e y # ts) = e # task_events ts"
| "task_events (TakeSnapshot r # ts) = task_events ts"
| "task_events (WriteMeta # ts) = task_events ts"

lemma task_events_append [simp]: "task_events (ts @ us) = task_events ts @ task_events us"
  by (induction ts rule: task_events.induct) simp_all

fun holds_lines :: "string option \<Rightarrow> event list \<Rightarrow> bool" where
  "holds_lines None es = (es = [])"
| "holds_lines (Some c) es = (c = lines_of es)"

text \<open>\<open>D\<close> was dropped by rotations, \<open>P\<close> is in the rotated file, \<open>C\<close> in the current one; the queue holds what is
  still to be written.\<close>

definition log_parts :: "event list \<Rightarrow> event list \<Rightarrow> event list \<Rightarrow> slog \<Rightarrow> bool" where
  "log_parts D P C s \<longleftrightarrow>
     holds_lines (old_file s) P \<and> holds_lines (cur_file s) C \<and> file_bytes s = length (lines_of C) \<and>
     (D \<noteq> [] \<longrightarrow> P @ C \<noteq> []) \<and>
     (\<forall>e \<in> set D. ev_seq e < first_seq s) \<and> (\<forall>e \<in> set (P @ C). first_seq s \<le> ev_seq e) \<and>
     sorted_wrt (<) (map ev_seq (D @ P @ C @ task_events (tasks s))) \<and>
     list_all ev_clean (D @ P @ C @ task_events (tasks s)) \<and>
     (\<forall>e \<in> set (D @ P @ C). ev_seq e \<le> written_seq s) \<and>
     (\<forall>e \<in> set (task_events (tasks s)). written_seq s < ev_seq e \<and> ev_seq e \<le> last_seq s) \<and>
     written_seq s \<le> last_seq s \<and>
     first_seq s \<le> written_seq s + 1 \<and>
     suffix (map fst (ring s)) (D @ P @ C @ task_events (tasks s)) \<and>
     ring_bytes s = sum_list (map snd (ring s)) \<and>
     length (ring s) \<le> RING \<and> (ring_bytes s \<le> RING_BYTES \<or> length (ring s) \<le> 1)"

definition log_ok :: "event list \<Rightarrow> slog \<Rightarrow> bool" where
  "log_ok H s \<longleftrightarrow> (\<exists>D P C. H = D @ P @ C \<and> log_parts D P C s)"

text \<open>The events a step completes on disk.\<close>

fun landed :: "slog \<Rightarrow> log_event \<Rightarrow> event list" where
  "landed s (LogGoes io) = (case tasks s of WriteEvent e y # _ \<Rightarrow> if io_write io = None then [e] else [] | _ \<Rightarrow> [])"
| "landed s (LogCrash k) =
     (case tasks s of WriteEvent e y # _ \<Rightarrow> if length (line_of e) \<le> k then [e] else [] | _ \<Rightarrow> [])"
| "landed s _ = []"

fun log_history :: "nat \<Rightarrow> slog \<Rightarrow> log_event list \<Rightarrow> event list" where
  "log_history limit s [] = []"
| "log_history limit s (e # es) = landed s e @ log_history limit (fst (log_step limit s e)) es"

text \<open>The input and output of a run without half-written lines: a write either completes or leaves nothing, except
  at a crash, which may tear the line being written anywhere. Bodies are one line, as \<open>JSON.stringify\<close> makes them.\<close>

fun io_whole :: "log_event \<Rightarrow> bool" where
  "io_whole (Append ts body y) = (ts < 10 ^ 16 \<and> nl \<notin> set body \<and> CHR 0x0D \<notin> set body)"
| "io_whole (LogGoes io) = (io_rename io \<and> io_meta io \<and> (io_write io = None \<or> io_write io = Some 0))"
| "io_whole _ = True"

subsection \<open>The ring\<close>

lemma ring_trim_all:
  "suffix (fst (ring_trim xs (sum_list (map snd xs)))) xs \<and>
   snd (ring_trim xs (sum_list (map snd xs))) = sum_list (map snd (fst (ring_trim xs (sum_list (map snd xs))))) \<and>
   length (fst (ring_trim xs (sum_list (map snd xs)))) \<le> RING \<and>
   (snd (ring_trim xs (sum_list (map snd xs))) \<le> RING_BYTES \<or> length (fst (ring_trim xs (sum_list (map snd xs)))) \<le> 1)"
proof (induction xs)
  case (Cons x xs)
  let ?b = "sum_list (map snd (x # xs))"
  have "?b - snd x = sum_list (map snd xs)" by simp
  then show ?case using Cons by (auto intro: suffix_ConsI)
qed simp

lemma ring_trim_props:
  assumes "ring_trim xs b = (r, b')" "b = sum_list (map snd xs)"
  shows "suffix r xs" "b' = sum_list (map snd r)" "length r \<le> RING" "b' \<le> RING_BYTES \<or> length r \<le> 1"
  using ring_trim_all [of xs] assms by auto

lemma ring_forget_absent: "e \<notin> fst ` set r \<Longrightarrow> ring_forget e r b = (r, b)"
  by (induction r) auto

lemma ring_forget_split:
  "e \<notin> fst ` set xs \<Longrightarrow> ring_forget e (xs @ (e, n) # ys) b = (xs @ ys, b - n)"
  by (induction xs) auto

text \<open>Forgetting the event at the head of the queue keeps the ring a suffix of what is written and queued.\<close>

lemma ring_forget_suffix:
  assumes "suffix (map fst r) (H @ e # P)" "e \<notin> set H" "e \<notin> set P" "b = sum_list (map snd r)"
    "ring_forget e r b = (r', b')"
  shows "suffix (map fst r') (H @ P)" "b' = sum_list (map snd r')" "length r' \<le> length r" "b' \<le> b"
proof -
  have goal: "suffix (map fst r') (H @ P) \<and> b' = sum_list (map snd r') \<and> length r' \<le> length r \<and> b' \<le> b"
  proof (cases "e \<in> fst ` set r")
    case False
    then have r': "r' = r" "b' = b" using assms(5) ring_forget_absent [of e r b] by simp_all
    obtain zs where zs: "H @ e # P = zs @ map fst r" using assms(1) by (auto simp: suffix_def)
    have "suffix (map fst r) P"
    proof -
      from zs obtain us where "H @ [e] = zs @ us \<and> us @ P = map fst r \<or> (H @ [e]) @ us = zs \<and> P = us @ map fst r"
        using append_eq_append_conv2 [of "H @ [e]" P zs "map fst r"] by auto
      then show ?thesis
      proof
        assume a: "H @ [e] = zs @ us \<and> us @ P = map fst r"
        have "us = []"
        proof (rule ccontr)
          assume "us \<noteq> []"
          then have "last us = e" using a by (metis last_appendR last_snoc)
          then have "e \<in> set (map fst r)" using a \<open>us \<noteq> []\<close> by (metis Un_iff last_in_set set_append)
          then show False using False by simp
        qed
        then show ?thesis using a by (simp add: suffix_def)
      qed (auto simp: suffix_def)
    qed
    then show ?thesis using r' assms(4) by (auto intro: suffix_appendI)
  next
    case True
    then obtain n where "(e, n) \<in> set r" by auto
    then obtain xs ys where sp: "r = xs @ (e, n) # ys" "(e, n) \<notin> set xs" by (metis split_list_first)
    obtain zs where zs: "H @ e # P = zs @ map fst xs @ e # map fst ys" using assms(1) sp(1) by (auto simp: suffix_def)
    have eq: "H = zs @ map fst xs \<and> P = map fst ys"
      using zs append_Cons_eq_iff [OF assms(2,3), of "zs @ map fst xs" "map fst ys"] by simp
    then have no: "e \<notin> fst ` set xs" using assms(2) by (auto simp: image_iff)
    then show ?thesis using ring_forget_split [of e xs n ys b] sp(1) assms(4,5) eq
      by (auto simp: suffix_def)
  qed
  then show "suffix (map fst r') (H @ P)" "b' = sum_list (map snd r')" "length r' \<le> length r" "b' \<le> b" by blast+
qed

subsection \<open>Every step keeps the invariant\<close>

lemma log_partsD:
  assumes "log_parts D P C s"
  shows "holds_lines (old_file s) P" "holds_lines (cur_file s) C" "file_bytes s = length (lines_of C)"
    "D \<noteq> [] \<Longrightarrow> P @ C \<noteq> []" "e \<in> set D \<Longrightarrow> ev_seq e < first_seq s" "e \<in> set (P @ C) \<Longrightarrow> first_seq s \<le> ev_seq e"
    "sorted_wrt (<) (map ev_seq (D @ P @ C @ task_events (tasks s)))"
    "list_all ev_clean (D @ P @ C @ task_events (tasks s))"
    "e \<in> set (D @ P @ C) \<Longrightarrow> ev_seq e \<le> written_seq s"
    "e \<in> set (task_events (tasks s)) \<Longrightarrow> written_seq s < ev_seq e \<and> ev_seq e \<le> last_seq s"
    "written_seq s \<le> last_seq s" "first_seq s \<le> written_seq s + 1"
    "suffix (map fst (ring s)) (D @ P @ C @ task_events (tasks s))"
    "ring_bytes s = sum_list (map snd (ring s))"
    "length (ring s) \<le> RING" "ring_bytes s \<le> RING_BYTES \<or> length (ring s) \<le> 1"
  using assms unfolding log_parts_def by blast+

lemma log_parts_same:
  assumes "log_parts D P C s" "task_events (tasks s') = task_events (tasks s)" "old_file s' = old_file s"
    "cur_file s' = cur_file s" "file_bytes s' = file_bytes s" "first_seq s' = first_seq s"
    "written_seq s' = written_seq s" "last_seq s' = last_seq s" "ring s' = ring s" "ring_bytes s' = ring_bytes s"
  shows "log_parts D P C s'"
  using assms(1) unfolding log_parts_def assms(2-10) .

lemma append_parts:
  assumes "log_parts D P C s" "io_whole (Append ts body y)" "\<not> log_closed s"
  shows "log_parts D P C (fst (append_event ts body y s))"
proof -
  let ?e = "\<lparr>ev_seq = last_seq s + 1, ev_ts = ts, ev_body = body\<rparr>"
  let ?n = "length (line_of ?e)"
  obtain r b where rb: "ring_trim (ring s @ [(?e, ?n)]) (ring_bytes s + ?n) = (r, b)" by fastforce
  have s': "fst (append_event ts body y s) =
      s\<lparr>last_seq := last_seq s + 1, ring := r, ring_bytes := b, tasks := tasks s @ [WriteEvent ?e y]\<rparr>"
    using assms(3) rb by (simp add: append_event_def remember_def Let_def)
  note d = log_partsD [OF assms(1)]
  have t: "ring_bytes s + ?n = sum_list (map snd (ring s @ [(?e, ?n)]))" using d(14) by simp
  note r = ring_trim_props [OF rb t]
  have "suffix (map fst r) (map fst (ring s) @ [?e])" using map_mono_suffix [OF r(1), of fst] by simp
  moreover have "suffix (map fst (ring s) @ [?e]) (D @ P @ C @ task_events (tasks s) @ [?e])"
    using d(13) by (auto simp: suffix_def)
  ultimately have suf: "suffix (map fst r) (D @ P @ C @ task_events (tasks s) @ [?e])"
    by (rule suffix_order.trans)
  have "ev_seq e \<le> last_seq s" if "e \<in> set (D @ P @ C @ task_events (tasks s))" for e
    using that d(9) [of e] d(10) [of e] d(11) by auto
  then have srt: "sorted_wrt (<) (map ev_seq (D @ P @ C @ task_events (tasks s) @ [?e]))"
    using d(7) by (fastforce simp: sorted_wrt_append)
  have cl: "list_all ev_clean (D @ P @ C @ task_events (tasks s) @ [?e])"
    using d(8) assms(2) by (simp add: ev_clean_def)
  show ?thesis
    unfolding s' log_parts_def using d(1-6,9,10,11,12) suf srt cl r(2-4)
    by (auto simp: le_Suc_eq)
qed

lemma rotate_tasks: "rotate_log io (s\<lparr>tasks := ts\<rparr>) = (case rotate_log io s of (s', ok) \<Rightarrow> (s'\<lparr>tasks := ts\<rparr>, ok))"
  by (simp add: rotate_log_def write_meta_now_def Let_def split: option.split)

lemma rotate_parts:
  assumes "log_parts D P C s" "C \<noteq> []" "list_all ev_good C" "io_rename io" "io_meta io"
  shows "log_parts (D @ P) C [] (fst (rotate_log io s))" "snd (rotate_log io s)"
    "tasks (fst (rotate_log io s)) = tasks s"
proof -
  note d = log_partsD [OF assms(1)]
  obtain c where c: "cur_file s = Some c" "c = lines_of C" using d(2) assms(2) by (cases "cur_file s") auto
  have f: "in_first (fst (inspect_file False (Some (lines_of C)))) = Some (ev_seq (hd C))"
    using inspect_lines [OF assms(3), of "[]" False] assms(2) by simp
  have first: "first_seq (fst (rotate_log io s)) = ev_seq (hd C)"
    using assms(4,5) c f by (simp add: rotate_log_def write_meta_now_def Let_def)
  obtain x C' where C: "C = x # C'" using assms(2) by (cases C) auto
  have low: "ev_seq e < ev_seq x" if "e \<in> set (D @ P)" for e
    using d(7) that by (auto simp: C sorted_wrt_append)
  have up: "ev_seq x \<le> ev_seq e" if "e \<in> set C" for e
    using d(7) that by (auto simp: C sorted_wrt_append intro: less_imp_le)
  have w: "ev_seq x \<le> written_seq s" using d(9) [of x] by (simp add: C)
  have fields: "cur_file (fst (rotate_log io s)) = None" "old_file (fst (rotate_log io s)) = Some (lines_of C)"
    "file_bytes (fst (rotate_log io s)) = 0" "tasks (fst (rotate_log io s)) = tasks s"
    "written_seq (fst (rotate_log io s)) = written_seq s" "last_seq (fst (rotate_log io s)) = last_seq s"
    "ring (fst (rotate_log io s)) = ring s" "ring_bytes (fst (rotate_log io s)) = ring_bytes s"
    using assms(4,5) c by (simp_all add: rotate_log_def write_meta_now_def Let_def)
  show "log_parts (D @ P) C [] (fst (rotate_log io s))"
    unfolding log_parts_def fields first using d(7-16) low up w assms(2)
    by (auto simp: C le_SucI)
  show "snd (rotate_log io s)" using assms(5) by (simp add: rotate_log_def Let_def)
  show "tasks (fst (rotate_log io s)) = tasks s" by (rule fields)
qed

lemma holds_append: "holds_lines f C \<Longrightarrow> holds_lines (Some ((case f of Some c \<Rightarrow> c | None \<Rightarrow> []) @ lines_of X)) (C @ X)"
  by (cases f) simp_all

lemma write_done_parts:
  assumes "log_parts D P C s" "tasks s = WriteEvent e y # ts"
  shows "log_parts D P (C @ [e]) ((append_bytes (line_of e) s)
      \<lparr>tasks := ts, file_bytes := file_bytes s + length (line_of e), written_seq := ev_seq e\<rparr>)"
proof -
  note d = log_partsD [OF assms(1)]
  have h: "holds_lines (Some ((case cur_file s of Some c \<Rightarrow> c | None \<Rightarrow> []) @ line_of e)) (C @ [e])"
    using holds_append [OF d(2), of "[e]"] by simp
  have e: "written_seq s < ev_seq e" "ev_seq e \<le> last_seq s" using d(10) [of e] assms(2) by auto
  have lt: "x \<in> set (D @ P @ C) \<Longrightarrow> ev_seq x < ev_seq e" for x using d(9) [of x] e by auto
  have gt: "x \<in> set (task_events ts) \<Longrightarrow> ev_seq e < ev_seq x \<and> ev_seq x \<le> last_seq s" for x
    using d(7) d(10) [of x] assms(2) by (auto simp: sorted_wrt_append)
  show ?thesis
    unfolding log_parts_def append_bytes_def
    using h d(1,3-8,11-16) e lt gt assms(2) by (auto simp: less_imp_le)
qed

lemma write_failed_parts:
  assumes "log_parts D P C s" "tasks s = WriteEvent e y # ts"
  shows "log_parts D P C (forget e (append_bytes [] (s\<lparr>tasks := ts\<rparr>)))"
proof -
  note d = log_partsD [OF assms(1)]
  obtain r b where rb: "ring_forget e (ring s) (ring_bytes s) = (r, b)" by fastforce
  have srt: "sorted_wrt (<) (map ev_seq ((D @ P @ C) @ e # task_events ts))" using d(7) assms(2) by simp
  have no: "e \<notin> set (D @ P @ C)" "e \<notin> set (task_events ts)"
    using srt by (auto simp: sorted_wrt_append)
  have suf: "suffix (map fst (ring s)) ((D @ P @ C) @ e # task_events ts)" using d(13) assms(2) by simp
  note r = ring_forget_suffix [OF suf no d(14) rb]
  have h: "holds_lines (Some ((case cur_file s of Some c \<Rightarrow> c | None \<Rightarrow> []) @ [])) C"
    using holds_append [OF d(2), of "[]"] by simp
  have s': "forget e (append_bytes [] (s\<lparr>tasks := ts\<rparr>)) =
      s\<lparr>tasks := ts, cur_file := Some ((case cur_file s of Some c \<Rightarrow> c | None \<Rightarrow> []) @ []), ring := r, ring_bytes := b\<rparr>"
    using rb by (simp add: forget_def append_bytes_def)
  have srt2: "sorted_wrt (<) (map ev_seq (D @ P @ C @ task_events ts))"
    using srt by (auto simp: sorted_wrt_append)
  show ?thesis
    unfolding s' log_parts_def
    using h d(1,3-6,8-12,15,16) r srt2 assms(2) by auto
qed

subsection \<open>Opening and reopening\<close>

lemma inspect_none: "inspect_file r None = (\<lparr>in_size = 0, in_seq = 0, in_first = None\<rparr>, None)"
  by (simp add: inspect_file_def)

lemma inspect_holds:
  "holds_lines f es \<Longrightarrow> list_all ev_good es \<Longrightarrow>
   fst (inspect_file False f) = \<lparr>in_size = length (lines_of es), in_seq = file_seq es,
      in_first = (if es = [] then None else Some (ev_seq (hd es)))\<rparr>"
  using inspect_lines [of es "[]" False] by (cases f) (simp_all add: inspect_none file_seq_def)

text \<open>A current file with a torn last line.\<close>

fun torn_lines :: "string option \<Rightarrow> event list \<Rightarrow> bool" where
  "torn_lines None es = (es = [])"
| "torn_lines (Some c) es = (\<exists>t. c = lines_of es @ t \<and> nl \<notin> set t)"

lemma inspect_torn:
  "torn_lines f es \<Longrightarrow> list_all ev_good es \<Longrightarrow>
   fst (inspect_file True f) = \<lparr>in_size = length (lines_of es), in_seq = file_seq es,
      in_first = (if es = [] then None else Some (ev_seq (hd es)))\<rparr> \<and> holds_lines (snd (inspect_file True f)) es"
  using inspect_lines [of es _ True] by (cases f) (auto simp: inspect_none file_seq_def)

lemma open_parts:
  assumes old: "holds_lines old P" and cur: "torn_lines cur C" and good: "list_all ev_good (P @ C)"
    and srt: "sorted_wrt (<) (map ev_seq (D @ P @ C))" and cl: "list_all ev_clean (D @ P @ C)"
    and ne: "D \<noteq> [] \<longrightarrow> P @ C \<noteq> []"
  shows "log_parts D P C (open_log x meta cur old)"
proof -
  let ?lst = "max (case meta of Some (l, _, _) \<Rightarrow> l | None \<Rightarrow> 0) (if file_seq C \<noteq> 0 then file_seq C else file_seq P)"
  let ?first = "if P @ C = [] then ?lst + 1 else ev_seq (hd (P @ C))"
  let ?s = "open_log x meta cur old"
  have gP: "list_all ev_good P" and gC: "list_all ev_good C" using good by simp_all
  have pos: "e \<in> set (D @ P @ C) \<Longrightarrow> 1 \<le> ev_seq e" for e using cl by (auto simp: list_all_iff ev_clean_def)
  have f: "tasks ?s \<in> {[], [WriteMeta]}" "old_file ?s = old" "holds_lines (cur_file ?s) C"
    "file_bytes ?s = length (lines_of C)" "first_seq ?s = ?first" "written_seq ?s = ?lst" "last_seq ?s = ?lst"
    "ring ?s = []" "ring_bytes ?s = 0"
    using inspect_holds [OF old gP] inspect_torn [OF cur gC]
    by (cases "inspect_file True cur"; cases "inspect_file False old"; cases "P = []"; cases "C = []";
        simp add: open_log_def recover_def new_log_def Let_def)+
  have t: "task_events (tasks ?s) = []" using f(1) by auto
  have top: "ev_seq e \<le> (if file_seq C \<noteq> 0 then file_seq C else file_seq P)" if "e \<in> set (D @ P @ C)" for e
  proof -
    have "e \<in> set xs \<Longrightarrow> sorted_wrt (<) (map ev_seq xs) \<Longrightarrow> ev_seq e \<le> ev_seq (last xs)" for xs
      by (induction xs rule: rev_induct) (auto simp: sorted_wrt_append intro: less_imp_le)
    from this [OF that srt] have "ev_seq e \<le> ev_seq (last (D @ P @ C))" .
    moreover have "P @ C \<noteq> []" using that ne by (cases "D = []") auto
    moreover have "C \<noteq> [] \<Longrightarrow> ev_seq (last C) \<noteq> 0" using pos [of "last C"] by simp
    ultimately show ?thesis by (cases "C = []") (auto simp: file_seq_def)
  qed
  have low: "\<forall>e \<in> set D. ev_seq e < ?first"
  proof
    fix e assume "e \<in> set D"
    then show "ev_seq e < ?first" using ne srt by (cases P; cases C) (auto simp: sorted_wrt_append)
  qed
  have up: "\<forall>e \<in> set (P @ C). ?first \<le> ev_seq e"
    using srt by (cases P; cases C) (auto simp: sorted_wrt_append intro: less_imp_le)
  have "P @ C \<noteq> [] \<Longrightarrow> ev_seq (hd (P @ C)) \<le> ?lst"
    using top [of "hd (P @ C)"] by (simp add: le_max_iff_disj hd_append split: if_splits)
  then have fw: "?first \<le> ?lst + 1" by auto
  have wr: "\<forall>e \<in> set (D @ P @ C). ev_seq e \<le> ?lst" using top by (auto simp: le_max_iff_disj)
  show ?thesis
    unfolding log_parts_def t f(2,4-9) append_Nil2
    using old f(3) ne low up srt cl fw wr by (simp del: hd_append2)
qed

subsection \<open>Steps and runs\<close>

lemma append_bytes_tasks: "append_bytes b (s\<lparr>tasks := ts\<rparr>) = (append_bytes b s)\<lparr>tasks := ts\<rparr>"
  by (simp add: append_bytes_def)

lemma write_event_parts:
  assumes "log_parts D P C s" "tasks s = WriteEvent e y # ts" "io_rename io" "io_meta io"
    "io_write io = None \<or> io_write io = Some 0" "list_all ev_good C"
  shows "log_ok ((D @ P @ C) @ (if io_write io = None then [e] else [])) (fst (write_event limit io e y (s\<lparr>tasks := ts\<rparr>)))"
proof -
  let ?rot = "0 < file_bytes s \<and> file_bytes s + length (line_of e) > limit"
  define s1 where "s1 = (if ?rot then fst (rotate_log io s) else s)"
  have "file_bytes s > 0 \<Longrightarrow> C \<noteq> []" using log_partsD(3) [OF assms(1)] by auto
  then obtain D' P' C' where parts: "log_parts D' P' C' s1" "D' @ P' @ C' = D @ P @ C"
    using rotate_parts [OF assms(1) _ assms(6,3,4)] assms(1) unfolding s1_def
    by (cases ?rot) (force simp del: append_assoc simp: append_assoc [symmetric])+
  have t1: "tasks s1 = WriteEvent e y # ts"
    using assms(2,4) by (simp add: s1_def rotate_log_def write_meta_now_def Let_def)
  have rot: "(if ?rot then rotate_log io (s\<lparr>tasks := ts\<rparr>) else (s\<lparr>tasks := ts\<rparr>, True)) = (s1\<lparr>tasks := ts\<rparr>, True)"
  proof -
    have "snd (rotate_log io s)" using assms(4) by (simp add: rotate_log_def Let_def)
    then show ?thesis by (cases "rotate_log io s") (auto simp: s1_def rotate_tasks)
  qed
  show ?thesis
  proof (cases "io_write io")
    case None
    let ?s2 = "(append_bytes (line_of e) s1)
      \<lparr>tasks := ts, file_bytes := file_bytes s1 + length (line_of e), written_seq := ev_seq e\<rparr>"
    have p: "log_parts D' P' (C' @ [e]) ?s2" by (rule write_done_parts [OF parts(1) t1])
    have q: "log_parts D' P' (C' @ [e]) (write_meta_now ?s2)"
      by (rule log_parts_same [OF p]) (simp_all add: write_meta_now_def)
    have "fst (write_event limit io e y (s\<lparr>tasks := ts\<rparr>)) \<in> {?s2, write_meta_now ?s2}"
      using rot None assms(4) by (auto simp: write_event_def Let_def append_bytes_tasks)
    then have "log_parts D' P' (C' @ [e]) (fst (write_event limit io e y (s\<lparr>tasks := ts\<rparr>)))"
      using p q by auto
    then show ?thesis using parts(2) None unfolding log_ok_def
      by (intro exI [of _ D'] exI [of _ P'] exI [of _ "C' @ [e]"]) simp
  next
    case (Some k)
    then have "fst (write_event limit io e y (s\<lparr>tasks := ts\<rparr>)) = forget e (append_bytes [] (s1\<lparr>tasks := ts\<rparr>))"
      using rot assms(5) by (simp add: write_event_def Let_def)
    then have "log_parts D' P' C' (fst (write_event limit io e y (s\<lparr>tasks := ts\<rparr>)))"
      using write_failed_parts [OF parts(1) t1] by simp
    then show ?thesis using parts(2) Some unfolding log_ok_def
      by (intro exI [of _ D'] exI [of _ P'] exI [of _ C']) simp
  qed
qed

lemma crash_parts:
  assumes "log_parts D P C s" "list_all ev_good ((D @ P @ C) @ landed s (LogCrash k))"
  shows "log_ok ((D @ P @ C) @ landed s (LogCrash k)) (fst (log_step limit s (LogCrash k)))"
proof -
  note d = log_partsD [OF assms(1)]
  let ?L = "landed s (LogCrash k)" and ?d = "crash_files k s"
  have tsk: "?L = [] \<or> (\<exists>e. ?L = [e] \<and> e \<in> set (task_events (tasks s)))"
    by (auto split: list.splits log_task.splits)
  have torn: "torn_lines (cur_file ?d) (C @ ?L)"
  proof (cases "\<exists>e y ts. tasks s = WriteEvent e y # ts")
    case True
    then obtain e y ts where t: "tasks s = WriteEvent e y # ts" by blast
    have "ev_clean e" using d(8) t by simp
    then have "nl \<notin> set (text_of e)" using text_of_no_nl by blast
    then have "k < length (line_of e) \<Longrightarrow> nl \<notin> set (take k (line_of e))"
      by (auto simp: line_of_def dest: in_set_takeD)
    then show ?thesis using d(2) t by (cases "cur_file s") (auto simp: crash_files_def append_bytes_def)
  next
    case False
    then have "?d = s \<and> ?L = []" by (auto simp: crash_files_def split: list.splits log_task.splits)
    then show ?thesis using d(2) by (cases "cur_file s") auto
  qed
  have old: "holds_lines (old_file ?d) P"
    using d(1) by (auto simp: crash_files_def append_bytes_def split: list.splits log_task.splits)
  have "sorted_wrt (<) (map ev_seq (D @ P @ C @ L))"
    if "L = [] \<or> (\<exists>e. L = [e] \<and> e \<in> set (task_events (tasks s)))" for L
    using that d(7) by (auto simp: sorted_wrt_append)
  then have srt: "sorted_wrt (<) (map ev_seq (D @ P @ C @ ?L))" using tsk by blast
  have cl: "list_all ev_clean (D @ P @ C @ ?L)" using assms(2) by (auto simp: list_all_iff ev_good_def)
  have "log_parts D P (C @ ?L) (fst (log_step limit s (LogCrash k)))"
    using open_parts [OF old torn _ _ _, of D False "disk_meta ?d"] assms(2) srt cl d(4) by (auto simp: Let_def simp del: landed.simps)
  then show ?thesis unfolding log_ok_def by (intro exI [of _ D] exI [of _ P] exI [of _ "C @ ?L"]) simp
qed

lemma log_step_ok:
  assumes "log_ok H s" "io_whole ev" "list_all ev_good (H @ landed s ev)"
  shows "log_ok (H @ landed s ev) (fst (log_step limit s ev))"
proof -
  obtain D P C where H: "H = D @ P @ C" and p: "log_parts D P C s" using assms(1) by (auto simp: log_ok_def)
  have same: "log_ok H s'" if "log_parts D P C s'" for s' using that H by (auto simp: log_ok_def)
  have keep: "log_ok H (s\<lparr>tasks := ts\<rparr>)" if "task_events ts = task_events (tasks s)" for ts
    by (rule same, rule log_parts_same [OF p]) (use that in simp_all)
  show ?thesis
  proof (cases ev)
    case (Append ts body y)
    then show ?thesis using append_parts [OF p] assms(2) same p
      by (cases "log_closed s") (auto simp: append_event_def)
  next
    case (LogGoes io)
    show ?thesis
    proof (cases "tasks s")
      case Nil
      then show ?thesis using LogGoes assms(1) by (simp add: log_goes_def)
    next
      case (Cons t ts)
      have w: "log_ok H (write_meta_now (s\<lparr>tasks := ts\<rparr>))" if "t = WriteMeta"
        by (rule same, rule log_parts_same [OF p]) (use Cons that in \<open>simp_all add: write_meta_now_def\<close>)
      show ?thesis
        using LogGoes Cons assms(2,3) H keep [of ts] w write_event_parts [OF p, of _ _ ts io limit]
        by (cases t) (simp_all add: log_goes_def)
    qed
  next
    case CloseLog
    have "log_ok H (s\<lparr>log_closed := True\<rparr>)" by (rule same, rule log_parts_same [OF p]) simp_all
    then show ?thesis using CloseLog by simp
  next
    case (LogCrash k)
    then show ?thesis using crash_parts [OF p, of k limit] assms(3) H by (simp del: landed.simps log_step.simps)
  qed (use keep in simp_all)
qed

lemma log_run_ok:
  "log_ok H s \<Longrightarrow> list_all io_whole evs \<Longrightarrow> list_all ev_good (H @ log_history limit s evs) \<Longrightarrow>
   log_ok (H @ log_history limit s evs) (fst (log_run limit s evs))"
proof (induction evs arbitrary: H s)
  case (Cons ev evs)
  have "log_ok (H @ landed s ev) (fst (log_step limit s ev))"
    using Cons.prems by (intro log_step_ok) simp_all
  then show ?case using Cons.IH [of "H @ landed s ev" "fst (log_step limit s ev)"] Cons.prems
    by (simp add: split_beta)
qed simp

lemma fresh_log_ok: "log_ok [] (open_log False None None None)"
  using open_parts [of None "[]" None "[]" "[]" False None] by (simp add: log_ok_def)

lemma fresh_run_ok:
  "list_all io_whole evs \<Longrightarrow> list_all ev_good (log_history limit (open_log False None None None) evs) \<Longrightarrow>
   log_ok (log_history limit (open_log False None None None) evs) (fst (log_run limit (open_log False None None None) evs))"
  using log_run_ok [OF fresh_log_ok] by simp

end
