(* ===== verification/Log_Props.thy ===== *)
theory Log_Props
  imports Log_Facts
begin

text \<open>
  The properties of the session log (runtime/lib/session-log.js): while no write is torn but by a crash, seqs are
  never reused and acknowledged events are on disk, across rotations, failed writes and crashes; a replay gives exactly the events its caller lacks,
  from the ring or from the files; the ring stays small.
\<close>

subsection \<open>Seqs\<close>

lemma log_ok_sorted: "log_ok H s \<Longrightarrow> sorted_wrt (<) (map ev_seq H)"
  by (auto simp: log_ok_def log_parts_def sorted_wrt_append)

lemma write_event_appended:
  "Appended n \<in> set (snd (write_event limit io e y s)) \<Longrightarrow> n = ev_seq e \<and> io_write io = None"
  by (auto simp: write_event_def Let_def split: if_splits option.splits)

lemma appended_landed:
  "Appended n \<in> set (snd (log_step limit s ev)) \<Longrightarrow> n \<in> ev_seq ` set (landed s ev)"
proof (cases ev)
  case (LogGoes io)
  assume a: "Appended n \<in> set (snd (log_step limit s ev))"
  then obtain t ts where t: "tasks s = t # ts" using LogGoes by (cases "tasks s") (auto simp: log_goes_def)
  show ?thesis using LogGoes a t write_event_appended by (cases t) (fastforce simp: log_goes_def)+
qed (auto simp: append_event_def Let_def split: if_splits)

lemma appended_history:
  "Appended n \<in> set (snd (log_run limit s evs)) \<Longrightarrow> n \<in> ev_seq ` set (log_history limit s evs)"
proof (induction evs arbitrary: s)
  case (Cons ev evs)
  then show ?case using appended_landed [of n limit s ev]
    by (auto simp: split_beta)
qed simp

abbreviation fresh_log :: slog where
  "fresh_log \<equiv> open_log False None None None"

text \<open>The log never reuses a seq and never loses an acknowledged event: whatever appends, write failures,
  rotations, evictions and crashes (in the middle of a line included) a session goes through, the events that
  reached its files carry strictly increasing seqs, and every append that was acknowledged is among them.\<close>

theorem log_seqs_unique:
  assumes "list_all io_whole evs" and "list_all ev_good (log_history limit fresh_log evs)"
  shows "sorted_wrt (<) (map ev_seq (log_history limit fresh_log evs)) \<and>
    (\<forall>n. Appended n \<in> set (snd (log_run limit fresh_log evs)) \<longrightarrow> n \<in> ev_seq ` set (log_history limit fresh_log evs))"
  using log_ok_sorted [OF fresh_run_ok [OF assms]] appended_history [of _ limit fresh_log evs] by blast

subsection \<open>Replay\<close>

lemma split_lines_line: "nl \<notin> set t \<Longrightarrow> CHR 0x0D \<notin> set t \<Longrightarrow> split_lines (t @ nl # r) = t # split_lines r"
  by (induction t) auto

lemma split_lines_of: "list_all ev_clean es \<Longrightarrow> split_lines (lines_of es) = map text_of es @ [[]]"
  by (induction es) (simp_all add: line_of_def split_lines_line text_of_no_nl)

lemma text_of_nonempty [simp]: "text_of e \<noteq> []"
  by (simp add: text_of_def)

lemma stream_texts:
  assumes "list_all ev_good es" "sorted_wrt (<) (map ev_seq es)"
    and "\<And>e. e \<in> set es \<Longrightarrow> ev_seq e \<le> until \<Longrightarrow> json (text_of e) = Some e"
  shows "stream_lines json after until (map text_of es @ [[]]) = filter (\<lambda>e. after < ev_seq e \<and> ev_seq e \<le> until) es"
  using assms
proof (induction es)
  case (Cons e es)
  have p: "line_prefix (take 64 (text_of e)) = Some (ev_seq e)"
    using line_prefix_take [of e 64 "[]"] Cons.prems(1) by simp
  have "until < ev_seq e \<Longrightarrow> filter (\<lambda>e. after < ev_seq e \<and> ev_seq e \<le> until) es = []"
    using Cons.prems(2) by (auto simp: filter_empty_conv)
  then show ?case using Cons p by (auto simp: deliver_line_def)
qed simp

text \<open>What the snapshot's handles read later: the last file may have grown by complete lines.\<close>

definition grown :: "event list \<Rightarrow> string list \<Rightarrow> string list" where
  "grown later fs = (if fs = [] then [] else butlast fs @ [last fs @ lines_of later])"

lemma file_stream:
  assumes "list_all ev_good es" "sorted_wrt (<) (map ev_seq es)"
    and "\<And>e. e \<in> set es \<Longrightarrow> ev_seq e \<le> until \<Longrightarrow> json (text_of e) = Some e"
  shows "stream_lines json after until (split_lines (lines_of es)) = filter (\<lambda>e. after < ev_seq e \<and> ev_seq e \<le> until) es"
proof -
  have "list_all ev_clean es" using assms(1) by (auto simp: list_all_iff ev_good_def)
  then show ?thesis using stream_texts [OF assms] by (simp add: split_lines_of)
qed

lemma files_stream:
  assumes parts: "log_parts D P C s" and good: "list_all ev_good (P @ C)" and srt: "sorted_wrt (<) (map ev_seq (P @ C))"
    and json: "\<And>e. e \<in> set (P @ C) \<Longrightarrow> json (text_of e) = Some e"
    and later: "list_all ev_good later" "sorted_wrt (<) (map ev_seq later)" "\<forall>e \<in> set later. written_seq s < ev_seq e"
  shows "concat (map (\<lambda>c. stream_lines json after (written_seq s) (split_lines c)) (grown later (sn_files (take_snapshot s))))
    = filter (\<lambda>e. after < ev_seq e) (P @ C)"
proof -
  note d = log_partsD [OF parts]
  have none: "filter (\<lambda>e. after < ev_seq e \<and> ev_seq e \<le> written_seq s) later = []"
    using later(3) by (auto simp: filter_empty_conv)
  have le: "ev_seq e \<le> written_seq s" if "e \<in> set (P @ C)" for e using d(9) [of e] that by auto
  have one: "stream_lines json after (written_seq s) (split_lines (lines_of es @ lines_of l)) = filter (\<lambda>e. after < ev_seq e) es"
    if "set es \<subseteq> set (P @ C)" "sorted_wrt (<) (map ev_seq es)" "l = [] \<or> l = later" for es l
  proof -
    have g: "list_all ev_good (es @ l)" using that(1,3) good later(1) by (auto simp: list_all_iff)
    have "ev_seq x < ev_seq y" if "x \<in> set es" "y \<in> set l" for x y
      using that \<open>set es \<subseteq> set (P @ C)\<close> le [of x] later(3) \<open>l = [] \<or> l = later\<close> by fastforce
    then have srt: "sorted_wrt (<) (map ev_seq (es @ l))"
      using that(2,3) later(2) by (auto simp: sorted_wrt_append)
    have js: "e \<in> set (es @ l) \<Longrightarrow> ev_seq e \<le> written_seq s \<Longrightarrow> json (text_of e) = Some e" for e
      using that(1,3) json [of e] later(3) by auto
    have "filter (\<lambda>e. after < ev_seq e \<and> ev_seq e \<le> written_seq s) es = filter (\<lambda>e. after < ev_seq e) es"
      using that(1) le by (auto intro!: filter_cong)
    then show ?thesis using file_stream [where until = "written_seq s" and after = after, OF g srt js] that(3) none by auto
  qed
  have sP: "sorted_wrt (<) (map ev_seq P)" "sorted_wrt (<) (map ev_seq C)" using srt by (auto simp: sorted_wrt_append)
  have "holds_lines (old_file s) P" "holds_lines (cur_file s) C" by (fact d(1) d(2))+
  then show ?thesis
    using one [of P "[]"] one [of P later] one [of C later] sP
    by (cases "old_file s"; cases "cur_file s") (simp_all add: take_snapshot_def grown_def)
qed

lemma snapshot_ring:
  assumes parts: "log_parts D P C s"
  obtains Z where "P @ C = Z @ sn_ring (take_snapshot s)"
proof -
  note d = log_partsD [OF parts]
  let ?p = "\<lambda>e. first_seq s \<le> ev_seq e \<and> ev_seq e \<le> written_seq s"
  obtain Z where Z: "D @ P @ C @ task_events (tasks s) = Z @ map fst (ring s)" using d(13) by (auto simp: suffix_def)
  have "filter ?p D = []" by (auto simp: filter_empty_conv dest!: d(5))
  moreover have "filter ?p (P @ C) = P @ C" using d(6,9) by (auto intro!: filter_True)
  moreover have "filter ?p (task_events (tasks s)) = []" by (auto simp: filter_empty_conv dest!: d(10))
  moreover have "filter ?p (D @ P @ C @ task_events (tasks s)) = filter ?p Z @ sn_ring (take_snapshot s)"
    unfolding Z by (simp add: take_snapshot_def)
  ultimately show ?thesis using that [of "filter ?p Z"] by simp
qed

lemma replay_parts:
  assumes parts: "log_parts D P C s" and good: "list_all ev_good (P @ C)"
    and json: "\<And>e. e \<in> set (P @ C) \<Longrightarrow> json (text_of e) = Some e"
    and later: "list_all ev_good later" "sorted_wrt (<) (map ev_seq later)" "\<forall>e \<in> set later. written_seq s < ev_seq e"
  shows "replay_events json after (take_snapshot s) (grown later (sn_files (take_snapshot s)))
    = filter (\<lambda>e. after < ev_seq e) (P @ C)"
proof -
  note d = log_partsD [OF parts]
  let ?sn = "take_snapshot s"
  have srt: "sorted_wrt (<) (map ev_seq (P @ C))" using d(7) by (auto simp: sorted_wrt_append)
  have u: "sn_until ?sn = written_seq s" by (simp add: take_snapshot_def)
  obtain Z where Z: "P @ C = Z @ sn_ring ?sn" by (rule snapshot_ring [OF parts])
  consider (late) "written_seq s \<le> after"
    | (ring) "after < written_seq s" "sn_ring ?sn \<noteq> []" "ev_seq (hd (sn_ring ?sn)) \<le> after + 1"
    | (files) "after < written_seq s" "\<not> (sn_ring ?sn \<noteq> [] \<and> ev_seq (hd (sn_ring ?sn)) \<le> after + 1)"
    by linarith
  then show ?thesis
  proof cases
    case late
    then have "filter (\<lambda>e. after < ev_seq e) (P @ C) = []" using d(9) by (fastforce simp: filter_empty_conv)
    then show ?thesis using late by (simp only: replay_events_def u if_True)
  next
    case ring
    have "ev_seq e < ev_seq (hd (sn_ring ?sn))" if "e \<in> set Z" for e
      using srt ring(2) that unfolding Z by (cases "sn_ring ?sn") (auto simp: sorted_wrt_append)
    then have "filter (\<lambda>e. after < ev_seq e) Z = []" using ring(3) by (fastforce simp: filter_empty_conv)
    then show ?thesis unfolding Z using ring by (simp add: replay_events_def u)
  next
    case files
    then show ?thesis
      using files_stream [OF parts good srt json later] by (simp only: replay_events_def u) simp
  qed
qed

text \<open>Claim C5. A replay is exact while the disk is. After any run of the log in which no write is torn but by a crash
  (an append may fail, but then leaves nothing of its line), every rotation's rename and every meta write succeeds, and in which
  the lines read back as the events that were written, a replay from \<open>after\<close> delivers, in order and once each,
  exactly the events of the session's history with a greater seq that rotation has not dropped, whether the ring
  or the files serve it and however much was appended while it streamed; and when the replay does not say
  "truncated", these are all the events the client lacks. A torn write is the exception: the next acknowledged
  event is written onto its line and a replay skips it (\<open>torn_write_hides_next\<close>).\<close>

theorem replay_exact:
  assumes "list_all io_whole evs" and "list_all ev_good (log_history limit fresh_log evs)"
    and "\<forall>e \<in> set (log_history limit fresh_log evs). json (text_of e) = Some e"
    and "list_all ev_good later" and "sorted_wrt (<) (map ev_seq later)"
    and "\<forall>e \<in> set later. written_seq (fst (log_run limit fresh_log evs)) < ev_seq e"
  shows "replay_events json after (take_snapshot (fst (log_run limit fresh_log evs)))
      (grown later (sn_files (take_snapshot (fst (log_run limit fresh_log evs)))))
    = filter (\<lambda>e. after < ev_seq e \<and> first_seq (fst (log_run limit fresh_log evs)) \<le> ev_seq e)
        (log_history limit fresh_log evs) \<and>
   (\<not> replay_truncated after (take_snapshot (fst (log_run limit fresh_log evs))) \<longrightarrow>
    replay_events json after (take_snapshot (fst (log_run limit fresh_log evs)))
      (grown later (sn_files (take_snapshot (fst (log_run limit fresh_log evs)))))
    = filter (\<lambda>e. after < ev_seq e) (log_history limit fresh_log evs))"
proof -
  let ?s = "fst (log_run limit fresh_log evs)" and ?H = "log_history limit fresh_log evs"
  obtain D P C where H: "?H = D @ P @ C" and parts: "log_parts D P C ?s"
    using fresh_run_ok [OF assms(1,2)] by (auto simp: log_ok_def)
  note d = log_partsD [OF parts]
  have r: "replay_events json after (take_snapshot ?s) (grown later (sn_files (take_snapshot ?s)))
      = filter (\<lambda>e. after < ev_seq e) (P @ C)"
    using assms(2,3,4,5,6) unfolding H by (intro replay_parts [OF parts]) simp_all
  have D: "filter (\<lambda>e. after < ev_seq e \<and> first_seq ?s \<le> ev_seq e) D = []"
    by (auto simp: filter_empty_conv dest!: d(5))
  have PC: "filter (\<lambda>e. after < ev_seq e \<and> first_seq ?s \<le> ev_seq e) (P @ C) = filter (\<lambda>e. after < ev_seq e) (P @ C)"
    by (rule filter_cong [OF refl]) (use d(6) in auto)
  have all: "filter (\<lambda>e. after < ev_seq e) ?H = filter (\<lambda>e. after < ev_seq e) (P @ C)"
    if "\<not> replay_truncated after (take_snapshot ?s)"
  proof -
    have "ev_seq e \<le> after" if "e \<in> set D" for e
      using d(5,9) [of e] that \<open>\<not> replay_truncated after (take_snapshot ?s)\<close>
      by (auto simp: replay_truncated_def take_snapshot_def)
    then have "filter (\<lambda>e. after < ev_seq e) D = []" by (fastforce simp: filter_empty_conv)
    then show ?thesis by (simp add: H)
  qed
  show ?thesis using r D PC all by (simp add: H)
qed

subsection \<open>Concrete runs\<close>

definition io_fine :: log_io where "io_fine = \<lparr>io_rename = True, io_write = None, io_meta = True\<rparr>"
definition io_full :: log_io where "io_full = \<lparr>io_rename = True, io_write = Some 0, io_meta = True\<rparr>"

text \<open>Two events, a failed write between them; every file over 40 bytes rotates.\<close>

definition sample_log_events :: "log_event list" where
  "sample_log_events = [LogGoes io_fine, Append 5 ''prompt\"}'' True, LogGoes io_fine, Append 6 ''lost\"}'' False,
     LogGoes io_full, Append 7 ''turn_end\"}'' True, LogGoes io_fine]"

lemmas log_eval = new_log_def open_log_def recover_def inspect_none append_event_def remember_def Let_def log_goes_def
  write_event_def rotate_log_def write_meta_now_def append_bytes_def forget_def RING_def RING_BYTES_def io_fine_def
  io_full_def

lemma dec_digit: "n < 10 \<Longrightarrow> dec_nat n = [digit_char n]"
  by (subst dec_nat.simps) simp

lemma line_length: "length (line_of e) = 23 + length (dec_nat (ev_seq e)) + length (dec_nat (ev_ts e)) + length (ev_body e)"
  by (simp add: line_of_def text_of_def)

definition event1 :: event where "event1 = \<lparr>ev_seq = 1, ev_ts = 5, ev_body = ''prompt\"}''\<rparr>"
definition event3 :: event where "event3 = \<lparr>ev_seq = 3, ev_ts = 7, ev_body = ''turn_end\"}''\<rparr>"

lemma sample_inspect: "inspect_file False (Some (line_of \<lparr>ev_seq = 1, ev_ts = 5, ev_body = ''prompt\"}''\<rparr>)) =
   (\<lparr>in_size = 33, in_seq = 1, in_first = Some 1\<rparr>, Some (line_of event1))"
  using inspect_lines [of "[event1]" "[]" False]
  by (simp add: ev_good_def ev_clean_def file_seq_def line_length dec_digit event1_def)

lemma sample_log_state:
  "log_run 40 fresh_log sample_log_events =
   (\<lparr>last_seq = 3, written_seq = 3, first_seq = 1, truncated = False, ring = [(event1, 33), (event3, 35)], ring_bytes = 68,
     file_bytes = 35, cur_file = Some (line_of event3), old_file = Some (line_of event1), disk_meta = Some (3, 1, False),
     tasks = [], log_closed = False\<rparr>, [Appended 1, AppendFailed 2, Appended 3])"
  by (simp add: sample_log_events_def log_eval line_length dec_digit sample_inspect [unfolded One_nat_def] split_beta)
    (simp add: event1_def event3_def numeral_3_eq_3)

lemma sample_log_history: "log_history 40 fresh_log sample_log_events = [event1, event3]"
  by (simp add: sample_log_events_def log_eval line_length dec_digit sample_inspect [unfolded One_nat_def] split_beta)
    (simp add: event1_def event3_def numeral_3_eq_3)

lemma sample_whole: "list_all io_whole sample_log_events"
  by (simp add: sample_log_events_def io_fine_def io_full_def)

lemma sample_good: "list_all ev_good [event1, event3]"
  by (simp add: ev_good_def ev_clean_def event1_def event3_def)

theorem log_seqs_unique_witness:
  "sorted_wrt (<) (map ev_seq (log_history 40 fresh_log sample_log_events)) \<and>
   (\<exists>n. Appended n \<in> set (snd (log_run 40 fresh_log sample_log_events))) \<and>
   3 \<in> ev_seq ` set (log_history 40 fresh_log sample_log_events)"
  using log_seqs_unique [OF sample_whole, of 40] sample_good by (auto simp: sample_log_history sample_log_state)

text \<open>A reader of the two lines.\<close>

definition sample_json :: "string \<Rightarrow> event option" where
  "sample_json l = (if l = text_of event1 then Some event1 else if l = text_of event3 then Some event3 else None)"

theorem replay_exact_witness:
  "replay_events sample_json 1 (take_snapshot (fst (log_run 40 fresh_log sample_log_events)))
      (grown [] (sn_files (take_snapshot (fst (log_run 40 fresh_log sample_log_events))))) = [event3]"
proof -
  have "text_of event3 \<noteq> text_of event1" using line_prefix_text [of event1] line_prefix_text [of event3]
    by (auto simp: event1_def event3_def)
  then have "\<forall>e \<in> set (log_history 40 fresh_log sample_log_events). sample_json (text_of e) = Some e"
    by (simp add: sample_log_history sample_json_def)
  from replay_exact [OF sample_whole _ this, of "[]" 1] sample_good show ?thesis
    by (simp add: sample_log_history sample_log_state) (simp add: event1_def event3_def)
qed

subsection \<open>The ring\<close>

text \<open>The memory a log holds is bounded: in every reachable state the ring has at most 256 events, of at most
  eight mebibytes together unless a single event is larger, and \<open>ringBytes\<close> is their exact total, also after
  failed writes.\<close>

theorem ring_bounded:
  assumes "list_all io_whole evs" and "list_all ev_good (log_history limit fresh_log evs)"
  shows "length (ring (fst (log_run limit fresh_log evs))) \<le> 256 \<and>
    ring_bytes (fst (log_run limit fresh_log evs)) = sum_list (map snd (ring (fst (log_run limit fresh_log evs)))) \<and>
    (ring_bytes (fst (log_run limit fresh_log evs)) \<le> 8388608 \<or> length (ring (fst (log_run limit fresh_log evs))) \<le> 1)"
proof -
  obtain D P C where parts: "log_parts D P C (fst (log_run limit fresh_log evs))"
    using fresh_run_ok [OF assms] by (auto simp: log_ok_def)
  show ?thesis using log_partsD(14-16) [OF parts] by (auto simp: RING_def RING_BYTES_def)
qed

theorem ring_bounded_witness:
  "length (ring (fst (log_run 40 fresh_log sample_log_events))) \<le> 256 \<and>
   length (ring (fst (log_run 40 fresh_log sample_log_events))) = 2"
  using ring_bounded [OF sample_whole, of 40] sample_good by (simp add: sample_log_history sample_log_state)

text \<open>A write that fails half way leaves its bytes in the file; the next, acknowledged, event continues that line and a
  replay from the file loses it.\<close>

lemma torn_write_hides_next:
  "log_run 1000 fresh_log [LogGoes io_fine, Append 5 ''prompt\"}'' True, LogGoes (io_full\<lparr>io_write := Some 30\<rparr>),
      Append 7 ''x\"}'' True, LogGoes io_fine] =
    (s, outs) \<Longrightarrow>
   Appended 2 \<in> set outs \<and> cur_file s = Some (take 30 (line_of event1) @ line_of \<lparr>ev_seq = 2, ev_ts = 7, ev_body = ''x\"}''\<rparr>)"
  by (auto simp: log_eval line_length dec_digit split_beta event1_def line_of_def text_of_def digit_char_def)

end
