(* ===== verification/Broker.thy ===== *)
theory Broker
  imports Ordered_Map
begin

text \<open>
  The session broker's turns (runtime/lib/session-broker.js): admission of prompts, binding to the engine, the
  turn with its engine prompts, citation check and end, cancel and its watchdog, permission requests, and the
  engine restart that reconnects missing tools. A \<open>prompt\<close> call is a \<open>run\<close>: a suspended computation whose phase is the
  \<open>await\<close> it stands at; \<open>RunGoes\<close> resumes it with what that await returned. Conversations are numbered in the order the
  broker registered them, engine calls, bindings and permission requests in the order they were made.
\<close>

datatype turn_state = TurnIdle | TurnRunning | TurnEnding

record permission =
  pm_rpc :: "nat option"
  pm_gen :: int
  pm_options :: "(string \<times> string) list" \<comment> \<open>\<open>optionId\<close>, \<open>kind\<close>\<close>

datatype perm_outcome = Selected string | PermCancelled

datatype perm_by = ByUser | ByCancel | ByTimeout | ByEngine | ByExit | ByTurnEnd | ByPolicy

record response =
  rs_stop :: string
  rs_reason :: "string option"
  rs_error :: "string option"
  rs_cite_failed :: bool
  rs_forced :: bool
  rs_busy :: bool

definition plain_response :: "string \<Rightarrow> response" where
  "plain_response st = \<lparr>rs_stop = st, rs_reason = None, rs_error = None, rs_cite_failed = False, rs_forced = False,
     rs_busy = False\<rparr>"

definition cancelled_response :: "string \<Rightarrow> response" where
  "cancelled_response why = (plain_response ''cancelled'')\<lparr>rs_reason := Some why\<rparr>"

text \<open>An error of an engine call, as \<open>#turnFailure\<close> reads it: \<open>er_denial\<close> is what \<open>managedDenial\<close> finds in it.\<close>

record engine_error =
  er_code :: "int option"
  er_name :: "string option"
  er_message :: string
  er_denial :: "(string \<times> string \<times> string) option" \<comment> \<open>code, message, recovery\<close>

datatype answer = Reply response | Throws engine_error

datatype bind_result = BindOk | BindLost | BindFailed

record binding =
  b_conv :: nat
  b_gen :: int
  b_result :: "bind_result option"

text \<open>Where a prompt stands. \<open>second\<close> tells the correction prompt from the user's; a prompt sent again after a lost
  binding (\<open>retried\<close>) carries the call it repeats.\<close>

datatype phase =
    FindSub
  | Checking
  | MemCheck
  | WaitEngine
  | WaitBind nat
  | Refreshing
  | Setup
  | WaitPrev bool "nat option"
  | InCall nat int bool "nat option"
  | Answered "nat option" int answer bool "nat option"
  | WaitRebind nat bool "nat option"
  | CiteAsk response
  | CiteTell response
  | Failing engine_error
  | Finish response
  | EndAppend response
  | EndTouch response
  | Settled

record run =
  r_conv :: nat
  r_sub :: "string option"
  r_phase :: phase

record conv =
  cv_mode :: string
  cv_archived :: bool
  cv_lost :: bool
  cv_turn :: turn_state
  cv_started :: "int option"
  cv_sub :: "string option"
  cv_inflight :: "(string, nat) omap"
  cv_admitting :: "(nat, string option \<times> bool) omap" \<comment> \<open>run, its submission and its \<open>cancelled\<close>\<close>
  cv_cancel :: bool
  cv_force :: "nat option"
  cv_timer :: "int option" \<comment> \<open>the watchdog, with the turn start it captured\<close>
  cv_engine_prompt :: "nat option"
  cv_pending :: "(nat, permission) omap"
  cv_bound :: int
  cv_binding :: "nat option"
  cv_subs :: "(string \<times> string option) list" \<comment> \<open>\<open>log.meta.submissions\<close>: the stop reason of a done one\<close>

text \<open>A permission request before it is registered: its handler awaits the session's log or, when the policy has decided
  (\<open>ak_policy\<close>), the two appends that record it.\<close>

record ask =
  ak_conv :: nat
  ak_rpc :: "nat option"
  ak_options :: "(string \<times> string) list"
  ak_policy :: "perm_outcome option"

record broker =
  convs :: "conv list"
  runs :: "run list"
  binds :: "binding list"
  open_calls :: "nat list"
  next_call :: nat
  next_req :: nat
  asking :: "(nat, ask) omap" \<comment> \<open>requests not yet registered\<close>
  telling :: "(nat, nat) omap" \<comment> \<open>registered ones whose record is being written, with their conversation\<close>
  eng_gen :: int
  eng_ready :: bool
  eng_tools_missing :: bool
  engine_users :: nat
  tr_wanted :: bool
  tr_running :: bool
  tr_at :: "int list"
  br_closed :: bool

record broker_cfg =
  max_running :: nat

datatype refusal = Archived | Lost | Busy | Capacity | NotReady | ModelUnavailable | InvalidPrompt | ServerError

datatype broker_out =
    Refused nat refusal
  | SharesRun nat nat
  | Duplicate nat
  | TurnStarted nat nat
  | EngineCall nat nat
  | EngineCancel nat
  | CloseSession nat
  | ErrorLine nat string
  | Notice nat
  | TurnEndWritten nat nat response
  | TurnOver nat nat
  | PromptDone nat response
  | Asked nat nat
  | PermLogged nat perm_outcome perm_by
  | RuleKept nat
  | Resolved nat perm_outcome
  | UnknownResolved
  | PermissionLost nat
  | EngineRestart

type_synonym broker_result = "broker \<times> broker_out list"

definition SUBMISSIONS_KEPT :: nat where "SUBMISSIONS_KEPT = 64"
definition TOOLS_RESTART_MAX :: nat where "TOOLS_RESTART_MAX = 3"
definition TOOLS_RESTART_WINDOW_MS :: int where "TOOLS_RESTART_WINDOW_MS = 10 * 60 * 1000"

definition broker_init :: "int \<Rightarrow> broker" where
  "broker_init g = \<lparr>convs = [], runs = [], binds = [], open_calls = [], next_call = 0, next_req = 0, asking = [],
     telling = [], eng_gen = g,
     eng_ready = False, eng_tools_missing = False, engine_users = 0, tr_wanted = False, tr_running = False, tr_at = [],
     br_closed = False\<rparr>"

definition new_conv :: "string \<Rightarrow> bool \<Rightarrow> bool \<Rightarrow> conv" where
  "new_conv mode archived lost = \<lparr>cv_mode = mode, cv_archived = archived, cv_lost = lost, cv_turn = TurnIdle,
     cv_started = None, cv_sub = None, cv_inflight = [], cv_admitting = [], cv_cancel = False, cv_force = None,
     cv_timer = None, cv_engine_prompt = None, cv_pending = [], cv_bound = - 1, cv_binding = None, cv_subs = []\<rparr>"

definition mod_conv :: "nat \<Rightarrow> (conv \<Rightarrow> conv) \<Rightarrow> broker \<Rightarrow> broker" where
  "mod_conv c f s = s\<lparr>convs := (convs s)[c := f (convs s ! c)]\<rparr>"

definition set_phase :: "nat \<Rightarrow> phase \<Rightarrow> broker \<Rightarrow> broker" where
  "set_phase n ph s = s\<lparr>runs := (runs s)[n := (runs s ! n)\<lparr>r_phase := ph\<rparr>]\<rparr>"

definition b_then :: "broker_result \<Rightarrow> (broker \<Rightarrow> broker_result) \<Rightarrow> broker_result" where
  "b_then r f = (case r of (s, o1) \<Rightarrow> (case f s of (s', o2) \<Rightarrow> (s', o1 @ o2)))"

subsection \<open>Admission\<close>

definition running_count :: "broker \<Rightarrow> nat" where
  "running_count s = length (filter (\<lambda>c. cv_turn c \<noteq> TurnIdle) (convs s))"

text \<open>\<open>#assertCanRun\<close>: the refusal, if any.\<close>

definition cannot_run :: "broker_cfg \<Rightarrow> nat \<Rightarrow> broker \<Rightarrow> refusal option" where
  "cannot_run cfg c s =
    (if cv_turn (convs s ! c) \<noteq> TurnIdle then Some Busy
     else if running_count s \<ge> max_running cfg then Some Capacity else None)"

text \<open>The \<open>finally\<close> of a prompt, and the removal of its shared promise.\<close>

definition settle :: "nat \<Rightarrow> broker \<Rightarrow> broker" where
  "settle n s = set_phase n Settled (mod_conv (r_conv (runs s ! n)) (\<lambda>c. c\<lparr>cv_admitting := om_delete n (cv_admitting c),
     cv_inflight := (case r_sub (runs s ! n) of None \<Rightarrow> cv_inflight c | Some x \<Rightarrow> om_delete x (cv_inflight c))\<rparr>) s)"

definition refuse :: "nat \<Rightarrow> refusal \<Rightarrow> broker \<Rightarrow> broker_result" where
  "refuse n why s = (settle n s, [Refused n why])"

definition prompt_once :: "nat \<Rightarrow> string option \<Rightarrow> broker \<Rightarrow> broker_result" where
  "prompt_once c sub s =
    (let n = length (runs s);
         s1 = s\<lparr>runs := runs s @ [\<lparr>r_conv = c, r_sub = sub, r_phase = (if sub = None then Checking else FindSub)\<rparr>]\<rparr>;
         s2 = mod_conv c (\<lambda>v. v\<lparr>cv_inflight := (case sub of None \<Rightarrow> cv_inflight v | Some x \<Rightarrow> om_set x n (cv_inflight v))\<rparr>) s1
     in if br_closed s then refuse n NotReady s2
        else (mod_conv c (\<lambda>v. v\<lparr>cv_admitting := om_set n (sub, False) (cv_admitting v)\<rparr>) s2, []))"

definition prompt :: "nat \<Rightarrow> string option \<Rightarrow> broker \<Rightarrow> broker_result" where
  "prompt c sub s =
    (let v = convs s ! c in
     if cv_archived v then (s, [Refused (length (runs s)) (if cv_lost v then Lost else Archived)])
     else (case sub of
       None \<Rightarrow> prompt_once c None s
     | Some x \<Rightarrow> if x = [] \<or> 128 < length x then (s, [Refused (length (runs s)) InvalidPrompt]) else (case om_get (cv_inflight v) x of Some n \<Rightarrow> (s, [SharesRun c n]) | None \<Rightarrow> prompt_once c sub s)))"

subsection \<open>Binding\<close>

definition bind_conv :: "nat \<Rightarrow> broker \<Rightarrow> broker \<times> nat option" where
  "bind_conv c s =
    (let v = convs s ! c in
     if cv_bound v = eng_gen s then (s, None)
     else (case cv_binding v of
       Some b \<Rightarrow> if b_gen (binds s ! b) = eng_gen s then (s, Some b) else
         (mod_conv c (\<lambda>v. v\<lparr>cv_binding := Some (length (binds s))\<rparr>)
            (s\<lparr>binds := binds s @ [\<lparr>b_conv = c, b_gen = eng_gen s, b_result = None\<rparr>]\<rparr>), Some (length (binds s)))
     | None \<Rightarrow>
         (mod_conv c (\<lambda>v. v\<lparr>cv_binding := Some (length (binds s))\<rparr>)
            (s\<lparr>binds := binds s @ [\<lparr>b_conv = c, b_gen = eng_gen s, b_result = None\<rparr>]\<rparr>), Some (length (binds s)))))"

text \<open>The resume of binding \<open>b\<close> returned: it worked, the engine does not know the session, or it failed.\<close>

datatype resume = Resumed | NotFound | ResumeFailed

definition bind_returns :: "nat \<Rightarrow> resume \<Rightarrow> broker \<Rightarrow> broker" where
  "bind_returns b r s =
    (if b \<ge> length (binds s) \<or> b_result (binds s ! b) \<noteq> None then s
     else (let c = b_conv (binds s ! b);
               res = (case r of Resumed \<Rightarrow> if eng_gen s = b_gen (binds s ! b) then BindOk else BindFailed
                              | NotFound \<Rightarrow> BindLost | ResumeFailed \<Rightarrow> BindFailed);
               s1 = s\<lparr>binds := (binds s)[b := (binds s ! b)\<lparr>b_result := Some res\<rparr>]\<rparr>
           in mod_conv c (\<lambda>v. v\<lparr>cv_binding := None,
                cv_bound := (if res = BindOk then b_gen (binds s ! b) else cv_bound v),
                cv_archived := (res = BindLost \<or> cv_archived v), cv_lost := (res = BindLost \<or> cv_lost v)\<rparr>) s1))"

subsection \<open>Permissions\<close>

text \<open>What the engine is told: a yes for ever becomes a yes for once.\<close>

definition engine_outcome :: "permission \<Rightarrow> perm_outcome \<Rightarrow> perm_outcome \<times> bool" where
  "engine_outcome p oc =
    (case oc of
       PermCancelled \<Rightarrow> (oc, False)
     | Selected i \<Rightarrow>
        (case List.find (\<lambda>op. fst op = i) (pm_options p) of
           Some op \<Rightarrow>
             (if snd op = ''allow_always''
              then (case List.find (\<lambda>op. snd op = ''allow_once'') (pm_options p) of
                      Some once \<Rightarrow> (Selected (fst once), True) | None \<Rightarrow> (oc, True))
              else (oc, False))
         | None \<Rightarrow> (oc, False)))"

definition conv_of_req :: "nat \<Rightarrow> broker \<Rightarrow> nat option" where
  "conv_of_req q s = List.find (\<lambda>c. om_has (cv_pending (convs s ! c)) q) [0..<length (convs s)]"

definition answer_permission :: "nat \<Rightarrow> perm_outcome \<Rightarrow> perm_by \<Rightarrow> broker \<Rightarrow> broker_result" where
  "answer_permission q oc by_whom s =
    (case conv_of_req q s of
       None \<Rightarrow> (s, [])
     | Some c \<Rightarrow>
        (case om_get (cv_pending (convs s ! c)) q of
           None \<Rightarrow> (s, [])
         | Some p \<Rightarrow>
            (case engine_outcome p oc of (eo, keep) \<Rightarrow>
              (mod_conv c (\<lambda>v. v\<lparr>cv_pending := om_delete q (cv_pending v)\<rparr>) s,
               PermLogged q oc by_whom # (if keep then [RuleKept q] else []) @ [Resolved q eo]))))"

fun answer_all :: "nat list \<Rightarrow> perm_by \<Rightarrow> broker \<Rightarrow> broker_result" where
  "answer_all [] w s = (s, [])"
| "answer_all (q # qs) w s = b_then (answer_permission q PermCancelled w s) (answer_all qs w)"

definition cancel_pending :: "nat \<Rightarrow> perm_by \<Rightarrow> broker \<Rightarrow> broker_result" where
  "cancel_pending c w s = answer_all (om_keys (cv_pending (convs s ! c))) w s"

definition first_option :: "string \<Rightarrow> (string \<times> string) list \<Rightarrow> (string \<times> string) \<Rightarrow> string" where
  "first_option k ops other = fst (case List.find (\<lambda>op. snd op = k) ops of Some op \<Rightarrow> op | None \<Rightarrow> other)"

text \<open>A request of the engine arrives; its handler awaits \<open>#logFor\<close>.\<close>

definition engine_permission :: "nat \<Rightarrow> nat option \<Rightarrow> (string \<times> string) list \<Rightarrow> broker \<Rightarrow> broker_result" where
  "engine_permission c rpc ops s =
    (if c \<ge> length (convs s) \<or> ops = [] then (s, [UnknownResolved])
     else (s\<lparr>next_req := next_req s + 1,
              asking := om_set (next_req s) \<lparr>ak_conv = c, ak_rpc = rpc, ak_options = ops, ak_policy = None\<rparr> (asking s)\<rparr>, []))"

text \<open>Its handler goes on: the log was opened or its record written (\<open>ok\<close>), or that failed. \<open>allowed\<close> is \<open>prefs.isAllowed\<close> of
  its tool call. A failure before the request is registered, or while the policy's answer is recorded, rejects the
  handler, and nothing answers the request any more.\<close>

definition register_ask :: "nat \<Rightarrow> ask \<Rightarrow> broker \<Rightarrow> broker" where
  "register_ask q a s =
    mod_conv (ak_conv a) (\<lambda>v. v\<lparr>cv_pending := om_set q \<lparr>pm_rpc = ak_rpc a, pm_gen = eng_gen s, pm_options = ak_options a\<rparr>
      (cv_pending v)\<rparr>) (s\<lparr>asking := om_delete q (asking s), telling := om_set q (ak_conv a) (telling s)\<rparr>)"

definition permission_goes :: "nat \<Rightarrow> bool \<Rightarrow> bool \<Rightarrow> broker \<Rightarrow> broker_result" where
  "permission_goes q ok allowed s =
    (case om_get (asking s) q of
       Some a \<Rightarrow>
        (if \<not> ok then (s\<lparr>asking := om_delete q (asking s)\<rparr>, [PermissionLost q])
         else (case ak_policy a of
             Some oc \<Rightarrow> (s\<lparr>asking := om_delete q (asking s)\<rparr>, [PermLogged q oc ByPolicy, Resolved q oc])
           | None \<Rightarrow>
              (if allowed
               then (s\<lparr>asking := om_set q (a\<lparr>ak_policy :=
                      Some (Selected (first_option ''allow_once'' (ak_options a) (hd (ak_options a))))\<rparr>) (asking s)\<rparr>, [])
               else (register_ask q a s, []))))
     | None \<Rightarrow>
        (case om_get (telling s) q of
           Some c \<Rightarrow> (s\<lparr>telling := om_delete q (telling s)\<rparr>, if ok then [Asked c q] else [])
         | None \<Rightarrow> (s, [])))"

definition permission_times_out :: "nat \<Rightarrow> broker \<Rightarrow> broker_result" where
  "permission_times_out q s =
    (case conv_of_req q s of
       None \<Rightarrow> (s, [])
     | Some c \<Rightarrow>
        (case om_get (cv_pending (convs s ! c)) q of
           None \<Rightarrow> (s, [])
         | Some p \<Rightarrow> answer_permission q (Selected (first_option ''reject_once'' (pm_options p) (last (pm_options p)))) ByTimeout s))"

text \<open>\<open>$/cancel_request\<close>: the first pending request with that id, of this generation.\<close>

definition engine_cancels :: "nat \<Rightarrow> broker \<Rightarrow> broker_result" where
  "engine_cancels rpc s =
    (case List.find (\<lambda>qp. pm_rpc (snd qp) = Some rpc \<and> pm_gen (snd qp) = eng_gen s)
            (concat (map cv_pending (convs s))) of
       None \<Rightarrow> (s, [])
     | Some (q, _) \<Rightarrow> answer_permission q PermCancelled ByEngine s)"

fun cancel_pendings :: "nat list \<Rightarrow> perm_by \<Rightarrow> broker \<Rightarrow> broker_result" where
  "cancel_pendings [] w s = (s, [])"
| "cancel_pendings (c # cs) w s = b_then (cancel_pending c w s) (cancel_pendings cs w)"

definition engine_exits :: "bool \<Rightarrow> broker \<Rightarrow> broker_result" where
  "engine_exits expected s =
    (let s1 = s\<lparr>eng_ready := False\<rparr> in
     if expected then (s1, []) else cancel_pendings [0..<length (convs s)] ByExit s1)"

end
