(* ===== verification/Broker_Turn.thy ===== *)
theory Broker_Turn
  imports Broker
begin

text \<open>
  The phases of a prompt and the broker's events (runtime/lib/session-broker.js): \<open>#promptOnce\<close>, \<open>#runTurn\<close>,
  \<open>#enginePrompt\<close>, \<open>#citationCheck\<close>, \<open>#turnFailure\<close>, \<open>#endTurn\<close>, \<open>cancel\<close> with its watchdog, and
  \<open>#maybeRestartForTools\<close>.
\<close>

text \<open>What a resumed prompt finds: whether its \<open>await\<close> succeeded, the time, the flagged citations, the engine's
  health, whether the log opened (a turn's end) and whether the processes of a cancelled turn stopped.\<close>

record obs =
  ob_ok :: bool
  ob_now :: int
  ob_flagged :: "string list"
  ob_healthy :: bool
  ob_attachments :: bool
  ob_log :: bool

subsection \<open>Failures\<close>

definition lower_has :: "string \<Rightarrow> string \<Rightarrow> bool" where
  "lower_has s p \<longleftrightarrow> has_sub (js_lower s) p"

definition is_session_not_found :: "engine_error \<Rightarrow> bool" where
  "is_session_not_found e \<longleftrightarrow> er_code e = Some (- 32602) \<and> lower_has (er_message e) ''session not found''"

definition is_engine_busy :: "engine_error \<Rightarrow> bool" where
  "is_engine_busy e \<longleftrightarrow> lower_has (er_message e) ''already has an active acp prompt''"

text \<open>\<open>/^Internal error:\s*/i\<close> removed.\<close>

definition clean_message :: "engine_error \<Rightarrow> string" where
  "clean_message e = (if prefix ''internal error:'' (js_lower (er_message e))
     then dropWhile is_space (drop 15 (er_message e)) else er_message e)"

definition agent_role :: "string \<Rightarrow> string" where
  "agent_role m = (if m = ''geology'' then ''Geology'' else if m = ''standard'' then ''Standard''
     else if m = ''report-analysis'' then ''Report analysis'' else ''Workspace'')"

text \<open>\<open>#turnFailure\<close>: the line for the transcript, if any, and the turn's response.\<close>

definition turn_failure :: "string \<Rightarrow> engine_error \<Rightarrow> obs \<Rightarrow> string option \<times> response" where
  "turn_failure mode e ob =
    (let name = er_name e; message = clean_message e; agent = mode @ '' agent'';
         failed = (\<lambda>text kind. (Some text, (cancelled_response ''error'')\<lparr>rs_error := Some kind\<rparr>)) in
     case er_denial e of
       Some (code, m, recovery) \<Rightarrow>
         (Some (''Error: the '' @ agent @ '''s model request paused. '' @ m @
            '' Completed results remain in this conversation. Next step: '' @ recovery),
          (cancelled_response ''paused_for_usage'')\<lparr>rs_error := Some code\<rparr>)
     | None \<Rightarrow>
       (if name = Some ''PermissionNotFoundError'' then (None, cancelled_response ''cancelled'')
        else if name = Some ''EngineExited'' \<or> er_code e = Some (- 32003) \<or> (name = Some ''ClientError'' \<and> \<not> ob_healthy ob)
        then (Some (''Error: the agent engine stopped during this turn and is restarting ('' @ agent @
                ''). Next step: send your message again to continue the conversation.''), cancelled_response ''server_restart'')
        else if is_engine_busy e then (None, (cancelled_response ''error'')\<lparr>rs_busy := True\<rparr>)
        else if er_code e = Some (- 32000)
        then failed (''Error: the '' @ agent_role mode @ '' assistant's model request could not be authenticated. Next step: '' @
               ''update the runtime's model credentials to restore model access, then send your message again.'') ''provider.auth''
        else if name = Some ''provider.quota''
        then failed (''Error: the model provider reports insufficient credits ('' @ message @ '') for the '' @ agent @
               ''. Next step: add credits or ask your administrator, then send the message again.'') ''provider.quota''
        else if name = Some ''provider.rate-limit''
        then failed (''Error: the model provider kept rate-limiting the '' @ agent @ '' after 3 retries ('' @ message @
               ''). Next step: wait a minute, then send the message again.'') ''provider.rate-limit''
        else if name = Some ''provider.internal'' \<or> name = Some ''provider.transport''
        then failed (''Error: the model provider failed for the '' @ agent @ '' after 3 retries ('' @ message @
               ''). Next step: send the message again, or choose another model.'') (the name)
        else if ob_attachments ob \<and> (name = Some ''ClientError'' \<or> name = Some ''InvalidRequestError'')
        then failed (''Error: the engine could not take the attached file(s) into the '' @ agent @ '''s message ('' @ message @
               ''). Next step: send the message without the attachment, mention the file's path instead and ask the agent to inspect it.'')
               ''attachment''
        else if name = Some ''provider.invalid-request''
        then failed (''Error: the model provider rejected the request from the '' @ agent @ '' ('' @ message @
               ''). Next step: shorten the message or its attachments, or choose another model.'') ''provider.invalid-request''
        else failed (''Error: the '' @ agent @ '' failed ('' @ message @
               ''). Next step: send the message again; if it keeps failing, start a new conversation.'')
               (case name of Some k \<Rightarrow> k | None \<Rightarrow> ''engine'')))"

subsection \<open>The engine's prompt\<close>

text \<open>The engine call itself, unless the turn was cancelled meanwhile.\<close>

definition call_now :: "nat \<Rightarrow> bool \<Rightarrow> nat option \<Rightarrow> broker \<Rightarrow> broker_result" where
  "call_now n second retried s =
    (let c = r_conv (runs s ! n) in
     if cv_cancel (convs s ! c)
     then (set_phase n (Answered retried (eng_gen s) (Reply (cancelled_response ''cancelled'')) second retried) s, [])
     else (let k = next_call s in
       (set_phase n (InCall k (eng_gen s) second retried)
          (mod_conv c (\<lambda>v. v\<lparr>cv_engine_prompt := Some k, cv_force := Some k\<rparr>)
             (s\<lparr>next_call := k + 1, open_calls := open_calls s @ [k]\<rparr>)),
        [EngineCall c k])))"

definition engine_prompt :: "nat \<Rightarrow> bool \<Rightarrow> nat option \<Rightarrow> broker \<Rightarrow> broker_result" where
  "engine_prompt n second retried s =
    (if cv_engine_prompt (convs s ! r_conv (runs s ! n)) \<noteq> None then (set_phase n (WaitPrev second retried) s, [])
     else call_now n second retried s)"

text \<open>The engine answers call \<open>k\<close>; a prompt that still waits for it goes on with the answer.\<close>

definition in_call :: "nat \<Rightarrow> run \<Rightarrow> bool" where
  "in_call k r \<longleftrightarrow> (case r_phase r of InCall k' g second retried \<Rightarrow> k' = k | _ \<Rightarrow> False)"

definition answer_run :: "nat \<Rightarrow> answer \<Rightarrow> run \<Rightarrow> run" where
  "answer_run k a r = (case r_phase r of
     InCall k' g second retried \<Rightarrow> if k' = k then r\<lparr>r_phase := Answered (Some k) g a second retried\<rparr> else r
   | _ \<Rightarrow> r)"

definition call_returns :: "nat \<Rightarrow> answer \<Rightarrow> broker \<Rightarrow> broker" where
  "call_returns k a s =
    (if k \<notin> set (open_calls s) then s
     else s\<lparr>open_calls := removeAll k (open_calls s),
            convs := map (\<lambda>v. if cv_engine_prompt v = Some k then v\<lparr>cv_engine_prompt := None\<rparr> else v) (convs s),
            runs := map (answer_run k a) (runs s)\<rparr>)"

subsection \<open>The end of a turn\<close>

definition with_reason :: "response \<Rightarrow> response" where
  "with_reason r = (if rs_stop r = ''cancelled'' \<and> rs_reason r = None then r\<lparr>rs_reason := Some ''cancelled''\<rparr> else r)"

text \<open>\<open>#endTurn\<close> up to its first \<open>await\<close>.\<close>

definition end_turn :: "nat \<Rightarrow> response \<Rightarrow> broker \<Rightarrow> broker_result" where
  "end_turn n r s =
    (let c = r_conv (runs s ! n) in
     if cv_turn (convs s ! c) \<noteq> TurnRunning then (settle n s, [PromptDone n r])
     else b_then (cancel_pending c ByTurnEnd (mod_conv c (\<lambda>v. v\<lparr>cv_turn := TurnEnding, cv_timer := None\<rparr>) s))
            (\<lambda>s'. (set_phase n (EndAppend r) s', [])))"

text \<open>\<open>#rememberSubmission\<close>: at most 64, the newest last.\<close>

definition remember_submission :: "string \<Rightarrow> string option \<Rightarrow> (string \<times> string option) list \<Rightarrow> (string \<times> string option) list" where
  "remember_submission x st subs = take_last SUBMISSIONS_KEPT (filter (\<lambda>p. fst p \<noteq> x) subs @ [(x, st)])"

definition remember_sub :: "nat \<Rightarrow> string option \<Rightarrow> broker \<Rightarrow> broker" where
  "remember_sub c st s =
    (case cv_sub (convs s ! c) of
       None \<Rightarrow> s
     | Some x \<Rightarrow> mod_conv c (\<lambda>v. v\<lparr>cv_subs := remember_submission x st (cv_subs v)\<rparr>) s)"

text \<open>The \<open>turn_end\<close> was appended, or could not be; the conversation is admittable again.\<close>

definition turn_over :: "nat \<Rightarrow> response \<Rightarrow> obs \<Rightarrow> broker \<Rightarrow> broker_result" where
  "turn_over n r ob s =
    (let c = r_conv (runs s ! n);
         s1 = (if ob_log ob then remember_sub c (Some (rs_stop r)) s else s);
         s2 = mod_conv c (\<lambda>v. v\<lparr>cv_sub := None, cv_started := None, cv_turn := TurnIdle\<rparr>) s1
     in (set_phase n (EndTouch r) s2, (if ob_log ob \<and> ob_ok ob then [TurnEndWritten c n r] else []) @ [TurnOver c n]))"

subsection \<open>A prompt goes on\<close>

text \<open>The checks passed: the turn starts.\<close>

definition start_turn :: "nat \<Rightarrow> int \<Rightarrow> broker \<Rightarrow> broker_result" where
  "start_turn n now s =
    (let c = r_conv (runs s ! n);
         was = (case om_get (cv_admitting (convs s ! c)) n of Some (_, x) \<Rightarrow> x | None \<Rightarrow> False)
     in (set_phase n Setup (mod_conv c (\<lambda>v. v\<lparr>cv_admitting := om_delete n (cv_admitting v), cv_turn := TurnRunning,
            cv_started := Some now, cv_sub := r_sub (runs s ! n), cv_cancel := was\<rparr>) s), [TurnStarted c n]))"

definition bind_then_refresh :: "nat \<Rightarrow> broker \<Rightarrow> broker_result" where
  "bind_then_refresh n s =
    (case bind_conv (r_conv (runs s ! n)) s of
       (s', None) \<Rightarrow> (set_phase n Refreshing s', [])
     | (s', Some b) \<Rightarrow> (set_phase n (WaitBind b) s', []))"

definition bind_then_prompt :: "nat \<Rightarrow> bool \<Rightarrow> nat option \<Rightarrow> broker \<Rightarrow> broker_result" where
  "bind_then_prompt n second k s =
    (case bind_conv (r_conv (runs s ! n)) s of
       (s', None) \<Rightarrow> engine_prompt n second k s'
     | (s', Some b) \<Rightarrow> (set_phase n (WaitRebind b second k) s', []))"

definition lost_error :: engine_error where
  "lost_error = \<lparr>er_code = Some (- 32006), er_name = None,
     er_message = ''archived: the agent engine no longer has this conversation; it is read-only - start a new conversation'',
     er_denial = None\<rparr>"

definition not_ready_error :: engine_error where
  "not_ready_error = \<lparr>er_code = Some (- 32003), er_name = None, er_message = ''engine restarting; retry shortly'',
     er_denial = None\<rparr>"

definition own_force :: "nat option \<Rightarrow> conv \<Rightarrow> conv" where
  "own_force k v = (if k \<noteq> None \<and> cv_force v = k then v\<lparr>cv_force := None\<rparr> else v)"

text \<open>The engine's prompt has answered, failed, or was ended by the watchdog.\<close>

definition prompt_answered :: "nat \<Rightarrow> nat option \<Rightarrow> int \<Rightarrow> answer \<Rightarrow> bool \<Rightarrow> nat option \<Rightarrow> obs \<Rightarrow> broker \<Rightarrow> broker_result" where
  "prompt_answered n k g a second retried ob s =
    (let c = r_conv (runs s ! n); done = mod_conv c (own_force k) s in
     case a of
       Throws e \<Rightarrow>
         (if retried = None \<and> is_session_not_found e \<and> eng_gen s = g \<and> \<not> cv_archived (convs s ! c)
          then bind_then_prompt n second k (mod_conv c (\<lambda>v. v\<lparr>cv_bound := - 1\<rparr>) s)
          else (set_phase n (Failing e) done, []))
     | Reply r \<Rightarrow>
         (if rs_stop r \<noteq> ''end_turn'' then (set_phase n (Finish r) done, [])
          else if second then
            (if cv_cancel (convs s ! c) then (set_phase n (Finish (cancelled_response ''cancelled'')) done, [])
             else if ob_flagged ob = [] then (set_phase n (Finish r) done, [])
             else (set_phase n (CiteTell r) done, []))
          else if cv_mode (convs s ! c) = ''report-analysis'' \<and> \<not> cv_cancel (convs s ! c) \<and> ob_flagged ob \<noteq> []
          then (set_phase n (CiteAsk r) done, [])
          else (set_phase n (Finish r) done, [])))"

definition run_goes :: "broker_cfg \<Rightarrow> nat \<Rightarrow> obs \<Rightarrow> broker \<Rightarrow> broker_result" where
  "run_goes cfg n ob s =
    (let c = r_conv (runs s ! n); v = convs s ! c in
     case r_phase (runs s ! n) of
       FindSub \<Rightarrow>
         (if \<not> ob_ok ob then refuse n ServerError s
          else (case r_sub (runs s ! n) of
            None \<Rightarrow> (set_phase n Checking s, [])
          | Some x \<Rightarrow> if \<exists>p \<in> set (cv_subs v). fst p = x \<and> snd p \<noteq> None then (settle n s, [Duplicate n])
                     else (set_phase n Checking s, [])))
     | Checking \<Rightarrow>
         (if \<not> ob_ok ob then refuse n InvalidPrompt s
          else (case cannot_run cfg c s of Some e \<Rightarrow> refuse n e s | None \<Rightarrow> (set_phase n MemCheck s, [])))
     | MemCheck \<Rightarrow> if ob_ok ob then (set_phase n WaitEngine s, []) else refuse n Capacity s
     | WaitEngine \<Rightarrow> if ob_ok ob then bind_then_refresh n s else refuse n NotReady s
     | WaitBind b \<Rightarrow>
         (case b_result (binds s ! b) of
            None \<Rightarrow> (s, [])
          | Some BindOk \<Rightarrow> (set_phase n Refreshing s, [])
          | Some BindLost \<Rightarrow> refuse n Lost s
          | Some BindFailed \<Rightarrow> refuse n NotReady s)
     | Refreshing \<Rightarrow>
         (if \<not> ob_ok ob then refuse n ModelUnavailable s
          else (case cannot_run cfg c s of Some e \<Rightarrow> refuse n e s | None \<Rightarrow> start_turn n (ob_now ob) s))
     | Setup \<Rightarrow>
         (if ob_ok ob then engine_prompt n False None (remember_sub c None s)
          else end_turn n ((cancelled_response ''error'')) s)
     | WaitPrev second retried \<Rightarrow> call_now n second retried s
     | InCall k g second retried \<Rightarrow> (s, [])
     | Answered k g a second retried \<Rightarrow> prompt_answered n k g a second retried ob s
     | WaitRebind b second k \<Rightarrow>
         (case b_result (binds s ! b) of
            None \<Rightarrow> (s, [])
          | Some BindOk \<Rightarrow> engine_prompt n second k s
          | Some BindLost \<Rightarrow> (set_phase n (Failing lost_error) (mod_conv c (own_force k) s), [])
          | Some BindFailed \<Rightarrow> (set_phase n (Failing not_ready_error) (mod_conv c (own_force k) s), []))
     | CiteAsk r \<Rightarrow> if ob_ok ob then b_then (s, [Notice c]) (engine_prompt n True None)
                   else (set_phase n (Failing \<lparr>er_code = None, er_name = None, er_message = [], er_denial = None\<rparr>) s, [])
     | CiteTell r \<Rightarrow> if ob_ok ob then (set_phase n (Finish (r\<lparr>rs_cite_failed := True\<rparr>)) s, [Notice c])
                    else (set_phase n (Failing \<lparr>er_code = None, er_name = None, er_message = [], er_denial = None\<rparr>) s, [])
     | Failing e \<Rightarrow>
         (case turn_failure (cv_mode v) e ob of
            (line, r) \<Rightarrow> (set_phase n (Finish r) s, case line of None \<Rightarrow> [] | Some t \<Rightarrow> [ErrorLine c t]))
     | Finish r \<Rightarrow> end_turn n (with_reason r) s
     | EndAppend r \<Rightarrow> turn_over n r ob s
     | EndTouch r \<Rightarrow> (settle n s, [if rs_busy r then Refused n Busy else PromptDone n r])
     | Settled \<Rightarrow> (s, []))"

subsection \<open>Cancel\<close>

definition stale :: "string option \<Rightarrow> string option \<Rightarrow> bool" where
  "stale sub running \<longleftrightarrow> sub \<noteq> None \<and> running \<noteq> None \<and> running \<noteq> Some [] \<and> sub \<noteq> running"

definition cancel_turn :: "nat \<Rightarrow> string option \<Rightarrow> broker \<Rightarrow> broker_result" where
  "cancel_turn c sub s =
    (let v = convs s ! c in
     case cv_turn v of
       TurnIdle \<Rightarrow> (mod_conv c (\<lambda>v. v\<lparr>cv_admitting :=
          map (\<lambda>(n, x, b). (n, x, if stale sub x then b else True)) (cv_admitting v)\<rparr>) s, [])
     | TurnEnding \<Rightarrow> (s, [])
     | TurnRunning \<Rightarrow>
        (if stale sub (cv_sub v) then (s, [])
         else b_then (cancel_pending c ByCancel (mod_conv c (\<lambda>v. v\<lparr>cv_cancel := True\<rparr>) s)) (\<lambda>s1.
           (mod_conv c (\<lambda>v. v\<lparr>cv_timer := (if cv_timer v = None then cv_started v else cv_timer v)\<rparr>) s1,
            if eng_ready s1 \<and> cv_bound (convs s1 ! c) = eng_gen s1 then [EngineCancel c] else []))))"

text \<open>The watchdog fires: a turn still running is ended, whatever the engine does.\<close>

definition forced_response :: response where
  "forced_response = (cancelled_response ''cancel_timeout'')\<lparr>rs_forced := True\<rparr>"

definition watchdog :: "nat \<Rightarrow> broker \<Rightarrow> broker_result" where
  "watchdog c s =
    (let v = convs s ! c in
     case cv_timer v of
       None \<Rightarrow> (s, [])
     | Some t \<Rightarrow>
        (let s1 = mod_conv c (\<lambda>v. v\<lparr>cv_timer := None\<rparr>) s in
         case cv_force v of
           None \<Rightarrow> (s1, [])
         | Some k \<Rightarrow>
            (if cv_turn v \<noteq> TurnRunning \<or> cv_started v \<noteq> Some t then (s1, [])
             else ((mod_conv c (\<lambda>v. v\<lparr>cv_bound := - 1\<rparr>) s1)\<lparr>runs := map (answer_run k (Reply forced_response)) (runs s1)\<rparr>,
                   (if eng_ready s then [CloseSession c] else []) @ [Notice c]))))"

subsection \<open>The tools restart\<close>

definition broker_busy :: "broker \<Rightarrow> bool" where
  "broker_busy s \<longleftrightarrow>
     (\<exists>v \<in> set (convs s). cv_turn v \<noteq> TurnIdle \<or> cv_admitting v \<noteq> [] \<or> cv_binding v \<noteq> None)"

definition tools_attempt :: "int \<Rightarrow> broker \<Rightarrow> broker \<times> bool" where
  "tools_attempt now s =
    (let recent = filter (\<lambda>t. now - t < TOOLS_RESTART_WINDOW_MS) (tr_at s) in
     if length recent \<ge> TOOLS_RESTART_MAX then (s\<lparr>tr_at := recent, tr_wanted := False\<rparr>, False)
     else (s\<lparr>tr_at := recent @ [now], tr_wanted := False, tr_running := True\<rparr>, True))"

definition maybe_restart_for_tools :: "int \<Rightarrow> broker \<Rightarrow> broker_result" where
  "maybe_restart_for_tools now s =
    (if \<not> tr_wanted s \<or> tr_running s \<or> br_closed s \<or> broker_busy s \<or> 0 < engine_users s then (s, [])
     else if \<not> eng_tools_missing s then (s\<lparr>tr_wanted := False\<rparr>, [])
     else (case tools_attempt now s of (s', ok) \<Rightarrow> (s', if ok then [EngineRestart] else [])))"

subsection \<open>Events\<close>

datatype broker_event =
    Register string bool bool
  | Prompt nat "string option"
  | RunGoes nat obs
  | BindReturns nat resume
  | CallReturns nat answer
  | Cancel nat "string option"
  | Watchdog nat
  | EnginePermission nat "nat option" "(string \<times> string) list"
  | PermissionGoes nat bool bool
  | Respond nat perm_outcome
  | PermTimeout nat
  | EngineCancelRequest nat
  | EngineExits bool
  | EngineReady int bool bool
  | McpIsReady
  | EngineTools bool bool
  | MaybeRestart int
  | RestartOver
  | UsersUp
  | UsersDown
  | CloseBroker

fun broker_step :: "broker_cfg \<Rightarrow> broker \<Rightarrow> broker_event \<Rightarrow> broker_result" where
  "broker_step cfg s (Register m a l) = (s\<lparr>convs := convs s @ [new_conv m a l]\<rparr>, [])"
| "broker_step cfg s (Prompt c sub) = (if c < length (convs s) then prompt c sub s else (s, []))"
| "broker_step cfg s (RunGoes n ob) = (if n < length (runs s) then run_goes cfg n ob s else (s, []))"
| "broker_step cfg s (BindReturns b r) = (bind_returns b r s, [])"
| "broker_step cfg s (CallReturns k a) = (call_returns k a s, [])"
| "broker_step cfg s (Cancel c sub) = (if c < length (convs s) then cancel_turn c sub s else (s, []))"
| "broker_step cfg s (Watchdog c) = (if c < length (convs s) then watchdog c s else (s, []))"
| "broker_step cfg s (EnginePermission c rpc ops) = engine_permission c rpc ops s"
| "broker_step cfg s (PermissionGoes q ok allowed) = permission_goes q ok allowed s"
| "broker_step cfg s (Respond q oc) = answer_permission q oc ByUser s"
| "broker_step cfg s (PermTimeout q) = permission_times_out q s"
| "broker_step cfg s (EngineCancelRequest r) = engine_cancels r s"
| "broker_step cfg s (EngineExits x) = engine_exits x s"
| "broker_step cfg s (EngineReady g missing mcp_ready) =
    (s\<lparr>eng_gen := g, eng_ready := True, eng_tools_missing := missing, tr_wanted := (missing \<and> mcp_ready \<or> tr_wanted s)\<rparr>, [])"
| "broker_step cfg s McpIsReady = (s\<lparr>tr_wanted := (eng_ready s \<and> eng_tools_missing s \<or> tr_wanted s)\<rparr>, [])"
| "broker_step cfg s (EngineTools missing mcp_ready) =
    (s\<lparr>eng_tools_missing := missing, tr_wanted := (if missing then mcp_ready \<or> tr_wanted s else False)\<rparr>, [])"
| "broker_step cfg s (MaybeRestart now) = maybe_restart_for_tools now s"
| "broker_step cfg s RestartOver = (s\<lparr>tr_running := False\<rparr>, [])"
| "broker_step cfg s UsersUp = (s\<lparr>engine_users := engine_users s + 1\<rparr>, [])"
| "broker_step cfg s UsersDown = (s\<lparr>engine_users := engine_users s - 1\<rparr>, [])"
| "broker_step cfg s CloseBroker = (s\<lparr>br_closed := True\<rparr>, [])"

fun broker_run :: "broker_cfg \<Rightarrow> broker \<Rightarrow> broker_event list \<Rightarrow> broker_result" where
  "broker_run cfg s [] = (s, [])"
| "broker_run cfg s (e # es) = b_then (broker_step cfg s e) (\<lambda>s'. broker_run cfg s' es)"

end
