(* ===== verification/Broker_Facts.thy ===== *)
theory Broker_Facts
  imports Broker_Turn Run_System
begin

text \<open>
  The abstract turn machine and the broker's refinement of it (runtime/lib/session-broker.js). A \<open>view\<close> keeps of a
  broker state the class of every prompt and the turn of every conversation; \<open>turn_step\<close> is the specification: a
  prompt is admitted, begins a turn only in an idle conversation while there is capacity, ends it, and leaves.
\<close>

subsection \<open>The abstract machine\<close>

datatype run_class = Adm | Turn | End | Out

fun class_of :: "phase \<Rightarrow> run_class" where
  "class_of FindSub = Adm"
| "class_of Checking = Adm"
| "class_of MemCheck = Adm"
| "class_of WaitEngine = Adm"
| "class_of (WaitBind b) = Adm"
| "class_of Refreshing = Adm"
| "class_of (EndAppend r) = End"
| "class_of (EndTouch r) = Out"
| "class_of Settled = Out"
| "class_of _ = Turn"

record view =
  vw_runs :: "(nat \<times> run_class) list"
  vw_turns :: "turn_state list"

definition view_of :: "broker \<Rightarrow> view" where
  "view_of s = \<lparr>vw_runs = map (\<lambda>r. (r_conv r, class_of (r_phase r))) (runs s), vw_turns = map cv_turn (convs s)\<rparr>"

definition busy_turns :: "view \<Rightarrow> nat" where
  "busy_turns v = length (filter (\<lambda>t. t \<noteq> TurnIdle) (vw_turns v))"

definition set_class :: "nat \<Rightarrow> run_class \<Rightarrow> view \<Rightarrow> view" where
  "set_class n k v = v\<lparr>vw_runs := (vw_runs v)[n := (fst (vw_runs v ! n), k)]\<rparr>"

definition set_turn :: "nat \<Rightarrow> turn_state \<Rightarrow> view \<Rightarrow> view" where
  "set_turn c t v = v\<lparr>vw_turns := (vw_turns v)[c := t]\<rparr>"

inductive turn_step :: "nat \<Rightarrow> view \<Rightarrow> broker_out list \<Rightarrow> view \<Rightarrow> bool" for cap :: nat where
  stay: "turn_step cap v [] v"
| join: "c < length (vw_turns v) \<Longrightarrow> k \<in> {Adm, Out} \<Longrightarrow> turn_step cap v [] (v\<lparr>vw_runs := vw_runs v @ [(c, k)]\<rparr>)"
| register: "turn_step cap v [] (v\<lparr>vw_turns := vw_turns v @ [TurnIdle]\<rparr>)"
| leave: "n < length (vw_runs v) \<Longrightarrow> snd (vw_runs v ! n) \<in> {Adm, Out} \<Longrightarrow> turn_step cap v [] (set_class n Out v)"
| begin_turn: "n < length (vw_runs v) \<Longrightarrow> vw_runs v ! n = (c, Adm) \<Longrightarrow> vw_turns v ! c = TurnIdle \<Longrightarrow> busy_turns v < cap \<Longrightarrow>
    turn_step cap v [TurnStarted c n] (set_class n Turn (set_turn c TurnRunning v))"
| ending: "n < length (vw_runs v) \<Longrightarrow> vw_runs v ! n = (c, Turn) \<Longrightarrow>
    turn_step cap v [] (set_class n End (set_turn c TurnEnding v))"
| over: "n < length (vw_runs v) \<Longrightarrow> vw_runs v ! n = (c, End) \<Longrightarrow>
    turn_step cap v [TurnOver c n] (set_class n Out (set_turn c TurnIdle v))"

inductive_simps turn_step_simps: "turn_step cap v outs v'"

text \<open>The prompts whose turn a conversation's is, and the invariant: at most one each, and exactly one while the
  conversation is not idle.\<close>

definition owns :: "view \<Rightarrow> nat \<Rightarrow> nat \<Rightarrow> bool" where
  "owns v n c \<longleftrightarrow> n < length (vw_runs v) \<and> fst (vw_runs v ! n) = c \<and> snd (vw_runs v ! n) \<in> {Turn, End}"

definition view_ok :: "nat \<Rightarrow> view \<Rightarrow> bool" where
  "view_ok cap v \<longleftrightarrow>
     (\<forall>n < length (vw_runs v). fst (vw_runs v ! n) < length (vw_turns v)) \<and>
     (\<forall>n c. owns v n c \<longrightarrow> vw_turns v ! c = (if snd (vw_runs v ! n) = Turn then TurnRunning else TurnEnding)) \<and>
     (\<forall>m n c. owns v m c \<and> owns v n c \<longrightarrow> m = n) \<and>
     (\<forall>c < length (vw_turns v). vw_turns v ! c \<noteq> TurnIdle \<longrightarrow> (\<exists>n. owns v n c)) \<and>
     busy_turns v \<le> cap"

lemma view_okD:
  assumes "view_ok cap v"
  shows "n < length (vw_runs v) \<Longrightarrow> fst (vw_runs v ! n) < length (vw_turns v)"
    and "owns v n c \<Longrightarrow> vw_turns v ! c = (if snd (vw_runs v ! n) = Turn then TurnRunning else TurnEnding)"
    and "owns v m c \<Longrightarrow> owns v n c \<Longrightarrow> m = n"
    and "c < length (vw_turns v) \<Longrightarrow> vw_turns v ! c \<noteq> TurnIdle \<Longrightarrow> \<exists>n. owns v n c"
    and "busy_turns v \<le> cap"
  using assms unfolding view_ok_def by blast+

lemma set_view_simps [simp]:
  "vw_turns (set_class n k v) = vw_turns v" "vw_runs (set_turn c t v) = vw_runs v"
  "vw_runs (set_class n k v) = (vw_runs v)[n := (fst (vw_runs v ! n), k)]"
  "vw_turns (set_turn c t v) = (vw_turns v)[c := t]"
  by (simp_all add: set_class_def set_turn_def)

lemma owns_set_class:
  "n < length (vw_runs v) \<Longrightarrow> owns (set_class n k v) m c \<longleftrightarrow>
     (if m = n then fst (vw_runs v ! n) = c \<and> k \<in> {Turn, End} else owns v m c)"
  by (auto simp: owns_def nth_list_update)

lemma owns_set_turn [simp]: "owns (set_turn c t v) m d = owns v m d"
  by (simp add: owns_def)

lemma count_update_up:
  "c < length ts \<Longrightarrow> ts ! c = TurnIdle \<Longrightarrow> t \<noteq> TurnIdle \<Longrightarrow>
   length (filter (\<lambda>t. t \<noteq> TurnIdle) (ts[c := t])) = Suc (length (filter (\<lambda>t. t \<noteq> TurnIdle) ts))"
  by (induction ts arbitrary: c) (auto split: nat.splits)

lemma count_update_le:
  "c < length ts \<Longrightarrow> ts ! c \<noteq> TurnIdle \<Longrightarrow>
   length (filter (\<lambda>t. t \<noteq> TurnIdle) (ts[c := t])) \<le> length (filter (\<lambda>t. t \<noteq> TurnIdle) ts)"
  by (induction ts arbitrary: c) (auto split: nat.splits simp: le_SucI)

lemma turn_step_ok:
  assumes "turn_step cap v outs v'" "view_ok cap v"
  shows "view_ok cap v'"
proof -
  note d = view_okD [OF assms(2)]
  show ?thesis using assms(1)
proof cases
  case stay
  then show ?thesis using assms(2) by simp
next
  case (join c k)
  have o: "owns (v\<lparr>vw_runs := vw_runs v @ [(c, k)]\<rparr>) m e \<longleftrightarrow> owns v m e" for m e
    using join(4) by (auto simp: owns_def nth_append less_Suc_eq)
  have s: "owns v m e \<Longrightarrow> snd ((vw_runs v @ [(c, k)]) ! m) = snd (vw_runs v ! m)" for m e
    by (simp add: owns_def nth_append)
  show ?thesis unfolding \<open>v' = _\<close> view_ok_def o
    using d join(2,2,3) s by (auto simp: nth_append less_Suc_eq busy_turns_def)
next
  case register
  have o: "owns (v\<lparr>vw_turns := vw_turns v @ [TurnIdle]\<rparr>) m e \<longleftrightarrow> owns v m e" for m e by (simp add: owns_def)
  have lt: "owns v m e \<Longrightarrow> e < length (vw_turns v)" for m e using d(1) [of m] by (auto simp: owns_def)
  show ?thesis unfolding \<open>v' = _\<close> view_ok_def o using d lt register(2)
    by (auto simp: nth_append less_Suc_eq busy_turns_def)
next
  case (leave n)
  have o: "owns (set_class n Out v) m e \<longleftrightarrow> owns v m e" for m e
    using leave(2,3,4) by (auto simp: owns_set_class) (auto simp: owns_def)
  have s: "owns v m e \<Longrightarrow> snd (vw_runs (set_class n Out v) ! m) = snd (vw_runs v ! m)" for m e
    using leave(4) by (cases "m = n") (auto simp: owns_def)
  show ?thesis unfolding \<open>v' = _\<close> view_ok_def o using d s leave(2,3)
    by (auto simp: nth_list_update busy_turns_def)
next
  case (begin_turn n c)
  have c: "c < length (vw_turns v)" using d(1) [of n] begin_turn(3,4) by simp
  have none: "\<not> owns v m c" for m using d(2) [of m c] begin_turn(5) by (auto split: if_splits)
  have o: "owns v' m e \<longleftrightarrow> (if m = n then e = c else owns v m e)" for m e
    using begin_turn(2,3,4) by (auto simp: owns_set_class)
  have k: "snd (vw_runs v' ! m) = (if m = n then Turn else snd (vw_runs v ! m))" for m
    using begin_turn(2,3) by simp
  have b: "busy_turns v' \<le> cap"
    using count_update_up [OF c, of TurnRunning] begin_turn(2,5,6) by (simp add: busy_turns_def)
  have t: "vw_turns v' = (vw_turns v)[c := TurnRunning]" using begin_turn(2) by simp
  have f: "length (vw_runs v') = length (vw_runs v)" "\<And>m. fst (vw_runs v' ! m) = fst (vw_runs v ! m)"
    using begin_turn(2,3) by (simp_all add: nth_list_update)
  have ex: "\<exists>m. m \<noteq> n \<and> owns v m e" if e: "e < length (vw_turns v)" "vw_turns v ! e \<noteq> TurnIdle" for e
  proof -
    obtain m where "owns v m e" using d(4) [OF e] by blast
    moreover have "\<not> owns v n e" using begin_turn(4) by (simp add: owns_def)
    ultimately show ?thesis by metis
  qed
  show ?thesis unfolding view_ok_def o k t f using d none b c
    by (auto simp: nth_list_update) (metis ex)
next
  case (ending n c)
  have own: "owns v n c" using ending(3,4) by (simp add: owns_def)
  have c: "c < length (vw_turns v)" using d(1) [of n] ending(3,4) by simp
  have run: "vw_turns v ! c = TurnRunning" using d(2) [OF own] ending(4) by simp
  have o: "owns v' m e \<longleftrightarrow> owns v m e" for m e
    using ending(2,3,4) by (cases "m = n") (auto simp: owns_def nth_list_update)
  have k: "snd (vw_runs v' ! m) = (if m = n then End else snd (vw_runs v ! m))" for m
    using ending(2,3) by simp
  have b: "busy_turns v' \<le> cap"
    using count_update_le [OF c, of TurnEnding] ending(2) run d(5) by (simp add: busy_turns_def)
  have t: "vw_turns v' = (vw_turns v)[c := TurnEnding]" using ending(2) by simp
  have f: "length (vw_runs v') = length (vw_runs v)" "\<And>m. fst (vw_runs v' ! m) = fst (vw_runs v ! m)"
    using ending(2,3) by (simp_all add: nth_list_update)
  have x: "owns v m c \<Longrightarrow> m = n" for m using d(3) own by blast
  show ?thesis unfolding view_ok_def o k t f using d b c x own
    by (auto simp: nth_list_update owns_def)
next
  case (over n c)
  have own: "owns v n c" using over(3,4) by (simp add: owns_def)
  have c: "c < length (vw_turns v)" using d(1) [of n] over(3,4) by simp
  have run: "vw_turns v ! c = TurnEnding" using d(2) [OF own] over(4) by simp
  have x: "owns v m c \<Longrightarrow> m = n" for m using d(3) own by blast
  have o: "owns v' m e \<longleftrightarrow> m \<noteq> n \<and> owns v m e" for m e
    using over(2,3) by (auto simp: owns_set_class)
  have k: "snd (vw_runs v' ! m) = (if m = n then Out else snd (vw_runs v ! m))" for m
    using over(2,3) by simp
  have b: "busy_turns v' \<le> cap"
    using count_update_le [OF c, of TurnIdle] over(2) run d(5) by (simp add: busy_turns_def)
  have t: "vw_turns v' = (vw_turns v)[c := TurnIdle]" using over(2) by simp
  have f: "length (vw_runs v') = length (vw_runs v)" "\<And>m. fst (vw_runs v' ! m) = fst (vw_runs v ! m)"
    using over(2,3) by (simp_all add: nth_list_update)
  have ex: "\<exists>m. m \<noteq> n \<and> owns v m e" if "e \<noteq> c" "e < length (vw_turns v)" "vw_turns v ! e \<noteq> TurnIdle" for e
    using d(4) [OF that(2,3)] own that(1) by (metis owns_def)
  show ?thesis unfolding view_ok_def o k t f using d b c x ex
    by (auto simp: nth_list_update)
qed
qed

subsection \<open>The refinement\<close>

fun is_turn_out :: "broker_out \<Rightarrow> bool" where
  "is_turn_out (TurnStarted c n) = True"
| "is_turn_out (TurnOver c n) = True"
| "is_turn_out _ = False"

definition turn_outs :: "broker_out list \<Rightarrow> broker_out list" where
  "turn_outs outs = filter is_turn_out outs"

lemma turn_outs_simps [simp]:
  "turn_outs [] = []" "turn_outs (x # xs) = (if is_turn_out x then [x] else []) @ turn_outs xs"
  "turn_outs (xs @ ys) = turn_outs xs @ turn_outs ys"
  by (simp_all add: turn_outs_def)

definition keeps_view :: "broker \<Rightarrow> broker_result \<Rightarrow> bool" where
  "keeps_view s r \<longleftrightarrow> view_of (fst r) = view_of s \<and> turn_outs (snd r) = []"

text \<open>What changes of single conversations, phases and fields do to the parts the proofs look at.\<close>

lemma mod_conv_simps [simp]:
  "runs (mod_conv c f s) = runs s" "binds (mod_conv c f s) = binds s" "next_req (mod_conv c f s) = next_req s"
  "asking (mod_conv c f s) = asking s" "telling (mod_conv c f s) = telling s"
  "next_call (mod_conv c f s) = next_call s" "open_calls (mod_conv c f s) = open_calls s"
  "eng_gen (mod_conv c f s) = eng_gen s" "eng_ready (mod_conv c f s) = eng_ready s"
  "length (convs (mod_conv c f s)) = length (convs s)" "tr_at (mod_conv c f s) = tr_at s"
  by (simp_all add: mod_conv_def)

lemma mod_conv_nth: "d < length (convs s) \<Longrightarrow> convs (mod_conv c f s) ! d = (if d = c then f (convs s ! c) else convs s ! d)"
  by (simp add: mod_conv_def nth_list_update)

lemma set_phase_simps [simp]:
  "convs (set_phase n ph s) = convs s" "binds (set_phase n ph s) = binds s" "next_req (set_phase n ph s) = next_req s"
  "length (runs (set_phase n ph s)) = length (runs s)" "eng_gen (set_phase n ph s) = eng_gen s"
  by (simp_all add: set_phase_def)

lemma view_mod_conv [simp]:
  assumes "\<And>v. cv_turn (f v) = cv_turn v"
  shows "view_of (mod_conv c f s) = view_of s"
proof (cases "c < length (convs s)")
  case True
  have "map cv_turn ((convs s)[c := f (convs s ! c)]) = map cv_turn (convs s)"
    using True by (simp add: map_update assms list_update_same_conv)
  then show ?thesis by (simp add: view_of_def mod_conv_def)
qed (simp add: view_of_def mod_conv_def list_update_beyond)

lemma view_set_turn: "view_of (mod_conv c f s) = set_turn c (cv_turn (f (convs s ! c))) (view_of s)"
  by (simp add: view_of_def mod_conv_def set_turn_def map_update)

lemma view_set_phase: "view_of (set_phase n ph s) = (view_of s)\<lparr>vw_runs := (vw_runs (view_of s))[n := (r_conv (runs s ! n), class_of ph)]\<rparr>"
  by (simp add: view_of_def set_phase_def map_update)

lemma view_set_class: "n < length (runs s) \<Longrightarrow> view_of (set_phase n ph s) = set_class n (class_of ph) (view_of s)"
  by (simp add: view_set_phase set_class_def) (simp add: view_of_def)

lemma view_same_class:
  "n < length (runs s) \<Longrightarrow> class_of ph = class_of (r_phase (runs s ! n)) \<Longrightarrow> view_of (set_phase n ph s) = view_of s"
  by (simp add: view_of_def set_phase_def map_update list_update_same_conv)

lemma view_fields [simp]:
  "view_of (s\<lparr>binds := b\<rparr>) = view_of s" "view_of (s\<lparr>open_calls := k\<rparr>) = view_of s" "view_of (s\<lparr>next_call := m\<rparr>) = view_of s"
  "view_of (s\<lparr>asking := k2\<rparr>) = view_of s" "view_of (s\<lparr>telling := k3\<rparr>) = view_of s"
  "view_of (s\<lparr>next_req := m\<rparr>) = view_of s" "view_of (s\<lparr>eng_gen := g\<rparr>) = view_of s" "view_of (s\<lparr>eng_ready := r\<rparr>) = view_of s"
  "view_of (s\<lparr>tr_wanted := r\<rparr>) = view_of s" "view_of (s\<lparr>tr_running := r\<rparr>) = view_of s" "view_of (s\<lparr>tr_at := a\<rparr>) = view_of s"
  "view_of (s\<lparr>eng_tools_missing := r\<rparr>) = view_of s" "view_of (s\<lparr>engine_users := m\<rparr>) = view_of s"
  "view_of (s\<lparr>br_closed := r\<rparr>) = view_of s"
  by (simp_all add: view_of_def)

lemma view_lengths [simp]:
  "length (vw_runs (view_of s)) = length (runs s)" "length (vw_turns (view_of s)) = length (convs s)"
  by (simp_all add: view_of_def)

lemma view_run: "n < length (runs s) \<Longrightarrow> vw_runs (view_of s) ! n = (r_conv (runs s ! n), class_of (r_phase (runs s ! n)))"
  by (simp add: view_of_def)

lemma view_turn: "c < length (convs s) \<Longrightarrow> vw_turns (view_of s) ! c = cv_turn (convs s ! c)"
  by (simp add: view_of_def)

lemma b_then_simps [simp]: "fst (b_then r f) = fst (f (fst r))" "snd (b_then r f) = snd r @ snd (f (fst r))"
  by (simp_all add: b_then_def split: prod.splits)

lemma answer_keeps: "keeps_view s (answer_permission q oc w s)"
  by (auto simp: keeps_view_def answer_permission_def split: option.splits prod.splits)

lemma keeps_then: "keeps_view s r \<Longrightarrow> (\<And>s'. keeps_view s' (f s')) \<Longrightarrow> keeps_view s (b_then r f)"
  by (simp add: keeps_view_def)

lemma answer_all_keeps: "keeps_view s (answer_all qs w s)"
proof (induction qs arbitrary: s)
  case (Cons q qs)
  then show ?case using keeps_then [OF answer_keeps] by simp
qed (simp add: keeps_view_def)

lemma cancel_pending_keeps: "keeps_view s (cancel_pending c w s)"
  by (simp add: cancel_pending_def answer_all_keeps)

lemma cancel_pendings_keeps: "keeps_view s (cancel_pendings cs w s)"
proof (induction cs arbitrary: s)
  case (Cons c cs)
  then show ?case using keeps_then [OF cancel_pending_keeps] by simp
qed (simp add: keeps_view_def)

lemma answer_runs [simp]: "runs (fst (answer_permission q oc w s)) = runs s"
  by (auto simp: answer_permission_def split: option.splits prod.splits)

lemma answer_all_runs [simp]: "runs (fst (answer_all qs w s)) = runs s"
  by (induction qs arbitrary: s) simp_all

lemma cancel_pending_runs [simp]: "runs (fst (cancel_pending c w s)) = runs s"
  by (simp add: cancel_pending_def)

lemma bind_conv_view [simp]:
  "view_of (fst (bind_conv c s)) = view_of s" "runs (fst (bind_conv c s)) = runs s"
  by (auto simp: bind_conv_def Let_def split: option.splits)

lemma bind_conv_fst: "bind_conv c s = (s', b) \<Longrightarrow> view_of s' = view_of s \<and> runs s' = runs s"
  using bind_conv_view [of c s] by simp

lemma class_answer [simp]: "class_of (r_phase (answer_run k a r)) = class_of (r_phase r)" "r_conv (answer_run k a r) = r_conv r"
  "r_sub (answer_run k a r) = r_sub r"
  by (auto simp: answer_run_def split: phase.splits)

lemma view_answer_runs [simp]: "view_of (s\<lparr>runs := map (answer_run k a) (runs s)\<rparr>) = view_of s"
  by (simp add: view_of_def comp_def)

lemma call_returns_keeps: "view_of (call_returns k a s) = view_of s"
  by (simp add: call_returns_def view_of_def comp_def)

lemma bind_returns_keeps: "view_of (bind_returns b r s) = view_of s"
  by (simp add: bind_returns_def Let_def)

lemma engine_prompt_keeps:
  assumes "n < length (runs s)" "class_of (r_phase (runs s ! n)) = Turn"
  shows "keeps_view s (engine_prompt n second k s)" "keeps_view s (call_now n second k s)"
proof -
  show "keeps_view s (call_now n second k s)"
    using assms by (simp add: call_now_def keeps_view_def Let_def view_same_class)
  then show "keeps_view s (engine_prompt n second k s)"
    using assms by (simp add: engine_prompt_def keeps_view_def view_same_class)
qed

lemma prompt_answered_keeps:
  assumes "n < length (runs s)" "class_of (r_phase (runs s ! n)) = Turn"
  shows "keeps_view s (prompt_answered n k g a second r ob s)"
proof -
  have own: "view_of (mod_conv c (own_force k) t) = view_of t" for c t by (simp add: own_force_def)
  have move: "keeps_view s (set_phase n ph (mod_conv c (own_force k) s), [])" if "class_of ph = Turn" for ph c
    using assms that by (simp add: keeps_view_def view_same_class own)
  have rebind: "keeps_view s (bind_then_prompt n second k (mod_conv c (\<lambda>v. v\<lparr>cv_bound := - 1\<rparr>) s))" for c
  proof -
    obtain s' b where b: "bind_conv (r_conv (runs (mod_conv c (\<lambda>v. v\<lparr>cv_bound := - 1\<rparr>) s) ! n))
        (mod_conv c (\<lambda>v. v\<lparr>cv_bound := - 1\<rparr>) s) = (s', b)" by fastforce
    from bind_conv_fst [OF b] have s': "view_of s' = view_of s" "runs s' = runs s" by simp_all
    then show ?thesis using assms b engine_prompt_keeps [of n s' second k]
      by (cases b) (simp_all add: bind_then_prompt_def keeps_view_def view_same_class)
  qed
  show ?thesis using move rebind by (simp add: prompt_answered_def Let_def split: answer.split)
qed

text \<open>The moves of a run, each a step of the machine.\<close>

lemma keeps_step: "keeps_view s r \<Longrightarrow> turn_step cap (view_of s) (turn_outs (snd r)) (view_of (fst r))"
  by (simp add: keeps_view_def turn_step.stay)

lemma settle_view: "n < length (runs s) \<Longrightarrow> view_of (settle n s) = set_class n Out (view_of s)"
  by (simp add: settle_def view_set_class)

lemma settle_step:
  assumes "n < length (runs s)" "class_of (r_phase (runs s ! n)) \<in> {Adm, Out}" "turn_outs outs = []"
  shows "turn_step cap (view_of s) (turn_outs outs) (view_of (settle n s))"
  using assms by (auto simp: settle_view view_run intro: turn_step.leave)

lemma refuse_step:
  assumes "n < length (runs s)" "class_of (r_phase (runs s ! n)) \<in> {Adm, Out}"
  shows "turn_step cap (view_of s) (turn_outs (snd (refuse n e s))) (view_of (fst (refuse n e s)))"
  using settle_step [OF assms, of "[Refused n e]"] by (simp add: refuse_def)

lemma prompt_step:
  assumes "c < length (convs s)"
  shows "turn_step cap (view_of s) (turn_outs (snd (prompt c sub s))) (view_of (fst (prompt c sub s)))"
proof -
  have once: "turn_step cap (view_of s) (turn_outs (snd (prompt_once c x s))) (view_of (fst (prompt_once c x s)))" for x
  proof -
    let ?n = "length (runs s)"
    let ?s1 = "s\<lparr>runs := runs s @ [\<lparr>r_conv = c, r_sub = x, r_phase = (if x = None then Checking else FindSub)\<rparr>]\<rparr>"
    have v1: "view_of ?s1 = (view_of s)\<lparr>vw_runs := vw_runs (view_of s) @ [(c, Adm)]\<rparr>" by (simp add: view_of_def)
    have v2: "view_of (settle ?n (mod_conv c f ?s1)) = (view_of s)\<lparr>vw_runs := vw_runs (view_of s) @ [(c, Out)]\<rparr>"
      if "\<And>v. cv_turn (f v) = cv_turn v" for f
    proof -
      have "view_of (mod_conv c f ?s1) = (view_of s)\<lparr>vw_runs := vw_runs (view_of s) @ [(c, Adm)]\<rparr>"
        using that v1 by simp
      moreover have "(xs @ [(c, Adm)])[?n := (fst ((xs @ [(c, Adm)]) ! ?n), Out)] = xs @ [(c, Out)]" if "length xs = ?n" for xs
        using that by (metis fst_conv list_update_length nth_append_length)
      ultimately show ?thesis by (simp add: settle_view set_class_def)
    qed
    have "c < length (vw_turns (view_of s))" using assms by simp
    then show ?thesis
      using turn_step.join [of c "view_of s" Adm cap] turn_step.join [of c "view_of s" Out cap] v1 v2
      by (simp add: prompt_once_def refuse_def Let_def split: option.split)
  qed
  have stay: "turn_step cap (view_of s) [] (view_of s)" by (rule turn_step.stay)
  show ?thesis using once stay by (simp add: prompt_def Let_def split: option.split)
qed

lemma cancel_turn_keeps: "keeps_view s (cancel_turn c sub s)"
proof -
  have t: "turn_outs (if b then [EngineCancel c] else []) = []" for b by simp
  have p: "keeps_view s (cancel_pending c ByCancel (mod_conv c (\<lambda>v. v\<lparr>cv_cancel := True\<rparr>) s))"
    using cancel_pending_keeps [of "mod_conv c (\<lambda>v. v\<lparr>cv_cancel := True\<rparr>) s" c ByCancel] by (simp add: keeps_view_def)
  show ?thesis
    using p t by (auto simp: cancel_turn_def b_then_def Let_def keeps_view_def split: turn_state.split prod.split)
qed

lemma watchdog_keeps: "keeps_view s (watchdog c s)"
proof -
  have "view_of ((mod_conv c (\<lambda>v. v\<lparr>cv_bound := - 1\<rparr>) t)\<lparr>runs := map (answer_run k a) (runs t)\<rparr>) = view_of t" for t k a
    using view_answer_runs [where s = "mod_conv c (\<lambda>v. v\<lparr>cv_bound := - 1\<rparr>) t" and k = k and a = a] by simp
  from this [where t = "mod_conv c (\<lambda>v. v\<lparr>cv_timer := None\<rparr>) s"]
  show ?thesis by (auto simp: watchdog_def Let_def keeps_view_def split: option.split)
qed

lemma end_turn_step:
  assumes "n < length (runs s)" "class_of (r_phase (runs s ! n)) = Turn" "view_ok cap (view_of s)"
  shows "turn_step cap (view_of s) (turn_outs (snd (end_turn n r s))) (view_of (fst (end_turn n r s)))"
proof -
  let ?c = "r_conv (runs s ! n)"
  have own: "owns (view_of s) n ?c" using assms(1,2) by (simp add: owns_def view_run)
  have c: "?c < length (convs s)" using view_okD(1) [OF assms(3), of n] assms(1) by (simp add: view_run)
  have run: "cv_turn (convs s ! ?c) = TurnRunning"
    using view_okD(2) [OF assms(3) own] assms(1,2) c by (simp add: view_run view_turn)
  let ?s1 = "mod_conv ?c (\<lambda>v. v\<lparr>cv_turn := TurnEnding, cv_timer := None\<rparr>) s"
  let ?p = "cancel_pending ?c ByTurnEnd ?s1"
  have p: "view_of (fst ?p) = set_turn ?c TurnEnding (view_of s)" "turn_outs (snd ?p) = []" "runs (fst ?p) = runs s"
    using cancel_pending_keeps [of ?s1 ?c ByTurnEnd] by (simp_all add: keeps_view_def view_set_turn)
  have "view_of (fst (end_turn n r s)) = set_class n End (set_turn ?c TurnEnding (view_of s))"
    using run assms(1) p by (simp add: end_turn_def Let_def view_set_class)
  moreover have "turn_outs (snd (end_turn n r s)) = []" using run p(2) by (simp add: end_turn_def Let_def)
  ultimately show ?thesis using turn_step.ending [of n "view_of s" ?c cap] assms(1,2) by (simp add: view_run)
qed

lemma turn_over_step:
  assumes "n < length (runs s)" "class_of (r_phase (runs s ! n)) = End"
  shows "turn_step cap (view_of s) (turn_outs (snd (turn_over n r ob s))) (view_of (fst (turn_over n r ob s)))"
proof -
  let ?c = "r_conv (runs s ! n)"
  define s1 where "s1 = (if ob_log ob then remember_sub ?c (Some (rs_stop r)) s else s)"
  have s1: "view_of s1 = view_of s" "runs s1 = runs s" by (auto simp: s1_def remember_sub_def split: option.split)
  have "view_of (fst (turn_over n r ob s)) = set_class n Out (set_turn ?c TurnIdle (view_of s))"
    using assms(1) s1 by (simp add: turn_over_def Let_def view_set_class view_set_turn flip: s1_def)
  moreover have "turn_outs (snd (turn_over n r ob s)) = [TurnOver ?c n]" by (simp add: turn_over_def Let_def)
  ultimately show ?thesis using turn_step.over [of n "view_of s" ?c cap] assms by (simp add: view_run)
qed

lemma start_turn_step:
  assumes "n < length (runs s)" "class_of (r_phase (runs s ! n)) = Adm" "r_conv (runs s ! n) < length (convs s)"
    "cannot_run cfg (r_conv (runs s ! n)) s = None"
  shows "turn_step (max_running cfg) (view_of s) (turn_outs (snd (start_turn n now s))) (view_of (fst (start_turn n now s)))"
proof -
  let ?c = "r_conv (runs s ! n)"
  have idle: "cv_turn (convs s ! ?c) = TurnIdle" and cap: "running_count s < max_running cfg"
    using assms(4) by (auto simp: cannot_run_def split: if_splits)
  have "busy_turns (view_of s) = running_count s"
    by (simp add: busy_turns_def view_of_def running_count_def filter_map comp_def)
  moreover have "view_of (fst (start_turn n now s)) = set_class n Turn (set_turn ?c TurnRunning (view_of s))"
    using assms(1) by (simp add: start_turn_def Let_def view_set_class view_set_turn)
  ultimately show ?thesis
    using turn_step.begin_turn [of n "view_of s" ?c "max_running cfg"] assms idle cap
    by (simp add: view_run view_turn start_turn_def Let_def)
qed

lemma run_goes_step:
  assumes ok: "view_ok (max_running cfg) (view_of s)" and n: "n < length (runs s)"
  shows "turn_step (max_running cfg) (view_of s) (turn_outs (snd (run_goes cfg n ob s))) (view_of (fst (run_goes cfg n ob s)))"
proof -
  have c: "r_conv (runs s ! n) < length (convs s)" using view_okD(1) [OF ok, of n] n by (simp add: view_run)
  note adm = refuse_step [OF n] settle_step [OF n, of "[]", unfolded turn_outs_simps(1)] start_turn_step [OF n _ c]
  have same: "turn_step cap (view_of s) [] (view_of (set_phase n ph s'))"
    if "class_of ph = class_of (r_phase (runs s ! n))" "view_of s' = view_of s" "runs s' = runs s"
    for ph s' cap
    using that n view_same_class [of n s' ph] by (simp add: turn_step.stay)
  have stay: "turn_step cap (view_of s) [] (view_of s)" for cap by (rule turn_step.stay)
  have own: "view_of (mod_conv d (own_force k) t) = view_of t" for d k t by (simp add: own_force_def)
  show ?thesis
  proof (cases "r_phase (runs s ! n)")
    case WaitEngine
    obtain s' b where b: "bind_conv (r_conv (runs s ! n)) s = (s', b)" by fastforce
    note s' = bind_conv_fst [OF b]
    show ?thesis using WaitEngine b adm same [of _ s'] s'
      by (cases b) (simp_all add: run_goes_def Let_def bind_then_refresh_def)
  next
    case Setup
    let ?s1 = "remember_sub (r_conv (runs s ! n)) None s"
    have "view_of ?s1 = view_of s" "runs ?s1 = runs s" by (auto simp: remember_sub_def split: option.split)
    then show ?thesis
      using Setup n engine_prompt_keeps(1) [of n ?s1 False None] end_turn_step [OF n _ ok]
      by (simp add: run_goes_def Let_def keeps_view_def turn_step.stay)
  next
    case (Answered k g a second r)
    then show ?thesis using keeps_step [OF prompt_answered_keeps [OF n]] by (simp add: run_goes_def Let_def)
  next
    case (Finish r)
    then show ?thesis using end_turn_step [OF n _ ok] by (simp add: run_goes_def Let_def)
  next
    case (EndAppend r)
    then show ?thesis using turn_over_step [OF n] by (simp add: run_goes_def Let_def)
  next
    case (EndTouch r)
    then show ?thesis using settle_step [OF n, of "[if rs_busy r then Refused n Busy else PromptDone n r]"]
      by (simp add: run_goes_def Let_def)
  next
    case (Failing e)
    obtain line r where "turn_failure (cv_mode (convs s ! r_conv (runs s ! n))) e ob = (line, r)" by fastforce
    then show ?thesis using Failing same [of "Finish r" s] by (cases line) (simp_all add: run_goes_def Let_def)
  qed (use n adm same stay own keeps_step [OF engine_prompt_keeps(1) [OF n]] keeps_step [OF engine_prompt_keeps(2) [OF n]]
       in \<open>auto simp: run_goes_def Let_def split: option.split bind_result.split\<close>)
qed

text \<open>Every step of the broker is a step of the machine.\<close>

lemma broker_step_refines:
  assumes "view_ok (max_running cfg) (view_of s)"
  shows "turn_step (max_running cfg) (view_of s) (turn_outs (snd (broker_step cfg s e))) (view_of (fst (broker_step cfg s e)))"
proof -
  have stay: "turn_step cap (view_of s) [] (view_of s)" for cap by (rule turn_step.stay)
  show ?thesis
  proof (cases e)
    case (Register m a l)
    have "view_of (s\<lparr>convs := convs s @ [new_conv m a l]\<rparr>) = (view_of s)\<lparr>vw_turns := vw_turns (view_of s) @ [TurnIdle]\<rparr>"
      by (simp add: view_of_def new_conv_def)
    then show ?thesis using Register turn_step.register [of "max_running cfg" "view_of s"] by simp
  next
    case (PermTimeout q)
    have "keeps_view s (permission_times_out q s)"
      using answer_keeps by (auto simp: permission_times_out_def keeps_view_def split: option.split)
    then show ?thesis using PermTimeout keeps_step by simp
  next
    case (EngineCancelRequest r)
    have "keeps_view s (engine_cancels r s)"
      using answer_keeps by (auto simp: engine_cancels_def keeps_view_def split: option.split)
    then show ?thesis using EngineCancelRequest keeps_step by simp
  next
    case (EngineExits x)
    have "keeps_view s (engine_exits x s)"
      using cancel_pendings_keeps [of "s\<lparr>eng_ready := False\<rparr>"] by (simp add: engine_exits_def Let_def keeps_view_def)
    then show ?thesis using EngineExits keeps_step by simp
  next
    case (MaybeRestart now)
    then show ?thesis using stay by (simp add: maybe_restart_for_tools_def tools_attempt_def Let_def)
  next
    case (EnginePermission c rpc ops)
    then show ?thesis using stay by (simp add: engine_permission_def)
  next
    case (PermissionGoes q ok al)
    then show ?thesis using stay
      by (simp add: permission_goes_def register_ask_def split: option.split)
  qed (use stay prompt_step run_goes_step [OF assms] keeps_step [OF answer_keeps] keeps_step [OF cancel_turn_keeps]
       keeps_step [OF watchdog_keeps] in \<open>simp_all add: bind_returns_keeps call_returns_keeps\<close>)
qed

lemma broker_view_ok: "view_ok (max_running cfg) (view_of s) \<Longrightarrow> view_ok (max_running cfg) (view_of (fst (broker_step cfg s e)))"
  using broker_step_refines turn_step_ok by blast

interpretation broker_turns: run_invariant "\<lambda>s e. fst (broker_step cfg s e)" "\<lambda>s. view_ok (max_running cfg) (view_of s)" for cfg
  by unfold_locales (rule broker_view_ok)

lemma broker_run_state: "fst (broker_run cfg s es) = foldl (\<lambda>s e. fst (broker_step cfg s e)) s es"
  by (induction es arbitrary: s) simp_all

lemma broker_init_view: "view_ok cap (view_of (broker_init g))"
  by (simp add: view_ok_def view_of_def broker_init_def owns_def busy_turns_def)

lemma broker_run_view: "view_ok (max_running cfg) (view_of (fst (broker_run cfg (broker_init g) es)))"
  unfolding broker_run_state by (rule broker_turns.run_inv [OF broker_init_view])

end
