(* ===== verification/Broker_Perms.thy ===== *)
theory Broker_Perms
  imports Broker_Facts "HOL-Library.Multiset"
begin

text \<open>
  What every event of the session broker (runtime/lib/session-broker.js) does to the permission requests: none is answered
  twice, and none is lost unless the log fails. \<open>conserves\<close> is the law of one operation; it composes along \<open>b_then\<close>, so that each handler
  inherits it from its parts. It also records that no handler but the tools restart touches the restart history.
\<close>

definition pending_ids :: "broker \<Rightarrow> nat list" where
  "pending_ids s = concat (map (\<lambda>v. om_keys (cv_pending v)) (convs s))"

text \<open>All that are still to be answered: registered, or before that.\<close>

definition open_ids :: "broker \<Rightarrow> nat list" where
  "open_ids s = pending_ids s @ om_keys (asking s)"

fun lost_ids :: "broker_out list \<Rightarrow> nat list" where
  "lost_ids [] = []"
| "lost_ids (PermissionLost q # outs) = q # lost_ids outs"
| "lost_ids (_ # outs) = lost_ids outs"

fun resolved_ids :: "broker_out list \<Rightarrow> nat list" where
  "resolved_ids [] = []"
| "resolved_ids (Resolved q oc # outs) = q # resolved_ids outs"
| "resolved_ids (_ # outs) = resolved_ids outs"

definition closed_ids :: "broker_out list \<Rightarrow> nat list" where
  "closed_ids outs = resolved_ids outs @ lost_ids outs"

text \<open>A request keeps its conversation, which is one of the broker's.\<close>

definition asks_ok :: "broker \<Rightarrow> bool" where
  "asks_ok s \<longleftrightarrow> (\<forall>q a. om_get (asking s) q = Some a \<longrightarrow> ak_conv a < length (convs s))"

definition perm_ok :: "broker \<Rightarrow> bool" where
  "perm_ok s \<longleftrightarrow> asks_ok s \<and> distinct (open_ids s) \<and> (\<forall>q \<in> set (open_ids s). q < next_req s)"

definition balanced :: "broker \<Rightarrow> broker_result \<Rightarrow> bool" where
  "balanced s r \<longleftrightarrow> next_req s \<le> next_req (fst r) \<and>
     (perm_ok s \<longrightarrow> asks_ok (fst r) \<and> mset (closed_ids (snd r)) + mset (open_ids (fst r)) =
        mset (open_ids s) + mset [next_req s ..< next_req (fst r)])"

definition conserves :: "broker \<Rightarrow> broker_result \<Rightarrow> bool" where
  "conserves s r \<longleftrightarrow> tr_at (fst r) = tr_at s \<and> balanced s r \<and> lost_ids (snd r) = []"

lemma resolved_append [simp]: "resolved_ids (xs @ ys) = resolved_ids xs @ resolved_ids ys"
proof (induction xs)
  case (Cons x xs)
  then show ?case by (cases x) simp_all
qed simp

lemma lost_append [simp]: "lost_ids (xs @ ys) = lost_ids xs @ lost_ids ys"
proof (induction xs)
  case (Cons x xs)
  then show ?case by (cases x) simp_all
qed simp

lemma closed_simps [simp]: "closed_ids [] = []" "closed_ids xs = [] \<longleftrightarrow> resolved_ids xs = [] \<and> lost_ids xs = []"
  by (simp_all add: closed_ids_def)

lemma closed_append: "mset (closed_ids (xs @ ys)) = mset (closed_ids xs) + mset (closed_ids ys)"
  by (simp add: closed_ids_def)

lemma balanced_ok:
  assumes "balanced s r" "perm_ok s"
  shows "perm_ok (fst r)"
proof -
  have le: "next_req s \<le> next_req (fst r)" using assms(1) by (simp add: balanced_def)
  have eq: "mset (closed_ids (snd r) @ open_ids (fst r)) = mset (open_ids s @ [next_req s ..< next_req (fst r)])"
    using assms by (simp add: balanced_def)
  have "distinct (open_ids s @ [next_req s ..< next_req (fst r)])"
    using assms(2) by (auto simp: perm_ok_def)
  then have "distinct (closed_ids (snd r) @ open_ids (fst r))" using mset_eq_imp_distinct_iff [OF eq] by blast
  moreover have "set (open_ids (fst r)) \<subseteq> set (open_ids s) \<union> {next_req s ..< next_req (fst r)}"
    using mset_eq_setD [OF eq] by auto
  moreover have "asks_ok (fst r)" using assms by (simp add: balanced_def)
  ultimately show ?thesis using assms(2) le by (fastforce simp: perm_ok_def)
qed

lemma balanced_then:
  assumes "balanced s r" "balanced (fst r) (f (fst r))"
  shows "balanced s (b_then r f)"
proof -
  have le: "next_req s \<le> next_req (fst r)" "next_req (fst r) \<le> next_req (fst (f (fst r)))"
    using assms by (simp_all add: balanced_def)
  have "asks_ok (fst (b_then r f)) \<and> mset (closed_ids (snd (b_then r f))) + mset (open_ids (fst (b_then r f))) =
      mset (open_ids s) + mset [next_req s ..< next_req (fst (f (fst r)))]" if "perm_ok s"
  proof -
    have up: "[next_req s ..< next_req (fst (f (fst r)))] =
        [next_req s ..< next_req (fst r)] @ [next_req (fst r) ..< next_req (fst (f (fst r)))]"
      using le upt_add_eq_append by (metis le_add_diff_inverse)
    show ?thesis using assms that balanced_ok [OF assms(1) that] unfolding up
      by (simp add: balanced_def closed_append ac_simps)
  qed
  then show ?thesis using le by (simp add: balanced_def)
qed

lemma conserves_then:
  "conserves s r \<Longrightarrow> (\<And>s'. conserves s' (f s')) \<Longrightarrow> conserves s (b_then r f)"
  using balanced_then [of s r f] by (simp add: conserves_def)

text \<open>What is looked at, and what leaves it alone.\<close>

definition rest_of :: "broker \<Rightarrow> int list \<times> nat \<times> (nat, permission) omap list \<times> (nat, ask) omap" where
  "rest_of s = (tr_at s, next_req s, map cv_pending (convs s), asking s)"

lemma rest_pending: "rest_of s' = rest_of s \<Longrightarrow> open_ids s' = open_ids s"
proof -
  assume "rest_of s' = rest_of s"
  then have "map om_keys (map cv_pending (convs s')) = map om_keys (map cv_pending (convs s))" by (simp add: rest_of_def)
  moreover have "asking s' = asking s" using \<open>rest_of s' = rest_of s\<close> by (simp add: rest_of_def)
  ultimately show ?thesis by (simp add: open_ids_def pending_ids_def comp_def)
qed

lemma rest_asks: "rest_of s' = rest_of s \<Longrightarrow> asks_ok s' = asks_ok s"
proof -
  assume r: "rest_of s' = rest_of s"
  then have "map cv_pending (convs s') = map cv_pending (convs s)" "asking s' = asking s" by (simp_all add: rest_of_def)
  moreover from this(1) have "length (convs s') = length (convs s)" by (rule map_eq_imp_length_eq)
  ultimately show ?thesis by (simp add: asks_ok_def)
qed

lemma rest_next: "rest_of s' = rest_of s \<Longrightarrow> next_req s' = next_req s" "rest_of s' = rest_of s \<Longrightarrow> tr_at s' = tr_at s"
  by (simp_all add: rest_of_def)

lemmas rest_facts = rest_pending rest_asks rest_next

lemma keep_conserves: "rest_of s' = rest_of s \<Longrightarrow> closed_ids outs = [] \<Longrightarrow> conserves s (s', outs)"
  using rest_facts [of s' s] by (simp add: conserves_def balanced_def perm_ok_def)

lemma conserves_from: "conserves s' r \<Longrightarrow> rest_of s' = rest_of s \<Longrightarrow> conserves s r"
  using rest_facts [of s' s] by (simp add: conserves_def balanced_def perm_ok_def)

lemma conserves_to: "conserves s (s1, outs) \<Longrightarrow> rest_of s' = rest_of s1 \<Longrightarrow> conserves s (s', outs)"
  using rest_facts [of s' s1] by (simp add: conserves_def balanced_def)

lemma rest_mod_conv [simp]:
  assumes "\<And>v. cv_pending (f v) = cv_pending v"
  shows "rest_of (mod_conv c f s) = rest_of s"
proof -
  have "map cv_pending ((convs s)[c := f (convs s ! c)]) = map cv_pending (convs s)"
    by (cases "c < length (convs s)") (simp_all add: map_update assms list_update_same_conv list_update_beyond)
  then show ?thesis by (simp add: rest_of_def mod_conv_def)
qed

lemma rest_fields [simp]:
  "rest_of (s\<lparr>telling := b2\<rparr>) = rest_of s" "rest_of (s\<lparr>binds := b\<rparr>) = rest_of s" "rest_of (s\<lparr>open_calls := k\<rparr>) = rest_of s" "rest_of (s\<lparr>next_call := m\<rparr>) = rest_of s"
  "rest_of (s\<lparr>runs := rs\<rparr>) = rest_of s" "rest_of (s\<lparr>eng_gen := g\<rparr>) = rest_of s" "rest_of (s\<lparr>eng_ready := r\<rparr>) = rest_of s"
  "rest_of (s\<lparr>tr_wanted := r\<rparr>) = rest_of s" "rest_of (s\<lparr>tr_running := r\<rparr>) = rest_of s"
  "rest_of (s\<lparr>eng_tools_missing := r\<rparr>) = rest_of s" "rest_of (s\<lparr>engine_users := m\<rparr>) = rest_of s"
  "rest_of (s\<lparr>br_closed := r\<rparr>) = rest_of s" "rest_of (set_phase n ph s) = rest_of s"
  by (simp_all add: rest_of_def set_phase_def)

lemma rest_ops [simp]:
  "rest_of (settle n s) = rest_of s" "rest_of (fst (bind_conv c s)) = rest_of s"
  "rest_of (remember_sub c st s) = rest_of s" "rest_of (bind_returns b r s) = rest_of s"
  "rest_of (mod_conv c (own_force k) s) = rest_of s"
  by (auto simp: settle_def bind_conv_def Let_def remember_sub_def bind_returns_def own_force_def split: option.splits)

lemma rest_bind: "bind_conv c s = (s', b) \<Longrightarrow> rest_of s' = rest_of s"
  using rest_ops(2) [of c s] by simp

lemma rest_call_returns [simp]: "rest_of (call_returns k a s) = rest_of s"
  by (simp add: call_returns_def rest_of_def comp_def if_distrib [of cv_pending] cong: if_cong)

subsection \<open>The handlers\<close>

lemma mset_concat_update:
  "c < length xs \<Longrightarrow> mset (concat (xs[c := y])) + mset (xs ! c) = mset (concat xs) + mset y"
  by (induction xs arbitrary: c) (auto split: nat.splits simp: ac_simps)

lemma pending_update:
  assumes "c < length (convs s)"
  shows "mset (pending_ids (mod_conv c f s)) + mset (om_keys (cv_pending (convs s ! c))) =
    mset (pending_ids s) + mset (om_keys (cv_pending (f (convs s ! c))))"
proof -
  let ?k = "\<lambda>v. om_keys (cv_pending v)"
  have "mset (concat ((map ?k (convs s))[c := ?k (f (convs s ! c))])) + mset (map ?k (convs s) ! c) =
      mset (concat (map ?k (convs s))) + mset (?k (f (convs s ! c)))"
    using assms by (intro mset_concat_update) simp
  then show ?thesis using assms by (simp add: pending_ids_def mod_conv_def map_update)
qed

lemma conv_of_reqD: "conv_of_req q s = Some c \<Longrightarrow> c < length (convs s) \<and> q \<in> set (om_keys (cv_pending (convs s ! c)))"
  using find_SomeD [of "\<lambda>c. om_has (cv_pending (convs s ! c)) q" "[0..<length (convs s)]" c]
  by (simp add: conv_of_req_def om_has_def om.keys_get)

lemma distinct_pending: "perm_ok s \<Longrightarrow> c < length (convs s) \<Longrightarrow> distinct (om_keys (cv_pending (convs s ! c)))"
  by (simp add: perm_ok_def open_ids_def pending_ids_def distinct_concat_iff)

lemma mset_filter_neq:
  assumes "distinct xs" "q \<in> set xs"
  shows "mset xs = mset (filter (\<lambda>x. x \<noteq> q) xs) + {#q#}"
proof -
  have "filter (\<lambda>x. x \<noteq> q) xs = removeAll q xs" by (metis (mono_tags, lifting) filter_cong removeAll_filter_not_eq)
  then have "filter (\<lambda>x. x \<noteq> q) xs = remove1 q xs" using assms(1) by (simp add: distinct_remove1_removeAll)
  then show ?thesis using assms(2) by (simp del: mset_filter)
qed

lemma answer_conserves: "conserves s (answer_permission q oc w s)"
proof (cases "conv_of_req q s")
  case None
  then show ?thesis by (simp add: answer_permission_def keep_conserves)
next
  case (Some c)
  note c = conv_of_reqD [OF Some]
  let ?del = "\<lambda>v. v\<lparr>cv_pending := om_delete q (cv_pending v)\<rparr>"
  have del: "mset (pending_ids (mod_conv c ?del s)) + {#q#} = mset (pending_ids s)" if "perm_ok s"
  proof -
    let ?ks = "om_keys (cv_pending (convs s ! c))"
    let ?ds = "om_keys (om_delete q (cv_pending (convs s ! c)))"
    have "mset ?ks = mset ?ds + {#q#}"
      using mset_filter_neq [OF distinct_pending [OF that conjunct1 [OF c]] conjunct2 [OF c]] by (simp only: om.keys_del)
    moreover have "mset (pending_ids (mod_conv c ?del s)) + mset ?ks = mset (pending_ids s) + mset ?ds"
      using pending_update [of c s ?del] c by simp
    ultimately have "mset (pending_ids (mod_conv c ?del s)) + {#q#} + mset ?ds = mset (pending_ids s) + mset ?ds"
      by (simp only: ac_simps)
    then show ?thesis by (rule add_right_imp_eq)
  qed
  have fields: "next_req (mod_conv c ?del s) = next_req s" "tr_at (mod_conv c ?del s) = tr_at s"
    "asking (mod_conv c ?del s) = asking s" by simp_all
  obtain p where "om_get (cv_pending (convs s ! c)) q = Some p" using c by (auto simp: om.keys_get)
  moreover obtain eo keep where "engine_outcome p oc = (eo, keep)" by fastforce
  ultimately have "answer_permission q oc w s =
      (mod_conv c ?del s, PermLogged q oc w # (if keep then [RuleKept q] else []) @ [Resolved q eo])"
    using Some by (simp add: answer_permission_def)
  moreover have "asks_ok (mod_conv c ?del s)" if "asks_ok s" using that by (simp add: asks_ok_def)
  ultimately show ?thesis using del fields
    by (simp add: conserves_def balanced_def open_ids_def closed_ids_def perm_ok_def ac_simps)
qed

lemma answer_all_conserves: "conserves s (answer_all qs w s)"
proof (induction qs arbitrary: s)
  case (Cons q qs)
  then show ?case using conserves_then [OF answer_conserves] by simp
qed (simp add: keep_conserves)

lemma cancel_pending_conserves: "conserves s (cancel_pending c w s)"
  by (simp add: cancel_pending_def answer_all_conserves)

lemma cancel_pendings_conserves: "conserves s (cancel_pendings cs w s)"
proof (induction cs arbitrary: s)
  case (Cons c cs)
  then show ?case using conserves_then [OF cancel_pending_conserves] by simp
qed (simp add: keep_conserves)

text \<open>The requests before registration.\<close>

lemma fresh_ask: "perm_ok s \<Longrightarrow> om_get (asking s) (next_req s) = None"
  using om.keys_get [of "next_req s" "asking s"] by (auto simp: perm_ok_def open_ids_def)

lemma engine_permission_conserves: "conserves s (engine_permission c rpc ops s)"
proof -
  have "om_keys (om_set (next_req s) a (asking s)) = om_keys (asking s) @ [next_req s]" if "perm_ok s" for a
    using fresh_ask [OF that] by (simp add: om.keys_put)
  moreover have "asks_ok (fst (engine_permission c rpc ops s))" if "asks_ok s"
    using that by (auto simp: asks_ok_def engine_permission_def)
  ultimately show ?thesis
    by (simp add: engine_permission_def conserves_def balanced_def open_ids_def pending_ids_def closed_ids_def perm_ok_def)
qed

lemma ask_removed:
  assumes "perm_ok s" "om_get (asking s) q \<noteq> None"
  shows "mset (om_keys (asking s)) = mset (om_keys (om_delete q (asking s))) + {#q#}"
  unfolding om.keys_del
  by (rule mset_filter_neq) (use assms om.keys_get [of q "asking s"] in \<open>simp_all add: perm_ok_def open_ids_def\<close>)

lemma register_ask_open:
  assumes "perm_ok s" "om_get (asking s) q = Some a" "ak_conv a < length (convs s)"
  shows "mset (open_ids (register_ask q a s)) = mset (open_ids s)"
proof -
  let ?c = "ak_conv a"
  let ?s1 = "s\<lparr>asking := om_delete q (asking s), telling := om_set q ?c (telling s)\<rparr>"
  let ?f = "\<lambda>v. v\<lparr>cv_pending := om_set q \<lparr>pm_rpc = ak_rpc a, pm_gen = eng_gen s, pm_options = ak_options a\<rparr> (cv_pending v)\<rparr>"
  have p1: "pending_ids ?s1 = pending_ids s" by (simp add: pending_ids_def)
  let ?ks = "om_keys (cv_pending (convs s ! ?c))"
  have "q \<in> set (om_keys (asking s))" using assms(2) by (simp add: om.keys_get)
  moreover have "set ?ks \<subseteq> set (pending_ids s)" using assms(3) nth_mem by (fastforce simp: pending_ids_def)
  ultimately have "q \<notin> set ?ks" using assms(1) by (auto simp: perm_ok_def open_ids_def)
  then have "om_keys (cv_pending (?f (convs s ! ?c))) = ?ks @ [q]" by (simp add: om.keys_put om.keys_get)
  then have "mset (pending_ids (mod_conv ?c ?f ?s1)) + mset ?ks = mset (pending_ids s) + {#q#} + mset ?ks"
    using pending_update [of ?c ?s1 ?f] assms(3) p1 by simp
  then have "mset (pending_ids (register_ask q a s)) = mset (pending_ids s) + {#q#}"
    unfolding register_ask_def by (rule add_right_imp_eq)
  moreover have "asking (register_ask q a s) = om_delete q (asking s)" by (simp add: register_ask_def)
  ultimately show ?thesis using ask_removed [OF assms(1), of q] assms(2) by (simp add: open_ids_def)
qed

text \<open>The one operation that can lose a request, when the log fails.\<close>

lemma permission_goes_lost: "set (lost_ids (snd (permission_goes q ok allowed s))) \<subseteq> (if ok then {} else {q})"
  by (simp add: permission_goes_def split: option.split)

lemma permission_goes_balanced:
  "tr_at (fst (permission_goes q ok allowed s)) = tr_at s \<and> balanced s (permission_goes q ok allowed s)"
proof (cases "om_get (asking s) q")
  case None
  then have "conserves s (permission_goes q ok allowed s)"
    by (simp add: permission_goes_def keep_conserves split: option.split)
  then show ?thesis by (simp add: conserves_def)
next
  case (Some a)
  let ?gone = "s\<lparr>asking := om_delete q (asking s)\<rparr>"
  have gone: "mset (open_ids s) = mset (open_ids ?gone) + {#q#}" if "perm_ok s"
    using ask_removed [OF that] Some by (simp add: open_ids_def pending_ids_def)
  have asks: "asks_ok ?gone" if "asks_ok s" using that by (auto simp: asks_ok_def)
  have c: "ak_conv a < length (convs s)" if "perm_ok s" using that Some by (auto simp: perm_ok_def asks_ok_def)
  consider (lost) "\<not> ok" | (policy) oc where "ok" "ak_policy a = Some oc" | (allow) "ok" "ak_policy a = None" "allowed"
    | (reg) "ok" "ak_policy a = None" "\<not> allowed" by (cases "ak_policy a") blast+
  then show ?thesis
  proof cases
    case lost
    then show ?thesis using Some gone asks
      by (simp add: permission_goes_def balanced_def closed_ids_def perm_ok_def)
  next
    case policy
    then show ?thesis using Some gone asks
      by (simp add: permission_goes_def balanced_def closed_ids_def perm_ok_def)
  next
    case allow
    have "om_keys (om_set q (a\<lparr>ak_policy := x\<rparr>) (asking s)) = om_keys (asking s)" for x using Some by (simp add: om.keys_put)
    moreover have "asks_ok (s\<lparr>asking := om_set q (a\<lparr>ak_policy := x\<rparr>) (asking s)\<rparr>)" if "asks_ok s" for x
      using that Some by (auto simp: asks_ok_def)
    ultimately show ?thesis using Some allow
      by (simp add: permission_goes_def balanced_def closed_ids_def open_ids_def pending_ids_def perm_ok_def)
  next
    case reg
    have "asks_ok (register_ask q a s)" if "asks_ok s" using that by (auto simp: asks_ok_def register_ask_def)
    then show ?thesis using Some reg register_ask_open [OF _ Some] c
      by (simp add: permission_goes_def balanced_def closed_ids_def perm_ok_def) (simp add: register_ask_def)
  qed
qed

lemma engine_prompt_conserves:
  "conserves s (call_now n second k s)" "conserves s (engine_prompt n second k s)"
  by (simp_all add: call_now_def engine_prompt_def Let_def keep_conserves)

lemma bind_then_prompt_conserves: "conserves s (bind_then_prompt n second k s)"
proof -
  obtain s' b where b: "bind_conv (r_conv (runs s ! n)) s = (s', b)" by fastforce
  note r = rest_bind [OF b]
  then show ?thesis using b conserves_from [OF engine_prompt_conserves(2) r]
    by (cases b) (simp_all add: bind_then_prompt_def keep_conserves)
qed

lemma prompt_answered_conserves: "conserves s (prompt_answered n k g a second r ob s)"
proof -
  have "conserves s (bind_then_prompt n second k (mod_conv c (\<lambda>v. v\<lparr>cv_bound := - 1\<rparr>) s))" for c
    by (rule conserves_from [OF bind_then_prompt_conserves]) simp
  then show ?thesis by (simp add: prompt_answered_def Let_def keep_conserves split: answer.split)
qed

lemma end_turn_conserves: "conserves s (end_turn n r s)"
proof -
  have "conserves s' (set_phase n (EndAppend r) s', [])" for s' by (simp add: keep_conserves)
  from conserves_then [OF cancel_pending_conserves this]
  have "conserves s (b_then (cancel_pending c ByTurnEnd (mod_conv c (\<lambda>v. v\<lparr>cv_turn := TurnEnding, cv_timer := None\<rparr>) s))
      (\<lambda>s'. (set_phase n (EndAppend r) s', [])))" for c
    by (rule conserves_from) simp
  then show ?thesis by (simp add: end_turn_def Let_def keep_conserves)
qed

lemma run_goes_conserves: "conserves s (run_goes cfg n ob s)"
proof -
  have ends: "conserves s (end_turn n r (remember_sub c st s))" "conserves s (engine_prompt n b k (remember_sub c st s))" for r c st b k
    by (rule conserves_from [OF end_turn_conserves], simp) (rule conserves_from [OF engine_prompt_conserves(2)], simp)
  have over: "conserves s (turn_over n r ob s)" for r
    by (simp add: turn_over_def Let_def keep_conserves)
  have start: "conserves s (start_turn n now s)" for now by (simp add: start_turn_def Let_def keep_conserves)
  have ref: "conserves s (refuse n e s)" for e by (simp add: refuse_def keep_conserves)
  have bind: "conserves s (bind_then_refresh n s)"
  proof -
    obtain s' b where "bind_conv (r_conv (runs s ! n)) s = (s', b)" by fastforce
    then show ?thesis using rest_bind by (cases b) (simp_all add: bind_then_refresh_def keep_conserves)
  qed
  have again: "conserves s (b_then (s, [Notice c]) (engine_prompt n True None))" for c
    by (rule conserves_then [OF keep_conserves engine_prompt_conserves(2)]) simp_all
  show ?thesis
    by (cases "r_phase (runs s ! n)")
       (use ends over start ref bind again end_turn_conserves engine_prompt_conserves prompt_answered_conserves
         in \<open>simp_all add: run_goes_def Let_def keep_conserves split: option.split bind_result.split prod.split\<close>)
qed

lemma cancel_turn_conserves: "conserves s (cancel_turn c sub s)"
proof -
  have "conserves s' (mod_conv c (\<lambda>v. v\<lparr>cv_timer := f v\<rparr>) s', if P s' then [EngineCancel c] else [])" for f P s'
    by (simp add: keep_conserves)
  from conserves_then [OF cancel_pending_conserves this]
  have "conserves s (b_then (cancel_pending c ByCancel (mod_conv c (\<lambda>v. v\<lparr>cv_cancel := True\<rparr>) s))
      (\<lambda>s'. (mod_conv c (\<lambda>v. v\<lparr>cv_timer := f v\<rparr>) s', if P s' then [EngineCancel c] else [])))" for f P
    by (rule conserves_from) simp
  then show ?thesis by (simp add: cancel_turn_def Let_def keep_conserves split: turn_state.split)
qed

lemma prompt_conserves: "conserves s (prompt c sub s)"
proof -
  have "conserves s (prompt_once c x s)" for x by (simp add: prompt_once_def refuse_def Let_def keep_conserves)
  then show ?thesis by (simp add: prompt_def Let_def keep_conserves split: option.split)
qed

text \<open>Every event conserves but an attempt to restart, which changes only the restart state, and the handler of a request
  that goes on.\<close>

lemma broker_step_conserves:
  "(\<And>now. e \<noteq> MaybeRestart now) \<Longrightarrow> (\<And>q ok al. e \<noteq> PermissionGoes q ok al) \<Longrightarrow> conserves s (broker_step cfg s e)"
proof (cases e)
  case (Register m a l)
  then show ?thesis
    by (auto simp: conserves_def balanced_def open_ids_def pending_ids_def new_conv_def om_keys_def perm_ok_def asks_ok_def less_Suc_eq)
next
  case (EngineExits x)
  have "conserves s (cancel_pendings cs ByExit (s\<lparr>eng_ready := False\<rparr>))" for cs
    by (rule conserves_from [OF cancel_pendings_conserves]) simp
  then show ?thesis using EngineExits by (simp add: engine_exits_def Let_def keep_conserves)
next
  case (Watchdog c)
  have "conserves s (watchdog c s)" by (auto simp: watchdog_def Let_def keep_conserves split: option.split)
  then show ?thesis using Watchdog by (simp add: keep_conserves)
qed (use answer_conserves run_goes_conserves cancel_turn_conserves prompt_conserves engine_permission_conserves
      in \<open>auto simp: keep_conserves permission_times_out_def engine_cancels_def split: option.split\<close>)

lemma broker_step_history: "(\<And>now. e \<noteq> MaybeRestart now) \<Longrightarrow> tr_at (fst (broker_step cfg s e)) = tr_at s"
proof (cases "\<exists>q ok al. e = PermissionGoes q ok al")
  case True
  then show ?thesis using permission_goes_balanced by auto
next
  case False
  moreover assume "\<And>now. e \<noteq> MaybeRestart now"
  ultimately show ?thesis using broker_step_conserves [of e s cfg] by (simp add: conserves_def)
qed

lemma broker_step_balanced: "balanced s (broker_step cfg s e)"
proof (cases e)
  case (MaybeRestart now)
  then show ?thesis
    by (auto simp: maybe_restart_for_tools_def tools_attempt_def Let_def balanced_def open_ids_def pending_ids_def
        perm_ok_def asks_ok_def split: prod.split)
next
  case (PermissionGoes q ok al)
  then show ?thesis using permission_goes_balanced by simp
qed (use broker_step_conserves in \<open>simp_all only: conserves_def, blast+\<close>)

lemma broker_step_lost: "set (lost_ids (snd (broker_step cfg s e))) \<subseteq> {q. \<exists>al. e = PermissionGoes q False al}"
proof (cases "(\<exists>now. e = MaybeRestart now) \<or> (\<exists>q ok al. e = PermissionGoes q ok al)")
  case True
  then show ?thesis
  proof (elim disjE exE)
    fix now
    assume "e = MaybeRestart now"
    then show ?thesis by (simp add: maybe_restart_for_tools_def split: prod.split)
  next
    fix q ok al
    assume "e = PermissionGoes q ok al"
    then show ?thesis using permission_goes_lost [of q ok al s] by (auto split: if_splits)
  qed
next
  case False
  then have "conserves s (broker_step cfg s e)" by (intro broker_step_conserves) blast+
  then have "lost_ids (snd (broker_step cfg s e)) = []" unfolding conserves_def by (elim conjE)
  then show ?thesis by simp
qed

lemma broker_run_lost: "set (lost_ids (snd (broker_run cfg s es))) \<subseteq> {q. \<exists>al. PermissionGoes q False al \<in> set es}"
proof (induction es arbitrary: s)
  case (Cons e es)
  let ?r = "broker_step cfg s e"
  have "set (lost_ids (snd (broker_run cfg s (e # es)))) = set (lost_ids (snd ?r)) \<union> set (lost_ids (snd (broker_run cfg (fst ?r) es)))"
    by (simp del: broker_step.simps)
  moreover have "{q. \<exists>al. e = PermissionGoes q False al} \<subseteq> {q. \<exists>al. PermissionGoes q False al \<in> set (e # es)}" by auto
  moreover have "{q. \<exists>al. PermissionGoes q False al \<in> set es} \<subseteq> {q. \<exists>al. PermissionGoes q False al \<in> set (e # es)}" by auto
  ultimately show ?case using broker_step_lost [of cfg s e] Cons.IH [of "fst ?r"] by blast
qed simp

lemma broker_run_balanced: "balanced s (broker_run cfg s es)"
proof (induction es arbitrary: s)
  case (Cons e es)
  then show ?case using balanced_then [OF broker_step_balanced] by simp
qed (simp add: balanced_def perm_ok_def)

end
