(* ===== verification/Broker_Live.thy ===== *)
theory Broker_Live
  imports Broker_Facts
begin

text \<open>
  What makes a cancel effective (runtime/lib/session-broker.js): the watchdog's timer belongs to the turn that runs,
  and while a turn waits for the engine the conversation's \<open>forceEndTurn\<close> is that of the call it waits for.
\<close>

definition conv_ok :: "conv \<Rightarrow> bool" where
  "conv_ok v \<longleftrightarrow> (\<forall>t. cv_timer v = Some t \<longrightarrow> cv_turn v = TurnRunning \<and> cv_started v = Some t) \<and>
     (cv_turn v = TurnRunning \<longrightarrow> cv_started v \<noteq> None)"

fun call_of :: "phase \<Rightarrow> nat option" where
  "call_of (InCall k g second r) = Some k"
| "call_of _ = None"

definition live_ok :: "broker \<Rightarrow> bool" where
  "live_ok s \<longleftrightarrow> (\<forall>v \<in> set (convs s). conv_ok v) \<and>
     (\<forall>r \<in> set (runs s). \<forall>k. call_of (r_phase r) = Some k \<longrightarrow> cv_force (convs s ! r_conv r) = Some k)"

lemma live_mod [intro]:
  assumes "live_ok s" "\<And>v. cv_force (f v) = cv_force v" "conv_ok (convs s ! c) \<Longrightarrow> conv_ok (f (convs s ! c))"
  shows "live_ok (mod_conv c f s)"
proof (cases "c < length (convs s)")
  case True
  have "conv_ok (f (convs s ! c))" using assms(1,3) True by (simp add: live_ok_def)
  moreover have "cv_force (convs (mod_conv c f s) ! d) = cv_force (convs s ! d)" for d
    using True by (cases "d = c") (simp_all add: mod_conv_def assms(2))
  ultimately show ?thesis using assms(1)
    by (auto simp: live_ok_def) (auto simp: mod_conv_def dest: set_update_subset_insert [THEN subsetD])
qed (use assms(1) in \<open>simp add: mod_conv_def list_update_beyond\<close>)

lemma live_fields [simp]:
  "live_ok (s\<lparr>binds := b\<rparr>) = live_ok s" "live_ok (s\<lparr>open_calls := k\<rparr>) = live_ok s" "live_ok (s\<lparr>next_call := m\<rparr>) = live_ok s"
  "live_ok (s\<lparr>asking := k2\<rparr>) = live_ok s" "live_ok (s\<lparr>telling := k3\<rparr>) = live_ok s"
  "live_ok (s\<lparr>next_req := m\<rparr>) = live_ok s" "live_ok (s\<lparr>eng_gen := g\<rparr>) = live_ok s" "live_ok (s\<lparr>eng_ready := r\<rparr>) = live_ok s"
  "live_ok (s\<lparr>tr_wanted := r\<rparr>) = live_ok s" "live_ok (s\<lparr>tr_running := r\<rparr>) = live_ok s" "live_ok (s\<lparr>tr_at := a\<rparr>) = live_ok s"
  "live_ok (s\<lparr>eng_tools_missing := r\<rparr>) = live_ok s" "live_ok (s\<lparr>engine_users := m\<rparr>) = live_ok s"
  "live_ok (s\<lparr>br_closed := r\<rparr>) = live_ok s"
  by (simp_all add: live_ok_def)

lemma live_phase [intro]: "live_ok s \<Longrightarrow> call_of ph = None \<Longrightarrow> live_ok (set_phase n ph s)"
  by (auto simp: live_ok_def set_phase_def dest!: set_update_subset_insert [THEN subsetD])

text \<open>A prompt that owns its conversation's turn and waits for no call leaves no other waiting there.\<close>

definition quiet_run :: "nat \<Rightarrow> broker \<Rightarrow> bool" where
  "quiet_run n s \<longleftrightarrow> n < length (runs s) \<and> r_conv (runs s ! n) < length (convs s) \<and>
     (\<forall>m < length (runs s). m \<noteq> n \<longrightarrow> r_conv (runs s ! m) = r_conv (runs s ! n) \<longrightarrow> call_of (r_phase (runs s ! m)) = None)"

lemma call_class: "call_of ph = Some k \<Longrightarrow> class_of ph = Turn"
  by (cases ph) simp_all

lemma quiet_owner:
  assumes "view_ok cap (view_of s)" "n < length (runs s)" "class_of (r_phase (runs s ! n)) \<in> {Turn, End}"
  shows "quiet_run n s"
proof -
  have own: "owns (view_of s) n (r_conv (runs s ! n))" using assms(2,3) by (simp add: owns_def view_run)
  have "m = n" if "m < length (runs s)" "r_conv (runs s ! m) = r_conv (runs s ! n)" "call_of (r_phase (runs s ! m)) = Some k" for m k
    using view_okD(3) [OF assms(1) _ own, of m] that call_class [OF that(3)] by (simp add: owns_def view_run)
  then have "call_of (r_phase (runs s ! m)) = None"
    if "m < length (runs s)" "m \<noteq> n" "r_conv (runs s ! m) = r_conv (runs s ! n)" for m
    using that by (cases "call_of (r_phase (runs s ! m))") auto
  then show ?thesis using view_okD(1) [OF assms(1), of n] assms(2) by (auto simp: quiet_run_def view_run)
qed

lemma quiet_idle:
  assumes "view_ok cap (view_of s)" "n < length (runs s)" "cv_turn (convs s ! r_conv (runs s ! n)) = TurnIdle"
  shows "quiet_run n s"
proof -
  have c: "r_conv (runs s ! n) < length (convs s)" using view_okD(1) [OF assms(1), of n] assms(2) by (simp add: view_run)
  have none: "\<not> owns (view_of s) m (r_conv (runs s ! n))" for m
    using view_okD(2) [OF assms(1), of m "r_conv (runs s ! n)"] assms(3) c by (auto simp: view_turn split: if_splits)
  have "call_of (r_phase (runs s ! m)) = None" if "m < length (runs s)" "r_conv (runs s ! m) = r_conv (runs s ! n)" for m
    using that none [of m] call_class [of "r_phase (runs s ! m)"] view_run [of m s]
    by (cases "call_of (r_phase (runs s ! m))") (auto simp: owns_def)
  then show ?thesis using assms(2) c by (simp add: quiet_run_def)
qed

text \<open>The only step that changes \<open>forceEndTurn\<close>: the owner's own.\<close>

lemma live_owner:
  assumes "live_ok s" "quiet_run n s" "conv_ok (convs s ! r_conv (runs s ! n)) \<Longrightarrow> conv_ok (f (convs s ! r_conv (runs s ! n)))"
    "\<And>k. call_of ph = Some k \<Longrightarrow> cv_force (f (convs s ! r_conv (runs s ! n))) = Some k"
  shows "live_ok (set_phase n ph (mod_conv (r_conv (runs s ! n)) f s))"
proof -
  let ?c = "r_conv (runs s ! n)"
  let ?t = "set_phase n ph (mod_conv ?c f s)"
  note q = assms(2) [unfolded quiet_run_def]
  have "conv_ok (f (convs s ! ?c))" using assms(1,3) q by (simp add: live_ok_def)
  then have convs: "\<forall>v \<in> set (convs ?t). conv_ok v"
    using assms(1) by (auto simp: live_ok_def mod_conv_def dest!: set_update_subset_insert [THEN subsetD])
  have "cv_force (convs ?t ! r_conv (runs ?t ! m)) = Some k" if m: "m < length (runs s)" "call_of (r_phase (runs ?t ! m)) = Some k" for m k
  proof (cases "m = n")
    case True
    then show ?thesis using assms(4) q that by (simp add: set_phase_def mod_conv_def)
  next
    case False
    then have r: "runs ?t ! m = runs s ! m" using m by (simp add: set_phase_def)
    then have "r_conv (runs s ! m) \<noteq> ?c" using q m False by auto
    then show ?thesis using assms(1) m r by (simp add: live_ok_def mod_conv_def)
  qed
  then show ?thesis using convs by (auto simp: live_ok_def in_set_conv_nth) 
qed

subsection \<open>Every step keeps it\<close>

lemma live_settle [intro]: "live_ok s \<Longrightarrow> live_ok (settle n s)"
  unfolding settle_def by (intro live_phase live_mod) (simp_all add: conv_ok_def split: option.split)

lemma live_answer: "live_ok s \<Longrightarrow> live_ok (fst (answer_permission q oc w s))"
  by (auto simp: answer_permission_def conv_ok_def split: option.split prod.split)

lemma live_answer_all: "live_ok s \<Longrightarrow> live_ok (fst (answer_all qs w s))"
  by (induction qs arbitrary: s) (simp_all add: live_answer)

lemma live_cancel_pending: "live_ok s \<Longrightarrow> live_ok (fst (cancel_pending c w s))"
  by (simp add: cancel_pending_def live_answer_all)

lemma live_cancel_pendings: "live_ok s \<Longrightarrow> live_ok (fst (cancel_pendings cs w s))"
  by (induction cs arbitrary: s) (simp_all add: live_cancel_pending)

lemma live_bind_conv: "live_ok s \<Longrightarrow> live_ok (fst (bind_conv c s))"
  by (auto simp: bind_conv_def Let_def conv_ok_def split: option.split)

lemma live_bind_fst: "bind_conv c s = (s', b) \<Longrightarrow> live_ok s \<Longrightarrow> live_ok s'"
  using live_bind_conv [of s c] by simp

lemma live_remember: "live_ok s \<Longrightarrow> live_ok (remember_sub c st s)"
  by (auto simp: remember_sub_def conv_ok_def split: option.split)

lemma call_answer: "call_of (r_phase (answer_run k a r)) = Some j \<Longrightarrow> call_of (r_phase r) = Some j"
  by (cases "r_phase r") (simp_all add: answer_run_def split: if_splits)

lemma live_answer_runs:
  assumes "live_ok s"
  shows "live_ok (s\<lparr>runs := map (answer_run k a) (runs s)\<rparr>)"
proof -
  have "cv_force (convs s ! r_conv r) = Some j" if "r \<in> answer_run k a ` set (runs s)" "call_of (r_phase r) = Some j" for r j
  proof -
    obtain q where q: "q \<in> set (runs s)" "r = answer_run k a q" using \<open>r \<in> _\<close> by blast
    then have "call_of (r_phase q) = Some j" using that(2) call_answer by blast
    then show ?thesis using assms q by (simp add: live_ok_def)
  qed
  then show ?thesis using assms by (simp add: live_ok_def)
qed

lemma quiet_same: "runs s' = runs s \<Longrightarrow> length (convs s') = length (convs s) \<Longrightarrow> quiet_run n s' = quiet_run n s"
  by (simp add: quiet_run_def)

lemma bind_length: "bind_conv c s = (s', b) \<Longrightarrow> length (convs s') = length (convs s)"
  by (auto simp: bind_conv_def Let_def split: option.splits if_splits)

lemma live_call_now:
  assumes "live_ok s" "quiet_run n s"
  shows "live_ok (fst (call_now n b k s))" "live_ok (fst (engine_prompt n b k s))"
proof -
  let ?t = "s\<lparr>next_call := next_call s + 1, open_calls := open_calls s @ [next_call s]\<rparr>"
  have "live_ok (set_phase n (InCall (next_call s) (eng_gen s) b k) (mod_conv (r_conv (runs ?t ! n))
      (\<lambda>v. v\<lparr>cv_engine_prompt := Some (next_call s), cv_force := Some (next_call s)\<rparr>) ?t))"
    by (rule live_owner) (use assms in \<open>simp_all add: conv_ok_def quiet_run_def\<close>)
  then show c: "live_ok (fst (call_now n b k s))" using assms(1) by (simp add: call_now_def Let_def live_phase)
  then show "live_ok (fst (engine_prompt n b k s))" using assms(1) by (simp add: engine_prompt_def live_phase)
qed

lemma live_own_force:
  assumes "live_ok s" "quiet_run n s" "call_of ph = None"
  shows "live_ok (set_phase n ph (mod_conv (r_conv (runs s ! n)) (own_force k) s))"
  by (rule live_owner [OF assms(1,2)]) (use assms(3) in \<open>simp_all add: own_force_def conv_ok_def\<close>)

lemma live_bind_then_prompt:
  assumes "live_ok s" "quiet_run n s"
  shows "live_ok (fst (bind_then_prompt n b k s))"
proof -
  obtain s' x where x: "bind_conv (r_conv (runs s ! n)) s = (s', x)" by fastforce
  have s': "live_ok s'" "quiet_run n s'"
    using live_bind_fst [OF x assms(1)] assms(2) quiet_same [OF _ bind_length [OF x]] bind_conv_fst [OF x] by simp_all
  then show ?thesis using x live_call_now [OF s'] by (cases x) (simp_all add: bind_then_prompt_def live_phase)
qed

lemma live_prompt_answered:
  assumes "live_ok s" "quiet_run n s"
  shows "live_ok (fst (prompt_answered n k g a b r ob s))"
proof -
  let ?t = "mod_conv (r_conv (runs s ! n)) (\<lambda>v. v\<lparr>cv_bound := - 1\<rparr>) s"
  have "live_ok ?t" using assms(1) by (intro live_mod) (simp_all add: conv_ok_def)
  then have "live_ok (fst (bind_then_prompt n b k ?t))"
    by (rule live_bind_then_prompt) (use assms(2) quiet_same [of ?t s] in simp)
  then show ?thesis using live_own_force [OF assms] by (simp add: prompt_answered_def Let_def split: answer.split)
qed

lemma live_end_turn: "live_ok s \<Longrightarrow> live_ok (fst (end_turn n r s))"
proof -
  assume s: "live_ok s"
  have "live_ok (mod_conv c (\<lambda>v. v\<lparr>cv_turn := TurnEnding, cv_timer := None\<rparr>) s)" for c
    using s by (intro live_mod) (simp_all add: conv_ok_def)
  then show ?thesis using s by (simp add: end_turn_def Let_def live_settle live_phase live_cancel_pending)
qed

lemma live_turn_over:
  assumes "live_ok s" "cv_turn (convs s ! r_conv (runs s ! n)) = TurnEnding"
  shows "live_ok (fst (turn_over n r ob s))"
proof -
  let ?c = "r_conv (runs s ! n)"
  define s1 where "s1 = (if ob_log ob then remember_sub ?c (Some (rs_stop r)) s else s)"
  have "live_ok s1" using assms(1) by (simp add: s1_def live_remember)
  moreover have "cv_turn (convs s1 ! ?c) = TurnEnding"
    using assms(2) by (cases "?c < length (convs s)")
      (simp_all add: s1_def remember_sub_def mod_conv_nth mod_conv_def list_update_beyond split: option.split)
  ultimately have "live_ok (mod_conv ?c (\<lambda>v. v\<lparr>cv_sub := None, cv_started := None, cv_turn := TurnIdle\<rparr>) s1)"
    by (intro live_mod) (auto simp: conv_ok_def)
  then show ?thesis by (simp add: turn_over_def Let_def live_phase flip: s1_def)
qed

lemma live_start_turn:
  assumes "live_ok s" "cv_turn (convs s ! r_conv (runs s ! n)) = TurnIdle"
  shows "live_ok (fst (start_turn n now s))"
  using assms unfolding start_turn_def Let_def fst_conv by (intro live_phase live_mod) (auto simp: conv_ok_def)

lemma live_refuse: "live_ok s \<Longrightarrow> live_ok (fst (refuse n e s))"
  by (simp add: refuse_def live_settle)

lemma live_bind_then_refresh: "live_ok s \<Longrightarrow> live_ok (fst (bind_then_refresh n s))"
proof -
  assume s: "live_ok s"
  obtain s' x where x: "bind_conv (r_conv (runs s ! n)) s = (s', x)" by fastforce
  then show ?thesis using live_bind_fst [OF x s] by (cases x) (simp_all add: bind_then_refresh_def live_phase)
qed

lemma live_run_goes:
  assumes "live_ok s" "view_ok cap (view_of s)" "n < length (runs s)"
  shows "live_ok (fst (run_goes cfg n ob s))"
proof -
  note turn = quiet_owner [OF assms(2,3)]
  have c: "r_conv (runs s ! n) < length (convs s)" using view_okD(1) [OF assms(2), of n] assms(3) by (simp add: view_run)
  have ending: "cv_turn (convs s ! r_conv (runs s ! n)) = TurnEnding" if "class_of (r_phase (runs s ! n)) = End"
    using view_okD(2) [OF assms(2), of n "r_conv (runs s ! n)"] that assms(3) c by (simp add: owns_def view_run view_turn)
  have rem: "live_ok (remember_sub d None s)" "quiet_run n (remember_sub d None s) = quiet_run n s" for d
    using live_remember [OF assms(1)] by (auto simp: remember_sub_def split: option.split intro!: quiet_same)
  have start: "live_ok (fst (start_turn n now s))" if "cannot_run cfg (r_conv (runs s ! n)) s = None" for now
    using that by (intro live_start_turn assms(1)) (simp add: cannot_run_def split: if_splits)
  note basic = assms(1) live_phase [OF assms(1)] live_settle [OF assms(1)] live_refuse [OF assms(1)]
  show ?thesis
    by (cases "r_phase (runs s ! n)")
       (use basic turn ending rem start live_call_now [OF assms(1)] live_call_now(2) [OF rem(1)] live_own_force [OF assms(1)]
         live_prompt_answered [OF assms(1)] live_end_turn [OF assms(1)] live_turn_over [OF assms(1)]
         live_bind_then_refresh [OF assms(1)]
         in \<open>simp_all add: run_goes_def Let_def split: option.split bind_result.split prod.split\<close>)
qed

lemma live_cancel_turn: "live_ok s \<Longrightarrow> live_ok (fst (cancel_turn c sub s))"
proof -
  assume s: "live_ok s"
  have keep: "map cv_turn (convs s') = map cv_turn (convs s) \<Longrightarrow> cv_turn (convs s' ! c) = cv_turn (convs s ! c)"
    if "c < length (convs s)" for s' using that by (metis length_map nth_map)
  let ?p = "cancel_pending c ByCancel (mod_conv c (\<lambda>v. v\<lparr>cv_cancel := True\<rparr>) s)"
  have "live_ok (mod_conv c (\<lambda>v. v\<lparr>cv_cancel := True\<rparr>) s)" using s by (intro live_mod) (simp_all add: conv_ok_def)
  then have p: "live_ok (fst ?p)" by (rule live_cancel_pending)
  have v: "view_of (fst ?p) = view_of s"
    using cancel_pending_keeps [of "mod_conv c (\<lambda>v. v\<lparr>cv_cancel := True\<rparr>) s" c ByCancel] by (simp add: keeps_view_def)
  have run: "live_ok (mod_conv c (\<lambda>v. v\<lparr>cv_timer := (if cv_timer v = None then cv_started v else cv_timer v)\<rparr>) (fst ?p))"
    if "cv_turn (convs s ! c) = TurnRunning"
  proof (cases "c < length (convs s)")
    case True
    have "map cv_turn (convs (fst ?p)) = map cv_turn (convs s)" using v by (simp add: view_of_def)
    then have "cv_turn (convs (fst ?p) ! c) = TurnRunning" using keep [OF True] that by simp
    then show ?thesis using p by (intro live_mod) (auto simp: conv_ok_def)
  next
    case False
    have "length (convs (fst ?p)) = length (convs s)" using v by (metis view_lengths(2))
    then show ?thesis using False p by (simp add: mod_conv_def list_update_beyond)
  qed
  have idle: "live_ok (mod_conv c (\<lambda>v. v\<lparr>cv_admitting := f v\<rparr>) s)" for f
    using s by (intro live_mod) (simp_all add: conv_ok_def)
  show ?thesis using run idle s by (simp add: cancel_turn_def Let_def split: turn_state.split)
qed

lemma live_watchdog: "live_ok s \<Longrightarrow> live_ok (fst (watchdog c s))"
proof -
  assume s: "live_ok s"
  let ?s1 = "mod_conv c (\<lambda>v. v\<lparr>cv_timer := None\<rparr>) s"
  have s1: "live_ok ?s1" using s by (intro live_mod) (simp_all add: conv_ok_def)
  have "live_ok ((mod_conv c (\<lambda>v. v\<lparr>cv_bound := - 1\<rparr>) ?s1)\<lparr>runs := map (answer_run k a) (runs s)\<rparr>)" for k a
    using live_answer_runs [where s = "mod_conv c (\<lambda>v. v\<lparr>cv_bound := - 1\<rparr>) ?s1" and k = k and a = a] s1
      live_mod [OF s1, of "\<lambda>v. v\<lparr>cv_bound := - 1\<rparr>" c] by (simp add: conv_ok_def)
  then show ?thesis using s s1 by (auto simp: watchdog_def Let_def split: option.split)
qed

lemma live_prompt:
  assumes "live_ok s"
  shows "live_ok (fst (prompt c sub s))"
proof -
  have "live_ok (s\<lparr>runs := runs s @ [\<lparr>r_conv = c, r_sub = x, r_phase = (if x = None then Checking else FindSub)\<rparr>]\<rparr>)" for x
    using assms by (auto simp: live_ok_def)
  moreover have "live_ok t \<Longrightarrow> live_ok (mod_conv c (\<lambda>v. v\<lparr>cv_inflight := g v\<rparr>) t)"
    "live_ok t \<Longrightarrow> live_ok (mod_conv c (\<lambda>v. v\<lparr>cv_admitting := h v\<rparr>) t)" for g h t
    by (auto intro!: live_mod simp: conv_ok_def)
  ultimately have "live_ok (fst (prompt_once c x s))" for x
    by (simp add: prompt_once_def Let_def refuse_def live_settle)
  then show ?thesis using assms by (simp add: prompt_def Let_def split: option.split)
qed

lemma live_call_returns:
  assumes "live_ok s" "\<forall>r \<in> set (runs s). r_conv r < length (convs s)"
  shows "live_ok (call_returns k a s)"
proof -
  let ?f = "\<lambda>v. if cv_engine_prompt v = Some k then v\<lparr>cv_engine_prompt := None\<rparr> else v"
  have t: "live_ok (s\<lparr>runs := map (answer_run k a) (runs s)\<rparr>)" by (rule live_answer_runs [OF assms(1)])
  have f: "cv_force (?f v) = cv_force v" "conv_ok v \<Longrightarrow> conv_ok (?f v)" for v by (simp_all add: conv_ok_def)
  have "live_ok (s\<lparr>convs := map ?f (convs s), runs := map (answer_run k a) (runs s)\<rparr>)"
    using t assms(2) f(2) unfolding live_ok_def by (auto simp: f(1) conv_ok_def)
  then show ?thesis using assms(1) by (simp add: call_returns_def live_ok_def)
qed

text \<open>Every event keeps the invariants.\<close>

lemma live_step:
  assumes "live_ok s" "view_ok (max_running cfg) (view_of s)"
  shows "live_ok (fst (broker_step cfg s e))"
proof -
  have c: "\<forall>r \<in> set (runs s). r_conv r < length (convs s)"
    using view_okD(1) [OF assms(2)] by (auto simp: in_set_conv_nth view_run)
  note s = assms(1)
  show ?thesis
  proof (cases e)
    case (Register m a l)
    then show ?thesis using s c by (auto simp: live_ok_def new_conv_def conv_ok_def nth_append)
  next
    case (EnginePermission d rpc ops)
    then show ?thesis using s by (simp add: engine_permission_def)
  next
    case (PermissionGoes q ok al)
    have "live_ok t \<Longrightarrow> live_ok (mod_conv d (\<lambda>v. v\<lparr>cv_pending := g v\<rparr>) t)" for d g t
      by (auto intro!: live_mod simp: conv_ok_def)
    then show ?thesis using PermissionGoes s by (simp add: permission_goes_def register_ask_def split: option.split)
  next
    case (BindReturns b r)
    have "live_ok t \<Longrightarrow> live_ok (mod_conv d (\<lambda>v. v\<lparr>cv_binding := None, cv_bound := g v, cv_archived := h v, cv_lost := i v\<rparr>) t)"
      for d g h i t by (auto intro!: live_mod simp: conv_ok_def)
    then show ?thesis using BindReturns s by (simp add: bind_returns_def Let_def)
  next
    case (EngineExits x)
    then show ?thesis using s live_cancel_pendings by (simp add: engine_exits_def Let_def)
  qed (use s c live_prompt live_run_goes [OF s assms(2)] live_call_returns live_cancel_turn live_watchdog live_answer
      in \<open>simp_all add: permission_times_out_def engine_cancels_def maybe_restart_for_tools_def tools_attempt_def Let_def
            split: option.split prod.split\<close>)
qed

interpretation broker_live: run_invariant "\<lambda>s e. fst (broker_step cfg s e)"
  "\<lambda>s. view_ok (max_running cfg) (view_of s) \<and> live_ok s" for cfg
  by unfold_locales (auto intro: broker_view_ok live_step)

lemma broker_run_live: "live_ok (fst (broker_run cfg (broker_init g) es))"
proof -
  have "live_ok (broker_init g)" by (simp add: live_ok_def broker_init_def)
  then show ?thesis using broker_live.run_inv [of cfg "broker_init g" es] broker_init_view broker_run_state by simp
qed

end
