(* ===== verification/Broker_Props.thy ===== *)
theory Broker_Props
  imports Broker_Perms Broker_Live
begin

text \<open>
  The properties of the session broker's turns (runtime/lib/session-broker.js), each a few steps over the
  turn machine of \<open>Broker_Facts\<close>: turns follow one another, their number is bounded, engine restarts for missing
  tools are rationed, failures tell the person what to do.
\<close>

subsection \<open>One turn at a time\<close>

text \<open>Of a conversation: a turn starts only when none is open, and only the open one is over. \<open>cur\<close> is the prompt
  whose turn is open.\<close>

fun turns_alternate :: "nat \<Rightarrow> nat option \<Rightarrow> broker_out list \<Rightarrow> bool" where
  "turns_alternate c cur [] = True"
| "turns_alternate c cur (TurnStarted d n # outs) =
    (if d = c then cur = None \<and> turns_alternate c (Some n) outs else turns_alternate c cur outs)"
| "turns_alternate c cur (TurnOver d n # outs) =
    (if d = c then cur = Some n \<and> turns_alternate c None outs else turns_alternate c cur outs)"
| "turns_alternate c cur (_ # outs) = turns_alternate c cur outs"

lemma alternate_turn_outs: "turns_alternate c cur (outs @ xs) = turns_alternate c cur (turn_outs outs @ xs)"
proof (induction outs arbitrary: cur)
  case (Cons x outs)
  then show ?case by (cases x) simp_all
qed simp

lemma turn_step_alternates:
  assumes "turn_step cap v outs v'" "view_ok cap v" "\<forall>n. cur = Some n \<longleftrightarrow> owns v n c"
  shows "\<exists>cur'. (\<forall>n. cur' = Some n \<longleftrightarrow> owns v' n c) \<and>
    (\<forall>xs. turns_alternate c cur (outs @ xs) = turns_alternate c cur' xs)"
  using assms(1)
proof cases
  case (begin_turn n d)
  have o: "owns v' m e \<longleftrightarrow> (if m = n then e = d else owns v m e)" for m e
    using begin_turn by (auto simp: owns_set_class)
  have none: "\<not> owns v m d" for m
    using view_okD(2) [OF assms(2), of m d] begin_turn(5) by (auto split: if_splits)
  have not_n: "\<not> owns v n e" for e using begin_turn(4) by (simp add: owns_def)
  show ?thesis
  proof (cases "d = c")
    case True
    then have "cur = None" using assms(3) none by (cases cur) auto
    with True o none begin_turn(1) show ?thesis by (intro exI [of _ "Some n"]) auto
  next
    case False
    with assms(3) o not_n begin_turn(1) show ?thesis by (intro exI [of _ cur]) auto
  qed
next
  case (over n d)
  have own: "owns v n d" using over by (simp add: owns_def)
  have o: "owns v' m e \<longleftrightarrow> m \<noteq> n \<and> owns v m e" for m e using over by (auto simp: owns_set_class)
  show ?thesis
  proof (cases "d = c")
    case True
    then have "cur = Some n" using assms(3) own by blast
    moreover have "\<not> owns v' m c" for m using o own view_okD(3) [OF assms(2)] True by blast
    ultimately show ?thesis using True over(1) by (intro exI [of _ None]) auto
  next
    case False
    have "owns v n e \<longleftrightarrow> e = d" for e using own by (auto simp: owns_def)
    with False assms(3) o over(1) show ?thesis by (intro exI [of _ cur]) auto
  qed
next
  case (ending n d)
  have "owns v' m e \<longleftrightarrow> owns v m e" for m e
    using ending by (cases "m = n") (auto simp: owns_def nth_list_update)
  then show ?thesis using assms(3) ending(1) by auto
next
  case (join d k)
  have "owns v' m e \<longleftrightarrow> owns v m e" for m e
    using join by (auto simp: owns_def nth_append less_Suc_eq)
  then show ?thesis using assms(3) join(1) by auto
next
  case (leave n)
  have "owns v' m e \<longleftrightarrow> owns v m e" for m e
    using leave by (auto simp: owns_set_class) (auto simp: owns_def)
  then show ?thesis using assms(3) leave(1) by auto
qed (use assms(3) in \<open>auto simp: owns_def\<close>)

lemma broker_run_alternates:
  assumes "view_ok (max_running cfg) (view_of s)" "\<forall>n. cur = Some n \<longleftrightarrow> owns (view_of s) n c"
  shows "turns_alternate c cur (snd (broker_run cfg s es))"
  using assms
proof (induction es arbitrary: s cur)
  case (Cons e es)
  let ?s = "fst (broker_step cfg s e)"
  obtain cur' where "\<forall>n. cur' = Some n \<longleftrightarrow> owns (view_of ?s) n c"
    and o: "\<forall>xs. turns_alternate c cur (turn_outs (snd (broker_step cfg s e)) @ xs) = turns_alternate c cur' xs"
    using turn_step_alternates [OF broker_step_refines [OF Cons.prems(1)] Cons.prems(1,2)] by blast
  then have "turns_alternate c cur' (snd (broker_run cfg ?s es))"
    using Cons.IH [OF broker_view_ok [OF Cons.prems(1)]] by blast
  then show ?case using o alternate_turn_outs by simp
qed simp

text \<open>Claim C6. In every conversation the turns follow one another: whatever prompts, cancels, engine answers and
  restarts arrive, in whatever order, a turn starts only when the one before it is over, and a turn that is over is the one
  that was open.\<close>

theorem turns_follow_one_another: "turns_alternate c None (snd (broker_run cfg (broker_init g) es))"
proof (rule broker_run_alternates [OF broker_init_view])
  show "\<forall>n. None = Some n \<longleftrightarrow> owns (view_of (broker_init g)) n c"
    by (simp add: owns_def view_of_def broker_init_def)
qed

text \<open>Claim C8. Never more turns run at once than \<open>maxRunning\<close>, although a prompt is admitted long before its turn
  starts: the second check, after the last \<open>await\<close>, is what makes the bound hold.\<close>

theorem running_turns_bounded: "running_count (fst (broker_run cfg (broker_init g) es)) \<le> max_running cfg"
proof -
  let ?s = "fst (broker_run cfg (broker_init g) es)"
  have "busy_turns (view_of ?s) = running_count ?s"
    by (simp add: busy_turns_def view_of_def running_count_def filter_map comp_def)
  then show ?thesis using view_okD(5) [OF broker_run_view] by metis
qed

subsection \<open>The tools restart\<close>

interpretation tools_budget: rate_limited tools_attempt tr_at TOOLS_RESTART_WINDOW_MS TOOLS_RESTART_MAX
proof unfold_locales
  fix t s s'
  show "tools_attempt t s = (s', True) \<Longrightarrow> tr_at s' = filter (\<lambda>g. t - g < TOOLS_RESTART_WINDOW_MS) (tr_at s) @ [t]"
    by (auto simp: tools_attempt_def Let_def split: if_splits)
  show "tools_attempt t s = (s', False) \<Longrightarrow> tr_at s' = filter (\<lambda>g. t - g < TOOLS_RESTART_WINDOW_MS) (tr_at s)"
    by (auto simp: tools_attempt_def Let_def split: if_splits)
  show "tools_attempt t s = (s', True) \<Longrightarrow>
      length (filter (\<lambda>g. t - g < TOOLS_RESTART_WINDOW_MS) (tr_at s)) < TOOLS_RESTART_MAX"
    by (auto simp: tools_attempt_def Let_def split: if_splits)
qed

text \<open>The times of a run's tools restarts, and of its attempts.\<close>

fun restart_times :: "broker_cfg \<Rightarrow> broker \<Rightarrow> broker_event list \<Rightarrow> int list" where
  "restart_times cfg s [] = []"
| "restart_times cfg s (e # es) =
    (case e of MaybeRestart now \<Rightarrow> if EngineRestart \<in> set (snd (broker_step cfg s e)) then [now] else [] | _ \<Rightarrow> []) @
    restart_times cfg (fst (broker_step cfg s e)) es"

fun attempt_times :: "broker_event list \<Rightarrow> int list" where
  "attempt_times [] = []"
| "attempt_times (MaybeRestart now # es) = now # attempt_times es"
| "attempt_times (_ # es) = attempt_times es"

lemma sorted_subseq: "subseq xs ys \<Longrightarrow> sorted ys \<Longrightarrow> sorted xs"
  for xs ys :: "int list"
  by (induction rule: list_emb.induct) (auto dest: list_emb_set)

lemma granted_history_only: "tr_at s = tr_at s' \<Longrightarrow> granted tools_attempt s ts = granted tools_attempt s' ts"
proof (induction ts arbitrary: s s')
  case (Cons t ts)
  have "snd (tools_attempt t s) = snd (tools_attempt t s')" "tr_at (fst (tools_attempt t s)) = tr_at (fst (tools_attempt t s'))"
    using Cons.prems by (simp_all add: tools_attempt_def Let_def)
  then show ?case using Cons.IH [of "fst (tools_attempt t s)" "fst (tools_attempt t s')"] by (simp add: split_beta)
qed simp

text \<open>A run's restarts are the grants of a part of its attempts.\<close>

lemma restarts_granted:
  "\<exists>ts. subseq ts (attempt_times es) \<and> restart_times cfg s es = granted tools_attempt s ts"
proof (induction es arbitrary: s)
  case Nil
  then show ?case by (intro exI [of _ "[]"]) simp
next
  case (Cons e es)
  obtain ts where ts: "subseq ts (attempt_times es)"
      "restart_times cfg (fst (broker_step cfg s e)) es = granted tools_attempt (fst (broker_step cfg s e)) ts"
    using Cons.IH by blast
  show ?case
  proof (cases "\<exists>now. e = MaybeRestart now")
    case True
    then obtain now where e: "e = MaybeRestart now" by blast
    show ?thesis
    proof (cases "tr_wanted s \<and> \<not> tr_running s \<and> \<not> br_closed s \<and> \<not> broker_busy s \<and> engine_users s = 0 \<and> eng_tools_missing s")
      case True
      obtain u ok where "tools_attempt now s = (u, ok)" by fastforce
      with True e ts show ?thesis
        by (intro exI [of _ "now # ts"]) (simp add: maybe_restart_for_tools_def)
    next
      case False
      then have "tr_at (fst (broker_step cfg s e)) = tr_at s" "EngineRestart \<notin> set (snd (broker_step cfg s e))"
        using e by (auto simp: maybe_restart_for_tools_def)
      moreover from this(1) have "granted tools_attempt (fst (broker_step cfg s e)) ts = granted tools_attempt s ts"
        by (rule granted_history_only)
      moreover have "subseq ts (attempt_times (e # es))" using ts(1) e by (simp add: list_emb.list_emb_Cons)
      ultimately show ?thesis using ts(2) e by (intro exI [of _ ts]) (simp del: broker_step.simps)
    qed
  next
    case False
    then have "tr_at (fst (broker_step cfg s e)) = tr_at s"
      using broker_step_history [of e cfg s] by simp
    moreover have "attempt_times (e # es) = attempt_times es" using False by (cases e) auto
    moreover have "restart_times cfg s (e # es) = restart_times cfg (fst (broker_step cfg s e)) es"
      using False by (cases e) auto
    moreover have "granted tools_attempt (fst (broker_step cfg s e)) ts = granted tools_attempt s ts"
      by (rule granted_history_only) fact
    ultimately show ?thesis using ts by (intro exI [of _ ts]) simp
  qed
qed

text \<open>The engine is restarted to reconnect missing tools at most three times in any ten minutes, whatever
  prompts, cancels and engine exits come in between.\<close>

theorem tools_restarts_bounded:
  assumes "sorted (attempt_times es)"
  shows "length (filter (\<lambda>g. x - g < TOOLS_RESTART_WINDOW_MS \<and> g \<le> x) (restart_times cfg (broker_init g0) es))
    \<le> TOOLS_RESTART_MAX"
proof -
  obtain ts where ts: "subseq ts (attempt_times es)" "restart_times cfg (broker_init g0) es = granted tools_attempt (broker_init g0) ts"
    using restarts_granted by blast
  have "sorted ts" using sorted_subseq [OF ts(1) assms] .
  then show ?thesis unfolding ts(2) by (rule tools_budget.window_bound) (simp add: broker_init_def)
qed

theorem tools_restarts_bounded_witness:
  "length (filter (\<lambda>g. 9 - g < TOOLS_RESTART_WINDOW_MS \<and> g \<le> 9)
     (restart_times \<lparr>max_running = 3\<rparr> (broker_init 1) [EngineReady 1 True True, MaybeRestart 5, RestartOver, McpIsReady, MaybeRestart 8])) \<le> TOOLS_RESTART_MAX
   \<and> restart_times \<lparr>max_running = 3\<rparr> (broker_init 1) [EngineReady 1 True True, MaybeRestart 5, RestartOver, McpIsReady, MaybeRestart 8] = [5, 8]"
proof
  show "length (filter (\<lambda>g. 9 - g < TOOLS_RESTART_WINDOW_MS \<and> g \<le> 9)
     (restart_times \<lparr>max_running = 3\<rparr> (broker_init 1) [EngineReady 1 True True, MaybeRestart 5, RestartOver, McpIsReady, MaybeRestart 8])) \<le> TOOLS_RESTART_MAX"
    by (rule tools_restarts_bounded) simp
qed (simp add: broker_init_def maybe_restart_for_tools_def broker_busy_def tools_attempt_def TOOLS_RESTART_MAX_def TOOLS_RESTART_WINDOW_MS_def)

subsection \<open>Permissions\<close>

text \<open>Claim C10. Permission requests are conserved: of all the requests the broker took (they are numbered in the order they
  came), each was resolved exactly once, was lost, is registered and pending, or is before its registration, and only one
  of these, whichever of the user, a cancel, the timeout, the engine, its exit, the end of the turn and the policy answers
  it first. Only a log that could not be opened or written loses a request, before it is registered or while the
  policy's answer is recorded.\<close>

theorem permissions_resolved_once:
  "mset (resolved_ids (snd (broker_run cfg (broker_init g) es))) + mset (lost_ids (snd (broker_run cfg (broker_init g) es)))
     + mset (pending_ids (fst (broker_run cfg (broker_init g) es))) + mset (om_keys (asking (fst (broker_run cfg (broker_init g) es))))
     = mset [0 ..< next_req (fst (broker_run cfg (broker_init g) es))] \<and>
   set (lost_ids (snd (broker_run cfg (broker_init g) es))) \<subseteq> {q. \<exists>allowed. PermissionGoes q False allowed \<in> set es}"
  using broker_run_balanced [of "broker_init g" cfg es] broker_run_lost [of cfg "broker_init g" es]
  by (simp add: balanced_def perm_ok_def asks_ok_def open_ids_def closed_ids_def pending_ids_def broker_init_def om_keys_def ac_simps)

text \<open>What such a failure does: the engine's request is never answered, whoever tries, and no timer runs for it.\<close>

lemma log_failure_loses_request:
  "snd (broker_run cfg (broker_init g) [Register ''standard'' False False, EnginePermission 0 (Some 7) [(''a'', ''allow_once'')],
     PermissionGoes 0 False False, Respond 0 (Selected ''a''), PermTimeout 0, EngineCancelRequest 7, Cancel 0 None,
     EngineExits False]) = [PermissionLost 0]"
  by (simp add: broker_init_def new_conv_def engine_permission_def permission_goes_def answer_permission_def conv_of_req_def
      om_has_def permission_times_out_def engine_cancels_def cancel_turn_def engine_exits_def cancel_pending_def om_keys_def
      om_set_def om_delete_def om_get_def mod_conv_def)

subsection \<open>Cancel\<close>

text \<open>Answering requests changes nothing else of a conversation.\<close>

definition strip :: "conv \<Rightarrow> conv" where
  "strip v = v\<lparr>cv_pending := []\<rparr>"

lemma strip_simps:
  "cv_turn (strip v) = cv_turn v" "cv_started (strip v) = cv_started v" "cv_timer (strip v) = cv_timer v"
  "cv_force (strip v) = cv_force v"
  by (simp_all add: strip_def)

lemma answer_strip: "map strip (convs (fst (answer_permission q oc w s))) = map strip (convs s)"
  by (auto simp: answer_permission_def mod_conv_def map_update strip_def list_update_same_conv
      split: option.splits prod.splits dest: conv_of_reqD)

lemma cancel_pending_strip: "map strip (convs (fst (cancel_pending c w s))) = map strip (convs s)"
proof -
  have "map strip (convs (fst (answer_all qs w s))) = map strip (convs s)" for qs
    by (induction qs arbitrary: s) (simp_all add: answer_strip)
  then show ?thesis by (simp add: cancel_pending_def)
qed

lemma cancel_pending_conv:
  assumes "c < length (convs s)" "s' = fst (cancel_pending d w s)"
  shows "cv_turn (convs s' ! c) = cv_turn (convs s ! c)" "cv_started (convs s' ! c) = cv_started (convs s ! c)"
    "cv_timer (convs s' ! c) = cv_timer (convs s ! c)" "cv_force (convs s' ! c) = cv_force (convs s ! c)"
    "length (convs s') = length (convs s)"
proof -
  have e: "map strip (convs s') = map strip (convs s)" using assms(2) cancel_pending_strip by simp
  then show len: "length (convs s') = length (convs s)" by (metis length_map)
  have "strip (convs s' ! c) = strip (convs s ! c)" using e assms(1) len by (metis nth_map)
  then show "cv_turn (convs s' ! c) = cv_turn (convs s ! c)" "cv_started (convs s' ! c) = cv_started (convs s ! c)"
    "cv_timer (convs s' ! c) = cv_timer (convs s ! c)" "cv_force (convs s' ! c) = cv_force (convs s ! c)"
    by (metis strip_simps(1), metis strip_simps(2), metis strip_simps(3), metis strip_simps(4))
qed

text \<open>The two halves: cancel and watchdog answer the prompt; the answered prompt ends its turn.\<close>

lemma cancel_watchdog_answers:
  assumes "c < length (convs s)" "n < length (runs s)" "r_phase (runs s ! n) = InCall k g b again"
    "cv_turn (convs s ! c) = TurnRunning" "cv_force (convs s ! c) = Some k" "conv_ok (convs s ! c)"
    "s2 = fst (watchdog c (fst (cancel_turn c None s)))"
  shows "cv_turn (convs s2 ! c) = TurnRunning" "length (convs s2) = length (convs s)" "length (runs s2) = length (runs s)"
    "r_conv (runs s2 ! n) = r_conv (runs s ! n)"
    "r_phase (runs s2 ! n) = Answered (Some k) g (Reply forced_response) b again"
proof -
  let ?s0 = "mod_conv c (\<lambda>v. v\<lparr>cv_cancel := True\<rparr>) s"
  define p where "p = fst (cancel_pending c ByCancel ?s0)"
  have c0: "c < length (convs ?s0)" using assms(1) by simp
  note p = cancel_pending_conv [OF c0 p_def]
  have p_runs: "runs p = runs s" by (simp add: p_def)
  define s1 where "s1 = fst (cancel_turn c None s)"
  have s1: "s1 = mod_conv c (\<lambda>v. v\<lparr>cv_timer := (if cv_timer v = None then cv_started v else cv_timer v)\<rparr>) p"
    using assms(4) by (simp add: s1_def cancel_turn_def stale_def Let_def p_def)
  obtain t where t: "cv_started (convs s ! c) = Some t" using assms(4,6) by (auto simp: conv_ok_def)
  have s1f: "cv_turn (convs s1 ! c) = TurnRunning" "cv_started (convs s1 ! c) = Some t" "cv_force (convs s1 ! c) = Some k"
    "cv_timer (convs s1 ! c) = Some t" "length (convs s1) = length (convs s)" "runs s1 = runs s"
    using p assms(1,4,5,6) t p_runs by (auto simp: s1 mod_conv_nth conv_ok_def)
  have s2: "s2 = (mod_conv c (\<lambda>v. v\<lparr>cv_bound := - 1\<rparr>) (mod_conv c (\<lambda>v. v\<lparr>cv_timer := None\<rparr>) s1))
      \<lparr>runs := map (answer_run k (Reply forced_response)) (runs s1)\<rparr>"
    using s1f by (simp add: assms(7) watchdog_def Let_def flip: s1_def)
  show "cv_turn (convs s2 ! c) = TurnRunning" using s1f assms(1) by (simp add: s2 mod_conv_nth)
  show "length (convs s2) = length (convs s)" "length (runs s2) = length (runs s)" using s1f by (simp_all add: s2)
  show "r_conv (runs s2 ! n) = r_conv (runs s ! n)" using s1f assms(2) by (simp add: s2)
  show "r_phase (runs s2 ! n) = Answered (Some k) g (Reply forced_response) b again"
    using s1f assms(2,3) by (simp add: s2 answer_run_def)
qed

lemma answered_ends:
  assumes "n < length (runs s)" "c = r_conv (runs s ! n)" "c < length (convs s)" "cv_turn (convs s ! c) = TurnRunning"
    "r_phase (runs s ! n) = Answered k g (Reply forced_response) b again"
    "fin = broker_run cfg s [RunGoes n o1, RunGoes n o2, RunGoes n o3]"
  shows "cv_turn (convs (fst fin) ! c) = TurnIdle \<and> TurnOver c n \<in> set (snd fin)"
proof -
  define s3 where "s3 = set_phase n (Finish forced_response) (mod_conv c (own_force k) s)"
  have g1: "run_goes cfg n o1 s = (s3, [])"
    using assms(2,5) by (simp add: run_goes_def prompt_answered_def forced_response_def cancelled_response_def
        plain_response_def s3_def Let_def)
  have s3: "r_phase (runs s3 ! n) = Finish forced_response" "r_conv (runs s3 ! n) = c" "length (runs s3) = length (runs s)"
    "cv_turn (convs s3 ! c) = TurnRunning" "length (convs s3) = length (convs s)"
    using assms(1-4) by (simp_all add: s3_def set_phase_def mod_conv_def own_force_def)
  let ?s0 = "mod_conv c (\<lambda>v. v\<lparr>cv_turn := TurnEnding, cv_timer := None\<rparr>) s3"
  define p where "p = fst (cancel_pending c ByTurnEnd ?s0)"
  have c0: "c < length (convs ?s0)" using assms(3) s3 by simp
  note p = cancel_pending_conv [OF c0 p_def]
  have p_runs: "runs p = runs s3" by (simp add: p_def)
  define s4 where "s4 = set_phase n (EndAppend forced_response) p"
  have g2: "fst (run_goes cfg n o2 s3) = s4"
    using s3 by (simp add: run_goes_def end_turn_def with_reason_def forced_response_def cancelled_response_def p_def s4_def Let_def)
  have s4: "r_phase (runs s4 ! n) = EndAppend forced_response" "r_conv (runs s4 ! n) = c" "length (runs s4) = length (runs s)"
    "length (convs s4) = length (convs s)"
    using assms(1) s3 p p_runs by (simp_all add: s4_def set_phase_def)
  have len: "length (convs (if ob_log o3 then remember_sub c st s4 else s4)) = length (convs s4)" for st
    by (simp add: remember_sub_def split: option.split)
  have g3: "cv_turn (convs (fst (run_goes cfg n o3 s4)) ! c) = TurnIdle" "TurnOver c n \<in> set (snd (run_goes cfg n o3 s4))"
    using s4 assms(1,3) len by (simp_all add: run_goes_def turn_over_def Let_def mod_conv_nth)
  have "fst fin = fst (run_goes cfg n o3 s4)" "set (snd (run_goes cfg n o3 s4)) \<subseteq> set (snd fin)"
    using g1 g2 s3(3) s4(3) assms(1,6) by simp_all
  then show ?thesis using g3 by auto
qed

lemma run_two:
  "fst (broker_run cfg s (e1 # e2 # es)) = fst (broker_run cfg (fst (broker_step cfg (fst (broker_step cfg s e1)) e2)) es)"
  "set (snd (broker_run cfg (fst (broker_step cfg (fst (broker_step cfg s e1)) e2)) es)) \<subseteq> set (snd (broker_run cfg s (e1 # e2 # es)))"
  by (simp_all add: le_supI2)

text \<open>Claim C9. A cancelled turn ends without the engine: whatever happened before, when a prompt waits for an engine that
  never answers, a cancel and the watchdog bring its turn to an end and free the conversation, in three steps of the prompt.\<close>

theorem cancel_ends_turn:
  assumes "s = fst (broker_run cfg (broker_init g0) es)" "n < length (runs s)"
    "r_phase (runs s ! n) = InCall k g second again" "c = r_conv (runs s ! n)"
    "fin = broker_run cfg s [Cancel c None, Watchdog c, RunGoes n o1, RunGoes n o2, RunGoes n o3]"
  shows "cv_turn (convs (fst fin) ! c) = TurnIdle \<and> TurnOver c n \<in> set (snd fin)"
proof -
  have v: "view_ok (max_running cfg) (view_of s)" and l: "live_ok s"
    using broker_run_view broker_run_live assms(1) by auto
  have c: "c < length (convs s)" using view_okD(1) [OF v, of n] assms(2,4) by (simp add: view_run)
  have own: "owns (view_of s) n c" using assms(2-4) by (simp add: owns_def view_run)
  have "cv_turn (convs s ! c) = TurnRunning"
    using view_okD(2) [OF v own] assms(2,3) c view_run [OF assms(2)] by (simp add: view_turn)
  moreover have "cv_force (convs s ! c) = Some k" "conv_ok (convs s ! c)" using l assms(2-4) c by (auto simp: live_ok_def)
  ultimately have a: "cv_turn (convs s2 ! c) = TurnRunning" "length (convs s2) = length (convs s)"
    "length (runs s2) = length (runs s)" "r_conv (runs s2 ! n) = c"
    "r_phase (runs s2 ! n) = Answered (Some k) g (Reply forced_response) second again"
    if "s2 = fst (watchdog c (fst (cancel_turn c None s)))" for s2
    using cancel_watchdog_answers [OF c assms(2,3) _ _ _ that] assms(4) by auto
  define s1 where "s1 = fst (cancel_turn c None s)"
  define s2 where "s2 = fst (watchdog c s1)"
  note a2 = a [OF s2_def [unfolded s1_def]]
  have len1: "c < length (convs s1)" using a2(2) c by (simp add: s2_def watchdog_def Let_def split: option.splits if_splits)
  have "fst (broker_step cfg s (Cancel c None)) = s1" "fst (broker_step cfg s1 (Watchdog c)) = s2"
    using c len1 by (simp_all add: s1_def s2_def)
  then have "fst fin = fst (broker_run cfg s2 [RunGoes n o1, RunGoes n o2, RunGoes n o3])"
    "set (snd (broker_run cfg s2 [RunGoes n o1, RunGoes n o2, RunGoes n o3])) \<subseteq> set (snd fin)"
    unfolding assms(5) using run_two [of cfg s "Cancel c None" "Watchdog c"] by metis+
  then show ?thesis using answered_ends [OF _ a2(4)[symmetric] _ a2(1) a2(5) refl, of cfg o1 o2 o3] a2 assms(2) c by auto
qed

definition sample_obs :: obs where
  "sample_obs = \<lparr>ob_ok = True, ob_now = 5, ob_flagged = [], ob_healthy = True, ob_attachments = False, ob_log = True\<rparr>"

definition sample_prompt :: "broker_event list" where
  "sample_prompt = [EngineReady 1 False True, Register ''standard'' False False, Prompt 0 None, RunGoes 0 sample_obs,
     RunGoes 0 sample_obs, RunGoes 0 sample_obs, BindReturns 0 Resumed, RunGoes 0 sample_obs, RunGoes 0 sample_obs,
     RunGoes 0 sample_obs]"

lemma sample_prompt_waits:
  "let s = fst (broker_run \<lparr>max_running = 1\<rparr> (broker_init 1) sample_prompt) in
   length (runs s) = 1 \<and> r_phase (runs s ! 0) = InCall 0 1 False None \<and> r_conv (runs s ! 0) = 0"
  by code_simp

theorem cancel_ends_turn_witness:
  "let s = fst (broker_run \<lparr>max_running = 1\<rparr> (broker_init 1) sample_prompt);
       fin = broker_run \<lparr>max_running = 1\<rparr> s [Cancel 0 None, Watchdog 0, RunGoes 0 sample_obs, RunGoes 0 sample_obs, RunGoes 0 sample_obs]
   in cv_turn (convs (fst fin) ! 0) = TurnIdle \<and> TurnOver 0 0 \<in> set (snd fin)"
  using sample_prompt_waits unfolding Let_def by (intro cancel_ends_turn [OF refl _ _ _ refl]) auto

subsection \<open>Failures\<close>

lemma has_sub_Cons: "has_sub (c # t) p \<longleftrightarrow> prefix p (c # t) \<or> has_sub t p"
  by (auto simp: has_sub_def split: option.splits)

lemma has_sub_later: "has_sub t p \<Longrightarrow> has_sub (s @ t) p"
  by (induction s) (auto simp: has_sub_def split: option.splits)

text \<open>Claim C38. Every failure of the engine ends the turn as cancelled, and what the person is told starts with
  "Error: " and says what to do next; nothing is written only when the failure answers a permission that is gone, or when
  the engine was still busy, which refuses the prompt instead.\<close>

theorem failures_say_what_next:
  "case turn_failure mode e ob of (line, r) \<Rightarrow> rs_stop r = ''cancelled'' \<and>
     (case line of None \<Rightarrow> er_name e = Some ''PermissionNotFoundError'' \<or> rs_busy r
      | Some t \<Rightarrow> prefix ''Error: the '' t \<and> has_sub t ''Next step: '' \<and> \<not> rs_busy r)"
proof -
  note sub = has_sub_Cons has_sub_later
  note resp = cancelled_response_def plain_response_def
  show ?thesis
    by (cases "er_denial e")
       (simp_all add: turn_failure_def Let_def resp sub split: prod.split)
qed

end
