(* ===== verification/Broker_Ports.thy ===== *)
theory Broker_Ports
  imports Log_Props
begin

text \<open>
  What the sockets of one conversation receive (runtime/lib/session-broker.js: \<open>#fanout\<close>, \<open>#deliver\<close>, \<open>#replayTo\<close>,
  \<open>attach\<close>, \<open>loadSession\<close>; runtime/lib/acp-bridge.js: the port), together with the conversation's log. A port is
  the socket's side: whether the broker knows it, whether it is attached to the conversation, the queue of a replay in
  progress, and what it was sent, each frame with its \<open>replay\<close> flag. A replay is suspended at its awaits; snapshot
  tasks of the log carry its number. \<open>since\<close> is what was written after the snapshot: the handles may read any beginning
  of it, up to a rotation.
\<close>

subsection \<open>Frames\<close>

definition ev_kind :: "event \<Rightarrow> string" where
  "ev_kind e = takeWhile (\<lambda>c. c \<noteq> CHR 0x22) (ev_body e)"

text \<open>The kinds a socket sees; the other events of the log (prompts' settings, permissions, checks) stay in it.\<close>

definition shown :: "event \<Rightarrow> bool" where
  "shown e \<longleftrightarrow> ev_kind e \<in> {''update'', ''child'', ''turn_end''}"

record port =
  pt_open :: bool
  pt_attached :: bool
  pt_queue :: "event list option"
  pt_sent :: "(event \<times> bool) list"

datatype replay_phase =
    RpLog \<comment> \<open>awaits the binding and the log\<close>
  | RpTurn \<comment> \<open>awaits another replay of the conversation on this port\<close>
  | RpSnap
  | RpStream snapshot "event list"
  | RpSend "event list" nat bool
  | RpDone nat bool
  | RpFailed

record replay =
  rp_port :: nat
  rp_after :: nat
  rp_phase :: replay_phase

record hub =
  hb_log :: slog
  hb_ports :: "port list"
  hb_replays :: "replay list"

definition new_port :: port where
  "new_port = \<lparr>pt_open = True, pt_attached = False, pt_queue = None, pt_sent = []\<rparr>"

definition hub_init :: "slog \<Rightarrow> hub" where
  "hub_init l = \<lparr>hb_log = l, hb_ports = [], hb_replays = []\<rparr>"

definition on_port :: "nat \<Rightarrow> (port \<Rightarrow> port) \<Rightarrow> hub \<Rightarrow> hub" where
  "on_port p f h = (if p < length (hb_ports h) then h\<lparr>hb_ports := (hb_ports h)[p := f (hb_ports h ! p)]\<rparr> else h)"

definition on_replay :: "nat \<Rightarrow> replay_phase \<Rightarrow> hub \<Rightarrow> hub" where
  "on_replay r ph h = h\<lparr>hb_replays := (hb_replays h)[r := (hb_replays h ! r)\<lparr>rp_phase := ph\<rparr>]\<rparr>"

definition deliver :: "event \<Rightarrow> bool \<Rightarrow> port \<Rightarrow> port" where
  "deliver e again p = p\<lparr>pt_sent := pt_sent p @ [(e, again)]\<rparr>"

subsection \<open>Live frames\<close>

definition deliver_newer :: "nat \<Rightarrow> event \<Rightarrow> port \<Rightarrow> port" where
  "deliver_newer until e p = (if until < ev_seq e then deliver e False p else p)"

definition fan_out :: "event \<Rightarrow> port \<Rightarrow> port" where
  "fan_out e p =
    (if \<not> (pt_open p \<and> pt_attached p) then p
     else (case pt_queue p of Some q \<Rightarrow> p\<lparr>pt_queue := Some (q @ [e])\<rparr> | None \<Rightarrow> deliver e False p))"

definition grows :: "event list \<Rightarrow> replay \<Rightarrow> replay" where
  "grows es r = (case rp_phase r of RpStream sn since \<Rightarrow> r\<lparr>rp_phase := RpStream sn (since @ es)\<rparr> | _ \<Rightarrow> r)"

text \<open>The head of the log's queue runs. An event that was written is fanned out by the caller of \<open>append\<close>, which continues
  before the queue's next task.\<close>

definition log_advances :: "nat \<Rightarrow> log_io \<Rightarrow> hub \<Rightarrow> hub" where
  "log_advances limit io h =
    (let l = hb_log h;
         r = log_goes limit io l;
         h1 = h\<lparr>hb_log := fst r, hb_replays := map (grows (landed l (LogGoes io))) (hb_replays h)\<rparr>
     in case (tasks l, snd r) of
          (WriteEvent e y # _, [Appended n]) \<Rightarrow> if shown e then h1\<lparr>hb_ports := map (fan_out e) (hb_ports h1)\<rparr> else h1
        | (_, [Snapped q sn]) \<Rightarrow> if q < length (hb_replays h1) then on_replay q (RpStream sn []) h1 else h1
        | _ \<Rightarrow> h1)"

subsection \<open>Replays\<close>

text \<open>\<open>attach\<close> and \<open>loadSession\<close> (\<open>afterSeq\<close> 0): the socket is attached at once, then the log is awaited.\<close>

definition attach :: "nat \<Rightarrow> nat \<Rightarrow> hub \<Rightarrow> hub" where
  "attach p after h =
    (if p < length (hb_ports h) then
       (on_port p (\<lambda>x. x\<lparr>pt_attached := True\<rparr>) h)\<lparr>hb_replays := hb_replays h @ [\<lparr>rp_port = p, rp_after = after, rp_phase = RpLog\<rparr>]\<rparr>
     else h)"

definition replay_waits :: "replay \<Rightarrow> bool" where
  "replay_waits r \<longleftrightarrow> rp_phase r = RpLog \<or> rp_phase r = RpTurn"

text \<open>\<open>#replayTo\<close> up to the snapshot: one replay of a conversation per port at a time.\<close>

definition try_replay :: "nat \<Rightarrow> hub \<Rightarrow> hub" where
  "try_replay r h =
    (if r < length (hb_replays h) \<and> replay_waits (hb_replays h ! r) then
       (let p = rp_port (hb_replays h ! r) in
        if pt_queue (hb_ports h ! p) \<noteq> None then on_replay r RpTurn h
        else (on_replay r RpSnap (on_port p (\<lambda>x. x\<lparr>pt_queue := Some []\<rparr>) h))
               \<lparr>hb_log := fst (log_step 0 (hb_log h) (Replay r))\<rparr>)
     else h)"

definition replay_reads :: "(string \<Rightarrow> event option) \<Rightarrow> nat \<Rightarrow> nat \<Rightarrow> hub \<Rightarrow> hub" where
  "replay_reads json r k h =
    (if r < length (hb_replays h) then
       (case rp_phase (hb_replays h ! r) of
          RpStream sn since \<Rightarrow>
            (let a = rp_after (hb_replays h ! r) in
             on_replay r (RpSend (replay_events json a sn (grown (take k since) (sn_files sn))) (sn_until sn) (replay_truncated a sn)) h)
        | _ \<Rightarrow> h)
     else h)"

text \<open>The end of a replay: the queued events it did not cover, then live frames again.\<close>

definition flush_queue :: "nat \<Rightarrow> port \<Rightarrow> port" where
  "flush_queue until p =
    (let q = (case pt_queue p of Some q \<Rightarrow> q | None \<Rightarrow> []) in
     fold (deliver_newer until) q (p\<lparr>pt_queue := None\<rparr>))"

definition replay_sends :: "nat \<Rightarrow> hub \<Rightarrow> hub" where
  "replay_sends r h =
    (if r < length (hb_replays h) then
       (let p = rp_port (hb_replays h ! r) in
        case rp_phase (hb_replays h ! r) of
          RpSend (e # es) u t \<Rightarrow> on_replay r (RpSend es u t) (if shown e then on_port p (deliver e True) h else h)
        | RpSend [] u t \<Rightarrow> on_replay r (RpDone u t) (on_port p (flush_queue u) h)
        | _ \<Rightarrow> h)
     else h)"

text \<open>The snapshot or a file could not be read: \<open>finally\<close> only drops the queue.\<close>

definition replay_fails :: "nat \<Rightarrow> hub \<Rightarrow> hub" where
  "replay_fails r h =
    (if r < length (hb_replays h) then
       (case rp_phase (hb_replays h ! r) of
          RpStream sn since \<Rightarrow> on_replay r RpFailed (on_port (rp_port (hb_replays h ! r)) (\<lambda>x. x\<lparr>pt_queue := None\<rparr>) h)
        | RpSend es u t \<Rightarrow> on_replay r RpFailed (on_port (rp_port (hb_replays h ! r)) (\<lambda>x. x\<lparr>pt_queue := None\<rparr>) h)
        | _ \<Rightarrow> h)
     else h)"

subsection \<open>Events\<close>

datatype hub_event =
    PortOpens
  | PortCloses nat
  | Joins nat \<comment> \<open>\<open>session/new\<close>, \<open>session/resume\<close>, \<open>session/prompt\<close>\<close>
  | Attaches nat nat
  | TriesReplay nat
  | Records nat string bool
  | PutsMeta
  | LogAdvances log_io
  | Reads nat nat
  | SendsNext nat
  | ReplayFails nat

fun hub_step :: "nat \<Rightarrow> (string \<Rightarrow> event option) \<Rightarrow> hub \<Rightarrow> hub_event \<Rightarrow> hub" where
  "hub_step limit json h PortOpens = h\<lparr>hb_ports := hb_ports h @ [new_port]\<rparr>"
| "hub_step limit json h (PortCloses p) = on_port p (\<lambda>x. x\<lparr>pt_open := False\<rparr>) h"
| "hub_step limit json h (Joins p) = on_port p (\<lambda>x. x\<lparr>pt_attached := True\<rparr>) h"
| "hub_step limit json h (Attaches p after) = attach p after h"
| "hub_step limit json h (TriesReplay r) = try_replay r h"
| "hub_step limit json h (Records ts body sync) = h\<lparr>hb_log := fst (append_event ts body sync (hb_log h))\<rparr>"
| "hub_step limit json h PutsMeta = h\<lparr>hb_log := fst (log_step limit (hb_log h) PutMeta)\<rparr>"
| "hub_step limit json h (LogAdvances io) = log_advances limit io h"
| "hub_step limit json h (Reads r k) = replay_reads json r k h"
| "hub_step limit json h (SendsNext r) = replay_sends r h"
| "hub_step limit json h (ReplayFails r) = replay_fails r h"

definition hub_run :: "nat \<Rightarrow> (string \<Rightarrow> event option) \<Rightarrow> hub \<Rightarrow> hub_event list \<Rightarrow> hub" where
  "hub_run limit json = foldl (hub_step limit json)"

end
