(* ===== verification/Ports_Facts.thy ===== *)
theory Ports_Facts
  imports Broker_Ports
begin

text \<open>
  How a replay and the live frames of a socket fit together (runtime/lib/session-broker.js): one replay of a conversation
  per port at a time, and at every step what the socket was sent, what its queue holds and what the replay still has to
  send are together the log's events, in order (\<open>tracks\<close>).
\<close>

subsection \<open>The log of a hub\<close>

fun snap_tasks :: "log_task list \<Rightarrow> nat list" where
  "snap_tasks [] = []"
| "snap_tasks (TakeSnapshot q # ts) = q # snap_tasks ts"
| "snap_tasks (WriteEvent e y # ts) = snap_tasks ts"
| "snap_tasks (WriteMeta # ts) = snap_tasks ts"

lemma snap_tasks_append [simp]: "snap_tasks (ts @ us) = snap_tasks ts @ snap_tasks us"
  by (induction ts rule: snap_tasks.induct) simp_all

lemma on_port_simps [simp]:
  "hb_log (on_port p f h) = hb_log h" "hb_replays (on_port p f h) = hb_replays h"
  "length (hb_ports (on_port p f h)) = length (hb_ports h)"
  by (simp_all add: on_port_def)

lemma on_replay_simps [simp]:
  "hb_log (on_replay r ph h) = hb_log h" "hb_ports (on_replay r ph h) = hb_ports h"
  "length (hb_replays (on_replay r ph h)) = length (hb_replays h)"
  by (simp_all add: on_replay_def)

lemma on_port_nth: "q < length (hb_ports h) \<Longrightarrow>
   hb_ports (on_port p f h) ! q = (if q = p then f (hb_ports h ! p) else hb_ports h ! q)"
  by (auto simp: on_port_def)

lemma on_replay_nth: "q < length (hb_replays h) \<Longrightarrow>
   hb_replays (on_replay r ph h) ! q = (if q = r then (hb_replays h ! r)\<lparr>rp_phase := ph\<rparr> else hb_replays h ! q)"
  by (auto simp: on_replay_def)

text \<open>What a hub's step does to the log.\<close>

definition starts :: "nat \<Rightarrow> hub \<Rightarrow> bool" where
  "starts r h \<longleftrightarrow> r < length (hb_replays h) \<and> replay_waits (hb_replays h ! r) \<and>
     pt_queue (hb_ports h ! rp_port (hb_replays h ! r)) = None"

fun log_event_of :: "hub \<Rightarrow> hub_event \<Rightarrow> log_event option" where
  "log_event_of h (TriesReplay r) = (if starts r h then Some (Replay r) else None)"
| "log_event_of h (Records ts body sync) = Some (Append ts body sync)"
| "log_event_of h PutsMeta = Some PutMeta"
| "log_event_of h (LogAdvances io) = Some (LogGoes io)"
| "log_event_of h _ = None"

definition hub_landed :: "hub \<Rightarrow> hub_event \<Rightarrow> event list" where
  "hub_landed h e = (case log_event_of h e of Some le \<Rightarrow> landed (hb_log h) le | None \<Rightarrow> [])"

fun hub_history :: "nat \<Rightarrow> (string \<Rightarrow> event option) \<Rightarrow> hub \<Rightarrow> hub_event list \<Rightarrow> event list" where
  "hub_history limit json h [] = []"
| "hub_history limit json h (e # es) = hub_landed h e @ hub_history limit json (hub_step limit json h e) es"

definition input_whole :: "hub_event \<Rightarrow> bool" where
  "input_whole e = (case e of Records ts body sync \<Rightarrow> io_whole (Append ts body sync) | LogAdvances io \<Rightarrow> io_whole (LogGoes io) | _ \<Rightarrow> True)"

lemma log_advances_log: "hb_log (log_advances limit io h) = fst (log_goes limit io (hb_log h))"
  by (auto simp: log_advances_def Let_def split: list.splits log_task.splits log_out.splits)

lemma replay_sends_log [simp]: "hb_log (replay_sends r h) = hb_log h"
  by (auto simp: replay_sends_def Let_def split: replay_phase.splits list.splits)

lemma hub_step_log: "hb_log (hub_step limit json h e) =
   (case log_event_of h e of Some le \<Rightarrow> fst (log_step limit (hb_log h) le) | None \<Rightarrow> hb_log h)"
  by (cases e) (auto simp: attach_def try_replay_def starts_def Let_def replay_reads_def replay_fails_def log_advances_log
      split: replay_phase.splits)

lemma hub_step_log_ok:
  assumes "log_ok H (hb_log h)" "input_whole e" "list_all ev_good (H @ hub_landed h e)"
  shows "log_ok (H @ hub_landed h e) (hb_log (hub_step limit json h e))"
proof (cases "log_event_of h e")
  case None
  then show ?thesis using assms(1) by (simp add: hub_step_log hub_landed_def)
next
  case (Some le)
  have "io_whole le" using Some assms(2) by (cases e) (auto simp: input_whole_def split: if_splits)
  then show ?thesis using log_step_ok [of H "hb_log h" le limit] assms(1,3) Some by (simp add: hub_step_log hub_landed_def)
qed

lemma landed_head: "landed l (LogGoes io) = es \<Longrightarrow> es = [] \<or> (\<exists>e y ts. tasks l = WriteEvent e y # ts \<and> es = [e])"
  by (auto split: list.splits log_task.splits if_splits)

text \<open>What lands is newer than what was written, and the written seq only grows.\<close>

lemma rotate_written [simp]: "written_seq (fst (rotate_log io s)) = written_seq s"
  by (simp add: rotate_log_def Let_def write_meta_now_def)

lemma written_mono:
  assumes "log_ok H l" "le \<noteq> CloseLog" "\<forall>k. le \<noteq> LogCrash k"
  shows "written_seq l \<le> written_seq (fst (log_step limit l le))"
proof -
  have less: "e \<in> set (task_events (tasks l)) \<Longrightarrow> written_seq l < ev_seq e" for e
    using assms(1) log_partsD(10) by (auto simp: log_ok_def)
  show ?thesis
  proof (cases le)
    case (LogGoes io)
    show ?thesis
    proof (cases "tasks l")
      case (Cons t ts)
      then show ?thesis using LogGoes less
        by (cases t) (auto simp: log_goes_def write_event_def Let_def forget_def append_bytes_def write_meta_now_def
            split: option.splits prod.splits intro: less_imp_le)
    qed (simp add: LogGoes log_goes_def)
  qed (use assms(2,3) in \<open>auto simp: append_event_def remember_def Let_def split: prod.splits\<close>)
qed

lemma landed_newer:
  assumes "log_ok H l" "e \<in> set (landed l (LogGoes io))"
  shows "written_seq l < ev_seq e"
proof -
  have "e \<in> set (task_events (tasks l))"
    using assms(2) by (cases "tasks l") (auto split: log_task.splits if_splits)
  then show ?thesis using assms(1) log_partsD(10) by (auto simp: log_ok_def)
qed

text \<open>How the head of the queue ends when writes are whole.\<close>

lemma rotate_works: "io_meta io \<Longrightarrow> snd (rotate_log io s)"
  by (simp add: rotate_log_def Let_def)

lemma goes_writes:
  assumes "tasks l = WriteEvent e y # ts" "io_whole (LogGoes io)" "io_write io = None"
  shows "snd (log_goes limit io l) = [Appended (ev_seq e)]"
  using assms rotate_works by (auto simp: log_goes_def write_event_def Let_def)

lemma goes_fails:
  assumes "tasks l = WriteEvent e y # ts" "io_write io \<noteq> None"
  shows "snd (log_goes limit io l) = [AppendFailed (ev_seq e)]"
  using assms by (auto simp: log_goes_def write_event_def Let_def)

lemma rotate_tasks_same [simp]: "tasks (fst (rotate_log io s)) = tasks s"
  by (simp add: rotate_log_def Let_def write_meta_now_def)

lemma write_event_tasks [simp]: "tasks (fst (write_event limit io e y s)) = tasks s"
  by (auto simp: write_event_def Let_def forget_def append_bytes_def write_meta_now_def split: option.splits prod.splits)

text \<open>The three ways a log task changes the hub.\<close>

definition advanced :: "nat \<Rightarrow> log_io \<Rightarrow> event list \<Rightarrow> hub \<Rightarrow> hub" where
  "advanced limit io es h = h\<lparr>hb_log := fst (log_goes limit io (hb_log h)), hb_replays := map (grows es) (hb_replays h)\<rparr>"

lemma advances_cases:
  assumes "io_whole (LogGoes io)"
  obtains (quiet) "log_advances limit io h = advanced limit io [] h" "landed (hb_log h) (LogGoes io) = []"
      "snap_tasks (tasks (fst (log_goes limit io (hb_log h)))) = snap_tasks (tasks (hb_log h))"
  | (lands) e where "landed (hb_log h) (LogGoes io) = [e]"
      "log_advances limit io h = (advanced limit io [e] h)\<lparr>hb_ports := (if shown e then map (fan_out e) (hb_ports h) else hb_ports h)\<rparr>"
      "snap_tasks (tasks (fst (log_goes limit io (hb_log h)))) = snap_tasks (tasks (hb_log h))"
  | (snaps) q where "landed (hb_log h) (LogGoes io) = []" "snap_tasks (tasks (hb_log h)) = q # snap_tasks (tasks (fst (log_goes limit io (hb_log h))))"
      "fst (log_goes limit io (hb_log h)) = (hb_log h)\<lparr>tasks := tl (tasks (hb_log h))\<rparr>"
      "log_advances limit io h = (let h1 = advanced limit io [] h in
         if q < length (hb_replays h) then on_replay q (RpStream (take_snapshot (fst (log_goes limit io (hb_log h)))) []) h1 else h1)"
proof -
  let ?l = "hb_log h" and ?r = "log_goes limit io (hb_log h)"
  show ?thesis
  proof (cases "tasks ?l")
    case Nil
    then show ?thesis by (intro quiet) (simp_all add: log_advances_def advanced_def log_goes_def)
  next
    case (Cons t ts)
    have tk: "tasks (fst ?r) = ts" using Cons by (cases t) (auto simp: log_goes_def write_meta_now_def)
    show ?thesis
    proof (cases t)
      case (WriteEvent e y)
      show ?thesis
      proof (cases "io_write io")
        case None
        then show ?thesis using Cons WriteEvent tk goes_writes [of ?l e y ts io limit] assms
          by (intro lands [of e]) (simp_all add: log_advances_def advanced_def Let_def)
      next
        case (Some k)
        then show ?thesis using Cons WriteEvent tk goes_fails [of ?l e y ts io limit]
          by (intro quiet) (simp_all add: log_advances_def advanced_def Let_def)
      qed
    next
      case (TakeSnapshot q)
      then show ?thesis using Cons
        by (intro snaps [of q]) (simp_all add: log_advances_def advanced_def log_goes_def Let_def)
    next
      case WriteMeta
      then show ?thesis using Cons tk by (intro quiet) (simp_all add: log_advances_def advanced_def log_goes_def)
    qed
  qed
qed

subsection \<open>One replay at a time\<close>

definition replay_active :: "replay \<Rightarrow> bool" where
  "replay_active r = (case rp_phase r of RpSnap \<Rightarrow> True | RpStream sn since \<Rightarrow> True | RpSend es u t \<Rightarrow> True | _ \<Rightarrow> False)"

definition hub_ok :: "hub \<Rightarrow> bool" where
  "hub_ok h \<longleftrightarrow>
     (\<forall>q \<in> set (snap_tasks (tasks (hb_log h))). q < length (hb_replays h) \<and> rp_phase (hb_replays h ! q) = RpSnap) \<and>
     distinct (snap_tasks (tasks (hb_log h))) \<and>
     (\<forall>r < length (hb_replays h). rp_port (hb_replays h ! r) < length (hb_ports h)) \<and>
     (\<forall>r < length (hb_replays h). replay_active (hb_replays h ! r) \<longrightarrow>
        pt_queue (hb_ports h ! rp_port (hb_replays h ! r)) \<noteq> None) \<and>
     (\<forall>r < length (hb_replays h). \<forall>r' < length (hb_replays h). replay_active (hb_replays h ! r) \<longrightarrow>
        replay_active (hb_replays h ! r') \<longrightarrow> rp_port (hb_replays h ! r) = rp_port (hb_replays h ! r') \<longrightarrow> r = r')"

lemma grows_simps [simp]: "rp_port (grows es r) = rp_port r" "rp_after (grows es r) = rp_after r"
  "replay_active (grows es r) = replay_active r" "replay_waits (grows es r) = replay_waits r"
  "rp_phase (grows es r) = RpSnap \<longleftrightarrow> rp_phase r = RpSnap"
  by (auto simp: grows_def replay_active_def replay_waits_def split: replay_phase.splits)

lemma replay_active_set [simp]:
  "replay_active (x\<lparr>rp_phase := RpSnap\<rparr>)" "replay_active (x\<lparr>rp_phase := RpStream sn since\<rparr>)"
  "replay_active (x\<lparr>rp_phase := RpSend es u t\<rparr>)" "\<not> replay_active (x\<lparr>rp_phase := RpDone u t\<rparr>)"
  "\<not> replay_active (x\<lparr>rp_phase := RpFailed\<rparr>)" "\<not> replay_active (x\<lparr>rp_phase := RpTurn\<rparr>)"
  "rp_phase x = RpSnap \<Longrightarrow> replay_active x" "rp_phase x = RpStream sn since \<Longrightarrow> replay_active x"
  "rp_phase x = RpSend es u t \<Longrightarrow> replay_active x" "replay_waits x \<Longrightarrow> \<not> replay_active x"
  by (auto simp: replay_active_def replay_waits_def)

lemma fan_out_queue [simp]: "pt_queue (fan_out e p) = None \<longleftrightarrow> pt_queue p = None"
  by (auto simp: fan_out_def deliver_def split: option.splits)

lemma advanced_simps [simp]:
  "hb_log (advanced limit io es h) = fst (log_goes limit io (hb_log h))"
  "hb_ports (advanced limit io es h) = hb_ports h"
  "hb_replays (advanced limit io es h) = map (grows es) (hb_replays h)"
  by (simp_all add: advanced_def)

lemma hub_ok_advances:
  assumes "hub_ok h" "io_whole (LogGoes io)"
  shows "hub_ok (log_advances limit io h)"
  using assms(2)
proof (cases rule: advances_cases [where limit = limit and h = h])
  case (snaps q)
  have n: "replay_active (hb_replays (log_advances limit io h) ! r) = replay_active (hb_replays h ! r)"
    "rp_port (hb_replays (log_advances limit io h) ! r) = rp_port (hb_replays h ! r)" if "r < length (hb_replays h)" for r
    using snaps(2,4) assms(1) that by (auto simp: hub_ok_def Let_def on_replay_nth)
  have "hb_ports (log_advances limit io h) = hb_ports h" "length (hb_replays (log_advances limit io h)) = length (hb_replays h)"
    using snaps(4) by (simp_all add: Let_def)
  moreover have "rp_phase (hb_replays (log_advances limit io h) ! x) = RpSnap" if "x \<in> set (snap_tasks (tasks (fst (log_goes limit io (hb_log h)))))" for x
    using snaps(2,4) assms(1) that by (auto simp: hub_ok_def Let_def on_replay_nth)
  ultimately show ?thesis using assms(1) n snaps(2) by (simp add: hub_ok_def log_advances_log)
qed (use assms(1) in \<open>auto simp: hub_ok_def simp del: not_None_eq\<close>)

lemma hub_ok_same_log:
  assumes "hub_ok h" "snap_tasks (tasks (hb_log h')) = snap_tasks (tasks (hb_log h))" "hb_replays h' = hb_replays h"
    "length (hb_ports h) \<le> length (hb_ports h')"
    "\<And>p. p < length (hb_ports h) \<Longrightarrow> pt_queue (hb_ports h ! p) \<noteq> None \<Longrightarrow> pt_queue (hb_ports h' ! p) \<noteq> None"
  shows "hub_ok h'"
  using assms unfolding hub_ok_def by (auto intro: less_le_trans)

text \<open>A replay that moves from one active phase to another, or ends and frees its port.\<close>

lemma hub_ok_moves:
  assumes "hub_ok h" "r < length (hb_replays h)" "replay_active (hb_replays h ! r)" "rp_phase (hb_replays h ! r) \<noteq> RpSnap"
    and "replay_active ((hb_replays h ! r)\<lparr>rp_phase := ph\<rparr>) \<Longrightarrow>
      pt_queue (f (hb_ports h ! rp_port (hb_replays h ! r))) = pt_queue (hb_ports h ! rp_port (hb_replays h ! r))"
  shows "hub_ok (on_replay r ph (on_port (rp_port (hb_replays h ! r)) f h))"
proof -
  let ?p = "rp_port (hb_replays h ! r)" and ?h = "on_replay r ph (on_port (rp_port (hb_replays h ! r)) f h)"
  note ok = assms(1) [unfolded hub_ok_def]
  have p: "?p < length (hb_ports h)" using ok assms(2) by blast
  have port: "rp_port (hb_replays ?h ! x) = rp_port (hb_replays h ! x)" if "x < length (hb_replays h)" for x
    using that by (simp add: on_replay_nth)
  have act: "replay_active (hb_replays ?h ! x) \<Longrightarrow> replay_active (hb_replays h ! x)" if "x < length (hb_replays h)" for x
    using that assms(3) by (auto simp: on_replay_nth split: if_splits)
  have snap: "x \<noteq> r" if "x \<in> set (snap_tasks (tasks (hb_log h)))" for x using ok assms(4) that by auto
  have q: "pt_queue (hb_ports ?h ! rp_port (hb_replays ?h ! x)) \<noteq> None"
    if x: "x < length (hb_replays h)" and a: "replay_active (hb_replays ?h ! x)" for x
  proof -
    have px: "rp_port (hb_replays h ! x) < length (hb_ports h)" using ok x by blast
    have qx: "pt_queue (hb_ports h ! rp_port (hb_replays h ! x)) \<noteq> None" using ok x act [OF x a] by blast
    show ?thesis
    proof (cases "rp_port (hb_replays h ! x) = ?p")
      case True
      then have "x = r" using ok x assms(2,3) act [OF x a] by metis
      then have "replay_active ((hb_replays h ! r)\<lparr>rp_phase := ph\<rparr>)" using a assms(2) by (simp add: on_replay_nth)
      then show ?thesis using assms(5) qx \<open>x = r\<close> p port [OF x] by (simp add: on_port_nth)
    next
      case False
      then show ?thesis using qx px port [OF x] by (simp add: on_port_nth)
    qed
  qed
  show ?thesis unfolding hub_ok_def
  proof (intro conjI allI impI ballI)
    fix x assume x: "x \<in> set (snap_tasks (tasks (hb_log ?h)))"
    then show "x < length (hb_replays ?h)" using ok by simp
    show "rp_phase (hb_replays ?h ! x) = RpSnap" using x ok snap by (simp add: on_replay_nth)
  next
    fix x y assume "x < length (hb_replays ?h)" "y < length (hb_replays ?h)" "replay_active (hb_replays ?h ! x)"
      "replay_active (hb_replays ?h ! y)" "rp_port (hb_replays ?h ! x) = rp_port (hb_replays ?h ! y)"
    then show "x = y" using ok act port by simp
  qed (use ok q port in simp_all)
qed

lemma try_replay_cases:
  obtains (nothing) "try_replay r h = h" "\<not> starts r h"
  | (blocked) "try_replay r h = on_replay r RpTurn h" "r < length (hb_replays h)" "replay_waits (hb_replays h ! r)"
      "\<not> starts r h"
  | (begins) "starts r h" "try_replay r h = (on_replay r RpSnap (on_port (rp_port (hb_replays h ! r))
      (\<lambda>x. x\<lparr>pt_queue := Some []\<rparr>) h))\<lparr>hb_log := (hb_log h)\<lparr>tasks := tasks (hb_log h) @ [TakeSnapshot r]\<rparr>\<rparr>"
proof (cases "starts r h")
  case True
  then show ?thesis by (intro begins) (auto simp: starts_def try_replay_def Let_def)
next
  case False
  show ?thesis
  proof (cases "r < length (hb_replays h) \<and> replay_waits (hb_replays h ! r)")
    case True
    then show ?thesis using False by (intro blocked) (auto simp: starts_def try_replay_def Let_def)
  qed (rule nothing, use False in \<open>auto simp: try_replay_def starts_def\<close>)
qed

lemma hub_ok_try:
  assumes "hub_ok h"
  shows "hub_ok (try_replay r h)"
proof (cases r h rule: try_replay_cases)
  case blocked
  have "rp_port (hb_replays (on_replay r RpTurn h) ! x) = rp_port (hb_replays h ! x) \<and>
    replay_active (hb_replays (on_replay r RpTurn h) ! x) = replay_active (hb_replays h ! x) \<and>
    (rp_phase (hb_replays h ! x) = RpSnap \<longrightarrow> rp_phase (hb_replays (on_replay r RpTurn h) ! x) = RpSnap)"
    if "x < length (hb_replays h)" for x
    using that blocked(3) by (auto simp: on_replay_nth replay_waits_def)
  then show ?thesis using assms unfolding blocked(1) hub_ok_def by simp
next
  case begins
  let ?p = "rp_port (hb_replays h ! r)"
  note ok = assms [unfolded hub_ok_def]
  have r: "r < length (hb_replays h)" "replay_waits (hb_replays h ! r)" "pt_queue (hb_ports h ! ?p) = None"
    using begins(1) by (simp_all add: starts_def)
  have p: "?p < length (hb_ports h)" using ok r(1) by blast
  have fresh: "r \<notin> set (snap_tasks (tasks (hb_log h)))" using ok r(2) by (auto simp: replay_waits_def)
  have other: "rp_port (hb_replays h ! x) \<noteq> ?p" if x: "x < length (hb_replays h)" "replay_active (hb_replays h ! x)" for x
  proof
    assume e: "rp_port (hb_replays h ! x) = ?p"
    have "pt_queue (hb_ports h ! rp_port (hb_replays h ! x)) \<noteq> None" using ok x by blast
    then show False using r(3) e by simp
  qed
  let ?h = "(on_replay r RpSnap (on_port ?p (\<lambda>x. x\<lparr>pt_queue := Some []\<rparr>) h))
    \<lparr>hb_log := (hb_log h)\<lparr>tasks := tasks (hb_log h) @ [TakeSnapshot r]\<rparr>\<rparr>"
  have port: "rp_port (hb_replays ?h ! x) = rp_port (hb_replays h ! x)" if "x < length (hb_replays h)" for x
    using that by (simp add: on_replay_nth)
  have act: "x = r \<or> (replay_active (hb_replays h ! x) \<and> rp_port (hb_replays h ! x) \<noteq> ?p)"
    if "x < length (hb_replays h)" "replay_active (hb_replays ?h ! x)" for x
    using that other by (auto simp: on_replay_nth split: if_splits)
  show ?thesis unfolding begins(2) hub_ok_def
  proof (intro conjI allI impI ballI)
    fix x assume "x \<in> set (snap_tasks (tasks (hb_log ?h)))"
    then show "x < length (hb_replays ?h)" "rp_phase (hb_replays ?h ! x) = RpSnap"
      using ok r(1) by (auto simp: on_replay_nth)
  next
    fix x assume x: "x < length (hb_replays ?h)" "replay_active (hb_replays ?h ! x)"
    have "rp_port (hb_replays h ! x) < length (hb_ports h)" using ok x(1) by simp
    then show "pt_queue (hb_ports ?h ! rp_port (hb_replays ?h ! x)) \<noteq> None"
      using act [of x] x ok p port by (auto simp: on_port_nth simp del: not_None_eq)
  next
    fix x y assume a: "x < length (hb_replays ?h)" "y < length (hb_replays ?h)" "replay_active (hb_replays ?h ! x)"
      "replay_active (hb_replays ?h ! y)" "rp_port (hb_replays ?h ! x) = rp_port (hb_replays ?h ! y)"
    have "rp_port (hb_replays h ! x) = rp_port (hb_replays h ! y)" using a(1,2,5) port by simp
    then show "x = y" using act [of x] act [of y] a(1-4) ok by auto
  qed (use ok fresh port in simp_all)
qed (use assms in simp)

lemma flush_queue_None [simp]: "pt_queue (flush_queue u p) = None" "pt_open (flush_queue u p) = pt_open p"
  "pt_attached (flush_queue u p) = pt_attached p"
proof -
  have "pt_queue (fold (deliver_newer u) q x) = pt_queue x \<and> pt_open (fold (deliver_newer u) q x) = pt_open x \<and>
    pt_attached (fold (deliver_newer u) q x) = pt_attached x" for q x
    by (induction q arbitrary: x) (simp_all add: deliver_newer_def deliver_def)
  then show "pt_queue (flush_queue u p) = None" "pt_open (flush_queue u p) = pt_open p"
    "pt_attached (flush_queue u p) = pt_attached p" by (simp_all add: flush_queue_def Let_def)
qed

lemma deliver_queue [simp]: "pt_queue (deliver e b p) = pt_queue p" "pt_open (deliver e b p) = pt_open p"
  "pt_attached (deliver e b p) = pt_attached p"
  by (simp_all add: deliver_def)

lemma on_port_id [simp]: "on_port p (\<lambda>x. x) h = h"
  by (simp add: on_port_def)

lemma hub_step_ok:
  assumes "hub_ok h" "input_whole e"
  shows "hub_ok (hub_step limit json h e)"
proof (cases e)
  case PortOpens
  then show ?thesis by (auto intro: hub_ok_same_log [OF assms(1)] simp: nth_append)
next
  case (PortCloses p)
  then show ?thesis by (auto intro!: hub_ok_same_log [OF assms(1)] simp: on_port_nth)
next
  case (Joins p)
  then show ?thesis by (auto intro!: hub_ok_same_log [OF assms(1)] simp: on_port_nth)
next
  case (Attaches p a)
  have "pt_queue (hb_ports (on_port p (\<lambda>x. x\<lparr>pt_attached := True\<rparr>) h) ! q) = pt_queue (hb_ports h ! q)" for q
    by (cases "q < length (hb_ports h)") (auto simp: on_port_def nth_list_update)
  then show ?thesis using assms(1) Attaches
    by (auto simp: attach_def hub_ok_def nth_append replay_active_def less_Suc_eq simp del: not_None_eq)
next
  case (TriesReplay r)
  then show ?thesis using hub_ok_try [OF assms(1)] by simp
next
  case (Records ts body sync)
  then show ?thesis using assms(1)
    by (intro hub_ok_same_log [OF assms(1)]) (auto simp: append_event_def remember_def Let_def split: prod.splits)
next
  case PutsMeta
  then show ?thesis by (intro hub_ok_same_log [OF assms(1)]) auto
next
  case (LogAdvances io)
  then show ?thesis using hub_ok_advances [OF assms(1)] assms(2) by (simp add: input_whole_def)
next
  case (Reads r k)
  then show ?thesis using assms(1) hub_ok_moves [OF assms(1), of r _ "\<lambda>x. x"]
    by (auto simp: replay_reads_def Let_def split: replay_phase.splits)
next
  case (SendsNext r)
  have "\<And>es u t. rp_phase (hb_replays h ! r) = RpSend es u t \<Longrightarrow> r < length (hb_replays h) \<Longrightarrow> ?thesis"
    subgoal for es u t
      using SendsNext hub_ok_moves [OF assms(1), of r _ "\<lambda>x. x"] hub_ok_moves [OF assms(1), of r _ "deliver (hd es) True"]
        hub_ok_moves [OF assms(1), of r "RpDone u t" "flush_queue u"]
      by (cases es) (auto simp: replay_sends_def Let_def)
    done
  then show ?thesis using SendsNext assms(1) by (cases "rp_phase (hb_replays h ! r)") (auto simp: replay_sends_def Let_def)
next
  case (ReplayFails r)
  then show ?thesis using assms(1) hub_ok_moves [OF assms(1), of r RpFailed "\<lambda>x. x\<lparr>pt_queue := None\<rparr>"]
    by (auto simp: replay_fails_def split: replay_phase.splits)
qed

subsection \<open>One attachment\<close>

text \<open>What a replay from \<open>a\<close> of the log \<open>l\<close>, whose history is \<open>M\<close>, can still deliver.\<close>

definition kept :: "nat \<Rightarrow> slog \<Rightarrow> event list \<Rightarrow> event list" where
  "kept a l M = filter (\<lambda>e. a < ev_seq e \<and> first_seq l \<le> ev_seq e) M"

definition reads_back :: "(string \<Rightarrow> event option) \<Rightarrow> event list \<Rightarrow> bool" where
  "reads_back json H \<longleftrightarrow> (\<forall>e \<in> set H. json (text_of e) = Some e)"

lemma log_ok_written: "log_ok M l \<Longrightarrow> e \<in> set M \<Longrightarrow> ev_seq e \<le> written_seq l"
  using log_partsD(9) by (auto simp: log_ok_def)

lemma replay_kept:
  assumes ok: "log_ok M l" and good: "list_all ev_good (M @ since)" and json: "reads_back json M"
    and later: "sorted_wrt (<) (map ev_seq since)" "\<forall>e \<in> set since. written_seq l < ev_seq e"
  shows "replay_events json a (take_snapshot l) (grown (take k since) (sn_files (take_snapshot l))) = kept a l M"
proof -
  obtain D P C where M: "M = D @ P @ C" and parts: "log_parts D P C l" using ok by (auto simp: log_ok_def)
  note d = log_partsD [OF parts]
  have "sorted_wrt (<) (map ev_seq (take k since))" using later(1) by (simp add: take_map [symmetric] sorted_wrt_take)
  moreover have "list_all ev_good (take k since)" using good by (auto simp: list_all_iff dest: in_set_takeD)
  moreover have "\<forall>e \<in> set (take k since). written_seq l < ev_seq e" using later(2) by (auto dest: in_set_takeD)
  moreover have "list_all ev_good (P @ C)" using good M by simp
  moreover have "\<And>e. e \<in> set (P @ C) \<Longrightarrow> json (text_of e) = Some e" using json M by (auto simp: reads_back_def)
  ultimately have "replay_events json a (take_snapshot l) (grown (take k since) (sn_files (take_snapshot l)))
      = filter (\<lambda>e. a < ev_seq e) (P @ C)" using replay_parts [OF parts] by blast
  moreover have "kept a l D = []" by (auto simp: kept_def filter_empty_conv dest!: d(5))
  moreover have "kept a l (P @ C) = filter (\<lambda>e. a < ev_seq e) (P @ C)"
    unfolding kept_def by (rule filter_cong [OF refl]) (use d(6) in auto)
  ultimately show ?thesis using M by (simp add: kept_def)
qed

text \<open>Where a replay from \<open>a\<close> stands, in terms of the history \<open>H\<close>; \<open>S0\<close> is what its socket had been sent before.\<close>

fun stands :: "nat \<Rightarrow> (event \<times> bool) list \<Rightarrow> event list \<Rightarrow> slog \<Rightarrow> replay_phase \<Rightarrow> event list option \<Rightarrow>
    (event \<times> bool) list \<Rightarrow> bool" where
  "stands a S0 H l RpSnap q sent = (sent = S0 \<and> (\<exists>M N. H = M @ N \<and> q = Some (filter shown N)))"
| "stands a S0 H l (RpStream sn since) q sent =
    (sent = S0 \<and> (\<exists>l1 M N. H = M @ N @ since \<and> log_ok (M @ N) l1 \<and> sn = take_snapshot l1 \<and> written_seq l1 \<le> written_seq l \<and>
       q = Some (filter shown (N @ since)) \<and> (\<forall>e \<in> set since. written_seq l1 < ev_seq e)))"
| "stands a S0 H l (RpSend es u t) q sent =
    (\<exists>l1 M N L K. H = M @ N @ L \<and> log_ok (M @ N) l1 \<and> u = written_seq l1 \<and> t = replay_truncated a (take_snapshot l1) \<and>
       q = Some (filter shown (N @ L)) \<and> (\<forall>e \<in> set L. u < ev_seq e) \<and> u \<le> written_seq l \<and>
       kept a l1 (M @ N) = K @ es \<and> sent = S0 @ map (\<lambda>e. (e, True)) (filter shown K))"
| "stands a S0 H l (RpDone u t) q sent =
    (\<exists>l1 M L. H = M @ L \<and> log_ok M l1 \<and> u = written_seq l1 \<and> t = replay_truncated a (take_snapshot l1) \<and>
       q = None \<and> (\<forall>e \<in> set L. u < ev_seq e) \<and> u \<le> written_seq l \<and>
       sent = S0 @ map (\<lambda>e. (e, True)) (filter shown (kept a l1 M)) @ map (\<lambda>e. (e, False)) (filter shown L))"
| "stands a S0 H l RpFailed q sent = True"
| "stands a S0 H l RpLog q sent = False"
| "stands a S0 H l RpTurn q sent = False"

definition port_of :: "nat \<Rightarrow> hub \<Rightarrow> port" where
  "port_of r h = hb_ports h ! rp_port (hb_replays h ! r)"

definition tracks :: "nat \<Rightarrow> nat \<Rightarrow> nat \<Rightarrow> (event \<times> bool) list \<Rightarrow> event list \<Rightarrow> hub \<Rightarrow> bool" where
  "tracks r p a S0 H h \<longleftrightarrow> r < length (hb_replays h) \<and> rp_port (hb_replays h ! r) = p \<and> rp_after (hb_replays h ! r) = a \<and>
     hub_ok h \<and> log_ok H (hb_log h) \<and> pt_attached (hb_ports h ! p) \<and>
     (\<forall>x < length (hb_replays h). replay_active (hb_replays h ! x) \<and> rp_port (hb_replays h ! x) = p \<longrightarrow> x = r) \<and>
     (pt_open (hb_ports h ! p) \<longrightarrow>
        stands a S0 H (hb_log h) (rp_phase (hb_replays h ! r)) (pt_queue (hb_ports h ! p)) (pt_sent (hb_ports h ! p)))"

lemma tracksI:
  assumes "r < length (hb_replays h)" "rp_port (hb_replays h ! r) = p" "rp_after (hb_replays h ! r) = a" "hub_ok h"
    "log_ok H (hb_log h)" "pt_attached (hb_ports h ! p)"
    "\<And>x. x < length (hb_replays h) \<Longrightarrow> replay_active (hb_replays h ! x) \<Longrightarrow> rp_port (hb_replays h ! x) = p \<Longrightarrow> x = r"
    "pt_open (hb_ports h ! p) \<Longrightarrow>
      stands a S0 H (hb_log h) (rp_phase (hb_replays h ! r)) (pt_queue (hb_ports h ! p)) (pt_sent (hb_ports h ! p))"
  shows "tracks r p a S0 H h"
  using assms unfolding tracks_def by blast

text \<open>An event after which the same replay and port look alike: the log may have moved on, but nothing landed.\<close>

lemma stands_later: "stands a S0 H l ph q sent \<Longrightarrow> written_seq l \<le> written_seq l' \<Longrightarrow> stands a S0 H l' ph q sent"
  by (cases ph; simp only: stands.simps; blast intro: order_trans)

lemma tracks_quiet:
  assumes "tracks r p a S0 H h" "hub_ok h'" "log_ok H (hb_log h')" "written_seq (hb_log h) \<le> written_seq (hb_log h')"
    and "r < length (hb_replays h')" "hb_replays h' ! r = hb_replays h ! r"
    and "pt_queue (hb_ports h' ! p) = pt_queue (hb_ports h ! p)" "pt_sent (hb_ports h' ! p) = pt_sent (hb_ports h ! p)"
    and "pt_attached (hb_ports h' ! p)" "pt_open (hb_ports h' ! p) \<Longrightarrow> pt_open (hb_ports h ! p)"
    and "\<And>x. x < length (hb_replays h') \<Longrightarrow> replay_active (hb_replays h' ! x) \<Longrightarrow> rp_port (hb_replays h' ! x) = p \<Longrightarrow>
      x < length (hb_replays h) \<and> replay_active (hb_replays h ! x) \<and> rp_port (hb_replays h ! x) = p"
  shows "tracks r p a S0 H h'"
  using assms stands_later [OF _ assms(4)] unfolding tracks_def by metis

subsection \<open>Each step keeps track\<close>

lemma grows_Nil [simp]: "grows [] x = x"
  by (cases x) (simp add: grows_def split: replay_phase.splits)

lemma tracksD:
  assumes "tracks r p a S0 H h"
  shows "r < length (hb_replays h)" "rp_port (hb_replays h ! r) = p" "rp_after (hb_replays h ! r) = a" "hub_ok h"
    "log_ok H (hb_log h)" "pt_attached (hb_ports h ! p)" "p < length (hb_ports h)"
    "pt_open (hb_ports h ! p) \<Longrightarrow>
      stands a S0 H (hb_log h) (rp_phase (hb_replays h ! r)) (pt_queue (hb_ports h ! p)) (pt_sent (hb_ports h ! p))"
    "x < length (hb_replays h) \<Longrightarrow> replay_active (hb_replays h ! x) \<Longrightarrow> rp_port (hb_replays h ! x) = p \<Longrightarrow> x = r"
  using assms by (auto simp: tracks_def hub_ok_def)

lemma stands_lands:
  assumes "stands a S0 H l (rp_phase x) (pt_queue P) (pt_sent P)" "pt_open P" "pt_attached P"
    and "written_seq l < ev_seq e" "written_seq l \<le> written_seq l'"
  shows "stands a S0 (H @ [e]) l' (rp_phase (grows [e] x)) (pt_queue (if shown e then fan_out e P else P))
    (pt_sent (if shown e then fan_out e P else P))"
proof -
  let ?P = "if shown e then fan_out e P else P"
  have Q: "pt_queue ?P = Some (q @ filter shown [e])" "pt_sent ?P = pt_sent P" if "pt_queue P = Some q" for q
    using that assms(2,3) by (simp_all add: fan_out_def)
  have S: "pt_queue ?P = None" "pt_sent ?P = pt_sent P @ map (\<lambda>e. (e, False)) (filter shown [e])" if "pt_queue P = None"
    using that assms(2,3) by (simp_all add: fan_out_def deliver_def)
  show ?thesis
  proof (cases "rp_phase x")
    case RpSnap
    then obtain M N where M: "H = M @ N" "pt_queue P = Some (filter shown N)" "pt_sent P = S0" using assms(1) by auto
    have g: "rp_phase (grows [e] x) = RpSnap" using RpSnap by (simp add: grows_def)
    show ?thesis unfolding g stands.simps
      by (intro conjI, simp only: Q(2) [OF M(2)] M(3), rule exI [of _ M], rule exI [of _ "N @ [e]"])
        (simp only: M Q(1) [OF M(2)], simp)
  next
    case (RpStream sn since)
    then obtain l1 M N where M: "H = M @ N @ since" "log_ok (M @ N) l1" "sn = take_snapshot l1" "written_seq l1 \<le> written_seq l"
        "pt_queue P = Some (filter shown (N @ since))" "\<forall>e \<in> set since. written_seq l1 < ev_seq e" "pt_sent P = S0"
      using assms(1) by auto
    have g: "rp_phase (grows [e] x) = RpStream sn (since @ [e])" using RpStream by (simp add: grows_def)
    show ?thesis unfolding g stands.simps
      by (intro conjI, simp only: Q(2) [OF M(5)] M(7), rule exI [of _ l1], rule exI [of _ M], rule exI [of _ N])
        (use M assms(4,5) Q(1) [OF M(5)] in auto)
  next
    case (RpSend es u t)
    then obtain l1 M N L K where M: "H = M @ N @ L" "log_ok (M @ N) l1" "u = written_seq l1"
        "t = replay_truncated a (take_snapshot l1)" "pt_queue P = Some (filter shown (N @ L))" "\<forall>e \<in> set L. u < ev_seq e"
        "u \<le> written_seq l" "kept a l1 (M @ N) = K @ es" "pt_sent P = S0 @ map (\<lambda>e. (e, True)) (filter shown K)"
      using assms(1) by auto
    have g: "rp_phase (grows [e] x) = RpSend es u t" using RpSend by (simp add: grows_def)
    show ?thesis unfolding g stands.simps
      by (rule exI [of _ l1], rule exI [of _ M], rule exI [of _ N], rule exI [of _ "L @ [e]"], rule exI [of _ K])
        (use M assms(4,5) Q [OF M(5)] in auto)
  next
    case (RpDone u t)
    then obtain l1 M L where M: "H = M @ L" "log_ok M l1" "u = written_seq l1"
        "t = replay_truncated a (take_snapshot l1)" "pt_queue P = None" "\<forall>e \<in> set L. u < ev_seq e" "u \<le> written_seq l"
        "pt_sent P = S0 @ map (\<lambda>e. (e, True)) (filter shown (kept a l1 M)) @ map (\<lambda>e. (e, False)) (filter shown L)"
      using assms(1) by auto
    have g: "rp_phase (grows [e] x) = RpDone u t" using RpDone by (simp add: grows_def)
    show ?thesis unfolding g stands.simps
      by (rule exI [of _ l1], rule exI [of _ M], rule exI [of _ "L @ [e]"]) (use M assms(4,5) S [OF M(5)] in auto)
  qed (use assms(1) in \<open>simp_all add: grows_def\<close>)
qed

lemma fan_out_same [simp]: "pt_open (fan_out e P) = pt_open P" "pt_attached (fan_out e P) = pt_attached P"
  by (auto simp: fan_out_def split: option.splits)

lemma tracks_advances:
  assumes tr: "tracks r p a S0 H h" and io: "io_whole (LogGoes io)"
    and good: "list_all ev_good (H @ landed (hb_log h) (LogGoes io))"
  shows "tracks r p a S0 (H @ landed (hb_log h) (LogGoes io)) (log_advances limit io h)"
proof -
  note d = tracksD [OF tr]
  let ?h = "log_advances limit io h"
  have ok: "hub_ok ?h" by (rule hub_ok_advances [OF d(4) io])
  have lg: "log_ok (H @ landed (hb_log h) (LogGoes io)) (hb_log ?h)"
    using log_step_ok [OF d(5) io good, of limit] by (simp add: log_advances_log)
  have wr: "written_seq (hb_log h) \<le> written_seq (hb_log ?h)"
    using written_mono [OF d(5), of "LogGoes io" limit] by (simp add: log_advances_log)
  show ?thesis using io
  proof (cases rule: advances_cases [where limit = limit and h = h])
    case quiet
    have "tracks r p a S0 H ?h" by (rule tracks_quiet [OF tr ok _ wr]) (use lg quiet(1,2) d(1,6) in simp_all)
    then show ?thesis using quiet by simp
  next
    case (lands e)
    have less: "written_seq (hb_log h) < ev_seq e" by (rule landed_newer [OF d(5), of e io]) (simp only: lands(1), simp)
    let ?P = "if shown e then fan_out e (hb_ports h ! p) else hb_ports h ! p"
    have h': "hb_replays ?h ! r = grows [e] (hb_replays h ! r)" "hb_ports ?h ! p = ?P"
      "length (hb_replays ?h) = length (hb_replays h)" "hb_replays ?h = map (grows [e]) (hb_replays h)"
      using lands(2) d(1,7) by simp_all
    have P: "pt_open ?P = pt_open (hb_ports h ! p)" "pt_attached ?P"
      using d(6) by simp_all
    have st: "stands a S0 (H @ [e]) (hb_log ?h) (rp_phase (hb_replays ?h ! r)) (pt_queue (hb_ports ?h ! p)) (pt_sent (hb_ports ?h ! p))"
      if "pt_open (hb_ports ?h ! p)"
      using stands_lands [OF d(8) _ d(6) less wr] that P(1) unfolding h'(1,2) by simp
    have one: "x = r" if "x < length (hb_replays ?h)" "replay_active (hb_replays ?h ! x)" "rp_port (hb_replays ?h ! x) = p" for x
      using that d(9) [of x] unfolding h'(3,4) by simp
    have "rp_port (hb_replays ?h ! r) = p" "rp_after (hb_replays ?h ! r) = a" "r < length (hb_replays ?h)"
      using d(1-3) by (simp_all add: h'(1,3))
    moreover have "pt_attached (hb_ports ?h ! p)" using P(2) by (simp only: h'(2))
    moreover have "log_ok (H @ [e]) (hb_log ?h)" using lg by (simp only: lands(1))
    ultimately show ?thesis unfolding lands(1) using ok st one by (intro tracksI)
  next
    case (snaps q)
    show ?thesis
    proof (cases "q = r")
      case False
      have "replay_active (hb_replays h ! q)" using d(4) snaps(2) by (simp add: hub_ok_def)
      then have "tracks r p a S0 H ?h"
        by (intro tracks_quiet [OF tr ok _ wr])
          (use lg snaps(1,4) d(1,6) False in \<open>auto simp: Let_def on_replay_nth split: if_splits\<close>)
      then show ?thesis using snaps(1) by simp
    next
      case True
      have ph: "rp_phase (hb_replays h ! r) = RpSnap" using d(4) snaps(2) True by (simp add: hub_ok_def)
      have h': "hb_ports ?h = hb_ports h" "length (hb_replays ?h) = length (hb_replays h)"
        "hb_replays ?h ! r = (hb_replays h ! r)\<lparr>rp_phase := RpStream (take_snapshot (hb_log ?h)) []\<rparr>"
        "\<And>x. x < length (hb_replays h) \<Longrightarrow> x \<noteq> r \<Longrightarrow> hb_replays ?h ! x = hb_replays h ! x"
        using snaps(4) True d(1) by (simp_all add: Let_def on_replay_nth log_advances_log)
      have st: "stands a S0 H (hb_log ?h) (RpStream (take_snapshot (hb_log ?h)) []) (pt_queue (hb_ports h ! p)) (pt_sent (hb_ports h ! p))"
        if "pt_open (hb_ports h ! p)"
        using d(8) [OF that] ph lg snaps(1) by auto
      have one: "x = r" if "x < length (hb_replays ?h)" "replay_active (hb_replays ?h ! x)" "rp_port (hb_replays ?h ! x) = p" for x
      proof (rule ccontr)
        assume ne: "x \<noteq> r"
        then have "hb_replays ?h ! x = hb_replays h ! x" using that(1) h'(2,4) by simp
        then show False using that ne d(9) [of x] h'(2) by simp
      qed
      have "tracks r p a S0 H ?h"
        by (rule tracksI [OF _ _ _ ok _ _ one]) (use d(1-3,6) lg st snaps(1) in \<open>simp_all add: h'(1-3)\<close>)
      then show ?thesis using snaps(1) by simp
    qed
  qed
qed

text \<open>A step of another replay, of another port.\<close>

lemma tracks_other:
  assumes tr: "tracks r p a S0 H h" and ok: "hub_ok (on_replay x ph (on_port q f h))" and x: "x \<noteq> r" "q \<noteq> p" "x < length (hb_replays h)"
    and q: "rp_port (hb_replays h ! x) = q"
  shows "tracks r p a S0 H (on_replay x ph (on_port q f h))"
proof -
  note d = tracksD [OF tr]
  have "pt_queue (hb_ports (on_port q f h) ! p) = pt_queue (hb_ports h ! p)" "hb_ports (on_port q f h) ! p = hb_ports h ! p"
    using x(2) d(7) by (simp_all add: on_port_nth)
  then show ?thesis using d(1-3,5,6) x q
    by (intro tracks_quiet [OF tr ok]) (auto simp: on_replay_nth split: if_splits)
qed

lemma flush_queue_simps: "pt_queue p = Some q \<Longrightarrow>
   flush_queue u p = p\<lparr>pt_queue := None, pt_sent := pt_sent p @ map (\<lambda>e. (e, False)) (filter (\<lambda>e. u < ev_seq e) q)\<rparr>"
proof -
  have "fold (deliver_newer u) q x = x\<lparr>pt_sent := pt_sent x @ map (\<lambda>e. (e, False)) (filter (\<lambda>e. u < ev_seq e) q)\<rparr>" for q x
    by (induction q arbitrary: x) (simp_all add: deliver_newer_def deliver_def)
  then show "pt_queue p = Some q \<Longrightarrow> ?thesis" by (simp add: flush_queue_def)
qed

text \<open>A step of the replay itself: the new phase and port stand where they should.\<close>

lemma tracks_moves:
  assumes tr: "tracks r p a S0 H h" and ok: "hub_ok (on_replay r ph (on_port p f h))"
    and keep: "\<And>x. pt_open (f x) = pt_open x" "\<And>x. pt_attached (f x) = pt_attached x"
    and st: "pt_open (hb_ports h ! p) \<Longrightarrow> stands a S0 H (hb_log h) ph (pt_queue (f (hb_ports h ! p))) (pt_sent (f (hb_ports h ! p)))"
  shows "tracks r p a S0 H (on_replay r ph (on_port p f h))"
proof -
  note d = tracksD [OF tr]
  have one: "x = r" if "x < length (hb_replays (on_replay r ph (on_port p f h)))"
    "replay_active (hb_replays (on_replay r ph (on_port p f h)) ! x)"
    "rp_port (hb_replays (on_replay r ph (on_port p f h)) ! x) = p" for x
  proof (rule ccontr)
    assume ne: "x \<noteq> r"
    then have "hb_replays (on_replay r ph (on_port p f h)) ! x = hb_replays h ! x" using that(1) by (simp add: on_replay_nth)
    then show False using that ne d(9) [of x] by simp
  qed
  show ?thesis
    by (rule tracksI [OF _ _ _ ok _ _ one]) (use d(1-3,5-7) in \<open>simp_all add: on_replay_nth on_port_nth keep st\<close>)
qed

lemma stands_reads:
  assumes "stands a S0 H l (RpStream sn since) q sent" "list_all ev_good H" "reads_back json H" "log_ok H l"
  shows "stands a S0 H l (RpSend (replay_events json a sn (grown (take k since) (sn_files sn))) (sn_until sn) (replay_truncated a sn)) q sent"
proof -
  obtain l1 M N where M: "H = M @ N @ since" "log_ok (M @ N) l1" "sn = take_snapshot l1" "written_seq l1 \<le> written_seq l"
      "q = Some (filter shown (N @ since))" "\<forall>e \<in> set since. written_seq l1 < ev_seq e" "sent = S0"
    using assms(1) by auto
  have srt: "sorted_wrt (<) (map ev_seq since)" using log_ok_sorted [OF assms(4)] M(1) by (simp add: sorted_wrt_append)
  have js: "reads_back json (M @ N)" using assms(3) M(1) by (auto simp: reads_back_def)
  have "replay_events json a sn (grown (take k since) (sn_files sn)) = kept a l1 (M @ N)"
    unfolding M(3) using replay_kept [OF M(2) _ js srt M(6)] assms(2) M(1) by simp
  moreover have "sn_until sn = written_seq l1" using M(3) by (simp add: take_snapshot_def)
  ultimately show ?thesis unfolding stands.simps
    by (intro exI [of _ l1] exI [of _ M] exI [of _ N] exI [of _ since] exI [of _ "[]"]) (use M in auto)
qed

lemma stands_ends:
  assumes "stands a S0 H l (RpSend [] u t) (pt_queue P) (pt_sent P)"
  shows "stands a S0 H l (RpDone u t) (pt_queue (flush_queue u P)) (pt_sent (flush_queue u P))"
proof -
  obtain l1 M N L K where M: "H = M @ N @ L" "log_ok (M @ N) l1" "u = written_seq l1"
      "t = replay_truncated a (take_snapshot l1)" "pt_queue P = Some (filter shown (N @ L))" "\<forall>e \<in> set L. u < ev_seq e"
      "u \<le> written_seq l" "kept a l1 (M @ N) = K" "pt_sent P = S0 @ map (\<lambda>e. (e, True)) (filter shown K)"
    using assms by auto
  have "filter (\<lambda>e. u < ev_seq e) (filter shown N) = []" using log_ok_written [OF M(2)] M(3) by (fastforce simp: filter_empty_conv)
  moreover have "filter (\<lambda>e. u < ev_seq e) (filter shown L) = filter shown L" using M(6) by (auto intro!: filter_True simp del: filter_filter)
  ultimately show ?thesis unfolding stands.simps flush_queue_simps [OF M(5)]
    by (intro exI [of _ l1] exI [of _ "M @ N"] exI [of _ L]) (use M in auto)
qed

definition starts_other :: "nat \<Rightarrow> nat \<Rightarrow> hub \<Rightarrow> hub_event \<Rightarrow> bool" where
  "starts_other r p h e = (case e of TriesReplay x \<Rightarrow> x \<noteq> r \<and> starts x h \<and> rp_port (hb_replays h ! x) = p | _ \<Rightarrow> False)"

lemma attached_port: "pt_attached (hb_ports h ! p) \<Longrightarrow> (\<And>x. pt_attached (f x) = pt_attached x) \<Longrightarrow>
   pt_attached (hb_ports (on_port q f h) ! p)"
  by (cases "p < length (hb_ports h)") (auto simp: on_port_def nth_list_update)

lemma tracks_plain:
  assumes tr: "tracks r p a S0 H h" and whole: "input_whole e"
    and e: "e = PortOpens \<or> (\<exists>q. e = PortCloses q) \<or> (\<exists>q. e = Joins q) \<or> (\<exists>q b. e = Attaches q b)"
  shows "tracks r p a S0 H (hub_step limit json h e)"
proof -
  note d = tracksD [OF tr]
  have new: "\<not> replay_active \<lparr>rp_port = q, rp_after = b, rp_phase = RpLog\<rparr>" for q b by (simp add: replay_active_def)
  show ?thesis
    by (rule tracks_quiet [OF tr hub_step_ok [OF d(4) whole]])
      (use e d(1,5,6,7) new in \<open>auto simp: nth_append attach_def on_port_nth less_Suc_eq split: if_splits\<close>)
qed

lemma tracks_try:
  assumes tr: "tracks r p a S0 H h" and lone: "\<not> starts_other r p h (TriesReplay x)" and good: "list_all ev_good H"
  shows "tracks r p a S0 H (try_replay x h)"
proof -
  note d = tracksD [OF tr]
  have ok: "hub_ok (try_replay x h)" by (rule hub_ok_try [OF d(4)])
  show ?thesis
  proof (cases x h rule: try_replay_cases)
    case nothing
    then show ?thesis using tr by simp
  next
    case blocked
    show ?thesis
    proof (cases "x = r")
      case False
      then show ?thesis unfolding blocked(1)
        by (intro tracks_quiet [OF tr ok [unfolded blocked(1)]]) (use d(1,5,6) in \<open>auto simp: on_replay_nth split: if_splits\<close>)
    next
      case True
      have "\<not> pt_open (hb_ports h ! p)" using d(8) blocked(3) True by (auto simp: replay_waits_def)
      then show ?thesis unfolding blocked(1)
        using tracks_moves [OF tr, of RpTurn "\<lambda>y. y"] ok blocked(1) True by simp
    qed
  next
    case begins
    have q: "rp_port (hb_replays h ! x) \<noteq> p \<or> x = r" using lone begins(1) by (auto simp: starts_other_def)
    have lg: "log_ok H (hb_log (try_replay x h))" "written_seq (hb_log (try_replay x h)) = written_seq (hb_log h)"
      using log_step_ok [OF d(5), of "Replay x" 0] good by (simp_all add: begins(2))
    have at: "pt_attached (hb_ports (try_replay x h) ! p)" unfolding begins(2)
      using attached_port [of h p] d(6) by simp
    have len: "length (hb_replays (try_replay x h)) = length (hb_replays h)" using begins(2) by simp
    have same: "hb_replays (try_replay x h) ! y = hb_replays h ! y" if "y < length (hb_replays h)" "y \<noteq> x" for y
      using that by (simp add: begins(2) on_replay_nth)
    show ?thesis
    proof (cases "x = r")
      case False
      then have "hb_ports (try_replay x h) ! p = hb_ports h ! p" using q d(7) by (simp add: begins(2) on_port_nth)
      moreover have "hb_replays (try_replay x h) ! x = (hb_replays h ! x)\<lparr>rp_phase := RpSnap\<rparr>"
        using begins(1) by (simp add: begins(2) on_replay_nth starts_def)
      moreover have "y < length (hb_replays h) \<and> replay_active (hb_replays h ! y) \<and> rp_port (hb_replays h ! y) = p"
        if "y < length (hb_replays (try_replay x h))" "replay_active (hb_replays (try_replay x h) ! y)"
          "rp_port (hb_replays (try_replay x h) ! y) = p" for y
      proof (cases "y = x")
        case True
        have "rp_port (hb_replays (try_replay x h) ! x) = rp_port (hb_replays h ! x)"
          using begins(1) by (simp add: begins(2) on_replay_nth starts_def)
        then show ?thesis using that q False True by simp
      qed (use that same len in simp)
      ultimately show ?thesis
        by (intro tracks_quiet [OF tr ok lg(1)]) (simp_all add: lg(2) len same d(1,6) False [symmetric])
    next
      case True
      have "\<not> pt_open (hb_ports h ! p)" using d(8) begins(1) True by (auto simp: starts_def replay_waits_def)
      then have cl: "\<not> pt_open (hb_ports (try_replay x h) ! p)" using d(7) by (auto simp: begins(2) on_port_nth)
      have one: "y = r" if "y < length (hb_replays (try_replay x h))" "replay_active (hb_replays (try_replay x h) ! y)"
        "rp_port (hb_replays (try_replay x h) ! y) = p" for y
        using that d(9) [of y] same [of y] len True by metis
      have "rp_port (hb_replays (try_replay x h) ! r) = p" "rp_after (hb_replays (try_replay x h) ! r) = a"
        using d(1-3) True unfolding begins(2) by (simp_all add: on_replay_nth)
      then show ?thesis using d(1) len by (intro tracksI [OF _ _ _ ok lg(1) at one]) (use cl in simp_all)
    qed
  qed
qed

lemma tracks_reads:
  assumes tr: "tracks r p a S0 H h" and good: "list_all ev_good H" and json: "reads_back json H" and ok: "hub_ok (replay_reads json x k h)"
  shows "tracks r p a S0 H (replay_reads json x k h)"
proof (cases "x < length (hb_replays h) \<and> (\<exists>sn since. rp_phase (hb_replays h ! x) = RpStream sn since)")
  case False
  then have "replay_reads json x k h = h" by (auto simp: replay_reads_def split: replay_phase.splits)
  then show ?thesis using tr by simp
next
  case True
  then obtain sn since where x: "x < length (hb_replays h)" "rp_phase (hb_replays h ! x) = RpStream sn since" by blast
  note d = tracksD [OF tr]
  define ph where "ph = RpSend (replay_events json (rp_after (hb_replays h ! x)) sn (grown (take k since) (sn_files sn))) (sn_until sn)
    (replay_truncated (rp_after (hb_replays h ! x)) sn)"
  have eq: "replay_reads json x k h = on_replay x ph (on_port (rp_port (hb_replays h ! x)) (\<lambda>y. y) h)"
    using x by (simp add: replay_reads_def ph_def Let_def)
  show ?thesis
  proof (cases "x = r")
    case True
    then have "stands a S0 H (hb_log h) ph (pt_queue (hb_ports h ! p)) (pt_sent (hb_ports h ! p))" if "pt_open (hb_ports h ! p)"
      using stands_reads [OF _ good json d(5)] d(3) d(8) [OF that] x(2) by (simp only: ph_def)
    then show ?thesis unfolding eq using tracks_moves [OF tr, of ph "\<lambda>y. y"] ok True d(2) eq by simp
  next
    case False
    have "rp_port (hb_replays h ! x) \<noteq> p" using d(9) [of x] x False by auto
    then show ?thesis unfolding eq by (intro tracks_other [OF tr _ False]) (use ok x eq in simp_all)
  qed
qed

lemma stands_sends:
  assumes "stands a S0 H l (RpSend (e # es) u t) (pt_queue P) (pt_sent P)"
  shows "stands a S0 H l (RpSend es u t) (pt_queue (if shown e then deliver e True P else P))
    (pt_sent (if shown e then deliver e True P else P))"
proof -
  obtain l1 M N L K where M: "H = M @ N @ L" "log_ok (M @ N) l1" "u = written_seq l1"
      "t = replay_truncated a (take_snapshot l1)" "pt_queue P = Some (filter shown (N @ L))" "\<forall>e \<in> set L. u < ev_seq e"
      "u \<le> written_seq l" "kept a l1 (M @ N) = K @ e # es" "pt_sent P = S0 @ map (\<lambda>e. (e, True)) (filter shown K)"
    using assms by auto
  show ?thesis unfolding stands.simps
    by (rule exI [of _ l1], rule exI [of _ M], rule exI [of _ N], rule exI [of _ L], rule exI [of _ "K @ [e]"])
      (use M in \<open>simp add: deliver_def\<close>)
qed

lemma tracks_sends:
  assumes tr: "tracks r p a S0 H h" and ok: "hub_ok (replay_sends x h)"
  shows "tracks r p a S0 H (replay_sends x h)"
proof (cases "x < length (hb_replays h) \<and> (\<exists>es u t. rp_phase (hb_replays h ! x) = RpSend es u t)")
  case False
  then have "replay_sends x h = h" by (auto simp: replay_sends_def Let_def split: replay_phase.splits)
  then show ?thesis using tr by simp
next
  case True
  then obtain es u t where x: "x < length (hb_replays h)" "rp_phase (hb_replays h ! x) = RpSend es u t" by blast
  note d = tracksD [OF tr]
  define ph where "ph = (if es = [] then RpDone u t else RpSend (tl es) u t)"
  define f where "f = (if es = [] then flush_queue u else (\<lambda>y. if shown (hd es) then deliver (hd es) True y else y))"
  have eq: "replay_sends x h = on_replay x ph (on_port (rp_port (hb_replays h ! x)) f h)"
    using x by (cases es) (simp_all add: replay_sends_def ph_def f_def Let_def)
  have keep: "pt_open (f y) = pt_open y" "pt_attached (f y) = pt_attached y" for y
    by (simp_all add: f_def)
  show ?thesis
  proof (cases "x = r")
    case True
    have "stands a S0 H (hb_log h) ph (pt_queue (f (hb_ports h ! p))) (pt_sent (f (hb_ports h ! p)))" if "pt_open (hb_ports h ! p)"
      using stands_ends [of a S0 H "hb_log h" u t "hb_ports h ! p"] stands_sends [of a S0 H "hb_log h" "hd es" "tl es" u t "hb_ports h ! p"]
        d(8) [OF that] x(2) True by (cases es) (simp_all add: ph_def f_def del: stands.simps)
    then show ?thesis unfolding eq using tracks_moves [OF tr, of ph f] ok keep True d(2) eq by simp
  next
    case False
    have "rp_port (hb_replays h ! x) \<noteq> p" using d(9) [of x] x False by auto
    then show ?thesis unfolding eq by (intro tracks_other [OF tr _ False]) (use ok x eq in simp_all)
  qed
qed

lemma tracks_fails:
  assumes tr: "tracks r p a S0 H h" and ok: "hub_ok (replay_fails x h)"
  shows "tracks r p a S0 H (replay_fails x h)"
proof (cases "replay_fails x h = h")
  case False
  note d = tracksD [OF tr]
  let ?f = "\<lambda>y. y\<lparr>pt_queue := None\<rparr>"
  have x: "x < length (hb_replays h)" "replay_active (hb_replays h ! x)"
    and eq: "replay_fails x h = on_replay x RpFailed (on_port (rp_port (hb_replays h ! x)) ?f h)"
    using False by (auto simp: replay_fails_def split: if_splits replay_phase.splits)
  show ?thesis
  proof (cases "x = r")
    case True
    then show ?thesis unfolding eq using tracks_moves [OF tr, of RpFailed ?f] ok d(2) eq by simp
  next
    case False
    have "rp_port (hb_replays h ! x) \<noteq> p" using d(9) [of x] x False by auto
    then show ?thesis unfolding eq by (intro tracks_other [OF tr _ False]) (use ok x eq in simp_all)
  qed
qed (use tr in simp)

lemma tracks_step:
  assumes tr: "tracks r p a S0 H h" and whole: "input_whole e" and good: "list_all ev_good (H @ hub_landed h e)"
    and json: "reads_back json H" and lone: "\<not> starts_other r p h e"
  shows "tracks r p a S0 (H @ hub_landed h e) (hub_step limit json h e)"
proof -
  note d = tracksD [OF tr]
  have ok: "hub_ok (hub_step limit json h e)" by (rule hub_step_ok [OF d(4) whole])
  have lg: "log_ok (H @ hub_landed h e) (hb_log (hub_step limit json h e))" by (rule hub_step_log_ok [OF d(5) whole good])
  have g: "list_all ev_good H" using good by simp
  have quiet: "tracks r p a S0 H (h\<lparr>hb_log := l\<rparr>)" if "hub_ok (h\<lparr>hb_log := l\<rparr>)" "log_ok H l" "written_seq (hb_log h) \<le> written_seq l" for l
    by (rule tracks_quiet [OF tr that(1)]) (use d(1,6) that in simp_all)
  show ?thesis
  proof (cases e)
    case (TriesReplay x)
    then show ?thesis using tracks_try [OF tr _ g, of x] lone by (simp add: hub_landed_def)
  next
    case (Records ts body sync)
    then show ?thesis using quiet [of "hb_log (hub_step limit json h e)"] ok lg written_mono [OF d(5), of "Append ts body sync" limit]
      by (simp add: hub_landed_def)
  next
    case PutsMeta
    then show ?thesis using quiet [of "hb_log (hub_step limit json h e)"] ok lg by (simp add: hub_landed_def)
  next
    case (LogAdvances io)
    then show ?thesis using tracks_advances [OF tr, of io limit] whole good by (simp add: hub_landed_def input_whole_def del: landed.simps io_whole.simps)
  next
    case (Reads x k)
    then show ?thesis using tracks_reads [OF tr g json] ok by (simp add: hub_landed_def)
  next
    case (SendsNext x)
    then show ?thesis using tracks_sends [OF tr] ok by (simp add: hub_landed_def)
  next
    case (ReplayFails x)
    then show ?thesis using tracks_fails [OF tr] ok by (simp add: hub_landed_def)
  qed (use tracks_plain [OF tr whole] in \<open>simp_all add: hub_landed_def\<close>)
qed

fun lone_replay :: "nat \<Rightarrow> nat \<Rightarrow> nat \<Rightarrow> (string \<Rightarrow> event option) \<Rightarrow> hub \<Rightarrow> hub_event list \<Rightarrow> bool" where
  "lone_replay r p limit json h [] = True"
| "lone_replay r p limit json h (e # es) = (\<not> starts_other r p h e \<and> lone_replay r p limit json (hub_step limit json h e) es)"

lemma tracks_run:
  "tracks r p a S0 H h \<Longrightarrow> list_all input_whole es \<Longrightarrow> list_all ev_good (H @ hub_history limit json h es) \<Longrightarrow>
   reads_back json (H @ hub_history limit json h es) \<Longrightarrow> lone_replay r p limit json h es \<Longrightarrow>
   tracks r p a S0 (H @ hub_history limit json h es) (hub_run limit json h es)"
proof (induction es arbitrary: h H)
  case (Cons e es)
  have "tracks r p a S0 (H @ hub_landed h e) (hub_step limit json h e)"
    by (rule tracks_step) (use Cons.prems in \<open>auto simp: reads_back_def\<close>)
  then show ?case using Cons.IH [of "H @ hub_landed h e" "hub_step limit json h e"] Cons.prems
    by (simp add: hub_run_def)
qed (simp add: hub_run_def)

subsection \<open>The sockets before the replay\<close>

definition all_attached :: "hub \<Rightarrow> bool" where
  "all_attached h \<longleftrightarrow> (\<forall>r < length (hb_replays h). pt_attached (hb_ports h ! rp_port (hb_replays h ! r)))"

lemma all_attached_keeps:
  assumes "all_attached h" "hub_ok h" "length (hb_replays h') = length (hb_replays h)"
    and "\<And>x. x < length (hb_replays h) \<Longrightarrow> rp_port (hb_replays h' ! x) = rp_port (hb_replays h ! x)"
    and "\<And>q. q < length (hb_ports h) \<Longrightarrow> pt_attached (hb_ports h ! q) \<Longrightarrow> pt_attached (hb_ports h' ! q)"
  shows "all_attached h'"
  using assms by (simp add: all_attached_def hub_ok_def)

lemma all_attached_step:
  assumes "all_attached h" "hub_ok h" "input_whole e"
  shows "all_attached (hub_step limit json h e)"
proof -
  have on: "all_attached (on_replay r ph (on_port p f h))" if "\<And>x. pt_attached x \<Longrightarrow> pt_attached (f x)" for r ph p f
    by (rule all_attached_keeps [OF assms(1,2)]) (use that in \<open>auto simp: on_replay_nth on_port_nth\<close>)
  show ?thesis
  proof (cases e)
    case (Attaches p b)
    have "pt_attached (hb_ports (attach p b h) ! q)" if "q < length (hb_ports h)" "q = p \<or> pt_attached (hb_ports h ! q)" for q
      using that by (auto simp: attach_def on_port_nth)
    moreover have "rp_port (hb_replays h ! x) < length (hb_ports h)" if "x < length (hb_replays h)" for x
      using assms(2) that by (simp add: hub_ok_def)
    ultimately show ?thesis using assms(1) Attaches by (auto simp: all_attached_def attach_def nth_append less_Suc_eq)
  next
    case (TriesReplay x)
    show ?thesis
    proof (cases x h rule: try_replay_cases)
      case blocked
      then show ?thesis using TriesReplay on [of "\<lambda>x. x" x RpTurn 0] by simp
    next
      case begins
      have "all_attached (on_replay x RpSnap (on_port (rp_port (hb_replays h ! x)) (\<lambda>x. x\<lparr>pt_queue := Some []\<rparr>) h))"
        by (rule on) simp
      then show ?thesis using TriesReplay by (simp add: begins(2) all_attached_def)
    qed (use TriesReplay assms(1) in simp)
  next
    case (LogAdvances io)
    have io: "io_whole (LogGoes io)" using assms(3) LogAdvances by (simp add: input_whole_def)
    show ?thesis using io
    proof (cases rule: advances_cases [where limit = limit and h = h])
      case (snaps q)
      then show ?thesis using LogAdvances
        by (intro all_attached_keeps [OF assms(1,2)]) (auto simp: Let_def on_replay_nth)
    qed (use LogAdvances in \<open>auto intro!: all_attached_keeps [OF assms(1,2)]\<close>)
  next
    case (Reads x k)
    then show ?thesis using assms(1) on [of "\<lambda>x. x" _ _ 0] by (auto simp: replay_reads_def Let_def split: replay_phase.splits)
  next
    case (SendsNext x)
    then show ?thesis using assms(1) on [of "\<lambda>x. x" _ _ 0] on [of "flush_queue _"] on [of "deliver _ True"]
      by (auto simp: replay_sends_def Let_def split: replay_phase.splits list.splits)
  next
    case (ReplayFails x)
    then show ?thesis using assms(1) on [of "\<lambda>x. x\<lparr>pt_queue := None\<rparr>"] by (auto simp: replay_fails_def split: replay_phase.splits)
  qed (use assms(1) in \<open>auto intro!: all_attached_keeps [OF assms(1,2)] simp: on_port_nth nth_append\<close>)
qed

text \<open>A hub that starts on a log without replays.\<close>

lemma hub_reachable:
  "hub_ok h \<Longrightarrow> all_attached h \<Longrightarrow> log_ok H (hb_log h) \<Longrightarrow> list_all input_whole es \<Longrightarrow>
   list_all ev_good (H @ hub_history limit json h es) \<Longrightarrow>
   hub_ok (hub_run limit json h es) \<and> all_attached (hub_run limit json h es) \<and>
   log_ok (H @ hub_history limit json h es) (hb_log (hub_run limit json h es))"
proof (induction es arbitrary: h H)
  case (Cons e es)
  have "log_ok (H @ hub_landed h e) (hb_log (hub_step limit json h e))"
    by (rule hub_step_log_ok) (use Cons.prems in auto)
  then show ?case
    using Cons.IH [of "hub_step limit json h e" "H @ hub_landed h e"] Cons.prems hub_step_ok [of h e] all_attached_step [of h e]
    by (simp add: hub_run_def)
qed (simp add: hub_run_def)

lemma hub_init_ok: "snap_tasks (tasks l) = [] \<Longrightarrow> hub_ok (hub_init l) \<and> all_attached (hub_init l)"
  by (simp add: hub_ok_def all_attached_def hub_init_def)

lemma hub_history_append:
  "hub_history limit json h (es @ fs) = hub_history limit json h es @ hub_history limit json (hub_run limit json h es) fs"
  by (induction es arbitrary: h) (simp_all add: hub_run_def)

lemma tracks_begins:
  assumes ok: "hub_ok h" "all_attached h" "log_ok H (hb_log h)" "list_all ev_good H" and st: "starts r h"
  shows "tracks r (rp_port (hb_replays h ! r)) (rp_after (hb_replays h ! r)) (pt_sent (port_of r h)) H (try_replay r h)"
proof (cases r h rule: try_replay_cases)
  case begins
  let ?p = "rp_port (hb_replays h ! r)"
  have r: "r < length (hb_replays h)" "pt_queue (hb_ports h ! ?p) = None" using st by (simp_all add: starts_def)
  have p: "?p < length (hb_ports h)" "pt_attached (hb_ports h ! ?p)" using ok r(1) by (simp_all add: hub_ok_def all_attached_def)
  have lg: "log_ok H (hb_log (try_replay r h))"
    using log_step_ok [OF ok(3), of "Replay r" 0] ok(4) by (simp add: begins(2))
  have none: "\<not> replay_active (hb_replays h ! x)" if "x < length (hb_replays h)" "rp_port (hb_replays h ! x) = ?p" for x
    using ok(1) r(2) that by (auto simp: hub_ok_def)
  have one: "x = r" if "x < length (hb_replays (try_replay r h))" "replay_active (hb_replays (try_replay r h) ! x)"
    "rp_port (hb_replays (try_replay r h) ! x) = ?p" for x
  proof (rule ccontr)
    assume "x \<noteq> r"
    then have "hb_replays (try_replay r h) ! x = hb_replays h ! x" "x < length (hb_replays h)"
      using that(1) by (simp_all add: begins(2) on_replay_nth)
    then show False using none [of x] that by simp
  qed
  have "\<exists>M N. H = M @ N \<and> [] = filter shown N" by (rule exI [of _ H], rule exI [of _ "[]"]) simp
  then show ?thesis
    by (intro tracksI [OF _ _ _ hub_ok_try [OF ok(1)] lg _ one])
      (use r p in \<open>simp_all add: begins(2) on_replay_nth on_port_nth port_of_def\<close>)
qed (use st in simp_all)

end
