(* ===== verification/Ports_Props.thy ===== *)
theory Ports_Props
  imports Ports_Facts
begin

text \<open>
  A socket whose replay runs alone and finishes misses nothing and sees nothing twice (runtime/lib/session-broker.js,
  API-06): the frames of the replay, those that were queued during it and the live ones after it are together the log's events, in order.
\<close>

lemma sorted_shown: "sorted_wrt (<) (map ev_seq H) \<Longrightarrow> sorted_wrt (<) (map ev_seq (filter P H))"
  by (induction H) auto

text \<open>What a finished replay and the live frames after it amount to.\<close>

lemma done_is_history:
  assumes st: "stands a S0 H l (RpDone u t) q sent" and ok: "log_ok H l"
  shows "\<exists>got. sent = S0 @ got \<and> sorted_wrt (<) (map (ev_seq \<circ> fst) got) \<and> fst ` set got \<subseteq> {e \<in> set H. shown e} \<and>
    (\<forall>(e, again) \<in> set got. again \<longleftrightarrow> ev_seq e \<le> u) \<and>
    (\<not> t \<and> a \<le> u \<longrightarrow> map fst got = filter (\<lambda>e. shown e \<and> a < ev_seq e) H)"
proof -
  obtain l1 M L where M: "H = M @ L" "log_ok M l1" "u = written_seq l1" "t = replay_truncated a (take_snapshot l1)"
      "\<forall>e \<in> set L. u < ev_seq e" "sent = S0 @ map (\<lambda>e. (e, True)) (filter shown (kept a l1 M)) @ map (\<lambda>e. (e, False)) (filter shown L)"
    using st by auto
  let ?got = "map (\<lambda>e. (e, True)) (filter shown (kept a l1 M)) @ map (\<lambda>e. (e, False)) (filter shown L)"
  have le: "ev_seq e \<le> u" if "e \<in> set M" for e using log_ok_written [OF M(2) that] M(3) by simp
  have "sorted_wrt (<) (map ev_seq M)" "sorted_wrt (<) (map ev_seq L)"
    using log_ok_sorted [OF ok] M(1) by (simp_all add: sorted_wrt_append)
  then have "sorted_wrt (<) (map ev_seq (filter shown (kept a l1 M)))" "sorted_wrt (<) (map ev_seq (filter shown L))"
    by (simp_all add: kept_def sorted_shown)
  moreover have "ev_seq x < ev_seq y" if "x \<in> set M" "y \<in> set L" for x y using le [OF that(1)] M(5) that(2) by fastforce
  ultimately have "sorted_wrt (<) (map (ev_seq \<circ> fst) ?got)"
    by (auto simp: sorted_wrt_append kept_def comp_def)
  moreover have "fst ` set ?got \<subseteq> {e \<in> set H. shown e}" using M(1) by (auto simp: kept_def)
  moreover have "\<forall>(e, again) \<in> set ?got. again \<longleftrightarrow> ev_seq e \<le> u" using le M(5) by (force simp: kept_def)
  moreover have "map fst ?got = filter (\<lambda>e. shown e \<and> a < ev_seq e) H" if "\<not> t" "a \<le> u"
  proof -
    have "kept a l1 M = filter (\<lambda>e. a < ev_seq e) M" unfolding kept_def
      by (rule filter_cong [OF refl]) (use that M(3,4) le in \<open>force simp: replay_truncated_def take_snapshot_def\<close>)
    moreover have "filter (\<lambda>e. shown e \<and> a < ev_seq e) L = filter shown L"
      by (rule filter_cong [OF refl]) (use M(5) that(2) in fastforce)
    ultimately show ?thesis using M(1) by (simp add: comp_def conj_commute)
  qed
  ultimately show ?thesis using M(6) by (intro exI [of _ ?got]) blast
qed

text \<open>The sockets of a process that found the log as \<open>evs\<close> left it, and the events on disk by then.\<close>

definition sockets :: "nat \<Rightarrow> (string \<Rightarrow> event option) \<Rightarrow> log_event list \<Rightarrow> hub_event list \<Rightarrow> hub" where
  "sockets limit json evs es = hub_run limit json (hub_init (fst (log_run limit fresh_log evs))) es"

definition on_disk :: "nat \<Rightarrow> (string \<Rightarrow> event option) \<Rightarrow> log_event list \<Rightarrow> hub_event list \<Rightarrow> event list" where
  "on_disk limit json evs es =
    log_history limit fresh_log evs @ hub_history limit json (hub_init (fst (log_run limit fresh_log evs))) es"

text \<open>Claim C4. A socket whose replay ran alone and finished gets every event exactly once and in order. The conditions
  are: no write of the log is torn but by a crash, its renames and meta writes succeed and its lines read back as they
  were written; no other replay starts on the same socket from this
  one's start on; the replay finished without a failure; and the socket is still open. Then, whatever else is recorded, attached, replayed on other sockets and closed
  before, while and after the replay runs, everything the socket was sent from the replay's start on has strictly
  increasing seqs, consists of events of the log, and is marked as a replay up to the seq the answer names and as
  live after it; and unless the answer says "truncated", it is all the events after \<open>afterSeq\<close> that clients see,
  the live ones up to now included. The conditions are needed: two loads on one socket send events twice
  (\<open>load_sends_twice\<close>), and a replay that fails drops what was queued meanwhile (\<open>failed_replay_drops\<close>).\<close>

theorem attach_exactly_once:
  assumes "list_all io_whole evs" and "snap_tasks (tasks (fst (log_run limit fresh_log evs))) = []"
    and "list_all input_whole (es1 @ TriesReplay r # es2)"
    and "list_all ev_good (on_disk limit json evs (es1 @ TriesReplay r # es2))"
    and "reads_back json (on_disk limit json evs (es1 @ TriesReplay r # es2))"
    and "starts r (sockets limit json evs es1)"
    and "lone_replay r (rp_port (hb_replays (sockets limit json evs es1) ! r)) limit json
      (sockets limit json evs (es1 @ [TriesReplay r])) es2"
    and "rp_phase (hb_replays (sockets limit json evs (es1 @ TriesReplay r # es2)) ! r) = RpDone u t"
    and "pt_open (port_of r (sockets limit json evs (es1 @ TriesReplay r # es2)))"
  shows "\<exists>got. pt_sent (port_of r (sockets limit json evs (es1 @ TriesReplay r # es2)))
        = pt_sent (port_of r (sockets limit json evs es1)) @ got \<and>
      sorted_wrt (<) (map (ev_seq \<circ> fst) got) \<and>
      fst ` set got \<subseteq> {e \<in> set (on_disk limit json evs (es1 @ TriesReplay r # es2)). shown e} \<and>
      (\<forall>(e, again) \<in> set got. again \<longleftrightarrow> ev_seq e \<le> u) \<and>
      (\<not> t \<and> rp_after (hb_replays (sockets limit json evs es1) ! r) \<le> u \<longrightarrow>
        map fst got = filter (\<lambda>e. shown e \<and> rp_after (hb_replays (sockets limit json evs es1) ! r) < ev_seq e)
          (on_disk limit json evs (es1 @ TriesReplay r # es2)))"
proof -
  let ?l = "fst (log_run limit fresh_log evs)" and ?h1 = "sockets limit json evs es1"
  let ?h = "sockets limit json evs (es1 @ TriesReplay r # es2)" and ?a = "rp_after (hb_replays (sockets limit json evs es1) ! r)"
  let ?H1 = "on_disk limit json evs es1" and ?H = "on_disk limit json evs (es1 @ TriesReplay r # es2)"
  have split: "sockets limit json evs (es1 @ TriesReplay r # es2) = hub_run limit json (try_replay r ?h1) es2"
    "sockets limit json evs (es1 @ [TriesReplay r]) = try_replay r ?h1"
    by (simp_all add: sockets_def hub_run_def)
  have H: "?H = ?H1 @ hub_history limit json (try_replay r ?h1) es2"
    using assms(6) by (simp add: on_disk_def sockets_def hub_history_append hub_landed_def)
  have good: "list_all ev_good (log_history limit fresh_log evs)" "list_all ev_good ?H1"
    using assms(4) unfolding H by (simp_all add: on_disk_def)
  have reach: "hub_ok ?h1 \<and> all_attached ?h1 \<and> log_ok ?H1 (hb_log ?h1)" unfolding sockets_def on_disk_def
    using hub_init_ok [OF assms(2)] fresh_run_ok [OF assms(1) good(1)] assms(3) good(2)
    by (intro hub_reachable) (simp_all add: hub_init_def on_disk_def)
  have "tracks r (rp_port (hb_replays ?h1 ! r)) ?a (pt_sent (port_of r ?h1)) ?H1 (try_replay r ?h1)"
    using reach good(2) assms(6) by (intro tracks_begins) simp_all
  then have "tracks r (rp_port (hb_replays ?h1 ! r)) ?a (pt_sent (port_of r ?h1)) ?H ?h"
    unfolding H split(1) using assms(3,4,5,7) by (intro tracks_run) (simp_all add: H split)
  note d = tracksD [OF this]
  show ?thesis using done_is_history [OF _ d(5)] d(2) d(8) assms(8,9) unfolding port_of_def by simp
qed

subsection \<open>Concrete runs\<close>

definition line1 :: event where "line1 = \<lparr>ev_seq = 1, ev_ts = 5, ev_body = ''update\"}''\<rparr>"
definition line2 :: event where "line2 = \<lparr>ev_seq = 2, ev_ts = 7, ev_body = ''turn_end\"}''\<rparr>"

definition before_boot :: "log_event list" where
  "before_boot = [LogGoes io_fine, Append 5 ''update\"}'' True, LogGoes io_fine]"

definition read_lines :: "string \<Rightarrow> event option" where
  "read_lines l = (if l = text_of line1 then Some line1 else if l = text_of line2 then Some line2 else None)"

lemma boot_log:
  "log_run 1000 fresh_log before_boot =
   (\<lparr>last_seq = 1, written_seq = 1, first_seq = 1, truncated = False, ring = [(line1, 33)], ring_bytes = 33,
     file_bytes = 33, cur_file = Some (line_of line1), old_file = None, disk_meta = Some (1, 1, False),
     tasks = [], log_closed = False\<rparr>, [Appended 1])"
  by (simp add: before_boot_def log_eval line_length dec_digit split_beta) (simp add: line1_def)

lemma boot_history: "log_history 1000 fresh_log before_boot = [line1]"
  by (simp add: before_boot_def log_eval line_length dec_digit split_beta) (simp add: line1_def)

lemmas hub_eval = sockets_def hub_run_def hub_init_def attach_def try_replay_def replay_waits_def replay_reads_def
  replay_sends_def log_advances_def on_port_def on_replay_def new_port_def fan_out_def deliver_def grows_def
  flush_queue_def deliver_newer_def take_snapshot_def replay_truncated_def replay_events_def

lemma shown_lines: "shown line1" "shown line2" "ev_seq line1 = 1" "ev_seq line2 = 2"
  by (simp_all add: shown_def ev_kind_def line1_def line2_def)

lemma line2_eq: "\<lparr>ev_seq = Suc (Suc 0), ev_ts = 7, ev_body = ''turn_end\"}''\<rparr> = line2"
  by (simp add: line2_def)

text \<open>A turn ends while the socket is replayed: the event is queued and sent once, live, after the replay.\<close>

definition during_replay :: "hub_event list" where
  "during_replay = [Records 7 ''turn_end\"}'' True, LogAdvances io_fine, LogAdvances io_fine, Reads 0 0, SendsNext 0, SendsNext 0]"

lemma port_sample_start: "sockets 1000 read_lines before_boot [PortOpens, Attaches 0 0] =
   \<lparr>hb_log = fst (log_run 1000 fresh_log before_boot),
    hb_ports = [\<lparr>pt_open = True, pt_attached = True, pt_queue = None, pt_sent = []\<rparr>],
    hb_replays = [\<lparr>rp_port = 0, rp_after = 0, rp_phase = RpLog\<rparr>]\<rparr>"
  by (simp add: hub_eval)

definition boot_state :: slog where
  "boot_state = \<lparr>last_seq = 1, written_seq = 1, first_seq = 1, truncated = False, ring = [(line1, 33)], ring_bytes = 33,
     file_bytes = 33, cur_file = Some (line_of line1), old_file = None, disk_meta = Some (1, 1, False),
     tasks = [], log_closed = False\<rparr>"

definition one_socket :: "slog \<Rightarrow> event list option \<Rightarrow> (event \<times> bool) list \<Rightarrow> replay_phase \<Rightarrow> hub" where
  "one_socket l q sent ph = \<lparr>hb_log = l, hb_ports = [\<lparr>pt_open = True, pt_attached = True, pt_queue = q, pt_sent = sent\<rparr>],
     hb_replays = [\<lparr>rp_port = 0, rp_after = 0, rp_phase = ph\<rparr>]\<rparr>"

definition two_events :: "log_task list \<Rightarrow> slog" where
  "two_events ts = boot_state\<lparr>last_seq := 2, ring := [(line1, 33), (line2, 35)], ring_bytes := 68, tasks := ts\<rparr>"

definition both_written :: slog where
  "both_written = (two_events [])\<lparr>written_seq := 2, file_bytes := 68, cur_file := Some (line_of line1 @ line_of line2),
     disk_meta := Some (2, 1, False)\<rparr>"

lemma step_begin: "hub_step 1000 json (one_socket boot_state None S RpLog) (TriesReplay 0) =
   one_socket (boot_state\<lparr>tasks := [TakeSnapshot 0]\<rparr>) (Some []) S RpSnap"
  by (simp add: one_socket_def boot_state_def try_replay_def replay_waits_def on_port_def on_replay_def)

lemma line2_length: "length (line_of line2) = 35"
  by (simp add: line_length dec_digit line2_def)

lemma step_record: "hub_step 1000 json (one_socket (boot_state\<lparr>tasks := ts\<rparr>) q S ph) (Records 7 ''turn_end\"}'' True) =
   one_socket (two_events (ts @ [WriteEvent line2 True])) q S ph"
  by (simp add: one_socket_def boot_state_def two_events_def append_event_def remember_def Let_def line2_length
      RING_def RING_BYTES_def line2_eq)

lemma step_snapshot: "hub_step 1000 json (one_socket (two_events (TakeSnapshot 0 # ts)) q S ph) (LogAdvances io) =
   one_socket (two_events ts) q S (RpStream (take_snapshot (two_events ts)) [])"
  by (simp add: one_socket_def two_events_def boot_state_def log_advances_def log_goes_def Let_def on_replay_def grows_def split: replay_phase.split)

lemma step_write: "hub_step 1000 json (one_socket (two_events [WriteEvent line2 True]) q S ph) (LogAdvances io_fine) =
   (case q of Some es \<Rightarrow> one_socket both_written (Some (es @ [line2])) S (rp_phase (grows [line2] \<lparr>rp_port = 0, rp_after = 0, rp_phase = ph\<rparr>))
    | None \<Rightarrow> one_socket both_written None (S @ [(line2, False)]) (rp_phase (grows [line2] \<lparr>rp_port = 0, rp_after = 0, rp_phase = ph\<rparr>)))"
  by (simp add: one_socket_def two_events_def both_written_def boot_state_def log_advances_def log_eval line_length dec_digit
      line2_def [symmetric] fan_out_def deliver_def shown_lines split: option.split)
    (simp add: grows_def shown_lines line2_def ev_kind_def shown_def dec_digit split: replay_phase.split)

lemma boot_state_is: "fst (log_run 1000 fresh_log before_boot) = boot_state"
  by (simp add: boot_log boot_state_def)

lemma start_is: "sockets 1000 read_lines before_boot [PortOpens, Attaches 0 0] = one_socket boot_state None [] RpLog"
  by (simp add: port_sample_start boot_state_is one_socket_def)

lemma sample_end: "sockets 1000 read_lines before_boot ([PortOpens, Attaches 0 0] @ TriesReplay 0 # during_replay) =
   one_socket both_written None [(line1, True), (line2, False)] (RpDone 1 False)"
proof -
  have "hub_run 1000 read_lines (one_socket boot_state None [] RpLog) [TriesReplay 0, Records 7 ''turn_end\"}'' True, LogAdvances io_fine, LogAdvances io_fine] =
      one_socket both_written (Some [line2]) [] (RpStream (take_snapshot (two_events [WriteEvent line2 True])) [line2])"
    by (simp add: hub_run_def step_begin step_record step_snapshot step_write grows_def del: hub_step.simps)
  then show ?thesis using start_is
    by (simp add: sockets_def hub_run_def during_replay_def)
      (simp add: hub_eval one_socket_def two_events_def boot_state_def shown_lines)
qed

theorem attach_exactly_once_witness:
  "map fst (pt_sent (port_of 0 (sockets 1000 read_lines before_boot ([PortOpens, Attaches 0 0] @ TriesReplay 0 # during_replay)))) =
   filter (\<lambda>e. shown e \<and> 0 < ev_seq e)
     (on_disk 1000 read_lines before_boot ([PortOpens, Attaches 0 0] @ TriesReplay 0 # during_replay))"
proof -
  have ne: "text_of line2 \<noteq> text_of line1" using line_prefix_text [of line1] line_prefix_text [of line2]
    by (auto simp: shown_lines)
  have h0: "hub_run 1000 read_lines (hub_init boot_state) [PortOpens, Attaches 0 0] = one_socket boot_state None [] RpLog"
    using start_is by (simp add: sockets_def boot_state_is)
  have "hub_history 1000 read_lines (one_socket boot_state None [] RpLog) (TriesReplay 0 # during_replay) = [line2]"
    by (simp add: during_replay_def step_begin step_record step_snapshot step_write hub_landed_def del: hub_step.simps)
      (simp add: one_socket_def two_events_def boot_state_def io_fine_def)
  then have h: "hub_history 1000 read_lines (hub_init (fst (log_run 1000 fresh_log before_boot))) ([PortOpens, Attaches 0 0] @ TriesReplay 0 # during_replay) = [line2]"
    unfolding hub_history_append boot_state_is h0 by (simp add: hub_landed_def hub_init_def attach_def)
  have d: "on_disk 1000 read_lines before_boot ([PortOpens, Attaches 0 0] @ TriesReplay 0 # during_replay) = [line1, line2]"
    by (simp add: on_disk_def boot_history h del: append.simps)
  have w: "list_all io_whole before_boot" by (simp add: before_boot_def io_fine_def)
  have i: "list_all input_whole ([PortOpens, Attaches 0 0] @ TriesReplay 0 # during_replay)"
    by (simp add: during_replay_def input_whole_def io_fine_def)
  have g: "list_all ev_good [line1, line2]" by (simp add: ev_good_def ev_clean_def line1_def line2_def)
  have j: "reads_back read_lines [line1, line2]" using ne by (simp add: reads_back_def read_lines_def)
  have s: "starts 0 (one_socket boot_state None [] RpLog)" by (simp add: starts_def one_socket_def replay_waits_def)
  have l: "lone_replay 0 p limit read_lines h during_replay" for p limit h
    by (simp add: during_replay_def starts_other_def)
  have n: "snap_tasks (tasks boot_state) = []" by (simp add: boot_state_def)
  have ph: "rp_phase (hb_replays (one_socket b q S (RpDone 1 False)) ! 0) = RpDone 1 False" "pt_open (port_of 0 (one_socket b q S x))"
    "pt_sent (port_of 0 (one_socket b q S x)) = S" "rp_after (hb_replays (one_socket b q S x) ! 0) = 0" for b q S x
    by (simp_all add: one_socket_def port_of_def)
  note T = attach_exactly_once [of before_boot 1000 "[PortOpens, Attaches 0 0]" 0 during_replay read_lines 1 False, OF w _ i _ _ _ l,
      unfolded d sample_end start_is boot_state_is ph, OF n g j s refl ph(2)]
  from T obtain got where "[(line1, True), (line2, False)] = [] @ got" "map fst got = filter (\<lambda>e. shown e \<and> 0 < ev_seq e) [line1, line2]"
    by auto
  then show ?thesis unfolding d sample_end ph by simp
qed

text \<open>A socket that loads a conversation the engine has yet to resume is attached before its replay starts: the end of a
  turn that is written meanwhile reaches it live, and then again by the replay.\<close>

definition during_load :: "hub_event list" where
  "during_load = [Records 7 ''turn_end\"}'' True, LogAdvances io_fine, TriesReplay 0, LogAdvances io_fine, Reads 0 0, SendsNext 0,
     SendsNext 0, SendsNext 0]"

lemma load_sends_twice:
  "pt_sent (port_of 0 (sockets 1000 read_lines before_boot ([PortOpens, Attaches 0 0] @ during_load))) =
   [(line2, False), (line1, True), (line2, True)]"
proof -
  have "hub_run 1000 read_lines (one_socket boot_state None [] RpLog) [Records 7 ''turn_end\"}'' True, LogAdvances io_fine] =
      one_socket both_written None [(line2, False)] RpLog"
    using step_record [of read_lines "[]"] by (simp add: hub_run_def step_write grows_def boot_state_def del: hub_step.simps)
  then have "sockets 1000 read_lines before_boot ([PortOpens, Attaches 0 0] @ during_load) =
      hub_run 1000 read_lines (one_socket both_written None [(line2, False)] RpLog) (drop 2 during_load)"
    using start_is by (simp add: sockets_def hub_run_def during_load_def)
  then show ?thesis
    by (simp add: hub_run_def during_load_def one_socket_def both_written_def two_events_def boot_state_def try_replay_def
        replay_waits_def on_port_def on_replay_def log_advances_def log_goes_def Let_def grows_def replay_reads_def take_snapshot_def
        replay_truncated_def replay_events_def shown_lines replay_sends_def deliver_def flush_queue_def port_of_def)
qed

text \<open>A replay that fails drops what was queued behind it, and the socket stays attached: it is sent the events after those,
  but never them.\<close>

definition failing_replay :: "hub_event list" where
  "failing_replay = [TriesReplay 0, Records 7 ''turn_end\"}'' True, LogAdvances io_fine, LogAdvances io_fine, ReplayFails 0]"

lemma failed_replay_drops:
  "sockets 1000 read_lines before_boot ([PortOpens, Attaches 0 0] @ failing_replay) = one_socket both_written None [] RpFailed"
proof -
  have "hub_run 1000 read_lines (one_socket boot_state None [] RpLog) failing_replay = one_socket both_written None [] RpFailed"
    by (simp add: failing_replay_def hub_run_def step_begin step_record step_snapshot step_write grows_def del: hub_step.simps)
      (simp add: one_socket_def replay_fails_def on_replay_def on_port_def)
  then show ?thesis using start_is by (simp add: sockets_def hub_run_def)
qed

end
