(* ===== verification/Broker_Children.thy ===== *)
theory Broker_Children
  imports Js_Value Ordered_Map
begin

text \<open>
  Which call of the orchestrator started which specialist (runtime/lib/session-broker.js: \<open>#childFrame\<close>,
  \<open>#trackSubagentCall\<close>, \<open>#linkChild\<close>, \<open>#setLink\<close>, \<open>#relinkFrame\<close>). The engine does not say; the broker guesses by
  order and corrects the guess when a call's result names its child. An empty \<open>cl_child\<close> is \<open>null\<close>, an empty
  \<open>cl_desc\<close> too (the code only tests them for truth). \<open>nt\<close> is \<open>String(n)\<close> of a number and \<open>number\<close> is
  \<open>Number(v)\<close>, with NaN as 0.
\<close>

record child_node =
  nd_parent :: js
  nd_depth :: rat
  nd_title :: js
  nd_status :: js
  nd_call :: js

record sub_call =
  cl_session :: string
  cl_id :: js
  cl_desc :: string
  cl_running :: bool
  cl_child :: string
  cl_order :: nat

record links =
  lk_root :: string
  lk_children :: "(string, child_node) omap"
  lk_calls :: "(string, sub_call) omap"
  lk_order :: nat

definition no_links :: "string \<Rightarrow> links" where
  "no_links i = \<lparr>lk_root = i, lk_children = [], lk_calls = [], lk_order = 0\<rparr>"

text \<open>The key \<open>sessionId\0toolCallId\<close>.\<close>

definition call_key :: "(rat \<Rightarrow> string) \<Rightarrow> string \<Rightarrow> js \<Rightarrow> string" where
  "call_key nt s t = s @ CHR 0x00 # js_text nt t"

definition key_of :: "(rat \<Rightarrow> string) \<Rightarrow> sub_call \<Rightarrow> string" where
  "key_of nt c = call_key nt (cl_session c) (cl_id c)"

subsection \<open>Guessing\<close>

text \<open>The candidate: a running, unclaimed call, by its description or else the oldest.\<close>

definition guess_call :: "child_node \<Rightarrow> sub_call list \<Rightarrow> sub_call option" where
  "guess_call node own =
    (let cands = sort_key cl_order (filter (\<lambda>c. cl_running c \<and> cl_child c = []) own) in
     case List.find (\<lambda>c. cl_desc c \<noteq> [] \<and> JStr (cl_desc c) = nd_title node) cands of
       Some c \<Rightarrow> Some c
     | None \<Rightarrow> (case cands of [] \<Rightarrow> None | c # _ \<Rightarrow> Some c))"

definition own_calls :: "child_node \<Rightarrow> links \<Rightarrow> sub_call list" where
  "own_calls node s = filter (\<lambda>c. JStr (cl_session c) = nd_parent node) (map snd (lk_calls s))"

definition link_child :: "(rat \<Rightarrow> string) \<Rightarrow> string \<Rightarrow> child_node \<Rightarrow> links \<Rightarrow> links \<times> js" where
  "link_child nt i node s =
    (case List.find (\<lambda>c. cl_child c = i) (own_calls node s) of
       Some c \<Rightarrow> (s, cl_id c)
     | None \<Rightarrow>
        (case guess_call node (own_calls node s) of
           Some c \<Rightarrow> (s\<lparr>lk_calls := om_set (key_of nt c) (c\<lparr>cl_child := i\<rparr>) (lk_calls s)\<rparr>, cl_id c)
         | None \<Rightarrow> (s, JNull)))"

subsection \<open>Correcting\<close>

text \<open>\<open>#setLink\<close>, with the children whose link changed.\<close>

definition free_others :: "string \<Rightarrow> string \<Rightarrow> (string, sub_call) omap \<Rightarrow> (string, sub_call) omap" where
  "free_others k i = map (\<lambda>(k', c). (k', if k' \<noteq> k \<and> cl_child c = i then c\<lparr>cl_child := []\<rparr> else c))"

definition displace :: "(rat \<Rightarrow> string) \<Rightarrow> string \<Rightarrow> js \<Rightarrow> links \<Rightarrow> links \<times> string list" where
  "displace nt old t s =
    (case (if old = [] then None else om_get (lk_children s) old) of
       None \<Rightarrow> (s, [])
     | Some d \<Rightarrow>
        if nd_call d = t then
          (case link_child nt old d s of
             (s1, t1) \<Rightarrow> (s1\<lparr>lk_children := om_set old (d\<lparr>nd_call := t1\<rparr>) (lk_children s1)\<rparr>, [old]))
        else (s, []))"

definition over :: "js \<Rightarrow> bool" where
  "over v \<longleftrightarrow> v \<in> {JStr ''completed'', JStr ''interrupted'', JStr ''failed''}"

definition set_link :: "(rat \<Rightarrow> string) \<Rightarrow> string \<Rightarrow> string \<Rightarrow> bool \<Rightarrow> links \<Rightarrow> links \<times> string list" where
  "set_link nt k i resume s =
    (case om_get (lk_calls s) k of
       None \<Rightarrow> (s, [])
     | Some call \<Rightarrow>
        (case (if cl_child call \<noteq> i
               then displace nt (cl_child call) (cl_id call)
                      (s\<lparr>lk_calls := om_set k (call\<lparr>cl_child := i\<rparr>) (free_others k i (lk_calls s))\<rparr>)
               else (s, [])) of
           (s1, changed) \<Rightarrow>
             (case om_get (lk_children s1) i of
                Some node \<Rightarrow>
                  if nd_call node \<noteq> cl_id call
                  then (s1\<lparr>lk_children := om_set i (node\<lparr>nd_call := cl_id call,
                          nd_status := (if resume \<and> over (nd_status node) then JNull else nd_status node)\<rparr>) (lk_children s1)\<rparr>,
                        changed @ [i])
                  else (s1, changed)
              | None \<Rightarrow> (s1, changed))))"

definition ends_with :: "string \<Rightarrow> string \<Rightarrow> bool" where
  "ends_with s p \<longleftrightarrow> suffix p s"

text \<open>The engine sends \<open>rawInput\<close> as an object: for a nonempty string \<open>in\<close> throws a TypeError, which is left out.\<close>

definition is_subagent :: "(rat \<Rightarrow> string) \<Rightarrow> js \<Rightarrow> bool" where
  "is_subagent nt u =
    (let title = js_text nt (js_or_null (js_field u ''title'') (JStr [])) in
     title = ''subagent'' \<or> ends_with title '': subagent'' \<or>
     (js_field u ''kind'' = JStr ''think'' \<and> truthy (js_field u ''rawInput'') \<and>
      js_field (js_field u ''rawInput'') ''agent'' \<noteq> JUndef))"

text \<open>The call an update is about, with what the update says of it.\<close>

definition raw_input :: "js \<Rightarrow> js" where
  "raw_input u = (if is_objlike (js_field u ''rawInput'') then js_field u ''rawInput'' else JNull)"

definition noted_call :: "(rat \<Rightarrow> string) \<Rightarrow> string \<Rightarrow> js \<Rightarrow> links \<Rightarrow> sub_call" where
  "noted_call nt i u s =
    (let t = js_field u ''toolCallId'';
         call = (case om_get (lk_calls s) (call_key nt i t) of Some c \<Rightarrow> c
                 | None \<Rightarrow> \<lparr>cl_session = i, cl_id = t, cl_desc = [], cl_running = False, cl_child = [], cl_order = lk_order s\<rparr>);
         d = js_field (raw_input u) ''description''
     in call\<lparr>cl_desc := (if truthy d then js_text nt d else cl_desc call),
             cl_running := (js_field u ''status'' = JStr ''in_progress'' \<or> cl_running call)\<rparr>)"

definition note_call :: "(rat \<Rightarrow> string) \<Rightarrow> string \<Rightarrow> js \<Rightarrow> links \<Rightarrow> links" where
  "note_call nt i u s =
    (let k = call_key nt i (js_field u ''toolCallId'') in
     s\<lparr>lk_calls := om_set k (noted_call nt i u s) (lk_calls s),
       lk_order := (if om_get (lk_calls s) k = None then lk_order s + 1 else lk_order s)\<rparr>)"

definition ignored_update :: "(rat \<Rightarrow> string) \<Rightarrow> string \<Rightarrow> js \<Rightarrow> links \<Rightarrow> bool" where
  "ignored_update nt i u s \<longleftrightarrow>
    js_field u ''sessionUpdate'' \<notin> {JStr ''tool_call'', JStr ''tool_call_update''} \<or> \<not> truthy (js_field u ''toolCallId'') \<or>
    (om_get (lk_calls s) (call_key nt i (js_field u ''toolCallId'')) = None \<and> \<not> is_subagent nt u)"

text \<open>\<open>#trackSubagentCall\<close>; the result names the children whose link changed.\<close>

definition track_call :: "(rat \<Rightarrow> string) \<Rightarrow> string \<Rightarrow> js \<Rightarrow> links \<Rightarrow> links \<times> string list" where
  "track_call nt i u s =
    (if ignored_update nt i u s then (s, [])
     else
       (let k = call_key nt i (js_field u ''toolCallId'');
            resumed = js_field (raw_input u) ''sessionID'';
            confirmed = js_field (js_field (js_field u ''rawOutput'') ''metadata'') ''sessionID'';
            s1 = note_call nt i u s;
            r1 = (if truthy resumed \<and> cl_child (noted_call nt i u s) = [] then set_link nt k (js_text nt resumed) True s1
                  else (s1, []));
            r2 = (if truthy confirmed then set_link nt k (js_text nt confirmed) False (fst r1) else (fst r1, []));
            s2 = (if js_field u ''status'' \<in> {JStr ''completed'', JStr ''failed''}
                  then (fst r2)\<lparr>lk_calls := om_delete k (lk_calls (fst r2))\<rparr> else fst r2)
        in (s2, snd r1 @ snd r2)))"

subsection \<open>Frames\<close>

record child_frame =
  cf_session :: string
  cf_node :: child_node \<comment> \<open>\<open>child\<close>: parent, depth, title, toolCallId\<close>
  cf_type :: string
  cf_status :: js
  cf_error :: js
  cf_update :: js
  cf_relinked :: bool

definition relink_frame :: "links \<Rightarrow> string \<Rightarrow> child_frame list" where
  "relink_frame s i =
    (case om_get (lk_children s) i of
       Some n \<Rightarrow> [\<lparr>cf_session = i, cf_node = n, cf_type = ''status'', cf_status = nd_status n, cf_error = JUndef,
                   cf_update = JUndef, cf_relinked = True\<rparr>]
     | None \<Rightarrow> [])"

definition relink_frames :: "links \<Rightarrow> string list \<Rightarrow> child_frame list" where
  "relink_frames s is = concat (map (relink_frame s) is)"

text \<open>An update of the root session: the frames that follow it.\<close>

definition root_update :: "(rat \<Rightarrow> string) \<Rightarrow> js \<Rightarrow> links \<Rightarrow> links \<times> child_frame list" where
  "root_update nt u s = (case track_call nt (lk_root s) u s of (s1, changed) \<Rightarrow> (s1, relink_frames s1 changed))"

definition find_child :: "(rat \<Rightarrow> string) \<Rightarrow> (js \<Rightarrow> rat) \<Rightarrow> string \<Rightarrow> js \<Rightarrow> links \<Rightarrow> links \<times> child_node" where
  "find_child nt number i ps s =
    (case om_get (lk_children s) i of
       Some n \<Rightarrow> (s, n)
     | None \<Rightarrow>
        (let n = \<lparr>nd_parent = js_or_null (js_field ps ''parentSessionId'') (JStr (lk_root s)),
                  nd_depth = (if number (js_field ps ''depth'') = 0 then 1 else number (js_field ps ''depth'')),
                  nd_title = js_or_null (js_field ps ''title'') JNull, nd_status = JNull, nd_call = JNull\<rparr>;
             r = link_child nt i n (s\<lparr>lk_children := om_set i n (lk_children s)\<rparr>);
             n1 = n\<lparr>nd_call := snd r\<rparr>
         in ((fst r)\<lparr>lk_children := om_set i n1 (lk_children (fst r))\<rparr>, n1)))"

text \<open>\<open>#childFrame\<close> and the frames \<open>#onEngineChild\<close> sends for it, in order.\<close>

definition child_update :: "(rat \<Rightarrow> string) \<Rightarrow> (js \<Rightarrow> rat) \<Rightarrow> js \<Rightarrow> links \<Rightarrow> links \<times> child_frame list" where
  "child_update nt number ps s =
    (let i = js_text nt (js_or_null (js_field ps ''childSessionId'') (JStr [])) in
     if i = [] then (s, [])
     else (case find_child nt number i ps s of (s1, n1) \<Rightarrow>
       (let n2 = (if \<not> truthy (nd_title n1) \<and> truthy (js_field ps ''title'') then n1\<lparr>nd_title := js_field ps ''title''\<rparr> else n1);
            is_status = (js_field ps ''type'' = JStr ''status'');
            st = js_or_null (js_field ps ''status'') JNull;
            n3 = (if is_status then n2\<lparr>nd_status := st\<rparr> else n2);
            s2 = s1\<lparr>lk_children := om_set i n3 (lk_children s1)\<rparr>;
            u = js_field ps ''update'';
            has = (\<not> is_status \<and> is_objlike u);
            r = (if has then track_call nt i u s2 else (s2, []));
            frame = \<lparr>cf_session = i, cf_node = n2, cf_type = (if is_status then ''status'' else ''update''),
                     cf_status = (if is_status then st else JUndef),
                     cf_error = (if is_status then js_field ps ''error'' else JUndef),
                     cf_update = (if has then u else JUndef), cf_relinked = False\<rparr>
        in (fst r, frame # relink_frames (fst r) (snd r)))))"

text \<open>A turn's end forgets them.\<close>

definition clear_links :: "links \<Rightarrow> links" where
  "clear_links s = s\<lparr>lk_children := [], lk_calls := []\<rparr>"

datatype link_event = RootUpdate js | ChildUpdate js | TurnEnds

fun link_step :: "(rat \<Rightarrow> string) \<Rightarrow> (js \<Rightarrow> rat) \<Rightarrow> links \<Rightarrow> link_event \<Rightarrow> links \<times> child_frame list" where
  "link_step nt number s (RootUpdate u) = root_update nt u s"
| "link_step nt number s (ChildUpdate ps) = child_update nt number ps s"
| "link_step nt number s TurnEnds = (clear_links s, [])"

end
