(* ===== verification/Children_Props.thy ===== *)
theory Children_Props
  imports Broker_Children Run_System
begin

text \<open>
  The links of specialists to their calls (runtime/lib/session-broker.js): no two live calls of a session claim the same
  child, a child names the call that claims it, and a client that keeps the last link of every child it was sent has the
  broker's links.
\<close>

subsection \<open>The invariant\<close>

definition calls_ok :: "(rat \<Rightarrow> string) \<Rightarrow> links \<Rightarrow> bool" where
  "calls_ok nt s \<longleftrightarrow> om_ok (lk_calls s) \<and>
     (\<forall>k c. om_get (lk_calls s) k = Some c \<longrightarrow> k = key_of nt c) \<and>
     (\<forall>k c k' c'. om_get (lk_calls s) k = Some c \<longrightarrow> om_get (lk_calls s) k' = Some c' \<longrightarrow>
        cl_session c = cl_session c' \<longrightarrow> cl_child c = cl_child c' \<longrightarrow> cl_child c \<noteq> [] \<longrightarrow> k = k')"

lemma calls_okI:
  assumes "om_ok (lk_calls s)" "\<And>k c. om_get (lk_calls s) k = Some c \<Longrightarrow> k = key_of nt c"
    "\<And>k c k' c'. om_get (lk_calls s) k = Some c \<Longrightarrow> om_get (lk_calls s) k' = Some c' \<Longrightarrow> cl_session c = cl_session c' \<Longrightarrow>
      cl_child c = cl_child c' \<Longrightarrow> cl_child c \<noteq> [] \<Longrightarrow> k = k'"
  shows "calls_ok nt s"
  unfolding calls_ok_def using assms by blast

lemma calls_okD:
  assumes "calls_ok nt s"
  shows "om_ok (lk_calls s)" "om_get (lk_calls s) k = Some c \<Longrightarrow> k = key_of nt c"
    "om_get (lk_calls s) k = Some c \<Longrightarrow> om_get (lk_calls s) k' = Some c' \<Longrightarrow> cl_session c = cl_session c' \<Longrightarrow>
      cl_child c = cl_child c' \<Longrightarrow> cl_child c \<noteq> [] \<Longrightarrow> k = k'"
  using assms unfolding calls_ok_def by blast+

lemma find_in: "List.find P xs = Some x \<Longrightarrow> x \<in> set xs \<and> P x"
  by (induction xs) (auto split: if_splits)

lemma find_none: "List.find P xs = None \<Longrightarrow> x \<in> set xs \<Longrightarrow> \<not> P x"
  by (induction xs) (auto split: if_splits)

lemma call_get:
  assumes "calls_ok nt s" "c \<in> set (map snd (lk_calls s))"
  shows "om_get (lk_calls s) (key_of nt c) = Some c"
proof -
  obtain k where "(k, c) \<in> set (lk_calls s)" using assms(2) by auto
  then have "om_get (lk_calls s) k = Some c" by (rule om_mem_get [OF calls_okD(1) [OF assms(1)]])
  then show ?thesis using calls_okD(2) [OF assms(1)] by blast
qed

lemma head_in: "(case xs of [] \<Rightarrow> None | x # _ \<Rightarrow> Some x) = Some c \<Longrightarrow> c \<in> set xs"
  by (cases xs) simp_all

lemma guess_call_in: "guess_call node own = Some c \<Longrightarrow> c \<in> set own \<and> cl_child c = []"
proof -
  let ?cands = "sort_key cl_order (filter (\<lambda>c. cl_running c \<and> cl_child c = []) own)"
  assume "guess_call node own = Some c"
  then have "c \<in> set ?cands" unfolding guess_call_def Let_def
  proof (cases "List.find (\<lambda>c. cl_desc c \<noteq> [] \<and> JStr (cl_desc c) = nd_title node) ?cands")
    case (Some x)
    then show ?thesis using find_in [OF Some] \<open>guess_call node own = Some c\<close> by (simp add: guess_call_def)
  next
    case None
    then have "(case ?cands of [] \<Rightarrow> None | c # _ \<Rightarrow> Some c) = Some c"
      using \<open>guess_call node own = Some c\<close> by (simp add: guess_call_def)
    then show ?thesis by (rule head_in)
  qed
  then show ?thesis by simp
qed

text \<open>\<open>#linkChild\<close> answers with the claim there is, or makes one on a call that had none.\<close>

lemma link_child_cases:
  assumes ok: "calls_ok nt s"
  obtains (claimed) c where "link_child nt i node s = (s, cl_id c)" "om_get (lk_calls s) (key_of nt c) = Some c"
      "JStr (cl_session c) = nd_parent node" "cl_child c = i"
  | (guessed) c where "link_child nt i node s = (s\<lparr>lk_calls := om_set (key_of nt c) (c\<lparr>cl_child := i\<rparr>) (lk_calls s)\<rparr>, cl_id c)"
      "om_get (lk_calls s) (key_of nt c) = Some c" "JStr (cl_session c) = nd_parent node" "cl_child c = []"
      "\<And>k x. om_get (lk_calls s) k = Some x \<Longrightarrow> JStr (cl_session x) = nd_parent node \<Longrightarrow> cl_child x \<noteq> i"
  | (free) "link_child nt i node s = (s, JNull)"
      "\<And>k x. om_get (lk_calls s) k = Some x \<Longrightarrow> JStr (cl_session x) = nd_parent node \<Longrightarrow> cl_child x \<noteq> i"
proof (cases "List.find (\<lambda>c. cl_child c = i) (own_calls node s)")
  case (Some c)
  then have c: "c \<in> set (own_calls node s)" "cl_child c = i" using find_in [OF Some] by simp_all
  then have "om_get (lk_calls s) (key_of nt c) = Some c" using call_get [OF ok] by (simp add: own_calls_def)
  then show ?thesis using Some c by (intro claimed [of c]) (simp_all add: link_child_def own_calls_def)
next
  case None
  have no: "cl_child x \<noteq> i" if "om_get (lk_calls s) k = Some x" "JStr (cl_session x) = nd_parent node" for k x
  proof -
    have "x \<in> set (own_calls node s)" using om_get_mem [OF that(1)] that(2) by (force simp: own_calls_def)
    then show ?thesis using find_none [OF None] by blast
  qed
  show ?thesis
  proof (cases "guess_call node (own_calls node s)")
    case (Some c)
    then have c: "c \<in> set (own_calls node s)" "cl_child c = []" using guess_call_in by blast+
    then have "om_get (lk_calls s) (key_of nt c) = Some c" using call_get [OF ok] by (simp add: own_calls_def)
    then show ?thesis using Some None no c by (intro guessed [of c]) (simp_all add: link_child_def own_calls_def)
  next
    case none: None
    then show ?thesis using None no by (intro free) (simp_all add: link_child_def)
  qed
qed

lemma link_child_frame:
  assumes ok: "calls_ok nt s"
  shows "lk_children (fst (link_child nt i node s)) = lk_children s" "lk_root (fst (link_child nt i node s)) = lk_root s"
    "om_get (lk_calls (fst (link_child nt i node s))) k = None \<longleftrightarrow> om_get (lk_calls s) k = None"
    "om_get (lk_calls (fst (link_child nt i node s))) k = Some c \<Longrightarrow> cl_child c \<noteq> i \<Longrightarrow> om_get (lk_calls s) k = Some c"
  by (cases rule: link_child_cases [OF ok, of i node]; auto split: if_splits)+

lemma link_child_names:
  assumes ok: "calls_ok nt s" and i: "i \<noteq> []"
    and c: "om_get (lk_calls (fst (link_child nt i node s))) k = Some c" "JStr (cl_session c) = nd_parent node" "cl_child c = i"
  shows "cl_id c = snd (link_child nt i node s)"
  using ok
proof (cases rule: link_child_cases [where i = i and node = node])
  case (claimed c0)
  have "cl_session c = cl_session c0" using c(2) claimed(3) by (metis js.inject(4))
  moreover have "om_get (lk_calls s) k = Some c" using c(1) claimed(1) by simp
  ultimately have "k = key_of nt c0" using calls_okD(3) [OF ok _ claimed(2)] c(3) claimed(4) i by simp
  then show ?thesis using c(1) claimed(1,2) by simp
next
  case (guessed c0)
  show ?thesis
  proof (cases "k = key_of nt c0")
    case False
    then have "om_get (lk_calls s) k = Some c" using c(1) guessed(1) by simp
    then show ?thesis using guessed(5) c(2,3) by blast
  qed (use c(1) guessed(1) in auto)
next
  case free
  then show ?thesis using c by auto
qed

lemma link_child_calls_ok:
  assumes ok: "calls_ok nt s" and i: "i \<noteq> []"
  shows "calls_ok nt (fst (link_child nt i node s))"
  using ok
proof (cases rule: link_child_cases [where i = i and node = node])
  case (guessed c0)
  let ?m = "om_set (key_of nt c0) (c0\<lparr>cl_child := i\<rparr>) (lk_calls s)" and ?s = "s\<lparr>lk_calls := om_set (key_of nt c0) (c0\<lparr>cl_child := i\<rparr>) (lk_calls s)\<rparr>"
  have key: "key_of nt (c0\<lparr>cl_child := i\<rparr>) = key_of nt c0" by (simp add: key_of_def)
  have one: "k = k'" if a: "om_get (lk_calls ?s) k = Some x" "om_get (lk_calls ?s) k' = Some y" "cl_session x = cl_session y" "cl_child x = cl_child y"
    "cl_child x \<noteq> []" for k k' x y
  proof -
    consider "k = key_of nt c0" "k' = key_of nt c0" | "k = key_of nt c0" "k' \<noteq> key_of nt c0" | "k \<noteq> key_of nt c0" "k' = key_of nt c0"
      | "k \<noteq> key_of nt c0" "k' \<noteq> key_of nt c0" by blast
    then show ?thesis
    proof cases
      case 2
      then have "x = c0\<lparr>cl_child := i\<rparr>" "om_get (lk_calls s) k' = Some y" using a(1,2) by auto
      then show ?thesis using guessed(3) guessed(5) [of k' y] a(3,4) by simp
    next
      case 3
      then have "y = c0\<lparr>cl_child := i\<rparr>" "om_get (lk_calls s) k = Some x" using a(1,2) by auto
      then show ?thesis using guessed(3) guessed(5) [of k x] a(3,4) by simp
    next
      case 4
      then have "om_get (lk_calls s) k = Some x" "om_get (lk_calls s) k' = Some y" using a(1,2) by auto
      then show ?thesis using calls_okD(3) [OF ok _ _ a(3-5)] by blast
    qed simp
  qed
  have keys: "k = key_of nt c" if "om_get (lk_calls ?s) k = Some c" for k c
    using that calls_okD(2) [OF ok, of k c] key by (auto split: if_splits)
  have "om_ok (lk_calls ?s)" using calls_okD(1) [OF ok] by simp
  then have "calls_ok nt ?s" using keys one by (rule calls_okI)
  then show ?thesis using guessed(1) by simp
qed (use ok in simp_all)

subsection \<open>Corrections\<close>

lemma om_get_free: "om_get (free_others k i m) k' =
   map_option (\<lambda>c. if k' \<noteq> k \<and> cl_child c = i then c\<lparr>cl_child := []\<rparr> else c) (om_get m k')"
  by (induction m) (auto simp: free_others_def om_get_def)

lemma om_ok_free: "om_ok m \<Longrightarrow> om_ok (free_others k i m)"
  by (simp add: free_others_def om_ok_def case_prod_beta comp_def)

text \<open>The calls once \<open>k\<close> claims \<open>i\<close> and nobody else does.\<close>

definition claim :: "string \<Rightarrow> string \<Rightarrow> sub_call \<Rightarrow> links \<Rightarrow> links" where
  "claim k i call s = s\<lparr>lk_calls := om_set k (call\<lparr>cl_child := i\<rparr>) (free_others k i (lk_calls s))\<rparr>"

definition only_claims :: "string \<Rightarrow> string \<Rightarrow> links \<Rightarrow> bool" where
  "only_claims k i s \<longleftrightarrow> (\<forall>k' c. om_get (lk_calls s) k' = Some c \<longrightarrow> cl_child c = i \<longrightarrow> k' = k)"

lemma claim_get: "om_get (lk_calls (claim k i call s)) k' =
   (if k' = k then Some (call\<lparr>cl_child := i\<rparr>)
    else map_option (\<lambda>c. if cl_child c = i then c\<lparr>cl_child := []\<rparr> else c) (om_get (lk_calls s) k'))"
  by (simp add: claim_def om_get_free)

lemma claim_simps [simp]: "lk_children (claim k i call s) = lk_children s" "lk_root (claim k i call s) = lk_root s"
  "lk_order (claim k i call s) = lk_order s"
  by (simp_all add: claim_def)

lemma claim_others:
  assumes "om_get (lk_calls (claim k i call s)) k' = Some c" "k' \<noteq> k" "cl_child c \<noteq> []"
  shows "om_get (lk_calls s) k' = Some c" "cl_child c \<noteq> i"
proof -
  obtain c0 where c0: "om_get (lk_calls s) k' = Some c0" "c = (if cl_child c0 = i then c0\<lparr>cl_child := []\<rparr> else c0)"
    using assms(1,2) by (auto simp: claim_get)
  then have "cl_child c0 \<noteq> i" using assms(3) by auto
  then show "om_get (lk_calls s) k' = Some c" "cl_child c \<noteq> i" using c0 by simp_all
qed

lemma claim_ok:
  assumes ok: "calls_ok nt s" and c: "om_get (lk_calls s) k = Some call"
  shows "calls_ok nt (claim k i call s)" "i \<noteq> [] \<Longrightarrow> only_claims k i (claim k i call s)"
proof -
  have key: "key_of nt (c\<lparr>cl_child := x\<rparr>) = key_of nt c" for c x by (simp add: key_of_def)
  have keys: "k' = key_of nt x" if "om_get (lk_calls (claim k i call s)) k' = Some x" for k' x
    using that calls_okD(2) [OF ok] c key by (auto simp: claim_get split: if_splits)
  show only: "only_claims k i (claim k i call s)" if "i \<noteq> []"
    unfolding only_claims_def using claim_others(2) that by metis
  have "k1 = k2" if a: "om_get (lk_calls (claim k i call s)) k1 = Some x" "om_get (lk_calls (claim k i call s)) k2 = Some y"
    "cl_session x = cl_session y" "cl_child x = cl_child y" "cl_child x \<noteq> []" for k1 k2 x y
  proof (cases "cl_child x = i")
    case True
    then show ?thesis using only a unfolding only_claims_def by (metis (no_types))
  next
    case False
    have "k1 \<noteq> k" "k2 \<noteq> k" using False a by (auto simp: claim_get)
    moreover have "cl_child y \<noteq> []" using a(4,5) by simp
    ultimately have "om_get (lk_calls s) k1 = Some x" "om_get (lk_calls s) k2 = Some y"
      using claim_others(1) [OF a(1)] claim_others(1) [OF a(2)] a(5) by blast+
    then show ?thesis using calls_okD(3) [OF ok _ _ a(3-5)] by blast
  qed
  moreover have "om_ok (lk_calls (claim k i call s))" using om_ok_free [OF calls_okD(1) [OF ok]] by (simp add: claim_def)
  ultimately show "calls_ok nt (claim k i call s)" using keys by (intro calls_okI)
qed

text \<open>\<open>ch\<close> names every child whose link differs.\<close>

definition changed_ok :: "links \<Rightarrow> links \<Rightarrow> string list \<Rightarrow> bool" where
  "changed_ok s s' ch \<longleftrightarrow> (\<forall>i n. om_get (lk_children s') i = Some n \<longrightarrow> i \<notin> set ch \<longrightarrow>
     (\<exists>n0. om_get (lk_children s) i = Some n0 \<and> nd_call n0 = nd_call n))"

lemma changed_same: "lk_children s' = lk_children s \<Longrightarrow> changed_ok s s' ch"
  by (simp add: changed_ok_def)

lemma changed_trans: "changed_ok s s1 c1 \<Longrightarrow> changed_ok s1 s2 c2 \<Longrightarrow> changed_ok s s2 (c1 @ c2)"
  unfolding changed_ok_def set_append by (metis UnI1 UnI2)

lemma calls_ok_children [simp]: "calls_ok nt (s\<lparr>lk_children := x\<rparr>) = calls_ok nt s"
  by (simp add: calls_ok_def)

lemma displace_ok:
  assumes ok: "calls_ok nt s"
  shows "calls_ok nt (fst (displace nt old t s)) \<and> changed_ok s (fst (displace nt old t s)) (snd (displace nt old t s)) \<and>
    lk_root (fst (displace nt old t s)) = lk_root s"
proof (cases "\<exists>d. (if old = [] then None else om_get (lk_children s) old) = Some d \<and> nd_call d = t")
  case False
  then have "displace nt old t s = (s, [])" by (auto simp: displace_def split: option.splits)
  then show ?thesis using ok by (simp add: changed_same)
next
  case True
  then obtain d where d: "old \<noteq> []" "om_get (lk_children s) old = Some d" "nd_call d = t" by (auto split: if_splits)
  let ?r = "link_child nt old d s"
  have "displace nt old t s = ((fst ?r)\<lparr>lk_children := om_set old (d\<lparr>nd_call := snd ?r\<rparr>) (lk_children (fst ?r))\<rparr>, [old])"
    using d by (simp add: displace_def split_beta)
  then show ?thesis using link_child_frame [OF ok, of old d] link_child_calls_ok [OF ok d(1)] by (auto simp: changed_ok_def)
qed

lemma set_link_ok:
  assumes ok: "calls_ok nt s"
  shows "calls_ok nt (fst (set_link nt k i re s)) \<and> changed_ok s (fst (set_link nt k i re s)) (snd (set_link nt k i re s)) \<and>
    lk_root (fst (set_link nt k i re s)) = lk_root s"
proof (cases "om_get (lk_calls s) k")
  case None
  then show ?thesis using ok by (simp add: set_link_def changed_same)
next
  case (Some call)
  define r where "r = (if cl_child call \<noteq> i then displace nt (cl_child call) (cl_id call) (claim k i call s) else (s, []))"
  have r: "calls_ok nt (fst r)" "changed_ok s (fst r) (snd r)" "lk_root (fst r) = lk_root s"
    using ok displace_ok [OF claim_ok(1) [OF ok Some], of "cl_child call" "cl_id call" i]
    by (auto simp: r_def changed_same, simp_all add: changed_ok_def)
  obtain s1 ch where rr: "r = (s1, ch)" by fastforce
  have eq: "set_link nt k i re s = (case om_get (lk_children (fst r)) i of
      Some node \<Rightarrow> if nd_call node \<noteq> cl_id call
        then ((fst r)\<lparr>lk_children := om_set i (node\<lparr>nd_call := cl_id call,
          nd_status := (if re \<and> over (nd_status node) then JNull else nd_status node)\<rparr>) (lk_children (fst r))\<rparr>, snd r @ [i])
        else r
    | None \<Rightarrow> r)"
    using rr by (simp only: set_link_def Some option.case r_def [unfolded claim_def, symmetric] rr prod.case fst_conv snd_conv)
  show ?thesis
  proof (cases "\<exists>node. om_get (lk_children (fst r)) i = Some node \<and> nd_call node \<noteq> cl_id call")
    case True
    then obtain node where n: "om_get (lk_children (fst r)) i = Some node" "nd_call node \<noteq> cl_id call" by blast
    show ?thesis unfolding eq using n r by (auto simp: changed_ok_def)
  qed (use eq r in \<open>auto split: option.splits\<close>)
qed

text \<open>A child that a call's result names is linked to that call.\<close>

lemma set_link_links:
  assumes "om_get (lk_calls s) k = Some call" "om_get (lk_children (fst (set_link nt k i re s))) i = Some n"
  shows "nd_call n = cl_id call"
  using assms by (auto simp: set_link_def split_beta split: option.splits if_splits)

subsection \<open>Updates\<close>

lemma note_call_ok:
  assumes ok: "calls_ok nt s"
  shows "calls_ok nt (note_call nt i u s)" "lk_children (note_call nt i u s) = lk_children s" "lk_root (note_call nt i u s) = lk_root s"
proof -
  let ?k = "call_key nt i (js_field u ''toolCallId'')" and ?s = "note_call nt i u s"
  have c: "key_of nt (noted_call nt i u s) = ?k"
    using calls_okD(2) [OF ok, of ?k] by (auto simp: noted_call_def Let_def key_of_def split: option.splits)
  have old: "om_get (lk_calls s) ?k = Some (c0 k) \<or> cl_child (noted_call nt i u s) = []"
    if "c0 = (\<lambda>k. the (om_get (lk_calls s) ?k))" for c0 k
    using that by (cases "om_get (lk_calls s) ?k") (simp_all add: noted_call_def Let_def)
  show "calls_ok nt ?s"
  proof (rule calls_okI)
    fix k x assume "om_get (lk_calls ?s) k = Some x"
    then show "k = key_of nt x" using c calls_okD(2) [OF ok, of k x] by (auto simp: note_call_def Let_def split: if_splits)
  next
    fix k x k' y assume a: "om_get (lk_calls ?s) k = Some x" "om_get (lk_calls ?s) k' = Some y" "cl_session x = cl_session y"
      "cl_child x = cl_child y" "cl_child x \<noteq> []"
    have past: "\<exists>z0. om_get (lk_calls s) q = Some z0 \<and> cl_session z0 = cl_session z \<and> cl_child z0 = cl_child z"
      if "om_get (lk_calls ?s) q = Some z" "cl_child z \<noteq> []" for q z
      using that by (cases "q = ?k"; cases "om_get (lk_calls s) ?k") (auto simp: note_call_def noted_call_def Let_def)
    obtain x0 y0 where "om_get (lk_calls s) k = Some x0" "om_get (lk_calls s) k' = Some y0" "cl_session x0 = cl_session y0"
      "cl_child x0 = cl_child y0" "cl_child x0 \<noteq> []" using past [OF a(1,5)] past [OF a(2)] a(3-5) by metis
    then show "k = k'" using calls_okD(3) [OF ok] by blast
  qed (use calls_okD(1) [OF ok] in \<open>simp add: note_call_def Let_def\<close>)
qed (simp_all add: note_call_def Let_def)

lemma delete_call_ok:
  assumes ok: "calls_ok nt s"
  shows "calls_ok nt (s\<lparr>lk_calls := om_delete k (lk_calls s)\<rparr>)"
proof (rule calls_okI)
  fix k1 x k2 y assume "om_get (lk_calls (s\<lparr>lk_calls := om_delete k (lk_calls s)\<rparr>)) k1 = Some x"
    "om_get (lk_calls (s\<lparr>lk_calls := om_delete k (lk_calls s)\<rparr>)) k2 = Some y"
    and b: "cl_session x = cl_session y" "cl_child x = cl_child y" "cl_child x \<noteq> []"
  then have "om_get (lk_calls s) k1 = Some x" "om_get (lk_calls s) k2 = Some y" by (simp_all split: if_splits)
  then show "k1 = k2" using calls_okD(3) [OF ok _ _ b] by blast
qed (use calls_okD(1,2) [OF ok] in \<open>simp_all split: if_splits\<close>)

lemma track_call_ok:
  assumes ok: "calls_ok nt s"
  shows "calls_ok nt (fst (track_call nt i u s)) \<and> changed_ok s (fst (track_call nt i u s)) (snd (track_call nt i u s)) \<and>
    lk_root (fst (track_call nt i u s)) = lk_root s"
proof (cases "ignored_update nt i u s")
  case True
  then show ?thesis using ok by (simp add: track_call_def changed_same)
next
  case False
  let ?k = "call_key nt i (js_field u ''toolCallId'')"
  let ?resumed = "js_field (raw_input u) ''sessionID''"
  let ?confirmed = "js_field (js_field (js_field u ''rawOutput'') ''metadata'') ''sessionID''"
  define s1 where "s1 = note_call nt i u s"
  define r1 where "r1 = (if truthy ?resumed \<and> cl_child (noted_call nt i u s) = [] then set_link nt ?k (js_text nt ?resumed) True s1 else (s1, []))"
  define r2 where "r2 = (if truthy ?confirmed then set_link nt ?k (js_text nt ?confirmed) False (fst r1) else (fst r1, []))"
  have n: "calls_ok nt s1" "lk_root s1 = lk_root s" "changed_ok s s1 []"
    using note_call_ok [OF ok] by (simp_all add: s1_def changed_same)
  have 1: "calls_ok nt (fst r1) \<and> changed_ok s1 (fst r1) (snd r1) \<and> lk_root (fst r1) = lk_root s1"
    using set_link_ok [OF n(1)] n(1) by (simp add: r1_def changed_same)
  then have 2: "calls_ok nt (fst r2) \<and> changed_ok (fst r1) (fst r2) (snd r2) \<and> lk_root (fst r2) = lk_root s"
    using set_link_ok [of nt "fst r1"] n(2) by (simp add: r2_def changed_same)
  have "changed_ok s (fst r1) (snd r1)" using changed_trans [OF n(3), of "fst r1" "snd r1"] 1 by simp
  then have *: "changed_ok s (fst r2) (snd r1 @ snd r2)" using changed_trans 2 by blast
  define s2 where "s2 = (if js_field u ''status'' \<in> {JStr ''completed'', JStr ''failed''}
    then (fst r2)\<lparr>lk_calls := om_delete ?k (lk_calls (fst r2))\<rparr> else fst r2)"
  then have 3: "calls_ok nt s2 \<and> lk_root s2 = lk_root s \<and> lk_children s2 = lk_children (fst r2)"
    using 2 delete_call_ok [of nt "fst r2" ?k] by simp
  have "track_call nt i u s = (s2, snd r1 @ snd r2)"
    by (simp only: track_call_def False if_False Let_def s1_def [symmetric] r1_def [symmetric] r2_def [symmetric] s2_def [symmetric])
  then show ?thesis using * 3 by (simp add: changed_ok_def)
qed

subsection \<open>What a client knows\<close>

text \<open>A client keeps the last \<open>toolCallId\<close> it was sent for every child.\<close>

definition sees :: "child_frame list \<Rightarrow> (string \<Rightarrow> js option) \<Rightarrow> string \<Rightarrow> js option" where
  "sees fs v = foldl (\<lambda>v f. v(cf_session f := Some (nd_call (cf_node f)))) v fs"

definition in_sync :: "(string \<Rightarrow> js option) \<Rightarrow> links \<Rightarrow> bool" where
  "in_sync v s \<longleftrightarrow> (\<forall>i n. om_get (lk_children s) i = Some n \<longrightarrow> v i = Some (nd_call n))"

lemma sees_Cons: "sees (f # fs) v = sees fs (v(cf_session f := Some (nd_call (cf_node f))))"
  by (simp add: sees_def)

lemma sees_append: "sees (fs @ gs) v = sees gs (sees fs v)"
  by (simp add: sees_def)

lemma sees_relinked: "sees (relink_frames s ch) v i =
   (if i \<in> set ch then (case om_get (lk_children s) i of Some n \<Rightarrow> Some (nd_call n) | None \<Rightarrow> v i) else v i)"
proof (induction ch arbitrary: v)
  case (Cons j ch)
  have step: "sees (relink_frame s j) v i = (if i = j then (case om_get (lk_children s) i of Some n \<Rightarrow> Some (nd_call n) | None \<Rightarrow> v i) else v i)"
    by (auto simp: relink_frame_def sees_def split: option.splits)
  have "sees (relink_frames s (j # ch)) v = sees (relink_frames s ch) (sees (relink_frame s j) v)"
    by (simp add: relink_frames_def sees_append)
  then show ?case using Cons.IH [of "sees (relink_frame s j) v"] step by (auto split: option.splits)
qed (simp add: relink_frames_def sees_def)

lemma in_sync_relinked: "in_sync v s \<Longrightarrow> changed_ok s s' ch \<Longrightarrow> in_sync (sees (relink_frames s' ch) v) s'"
  unfolding in_sync_def changed_ok_def sees_relinked by (metis option.simps(5))

lemma find_child_ok:
  assumes ok: "calls_ok nt s" and i: "i \<noteq> []"
  shows "calls_ok nt (fst (find_child nt number i ps s))" "lk_root (fst (find_child nt number i ps s)) = lk_root s"
    "om_get (lk_children (fst (find_child nt number i ps s))) j = (if j = i then Some (snd (find_child nt number i ps s)) else om_get (lk_children s) j)"
  using assms link_child_frame [of nt "s\<lparr>lk_children := om_set i n (lk_children s)\<rparr>" i n for n]
    link_child_calls_ok [of nt "s\<lparr>lk_children := om_set i n (lk_children s)\<rparr>" i n for n]
  by (auto simp: find_child_def Let_def split: option.splits)

lemma link_step_ok:
  assumes ok: "calls_ok nt s" and sync: "in_sync v s"
  shows "calls_ok nt (fst (link_step nt number s e)) \<and> in_sync (sees (snd (link_step nt number s e)) v) (fst (link_step nt number s e))"
proof (cases e)
  case (RootUpdate u)
  then show ?thesis using track_call_ok [OF ok, of "lk_root s" u] in_sync_relinked [OF sync]
    by (auto simp: root_update_def split: prod.splits)
next
  case TurnEnds
  then show ?thesis by (simp add: clear_links_def calls_ok_def in_sync_def)
next
  case (ChildUpdate ps)
  let ?i = "js_text nt (js_or_null (js_field ps ''childSessionId'') (JStr []))"
  show ?thesis
  proof (cases "?i = []")
    case True
    then show ?thesis using ChildUpdate assms by (simp add: child_update_def Let_def sees_def)
  next
    case False
    obtain s1 n1 where f: "find_child nt number ?i ps s = (s1, n1)" by fastforce
    note fc = find_child_ok [OF ok False, of number ps, unfolded f fst_conv snd_conv]
    define n2 where "n2 = (if \<not> truthy (nd_title n1) \<and> truthy (js_field ps ''title'') then n1\<lparr>nd_title := js_field ps ''title''\<rparr> else n1)"
    define n3 where "n3 = (if js_field ps ''type'' = JStr ''status'' then n2\<lparr>nd_status := js_or_null (js_field ps ''status'') JNull\<rparr> else n2)"
    define s2 where "s2 = s1\<lparr>lk_children := om_set ?i n3 (lk_children s1)\<rparr>"
    define r where "r = (if js_field ps ''type'' \<noteq> JStr ''status'' \<and> is_objlike (js_field ps ''update'')
      then track_call nt ?i (js_field ps ''update'') s2 else (s2, []))"
    have n: "nd_call n3 = nd_call n1" "nd_call n2 = nd_call n1" by (simp_all add: n3_def n2_def)
    have s2: "calls_ok nt s2" "in_sync (v(?i := Some (nd_call n2))) s2"
      using fc n sync by (auto simp: s2_def in_sync_def split: if_splits)
    have r: "calls_ok nt (fst r)" "changed_ok s2 (fst r) (snd r)"
      using track_call_ok [OF s2(1)] s2(1) by (auto simp: r_def changed_same)
    define fr where "fr = \<lparr>cf_session = ?i, cf_node = n2, cf_type = (if js_field ps ''type'' = JStr ''status'' then ''status'' else ''update''),
      cf_status = (if js_field ps ''type'' = JStr ''status'' then js_or_null (js_field ps ''status'') JNull else JUndef),
      cf_error = (if js_field ps ''type'' = JStr ''status'' then js_field ps ''error'' else JUndef),
      cf_update = (if js_field ps ''type'' \<noteq> JStr ''status'' \<and> is_objlike (js_field ps ''update'') then js_field ps ''update'' else JUndef),
      cf_relinked = False\<rparr>"
    have "link_step nt number s (ChildUpdate ps) = (fst r, fr # relink_frames (fst r) (snd r))"
      by (simp only: link_step.simps child_update_def Let_def False if_False f prod.case n2_def [symmetric] n3_def [symmetric]
        s2_def [symmetric] r_def [symmetric] fr_def [symmetric])
    then have step: "link_step nt number s e = (fst r, fr # relink_frames (fst r) (snd r))" using ChildUpdate by (simp only:)
    have fr: "cf_session fr = ?i" "cf_node fr = n2" by (simp_all add: fr_def)
    show ?thesis using fr r(1) in_sync_relinked [OF s2(2) r(2)] by (simp add: step sees_Cons)
  qed
qed

subsection \<open>Runs\<close>

definition link_run :: "(rat \<Rightarrow> string) \<Rightarrow> (js \<Rightarrow> rat) \<Rightarrow> links \<Rightarrow> link_event list \<Rightarrow> links \<times> child_frame list" where
  "link_run nt number s es = foldl (\<lambda>r e. case link_step nt number (fst r) e of (s1, fs) \<Rightarrow> (s1, snd r @ fs)) (s, []) es"

interpretation links: run_invariant "\<lambda>r e. case link_step nt number (fst r) e of (s1, fs) \<Rightarrow> (s1, snd r @ fs)"
  "\<lambda>r. calls_ok nt (fst r) \<and> in_sync (sees (snd r) v) (fst r)" for nt number v
  using link_step_ok by unfold_locales (auto simp: sees_append split_beta)

lemma no_links_ok: "calls_ok nt (no_links i) \<and> in_sync v (no_links i)"
  by (simp add: no_links_def calls_ok_def in_sync_def)

lemma link_run_ok:
  "calls_ok nt (fst (link_run nt number (no_links i) es)) \<and>
   in_sync (sees (snd (link_run nt number (no_links i) es)) v) (fst (link_run nt number (no_links i) es))"
  unfolding link_run_def using no_links_ok [of nt i v] by (intro links.run_inv) (simp add: sees_def)

text \<open>A correction keeps the call it is about, and its id.\<close>

definition keeps_id :: "string \<Rightarrow> js \<Rightarrow> links \<Rightarrow> bool" where
  "keeps_id k t s \<longleftrightarrow> (\<exists>c. om_get (lk_calls s) k = Some c \<and> cl_id c = t)"

lemma keeps_id_link_child: "calls_ok nt s \<Longrightarrow> keeps_id k t s \<Longrightarrow> keeps_id k t (fst (link_child nt i d s))"
  by (cases rule: link_child_cases [of nt s i d]) (auto simp: keeps_id_def)

lemma keeps_id_displace:
  assumes "calls_ok nt s" "keeps_id k t s"
  shows "keeps_id k t (fst (displace nt old u s))"
proof -
  have "keeps_id k t (fst (link_child nt old d s))" for d by (rule keeps_id_link_child [OF assms])
  then have "keeps_id k t ((fst (link_child nt old d s))\<lparr>lk_children := x\<rparr>)" for d x by (simp add: keeps_id_def)
  then show ?thesis using assms(2) by (simp add: displace_def split_beta split: option.splits)
qed

lemma keeps_id_set_link:
  assumes ok: "calls_ok nt s" and k: "keeps_id k t s"
  shows "keeps_id k t (fst (set_link nt k i re s))"
proof -
  obtain call where call: "om_get (lk_calls s) k = Some call" "cl_id call = t" using k by (auto simp: keeps_id_def)
  have "keeps_id k t (claim k i call s)" using call by (simp add: keeps_id_def claim_get)
  then have "keeps_id k t (fst (displace nt old u (claim k i call s)))" for old u
    using keeps_id_displace [OF claim_ok(1) [OF ok call(1)]] by blast
  moreover have "keeps_id k t (x\<lparr>lk_children := m\<rparr>) = keeps_id k t x" for x m by (simp add: keeps_id_def)
  ultimately show ?thesis using k call by (simp add: set_link_def claim_def [symmetric] split_beta split: option.splits)
qed

lemma track_call_confirms:
  assumes ok: "calls_ok nt s" and go: "\<not> ignored_update nt j u s"
    and conf: "truthy (js_field (js_field (js_field u ''rawOutput'') ''metadata'') ''sessionID'')"
    and n: "om_get (lk_children (fst (track_call nt j u s)))
      (js_text nt (js_field (js_field (js_field u ''rawOutput'') ''metadata'') ''sessionID'')) = Some n"
  shows "nd_call n = cl_id (noted_call nt j u s)"
proof -
  let ?k = "call_key nt j (js_field u ''toolCallId'')" and ?c = "js_field (js_field (js_field u ''rawOutput'') ''metadata'') ''sessionID''"
    and ?res = "js_field (raw_input u) ''sessionID''"
  define s1 where "s1 = note_call nt j u s"
  define r1 where "r1 = (if truthy ?res \<and> cl_child (noted_call nt j u s) = [] then set_link nt ?k (js_text nt ?res) True s1 else (s1, []))"
  have s1: "calls_ok nt s1" "keeps_id ?k (cl_id (noted_call nt j u s)) s1"
    using note_call_ok(1) [OF ok] by (simp_all add: s1_def keeps_id_def note_call_def Let_def)
  have "keeps_id ?k (cl_id (noted_call nt j u s)) (fst r1)"
    using keeps_id_set_link [OF s1] s1(2) by (simp add: r1_def)
  then obtain call where call: "om_get (lk_calls (fst r1)) ?k = Some call" "cl_id call = cl_id (noted_call nt j u s)"
    by (auto simp: keeps_id_def)
  have "lk_children (fst (track_call nt j u s)) = lk_children (fst (set_link nt ?k (js_text nt ?c) False (fst r1)))"
    by (simp add: track_call_def go conf Let_def s1_def r1_def)
  then show ?thesis using set_link_links [OF call(1)] n call(2) by simp
qed

subsection \<open>The properties\<close>

text \<open>Claim C14. Whatever the engine reports, and in whatever order, a client that keeps for every specialist the
  \<open>toolCallId\<close> of the last frame it was sent knows the broker's link of every specialist that is tracked: no correction
  of a guess happens without a frame that tells it. And the guesses never give two live calls of one session the same
  child.\<close>

theorem clients_see_links:
  "in_sync (sees (snd (link_run nt number (no_links i) es)) (\<lambda>_. None)) (fst (link_run nt number (no_links i) es)) \<and>
   calls_ok nt (fst (link_run nt number (no_links i) es))"
  using link_run_ok by blast

text \<open>After any run, when an update of a call that is not ignored names the call's child (the \<open>sessionID\<close> of
  its result's metadata), that child, if it is tracked, is linked to this call, even if it was guessed onto another one,
  even if a third child was guessed onto this call; and the client has been told.\<close>

theorem confirmed_child_linked:
  assumes run: "s = fst (link_run nt number (no_links i) es)" and v: "v = sees (snd (link_run nt number (no_links i) es)) (\<lambda>_. None)"
    and go: "\<not> ignored_update nt (lk_root s) u s"
    and conf: "truthy (js_field (js_field (js_field u ''rawOutput'') ''metadata'') ''sessionID'')"
    and child: "ch = js_text nt (js_field (js_field (js_field u ''rawOutput'') ''metadata'') ''sessionID'')"
    and step: "link_step nt number s (RootUpdate u) = (s', fs)" and n: "om_get (lk_children s') ch = Some n"
  shows "nd_call n = cl_id (noted_call nt (lk_root s) u s) \<and> sees fs v ch = Some (nd_call n)"
proof -
  have ok: "calls_ok nt s" "in_sync v s" using link_run_ok by (auto simp: run v)
  have s': "s' = fst (track_call nt (lk_root s) u s)" using step by (auto simp: root_update_def split: prod.splits)
  have "nd_call n = cl_id (noted_call nt (lk_root s) u s)" using track_call_confirms [OF ok(1) go conf] n by (simp add: s' child)
  moreover have "in_sync (sees fs v) s'" using link_step_ok [OF ok, of number "RootUpdate u"] step by simp
  ultimately show ?thesis using n by (simp add: in_sync_def)
qed

text \<open>Two parallel calls, and the children arrive in the other order: each is guessed onto the wrong call, until the
  first call's result names its child.\<close>

definition call_of :: "string \<Rightarrow> js" where
  "call_of t = JObj [(''sessionUpdate'', JStr ''tool_call''), (''toolCallId'', JStr t), (''title'', JStr ''subagent''),
     (''status'', JStr ''in_progress'')]"

definition child_of :: "string \<Rightarrow> js" where
  "child_of c = JObj [(''childSessionId'', JStr c), (''type'', JStr ''status''), (''status'', JStr ''running'')]"

definition result_of :: "string \<Rightarrow> string \<Rightarrow> js" where
  "result_of t c = JObj [(''sessionUpdate'', JStr ''tool_call_update''), (''toolCallId'', JStr t), (''status'', JStr ''completed''),
     (''rawOutput'', JObj [(''metadata'', JObj [(''sessionID'', JStr c)])])]"

definition crossed :: "link_event list" where
  "crossed = [RootUpdate (call_of ''t1''), RootUpdate (call_of ''t2''), ChildUpdate (child_of ''b''), ChildUpdate (child_of ''a'')]"

definition after_crossed :: links where
  "after_crossed = fst (link_run (\<lambda>_. []) (\<lambda>_. 0) (no_links ''r'') crossed)"

definition first_result :: "links \<times> child_frame list" where
  "first_result = link_step (\<lambda>_. []) (\<lambda>_. 0) after_crossed (RootUpdate (result_of ''t1'' ''a''))"

definition client_crossed :: "string \<Rightarrow> js option" where
  "client_crossed = sees (snd (link_run (\<lambda>_. []) (\<lambda>_. 0) (no_links ''r'') crossed)) (\<lambda>_. None)"

lemma crossed_guessed: "map_option nd_call (om_get (lk_children after_crossed) ''a'') = Some (JStr ''t2'')"
  "map_option nd_call (om_get (lk_children after_crossed) ''b'') = Some (JStr ''t1'')"
  by code_simp+

lemma first_result_runs: "\<not> ignored_update (\<lambda>_. []) (lk_root after_crossed) (result_of ''t1'' ''a'') after_crossed"
  "truthy (js_field (js_field (js_field (result_of ''t1'' ''a'') ''rawOutput'') ''metadata'') ''sessionID'')"
  "cl_id (noted_call (\<lambda>_. []) (lk_root after_crossed) (result_of ''t1'' ''a'') after_crossed) = JStr ''t1''"
  "''a'' = js_text (\<lambda>_. []) (js_field (js_field (js_field (result_of ''t1'' ''a'') ''rawOutput'') ''metadata'') ''sessionID'')"
  "om_get (lk_children (fst first_result)) ''a'' = Some (the (om_get (lk_children (fst first_result)) ''a''))"
  by code_simp+

lemma first_result_step: "link_step (\<lambda>_. []) (\<lambda>_. 0) after_crossed (RootUpdate (result_of ''t1'' ''a'')) = (fst first_result, snd first_result)"
  by (simp add: first_result_def del: link_step.simps)

lemma crossed_b_moves: "map_option nd_call (om_get (lk_children (fst first_result)) ''b'') = Some (JStr ''t2'')"
  by code_simp

lemma confirmed_child_linked_witness:
  "nd_call (the (om_get (lk_children (fst first_result)) ''a'')) = JStr ''t1'' \<and>
   sees (snd first_result) client_crossed ''a'' = Some (JStr ''t1'')"
  using confirmed_child_linked [OF after_crossed_def client_crossed_def first_result_runs(1,2,4)
    first_result_step first_result_runs(5)]
  by (simp add: first_result_runs(3))

end
