(* ===== verification/Admission.thy ===== *)
theory Admission
  imports Complex_Main Prelude
begin

text \<open>
  Permits handed out first come, first served (runtime/lib/internal-admission.js), as the workspace files service uses them for
  mutations and for the native workbook reader (runtime/lib/workspace-files.js). Work from outside tries once
  (\<open>tryAcquire\<close>); work from inside waits in a queue until a permit is free, its deadline passes or the service closes. The
  caller of a waiting request is told first (\<open>onWait\<close>), asynchronously, and may fail: \<open>Notified\<close> and \<open>Told\<close> are these
  continuations. A request is named by the order of its arrival, and so is its permit.
\<close>

record 'p provider =
  pv_available :: "'p \<Rightarrow> bool"
  pv_reserve :: "'p \<Rightarrow> 'p"
  pv_release :: "'p \<Rightarrow> 'p"
  pv_waiters :: nat

text \<open>The two of the service: a counter up to \<open>queueSize\<close>, and one flag.\<close>

definition mutation_provider :: "nat \<Rightarrow> nat \<Rightarrow> nat provider" where
  "mutation_provider cap w = \<lparr>pv_available = (\<lambda>n. n < cap), pv_reserve = Suc, pv_release = (\<lambda>n. n - 1), pv_waiters = w\<rparr>"

definition native_provider :: "nat \<Rightarrow> bool provider" where
  "native_provider w = \<lparr>pv_available = Not, pv_reserve = (\<lambda>_. True), pv_release = (\<lambda>_. False), pv_waiters = w\<rparr>"

datatype adm_error = BadDeadline | AdmClosed | AdmExpired | AdmFull | WaitFailed

record waiter =
  w_id :: nat
  w_deadline :: rat
  w_ready :: bool

record 'p admission =
  ad_queue :: "waiter list"
  ad_closed :: bool
  ad_pool :: 'p
  ad_next :: nat
  ad_held :: "nat list" \<comment> \<open>permits not released\<close>
  ad_admitting :: "nat list" \<comment> \<open>have a permit, their caller is being told\<close>
  ad_leaving :: "(nat \<times> adm_error) list" \<comment> \<open>out of the queue, rejected once \<open>onWait\<close> returns\<close>

datatype adm_out = Permit nat | Granted nat | AdmDenied nat adm_error

type_synonym 'p adm_result = "'p admission \<times> adm_out list"

definition admission_init :: "'p \<Rightarrow> 'p admission" where
  "admission_init p = \<lparr>ad_queue = [], ad_closed = False, ad_pool = p, ad_next = 0, ad_held = [], ad_admitting = [], ad_leaving = []\<rparr>"

text \<open>A finite deadline; a string is \<open>Date.parse\<close>d by the caller's parameter.\<close>

definition wait_deadline :: "rat option \<Rightarrow> adm_error + rat" where
  "wait_deadline d = (case d of None \<Rightarrow> Inl BadDeadline | Some t \<Rightarrow> Inr t)"

definition take_permit :: "'p provider \<Rightarrow> nat \<Rightarrow> 'p admission \<Rightarrow> 'p admission" where
  "take_permit pv n s = s\<lparr>ad_pool := pv_reserve pv (ad_pool s), ad_held := ad_held s @ [n]\<rparr>"

subsection \<open>The queue\<close>

text \<open>\<open>#pump\<close>'s loop: what leaves the queue, with whether it was admitted (or else had expired).\<close>

fun pump_queue :: "'p provider \<Rightarrow> rat \<Rightarrow> waiter list \<Rightarrow> 'p \<Rightarrow> waiter list \<times> 'p \<times> (waiter \<times> bool) list" where
  "pump_queue pv now [] p = ([], p, [])"
| "pump_queue pv now (w # q) p =
    (if \<not> pv_available pv p then (w # q, p, [])
     else if w_deadline w \<le> now then (case pump_queue pv now q p of (q1, p1, ws) \<Rightarrow> (q1, p1, (w, False) # ws))
     else if \<not> w_ready w then (w # q, p, [])
     else (case pump_queue pv now q (pv_reserve pv p) of (q1, p1, ws) \<Rightarrow> (q1, p1, (w, True) # ws)))"

definition ids_in :: "(waiter \<times> bool) list \<Rightarrow> nat list" where
  "ids_in ws = map (w_id \<circ> fst) (filter snd ws)"

definition reject_out :: "adm_error \<Rightarrow> waiter \<Rightarrow> adm_out list" where
  "reject_out e w = (if w_ready w then [AdmDenied (w_id w) e] else [])"

definition reject_later :: "adm_error \<Rightarrow> waiter list \<Rightarrow> (nat \<times> adm_error) list" where
  "reject_later e ws = map (\<lambda>w. (w_id w, e)) (filter (\<lambda>w. \<not> w_ready w) ws)"

definition left_out :: "waiter \<times> bool \<Rightarrow> adm_out list" where
  "left_out x = (if snd x then [Permit (w_id (fst x))] else reject_out AdmExpired (fst x))"

definition adm_pump :: "'p provider \<Rightarrow> rat \<Rightarrow> 'p admission \<Rightarrow> 'p adm_result" where
  "adm_pump pv now s =
    (if ad_closed s then (s, [])
     else (case pump_queue pv now (ad_queue s) (ad_pool s) of (q, p, ws) \<Rightarrow>
       (s\<lparr>ad_queue := q, ad_pool := p, ad_held := ad_held s @ ids_in ws, ad_admitting := ad_admitting s @ ids_in ws,
          ad_leaving := ad_leaving s @ reject_later AdmExpired (map fst (filter (\<lambda>x. \<not> snd x) ws))\<rparr>,
        concat (map left_out ws))))"

definition then_pump :: "'p provider \<Rightarrow> rat \<Rightarrow> 'p adm_result \<Rightarrow> 'p adm_result" where
  "then_pump pv now r = (fst (adm_pump pv now (fst r)), snd r @ snd (adm_pump pv now (fst r)))"

definition waiter_of :: "nat \<Rightarrow> 'p admission \<Rightarrow> waiter option" where
  "waiter_of n s = List.find (\<lambda>w. w_id w = n) (ad_queue s)"

definition drop_waiter :: "nat \<Rightarrow> waiter list \<Rightarrow> waiter list" where
  "drop_waiter n q = filter (\<lambda>w. w_id w \<noteq> n) q"

definition remove_waiter :: "'p provider \<Rightarrow> rat \<Rightarrow> nat \<Rightarrow> adm_error \<Rightarrow> 'p admission \<Rightarrow> 'p adm_result" where
  "remove_waiter pv now n e s =
    (case waiter_of n s of
       None \<Rightarrow> (s, [])
     | Some w \<Rightarrow> then_pump pv now
         (s\<lparr>ad_queue := drop_waiter n (ad_queue s), ad_leaving := ad_leaving s @ reject_later e [w]\<rparr>, reject_out e w))"

subsection \<open>Operations\<close>

definition adm_refuse :: "nat \<Rightarrow> adm_error \<Rightarrow> 'p admission \<Rightarrow> 'p adm_result" where
  "adm_refuse n e s = (s, [AdmDenied n e])"

text \<open>The check of \<open>tryAcquire\<close>'s \<open>wait.deadline\<close>, when there is one.\<close>

definition wait_error :: "rat \<Rightarrow> rat option option \<Rightarrow> adm_error option" where
  "wait_error now wait =
    (case wait of
       None \<Rightarrow> None
     | Some d \<Rightarrow> (case wait_deadline d of Inl e \<Rightarrow> Some e | Inr t \<Rightarrow> if t \<le> now then Some AdmExpired else None))"

definition try_acquire :: "'p provider \<Rightarrow> rat \<Rightarrow> rat option option \<Rightarrow> 'p admission \<Rightarrow> 'p adm_result" where
  "try_acquire pv now wait s0 =
    (let n = ad_next s0; s = s0\<lparr>ad_next := n + 1\<rparr> in
     if ad_closed s then adm_refuse n AdmClosed s
     else (case wait_error now wait of
       Some e \<Rightarrow> adm_refuse n e s
     | None \<Rightarrow>
         if ad_queue s \<noteq> [] \<or> \<not> pv_available pv (ad_pool s) then adm_refuse n AdmFull s
         else (take_permit pv n s, [Permit n, Granted n])))"

definition adm_acquire :: "'p provider \<Rightarrow> rat \<Rightarrow> rat option \<Rightarrow> 'p admission \<Rightarrow> 'p adm_result" where
  "adm_acquire pv now d0 s0 =
    (let n = ad_next s0; s = s0\<lparr>ad_next := n + 1\<rparr> in
     case wait_deadline d0 of
       Inl e \<Rightarrow> adm_refuse n e s
     | Inr d \<Rightarrow>
         if ad_closed s then adm_refuse n AdmClosed s
         else if d \<le> now then adm_refuse n AdmExpired s
         else if ad_queue s = [] \<and> pv_available pv (ad_pool s) then (take_permit pv n s, [Permit n, Granted n])
         else if pv_waiters pv \<le> length (ad_queue s) then adm_refuse n AdmFull s
         else (s\<lparr>ad_queue := ad_queue s @ [\<lparr>w_id = n, w_deadline = d, w_ready = False\<rparr>]\<rparr>, []))"

text \<open>\<open>onWait\<close> returned: the request is ready and the queue moves on, or the call failed. A request that has left
  the queue meanwhile is rejected now; a call that succeeded looks at the queue first.\<close>

definition mark_ready :: "nat \<Rightarrow> waiter list \<Rightarrow> waiter list" where
  "mark_ready n q = map (\<lambda>w. if w_id w = n then w\<lparr>w_ready := True\<rparr> else w) q"

definition reject_left :: "nat \<Rightarrow> adm_error \<Rightarrow> 'p adm_result \<Rightarrow> 'p adm_result" where
  "reject_left n e r =
    ((fst r)\<lparr>ad_leaving := filter (\<lambda>x. fst x \<noteq> n) (ad_leaving (fst r))\<rparr>, snd r @ [AdmDenied n e])"

definition adm_notified :: "'p provider \<Rightarrow> rat \<Rightarrow> nat \<Rightarrow> bool \<Rightarrow> 'p admission \<Rightarrow> 'p adm_result" where
  "adm_notified pv now n ok s =
    (case waiter_of n s of
       Some w \<Rightarrow>
         if w_ready w then (s, [])
         else if ok then then_pump pv now (s\<lparr>ad_queue := mark_ready n (ad_queue s)\<rparr>, [])
         else then_pump pv now (s\<lparr>ad_queue := drop_waiter n (ad_queue s)\<rparr>, [AdmDenied n WaitFailed])
     | None \<Rightarrow>
         (case map_of (ad_leaving s) n of
            Some e \<Rightarrow> reject_left n e (if ok then adm_pump pv now s else (s, []))
          | None \<Rightarrow> (s, [])))"

definition free_permit :: "'p provider \<Rightarrow> nat \<Rightarrow> 'p admission \<Rightarrow> 'p admission" where
  "free_permit pv n s = s\<lparr>ad_pool := pv_release pv (ad_pool s), ad_held := removeAll n (ad_held s)\<rparr>"

text \<open>The caller of an admitted request was told, or telling it failed.\<close>

definition adm_told :: "'p provider \<Rightarrow> rat \<Rightarrow> nat \<Rightarrow> bool \<Rightarrow> 'p admission \<Rightarrow> 'p adm_result" where
  "adm_told pv now n ok s =
    (if n \<notin> set (ad_admitting s) then (s, [])
     else (let s1 = s\<lparr>ad_admitting := removeAll n (ad_admitting s)\<rparr> in
           if ok then (s1, [Granted n])
           else then_pump pv now (free_permit pv n s1, [AdmDenied n WaitFailed])))"

text \<open>The holder calls its \<open>release\<close>; the second call does nothing.\<close>

definition adm_release :: "'p provider \<Rightarrow> rat \<Rightarrow> nat \<Rightarrow> 'p admission \<Rightarrow> 'p adm_result" where
  "adm_release pv now n s =
    (if n \<notin> set (ad_held s) \<or> n \<in> set (ad_admitting s) then (s, [])
     else adm_pump pv now (free_permit pv n s))"

definition adm_close :: "'p admission \<Rightarrow> 'p adm_result" where
  "adm_close s = (s\<lparr>ad_closed := True, ad_queue := [], ad_leaving := ad_leaving s @ reject_later AdmClosed (ad_queue s)\<rparr>,
     concat (map (reject_out AdmClosed) (ad_queue s)))"

datatype adm_event =
    TryAcquire rat "rat option option"
  | Acquire rat "rat option"
  | Notified rat nat bool
  | Told rat nat bool
  | WaitTimer rat nat
  | Releases rat nat
  | Closes

fun adm_step :: "'p provider \<Rightarrow> 'p admission \<Rightarrow> adm_event \<Rightarrow> 'p adm_result" where
  "adm_step pv s (TryAcquire now w) = try_acquire pv now w s"
| "adm_step pv s (Acquire now d) = adm_acquire pv now d s"
| "adm_step pv s (Notified now n ok) = adm_notified pv now n ok s"
| "adm_step pv s (Told now n ok) = adm_told pv now n ok s"
| "adm_step pv s (WaitTimer now n) = remove_waiter pv now n AdmExpired s"
| "adm_step pv s (Releases now n) = adm_release pv now n s"
| "adm_step pv s Closes = adm_close s"

definition adm_run :: "'p provider \<Rightarrow> 'p admission \<Rightarrow> adm_event list \<Rightarrow> 'p adm_result" where
  "adm_run pv s es = foldl (\<lambda>r e. case adm_step pv (fst r) e of (s1, os) \<Rightarrow> (s1, snd r @ os)) (s, []) es"

end
