(* ===== verification/Admission_Props.thy ===== *)
theory Admission_Props
  imports Admission Run_System "HOL-Library.Multiset"
begin

text \<open>
  Permits (runtime/lib/internal-admission.js): never more than the provider has, in the order of arrival, none idle while a
  ready request heads the queue, and every request answered exactly once.
\<close>

subsection \<open>What was answered\<close>

fun permits :: "adm_out list \<Rightarrow> nat list" where
  "permits [] = []"
| "permits (Permit n # os) = n # permits os"
| "permits (Granted n # os) = permits os"
| "permits (AdmDenied n e # os) = permits os"

fun answered :: "adm_out list \<Rightarrow> nat list" where
  "answered [] = []"
| "answered (Permit n # os) = answered os"
| "answered (Granted n # os) = n # answered os"
| "answered (AdmDenied n e # os) = n # answered os"

lemma permits_append [simp]: "permits (xs @ ys) = permits xs @ permits ys"
  by (induction xs rule: permits.induct) simp_all

lemma answered_append [simp]: "answered (xs @ ys) = answered xs @ answered ys"
  by (induction xs rule: answered.induct) simp_all

subsection \<open>The queue\<close>

lemma pump_queue_split: "pump_queue pv now q p = (q1, p1, ws) \<Longrightarrow> q = map fst ws @ q1"
  by (induction q arbitrary: p p1 ws) (auto split: if_splits prod.splits)

lemma permits_left [simp]: "permits (concat (map left_out ws)) = ids_in ws"
  by (induction ws) (auto simp: left_out_def reject_out_def ids_in_def)

lemma permits_reject [simp]: "permits (concat (map (reject_out e) ws)) = []" "permits (reject_out e w) = []"
  by (induction ws) (auto simp: reject_out_def)

lemma mset_reject [simp]: "mset (map fst (reject_later e ws)) + mset (answered (concat (map (reject_out e) ws))) = mset (map w_id ws)"
  by (induction ws) (auto simp: reject_out_def reject_later_def)

lemma mset_left: "mset (map fst (reject_later AdmExpired (map fst (filter (\<lambda>x. \<not> snd x) ws)))) +
   mset (answered (concat (map left_out ws))) + mset (ids_in ws) = mset (map (w_id \<circ> fst) ws)"
  by (induction ws) (auto simp: left_out_def reject_out_def reject_later_def ids_in_def)

definition queue_ids :: "'p admission \<Rightarrow> nat list" where
  "queue_ids s = map w_id (ad_queue s)"

text \<open>Who has which request: a queued one, one on its way out, one being told, or an answer.\<close>

definition accounted :: "'p admission \<Rightarrow> adm_out list \<Rightarrow> nat multiset" where
  "accounted s os = mset (queue_ids s) + mset (map fst (ad_leaving s)) + mset (ad_admitting s) + mset (answered os)"

definition fifo_ok :: "'p admission \<times> adm_out list \<Rightarrow> bool" where
  "fifo_ok r \<longleftrightarrow> accounted (fst r) (snd r) = mset [0..<ad_next (fst r)] \<and>
     sorted_wrt (<) (permits (snd r) @ queue_ids (fst r)) \<and> (\<forall>n \<in> set (permits (snd r)). n < ad_next (fst r)) \<and>
     set (ad_held (fst r)) \<subseteq> set (permits (snd r)) \<and> distinct (ad_held (fst r)) \<and>
     set (ad_admitting (fst r)) \<subseteq> set (ad_held (fst r)) \<and> (ad_closed (fst r) \<longrightarrow> ad_queue (fst r) = [])"

lemma fifo_okI:
  assumes "accounted s os = mset [0..<ad_next s]" "sorted_wrt (<) (permits os @ queue_ids s)" "\<forall>n \<in> set (permits os). n < ad_next s"
    "set (ad_held s) \<subseteq> set (permits os)" "distinct (ad_held s)" "set (ad_admitting s) \<subseteq> set (ad_held s)"
    "ad_closed s \<Longrightarrow> ad_queue s = []"
  shows "fifo_ok (s, os)"
  using assms by (simp add: fifo_ok_def)

lemma fifo_okD:
  assumes "fifo_ok (s, os)"
  shows "accounted s os = mset [0..<ad_next s]" "sorted_wrt (<) (permits os @ queue_ids s)" "\<forall>n \<in> set (permits os). n < ad_next s"
    "set (ad_held s) \<subseteq> set (permits os)" "distinct (ad_held s)" "set (ad_admitting s) \<subseteq> set (ad_held s)"
    "ad_closed s \<Longrightarrow> ad_queue s = []"
  using assms by (simp_all add: fifo_ok_def)

lemma queue_below_next:
  assumes "fifo_ok (s, os)" shows "\<forall>n \<in> set (queue_ids s). n < ad_next s"
proof
  fix n assume "n \<in> set (queue_ids s)"
  then have "n \<in># accounted s os" by (simp add: accounted_def)
  then show "n < ad_next s" using fifo_okD(1) [OF assms] by simp
qed

subsection \<open>Arrival order and accounting\<close>

lemma pump_fifo:
  assumes ok: "fifo_ok (s, os)"
  shows "fifo_ok (fst (adm_pump pv now s), os @ snd (adm_pump pv now s))"
proof (cases "ad_closed s")
  case False
  obtain q p ws where r: "pump_queue pv now (ad_queue s) (ad_pool s) = (q, p, ws)" by (cases "pump_queue pv now (ad_queue s) (ad_pool s)") auto
  have q: "queue_ids s = map (w_id \<circ> fst) ws @ map w_id q" using pump_queue_split [OF r] by (simp add: queue_ids_def)
  have below: "\<forall>n \<in> set (queue_ids s). n < ad_next s" using queue_below_next [OF ok] .
  have sub: "set (ids_in ws) \<subseteq> set (map (w_id \<circ> fst) ws)" by (auto simp: ids_in_def)
  have sorted: "sorted_wrt (<) (map (w_id \<circ> fst) ws)" "\<forall>x \<in> set (permits os). \<forall>y \<in> set (queue_ids s). x < y"
    using fifo_okD(2) [OF ok] q by (auto simp: sorted_wrt_append)
  then have st: "sorted_wrt (<) (ids_in ws)" by (simp add: ids_in_def sorted_wrt_map sorted_wrt_filter)
  then have d: "distinct (ids_in ws)" by (simp add: strict_sorted_iff)
  have new: "set (ids_in ws) \<inter> set (permits os) = {}" using sorted(2) sub q by fastforce
  define s1 where "s1 = s\<lparr>ad_queue := q, ad_pool := p, ad_held := ad_held s @ ids_in ws, ad_admitting := ad_admitting s @ ids_in ws,
      ad_leaving := ad_leaving s @ reject_later AdmExpired (map fst (filter (\<lambda>x. \<not> snd x) ws))\<rparr>"
  have eq: "adm_pump pv now s = (s1, concat (map left_out ws))" using False by (simp add: adm_pump_def r s1_def)
  have "fifo_ok (s1, os @ concat (map left_out ws))"
  proof (rule fifo_okI)
    have q1: "queue_ids s1 = map w_id q" by (simp add: s1_def queue_ids_def)
    have "mset (queue_ids s) = mset (map fst (reject_later AdmExpired (map fst (filter (\<lambda>x. \<not> snd x) ws)))) +
        mset (answered (concat (map left_out ws))) + mset (ids_in ws) + mset (queue_ids s1)"
      by (simp only: q q1 mset_append mset_left)
    then have "accounted s1 (os @ concat (map left_out ws)) = accounted s os"
      by (simp add: accounted_def s1_def queue_ids_def ac_simps)
    then show "accounted s1 (os @ concat (map left_out ws)) = mset [0..<ad_next s1]" using fifo_okD(1) [OF ok] by (simp add: s1_def)
    have "sorted_wrt (<) (permits os @ map (w_id \<circ> fst) ws @ map w_id q)" using fifo_okD(2) [OF ok] by (simp add: q)
    then have "sorted_wrt (<) (permits os @ ids_in ws @ map w_id q)" using st sub by (fastforce simp: sorted_wrt_append)
    then show "sorted_wrt (<) (permits (os @ concat (map left_out ws)) @ queue_ids s1)" by (simp add: q1)
    have "set (ids_in ws) \<subseteq> set (queue_ids s)" using sub q by auto
    then have "\<forall>n \<in> set (ids_in ws). n < ad_next s" using below by blast
    then show "\<forall>n \<in> set (permits (os @ concat (map left_out ws))). n < ad_next s1"
      using fifo_okD(3) [OF ok] by (auto simp: s1_def)
    show "set (ad_held s1) \<subseteq> set (permits (os @ concat (map left_out ws)))" using fifo_okD(4) [OF ok] by (auto simp: s1_def)
    show "distinct (ad_held s1)" using fifo_okD(4,5) [OF ok] d new by (auto simp: s1_def)
    show "set (ad_admitting s1) \<subseteq> set (ad_held s1)" using fifo_okD(6) [OF ok] by (auto simp: s1_def)
    show "ad_closed s1 \<Longrightarrow> ad_queue s1 = []" using False by (simp add: s1_def)
  qed
  then show ?thesis by (simp add: eq)
qed (use assms in \<open>simp add: adm_pump_def\<close>)

lemma then_pump_fifo: "fifo_ok (fst r, os @ snd r) \<Longrightarrow> fifo_ok (fst (then_pump pv now r), os @ snd (then_pump pv now r))"
  using pump_fifo [of "fst r" "os @ snd r"] by (simp add: then_pump_def)

lemma mset_take_out:
  assumes "distinct (map f xs)" "x \<in> set xs"
  shows "mset (map f xs) = add_mset (f x) (mset (map f (filter (\<lambda>y. f y \<noteq> f x) xs)))"
  using assms
proof (induction xs)
  case (Cons a xs)
  show ?case
  proof (cases "x = a")
    case True
    then have "filter (\<lambda>y. f y \<noteq> f x) xs = xs" using Cons.prems(1) by (force simp: filter_id_conv image_iff)
    then show ?thesis using True by simp
  next
    case False
    then have "f a \<noteq> f x" "x \<in> set xs" using Cons.prems by auto
    then show ?thesis using Cons by simp
  qed
qed simp

lemma distinct_part: "mset xs \<subseteq># mset ys \<Longrightarrow> distinct ys \<Longrightarrow> distinct xs"
  by (metis distinct_append ex_mset mset_append mset_eq_imp_distinct_iff mset_subset_eq_exists_conv)

lemma accounted_distinct:
  assumes "fifo_ok (s, os)"
  shows "distinct (queue_ids s)" "distinct (map fst (ad_leaving s))" "distinct (ad_admitting s)"
proof -
  have "distinct xs" if "mset xs \<subseteq># accounted s os" for xs
    using distinct_part [of xs "[0..<ad_next s]"] that unfolding fifo_okD(1) [OF assms] by simp
  then show "distinct (queue_ids s)" "distinct (map fst (ad_leaving s))" "distinct (ad_admitting s)"
    by (simp_all add: accounted_def)
qed

lemma waiter_of_in: "waiter_of n s = Some w \<Longrightarrow> w \<in> set (ad_queue s) \<and> w_id w = n"
  unfolding waiter_of_def by (induction "ad_queue s" arbitrary: s) (auto simp: find_Some_iff)

text \<open>A request leaves the queue, rejected now or later.\<close>

lemma drop_fifo:
  assumes ok: "fifo_ok (s, os)" and w: "waiter_of n s = Some w"
    and lv: "mset (map fst lv) + mset (answered o1) = {#n#}" "permits o1 = []"
  shows "fifo_ok (s\<lparr>ad_queue := drop_waiter n (ad_queue s), ad_leaving := ad_leaving s @ lv\<rparr>, os @ o1)"
proof -
  define s1 where "s1 = s\<lparr>ad_queue := drop_waiter n (ad_queue s), ad_leaving := ad_leaving s @ lv\<rparr>"
  have "mset (queue_ids s) = add_mset n (mset (queue_ids s1))"
    using mset_take_out [of w_id "ad_queue s" w] accounted_distinct(1) [OF ok] waiter_of_in [OF w]
    by (simp add: s1_def queue_ids_def drop_waiter_def)
  then have "mset (queue_ids s) = mset (map fst lv) + mset (answered o1) + mset (queue_ids s1)" using lv(1) by simp
  then have "accounted s1 (os @ o1) = accounted s os" by (simp add: accounted_def s1_def queue_ids_def ac_simps)
  moreover have "sorted_wrt (<) (permits os @ queue_ids s1)"
    using fifo_okD(2) [OF ok] by (auto simp: s1_def queue_ids_def drop_waiter_def sorted_wrt_append sorted_wrt_map sorted_wrt_filter)
  moreover have "ad_closed s1 \<Longrightarrow> ad_queue s1 = []" using fifo_okD(7) [OF ok] by (simp add: s1_def drop_waiter_def)
  ultimately have "fifo_ok (s1, os @ o1)" using fifo_okD [OF ok] lv(2) by (intro fifo_okI) (simp_all add: s1_def)
  then show ?thesis by (simp add: s1_def)
qed

lemma remove_fifo:
  assumes "fifo_ok (s, os)"
  shows "fifo_ok (fst (remove_waiter pv now n e s), os @ snd (remove_waiter pv now n e s))"
proof (cases "waiter_of n s")
  case (Some w)
  have "mset (map fst (reject_later e [w])) + mset (answered (reject_out e w)) = {#n#}"
    using waiter_of_in [OF Some] by (simp add: reject_later_def reject_out_def)
  then show ?thesis using Some drop_fifo [OF assms Some] by (simp add: remove_waiter_def then_pump_fifo)
qed (use assms in \<open>simp add: remove_waiter_def\<close>)

text \<open>A new request.\<close>

lemma new_fifo:
  assumes ok: "fifo_ok (s, os)"
  shows "fifo_ok (s\<lparr>ad_next := ad_next s + 1\<rparr>, os @ [AdmDenied (ad_next s) e])" (is ?deny)
    "ad_queue s = [] \<Longrightarrow> fifo_ok (take_permit pv (ad_next s) (s\<lparr>ad_next := ad_next s + 1\<rparr>), os @ [Permit (ad_next s), Granted (ad_next s)])"
    "\<not> ad_closed s \<Longrightarrow> fifo_ok (s\<lparr>ad_next := ad_next s + 1, ad_queue := ad_queue s @ [\<lparr>w_id = ad_next s, w_deadline = d, w_ready = False\<rparr>]\<rparr>, os)"
proof -
  note D = fifo_okD [OF ok] and b = queue_below_next [OF ok]
  have nx: "mset [0..<ad_next s + 1] = add_mset (ad_next s) (accounted s os)" using D(1) by simp
  show ?deny using D nx by (intro fifo_okI) (auto simp: accounted_def queue_ids_def)
  show "fifo_ok (take_permit pv (ad_next s) (s\<lparr>ad_next := ad_next s + 1\<rparr>), os @ [Permit (ad_next s), Granted (ad_next s)])" if "ad_queue s = []"
    using D nx that by (intro fifo_okI) (auto simp: accounted_def queue_ids_def take_permit_def sorted_wrt_append)
  show "fifo_ok (s\<lparr>ad_next := ad_next s + 1, ad_queue := ad_queue s @ [\<lparr>w_id = ad_next s, w_deadline = d, w_ready = False\<rparr>]\<rparr>, os)" if "\<not> ad_closed s"
    using D nx b that by (intro fifo_okI) (auto simp: accounted_def queue_ids_def sorted_wrt_append)
qed

lemma queue_ids_ready [simp]: "map w_id (mark_ready n q) = map w_id q"
  by (induction q) (auto simp: mark_ready_def)

lemma mark_ready_Nil [simp]: "mark_ready n q = [] \<longleftrightarrow> q = []"
  by (simp add: mark_ready_def)

lemma reject_left_fifo:
  assumes ok: "fifo_ok (fst r, os @ snd r)" and l: "(n, e) \<in> set (ad_leaving (fst r))"
  shows "fifo_ok (fst (reject_left n e r), os @ snd (reject_left n e r))"
proof -
  let ?s = "fst r" and ?s1 = "(fst r)\<lparr>ad_leaving := filter (\<lambda>x. fst x \<noteq> n) (ad_leaving (fst r))\<rparr>"
  have "mset (map fst (ad_leaving ?s)) = add_mset n (mset (map fst (ad_leaving ?s1)))"
    using mset_take_out [OF accounted_distinct(2) [OF ok] l] by simp
  then have "accounted ?s1 ((os @ snd r) @ [AdmDenied n e]) = accounted ?s (os @ snd r)" by (simp add: accounted_def queue_ids_def)
  then have "fifo_ok (?s1, (os @ snd r) @ [AdmDenied n e])" using fifo_okD [OF ok] by (intro fifo_okI) (simp_all add: queue_ids_def)
  then show ?thesis by (simp add: reject_left_def)
qed

lemma pump_leaving: "set (ad_leaving s) \<subseteq> set (ad_leaving (fst (adm_pump pv now s)))"
  by (auto simp: adm_pump_def split: prod.splits)

lemma notified_fifo:
  assumes ok: "fifo_ok (s, os)"
  shows "fifo_ok (fst (adm_notified pv now n b s), os @ snd (adm_notified pv now n b s))"
proof (cases "waiter_of n s")
  case (Some w)
  have "fifo_ok (s\<lparr>ad_queue := mark_ready n (ad_queue s)\<rparr>, os)"
    using fifo_okD [OF ok] by (intro fifo_okI) (simp_all add: accounted_def queue_ids_def)
  moreover have "fifo_ok (s\<lparr>ad_queue := drop_waiter n (ad_queue s)\<rparr>, os @ [AdmDenied n WaitFailed])"
    using drop_fifo [OF ok Some, of "[]" "[AdmDenied n WaitFailed]"] by simp
  ultimately show ?thesis using Some ok by (auto simp: adm_notified_def intro: then_pump_fifo)
next
  case None
  show ?thesis
  proof (cases "map_of (ad_leaving s) n")
    case (Some e)
    have l: "(n, e) \<in> set (ad_leaving s)" by (rule map_of_SomeD [OF Some])
    let ?r = "if b then adm_pump pv now s else (s, [])"
    have "fifo_ok (fst ?r, os @ snd ?r)" "(n, e) \<in> set (ad_leaving (fst ?r))"
      using ok l pump_fifo [OF ok, of pv now] subsetD [OF pump_leaving l, of pv now] by (cases b; simp)+
    from reject_left_fifo [OF this] show ?thesis using None Some by (simp add: adm_notified_def)
  qed (use None ok in \<open>simp add: adm_notified_def\<close>)
qed

lemma free_fifo:
  assumes ok: "fifo_ok (s, os)" and n: "n \<notin> set (ad_admitting s)"
  shows "fifo_ok (free_permit pv n s, os)"
  using fifo_okD [OF ok] n by (intro fifo_okI) (auto simp: free_permit_def accounted_def queue_ids_def distinct_removeAll)

lemma told_fifo:
  assumes ok: "fifo_ok (s, os)"
  shows "fifo_ok (fst (adm_told pv now n b s), os @ snd (adm_told pv now n b s))"
proof (cases "n \<in> set (ad_admitting s)")
  case True
  let ?s1 = "s\<lparr>ad_admitting := removeAll n (ad_admitting s)\<rparr>"
  have "removeAll n (ad_admitting s) = remove1 n (ad_admitting s)"
    using accounted_distinct(3) [OF ok] by (simp add: distinct_remove1_removeAll)
  then have m: "mset (ad_admitting s) = add_mset n (mset (ad_admitting ?s1))" using True by simp
  have go: "fifo_ok (?s1, os @ [x])" if "answered [x] = [n]" "permits [x] = []" for x
  proof (rule fifo_okI)
    show "accounted ?s1 (os @ [x]) = mset [0..<ad_next ?s1]"
      using m that fifo_okD(1) [OF ok] by (simp add: accounted_def queue_ids_def)
  qed (use fifo_okD [OF ok] that(2) in \<open>auto simp: queue_ids_def\<close>)
  have "fifo_ok (free_permit pv n ?s1, os @ [AdmDenied n WaitFailed])" by (rule free_fifo) (use go in simp_all)
  then show ?thesis using True go by (auto simp: adm_told_def Let_def intro: then_pump_fifo)
qed (use ok in \<open>simp add: adm_told_def\<close>)

lemma close_fifo:
  assumes ok: "fifo_ok (s, os)"
  shows "fifo_ok (fst (adm_close s), os @ snd (adm_close s))"
proof -
  let ?s1 = "fst (adm_close s)" and ?o = "concat (map (reject_out AdmClosed) (ad_queue s))"
  have "mset (queue_ids s) = mset (map fst (reject_later AdmClosed (ad_queue s))) + mset (answered ?o)"
    by (simp only: queue_ids_def mset_reject)
  then have "accounted ?s1 (os @ ?o) = accounted s os" by (simp add: accounted_def adm_close_def queue_ids_def ac_simps)
  then have "fifo_ok (?s1, os @ ?o)" using fifo_okD [OF ok]
    by (intro fifo_okI) (simp_all add: adm_close_def queue_ids_def sorted_wrt_append)
  then show ?thesis by (simp add: adm_close_def)
qed

lemma release_fifo:
  assumes ok: "fifo_ok (s, os)"
  shows "fifo_ok (fst (adm_release pv now n s), os @ snd (adm_release pv now n s))"
  using ok by (auto simp: adm_release_def intro: pump_fifo free_fifo)

lemma adm_step_fifo:
  assumes ok: "fifo_ok (s, os)"
  shows "fifo_ok (fst (adm_step pv s e), os @ snd (adm_step pv s e))"
proof (cases e)
  case (TryAcquire now w)
  then show ?thesis using new_fifo(1,2) [OF ok] by (auto simp: try_acquire_def adm_refuse_def Let_def split: option.splits)
next
  case (Acquire now d)
  then show ?thesis using new_fifo [OF ok] by (auto simp: adm_acquire_def adm_refuse_def Let_def split: option.splits sum.splits)
qed (use ok notified_fifo told_fifo remove_fifo release_fifo close_fifo in simp_all)

interpretation adm_order: run_invariant "\<lambda>r e. case adm_step pv (fst r) e of (s1, os) \<Rightarrow> (s1, snd r @ os)" fifo_ok
  for pv :: "'p provider"
proof (unfold_locales, goal_cases)
  case (1 r e)
  then show ?case using adm_step_fifo [of "fst r" "snd r" pv e] by (simp add: split_beta)
qed

lemma adm_run_fifo: "fifo_ok (adm_run pv (admission_init p) es)"
  unfolding adm_run_def by (rule adm_order.run_inv) (simp add: fifo_ok_def accounted_def queue_ids_def admission_init_def)

subsection \<open>The pool\<close>

text \<open>What a provider promises: a count of permits in use, up to a capacity.\<close>

locale permit_pool =
  fixes pv :: "'p provider" and in_use :: "'p \<Rightarrow> nat" and cap :: nat
  assumes available_iff: "pv_available pv p \<longleftrightarrow> in_use p < cap"
    and use_reserve: "in_use p < cap \<Longrightarrow> in_use (pv_reserve pv p) = Suc (in_use p)"
    and use_release: "0 < in_use p \<Longrightarrow> in_use (pv_release pv p) = in_use p - 1"
begin

text \<open>The permits held are those in use, and none is free while the queue's head is ready.\<close>

definition pool_ok :: "'p admission \<Rightarrow> bool" where
  "pool_ok s \<longleftrightarrow> in_use (ad_pool s) = length (ad_held s) \<and> length (ad_held s) \<le> cap \<and> length (ad_queue s) \<le> pv_waiters pv"

definition busy_ok :: "'p admission \<Rightarrow> bool" where
  "busy_ok s \<longleftrightarrow> ad_closed s \<or> ad_queue s = [] \<or> length (ad_held s) = cap \<or> \<not> w_ready (hd (ad_queue s))"

definition served :: "'p admission \<Rightarrow> bool" where
  "served s \<longleftrightarrow> pool_ok s \<and> busy_ok s"

lemma pump_queue_use:
  assumes "pump_queue pv now q p = (q1, p1, ws)" "in_use p \<le> cap"
  shows "in_use p1 = in_use p + length (ids_in ws) \<and> in_use p1 \<le> cap \<and> length q1 \<le> length q \<and>
    (q1 = [] \<or> in_use p1 = cap \<or> \<not> w_ready (hd q1))"
  using assms
proof (induction q arbitrary: p p1 q1 ws)
  case (Cons w q)
  show ?case
  proof (cases "in_use p < cap")
    case True
    then have le: "in_use (pv_reserve pv p) \<le> cap" "in_use (pv_reserve pv p) = Suc (in_use p)" using use_reserve by simp_all
    consider (late) "w_deadline w \<le> now" | (unready) "\<not> w_deadline w \<le> now" "\<not> w_ready w" | (admit) "\<not> w_deadline w \<le> now" "w_ready w" by blast
    then show ?thesis
    proof cases
      case late
      obtain q2 p2 ws2 where r: "pump_queue pv now q p = (q2, p2, ws2)" by (cases "pump_queue pv now q p") auto
      then show ?thesis using Cons.IH [OF r Cons.prems(2)] Cons.prems(1) True late by (auto simp: available_iff ids_in_def)
    next
      case unready
      then show ?thesis using Cons.prems True by (auto simp: available_iff ids_in_def)
    next
      case admit
      obtain q2 p2 ws2 where r: "pump_queue pv now q (pv_reserve pv p) = (q2, p2, ws2)"
        by (cases "pump_queue pv now q (pv_reserve pv p)") auto
      then show ?thesis using Cons.IH [OF r le(1)] le(2) Cons.prems(1) True admit by (auto simp: available_iff ids_in_def)
    qed
  qed (use Cons.prems in \<open>auto simp: available_iff ids_in_def\<close>)
qed (auto simp: ids_in_def)

lemma pump_served:
  assumes ok: "pool_ok s"
  shows "served (fst (adm_pump pv now s))"
proof (cases "ad_closed s")
  case False
  obtain q p ws where r: "pump_queue pv now (ad_queue s) (ad_pool s) = (q, p, ws)" by (cases "pump_queue pv now (ad_queue s) (ad_pool s)") auto
  have "in_use (ad_pool s) \<le> cap" using ok by (simp add: pool_ok_def)
  note u = pump_queue_use [OF r this]
  show ?thesis using ok u False by (auto simp: adm_pump_def r pool_ok_def busy_ok_def served_def)
qed (use ok in \<open>simp add: adm_pump_def pool_ok_def busy_ok_def served_def\<close>)

lemma then_pump_served: "pool_ok (fst r) \<Longrightarrow> served (fst (then_pump pv now r))"
  by (simp add: then_pump_def pump_served)

lemma free_pool:
  assumes ok: "pool_ok s" and n: "n \<in> set (ad_held s)" "distinct (ad_held s)"
  shows "pool_ok (free_permit pv n s)"
proof -
  have "removeAll n (ad_held s) = remove1 n (ad_held s)" using n(2) by (simp add: distinct_remove1_removeAll)
  then have "length (removeAll n (ad_held s)) = length (ad_held s) - 1" "0 < length (ad_held s)"
    using n(1) by (auto simp: length_remove1 length_pos_if_in_set)
  then show ?thesis using ok use_release [of "ad_pool s"] by (auto simp: pool_ok_def free_permit_def)
qed

lemma shorter_pool: "pool_ok s \<Longrightarrow> length q \<le> length (ad_queue s) \<Longrightarrow> pool_ok (s\<lparr>ad_queue := q\<rparr>)"
  "pool_ok (s\<lparr>ad_leaving := l\<rparr>) = pool_ok s" "pool_ok (s\<lparr>ad_admitting := a\<rparr>) = pool_ok s"
  "busy_ok (s\<lparr>ad_leaving := l\<rparr>) = busy_ok s" "busy_ok (s\<lparr>ad_admitting := a\<rparr>) = busy_ok s"
  by (auto simp: pool_ok_def busy_ok_def)

lemma drop_shorter: "length (drop_waiter n q) \<le> length q" "length (mark_ready n q) \<le> length q"
  by (simp_all add: drop_waiter_def mark_ready_def)

lemma adm_step_served:
  assumes ok: "served s" and f: "fifo_ok (s, os)"
  shows "served (fst (adm_step pv s e))"
proof (cases e)
  case (TryAcquire now w)
  then show ?thesis using ok use_reserve
    by (auto simp: served_def try_acquire_def adm_refuse_def Let_def take_permit_def pool_ok_def busy_ok_def available_iff split: option.splits)
next
  case (Acquire now d)
  then show ?thesis using ok use_reserve
    by (auto simp: served_def adm_acquire_def adm_refuse_def Let_def take_permit_def pool_ok_def busy_ok_def available_iff hd_append split: option.splits sum.splits)
next
  case (Notified now n b)
  have "served (fst (reject_left n x (if b then adm_pump pv now s else (s, []))))" for x
    using ok pump_served by (cases b) (simp_all add: reject_left_def served_def shorter_pool)
  then show ?thesis using Notified ok
    by (auto simp: adm_notified_def served_def shorter_pool drop_shorter intro!: then_pump_served [unfolded served_def] split: option.splits)
next
  case (Told now n b)
  have "n \<in> set (ad_held s)" if "n \<in> set (ad_admitting s)" using that fifo_okD(6) [OF f] by blast
  then show ?thesis using Told ok fifo_okD(5) [OF f] free_pool [of "s\<lparr>ad_admitting := removeAll n (ad_admitting s)\<rparr>" n] then_pump_served
    by (auto simp: adm_told_def Let_def served_def shorter_pool)
next
  case (WaitTimer now n)
  have "pool_ok (s\<lparr>ad_queue := drop_waiter n (ad_queue s), ad_leaving := x\<rparr>)" for x
    using ok by (simp add: served_def shorter_pool drop_shorter)
  then show ?thesis using WaitTimer ok
    by (auto simp: remove_waiter_def intro: then_pump_served split: option.splits)
next
  case (Releases now n)
  have "pool_ok s" using ok by (simp add: served_def)
  then show ?thesis using Releases ok free_pool [OF _ _ fifo_okD(5) [OF f]] pump_served
    by (auto simp: adm_release_def)
next
  case Closes
  then show ?thesis using ok by (simp add: adm_close_def pool_ok_def busy_ok_def served_def)
qed

lemma adm_run_served:
  assumes "in_use p = 0"
  shows "served (fst (adm_run pv (admission_init p) es))"
proof (induction es rule: rev_induct)
  case Nil
  then show ?case using assms by (simp add: adm_run_def admission_init_def served_def pool_ok_def busy_ok_def)
next
  case (snoc e es)
  have "fst (adm_run pv (admission_init p) (es @ [e])) = fst (adm_step pv (fst (adm_run pv (admission_init p) es)) e)"
    by (simp add: adm_run_def split_beta)
  then show ?case using adm_step_served [OF snoc] adm_run_fifo [of pv p es] by (metis prod.collapse)
qed

end

text \<open>The two providers of the workspace files service.\<close>

interpretation mutations: permit_pool "mutation_provider cap w" "\<lambda>n. n" cap for cap w
  by unfold_locales (simp_all add: mutation_provider_def)

interpretation workbooks: permit_pool "native_provider w" "\<lambda>b. if b then 1 else 0" 1 for w
  by unfold_locales (simp_all add: native_provider_def)

subsection \<open>The properties\<close>

text \<open>Claim C34. Whatever arrives, expires, fails, is released or closed, and in whatever order: permits are given in the
  order in which the requests arrived, nobody overtakes a request that still waits, and every request is in exactly one
  place: in the queue, on its way out, being told, or answered once.\<close>

theorem permits_in_order:
  "sorted_wrt (<) (permits (snd (adm_run pv (admission_init p) es)) @ queue_ids (fst (adm_run pv (admission_init p) es))) \<and>
   mset (queue_ids (fst (adm_run pv (admission_init p) es))) + mset (map fst (ad_leaving (fst (adm_run pv (admission_init p) es)))) +
     mset (ad_admitting (fst (adm_run pv (admission_init p) es))) + mset (answered (snd (adm_run pv (admission_init p) es)))
   = mset [0..<ad_next (fst (adm_run pv (admission_init p) es))]"
  using adm_run_fifo [of pv p es] by (simp add: fifo_ok_def accounted_def)

text \<open>No more mutations run than \<open>queueSize\<close> allows and no more than one native reading, whoever forgets to
  release or releases twice; the service's counter is the number of permits held, and the queue is no longer than the
  number of workers.\<close>

theorem permits_bounded:
  "ad_pool (fst (adm_run (mutation_provider cap w) (admission_init 0) es)) =
     length (ad_held (fst (adm_run (mutation_provider cap w) (admission_init 0) es))) \<and>
   length (ad_held (fst (adm_run (mutation_provider cap w) (admission_init 0) es))) \<le> cap \<and>
   length (ad_queue (fst (adm_run (mutation_provider cap w) (admission_init 0) es))) \<le> w \<and>
   length (ad_held (fst (adm_run (native_provider w) (admission_init False) es))) \<le> 1"
proof -
  have "mutations.pool_ok cap w (fst (adm_run (mutation_provider cap w) (admission_init 0) es))"
    using mutations.adm_run_served [of 0 cap w es] by (simp add: mutations.served_def)
  moreover have "workbooks.pool_ok w (fst (adm_run (native_provider w) (admission_init False) es))"
    using workbooks.adm_run_served [of False w es] unfolding workbooks.served_def by simp
  ultimately show ?thesis
    unfolding mutations.pool_ok_def workbooks.pool_ok_def by (simp add: mutation_provider_def)
qed

text \<open>No permit is idle while the service is open and the request at the head of the queue is ready for it: every
  mutation permit is then held by an earlier request.\<close>

theorem no_permit_idles:
  assumes "\<not> ad_closed (fst (adm_run (mutation_provider cap w) (admission_init 0) es))"
    and "ad_queue (fst (adm_run (mutation_provider cap w) (admission_init 0) es)) = x # q" and "w_ready x"
  shows "length (ad_held (fst (adm_run (mutation_provider cap w) (admission_init 0) es))) = cap"
proof -
  have "mutations.busy_ok cap (fst (adm_run (mutation_provider cap w) (admission_init 0) es))"
    using mutations.adm_run_served [of 0 cap w es] by (simp add: mutations.served_def)
  then show ?thesis using assms by (simp add: mutations.busy_ok_def)
qed

text \<open>One permit, one holder, one request that was told it waits.\<close>

definition one_waits :: "adm_event list" where
  "one_waits = [TryAcquire 0 None, Acquire 0 (Some 9), Notified 1 1 True]"

lemma no_permit_idles_witness:
  "ad_held (fst (adm_run (mutation_provider 1 4) (admission_init 0) one_waits)) \<noteq> [] \<and>
   length (ad_held (fst (adm_run (mutation_provider 1 4) (admission_init 0) one_waits))) = 1"
proof -
  have r: "fst (adm_run (mutation_provider 1 4) (admission_init 0) one_waits) =
    \<lparr>ad_queue = [\<lparr>w_id = 1, w_deadline = 9, w_ready = True\<rparr>], ad_closed = False, ad_pool = 1, ad_next = 2, ad_held = [0],
      ad_admitting = [], ad_leaving = []\<rparr>"
    by (simp add: one_waits_def adm_run_def admission_init_def try_acquire_def wait_error_def mutation_provider_def take_permit_def
      adm_acquire_def wait_deadline_def adm_notified_def waiter_of_def then_pump_def adm_pump_def mark_ready_def ids_in_def reject_later_def)
  show ?thesis unfolding r using no_permit_idles [of 1 4 one_waits, unfolded r] by simp
qed

end
