(* ===== verification/Activity.thy ===== *)
theory Activity
  imports Main Ordered_Map
begin

text \<open>
  What the machine tells the backend about its work (runtime/lib/activity.js, \<open>ActivityReporter\<close>) and how the broker feeds it
  (runtime/lib/session-broker.js: the turn's start and end, permission requests and answers). Reports are captured when
  something changes and posted one at a time, in order: \<open>ac_posts\<close> lists those not yet finished, the first one in flight.
  Times are \<open>Date.now()\<close> in milliseconds.
\<close>

datatype act_state = ActIdle | ActPrompt | ActPermission

datatype agent_state = AgIdle | AgWorking | AgNeedsInput

record act_turn =
  at_state :: act_state
  at_started :: int
  at_noticed :: bool

record agent_info =
  ag_state :: agent_state
  ag_completed :: "int option"

record act_report =
  ar_state :: act_state
  ar_session :: "string option"
  ar_agent :: agent_info

record act_config =
  af_aggregate :: bool
  af_url_token :: bool \<comment> \<open>both the URL and the token are set\<close>
  af_storage_ms :: int
  af_max_turn_ms :: int

record activity =
  ac_turns :: "(string, act_turn) omap"
  ac_timer :: bool
  ac_storage_timer :: bool
  ac_completed :: "int option"
  ac_warned :: bool
  ac_posts :: "act_report list"

datatype act_out =
    Posts act_report \<comment> \<open>the POST goes out, with the volume's usage as it is then\<close>
  | WarnsMissing
  | AgeNotice string

type_synonym act_result = "activity \<times> act_out list"

definition activity_init :: activity where
  "activity_init = \<lparr>ac_turns = [], ac_timer = False, ac_storage_timer = False, ac_completed = None, ac_warned = False, ac_posts = []\<rparr>"

subsection \<open>The state it reports\<close>

definition agent_state_of :: "act_state \<Rightarrow> agent_state" where
  "agent_state_of s = (case s of ActIdle \<Rightarrow> AgIdle | ActPrompt \<Rightarrow> AgWorking | ActPermission \<Rightarrow> AgNeedsInput)"

definition act_state_of :: "activity \<Rightarrow> act_state" where
  "act_state_of s =
    (let active = map snd (ac_turns s) in
     if list_ex (\<lambda>t. at_state t = ActPermission) active then ActPermission
     else if active \<noteq> [] then ActPrompt else ActIdle)"

definition agent_of :: "activity \<Rightarrow> agent_info" where
  "agent_of s = \<lparr>ag_state = agent_state_of (act_state_of s), ag_completed = ac_completed s\<rparr>"

definition first_turn :: "activity \<Rightarrow> string option" where
  "first_turn s = (case ac_turns s of [] \<Rightarrow> None | (i, t) # _ \<Rightarrow> Some i)"

definition act_enabled :: "act_config \<Rightarrow> bool" where
  "act_enabled cfg \<longleftrightarrow> \<not> af_aggregate cfg \<and> af_url_token cfg"

text \<open>\<open>#send\<close>.\<close>

definition act_send :: "act_config \<Rightarrow> string option \<Rightarrow> activity \<Rightarrow> act_result" where
  "act_send cfg i s =
    (if af_aggregate cfg then (s, [])
     else if \<not> act_enabled cfg then (s\<lparr>ac_warned := True\<rparr>, if ac_warned s then [] else [WarnsMissing])
     else (let r = \<lparr>ar_state = act_state_of s, ar_session = i, ar_agent = agent_of s\<rparr> in
           (s\<lparr>ac_posts := ac_posts s @ [r]\<rparr>, if ac_posts s = [] then [Posts r] else [])))"

text \<open>A POST was answered, refused or timed out; the next one goes out.\<close>

definition post_over :: "activity \<Rightarrow> act_result" where
  "post_over s =
    (let rest = tl (ac_posts s) in
     (s\<lparr>ac_posts := rest\<rparr>, case rest of [] \<Rightarrow> [] | r # _ \<Rightarrow> [Posts r]))"

subsection \<open>Operations\<close>

definition act_start :: "act_config \<Rightarrow> int \<Rightarrow> string \<Rightarrow> act_state \<Rightarrow> activity \<Rightarrow> act_result" where
  "act_start cfg now i st s =
    act_send cfg (Some i) (s\<lparr>ac_turns := om_set i \<lparr>at_state = st, at_started = now, at_noticed = False\<rparr> (ac_turns s), ac_timer := True\<rparr>)"

definition act_set_state :: "act_config \<Rightarrow> string \<Rightarrow> act_state \<Rightarrow> activity \<Rightarrow> act_result" where
  "act_set_state cfg i st s =
    (case om_get (ac_turns s) i of
       None \<Rightarrow> (s, [])
     | Some t \<Rightarrow>
        (let s1 = s\<lparr>ac_turns := om_set i (t\<lparr>at_state := st\<rparr>) (ac_turns s)\<rparr> in
         if act_state_of s1 \<noteq> act_state_of s then act_send cfg (Some i) s1 else (s1, [])))"

definition act_stop :: "act_config \<Rightarrow> int \<Rightarrow> string \<Rightarrow> bool \<Rightarrow> activity \<Rightarrow> act_result" where
  "act_stop cfg now i completed s =
    (let turn = om_get (ac_turns s) i;
         left = om_delete i (ac_turns s);
         s1 = s\<lparr>ac_turns := left, ac_completed := (if turn \<noteq> None \<and> completed then Some now else ac_completed s),
                ac_timer := (if left = [] then False else ac_timer s)\<rparr>
     in if turn \<noteq> None then act_send cfg (Some i) s1 else (s1, []))"

text \<open>\<open>#noticeAge\<close>: a turn that is too old is told once, and goes on.\<close>

definition too_old :: "act_config \<Rightarrow> int \<Rightarrow> act_turn \<Rightarrow> bool" where
  "too_old cfg now t \<longleftrightarrow> af_max_turn_ms cfg > 0 \<and> \<not> at_noticed t \<and> now - at_started t > af_max_turn_ms cfg"

definition notice_age :: "act_config \<Rightarrow> int \<Rightarrow> activity \<Rightarrow> act_result" where
  "notice_age cfg now s =
    (s\<lparr>ac_turns := map (\<lambda>(i, t). (i, if too_old cfg now t then t\<lparr>at_noticed := True\<rparr> else t)) (ac_turns s)\<rparr>,
     map (\<lambda>(i, t). AgeNotice i) (filter (\<lambda>(i, t). too_old cfg now t) (ac_turns s)))"

definition act_tick :: "act_config \<Rightarrow> int \<Rightarrow> activity \<Rightarrow> act_result" where
  "act_tick cfg now s =
    (let r = notice_age cfg now s in
     if act_state_of (fst r) = ActIdle then r
     else (case act_send cfg (first_turn (fst r)) (fst r) of (s2, os) \<Rightarrow> (s2, snd r @ os)))"

definition start_storage_reports :: "act_config \<Rightarrow> activity \<Rightarrow> act_result" where
  "start_storage_reports cfg s =
    (if \<not> act_enabled cfg \<or> \<not> af_storage_ms cfg > 0 \<or> ac_storage_timer s then (s, [])
     else act_send cfg (first_turn s) (s\<lparr>ac_storage_timer := True\<rparr>))"

definition act_close :: "activity \<Rightarrow> activity" where
  "act_close s = s\<lparr>ac_timer := False, ac_storage_timer := False\<rparr>"

subsection \<open>Its feed\<close>

text \<open>The part of a conversation that calls the reporter. \<open>fd_asked\<close> are its pending permission requests; those in
  \<open>fd_writing\<close> are still being written to the log.\<close>

datatype feed_turn = FeedIdle | FeedRunning | FeedEnding

record feed =
  fd_turn :: feed_turn
  fd_begun :: bool \<comment> \<open>\<open>activity.start\<close> was called for this turn\<close>
  fd_asked :: "nat list"
  fd_writing :: "nat list"
  fd_seen :: "nat list" \<comment> \<open>pending ones that were told to the reporter\<close>

record machine =
  mc_feeds :: "string \<Rightarrow> feed"
  mc_activity :: activity
  mc_log :: "act_report list" \<comment> \<open>every report captured, oldest first\<close>

definition no_feed :: feed where
  "no_feed = \<lparr>fd_turn = FeedIdle, fd_begun = False, fd_asked = [], fd_writing = [], fd_seen = []\<rparr>"

definition machine_init :: machine where
  "machine_init = \<lparr>mc_feeds = (\<lambda>_. no_feed), mc_activity = activity_init, mc_log = []\<rparr>"

definition on_feed :: "string \<Rightarrow> (feed \<Rightarrow> feed) \<Rightarrow> machine \<Rightarrow> machine" where
  "on_feed i f m = m\<lparr>mc_feeds := (mc_feeds m)(i := f (mc_feeds m i))\<rparr>"

text \<open>The reporter's operation, with what it captured.\<close>

definition tells :: "(activity \<Rightarrow> act_result) \<Rightarrow> machine \<Rightarrow> machine" where
  "tells f m =
    (let a = mc_activity m; b = fst (f a) in
     m\<lparr>mc_activity := b, mc_log := mc_log m @ drop (length (ac_posts a)) (ac_posts b)\<rparr>)"

datatype feed_event =
    TurnRuns string
  | TurnBegins int string
  | Asks string nat
  | AskWritten string nat
  | AskAnswered string nat
  | TurnCloses string
  | TurnIsOver int string bool
  | Ticks int
  | StorageStarts
  | StorageTicks
  | PostOver
  | ReporterCloses

definition ask_written :: "act_config \<Rightarrow> string \<Rightarrow> nat \<Rightarrow> machine \<Rightarrow> machine" where
  "ask_written cfg i q m =
    (if q \<notin> set (fd_writing (mc_feeds m i)) then m
     else (let m1 = on_feed i (\<lambda>f. f\<lparr>fd_writing := removeAll q (fd_writing f),
                 fd_seen := (if fd_turn f = FeedRunning \<and> fd_begun f \<and> q \<in> set (fd_asked f) then q # fd_seen f else fd_seen f)\<rparr>) m in
           if fd_turn (mc_feeds m i) = FeedRunning then tells (act_set_state cfg i ActPermission) m1 else m1))"

definition ask_answered :: "act_config \<Rightarrow> string \<Rightarrow> nat \<Rightarrow> machine \<Rightarrow> machine" where
  "ask_answered cfg i q m =
    (if q \<notin> set (fd_asked (mc_feeds m i)) then m
     else (let m1 = on_feed i (\<lambda>f. f\<lparr>fd_asked := removeAll q (fd_asked f), fd_seen := removeAll q (fd_seen f)\<rparr>) m in
           if fd_turn (mc_feeds m1 i) = FeedRunning \<and> fd_asked (mc_feeds m1 i) = []
           then tells (act_set_state cfg i ActPrompt) m1 else m1))"

fun machine_step :: "act_config \<Rightarrow> machine \<Rightarrow> feed_event \<Rightarrow> machine" where
  "machine_step cfg m (TurnRuns i) =
     (if fd_turn (mc_feeds m i) = FeedIdle then on_feed i (\<lambda>f. f\<lparr>fd_turn := FeedRunning, fd_begun := False\<rparr>) m else m)"
| "machine_step cfg m (TurnBegins now i) =
     (if fd_turn (mc_feeds m i) = FeedRunning \<and> \<not> fd_begun (mc_feeds m i)
      then tells (act_start cfg now i ActPrompt) (on_feed i (\<lambda>f. f\<lparr>fd_begun := True\<rparr>) m) else m)"
| "machine_step cfg m (Asks i q) =
     (if q \<in> set (fd_asked (mc_feeds m i)) \<union> set (fd_writing (mc_feeds m i)) then m
      else on_feed i (\<lambda>f. f\<lparr>fd_asked := fd_asked f @ [q], fd_writing := fd_writing f @ [q]\<rparr>) m)"
| "machine_step cfg m (AskWritten i q) = ask_written cfg i q m"
| "machine_step cfg m (AskAnswered i q) = ask_answered cfg i q m"
| "machine_step cfg m (TurnCloses i) =
     (if fd_turn (mc_feeds m i) = FeedRunning then on_feed i (\<lambda>f. f\<lparr>fd_turn := FeedEnding, fd_asked := [], fd_seen := []\<rparr>) m else m)"
| "machine_step cfg m (TurnIsOver now i completed) =
     (if fd_turn (mc_feeds m i) = FeedEnding
      then tells (act_stop cfg now i completed) (on_feed i (\<lambda>f. f\<lparr>fd_turn := FeedIdle, fd_begun := False\<rparr>) m) else m)"
| "machine_step cfg m (Ticks now) = (if ac_timer (mc_activity m) then tells (act_tick cfg now) m else m)"
| "machine_step cfg m StorageStarts = tells (start_storage_reports cfg) m"
| "machine_step cfg m StorageTicks =
     (if ac_storage_timer (mc_activity m) then tells (\<lambda>s. act_send cfg (first_turn s) s) m else m)"
| "machine_step cfg m PostOver = m\<lparr>mc_activity := fst (post_over (mc_activity m))\<rparr>"
| "machine_step cfg m ReporterCloses = m\<lparr>mc_activity := act_close (mc_activity m)\<rparr>"

definition machine_run :: "act_config \<Rightarrow> machine \<Rightarrow> feed_event list \<Rightarrow> machine" where
  "machine_run cfg = foldl (machine_step cfg)"

end
