(* ===== verification/Root_Activity.thy ===== *)
theory Root_Activity
  imports Js_Value Activity
begin

text \<open>
  The machine's reporter outside the gateway (runtime/lib/root-activity.js): it polls its sources (the gateway and the file
  service), puts their work together and posts it. A poll is suspended while it reads, while \<open>onSnapshot\<close> runs and while it
  posts; polls share one another (\<open>inflight\<close>). \<open>dp\<close> is \<open>Date.parse\<close>, \<open>None\<close> for NaN, and \<open>isot\<close> is \<open>toISOString\<close>.
  The answers of sources are JSON; \<open>None\<close> is a TypeError, which fails the poll.
\<close>

definition known_states :: "js set" where
  "known_states = {JStr ''idle'', JStr ''prompt_running'', JStr ''permission_pending''}"

definition observed_at :: "(js \<Rightarrow> rat option) \<Rightarrow> js \<Rightarrow> rat option" where
  "observed_at dp src = dp (js_or_null (js_field src ''observedAt'') (js_field src ''checkedAt''))"

definition agent_states :: "js set" where
  "agent_states = {JStr ''idle'', JStr ''working'', JStr ''needs_input''}"

record root_agent =
  ra_state :: js
  ra_completed :: "string option"

definition source_agent :: "(js \<Rightarrow> rat option) \<Rightarrow> (rat \<Rightarrow> string) \<Rightarrow> js \<Rightarrow> root_agent option" where
  "source_agent dp isot src =
    (let a = js_field src ''agent'' in
     if \<not> truthy a \<or> js_field a ''state'' \<notin> agent_states then None
     else Some \<lparr>ra_state = js_field a ''state'', ra_completed = map_option isot (dp (js_field a ''turn_completed_at''))\<rparr>)"

subsection \<open>The gateway's answer\<close>

text \<open>\<open>ActivityReporter.snapshot\<close> (runtime/lib/activity.js), which the gateway serves as one of the sources.\<close>

definition state_text :: "act_state \<Rightarrow> js" where
  "state_text s = JStr (case s of ActIdle \<Rightarrow> ''idle'' | ActPrompt \<Rightarrow> ''prompt_running'' | ActPermission \<Rightarrow> ''permission_pending'')"

definition agent_text :: "agent_state \<Rightarrow> js" where
  "agent_text s = JStr (case s of AgIdle \<Rightarrow> ''idle'' | AgWorking \<Rightarrow> ''working'' | AgNeedsInput \<Rightarrow> ''needs_input'')"

definition turn_interest :: "(rat \<Rightarrow> string) \<Rightarrow> string \<times> act_turn \<Rightarrow> js" where
  "turn_interest isot x = JObj [(''id'', JStr (fst x)), (''session_id'', JStr (fst x)), (''state'', state_text (at_state (snd x))),
     (''startedAt'', JStr (isot (of_int (at_started (snd x))))), (''capped'', JBool False), (''ageNoticed'', JBool (at_noticed (snd x)))]"

definition act_snapshot :: "(rat \<Rightarrow> string) \<Rightarrow> act_config \<Rightarrow> int \<Rightarrow> activity \<Rightarrow> activity \<times> js" where
  "act_snapshot isot cfg now s =
    (let s1 = fst (notice_age cfg now s) in
     (s1, JObj [(''state'', state_text (act_state_of s1)),
        (''session_id'', case first_turn s1 of None \<Rightarrow> JNull | Some i \<Rightarrow> JStr i),
        (''agent'', JObj [(''state'', agent_text (ag_state (agent_of s1))),
           (''turn_completed_at'', case ag_completed (agent_of s1) of None \<Rightarrow> JNull | Some t \<Rightarrow> JStr (isot (of_int t)))]),
        (''observedAt'', JStr (isot (of_int now))),
        (''interests'', JArr (map (turn_interest isot) (ac_turns s1)))]))"

subsection \<open>Putting sources together\<close>

record expired_interest =
  ex_id :: js
  ex_at :: js

record aggregate =
  ga_active :: "(js \<times> js) list" \<comment> \<open>state, session\<close>
  ga_expired :: "expired_interest list"
  ga_unknown :: bool

definition fresh_source :: "(js \<Rightarrow> rat option) \<Rightarrow> rat \<Rightarrow> rat \<Rightarrow> js \<Rightarrow> bool" where
  "fresh_source dp now freshness src \<longleftrightarrow> truthy src \<and> js_field src ''state'' \<in> known_states \<and>
    (case observed_at dp src of None \<Rightarrow> False | Some t \<Rightarrow> \<not> now - t > freshness)"

text \<open>\<open>source.interests ?? []\<close> as \<open>for\<close> walks it.\<close>

fun interests_of :: "js \<Rightarrow> js list option" where
  "interests_of (JArr xs) = Some xs"
| "interests_of JUndef = Some []"
| "interests_of JNull = Some []"
| "interests_of (JStr []) = Some []"
| "interests_of _ = None"

definition null_session :: "js \<Rightarrow> js" where
  "null_session v = js_or_null v JNull"

definition capped :: "rat \<Rightarrow> rat \<Rightarrow> rat \<Rightarrow> js \<Rightarrow> bool" where
  "capped now cap started interest =
    (let c = js_field interest ''capped'' in if nullish c then cap > 0 \<and> now \<ge> started + cap else truthy c)"

definition add_interest :: "(js \<Rightarrow> rat option) \<Rightarrow> (rat \<Rightarrow> string) \<Rightarrow> rat \<Rightarrow> rat \<Rightarrow> js \<Rightarrow> js \<Rightarrow> aggregate \<Rightarrow> aggregate option" where
  "add_interest dp isot now cap src interest g =
    (if nullish interest then None
     else (case dp (js_field interest ''startedAt'') of
       None \<Rightarrow> Some (g\<lparr>ga_unknown := True\<rparr>)
     | Some started \<Rightarrow>
         if js_field interest ''state'' \<notin> known_states then Some (g\<lparr>ga_unknown := True\<rparr>)
         else if capped now cap started interest
         then Some (g\<lparr>ga_expired := ga_expired g @ [\<lparr>ex_id = js_field interest ''id'',
                ex_at = js_or_null (js_field interest ''expiredAt'') (JStr (isot (started + cap)))\<rparr>]\<rparr>)
         else if js_field interest ''state'' \<noteq> JStr ''idle''
         then Some (g\<lparr>ga_active := ga_active g @ [(js_field interest ''state'',
                js_or_null (js_field interest ''session_id'') (null_session (js_field src ''session_id'')))]\<rparr>)
         else Some g))"

fun add_interests :: "(js \<Rightarrow> rat option) \<Rightarrow> (rat \<Rightarrow> string) \<Rightarrow> rat \<Rightarrow> rat \<Rightarrow> js \<Rightarrow> js list \<Rightarrow> aggregate \<Rightarrow> aggregate option" where
  "add_interests dp isot now cap src [] g = Some g"
| "add_interests dp isot now cap src (x # xs) g =
    (case add_interest dp isot now cap src x g of None \<Rightarrow> None | Some g1 \<Rightarrow> add_interests dp isot now cap src xs g1)"

text \<open>\<open>interests?.length\<close> is truthy.\<close>

definition has_interests :: "js \<Rightarrow> bool" where
  "has_interests src = (case js_field src ''interests'' of JArr xs \<Rightarrow> xs \<noteq> [] | JStr s \<Rightarrow> s \<noteq> [] | JObj ps \<Rightarrow> truthy (js_field (JObj ps) ''length'') | _ \<Rightarrow> False)"

definition add_source :: "(js \<Rightarrow> rat option) \<Rightarrow> (rat \<Rightarrow> string) \<Rightarrow> rat \<Rightarrow> rat \<Rightarrow> rat \<Rightarrow> js \<Rightarrow> aggregate \<Rightarrow> aggregate option" where
  "add_source dp isot now cap freshness src g =
    (if \<not> fresh_source dp now freshness src then Some (g\<lparr>ga_unknown := True\<rparr>)
     else (let g1 = (if js_field src ''state'' \<noteq> JStr ''idle'' \<and> \<not> has_interests src
                     then g\<lparr>ga_active := ga_active g @ [(js_field src ''state'', null_session (js_field src ''session_id''))]\<rparr> else g) in
           case interests_of (js_field src ''interests'') of
             None \<Rightarrow> None
           | Some xs \<Rightarrow> add_interests dp isot now cap src xs g1))"

fun add_sources :: "(js \<Rightarrow> rat option) \<Rightarrow> (rat \<Rightarrow> string) \<Rightarrow> rat \<Rightarrow> rat \<Rightarrow> rat \<Rightarrow> js list \<Rightarrow> aggregate \<Rightarrow> aggregate option" where
  "add_sources dp isot now cap freshness [] g = Some g"
| "add_sources dp isot now cap freshness (s # ss) g =
    (case add_source dp isot now cap freshness s g of None \<Rightarrow> None | Some g1 \<Rightarrow> add_sources dp isot now cap freshness ss g1)"

record machine_state =
  ms_state :: js
  ms_session :: js
  ms_expired :: "expired_interest list"
  ms_unknown :: bool

definition aggregate_activity :: "(js \<Rightarrow> rat option) \<Rightarrow> (rat \<Rightarrow> string) \<Rightarrow> rat \<Rightarrow> rat \<Rightarrow> rat \<Rightarrow> js list \<Rightarrow> machine_state option" where
  "aggregate_activity dp isot now cap freshness sources =
    (case add_sources dp isot now cap freshness sources \<lparr>ga_active = [], ga_expired = [], ga_unknown = False\<rparr> of
       None \<Rightarrow> None
     | Some g \<Rightarrow>
        (let perm = List.find (\<lambda>x. fst x = JStr ''permission_pending'') (ga_active g);
             named = (case perm of Some x \<Rightarrow> Some x | None \<Rightarrow> List.find (\<lambda>x. truthy (snd x)) (ga_active g))
         in Some \<lparr>ms_state = (if perm \<noteq> None then JStr ''permission_pending''
                    else if ga_active g \<noteq> [] \<or> ga_unknown g then JStr ''prompt_running'' else JStr ''idle''),
                  ms_session = (case named of None \<Rightarrow> JNull | Some x \<Rightarrow> null_session (snd x)),
                  ms_expired = ga_expired g, ms_unknown = ga_unknown g\<rparr>))"

subsection \<open>Polling\<close>

record root_config =
  rc_cap :: rat \<comment> \<open>\<open>maxInterestMs\<close>\<close>
  rc_target :: bool \<comment> \<open>both the URL and the token are set\<close>

record post_body =
  pb_state :: js
  pb_session :: js
  pb_agent :: root_agent

datatype poll_phase =
    NoPoll
  | PollReads rat
  | PollTells machine_state bool "(js \<times> root_agent) option" \<comment> \<open>\<open>onSnapshot\<close>; expired unknown, gateway's state\<close>
  | PollPosts post_body "(js \<times> root_agent) option"

record root_reporter =
  rr_phase :: poll_phase
  rr_closed :: bool
  rr_last_state :: "js option"
  rr_last_agent :: "root_agent option"
  rr_agent :: root_agent
  rr_storage_due :: bool
  rr_watched :: "(js \<times> root_agent) option"
  rr_unknown :: "nat \<Rightarrow> rat option" \<comment> \<open>\<open>unknownSince\<close>\<close>

definition root_init :: root_reporter where
  "root_init = \<lparr>rr_phase = NoPoll, rr_closed = False, rr_last_state = None, rr_last_agent = None,
     rr_agent = \<lparr>ra_state = JStr ''idle'', ra_completed = None\<rparr>, rr_storage_due = False, rr_watched = None, rr_unknown = (\<lambda>_. None)\<rparr>"

definition root_tick :: "rat \<Rightarrow> root_reporter \<Rightarrow> root_reporter" where
  "root_tick now s = (if rr_closed s \<or> rr_phase s \<noteq> NoPoll then s else s\<lparr>rr_phase := PollReads now\<rparr>)"

text \<open>What a source that did not answer, or not with fresh news, counts as.\<close>

definition unknown_source :: "(rat \<Rightarrow> string) \<Rightarrow> (nat \<Rightarrow> string) \<Rightarrow> rat \<Rightarrow> nat \<Rightarrow> rat \<Rightarrow> js" where
  "unknown_source isot dec now i started =
    JObj [(''state'', JStr ''prompt_running''), (''observedAt'', JStr (isot now)),
      (''interests'', JArr [JObj [(''id'', JStr (''source_'' @ dec i @ ''_unknown'')), (''state'', JStr ''prompt_running''),
         (''startedAt'', JStr (isot started))]])]"

definition read_source :: "(js \<Rightarrow> rat option) \<Rightarrow> (rat \<Rightarrow> string) \<Rightarrow> (nat \<Rightarrow> string) \<Rightarrow> rat \<Rightarrow> rat \<Rightarrow> (nat \<Rightarrow> rat option) \<Rightarrow> nat \<times> js
    \<Rightarrow> js \<times> rat option \<times> bool" where
  "read_source dp isot dec cap now since x =
    (if fresh_source dp now 15000 (snd x) then (snd x, None, False)
     else (let started = (case since (fst x) of Some t \<Rightarrow> t | None \<Rightarrow> now) in
           (unknown_source isot dec now (fst x) started, Some started, cap > 0 \<and> now \<ge> started + cap)))"

text \<open>Every source answered (a rejected read is \<open>JNull\<close>).\<close>

definition reads_done :: "(js \<Rightarrow> rat option) \<Rightarrow> (rat \<Rightarrow> string) \<Rightarrow> (nat \<Rightarrow> string) \<Rightarrow> root_config \<Rightarrow> js list \<Rightarrow> root_reporter \<Rightarrow> root_reporter" where
  "reads_done dp isot dec cfg answers s =
    (case rr_phase s of
       PollReads now \<Rightarrow>
        (let rs = map (read_source dp isot dec (rc_cap cfg) now (rr_unknown s)) (zip [0..<length answers] answers);
             snapshots = map fst rs;
             since = (\<lambda>i. if i < length rs then fst (snd (rs ! i)) else rr_unknown s i);
             s1 = s\<lparr>rr_unknown := since\<rparr>
         in case aggregate_activity dp isot now (rc_cap cfg) 15000 snapshots of
              None \<Rightarrow> s1\<lparr>rr_phase := NoPoll\<rparr>
            | Some g \<Rightarrow>
               (let gateway = List.find (\<lambda>src. source_agent dp isot src \<noteq> None) snapshots;
                    agent = (case gateway of None \<Rightarrow> None | Some src \<Rightarrow> source_agent dp isot src);
                    watched = (case (gateway, agent) of (Some src, Some a) \<Rightarrow> Some (js_field src ''state'', a) | _ \<Rightarrow> None)
                in s1\<lparr>rr_agent := (case agent of Some a \<Rightarrow> a | None \<Rightarrow> rr_agent s1),
                      rr_phase := PollTells g (list_ex (\<lambda>x. snd (snd x)) rs) watched\<rparr>))
     | _ \<Rightarrow> s)"

definition acknowledge :: "(js \<times> root_agent) option \<Rightarrow> root_reporter \<Rightarrow> root_reporter" where
  "acknowledge w s = (if w \<noteq> None then s\<lparr>rr_watched := w\<rparr> else s)"

text \<open>\<open>onSnapshot\<close> is over: post, or nothing to say.\<close>

definition snapshot_told :: "root_config \<Rightarrow> bool \<Rightarrow> root_reporter \<Rightarrow> root_reporter \<times> post_body list" where
  "snapshot_told cfg ok s =
    (case rr_phase s of
       PollTells g expired w \<Rightarrow>
        (let over = s\<lparr>rr_phase := NoPoll\<rparr> in
         if \<not> ok \<or> (expired \<and> ms_state g = JStr ''idle'') \<or> \<not> rc_target cfg then (over, [])
         else if ms_state g = JStr ''idle'' \<and> rr_last_state s = Some (JStr ''idle'') \<and> rr_last_agent s = Some (rr_agent s) \<and> \<not> rr_storage_due s
         then (acknowledge w (over\<lparr>rr_storage_due := False\<rparr>), [])
         else (let body = \<lparr>pb_state = ms_state g, pb_session = ms_session g, pb_agent = rr_agent s\<rparr> in
               (s\<lparr>rr_storage_due := False, rr_phase := PollPosts body w\<rparr>, [body])))
     | _ \<Rightarrow> (s, []))"

definition post_done :: "bool \<Rightarrow> root_reporter \<Rightarrow> root_reporter" where
  "post_done ok s =
    (case rr_phase s of
       PollPosts body w \<Rightarrow>
        (let over = s\<lparr>rr_phase := NoPoll\<rparr> in
         if ok then acknowledge w (over\<lparr>rr_last_state := Some (pb_state body), rr_last_agent := Some (pb_agent body)\<rparr>) else over)
     | _ \<Rightarrow> s)"

datatype root_event =
    RootTick rat
  | StorageDue
  | ReadsDone "js list"
  | SnapshotTold bool
  | PostDone bool
  | RootCloses

text \<open>A step, with the bodies that were posted and those that were accepted.\<close>

fun root_step :: "(js \<Rightarrow> rat option) \<Rightarrow> (rat \<Rightarrow> string) \<Rightarrow> (nat \<Rightarrow> string) \<Rightarrow> root_config \<Rightarrow> root_reporter \<Rightarrow> root_event
    \<Rightarrow> root_reporter \<times> post_body list \<times> post_body list" where
  "root_step dp isot dec cfg s (RootTick now) = (root_tick now s, [], [])"
| "root_step dp isot dec cfg s StorageDue = (s\<lparr>rr_storage_due := True\<rparr>, [], [])"
| "root_step dp isot dec cfg s (ReadsDone answers) = (reads_done dp isot dec cfg answers s, [], [])"
| "root_step dp isot dec cfg s (SnapshotTold ok) = (case snapshot_told cfg ok s of (s1, ps) \<Rightarrow> (s1, ps, []))"
| "root_step dp isot dec cfg s (PostDone ok) =
    (post_done ok s, [], case rr_phase s of PollPosts b w \<Rightarrow> if ok then [b] else [] | _ \<Rightarrow> [])"
| "root_step dp isot dec cfg s RootCloses = (s\<lparr>rr_closed := True\<rparr>, [], [])"

definition root_run :: "(js \<Rightarrow> rat option) \<Rightarrow> (rat \<Rightarrow> string) \<Rightarrow> (nat \<Rightarrow> string) \<Rightarrow> root_config \<Rightarrow> root_reporter \<Rightarrow> root_event list
    \<Rightarrow> root_reporter \<times> post_body list \<times> post_body list" where
  "root_run dp isot dec cfg s es =
    foldl (\<lambda>r e. case root_step dp isot dec cfg (fst r) e of (s1, ps, as) \<Rightarrow> (s1, fst (snd r) @ ps, snd (snd r) @ as)) (s, [], []) es"

end
