(* ===== verification/Activity_Props.thy ===== *)
theory Activity_Props
  imports Activity Run_System
begin

text \<open>
  The backend's view of the agent (runtime/lib/activity.js): the last report captured says what the agent is doing now, the
  posts follow the order of the reports, and a question to the user that was reported once is shown until it is answered.
\<close>

subsection \<open>Reports follow the state\<close>

definition agent_at_boot :: agent_info where
  "agent_at_boot = \<lparr>ag_state = AgIdle, ag_completed = None\<rparr>"

text \<open>What the backend knows once it has seen these reports.\<close>

definition known_agent :: "act_report list \<Rightarrow> agent_info" where
  "known_agent rs = (case rev rs of [] \<Rightarrow> agent_at_boot | r # _ \<Rightarrow> ar_agent r)"

definition captured :: "activity \<Rightarrow> activity \<Rightarrow> act_report list" where
  "captured a b = drop (length (ac_posts a)) (ac_posts b)"

lemma act_send_simps [simp]:
  "ac_turns (fst (act_send cfg i s)) = ac_turns s" "ac_completed (fst (act_send cfg i s)) = ac_completed s"
  "ac_timer (fst (act_send cfg i s)) = ac_timer s" "act_state_of (fst (act_send cfg i s)) = act_state_of s"
  "agent_of (fst (act_send cfg i s)) = agent_of s"
proof -
  have t: "ac_turns (fst (act_send cfg i s)) = ac_turns s" "ac_completed (fst (act_send cfg i s)) = ac_completed s"
    "ac_timer (fst (act_send cfg i s)) = ac_timer s" by (simp_all add: act_send_def Let_def)
  then have "act_state_of (fst (act_send cfg i s)) = act_state_of s" by (simp add: act_state_of_def)
  then show "ac_turns (fst (act_send cfg i s)) = ac_turns s" "ac_completed (fst (act_send cfg i s)) = ac_completed s"
    "ac_timer (fst (act_send cfg i s)) = ac_timer s" "act_state_of (fst (act_send cfg i s)) = act_state_of s"
    "agent_of (fst (act_send cfg i s)) = agent_of s" using t by (simp_all add: agent_of_def)
qed

lemma act_send_posts: "act_enabled cfg \<Longrightarrow>
   ac_posts (fst (act_send cfg i s)) = ac_posts s @ [\<lparr>ar_state = act_state_of s, ar_session = i, ar_agent = agent_of s\<rparr>]"
  by (simp add: act_send_def act_enabled_def Let_def)

text \<open>An operation that follows the state: it appends reports, the last of which says the new state if it changed.\<close>

definition follows :: "act_config \<Rightarrow> (activity \<Rightarrow> act_result) \<Rightarrow> bool" where
  "follows cfg f \<longleftrightarrow> (\<forall>a. \<exists>rs. ac_posts (fst (f a)) = ac_posts a @ rs \<and>
     (if rs = [] then agent_of (fst (f a)) = agent_of a else ar_agent (last rs) = agent_of (fst (f a))))"

lemma followsI:
  assumes "\<And>a. (ac_posts (fst (f a)) = ac_posts a \<and> agent_of (fst (f a)) = agent_of a) \<or>
    (\<exists>r. ac_posts (fst (f a)) = ac_posts a @ [r] \<and> ar_agent r = agent_of (fst (f a)))"
  shows "follows cfg f"
  unfolding follows_def
proof
  fix a
  consider "ac_posts (fst (f a)) = ac_posts a" "agent_of (fst (f a)) = agent_of a"
    | r where "ac_posts (fst (f a)) = ac_posts a @ [r]" "ar_agent r = agent_of (fst (f a))" using assms [of a] by blast
  then show "\<exists>rs. ac_posts (fst (f a)) = ac_posts a @ rs \<and>
     (if rs = [] then agent_of (fst (f a)) = agent_of a else ar_agent (last rs) = agent_of (fst (f a)))"
    by cases (auto intro: exI [of _ "[]"])
qed

lemma state_idle_iff: "act_state_of a = ActIdle \<longleftrightarrow> ac_turns a = []"
  by (auto simp: act_state_of_def Let_def)

lemma same_turns_agent: "ac_turns a' = ac_turns a \<Longrightarrow> ac_completed a' = ac_completed a \<Longrightarrow> agent_of a' = agent_of a"
  by (simp add: agent_of_def act_state_of_def)

lemma om_delete_absent: "om_get m k = None \<Longrightarrow> om_delete k m = m"
  by (induction m) (auto simp: om_delete_def om_get_def split: if_splits)

lemma notice_age_state [simp]: "act_state_of (fst (notice_age cfg now a)) = act_state_of a"
  "agent_of (fst (notice_age cfg now a)) = agent_of a" "ac_posts (fst (notice_age cfg now a)) = ac_posts a"
proof -
  have "list_ex (\<lambda>t. at_state t = ActPermission) (map snd (map (\<lambda>(i, t). (i, if too_old cfg now t then t\<lparr>at_noticed := True\<rparr> else t)) xs))
      = list_ex (\<lambda>t. at_state t = ActPermission) (map snd xs)" for xs :: "(string \<times> act_turn) list"
    by (induction xs) (auto split: if_splits)
  note pending = this [of "ac_turns a"]
  have t: "ac_turns (fst (notice_age cfg now a)) = map (\<lambda>(i, t). (i, if too_old cfg now t then t\<lparr>at_noticed := True\<rparr> else t)) (ac_turns a)"
    by (simp add: notice_age_def)
  show "act_state_of (fst (notice_age cfg now a)) = act_state_of a"
    unfolding act_state_of_def Let_def t pending by simp
  then show "agent_of (fst (notice_age cfg now a)) = agent_of a" by (simp add: agent_of_def notice_age_def)
qed (simp add: notice_age_def)

lemma operations_follow:
  assumes "act_enabled cfg"
  shows "follows cfg (act_start cfg now i st)" "follows cfg (act_set_state cfg i st)" "follows cfg (act_stop cfg now i completed)"
    "follows cfg (act_tick cfg now)" "follows cfg (start_storage_reports cfg)" "follows cfg (\<lambda>s. act_send cfg (first_turn s) s)"
proof -
  note s = act_send_posts [OF assms]
  show "follows cfg (act_start cfg now i st)" by (rule followsI) (simp add: act_start_def s)
  show "follows cfg (act_set_state cfg i st)"
  proof (rule followsI)
    fix a show "(ac_posts (fst (act_set_state cfg i st a)) = ac_posts a \<and> agent_of (fst (act_set_state cfg i st a)) = agent_of a) \<or>
      (\<exists>r. ac_posts (fst (act_set_state cfg i st a)) = ac_posts a @ [r] \<and> ar_agent r = agent_of (fst (act_set_state cfg i st a)))"
      by (auto simp: act_set_state_def Let_def agent_of_def s split: option.splits)
  qed
  show "follows cfg (act_stop cfg now i completed)"
  proof (rule followsI)
    fix a show "(ac_posts (fst (act_stop cfg now i completed a)) = ac_posts a \<and> agent_of (fst (act_stop cfg now i completed a)) = agent_of a) \<or>
      (\<exists>r. ac_posts (fst (act_stop cfg now i completed a)) = ac_posts a @ [r] \<and> ar_agent r = agent_of (fst (act_stop cfg now i completed a)))"
      by (cases "om_get (ac_turns a) i") (auto simp: act_stop_def Let_def om_delete_absent s intro!: same_turns_agent)
  qed
  show "follows cfg (act_tick cfg now)"
    by (rule followsI) (auto simp: act_tick_def Let_def split_beta s)
  show "follows cfg (start_storage_reports cfg)"
    by (rule followsI) (auto simp: start_storage_reports_def s intro!: same_turns_agent)
  show "follows cfg (\<lambda>s. act_send cfg (first_turn s) s)" by (rule followsI) (simp add: s)
qed

definition current :: "machine \<Rightarrow> bool" where
  "current m \<longleftrightarrow> known_agent (mc_log m) = agent_of (mc_activity m) \<and> suffix (ac_posts (mc_activity m)) (mc_log m)"

lemma current_tells:
  assumes f: "follows cfg f" and ok: "current m"
  shows "current (tells f m)"
proof -
  obtain rs where rs: "ac_posts (fst (f (mc_activity m))) = ac_posts (mc_activity m) @ rs"
    "if rs = [] then agent_of (fst (f (mc_activity m))) = agent_of (mc_activity m) else ar_agent (last rs) = agent_of (fst (f (mc_activity m)))"
    using f unfolding follows_def by blast
  have "mc_log (tells f m) = mc_log m @ rs" "mc_activity (tells f m) = fst (f (mc_activity m))"
    using rs(1) by (simp_all add: tells_def Let_def)
  moreover have "known_agent (mc_log m @ rs) = (if rs = [] then known_agent (mc_log m) else ar_agent (last rs))"
    by (cases rs rule: rev_cases) (simp_all add: known_agent_def)
  ultimately show ?thesis using ok rs by (auto simp: current_def suffix_def split: if_splits)
qed


lemma current_same: "mc_log m' = mc_log m \<Longrightarrow> mc_activity m' = mc_activity m \<Longrightarrow> current m' = current m"
  by (simp add: current_def)

lemma on_feed_simps [simp]: "mc_log (on_feed i f m) = mc_log m" "mc_activity (on_feed i f m) = mc_activity m"
  "mc_feeds (on_feed i f m) j = (if j = i then f (mc_feeds m i) else mc_feeds m j)" "current (on_feed i f m) = current m"
  by (simp_all add: on_feed_def current_def)

lemma current_step:
  assumes e: "act_enabled cfg" and ok: "current m"
  shows "current (machine_step cfg m ev)"
proof -
  note f = operations_follow [OF e, THEN current_tells]
  have post: "current (m\<lparr>mc_activity := fst (post_over (mc_activity m))\<rparr>)"
  proof -
    have "suffix (tl (ac_posts (mc_activity m))) (mc_log m)"
      using ok unfolding current_def by (meson suffix_order.trans suffix_tl)
    moreover have "agent_of (fst (post_over (mc_activity m))) = agent_of (mc_activity m)"
      by (rule same_turns_agent) (simp_all add: post_over_def Let_def)
    ultimately show ?thesis using ok by (simp add: current_def post_over_def Let_def)
  qed
  have close: "current (m\<lparr>mc_activity := act_close (mc_activity m)\<rparr>)"
  proof -
    have "agent_of (act_close (mc_activity m)) = agent_of (mc_activity m)" by (rule same_turns_agent) (simp_all add: act_close_def)
    then show ?thesis using ok by (simp add: current_def act_close_def)
  qed
  show ?thesis using ok f post close
    by (cases ev) (simp_all add: ask_written_def ask_answered_def Let_def)
qed

subsection \<open>Questions are shown\<close>

definition shows_questions :: "machine \<Rightarrow> bool" where
  "shows_questions m \<longleftrightarrow> (\<forall>i. (om_get (ac_turns (mc_activity m)) i \<noteq> None \<longleftrightarrow> fd_begun (mc_feeds m i)) \<and>
     (fd_turn (mc_feeds m i) = FeedIdle \<longrightarrow> \<not> fd_begun (mc_feeds m i)) \<and>
     (fd_seen (mc_feeds m i) \<noteq> [] \<longrightarrow> fd_turn (mc_feeds m i) = FeedRunning \<and> set (fd_seen (mc_feeds m i)) \<subseteq> set (fd_asked (mc_feeds m i)) \<and>
        (\<exists>t. om_get (ac_turns (mc_activity m)) i = Some t \<and> at_state t = ActPermission)))"

lemma turns_of_operations [simp]:
  "ac_turns (fst (act_start cfg now i st a)) = om_set i \<lparr>at_state = st, at_started = now, at_noticed = False\<rparr> (ac_turns a)"
  "ac_turns (fst (act_set_state cfg i st a)) = (case om_get (ac_turns a) i of None \<Rightarrow> ac_turns a | Some t \<Rightarrow> om_set i (t\<lparr>at_state := st\<rparr>) (ac_turns a))"
  "ac_turns (fst (act_stop cfg now i completed a)) = om_delete i (ac_turns a)"
  "ac_turns (fst (start_storage_reports cfg a)) = ac_turns a" "ac_turns (fst (post_over a)) = ac_turns a" "ac_turns (act_close a) = ac_turns a"
  by (auto simp: act_start_def act_set_state_def act_stop_def start_storage_reports_def post_over_def act_close_def Let_def split: option.split)

lemma turns_of_tick: "om_get (ac_turns (fst (act_tick cfg now a))) i =
   map_option (\<lambda>t. if too_old cfg now t then t\<lparr>at_noticed := True\<rparr> else t) (om_get (ac_turns a) i)"
proof -
  have "om_get (map (\<lambda>(i, t). (i, if too_old cfg now t then t\<lparr>at_noticed := True\<rparr> else t)) m) i =
    map_option (\<lambda>t. if too_old cfg now t then t\<lparr>at_noticed := True\<rparr> else t) (om_get m i)" for m
    by (induction m) (auto simp: om_get_def)
  then show ?thesis by (simp add: act_tick_def Let_def split_beta notice_age_def)
qed

lemma tells_simps [simp]: "mc_feeds (tells f m) = mc_feeds m" "mc_activity (tells f m) = fst (f (mc_activity m))"
  by (simp_all add: tells_def Let_def)

lemma shows_questionsD:
  assumes "shows_questions m"
  shows "om_get (ac_turns (mc_activity m)) i \<noteq> None \<longleftrightarrow> fd_begun (mc_feeds m i)"
    "fd_turn (mc_feeds m i) = FeedIdle \<Longrightarrow> \<not> fd_begun (mc_feeds m i)"
    "fd_seen (mc_feeds m i) \<noteq> [] \<Longrightarrow> fd_turn (mc_feeds m i) = FeedRunning \<and> set (fd_seen (mc_feeds m i)) \<subseteq> set (fd_asked (mc_feeds m i)) \<and>
        (\<exists>t. om_get (ac_turns (mc_activity m)) i = Some t \<and> at_state t = ActPermission)"
  using assms unfolding shows_questions_def by blast+

lemma shows_questionsI:
  assumes "\<And>i. om_get (ac_turns (mc_activity m)) i \<noteq> None \<longleftrightarrow> fd_begun (mc_feeds m i)"
    "\<And>i. fd_turn (mc_feeds m i) = FeedIdle \<Longrightarrow> \<not> fd_begun (mc_feeds m i)"
    "\<And>i. fd_seen (mc_feeds m i) \<noteq> [] \<Longrightarrow> fd_turn (mc_feeds m i) = FeedRunning \<and> set (fd_seen (mc_feeds m i)) \<subseteq> set (fd_asked (mc_feeds m i)) \<and>
        (\<exists>t. om_get (ac_turns (mc_activity m)) i = Some t \<and> at_state t = ActPermission)"
  shows "shows_questions m"
  using assms unfolding shows_questions_def by blast

lemma shows_questions_cong: "(\<And>i. om_get (ac_turns a) i = om_get (ac_turns (mc_activity m)) i) \<Longrightarrow> shows_questions (m\<lparr>mc_activity := a, mc_log := l\<rparr>) = shows_questions m"
  by (simp add: shows_questions_def)

lemma ask_written_shows:
  assumes ok: "shows_questions m"
  shows "shows_questions (ask_written cfg i q m)"
proof (rule shows_questionsI)
  note D = shows_questionsD [OF ok]
  fix j
  show "om_get (ac_turns (mc_activity (ask_written cfg i q m))) j \<noteq> None \<longleftrightarrow> fd_begun (mc_feeds (ask_written cfg i q m) j)"
    using D(1) [of j] by (auto simp: ask_written_def Let_def split: option.splits)
  show "fd_turn (mc_feeds (ask_written cfg i q m) j) = FeedIdle \<Longrightarrow> \<not> fd_begun (mc_feeds (ask_written cfg i q m) j)"
    using D(2) [of j] by (auto simp: ask_written_def Let_def split: if_splits)
  show "fd_seen (mc_feeds (ask_written cfg i q m) j) \<noteq> [] \<Longrightarrow> fd_turn (mc_feeds (ask_written cfg i q m) j) = FeedRunning \<and>
      set (fd_seen (mc_feeds (ask_written cfg i q m) j)) \<subseteq> set (fd_asked (mc_feeds (ask_written cfg i q m) j)) \<and>
      (\<exists>t. om_get (ac_turns (mc_activity (ask_written cfg i q m))) j = Some t \<and> at_state t = ActPermission)"
    using D(1) [of j] D(3) [of j] by (cases "fd_seen (mc_feeds m j) = []") (auto simp: ask_written_def Let_def split: if_splits option.splits)
qed

lemma ask_answered_shows:
  assumes ok: "shows_questions m"
  shows "shows_questions (ask_answered cfg i q m)"
proof (rule shows_questionsI)
  note D = shows_questionsD [OF ok]
  fix j
  show "om_get (ac_turns (mc_activity (ask_answered cfg i q m))) j \<noteq> None \<longleftrightarrow> fd_begun (mc_feeds (ask_answered cfg i q m) j)"
    using D(1) [of j] by (auto simp: ask_answered_def Let_def split: option.splits)
  show "fd_turn (mc_feeds (ask_answered cfg i q m) j) = FeedIdle \<Longrightarrow> \<not> fd_begun (mc_feeds (ask_answered cfg i q m) j)"
    using D(2) [of j] by (auto simp: ask_answered_def Let_def split: if_splits)
  show "fd_seen (mc_feeds (ask_answered cfg i q m) j) \<noteq> [] \<Longrightarrow> fd_turn (mc_feeds (ask_answered cfg i q m) j) = FeedRunning \<and>
      set (fd_seen (mc_feeds (ask_answered cfg i q m) j)) \<subseteq> set (fd_asked (mc_feeds (ask_answered cfg i q m) j)) \<and>
      (\<exists>t. om_get (ac_turns (mc_activity (ask_answered cfg i q m))) j = Some t \<and> at_state t = ActPermission)"
  proof (cases "j = i")
    case True
    assume a: "fd_seen (mc_feeds (ask_answered cfg i q m) j) \<noteq> []"
    then have b: "fd_seen (mc_feeds m i) \<noteq> []" using True by (auto simp: ask_answered_def Let_def split: if_splits)
    note d = D(3) [OF b]
    have "removeAll q (fd_asked (mc_feeds m i)) \<noteq> []" if "q \<in> set (fd_asked (mc_feeds m i))"
    proof -
      have "set (removeAll q (fd_seen (mc_feeds m i))) \<subseteq> set (removeAll q (fd_asked (mc_feeds m i)))" using d by auto
      moreover have "removeAll q (fd_seen (mc_feeds m i)) \<noteq> []" using a True that by (simp add: ask_answered_def Let_def split: if_splits)
      ultimately show ?thesis by (metis set_empty subset_empty)
    qed
    then show ?thesis using d True by (auto simp: ask_answered_def Let_def)
  next
    case False
    assume "fd_seen (mc_feeds (ask_answered cfg i q m) j) \<noteq> []"
    then show ?thesis using D(3) [of j] False by (auto simp: ask_answered_def Let_def split: if_splits option.splits)
  qed
qed

lemma shows_questions_step:
  assumes ok: "shows_questions m"
  shows "shows_questions (machine_step cfg m ev)"
proof -
  note D = shows_questionsD [OF ok]
  show ?thesis
  proof (cases ev)
    case (AskWritten i q)
    then show ?thesis using ask_written_shows [OF ok] by simp
  next
    case (AskAnswered i q)
    then show ?thesis using ask_answered_shows [OF ok] by simp
  next
    case (TurnRuns i)
    then show ?thesis using ok D(2) [of i] D(3) [of i] by (auto simp: shows_questions_def)
  next
    case (TurnBegins now i)
    then show ?thesis using ok D(1) [of i] D(3) [of i] by (auto simp: shows_questions_def)
  next
    case (Ticks now)
    have "\<exists>t. om_get (ac_turns (fst (act_tick cfg now (mc_activity m)))) i = Some t \<and> at_state t = ActPermission" if "fd_seen (mc_feeds m i) \<noteq> []" for i
      using D(3) [OF that] by (elim conjE exE) (simp add: turns_of_tick)
    then have "shows_questions (tells (act_tick cfg now) m)" using D by (intro shows_questionsI) (auto simp: turns_of_tick)
    then show ?thesis using Ticks ok by simp
  qed (use ok in \<open>auto simp: shows_questions_def\<close>)
qed

subsection \<open>Runs\<close>

interpretation questions: run_invariant "machine_step cfg" shows_questions for cfg
  using shows_questions_step by unfold_locales

interpretation reports: run_invariant "machine_step cfg" "\<lambda>m. act_enabled cfg \<longrightarrow> current m" for cfg
  using current_step by unfold_locales blast

lemma machine_run_ok: "shows_questions (machine_run cfg machine_init es)" "act_enabled cfg \<Longrightarrow> current (machine_run cfg machine_init es)"
proof -
  have i: "shows_questions machine_init" "current machine_init"
    by (simp_all add: shows_questions_def current_def machine_init_def no_feed_def activity_init_def known_agent_def agent_at_boot_def
      agent_of_def act_state_of_def agent_state_of_def)
  show "shows_questions (machine_run cfg machine_init es)" unfolding machine_run_def using i by (intro questions.run_inv)
  show "act_enabled cfg \<Longrightarrow> current (machine_run cfg machine_init es)" unfolding machine_run_def using i reports.run_inv by blast
qed

lemma pending_is_needs_input:
  assumes "om_get (ac_turns a) i = Some t" "at_state t = ActPermission"
  shows "ag_state (agent_of a) = AgNeedsInput"
proof -
  have "t \<in> set (map snd (ac_turns a))" using om_get_mem [OF assms(1)] by force
  then have "list_ex (\<lambda>t. at_state t = ActPermission) (map snd (ac_turns a))" using assms(2) by (auto simp: list_ex_iff)
  then show ?thesis by (simp add: agent_of_def act_state_of_def agent_state_of_def)
qed

text \<open>Claim C30. When posts are enabled, the last report captured says what the agent is doing now and when its last turn ended,
  whatever turns, questions, ticks and slow posts there were; the posts still to go out are the last reports, in order. So
  once they are out the backend knows the agent's state.\<close>

theorem backend_learns_state:
  assumes "act_enabled cfg"
  shows "known_agent (mc_log (machine_run cfg machine_init es)) = agent_of (mc_activity (machine_run cfg machine_init es)) \<and>
    suffix (ac_posts (mc_activity (machine_run cfg machine_init es))) (mc_log (machine_run cfg machine_init es))"
  using machine_run_ok(2) [OF assms, of es] by (simp add: current_def)

text \<open>Claim C31. While a permission request of a running turn waits for its answer, from the moment it is on disk, the machine
  reports that the agent needs input; and it reports idle only if no conversation has begun a turn that is not over.\<close>

theorem questions_are_shown:
  assumes "m = machine_run cfg machine_init es" "act_enabled cfg"
  shows "(\<forall>i. fd_seen (mc_feeds m i) \<noteq> [] \<longrightarrow> ag_state (known_agent (mc_log m)) = AgNeedsInput) \<and>
    (\<forall>i. ag_state (known_agent (mc_log m)) = AgIdle \<longrightarrow> \<not> fd_begun (mc_feeds m i))"
proof -
  have known: "known_agent (mc_log m) = agent_of (mc_activity m)"
    using machine_run_ok(2) [OF assms(2), of es] by (simp add: current_def assms(1))
  note D = shows_questionsD [OF machine_run_ok(1) [of cfg es, folded assms(1)]]
  have "ac_turns (mc_activity m) = []" if "ag_state (agent_of (mc_activity m)) = AgIdle"
    using that state_idle_iff [of "mc_activity m"]
    by (cases "act_state_of (mc_activity m)") (simp_all add: agent_of_def agent_state_of_def)
  then have "ag_state (agent_of (mc_activity m)) = AgIdle \<Longrightarrow> \<not> fd_begun (mc_feeds m i)" for i using D(1) [of i] by simp
  moreover have "fd_seen (mc_feeds m i) \<noteq> [] \<Longrightarrow> ag_state (agent_of (mc_activity m)) = AgNeedsInput" for i
    using D(3) [of i] pending_is_needs_input by blast
  ultimately show ?thesis unfolding known by blast
qed

definition reporting :: act_config where
  "reporting = \<lparr>af_aggregate = False, af_url_token = True, af_storage_ms = 60000, af_max_turn_ms = 0\<rparr>"

definition asks_once :: "feed_event list" where
  "asks_once = [TurnRuns ''s'', TurnBegins 5 ''s'', Asks ''s'' 1, AskWritten ''s'' 1]"

lemma backend_learns_state_witness: "act_enabled reporting \<and>
   known_agent (mc_log (machine_run reporting machine_init asks_once)) = \<lparr>ag_state = AgNeedsInput, ag_completed = None\<rparr>"
proof -
  have e: "act_enabled reporting" by (simp add: act_enabled_def reporting_def)
  have "agent_of (mc_activity (machine_run reporting machine_init asks_once)) = \<lparr>ag_state = AgNeedsInput, ag_completed = None\<rparr>"
    by code_simp
  then show ?thesis using backend_learns_state [OF e, of asks_once] e by simp
qed

lemma questions_are_shown_witness:
  "fd_seen (mc_feeds (machine_run reporting machine_init asks_once) ''s'') = [1] \<and>
   ag_state (known_agent (mc_log (machine_run reporting machine_init asks_once))) = AgNeedsInput"
proof -
  have e: "act_enabled reporting" by (simp add: act_enabled_def reporting_def)
  have s: "fd_seen (mc_feeds (machine_run reporting machine_init asks_once) ''s'') = [1]" by code_simp
  then show ?thesis using questions_are_shown [OF refl e, of asks_once] by (auto dest: spec [of _ "''s''"])
qed

text \<open>A question that is answered while it is being written (a cancel, or the engine withdrawing it) is reported once it is
  written, and then the machine says it needs input although nothing is asked, until the turn is over.\<close>

definition answered_early :: "feed_event list" where
  "answered_early = [TurnRuns ''s'', TurnBegins 5 ''s'', Asks ''s'' 1, AskAnswered ''s'' 1, AskWritten ''s'' 1]"

lemma stale_question:
  "fd_asked (mc_feeds (machine_run reporting machine_init answered_early) ''s'') = [] \<and>
   ag_state (known_agent (mc_log (machine_run reporting machine_init answered_early))) = AgNeedsInput"
  by code_simp

end
