(* ===== verification/Root_Props.thy ===== *)
theory Root_Props
  imports Root_Activity Activity_Props
begin

text \<open>
  The machine's reporter outside the gateway (runtime/lib/root-activity.js): it reports idle only when every source said so
  just now, and it regards a state of the agent as reported only once the backend accepted it.
\<close>

subsection \<open>When the aggregate is idle\<close>


definition working_interest :: "(js \<Rightarrow> rat option) \<Rightarrow> rat \<Rightarrow> rat \<Rightarrow> js \<Rightarrow> bool" where
  "working_interest dp now cap x \<longleftrightarrow>
    (case dp (js_field x ''startedAt'') of None \<Rightarrow> True
     | Some t \<Rightarrow> js_field x ''state'' \<notin> known_states \<or> \<not> capped now cap t x \<and> js_field x ''state'' \<noteq> JStr ''idle'')"

text \<open>A source that is unreachable, out of date or malformed, or has work that was not capped.\<close>

definition source_works :: "(js \<Rightarrow> rat option) \<Rightarrow> rat \<Rightarrow> rat \<Rightarrow> rat \<Rightarrow> js \<Rightarrow> bool" where
  "source_works dp now cap freshness src \<longleftrightarrow> \<not> fresh_source dp now freshness src \<or>
    (js_field src ''state'' \<noteq> JStr ''idle'' \<and> \<not> has_interests src) \<or>
    (case interests_of (js_field src ''interests'') of None \<Rightarrow> False | Some xs \<Rightarrow> \<exists>x \<in> set xs. working_interest dp now cap x)"






subsection \<open>A poll\<close>

text \<open>\<open>Date.parse\<close> reads what \<open>toISOString\<close> writes.\<close>

definition dates_ok :: "(js \<Rightarrow> rat option) \<Rightarrow> (rat \<Rightarrow> string) \<Rightarrow> bool" where
  "dates_ok dp isot \<longleftrightarrow> (\<forall>t. dp (JStr (isot t)) = Some t)"



subsection \<open>Runs\<close>


lemma root_run_snoc: "root_run dp isot dec cfg s (es @ [e]) =
   (fst (root_step dp isot dec cfg (fst (root_run dp isot dec cfg s es)) e),
    fst (snd (root_run dp isot dec cfg s es)) @ fst (snd (root_step dp isot dec cfg (fst (root_run dp isot dec cfg s es)) e)),
    snd (snd (root_run dp isot dec cfg s es)) @ snd (snd (root_step dp isot dec cfg (fst (root_run dp isot dec cfg s es)) e)))"
  by (simp add: root_run_def split_beta)










text \<open>A state of the agent counts as reported when a post with it was accepted.\<close>

definition acks_ok :: "post_body list \<Rightarrow> root_reporter \<Rightarrow> bool" where
  "acks_ok accepted s \<longleftrightarrow>
    (\<forall>a. rr_last_agent s = Some a \<longrightarrow> a \<in> pb_agent ` set accepted) \<and>
    (\<forall>st a. rr_watched s = Some (st, a) \<longrightarrow> a \<in> pb_agent ` set accepted) \<and>
    (case rr_phase s of
       PollTells g e (Some (st, a)) \<Rightarrow> rr_agent s = a
     | PollPosts b (Some (st, a)) \<Rightarrow> pb_agent b = a
     | _ \<Rightarrow> True)"

lemma acks_reads:
  assumes ok: "acks_ok accepted s"
  shows "acks_ok accepted (reads_done dp isot dec cfg answers s)"
proof -
  have "rr_last_agent (reads_done dp isot dec cfg answers s) = rr_last_agent s" "rr_watched (reads_done dp isot dec cfg answers s) = rr_watched s"
    by (simp_all add: reads_done_def Let_def split: poll_phase.splits option.splits)
  moreover have "case rr_phase (reads_done dp isot dec cfg answers s) of
       PollTells g e (Some (st, a)) \<Rightarrow> rr_agent (reads_done dp isot dec cfg answers s) = a
     | PollPosts b (Some (st, a)) \<Rightarrow> pb_agent b = a
     | _ \<Rightarrow> True"
    using ok by (auto simp: reads_done_def Let_def acks_ok_def split: poll_phase.splits option.splits)
  ultimately show ?thesis using ok by (simp add: acks_ok_def)
qed

lemma acks_step:
  assumes ok: "acks_ok accepted s"
  shows "acks_ok (accepted @ snd (snd (root_step dp isot dec cfg s e))) (fst (root_step dp isot dec cfg s e))"
proof (cases e)
  case (RootTick now)
  then show ?thesis using ok by (simp add: root_tick_def acks_ok_def)
next
  case (ReadsDone answers)
  then show ?thesis using acks_reads [OF ok] by simp
next
  case (SnapshotTold b)
  show ?thesis
  proof (cases "rr_phase s")
    case (PollTells g x w)
    then show ?thesis using ok SnapshotTold
      by (cases w) (auto simp: snapshot_told_def Let_def acks_ok_def acknowledge_def split_beta)
  qed (use ok SnapshotTold in \<open>simp_all add: snapshot_told_def\<close>)
next
  case (PostDone b)
  show ?thesis
  proof (cases "rr_phase s")
    case (PollPosts body w)
    then show ?thesis using ok PostDone by (cases w) (auto simp: post_done_def Let_def acks_ok_def acknowledge_def)
  qed (use ok PostDone in \<open>simp_all add: post_done_def\<close>)
qed (use ok in \<open>auto simp: acks_ok_def split: poll_phase.splits option.splits\<close>)



lemma root_acks: "acks_ok (snd (snd (root_run dp isot dec cfg root_init es))) (fst (root_run dp isot dec cfg root_init es))"
proof (induction es rule: rev_induct)
  case Nil
  then show ?case by (simp add: root_run_def acks_ok_def root_init_def)
next
  case (snoc e es)
  then show ?case unfolding root_run_snoc by (simp add: acks_step)
qed

subsection \<open>The properties\<close>


text \<open>Whatever polls, failed reads and failed posts there were: the agent state that the reporter takes as reported
  (and so does not report again) was accepted by the backend, with the latest state it posted.\<close>

theorem acknowledged_was_accepted:
  assumes "rr_watched (fst (root_run dp isot dec cfg root_init es)) = Some (st, a)"
  shows "a \<in> pb_agent ` set (snd (snd (root_run dp isot dec cfg root_init es)))"
  using root_acks [of dp isot dec cfg es] assms by (auto simp: acks_ok_def)

text \<open>Claim C29. A gateway with a turn under way never counts as idle, however old the turn and whatever the age cap: its
  snapshot, fresh or stale, makes the machine work; and a fresh snapshot of a gateway without turns does not, so the
  machine is idle exactly when nothing runs.\<close>

theorem live_turns_keep_machine:
  assumes "dates_ok dp isot" and "\<forall>t \<in> set (ac_turns a). at_state (snd t) \<noteq> ActIdle"
  shows "source_works dp now cap 15000 (snd (act_snapshot isot cfg seen a)) \<longleftrightarrow> ac_turns a \<noteq> [] \<or> now - of_int seen > 15000"
proof -
  let ?j = "snd (act_snapshot isot cfg seen a)" and ?a1 = "fst (notice_age cfg seen a)"
  have turns: "ac_turns ?a1 = [] \<longleftrightarrow> ac_turns a = []" "\<forall>t \<in> set (ac_turns ?a1). at_state (snd t) \<noteq> ActIdle"
    using assms(2) by (auto simp: notice_age_def split: if_splits)
  have fresh: "fresh_source dp now 15000 ?j \<longleftrightarrow> \<not> now - of_int seen > 15000"
    using assms(1) by (auto simp: fresh_source_def observed_at_def js_or_null_def act_snapshot_def Let_def known_states_def state_text_def
        dates_ok_def split: act_state.split)
  have work: "working_interest dp now cap (turn_interest isot t)" if "at_state (snd t) \<noteq> ActIdle" for t
    using that assms(1) by (cases "at_state (snd t)") (simp_all add: working_interest_def turn_interest_def dates_ok_def capped_def Let_def state_text_def)
  have ints: "js_field ?j ''interests'' = JArr (map (turn_interest isot) (ac_turns ?a1))" by (simp add: act_snapshot_def Let_def)
  have st: "js_field ?j ''state'' = state_text (act_state_of ?a1)" by (simp add: act_snapshot_def Let_def)
  show ?thesis
  proof (cases "ac_turns a = []")
    case True
    then have "act_state_of ?a1 = ActIdle" using turns state_idle_iff by blast
    then show ?thesis using True turns fresh ints st by (simp add: source_works_def state_text_def)
  next
    case False
    then obtain t where "t \<in> set (ac_turns ?a1)" using turns(1) by (meson list.set_sel(1))
    then have "turn_interest isot t \<in> set (map (turn_interest isot) (ac_turns ?a1))" "working_interest dp now cap (turn_interest isot t)"
      using work turns(2) by simp_all
    then show ?thesis using False unfolding source_works_def ints interests_of.simps option.case by blast
  qed
qed

text \<open>A quiet gateway and a quiet file service, with dates written as fractions.\<close>

definition fraction_text :: "rat \<Rightarrow> string" where
  "fraction_text t = (case quotient_of t of (a, b) \<Rightarrow>
     (if a < 0 then ''-'' else ''+'') @ replicate (nat \<bar>a\<bar>) CHR ''1'' @ CHR ''/'' # replicate (nat b) CHR ''1'')"

definition fraction_read :: "js \<Rightarrow> rat option" where
  "fraction_read v = (case v of
     JStr (c # s) \<Rightarrow> (let n = rat_of_nat (length (takeWhile (\<lambda>x. x = CHR ''1'') s)); d = rat_of_nat (length s) - n - 1 in
       Some ((if c = CHR ''-'' then - n else n) / d))
   | _ \<Rightarrow> None)"

lemma fraction_dates: "dates_ok fraction_read fraction_text"
proof -
  have "fraction_read (JStr (fraction_text t)) = Some t" for t
  proof -
    obtain a b where q: "quotient_of t = (a, b)" by fastforce
    then have b: "b > 0" "t = of_int a / of_int b" using quotient_of_denom_pos quotient_of_div by blast+
    have tw: "takeWhile (\<lambda>x. x = CHR ''1'') (replicate n CHR ''1'' @ CHR ''/'' # r) = replicate n CHR ''1''" for n r
      by (induction n) simp_all
    have n: "rat_of_nat (nat \<bar>a\<bar>) = (if a < 0 then - of_int a else of_int a)" "rat_of_nat (nat b) = of_int b" using b by auto
    have "fraction_text t = (if a < 0 then CHR ''-'' else CHR ''+'') # replicate (nat \<bar>a\<bar>) CHR ''1'' @ CHR ''/'' # replicate (nat b) CHR ''1''"
      by (simp add: fraction_text_def q)
    then have "fraction_read (JStr (fraction_text t)) = Some (of_int a / of_int b)" by (simp add: fraction_read_def tw n Let_def)
    then show ?thesis using b(2) by simp
  qed
  then show ?thesis by (simp add: dates_ok_def)
qed

definition idle_gateway :: js where
  "idle_gateway = JObj [(''state'', JStr ''idle''), (''observedAt'', JStr ''+111/1''), (''interests'', JArr []),
     (''agent'', JObj [(''state'', JStr ''idle'')])]"

definition one_poll :: "root_event list" where
  "one_poll = [RootTick 9, ReadsDone [idle_gateway, idle_gateway], SnapshotTold True, PostDone True]"

definition polls_one :: "root_reporter \<times> post_body list \<times> post_body list" where
  "polls_one = root_run fraction_read fraction_text (\<lambda>_. []) \<lparr>rc_cap = 1000, rc_target = True\<rparr> root_init one_poll"

lemma polls_one_idle: "map pb_state (fst (snd polls_one)) = [JStr ''idle'']"
  "map_option fst (rr_watched (fst polls_one)) = Some (JStr ''idle'')"
proof -
  have f: "fraction_read (JStr ''+111/1'') = Some 3" by (simp add: fraction_read_def Let_def)
  have src: "fresh_source fraction_read 9 15000 idle_gateway"
    by (simp add: fresh_source_def idle_gateway_def known_states_def observed_at_def js_or_null_def f)
  have agg: "aggregate_activity fraction_read fraction_text 9 1000 15000 [idle_gateway, idle_gateway] =
      Some \<lparr>ms_state = JStr ''idle'', ms_session = JNull, ms_expired = [], ms_unknown = False\<rparr>"
    using src by (simp add: aggregate_activity_def add_source_def idle_gateway_def)
  have ag: "source_agent fraction_read fraction_text idle_gateway = Some \<lparr>ra_state = JStr ''idle'', ra_completed = None\<rparr>"
    by (simp add: source_agent_def idle_gateway_def agent_states_def fraction_read_def)
  have st: "js_field idle_gateway ''state'' = JStr ''idle''" by (simp add: idle_gateway_def)
  let ?A = "\<lparr>ra_state = JStr ''idle'', ra_completed = None\<rparr>" and ?cfg = "\<lparr>rc_cap = 1000, rc_target = True\<rparr>"
    and ?g = "\<lparr>ms_state = JStr ''idle'', ms_session = JNull, ms_expired = [], ms_unknown = False\<rparr>"
  let ?body = "\<lparr>pb_state = JStr ''idle'', pb_session = JNull, pb_agent = ?A\<rparr>"
  define s1 where "s1 = root_init\<lparr>rr_phase := PollReads 9\<rparr>"
  define s2 where "s2 = reads_done fraction_read fraction_text (\<lambda>_. []) ?cfg [idle_gateway, idle_gateway] s1"
  have r: "map (read_source fraction_read fraction_text (\<lambda>_. []) 1000 9 (rr_unknown s1)) (zip [0..<length [idle_gateway, idle_gateway]] [idle_gateway, idle_gateway])
      = [(idle_gateway, None, False), (idle_gateway, None, False)]"
    using src by (simp add: read_source_def)
  have s2: "rr_phase s2 = PollTells ?g False (Some (JStr ''idle'', ?A))" "rr_agent s2 = ?A" "rr_last_state s2 = None"
    unfolding s2_def reads_done_def using agg ag st by (simp_all add: s1_def root_init_def r [unfolded s1_def root_init_def, simplified] Let_def src read_source_def)
  have s3: "snapshot_told ?cfg True s2 = (s2\<lparr>rr_storage_due := False, rr_phase := PollPosts ?body (Some (JStr ''idle'', ?A))\<rparr>, [?body])"
    by (simp add: snapshot_told_def s2 Let_def)
  have s1: "root_step fraction_read fraction_text (\<lambda>_. []) ?cfg root_init (RootTick 9) = (s1, [], [])"
    by (simp add: root_tick_def root_init_def s1_def)
  show "map pb_state (fst (snd polls_one)) = [JStr ''idle'']" "map_option fst (rr_watched (fst polls_one)) = Some (JStr ''idle'')"
    by (simp_all add: polls_one_def root_run_def one_poll_def s1 s2_def [symmetric] s3 post_done_def acknowledge_def Let_def del: root_step.simps(1))
qed


lemma acknowledged_was_accepted_witness: "\<exists>a st. rr_watched (fst polls_one) = Some (st, a) \<and> a \<in> pb_agent ` set (snd (snd polls_one))"
proof -
  obtain x where "rr_watched (fst polls_one) = Some x" using polls_one_idle(2) by (meson map_option_eq_Some)
  moreover obtain st a where "x = (st, a)" by (rule prod.exhaust)
  ultimately have w: "rr_watched (fst polls_one) = Some (st, a)" by (simp only:)
  have "a \<in> pb_agent ` set (snd (snd polls_one))"
    using acknowledged_was_accepted [OF w [unfolded polls_one_def]] unfolding polls_one_def .
  with w show ?thesis by (intro exI conjI)
qed

lemma live_turns_keep_machine_witness:
  "source_works fraction_read 100000000 1000 15000 (snd (act_snapshot fraction_text reporting 99999999
     (mc_activity (machine_run reporting machine_init [TurnRuns ''s'', TurnBegins 5 ''s'']))))"
proof -
  have t: "ac_turns (mc_activity (machine_run reporting machine_init [TurnRuns ''s'', TurnBegins 5 ''s''])) =
      [(''s'', \<lparr>at_state = ActPrompt, at_started = 5, at_noticed = False\<rparr>)]"
    by code_simp
  then have "\<forall>t \<in> set (ac_turns (mc_activity (machine_run reporting machine_init [TurnRuns ''s'', TurnBegins 5 ''s'']))). at_state (snd t) \<noteq> ActIdle"
    by simp
  from live_turns_keep_machine [OF fraction_dates this] t show ?thesis by (simp del: of_int_numeral)
qed

end
