(* ===== verification/Safe_Policy.thy ===== *)
theory Safe_Policy
  imports Prelude
begin

text \<open>
  Which paths of the workspace the file service may read and write (runtime/lib/safe-fs/policy.js). Paths are strings, as the
  code has them; a policy root is a path with its access and, once pinned, the identity of the object it names and
  that of its parent (an inode number stands for device and inode). \<open>None\<close> from a check means that it passed.
\<close>

datatype safe_error =
    Einval string \<comment> \<open>with the \<open>reason\<close>\<close>
  | Eacces string
  | Eexist string
  | Enoent | Eloop | Enotdir | Estale | E2big | Ebadf | Eother

datatype root_access = ReadOnly | Hidden

record policy_root =
  pr_path :: string
  pr_access :: root_access
  pr_identity :: "nat option"
  pr_parent :: "nat option"

record policy =
  po_roots :: "policy_root list"
  po_hidden :: "(string \<times> nat) list" \<comment> \<open>\<open>#hiddenIdentities\<close>\<close>

subsection \<open>Paths\<close>

definition components :: "string \<Rightarrow> string list" where
  "components p = js_split CHR ''/'' p"

definition bad_char :: "char \<Rightarrow> bool" where
  "bad_char c \<longleftrightarrow> c = CHR 0x5C \<or> (of_char c :: nat) < 32 \<or> (of_char c :: nat) = 127"

definition bad_component :: "string \<Rightarrow> bool" where
  "bad_component x \<longleftrightarrow> x = [] \<or> x = ''.'' \<or> x = ''..''"

definition canonical :: "bool \<Rightarrow> string \<Rightarrow> safe_error option" where
  "canonical rooted p =
    (if list_ex bad_char p \<or> (p = [] \<and> \<not> rooted) \<or> (p \<noteq> [] \<and> list_ex bad_component (components p))
     then Some (Einval ''invalid_path'') else None)"

definition reserved_names :: "string set" where
  "reserved_names = {''.runtime'', ''.git'', ''.upload-tmp'', ''.datasets-staging'', ''.ide-state'', ''.clinerules''}"

definition is_reserved :: "string \<Rightarrow> bool" where
  "is_reserved x \<longleftrightarrow> x \<in> reserved_names \<or> prefix ''.gc-file-'' x"

definition path_contains :: "string \<Rightarrow> string \<Rightarrow> bool" where
  "path_contains r p \<longleftrightarrow> r = [] \<or> p = r \<or> prefix (r @ ''/'') p"

subsection \<open>Checks\<close>

definition orelse_check :: "safe_error option \<Rightarrow> safe_error option \<Rightarrow> safe_error option" where
  "orelse_check a b = (case a of Some e \<Rightarrow> Some e | None \<Rightarrow> b)"

definition assert_read :: "policy \<Rightarrow> string \<Rightarrow> safe_error option" where
  "assert_read po p =
    orelse_check (canonical True p)
      (if list_ex is_reserved (components p) then Some (Eacces ''reserved_component'')
       else if list_ex (\<lambda>r. pr_access r = Hidden \<and> path_contains (pr_path r) p) (po_roots po) then Some (Eacces ''hidden_root'')
       else None)"

definition assert_write :: "policy \<Rightarrow> bool \<Rightarrow> string \<Rightarrow> safe_error option" where
  "assert_write po subtree p =
    orelse_check (assert_read po p)
      (if list_ex (\<lambda>r. path_contains (pr_path r) p) (po_roots po) then Some (Eacces ''read_only_root'')
       else if subtree \<and> list_ex (\<lambda>r. path_contains p (pr_path r)) (po_roots po) then Some (Eacces ''protected_descendant'')
       else None)"

definition visible :: "policy \<Rightarrow> string \<Rightarrow> bool" where
  "visible po p \<longleftrightarrow> assert_read po p = None"

definition has_pins :: "policy \<Rightarrow> bool" where
  "has_pins po \<longleftrightarrow> po_hidden po \<noteq> [] \<or> list_ex (\<lambda>r. pr_identity r \<noteq> None) (po_roots po)"

definition assert_identity :: "policy \<Rightarrow> bool \<Rightarrow> nat \<Rightarrow> safe_error option" where
  "assert_identity po writing n =
    (if list_ex (\<lambda>r. pr_identity r = Some n \<and> (writing \<or> pr_access r = Hidden)) (po_roots po) \<or> list_ex (\<lambda>x. snd x = n) (po_hidden po)
     then Some (Eacces (if writing then ''read_only_root'' else ''hidden_root'')) else None)"

subsection \<open>Registration\<close>

definition overlaps :: "string \<Rightarrow> policy_root \<Rightarrow> bool" where
  "overlaps p r \<longleftrightarrow> path_contains (pr_path r) p \<or> path_contains p (pr_path r)"

definition add_root :: "policy_root \<Rightarrow> policy \<Rightarrow> safe_error + policy" where
  "add_root r po =
    (if list_ex (overlaps (pr_path r)) (po_roots po) then Inl (Eexist ''policy_collision'')
     else Inr (po\<lparr>po_roots := po_roots po @ [r]\<rparr>))"

definition check_registration :: "policy \<Rightarrow> string \<Rightarrow> safe_error option" where
  "check_registration po p =
    orelse_check (canonical False p)
      (if list_ex is_reserved (components p) then Some (Eexist ''reserved_component'')
       else if list_ex (overlaps p) (po_roots po) then Some (Eexist ''policy_collision'')
       else None)"

definition pin_root :: "string \<Rightarrow> nat option \<Rightarrow> nat option \<Rightarrow> policy \<Rightarrow> policy" where
  "pin_root p i par po =
    po\<lparr>po_roots := map (\<lambda>r. if pr_path r = p then r\<lparr>pr_identity := i, pr_parent := par\<rparr> else r) (po_roots po)\<rparr>"

text \<open>\<open>protectIdentity\<close>, with whether the identity is new.\<close>

definition protect_identity :: "string \<Rightarrow> nat \<Rightarrow> policy \<Rightarrow> policy \<times> bool" where
  "protect_identity p n po =
    (if list_ex (\<lambda>r. pr_access r = Hidden \<and> pr_identity r = Some n) (po_roots po) \<or> list_ex (\<lambda>x. snd x = n) (po_hidden po)
     then (po, False) else (po\<lparr>po_hidden := po_hidden po @ [(p, n)]\<rparr>, True))"

fun add_roots :: "root_access \<Rightarrow> string list \<Rightarrow> policy \<Rightarrow> safe_error + policy" where
  "add_roots a [] po = Inr po"
| "add_roots a (p # ps) po =
    (case canonical True p of
       Some e \<Rightarrow> Inl e
     | None \<Rightarrow>
        (case add_root \<lparr>pr_path = p, pr_access = a, pr_identity = None, pr_parent = None\<rparr> po of
           Inl e \<Rightarrow> Inl e
         | Inr po1 \<Rightarrow> add_roots a ps po1))"

text \<open>The constructor: the protected roots, then the hidden ones.\<close>

definition new_policy :: "string list \<Rightarrow> string list \<Rightarrow> safe_error + policy" where
  "new_policy protected hidden =
    (case add_roots ReadOnly protected \<lparr>po_roots = [], po_hidden = []\<rparr> of
       Inl e \<Rightarrow> Inl e
     | Inr po \<Rightarrow> add_roots Hidden hidden po)"

subsection \<open>Facts\<close>

text \<open>What a policy protects: every root and every hidden identity.\<close>

definition pinned :: "policy \<Rightarrow> nat set" where
  "pinned po = {n. (\<exists>r \<in> set (po_roots po). pr_identity r = Some n) \<or> n \<in> snd ` set (po_hidden po)}"

lemma orelse_check_None [simp]: "orelse_check a b = None \<longleftrightarrow> a = None \<and> b = None"
  by (simp add: orelse_check_def split: option.split)

lemma assert_identity_write: "assert_identity po True n = None \<longleftrightarrow> n \<notin> pinned po"
  by (force simp: assert_identity_def pinned_def list_ex_iff)

lemma assert_write_None:
  "assert_write po subtree p = None \<longleftrightarrow> assert_read po p = None \<and> (\<forall>r \<in> set (po_roots po). \<not> path_contains (pr_path r) p) \<and>
     (subtree \<longrightarrow> (\<forall>r \<in> set (po_roots po). \<not> path_contains p (pr_path r)))"
  by (auto simp: assert_write_def list_ex_iff)

lemma no_pins_pinned: "\<not> has_pins po \<Longrightarrow> pinned po = {}"
  by (auto simp: has_pins_def pinned_def list_ex_iff)

text \<open>No root lies inside another.\<close>

definition roots_apart :: "policy \<Rightarrow> bool" where
  "roots_apart po \<longleftrightarrow> sorted_wrt (\<lambda>a b. \<not> overlaps (pr_path b) a) (po_roots po)"

lemma add_root_apart: "roots_apart po \<Longrightarrow> add_root r po = Inr po1 \<Longrightarrow> roots_apart po1"
  by (auto simp: roots_apart_def add_root_def sorted_wrt_append list_ex_iff split: if_splits)

lemma add_roots_apart: "roots_apart po \<Longrightarrow> add_roots a ps po = Inr po1 \<Longrightarrow> roots_apart po1"
  by (induction ps arbitrary: po) (auto split: option.splits sum.splits dest: add_root_apart)

lemma new_policy_apart:
  assumes "new_policy ps hs = Inr po"
  shows "roots_apart po"
proof -
  have "roots_apart \<lparr>po_roots = [], po_hidden = []\<rparr>" by (simp add: roots_apart_def)
  then show ?thesis using assms by (auto simp: new_policy_def split: sum.splits dest: add_roots_apart)
qed

lemma pin_root_apart:
  assumes "roots_apart po"
  shows "roots_apart (pin_root p i par po)"
proof -
  let ?f = "\<lambda>r. if pr_path r = p then r\<lparr>pr_identity := i, pr_parent := par\<rparr> else r"
  have "overlaps (pr_path (?f b)) (?f a) = overlaps (pr_path b) a" for a b :: policy_root by (simp add: overlaps_def)
  moreover have "po_roots (pin_root p i par po) = map ?f (po_roots po)" by (simp add: pin_root_def)
  ultimately show ?thesis using assms unfolding roots_apart_def by (simp only: sorted_wrt_map)
qed

end
