(* ===== verification/Safe_Fs.thy ===== *)
theory Safe_Fs
  imports Safe_Policy
begin

text \<open>
  The workspace's file system as the file service reaches it (runtime/lib/safe-fs/index.js). The kernel's side is an explicit
  tree of nodes, by identity; \<open>openat2\<close> with \<open>RESOLVE_BENEATH\<close> and \<open>RESOLVE_NO_SYMLINKS\<close> walks it component by component.
  Agents change the tree at any time between two operations of the service, which run one after the other under its lock;
  inside one operation the tree is taken to stand still. Every operation says whether the kernel refused its last system call
  (\<open>refused\<close>): no space, no permission, a directory moved into itself.
\<close>

subsection \<open>The tree\<close>

datatype node = NDir "(string \<times> nat) list" | NFile | NLink | NOther

record fsys =
  fs_node :: "nat \<Rightarrow> node option"
  fs_root :: nat

definition is_dir :: "fsys \<Rightarrow> nat \<Rightarrow> bool" where
  "is_dir fs n \<longleftrightarrow> (case fs_node fs n of Some (NDir es) \<Rightarrow> True | _ \<Rightarrow> False)"

definition entries_of :: "fsys \<Rightarrow> nat \<Rightarrow> (string \<times> nat) list" where
  "entries_of fs n = (case fs_node fs n of Some (NDir es) \<Rightarrow> es | _ \<Rightarrow> [])"

definition lookup :: "fsys \<Rightarrow> nat \<Rightarrow> string \<Rightarrow> nat option" where
  "lookup fs n c = map_of (entries_of fs n) c"

text \<open>The error of stepping below a node that is no directory.\<close>

definition not_dir_error :: "fsys \<Rightarrow> nat \<Rightarrow> safe_error" where
  "not_dir_error fs n = (if fs_node fs n = Some NLink then Eloop else Enotdir)"

fun walk :: "fsys \<Rightarrow> nat \<Rightarrow> string list \<Rightarrow> safe_error + nat" where
  "walk fs n [] = Inr n"
| "walk fs n (c # cs) =
    (if \<not> is_dir fs n then Inl (not_dir_error fs n)
     else (case lookup fs n c of None \<Rightarrow> Inl Enoent | Some m \<Rightarrow> walk fs m cs))"

datatype open_kind = OFile | ODir | OMeta

definition kind_error :: "fsys \<Rightarrow> open_kind \<Rightarrow> nat \<Rightarrow> safe_error option" where
  "kind_error fs k n =
    (case k of
       OMeta \<Rightarrow> None
     | ODir \<Rightarrow> if is_dir fs n then None else Some (not_dir_error fs n)
     | OFile \<Rightarrow> if fs_node fs n = Some NFile then None else Some (if fs_node fs n = Some NLink then Eloop else Eother))"

definition raw_open :: "fsys \<Rightarrow> nat \<Rightarrow> string list \<Rightarrow> open_kind \<Rightarrow> safe_error + nat" where
  "raw_open fs n cs k =
    (case walk fs n cs of Inl e \<Rightarrow> Inl e | Inr m \<Rightarrow> (case kind_error fs k m of Some e \<Rightarrow> Inl e | None \<Rightarrow> Inr m))"

subsection \<open>Handles\<close>

record descr =
  d_node :: nat
  d_path :: string
  d_store :: bool
  d_live :: bool

record safe_fs =
  sf_policy :: policy
  sf_descrs :: "descr list"
  sf_limit :: nat \<comment> \<open>\<open>scanLimit\<close>\<close>
  sf_generation :: nat

definition comps :: "string \<Rightarrow> string list" where
  "comps p = (if p = [] then [] else components p)"

definition join_path :: "string \<Rightarrow> string \<Rightarrow> string" where
  "join_path p x = (if x = [] then p else if p = ''/'' then ''/'' @ x else if p \<noteq> [] then p @ ''/'' @ x else x)"

text \<open>\<open>parts\<close>: the directory and the last component.\<close>

definition dir_of :: "string \<Rightarrow> string" where
  "dir_of p = rev (drop 1 (dropWhile (\<lambda>c. c \<noteq> CHR ''/'') (rev p)))"

definition name_of :: "string \<Rightarrow> string" where
  "name_of p = rev (takeWhile (\<lambda>c. c \<noteq> CHR ''/'') (rev p))"

definition staging_name :: "string \<Rightarrow> bool" where
  "staging_name x \<longleftrightarrow> prefix ''.gc-file-'' x \<and>
    (let u = drop 9 x in length u = 36 \<and> (\<forall>i < 36. if i \<in> {8, 13, 18, 23} then u ! i = CHR ''-'' else
       is_digit (u ! i) \<or> in_range CHR ''a'' CHR ''f'' (u ! i) \<or> in_range CHR ''A'' CHR ''F'' (u ! i)))"

subsection \<open>Opening under the policy\<close>

text \<open>\<open>_policyOpen\<close>'s walk: every node on the way is checked by identity.\<close>

fun policy_walk :: "fsys \<Rightarrow> policy \<Rightarrow> bool \<Rightarrow> nat \<Rightarrow> string list \<Rightarrow> safe_error + nat" where
  "policy_walk fs po w n cs =
    (case assert_identity po w n of
       Some e \<Rightarrow> Inl e
     | None \<Rightarrow>
        (case cs of
           [] \<Rightarrow> Inr n
         | c # rest \<Rightarrow>
            if \<not> is_dir fs n then Inl (not_dir_error fs n)
            else (case lookup fs n c of None \<Rightarrow> Inl Enoent | Some m \<Rightarrow> policy_walk fs po w m rest)))"

text \<open>The node still has the address it is opened by, and so has its directory.\<close>

definition at_address :: "fsys \<Rightarrow> string \<Rightarrow> nat \<Rightarrow> nat option \<Rightarrow> safe_error option" where
  "at_address fs full n par =
    (if full = [] then None
     else (case walk fs (fs_root fs) (comps full) of
       Inl e \<Rightarrow> Some e
     | Inr m \<Rightarrow>
        if m \<noteq> n then Some Estale
        else (case par of None \<Rightarrow> None
          | Some p \<Rightarrow> (case raw_open fs (fs_root fs) (comps (dir_of full)) ODir of
              Inl e \<Rightarrow> Some e
            | Inr q \<Rightarrow> if q \<noteq> p then Some Estale else None))))"

definition policy_open :: "fsys \<Rightarrow> policy \<Rightarrow> nat \<Rightarrow> string \<Rightarrow> string \<Rightarrow> open_kind \<Rightarrow> bool \<Rightarrow> safe_error + nat" where
  "policy_open fs po start base path k w =
    (case policy_walk fs po w start (comps path) of
       Inl e \<Rightarrow> Inl e
     | Inr n \<Rightarrow>
        (let par = (if comps path = [] then None
                    else (case walk fs start (butlast (comps path)) of Inr p \<Rightarrow> Some p | Inl e \<Rightarrow> None)) in
         case at_address fs (join_path base path) n par of
           Some e \<Rightarrow> Inl e
         | None \<Rightarrow> (case kind_error fs k n of Some e \<Rightarrow> Inl e | None \<Rightarrow> Inr n)))"

definition check_pinned :: "fsys \<Rightarrow> policy \<Rightarrow> string \<Rightarrow> bool \<Rightarrow> safe_error option" where
  "check_pinned fs po path w =
    (if \<not> has_pins po then None
     else (case policy_open fs po (fs_root fs) [] path OMeta w of
       Inl e \<Rightarrow> if e = Enoent then None else Some e
     | Inr n \<Rightarrow> None))"

definition sf_open :: "fsys \<Rightarrow> safe_fs \<Rightarrow> string \<Rightarrow> open_kind \<Rightarrow> safe_error + nat" where
  "sf_open fs s path k =
    (case assert_read (sf_policy s) path of
       Some e \<Rightarrow> Inl e
     | None \<Rightarrow>
        if has_pins (sf_policy s) then policy_open fs (sf_policy s) (fs_root fs) [] path k False
        else raw_open fs (fs_root fs) (comps path) k)"

definition new_descr :: "nat \<Rightarrow> string \<Rightarrow> bool \<Rightarrow> safe_fs \<Rightarrow> safe_fs" where
  "new_descr n p st s = s\<lparr>sf_descrs := sf_descrs s @ [\<lparr>d_node = n, d_path = p, d_store = st, d_live = True\<rparr>]\<rparr>"

definition live_descr :: "safe_fs \<Rightarrow> nat \<Rightarrow> safe_error + descr" where
  "live_descr s d = (if d < length (sf_descrs s) \<and> d_live (sf_descrs s ! d) then Inr (sf_descrs s ! d) else Inl Ebadf)"

text \<open>\<open>parent\<close>: a handle on the directory of a path, and the name in it.\<close>

definition sf_parent :: "fsys \<Rightarrow> safe_fs \<Rightarrow> string \<Rightarrow> safe_error + (safe_fs \<times> string)" where
  "sf_parent fs s path =
    (case orelse_check (canonical False path) (assert_read (sf_policy s) path) of
       Some e \<Rightarrow> Inl e
     | None \<Rightarrow>
        (case sf_open fs s (dir_of path) ODir of
           Inl e \<Rightarrow> Inl e
         | Inr n \<Rightarrow> Inr (new_descr n (dir_of path) False s, name_of path)))"

subsection \<open>Checks of a mutation\<close>

definition check_parent :: "fsys \<Rightarrow> safe_fs \<Rightarrow> descr \<Rightarrow> safe_error option" where
  "check_parent fs s d =
    (if \<not> is_dir fs (d_node d) then Some Enotdir
     else if d_store d then None
     else (case raw_open fs (fs_root fs) (comps (d_path d)) ODir of
       Inl e \<Rightarrow> Some (if e \<in> {Enoent, Eloop, Enotdir} then Estale else e)
     | Inr n \<Rightarrow>
        if n \<noteq> d_node d then Some Estale
        else orelse_check (assert_write (sf_policy s) False (d_path d)) (check_pinned fs (sf_policy s) (d_path d) True)))"

text \<open>\<open>_scanMutation\<close>: nothing protected below, within the bounds on entries and depth; the result counts the entries.\<close>

fun scan_list :: "(nat \<Rightarrow> string \<Rightarrow> nat \<Rightarrow> safe_error + nat) \<Rightarrow> policy \<Rightarrow> string \<Rightarrow> (string \<times> nat) list \<Rightarrow> nat \<Rightarrow> safe_error + nat" where
  "scan_list g po p [] k = Inr k"
| "scan_list g po p ((c, m) # es) k =
    (if canonical False c \<noteq> None \<or> CHR ''/'' \<in> set c \<or> is_reserved c then Inl (Eacces ''protected_descendant'')
     else (case assert_write po True (join_path p c) of
       Some e \<Rightarrow> Inl e
     | None \<Rightarrow> (case g m (join_path p c) k of Inl e \<Rightarrow> Inl e | Inr k1 \<Rightarrow> scan_list g po p es k1)))"

fun scan_tree :: "fsys \<Rightarrow> policy \<Rightarrow> nat \<Rightarrow> nat \<Rightarrow> nat \<Rightarrow> string \<Rightarrow> nat \<Rightarrow> safe_error + nat" where
  "scan_tree fs po lim 0 n p k = Inl E2big"
| "scan_tree fs po lim (Suc f) n p k =
    (if lim < Suc k then Inl E2big
     else (case assert_identity po True n of
       Some e \<Rightarrow> Inl e
     | None \<Rightarrow>
        if is_dir fs n then scan_list (scan_tree fs po lim f) po p (entries_of fs n) (Suc k) else Inr (Suc k)))"

definition scan_mutation :: "fsys \<Rightarrow> safe_fs \<Rightarrow> descr \<Rightarrow> string \<Rightarrow> safe_error option" where
  "scan_mutation fs s d name =
    (if sf_limit s < 1 then Some E2big
     else (case lookup fs (d_node d) name of
       None \<Rightarrow> None
     | Some n \<Rightarrow>
        (case scan_tree fs (sf_policy s) (sf_limit s) 65 n (join_path (d_path d) name) 0 of Inl e \<Rightarrow> Some e | Inr k \<Rightarrow> None)))"

definition check_mutation :: "fsys \<Rightarrow> safe_fs \<Rightarrow> descr \<Rightarrow> string \<Rightarrow> bool \<Rightarrow> bool \<Rightarrow> safe_error option" where
  "check_mutation fs s d name subtree internal =
    orelse_check (canonical False name)
      (if CHR ''/'' \<in> set name then Some (Einval ''name'')
       else orelse_check (check_parent fs s d)
         (if d_store d then None
          else orelse_check (if internal \<and> staging_name name then None
                             else assert_write (sf_policy s) subtree (join_path (d_path d) name))
            (orelse_check (check_pinned fs (sf_policy s) (join_path (d_path d) name) True)
              (if subtree then scan_mutation fs s d name else None))))"

subsection \<open>System calls\<close>

definition set_entries :: "nat \<Rightarrow> (string \<times> nat) list \<Rightarrow> fsys \<Rightarrow> fsys" where
  "set_entries n es fs = fs\<lparr>fs_node := (fs_node fs)(n := Some (NDir es))\<rparr>"

definition put_entry :: "nat \<Rightarrow> string \<Rightarrow> nat \<Rightarrow> fsys \<Rightarrow> fsys" where
  "put_entry d c n fs = set_entries d (AList.update c n (entries_of fs d)) fs"

definition drop_entry :: "nat \<Rightarrow> string \<Rightarrow> fsys \<Rightarrow> fsys" where
  "drop_entry d c fs = set_entries d (AList.delete c (entries_of fs d)) fs"

definition new_node :: "nat \<Rightarrow> node \<Rightarrow> fsys \<Rightarrow> fsys" where
  "new_node n x fs = fs\<lparr>fs_node := (fs_node fs)(n := Some x)\<rparr>"

text \<open>\<open>renameat2\<close>. A replaced target is a file under a file or an empty directory under a directory.\<close>

definition sys_rename :: "nat \<Rightarrow> string \<Rightarrow> nat \<Rightarrow> string \<Rightarrow> bool \<Rightarrow> fsys \<Rightarrow> safe_error + fsys" where
  "sys_rename a x b y no_replace fs =
    (case lookup fs a x of
       None \<Rightarrow> Inl Enoent
     | Some n \<Rightarrow>
        (case lookup fs b y of
           None \<Rightarrow> Inr (put_entry b y n (drop_entry a x fs))
         | Some t \<Rightarrow>
            if no_replace then Inl (Eexist [])
            else if t = n then Inr fs
            else if is_dir fs n \<noteq> is_dir fs t \<or> entries_of fs t \<noteq> [] then Inl Eother
            else Inr (put_entry b y n (drop_entry a x fs))))"

definition sys_add :: "nat \<Rightarrow> string \<Rightarrow> nat \<Rightarrow> node \<Rightarrow> fsys \<Rightarrow> safe_error + fsys" where
  "sys_add d c fresh x fs =
    (if lookup fs d c \<noteq> None then Inl (Eexist []) else Inr (put_entry d c fresh (new_node fresh x fs)))"

definition sys_unlink :: "nat \<Rightarrow> string \<Rightarrow> bool \<Rightarrow> fsys \<Rightarrow> safe_error + fsys" where
  "sys_unlink d c directory fs =
    (case lookup fs d c of
       None \<Rightarrow> Inl Enoent
     | Some n \<Rightarrow>
        if is_dir fs n \<noteq> directory then Inl Eother
        else if entries_of fs n \<noteq> [] then Inl (Eexist ''not_empty'')
        else Inr (drop_entry d c fs))"

subsection \<open>Operations\<close>

definition sys_result :: "safe_error option \<Rightarrow> (safe_error + fsys) \<Rightarrow> safe_error + fsys" where
  "sys_result refused r = (case refused of Some e \<Rightarrow> Inl e | None \<Rightarrow> r)"

definition checked :: "safe_error option \<Rightarrow> (safe_error + 'a) \<Rightarrow> safe_error + 'a" where
  "checked c r = (case c of Some e \<Rightarrow> Inl e | None \<Rightarrow> r)"

datatype fs_call =
    Rename nat string nat string bool
  | Mkdir nat string nat
  | StageDirectory nat string nat
  | Unlink nat string bool
  | Create nat string nat

definition on_live :: "safe_fs \<Rightarrow> nat \<Rightarrow> (descr \<Rightarrow> safe_error + 'a) \<Rightarrow> safe_error + 'a" where
  "on_live s d f = (case live_descr s d of Inl e \<Rightarrow> Inl e | Inr x \<Rightarrow> f x)"

fun fs_mutate :: "safe_error option \<Rightarrow> fsys \<Rightarrow> safe_fs \<Rightarrow> fs_call \<Rightarrow> safe_error + fsys" where
  "fs_mutate refused fs s (Rename a x b y no_replace) =
    on_live s a (\<lambda>from. on_live s b (\<lambda>to.
      checked (orelse_check (check_mutation fs s from x True True) (check_mutation fs s to y True False))
        (sys_result refused (sys_rename (d_node from) x (d_node to) y no_replace fs))))"
| "fs_mutate refused fs s (Mkdir d c fresh) =
    on_live s d (\<lambda>x. checked (check_mutation fs s x c False False) (sys_result refused (sys_add (d_node x) c fresh (NDir []) fs)))"
| "fs_mutate refused fs s (StageDirectory d c fresh) =
    on_live s d (\<lambda>x. checked (check_mutation fs s x c False True) (sys_result refused (sys_add (d_node x) c fresh (NDir []) fs)))"
| "fs_mutate refused fs s (Unlink d c directory) =
    on_live s d (\<lambda>x. checked (check_mutation fs s x c True True) (sys_result refused (sys_unlink (d_node x) c directory fs)))"
| "fs_mutate refused fs s (Create d c fresh) =
    on_live s d (\<lambda>x. checked (check_mutation fs s x c False True) (sys_result refused (sys_add (d_node x) c fresh NFile fs)))"

text \<open>The handle that \<open>create\<close> and \<open>stageDirectory\<close> return; the generated name of a stage is \<open>staging_name\<close>.\<close>

definition fs_returns :: "fs_call \<Rightarrow> safe_fs \<Rightarrow> safe_fs" where
  "fs_returns c s =
    (case c of
       StageDirectory d x fresh \<Rightarrow> new_descr fresh (join_path (d_path (sf_descrs s ! d)) x) (d_store (sf_descrs s ! d)) s
     | Create d x fresh \<Rightarrow> new_descr fresh (join_path (d_path (sf_descrs s ! d)) x) (d_store (sf_descrs s ! d)) s
     | _ \<Rightarrow> s)"

subsection \<open>Registering roots\<close>

text \<open>\<open>_pinRegistration\<close>: the identity of what a root names now, if anything, and of its directory.\<close>

definition find_pin :: "fsys \<Rightarrow> string \<Rightarrow> safe_error + (nat option \<times> nat)" where
  "find_pin fs path =
    (case raw_open fs (fs_root fs) (comps (dir_of path)) ODir of
       Inl e \<Rightarrow> Inl e
     | Inr par \<Rightarrow>
        (case raw_open fs par (if name_of path = [] then [] else [name_of path]) OMeta of
           Inl e \<Rightarrow> if e = Enoent then Inr (None, par) else Inl e
         | Inr n \<Rightarrow> if is_dir fs n \<or> fs_node fs n = Some NFile then Inr (Some n, par) else Inl Eother))"

fun pin_all :: "fsys \<Rightarrow> policy_root list \<Rightarrow> policy \<Rightarrow> safe_error + policy" where
  "pin_all fs [] po = Inr po"
| "pin_all fs (r # rs) po =
    (case find_pin fs (pr_path r) of
       Inl e \<Rightarrow> Inl e
     | Inr (i, par) \<Rightarrow> pin_all fs rs (pin_root (pr_path r) i (Some par) po))"

definition sf_start :: "fsys \<Rightarrow> string list \<Rightarrow> string list \<Rightarrow> nat \<Rightarrow> safe_error + safe_fs" where
  "sf_start fs protected hidden limit =
    (case new_policy protected hidden of
       Inl e \<Rightarrow> Inl e
     | Inr po \<Rightarrow>
        (case pin_all fs (po_roots po) po of
           Inl e \<Rightarrow> Inl e
         | Inr po1 \<Rightarrow> Inr \<lparr>sf_policy = po1, sf_descrs = [\<lparr>d_node = fs_root fs, d_path = [], d_store = False, d_live = True\<rparr>],
             sf_limit = limit, sf_generation = 0\<rparr>))"

definition sf_register :: "fsys \<Rightarrow> string \<Rightarrow> root_access \<Rightarrow> safe_fs \<Rightarrow> safe_error + safe_fs" where
  "sf_register fs path a s =
    checked (check_registration (sf_policy s) path)
      (case find_pin fs path of
         Inl e \<Rightarrow> Inl e
       | Inr (i, par) \<Rightarrow>
          (case add_root \<lparr>pr_path = path, pr_access = a, pr_identity = i, pr_parent = Some par\<rparr> (sf_policy s) of
             Inl e \<Rightarrow> Inl e
           | Inr po \<Rightarrow> Inr (s\<lparr>sf_policy := po, sf_generation := sf_generation s + 1\<rparr>)))"

end
