(* ===== verification/Safe_Fs_Props.thy ===== *)
theory Safe_Fs_Props
  imports Safe_Fs
begin

text \<open>
  Protected roots stay as they are (runtime/lib/safe-fs): no rename, creation or removal by the file service through workspace
  handles changes anything at or below a node that the policy pinned, or takes such a node away from where it is, wherever agents have moved it meanwhile.
\<close>

subsection \<open>The tree\<close>

text \<open>A directory has one entry that names it; the root has none.\<close>

definition tree :: "fsys \<Rightarrow> bool" where
  "tree fs \<longleftrightarrow> (\<forall>a x b y n. lookup fs a x = Some n \<longrightarrow> lookup fs b y = Some n \<longrightarrow> is_dir fs n \<longrightarrow> a = b) \<and>
     (\<forall>a x. lookup fs a x \<noteq> Some (fs_root fs))"

inductive below :: "fsys \<Rightarrow> nat \<Rightarrow> nat \<Rightarrow> bool" for fs where
  below_refl: "below fs p p"
| below_step: "below fs p a \<Longrightarrow> lookup fs a x = Some n \<Longrightarrow> below fs p n"

lemma below_front: "below fs p n \<Longrightarrow> p = n \<or> (\<exists>x m. lookup fs p x = Some m \<and> below fs m n)"
proof (induction rule: below.induct)
  case (below_step p a x n)
  then show ?case using below.intros by blast
qed simp

lemma lookup_dir: "lookup fs n c = Some m \<Longrightarrow> is_dir fs n"
  by (auto simp: lookup_def entries_of_def is_dir_def split: option.splits node.splits)

lemma lookup_entry: "lookup fs n c = Some m \<Longrightarrow> (c, m) \<in> set (entries_of fs n)"
  by (simp add: lookup_def map_of_SomeD)

text \<open>The nodes a walk visits.\<close>

fun trail :: "fsys \<Rightarrow> nat \<Rightarrow> string list \<Rightarrow> nat list" where
  "trail fs n [] = [n]"
| "trail fs n (c # cs) = n # (case lookup fs n c of None \<Rightarrow> [] | Some m \<Rightarrow> trail fs m cs)"

lemma walk_Cons: "walk fs n (c # cs) = Inr m \<longleftrightarrow> (\<exists>k. lookup fs n c = Some k \<and> walk fs k cs = Inr m)"
  using lookup_dir by (auto split: option.splits)

lemma walk_append: "walk fs n (cs @ ds) = Inr m \<longleftrightarrow> (\<exists>k. walk fs n cs = Inr k \<and> walk fs k ds = Inr m)"
  by (induction cs arbitrary: n) (auto simp: walk_Cons simp del: walk.simps(2))

lemma trail_append: "walk fs n cs = Inr k \<Longrightarrow> set (trail fs n cs) \<subseteq> set (trail fs n (cs @ ds))"
proof (induction cs arbitrary: n)
  case Nil
  then show ?case by (cases ds) auto
next
  case (Cons c cs)
  then show ?case using walk_Cons by fastforce
qed

lemma trail_end: "walk fs n cs = Inr m \<Longrightarrow> m \<in> set (trail fs n cs)"
  by (induction cs arbitrary: n) (auto simp: walk_Cons simp del: walk.simps(2))

lemma trail_start: "n \<in> set (trail fs n cs)"
  by (cases cs) simp_all

lemma walk_below: "walk fs n cs = Inr m \<Longrightarrow> below fs n m"
proof (induction cs arbitrary: m rule: rev_induct)
  case (snoc c cs)
  then obtain k where "walk fs n cs = Inr k" "lookup fs k c = Some m" by (auto simp: walk_append walk_Cons simp del: walk.simps(2))
  then show ?case using snoc.IH below_step by blast
qed (simp add: below_refl)

text \<open>In a tree, whatever a directory is below of lies on the walk to it.\<close>

lemma ancestors_on_trail:
  assumes t: "tree fs" and "below fs p d" and "is_dir fs d" and "walk fs (fs_root fs) cs = Inr d"
  shows "p \<in> set (trail fs (fs_root fs) cs)"
  using assms(2-)
proof (induction arbitrary: cs rule: below.induct)
  case (below_refl p)
  then show ?case by (simp add: trail_end)
next
  case (below_step p a x n)
  have "cs \<noteq> []" using below_step t by (auto simp: tree_def)
  then obtain ds c where ds: "cs = ds @ [c]" by (cases cs rule: rev_cases) auto
  then obtain k where k: "walk fs (fs_root fs) ds = Inr k" "lookup fs k c = Some n"
    using below_step.prems by (auto simp: walk_append walk_Cons simp del: walk.simps(2))
  have "k = a" using t k(2) below_step.hyps(2) below_step.prems(1) unfolding tree_def by blast
  then have "p \<in> set (trail fs (fs_root fs) ds)" using below_step.IH [of ds] k lookup_dir by blast
  then show ?case using trail_append [OF k(1), of "[c]"] ds by blast
qed

subsection \<open>What the checks establish\<close>

lemma policy_walk_cases:
  "walk fs n cs = Inr m \<Longrightarrow> (policy_walk fs po True n cs = Inr m \<and> (\<forall>k \<in> set (trail fs n cs). k \<notin> pinned po)) \<or>
     (\<exists>e. policy_walk fs po True n cs = Inl (Eacces e))"
proof (induction cs arbitrary: n)
  case Nil
  then show ?case using assert_identity_write [of po n] by (auto simp: assert_identity_def split: option.splits)
next
  case (Cons c cs)
  obtain k where k: "lookup fs n c = Some k" "walk fs k cs = Inr m" using Cons.prems walk_Cons by blast
  show ?case
  proof (cases "assert_identity po True n")
    case None
    then show ?thesis using Cons.IH [OF k(2)] k(1) lookup_dir [OF k(1)] assert_identity_write [of po n] by simp
  qed (auto simp: assert_identity_def split: if_splits)
qed

lemma check_pinned_trail:
  assumes "check_pinned fs po path True = None" and "walk fs (fs_root fs) (comps path) = Inr m"
  shows "\<forall>k \<in> set (trail fs (fs_root fs) (comps path)). k \<notin> pinned po"
proof (cases "has_pins po")
  case True
  then show ?thesis using assms policy_walk_cases [OF assms(2), of po]
    by (auto simp: check_pinned_def policy_open_def Let_def split: sum.splits if_splits)
qed (simp add: no_pins_pinned)

lemma check_parent_unpinned:
  assumes t: "tree fs" and ok: "check_parent fs s d = None" and st: "\<not> d_store d" and p: "p \<in> pinned (sf_policy s)"
  shows "\<not> below fs p (d_node d)" "is_dir fs (d_node d)"
proof -
  show dir: "is_dir fs (d_node d)" using ok by (auto simp: check_parent_def split: if_splits)
  have w: "walk fs (fs_root fs) (comps (d_path d)) = Inr (d_node d)" "check_pinned fs (sf_policy s) (d_path d) True = None"
    using ok st dir by (auto simp: check_parent_def raw_open_def split: if_splits sum.splits option.splits)
  show "\<not> below fs p (d_node d)"
    using check_pinned_trail [OF w(2,1)] ancestors_on_trail [OF t _ dir w(1)] p by blast
qed

lemma scan_list_children:
  "scan_list g po p es k = Inr k1 \<Longrightarrow> (c, m) \<in> set es \<Longrightarrow> \<exists>p' i j. g m p' i = Inr j"
proof (induction es arbitrary: k)
  case (Cons x es)
  obtain c1 m1 where x: "x = (c1, m1)" by fastforce
  obtain k2 where k2: "g m1 (join_path p c1) k = Inr k2" "scan_list g po p es k2 = Inr k1"
    using Cons.prems(1) by (auto simp: x split: if_splits option.splits sum.splits)
  show ?case
  proof (cases "(c, m) = x")
    case True
    then show ?thesis using k2(1) x by blast
  next
    case False
    then show ?thesis using Cons.IH [OF k2(2)] Cons.prems(2) by simp
  qed
qed simp

lemma scan_tree_unpinned:
  "scan_tree fs po lim f n p k = Inr k1 \<Longrightarrow> below fs n m \<Longrightarrow> m \<notin> pinned po"
proof (induction f arbitrary: n p k k1)
  case (Suc f)
  have n: "n \<notin> pinned po" using Suc.prems(1) assert_identity_write [of po n] by (auto split: if_splits option.splits)
  consider "n = m" | x n1 where "lookup fs n x = Some n1" "below fs n1 m" using below_front [OF Suc.prems(2)] by blast
  then show ?case
  proof cases
    case 2
    then have "is_dir fs n" "(x, n1) \<in> set (entries_of fs n)" using lookup_dir lookup_entry by blast+
    then obtain p' i j where "scan_tree fs po lim f n1 p' i = Inr j"
      using Suc.prems(1) scan_list_children [of "scan_tree fs po lim f" po p "entries_of fs n" "Suc k" k1 x n1]
      by (auto split: if_splits option.splits)
    then show ?thesis using Suc.IH 2(2) by blast
  qed (use n in simp)
qed simp

text \<open>A checked mutation: its directory is below nothing pinned, and with \<open>subtree\<close> nothing pinned is below its target.\<close>

lemma check_mutation_ok:
  assumes t: "tree fs" and ok: "check_mutation fs s d name subtree internal = None" and st: "\<not> d_store d" and p: "p \<in> pinned (sf_policy s)"
  shows "\<not> below fs p (d_node d)" "is_dir fs (d_node d)"
    "subtree \<Longrightarrow> lookup fs (d_node d) name = Some n \<Longrightarrow> \<not> below fs n p"
proof -
  have par: "check_parent fs s d = None" using ok by (auto simp: check_mutation_def split: if_splits)
  show "\<not> below fs p (d_node d)" "is_dir fs (d_node d)" using check_parent_unpinned [OF t par st p] by auto
  assume "subtree" and n: "lookup fs (d_node d) name = Some n"
  then have "scan_mutation fs s d name = None" using ok st by (auto simp: check_mutation_def split: if_splits)
  then obtain k where "scan_tree fs (sf_policy s) (sf_limit s) 65 n (join_path (d_path d) name) 0 = Inr k"
    using n by (auto simp: scan_mutation_def split: if_splits sum.splits)
  then show "\<not> below fs n p" using scan_tree_unpinned p by blast
qed

subsection \<open>What the system calls change\<close>

text \<open>All that changed are these entries and the nodes in \<open>F\<close>, which are new.\<close>

definition edits :: "(nat \<times> string) set \<Rightarrow> nat set \<Rightarrow> fsys \<Rightarrow> fsys \<Rightarrow> bool" where
  "edits E F fs fs' \<longleftrightarrow> fs_root fs' = fs_root fs \<and> (\<forall>n c. (n, c) \<notin> E \<longrightarrow> n \<notin> F \<longrightarrow> lookup fs' n c = lookup fs n c) \<and>
     (\<forall>n. n \<notin> fst ` E \<longrightarrow> n \<notin> F \<longrightarrow> fs_node fs' n = fs_node fs n)"

lemma entries_set [simp]: "entries_of (set_entries n es fs) k = (if k = n then es else entries_of fs k)"
  by (simp add: entries_of_def set_entries_def)

lemma lookup_put: "lookup (put_entry d c n fs) k x = (if k = d \<and> x = c then Some n else lookup fs k x)"
  by (simp add: lookup_def put_entry_def update_conv')

lemma lookup_drop: "lookup (drop_entry d c fs) k x = (if k = d \<and> x = c then None else lookup fs k x)"
  by (simp add: lookup_def drop_entry_def delete_conv')

lemma node_put: "k \<noteq> d \<Longrightarrow> fs_node (put_entry d c n fs) k = fs_node fs k" "k \<noteq> d \<Longrightarrow> fs_node (drop_entry d c fs) k = fs_node fs k"
  "fs_root (put_entry d c n fs) = fs_root fs" "fs_root (drop_entry d c fs) = fs_root fs"
  by (simp_all add: put_entry_def drop_entry_def set_entries_def)

lemma rename_edits: "sys_rename a x b y nr fs = Inr fs' \<Longrightarrow> edits {(a, x), (b, y)} {} fs fs'"
  by (auto simp: sys_rename_def edits_def lookup_put lookup_drop node_put split: option.splits if_splits)

lemma unlink_edits: "sys_unlink d c dir fs = Inr fs' \<Longrightarrow> edits {(d, c)} {} fs fs'"
  by (auto simp: sys_unlink_def edits_def lookup_drop node_put split: option.splits if_splits)

lemma add_edits:
  assumes "sys_add d c fresh x fs = Inr fs'" "fresh \<noteq> d"
  shows "edits {(d, c)} {fresh} fs fs' \<and> lookup fs d c = None"
proof -
  have "lookup (new_node fresh x fs) n c' = lookup fs n c'" if "n \<noteq> fresh" for n c'
    using that by (simp add: lookup_def entries_of_def new_node_def)
  then show ?thesis using assms by (auto simp: sys_add_def edits_def lookup_put node_put split: if_splits) (simp_all add: new_node_def)
qed

lemma edits_safe:
  assumes e: "edits E F fs fs'" and E: "\<And>n c. (n, c) \<in> E \<Longrightarrow> \<not> below fs p n \<and> (\<forall>m. lookup fs n c = Some m \<longrightarrow> \<not> below fs m p)"
    and F: "\<And>n. n \<in> F \<Longrightarrow> \<not> below fs p n \<and> \<not> below fs n p"
  shows "(\<forall>n. below fs p n \<longrightarrow> fs_node fs' n = fs_node fs n) \<and>
    (\<forall>cs. walk fs (fs_root fs) cs = Inr p \<longrightarrow> walk fs' (fs_root fs') cs = Inr p)"
proof -
  have "fs_node fs' n = fs_node fs n" if "below fs p n" for n
  proof -
    have "n \<notin> fst ` E" "n \<notin> F" using E F that by force+
    then show ?thesis using e by (simp add: edits_def)
  qed
  moreover have "walk fs' n cs = Inr p" if "walk fs n cs = Inr p" for n cs
    using that
  proof (induction cs arbitrary: n)
    case (Cons c cs)
    then obtain m where m: "lookup fs n c = Some m" "walk fs m cs = Inr p" using walk_Cons by blast
    have "below fs m p" "below fs n p" using walk_below [OF m(2)] walk_below [OF Cons.prems] by auto
    then have "(n, c) \<notin> E" "n \<notin> F" using E F m(1) by blast+
    then have "lookup fs' n c = Some m" using e m(1) by (simp add: edits_def)
    then show ?case using Cons.IH [OF m(2)] walk_Cons by blast
  qed simp
  moreover have "fs_root fs' = fs_root fs" using e by (simp add: edits_def)
  ultimately show ?thesis by simp
qed

subsection \<open>The properties\<close>

text \<open>The nodes a call makes are new: not in the tree, and not pinned (the service holds a handle on every pinned object, so
  its inode is not given to another one).\<close>

fun fresh_nodes :: "fs_call \<Rightarrow> nat list" where
  "fresh_nodes (Mkdir d c n) = [n]"
| "fresh_nodes (StageDirectory d c n) = [n]"
| "fresh_nodes (Create d c n) = [n]"
| "fresh_nodes _ = []"

definition fresh_ok :: "fsys \<Rightarrow> policy \<Rightarrow> fs_call \<Rightarrow> bool" where
  "fresh_ok fs po c \<longleftrightarrow> (\<forall>n \<in> set (fresh_nodes c). n \<notin> pinned po \<and> fs_node fs n = None \<and> (\<forall>a x. lookup fs a x \<noteq> Some n))"

text \<open>The handles a call uses; those of the private store are outside the workspace.\<close>

fun handles_of :: "fs_call \<Rightarrow> nat list" where
  "handles_of (Rename a x b y nr) = [a, b]"
| "handles_of (Mkdir d c n) = [d]"
| "handles_of (StageDirectory d c n) = [d]"
| "handles_of (Unlink d c dir) = [d]"
| "handles_of (Create d c n) = [d]"

definition in_workspace :: "safe_fs \<Rightarrow> fs_call \<Rightarrow> bool" where
  "in_workspace s c \<longleftrightarrow> (\<forall>d \<in> set (handles_of c). \<not> d_store (sf_descrs s ! d))"

lemma fresh_apart:
  assumes "fresh_ok fs po c" "n \<in> set (fresh_nodes c)" "p \<in> pinned po"
  shows "\<not> below fs p n" "\<not> below fs n p"
proof -
  have n: "n \<notin> pinned po" "fs_node fs n = None" "\<And>a x. lookup fs a x \<noteq> Some n" using assms(1,2) by (auto simp: fresh_ok_def)
  show "\<not> below fs p n" using n(1,3) assms(3) by (auto elim: below.cases)
  have "lookup fs n x = None" for x using n(2) by (simp add: lookup_def entries_of_def)
  then show "\<not> below fs n p" using below_front [of fs n p] n(1) assms(3) by auto
qed

lemma on_live_Inr: "on_live s d f = Inr y \<longleftrightarrow> (\<exists>x. live_descr s d = Inr x \<and> f x = Inr y)"
  by (auto simp: on_live_def split: sum.splits)

lemma live_descr_Inr: "live_descr s d = Inr x \<Longrightarrow> x = sf_descrs s ! d"
  by (auto simp: live_descr_def split: if_splits)

lemma checked_Inr: "checked c r = Inr y \<longleftrightarrow> c = None \<and> r = Inr y"
  by (auto simp: checked_def split: option.splits)

lemma sys_result_Inr: "sys_result e r = Inr y \<longleftrightarrow> e = None \<and> r = Inr y"
  by (auto simp: sys_result_def split: option.splits)

lemmas call_Inr = on_live_Inr checked_Inr sys_result_Inr orelse_check_None

lemma add_safe:
  assumes t: "tree fs" and st: "\<not> d_store x" and p: "p \<in> pinned (sf_policy s)" and f: "\<not> below fs p fresh" "\<not> below fs fresh p"
    and ok: "check_mutation fs s x c sub i = None" and r: "sys_add (d_node x) c fresh nd fs = Inr fs'" and new: "fs_node fs fresh = None"
  shows "(\<forall>n. below fs p n \<longrightarrow> fs_node fs' n = fs_node fs n) \<and>
    (\<forall>cs. walk fs (fs_root fs) cs = Inr p \<longrightarrow> walk fs' (fs_root fs') cs = Inr p)"
proof -
  note m = check_mutation_ok [OF t ok st p]
  have "fresh \<noteq> d_node x" using m(2) new by (auto simp: is_dir_def)
  note e = add_edits [OF r this]
  show ?thesis by (rule edits_safe [OF conjunct1 [OF e]]) (use m e f in auto)
qed

text \<open>Claim C12. Whatever agents have done to the workspace before, a successful rename, mkdir, stage of a directory, unlink
  or exclusive create of the file service through workspace handles (none of the private store's, for which the service
  skips these checks) leaves everything at and below a pinned node as it is, and every path that leads to a pinned node
  keeps leading to it: by these operations protected folders are neither moved nor deleted and nothing is added below
  them, also when they were renamed behind the service's back. Writing to an open file, clone and probe are not among
  the operations, and the nodes a creation makes are fresh ones of the file system.\<close>

theorem protected_unchanged:
  assumes t: "tree fs" and "fresh_ok fs (sf_policy s) call" and "in_workspace s call"
    and ok: "fs_mutate refused fs s call = Inr fs'" and p: "p \<in> pinned (sf_policy s)"
  shows "(\<forall>n. below fs p n \<longrightarrow> fs_node fs' n = fs_node fs n) \<and>
    (\<forall>cs. walk fs (fs_root fs) cs = Inr p \<longrightarrow> walk fs' (fs_root fs') cs = Inr p)"
proof (cases call)
  case (Rename a x b y nr)
  then obtain da db where d: "da = sf_descrs s ! a" "db = sf_descrs s ! b" "check_mutation fs s da x True True = None"
    "check_mutation fs s db y True False = None" "sys_rename (d_node da) x (d_node db) y nr fs = Inr fs'"
    using ok live_descr_Inr by (auto simp: call_Inr)
  have st: "\<not> d_store da" "\<not> d_store db" using assms(3) Rename d(1,2) by (simp_all add: in_workspace_def)
  note ma = check_mutation_ok [OF t d(3) st(1) p] and mb = check_mutation_ok [OF t d(4) st(2) p]
  show ?thesis by (rule edits_safe [OF rename_edits [OF d(5)]]) (use ma mb in auto)
next
  case (Unlink a x dir)
  then obtain da where d: "da = sf_descrs s ! a" "check_mutation fs s da x True True = None" "sys_unlink (d_node da) x dir fs = Inr fs'"
    using ok live_descr_Inr by (auto simp: call_Inr)
  have st: "\<not> d_store da" using assms(3) Unlink d(1) by (simp add: in_workspace_def)
  note ma = check_mutation_ok [OF t d(2) st p]
  show ?thesis by (rule edits_safe [OF unlink_edits [OF d(3)]]) (use ma in auto)
next
  case (Mkdir d c n)
  then show ?thesis using assms add_safe [OF t _ p fresh_apart [OF assms(2) _ p]] live_descr_Inr
    by (auto simp: call_Inr in_workspace_def fresh_ok_def)
next
  case (StageDirectory d c n)
  then show ?thesis using assms add_safe [OF t _ p fresh_apart [OF assms(2) _ p]] live_descr_Inr
    by (auto simp: call_Inr in_workspace_def fresh_ok_def)
next
  case (Create d c n)
  then show ?thesis using assms add_safe [OF t _ p fresh_apart [OF assms(2) _ p]] live_descr_Inr
    by (auto simp: call_Inr in_workspace_def fresh_ok_def)
qed

text \<open>A workspace with a protected folder \<open>datasets\<close> that agents moved into \<open>b\<close>, and a folder \<open>a\<close> that is renamed.\<close>

definition demo_fs :: fsys where
  "demo_fs = \<lparr>fs_node = (\<lambda>n. if n = 0 then Some (NDir [(''a'', 1), (''b'', 2)]) else if n = 1 then Some (NDir [])
     else if n = 2 then Some (NDir [(''data'', 3)]) else if n = 3 then Some (NDir [(''x'', 4)]) else if n = 4 then Some NFile else None), fs_root = 0\<rparr>"

definition demo_service :: safe_fs where
  "demo_service = \<lparr>sf_policy = \<lparr>po_roots = [\<lparr>pr_path = ''datasets'', pr_access = ReadOnly, pr_identity = Some 3, pr_parent = Some 0\<rparr>], po_hidden = []\<rparr>,
     sf_descrs = [\<lparr>d_node = 0, d_path = [], d_store = False, d_live = True\<rparr>], sf_limit = 10, sf_generation = 0\<rparr>"

lemma demo_lookup: "lookup demo_fs a x = Some n \<longleftrightarrow>
  (a = 0 \<and> x = ''a'' \<and> n = 1) \<or> (a = 0 \<and> x = ''b'' \<and> n = 2) \<or> (a = 2 \<and> x = ''data'' \<and> n = 3) \<or> (a = 3 \<and> x = ''x'' \<and> n = 4)"
  by (auto simp: lookup_def entries_of_def demo_fs_def)

lemma demo_tree: "tree demo_fs"
  unfolding tree_def demo_lookup by (simp add: demo_fs_def)

lemma demo_checks:
  "check_mutation demo_fs demo_service (sf_descrs demo_service ! 0) ''a'' True True = None"
  "check_mutation demo_fs demo_service (sf_descrs demo_service ! 0) ''c'' True False = None"
  "check_mutation demo_fs demo_service (sf_descrs demo_service ! 0) ''b'' True True = Some (Eacces ''read_only_root'')"
  by code_simp+

lemma demo_renamed: "fs_mutate None demo_fs demo_service (Rename 0 ''a'' 0 ''c'' True) =
    Inr (put_entry 0 ''c'' 1 (drop_entry 0 ''a'' demo_fs))"
proof -
  have "live_descr demo_service 0 = Inr (sf_descrs demo_service ! 0)" "d_node (sf_descrs demo_service ! 0) = 0"
    by (simp_all add: live_descr_def demo_service_def)
  moreover have "lookup demo_fs 0 ''a'' = Some 1" "lookup demo_fs 0 ''c'' = None" by (simp_all add: lookup_def entries_of_def demo_fs_def)
  ultimately show ?thesis using demo_checks by (simp add: on_live_def checked_def sys_result_def orelse_check_def sys_rename_def)
qed

lemma protected_unchanged_witness:
  "fs_node (put_entry 0 ''c'' 1 (drop_entry 0 ''a'' demo_fs)) 3 = Some (NDir [(''x'', 4)])"
  using protected_unchanged [OF demo_tree _ _ demo_renamed, of 3]
  by (auto simp: fresh_ok_def in_workspace_def demo_service_def pinned_def below_refl) (simp add: demo_fs_def)

end
