(* ===== verification/Broker_Logs.thy ===== *)
theory Broker_Logs
  imports Session_Log Ordered_Map
begin

text \<open>
  Which log instance writes a session's files (runtime/lib/session-broker.js, \<open>#logFor\<close> and \<open>#evictLogs\<close>). The broker keeps
  the logs of the conversations in use open and evicts others; a session may so be opened many times. Every instance
  ever made is in \<open>ls_insts\<close>, in order: callers keep references to evicted ones. The files are shared by the
  instances of a session (\<open>ls_disk\<close>): a step of an instance reads and writes them there. The continuations of the
  callers that wait for one open run in one go when it ends.
\<close>

type_synonym log_disk = "(nat \<times> nat \<times> bool) option \<times> string option \<times> string option"

record log_inst =
  li_sid :: nat
  li_log :: slog
  li_given :: bool \<comment> \<open>\<open>open\<close> has returned it\<close>

text \<open>An open in flight: waiting for the flush of an evicted instance, about to read the files (with whether meta fields
  were passed), or its instance writing \<open>meta.json\<close>.\<close>

datatype log_opening = OpWait nat bool | OpRead bool | OpMeta nat

record log_store =
  ls_insts :: "log_inst list"
  ls_logs :: "(nat, nat) omap"
  ls_opening :: "(nat, log_opening) omap"
  ls_closing :: "(nat, nat \<times> nat) omap" \<comment> \<open>the evicted instance and how many of its tasks the flush still waits for\<close>
  ls_disk :: "nat \<Rightarrow> log_disk"

definition empty_store :: log_store where
  "empty_store = \<lparr>ls_insts = [], ls_logs = [], ls_opening = [], ls_closing = [], ls_disk = (\<lambda>_. (None, None, None))\<rparr>"

definition log_files :: "slog \<Rightarrow> log_disk" where
  "log_files s = (disk_meta s, cur_file s, old_file s)"

definition with_files :: "log_disk \<Rightarrow> slog \<Rightarrow> slog" where
  "with_files d s = (case d of (m, c, o1) \<Rightarrow> s\<lparr>disk_meta := m, cur_file := c, old_file := o1\<rparr>)"

subsection \<open>Opening\<close>

definition log_for :: "nat \<Rightarrow> bool \<Rightarrow> log_store \<Rightarrow> log_store" where
  "log_for sid extra st =
    (if om_has (ls_logs st) sid \<or> om_has (ls_opening st) sid then st
     else st\<lparr>ls_opening := om_set sid (case om_get (ls_closing st) sid of Some (i, k) \<Rightarrow> OpWait i extra | None \<Rightarrow> OpRead extra) (ls_opening st)\<rparr>)"

text \<open>The flush of an evicted instance is over: an open that waited for it goes on.\<close>

definition flush_done :: "nat \<Rightarrow> log_store \<Rightarrow> log_store" where
  "flush_done sid st =
    (case om_get (ls_closing st) sid of
       Some (i, 0) \<Rightarrow> st\<lparr>ls_closing := om_delete sid (ls_closing st),
         ls_opening := (case om_get (ls_opening st) sid of
           Some (OpWait j extra) \<Rightarrow> if j = i then om_set sid (OpRead extra) (ls_opening st) else ls_opening st
         | _ \<Rightarrow> ls_opening st)\<rparr>
     | _ \<Rightarrow> st)"

definition open_reads :: "nat \<Rightarrow> log_store \<Rightarrow> log_store" where
  "open_reads sid st =
    (case om_get (ls_opening st) sid of
       Some (OpRead extra) \<Rightarrow>
         (case ls_disk st sid of (m, c, o1) \<Rightarrow>
           (let s = open_log extra m c o1 in
            st\<lparr>ls_insts := ls_insts st @ [\<lparr>li_sid = sid, li_log = s, li_given = False\<rparr>],
              ls_opening := om_set sid (OpMeta (length (ls_insts st))) (ls_opening st),
              ls_disk := (ls_disk st)(sid := log_files s)\<rparr>))
     | _ \<Rightarrow> st)"

subsection \<open>Eviction\<close>

definition evictable :: "nat list \<Rightarrow> nat \<Rightarrow> log_store \<Rightarrow> nat \<times> nat \<Rightarrow> bool" where
  "evictable in_use keep st x =
    (fst x \<noteq> keep \<and> \<not> log_busy (li_log (ls_insts st ! snd x)) \<and> fst x \<notin> set in_use)"

definition close_inst :: "nat \<Rightarrow> log_store \<Rightarrow> log_store" where
  "close_inst i st = st\<lparr>ls_insts := (ls_insts st)[i := (ls_insts st ! i)\<lparr>li_log := (li_log (ls_insts st ! i))\<lparr>log_closed := True\<rparr>\<rparr>]\<rparr>"

definition evict_logs :: "nat \<Rightarrow> nat list \<Rightarrow> nat \<Rightarrow> log_store \<Rightarrow> log_store" where
  "evict_logs max_run in_use keep st =
    (if length (ls_logs st) \<le> 8 + max_run then st
     else (case List.find (evictable in_use keep st) (ls_logs st) of
       None \<Rightarrow> st
     | Some (old, i) \<Rightarrow>
        (close_inst i st)\<lparr>ls_logs := om_delete old (ls_logs st),
          ls_closing := om_set old (i, length (tasks (li_log (ls_insts st ! i)))) (ls_closing st)\<rparr>))"

text \<open>The end of an open: \<open>meta.json\<close> is written when it has to be; \<open>in_use\<close> are the conversations with a turn, a pending
  request or a prompt being admitted.\<close>

definition give_out :: "nat \<Rightarrow> nat \<Rightarrow> log_store \<Rightarrow> log_store" where
  "give_out sid i st = st\<lparr>ls_insts := (ls_insts st)[i := (ls_insts st ! i)\<lparr>li_given := True\<rparr>],
     ls_opening := om_delete sid (ls_opening st), ls_logs := om_set sid i (ls_logs st)\<rparr>"

definition publish :: "nat \<Rightarrow> nat list \<Rightarrow> nat \<Rightarrow> nat \<Rightarrow> log_store \<Rightarrow> log_store" where
  "publish max_run in_use sid i st = evict_logs max_run in_use sid (give_out sid i st)"

definition inst_does :: "nat \<Rightarrow> nat \<Rightarrow> log_event \<Rightarrow> log_store \<Rightarrow> log_store \<times> (nat \<times> log_out) list" where
  "inst_does limit i ev st =
    (let x = ls_insts st ! i;
         r = log_step limit (with_files (ls_disk st (li_sid x)) (li_log x)) ev
     in (st\<lparr>ls_insts := (ls_insts st)[i := x\<lparr>li_log := fst r\<rparr>], ls_disk := (ls_disk st)(li_sid x := log_files (fst r))\<rparr>,
         map (Pair (li_sid x)) (snd r)))"

definition open_ends :: "nat \<Rightarrow> nat \<Rightarrow> nat list \<Rightarrow> nat \<Rightarrow> log_io \<Rightarrow> log_store \<Rightarrow> log_store" where
  "open_ends limit max_run in_use sid io st =
    (case om_get (ls_opening st) sid of
       Some (OpMeta i) \<Rightarrow>
         (if tasks (li_log (ls_insts st ! i)) = [] then publish max_run in_use sid i st
          else if io_meta io then publish max_run in_use sid i (fst (inst_does limit i (LogGoes io) st))
          else st\<lparr>ls_opening := om_delete sid (ls_opening st)\<rparr>)
     | _ \<Rightarrow> st)"

subsection \<open>Uses\<close>

text \<open>A caller appends to or replays an instance it was given, or a task of it runs; the flush counts the tasks queued before it.\<close>

definition given :: "log_store \<Rightarrow> nat \<Rightarrow> bool" where
  "given st i \<longleftrightarrow> i < length (ls_insts st) \<and> li_given (ls_insts st ! i)"

definition task_ran :: "nat \<Rightarrow> log_store \<Rightarrow> log_store" where
  "task_ran i st = st\<lparr>ls_closing := map (\<lambda>(sid, j, k). (sid, j, if j = i then k - 1 else k)) (ls_closing st)\<rparr>"

datatype store_event =
    LogFor nat bool
  | FlushDone nat
  | OpenReads nat
  | OpenEnds "nat list" nat log_io
  | AppendTo nat nat string bool
  | ReplayFrom nat nat
  | TaskRuns nat log_io

fun store_step :: "nat \<Rightarrow> nat \<Rightarrow> log_store \<Rightarrow> store_event \<Rightarrow> log_store \<times> (nat \<times> log_out) list" where
  "store_step limit max_run st (LogFor sid extra) = (log_for sid extra st, [])"
| "store_step limit max_run st (FlushDone sid) = (flush_done sid st, [])"
| "store_step limit max_run st (OpenReads sid) = (open_reads sid st, [])"
| "store_step limit max_run st (OpenEnds in_use sid io) = (open_ends limit max_run in_use sid io st, [])"
| "store_step limit max_run st (AppendTo i ts body sync) =
    (if given st i then inst_does limit i (Append ts body sync) st else (st, []))"
| "store_step limit max_run st (ReplayFrom i r) = (if given st i then inst_does limit i (Replay r) st else (st, []))"
| "store_step limit max_run st (TaskRuns i io) =
    (if given st i then (case inst_does limit i (LogGoes io) st of (st1, outs) \<Rightarrow> (task_ran i st1, outs)) else (st, []))"

fun store_run :: "nat \<Rightarrow> nat \<Rightarrow> log_store \<Rightarrow> store_event list \<Rightarrow> log_store \<times> (nat \<times> log_out) list" where
  "store_run limit max_run st [] = (st, [])"
| "store_run limit max_run st (e # es) =
    (case store_step limit max_run st e of (st1, o1) \<Rightarrow> (case store_run limit max_run st1 es of (st2, o2) \<Rightarrow> (st2, o1 @ o2)))"

end
