(* ===== verification/Logs_Props.thy ===== *)
theory Logs_Props
  imports Broker_Logs Log_Props Run_System
begin

text \<open>
  One writer per session file: whatever opens, evictions and reopens a session goes through, its files and
  acknowledgements are those of a single log (runtime/lib/session-broker.js with session-log.js).
\<close>

subsection \<open>The invariant\<close>

fun is_snap :: "log_task \<Rightarrow> bool" where
  "is_snap (TakeSnapshot r) = True"
| "is_snap _ = False"

definition inst_of :: "log_store \<Rightarrow> nat \<Rightarrow> slog" where
  "inst_of st i = li_log (ls_insts st ! i)"

definition writer :: "log_store \<Rightarrow> nat \<Rightarrow> nat option" where
  "writer st sid = (case om_get (ls_logs st) sid of Some i \<Rightarrow> Some i
     | None \<Rightarrow> (case om_get (ls_opening st) sid of Some (OpMeta i) \<Rightarrow> Some i | _ \<Rightarrow> None))"

text \<open>The instances of \<open>logs\<close> are given out and open, those of \<open>opening\<close> are not given out; every other instance given out
  is closed and writes nothing any more.\<close>

definition logs_fine :: "log_store \<Rightarrow> bool" where
  "logs_fine st \<longleftrightarrow> om_ok (ls_logs st) \<and>
     (\<forall>sid i. om_get (ls_logs st) sid = Some i \<longrightarrow>
        i < length (ls_insts st) \<and> li_sid (ls_insts st ! i) = sid \<and> li_given (ls_insts st ! i) \<and> om_get (ls_opening st) sid = None)"

definition opens_fine :: "log_store \<Rightarrow> bool" where
  "opens_fine st \<longleftrightarrow>
     (\<forall>sid i. om_get (ls_opening st) sid = Some (OpMeta i) \<longrightarrow>
        i < length (ls_insts st) \<and> li_sid (ls_insts st ! i) = sid \<and> \<not> li_given (ls_insts st ! i) \<and>
        (tasks (inst_of st i) = [] \<or> tasks (inst_of st i) = [WriteMeta]))"

definition olds_fine :: "log_store \<Rightarrow> bool" where
  "olds_fine st \<longleftrightarrow>
     (\<forall>i < length (ls_insts st). li_given (ls_insts st ! i) \<longrightarrow> om_get (ls_logs st) (li_sid (ls_insts st ! i)) \<noteq> Some i \<longrightarrow>
        log_closed (inst_of st i) \<and> list_all is_snap (tasks (inst_of st i)))"

definition store_fine :: "log_store \<Rightarrow> bool" where
  "store_fine st \<longleftrightarrow> logs_fine st \<and> opens_fine st \<and> olds_fine st"

lemmas fine_defs = store_fine_def logs_fine_def opens_fine_def olds_fine_def

subsection \<open>The single log a session's instances amount to\<close>

definition idle_tasks :: "log_task list \<Rightarrow> bool" where
  "idle_tasks ts \<longleftrightarrow> ts = [] \<or> ts = [WriteMeta]"

definition same_log :: "nat \<Rightarrow> log_store \<Rightarrow> slog \<Rightarrow> bool" where
  "same_log sid st s \<longleftrightarrow> ls_disk st sid = log_files s \<and>
     (case writer st sid of Some i \<Rightarrow> with_files (ls_disk st sid) (inst_of st i) = s | None \<Rightarrow> idle_tasks (tasks s))"

lemma files_with [simp]: "log_files (with_files d s) = d"
  by (cases d) (simp add: log_files_def with_files_def)

lemma with_own [simp]: "with_files (log_files s) s = s"
  by (simp add: log_files_def with_files_def)

lemma with_fields [simp]:
  "tasks (with_files d s) = tasks s" "log_closed (with_files d s) = log_closed s"
  by (cases d, simp add: with_files_def)+

lemma crash_idle: "idle_tasks (tasks s) \<Longrightarrow> crash_files k s = s"
  by (auto simp: idle_tasks_def crash_files_def)

lemma open_log_extra: "open_log x m c o1 = open_log False m c o1 \<or>
   open_log x m c o1 = (open_log False m c o1)\<lparr>tasks := tasks (open_log False m c o1) @ [WriteMeta]\<rparr>"
  by (cases "recover (new_log m c o1)") (auto simp: open_log_def recover_def new_log_def Let_def split: prod.splits option.splits)

lemma open_log_tasks: "idle_tasks (tasks (open_log x m c o1))"
  by (cases "recover (new_log m c o1)") (auto simp: idle_tasks_def open_log_def recover_def new_log_def Let_def split: prod.splits option.splits)

subsection \<open>Steps keep the invariant\<close>

lemma nth_upd: "k < length xs \<Longrightarrow> xs[i := v] ! k = (if i = k then v else xs ! k)"
  by (cases "i = k") simp_all

lemma fineD:
  assumes "store_fine st"
  shows "om_ok (ls_logs st)"
    "om_get (ls_logs st) sid = Some i \<Longrightarrow> i < length (ls_insts st) \<and> li_sid (ls_insts st ! i) = sid \<and> li_given (ls_insts st ! i)"
    "om_get (ls_logs st) sid = Some i \<Longrightarrow> om_get (ls_opening st) sid = None"
    "om_get (ls_opening st) sid = Some (OpMeta j) \<Longrightarrow> j < length (ls_insts st) \<and> li_sid (ls_insts st ! j) = sid \<and>
       \<not> li_given (ls_insts st ! j) \<and> idle_tasks (tasks (inst_of st j))"
    "k < length (ls_insts st) \<Longrightarrow> li_given (ls_insts st ! k) \<Longrightarrow> om_get (ls_logs st) (li_sid (ls_insts st ! k)) \<noteq> Some k \<Longrightarrow>
       log_closed (inst_of st k) \<and> list_all is_snap (tasks (inst_of st k))"
  using assms by (auto simp: fine_defs idle_tasks_def)

lemma writer_sid: "store_fine st \<Longrightarrow> writer st sid = Some i \<Longrightarrow> i < length (ls_insts st) \<and> li_sid (ls_insts st ! i) = sid"
  using fineD(2,4) by (fastforce simp: writer_def split: option.splits log_opening.splits)

lemma opening_unlogged: "store_fine st \<Longrightarrow> om_get (ls_opening st) sid = Some x \<Longrightarrow> om_get (ls_logs st) sid = None"
  using fineD(3) by (cases "om_get (ls_logs st) sid") fastforce+

lemma log_for_fine: "store_fine st \<Longrightarrow> store_fine (log_for sid extra st)"
  by (auto simp: log_for_def fine_defs inst_of_def om_has_def split: option.splits)

lemma flush_done_fine: "store_fine st \<Longrightarrow> store_fine (flush_done sid st)"
  using opening_unlogged [of st sid]
  by (auto simp: flush_done_def fine_defs inst_of_def split: option.splits nat.splits log_opening.splits if_splits)

lemma open_reads_fine:
  assumes "store_fine st"
  shows "store_fine (open_reads sid st)"
proof (cases "\<exists>extra. om_get (ls_opening st) sid = Some (OpRead extra)")
  case True
  then obtain extra where e: "om_get (ls_opening st) sid = Some (OpRead extra)" by blast
  obtain m c o1 where d: "ls_disk st sid = (m, c, o1)" by (cases "ls_disk st sid") auto
  have "tasks (open_log extra m c o1) = [] \<or> tasks (open_log extra m c o1) = [WriteMeta]"
    using open_log_tasks [of extra m c o1] by (simp add: idle_tasks_def)
  then show ?thesis using assms e d opening_unlogged [OF assms e]
    by (auto simp: open_reads_def Let_def fine_defs inst_of_def nth_append less_Suc_eq)
qed (auto simp: open_reads_def assms split: option.splits log_opening.splits)

lemma evict_fine:
  assumes f: "store_fine st"
  shows "store_fine (evict_logs mx use keep st)"
proof (cases "length (ls_logs st) \<le> 8 + mx \<or> List.find (evictable use keep st) (ls_logs st) = None")
  case False
  then obtain old i where o: "List.find (evictable use keep st) (ls_logs st) = Some (old, i)" "\<not> length (ls_logs st) \<le> 8 + mx" by auto
  note e = find_SomeD [OF o(1)]
  have i: "om_get (ls_logs st) old = Some i" using e fineD(1) [OF f] om_mem_get by fastforce
  note fi = fineD(2,3) [OF f i]
  have t: "tasks (inst_of st i) = []" using e by (simp add: evictable_def log_busy_def inst_of_def)
  let ?st = "evict_logs mx use keep st"
  have eq: "ls_logs ?st = om_delete old (ls_logs st)" "ls_opening ?st = ls_opening st" "length (ls_insts ?st) = length (ls_insts st)"
    using o by (auto simp: evict_logs_def close_inst_def)
  have k: "li_sid (ls_insts ?st ! k) = li_sid (ls_insts st ! k) \<and> li_given (ls_insts ?st ! k) = li_given (ls_insts st ! k) \<and>
      tasks (inst_of ?st k) = tasks (inst_of st k) \<and> log_closed (inst_of ?st k) = (k = i \<or> log_closed (inst_of st k))"
    if "k < length (ls_insts st)" for k
    using o that by (auto simp: evict_logs_def close_inst_def inst_of_def nth_upd)
  have "logs_fine ?st" using f fi k eq by (auto simp: fine_defs)
  moreover have "opens_fine ?st" using f k eq by (auto simp: fine_defs)
  moreover have "log_closed (inst_of ?st j) \<and> list_all is_snap (tasks (inst_of ?st j))"
    if j: "j < length (ls_insts st)" "li_given (ls_insts ?st ! j)" "om_get (ls_logs ?st) (li_sid (ls_insts ?st ! j)) \<noteq> Some j" for j
  proof (cases "j = i")
    case False
    then have "om_get (ls_logs st) (li_sid (ls_insts st ! j)) \<noteq> Some j" using j k [OF j(1)] i eq by (auto split: if_splits)
    then show ?thesis using fineD(5) [OF f, of j] j k [OF j(1)] by simp
  qed (use k [OF j(1)] t in simp)
  then have "olds_fine ?st" by (simp add: olds_fine_def eq)
  ultimately show ?thesis by (simp add: store_fine_def)
qed (auto simp: evict_logs_def f split: option.splits)

lemma give_out_fine:
  assumes f: "store_fine st" and i: "om_get (ls_opening st) sid = Some (OpMeta i)"
  shows "store_fine (give_out sid i st)"
proof -
  note fi = fineD(4) [OF f i] and n = opening_unlogged [OF f i]
  have "logs_fine (give_out sid i st)" using f fi n by (auto simp: fine_defs nth_list_update give_out_def)
  moreover have "opens_fine (give_out sid i st)" using f fi by (auto simp: fine_defs nth_list_update inst_of_def give_out_def)
  moreover have "olds_fine (give_out sid i st)"
    using f fi n by (fastforce simp: fine_defs nth_list_update inst_of_def give_out_def split: if_splits)
  ultimately show ?thesis by (simp add: store_fine_def)
qed

lemma publish_fine: "store_fine st \<Longrightarrow> om_get (ls_opening st) sid = Some (OpMeta i) \<Longrightarrow> store_fine (publish mx use sid i st)"
  by (simp add: publish_def evict_fine give_out_fine)

lemma inst_does_fields:
  "ls_logs (fst (inst_does limit i ev st)) = ls_logs st" "ls_opening (fst (inst_does limit i ev st)) = ls_opening st"
  "ls_closing (fst (inst_does limit i ev st)) = ls_closing st"
  "length (ls_insts (fst (inst_does limit i ev st))) = length (ls_insts st)"
  "k < length (ls_insts st) \<Longrightarrow> li_sid (ls_insts (fst (inst_does limit i ev st)) ! k) = li_sid (ls_insts st ! k)"
  "k < length (ls_insts st) \<Longrightarrow> li_given (ls_insts (fst (inst_does limit i ev st)) ! k) = li_given (ls_insts st ! k)"
  "k < length (ls_insts st) \<Longrightarrow> inst_of (fst (inst_does limit i ev st)) k =
     (if k = i then fst (log_step limit (with_files (ls_disk st (li_sid (ls_insts st ! i))) (inst_of st i)) ev) else inst_of st k)"
  by (auto simp: inst_does_def Let_def inst_of_def nth_upd)

text \<open>A closed instance with nothing but snapshots queued leaves the files alone.\<close>

fun harmless :: "log_event \<Rightarrow> bool" where
  "harmless (LogCrash k) = False"
| "harmless PutMeta = False"
| "harmless _ = True"

lemma closed_step:
  assumes "log_closed s" "list_all is_snap (tasks s)" "harmless ev"
  shows "log_closed (fst (log_step limit s ev))" "list_all is_snap (tasks (fst (log_step limit s ev)))"
    "log_files (fst (log_step limit s ev)) = log_files s"
    "x \<in> set (snd (log_step limit s ev)) \<Longrightarrow> x = AppendRefused \<or> (\<exists>r sn. x = Snapped r sn)"
proof -
  have "log_closed (fst (log_step limit s ev)) \<and> list_all is_snap (tasks (fst (log_step limit s ev))) \<and>
    log_files (fst (log_step limit s ev)) = log_files s \<and>
    (\<forall>x \<in> set (snd (log_step limit s ev)). x = AppendRefused \<or> (\<exists>r sn. x = Snapped r sn))"
  proof (cases ev)
    case (LogGoes io)
    show ?thesis
    proof (cases "tasks s")
      case (Cons t ts)
      then show ?thesis using assms LogGoes by (cases t) (auto simp: log_goes_def log_files_def)
    qed (use assms LogGoes in \<open>simp add: log_goes_def\<close>)
  qed (use assms in \<open>auto simp: append_event_def log_files_def\<close>)
  then show "log_closed (fst (log_step limit s ev))" "list_all is_snap (tasks (fst (log_step limit s ev)))"
    "log_files (fst (log_step limit s ev)) = log_files s"
    "x \<in> set (snd (log_step limit s ev)) \<Longrightarrow> x = AppendRefused \<or> (\<exists>r sn. x = Snapped r sn)"
    by auto
qed

lemma inst_does_fine:
  assumes f: "store_fine st" and g: "i < length (ls_insts st)" "harmless ev"
    and o: "li_given (ls_insts st ! i) \<or> (\<exists>io. ev = LogGoes io)"
  shows "store_fine (fst (inst_does limit i ev st))"
proof -
  let ?st = "fst (inst_does limit i ev st)"
  note F = inst_does_fields [where limit = limit and i = i and ev = ev and st = st]
  have "logs_fine ?st" using f F(5,6) by (auto simp: fine_defs F(1-4))
  moreover have "opens_fine ?st" unfolding opens_fine_def F(2,4)
  proof (intro allI impI)
    fix sid j assume j: "om_get (ls_opening st) sid = Some (OpMeta j)"
    note fj = fineD(4) [OF f j]
    have "idle_tasks (tasks (inst_of ?st j))"
    proof (cases "j = i")
      case True
      then obtain io where "ev = LogGoes io" using o fj by auto
      then show ?thesis using fj F(7) [of j] True
        by (auto simp: idle_tasks_def log_goes_def write_meta_now_def with_files_def split: prod.splits)
    qed (use fj F(7) [of j] in simp)
    then show "j < length (ls_insts st) \<and> li_sid (ls_insts ?st ! j) = sid \<and> \<not> li_given (ls_insts ?st ! j) \<and>
      (tasks (inst_of ?st j) = [] \<or> tasks (inst_of ?st j) = [WriteMeta])"
      using fj F(5,6) [of j] by (simp add: idle_tasks_def)
  qed
  moreover have "olds_fine ?st" unfolding olds_fine_def F(1,4)
    using fineD(5) [OF f] F(5-7) closed_step(1,2) [OF _ _ g(2)] by fastforce
  ultimately show ?thesis by (simp add: store_fine_def)
qed

lemma open_ends_fine:
  assumes f: "store_fine st"
  shows "store_fine (open_ends limit mx use sid io st)"
proof (cases "\<exists>i. om_get (ls_opening st) sid = Some (OpMeta i)")
  case True
  then obtain i where i: "om_get (ls_opening st) sid = Some (OpMeta i)" by blast
  have g: "store_fine (fst (inst_does limit i (LogGoes io) st))" using inst_does_fine [OF f] fineD(4) [OF f i] by simp
  have i2: "om_get (ls_opening (fst (inst_does limit i (LogGoes io) st))) sid = Some (OpMeta i)" using i by (simp add: inst_does_fields)
  have "store_fine (st\<lparr>ls_opening := om_delete sid (ls_opening st)\<rparr>)" using f by (auto simp: fine_defs inst_of_def)
  then show ?thesis using i publish_fine [OF f i] publish_fine [OF g i2] by (simp add: open_ends_def)
qed (auto simp: open_ends_def f split: option.splits log_opening.splits)

lemma store_step_fine:
  assumes "store_fine st"
  shows "store_fine (fst (store_step limit mx st e))"
proof (cases e)
  case (TaskRuns i io)
  have "store_fine (task_ran i st')" if "store_fine st'" for st'
    using that by (auto simp: task_ran_def fine_defs inst_of_def)
  then show ?thesis using assms TaskRuns inst_does_fine [OF assms, of i "LogGoes io"] by (auto simp: given_def split_beta)
qed (use assms log_for_fine flush_done_fine open_reads_fine open_ends_fine inst_does_fine in \<open>auto simp: given_def\<close>)

lemma empty_store_fine: "store_fine empty_store"
  by (simp add: fine_defs empty_store_def)

interpretation store_runs: run_invariant "\<lambda>st e. fst (store_step limit mx st e)" store_fine for limit mx
  by unfold_locales (rule store_step_fine)

subsection \<open>The simulation\<close>

fun is_ack :: "log_out \<Rightarrow> bool" where
  "is_ack (Appended n) = True"
| "is_ack (AppendFailed n) = True"
| "is_ack _ = False"

definition acks :: "nat \<Rightarrow> (nat \<times> log_out) list \<Rightarrow> log_out list" where
  "acks sid outs = filter is_ack (map snd (filter (\<lambda>x. fst x = sid) outs))"

text \<open>A run in which no process dies inside a write.\<close>

definition io_calm :: "log_event \<Rightarrow> bool" where
  "io_calm ev \<longleftrightarrow> io_whole ev \<and> (\<forall>k. ev = LogCrash k \<longrightarrow> k = 0)"

text \<open>A reopened session: the single log dies with nothing to write and opens again.\<close>

lemma reopen_sim:
  assumes "idle_tasks (tasks s)" "log_files s = (m, c, o1)"
  shows "\<exists>evs. list_all io_calm evs \<and> log_run limit s evs = (open_log x m c o1, [])"
proof -
  have f: "disk_meta s = m" "cur_file s = c" "old_file s = o1" using assms(2) by (simp_all add: log_files_def)
  have one: "log_run limit s [LogCrash 0] = (open_log False m c o1, [])"
    using f by (simp add: crash_idle [OF assms(1)] Let_def)
  from open_log_extra [of x m c o1] show ?thesis
  proof
    assume "open_log x m c o1 = open_log False m c o1"
    then show ?thesis using one by (intro exI [of _ "[LogCrash 0]"]) (simp add: io_calm_def)
  next
    assume "open_log x m c o1 = (open_log False m c o1)\<lparr>tasks := tasks (open_log False m c o1) @ [WriteMeta]\<rparr>"
    then show ?thesis using one by (intro exI [of _ "[LogCrash 0, PutMeta]"]) (simp add: io_calm_def)
  qed
qed

definition simulates :: "nat \<Rightarrow> nat \<Rightarrow> slog \<Rightarrow> log_store \<Rightarrow> log_out list \<Rightarrow> bool" where
  "simulates limit sid s st outs \<longleftrightarrow> (\<exists>evs. list_all io_calm evs \<and> same_log sid st (fst (log_run limit s evs)) \<and>
     outs = filter is_ack (snd (log_run limit s evs)))"

lemma simulates_none: "same_log sid st s \<Longrightarrow> simulates limit sid s st []"
  unfolding simulates_def by (rule exI [of _ "[]"]) simp

lemma simulates_one: "io_calm ev \<Longrightarrow> same_log sid st (fst (log_step limit s ev)) \<Longrightarrow> outs = filter is_ack (snd (log_step limit s ev)) \<Longrightarrow>
    simulates limit sid s st outs"
  unfolding simulates_def by (rule exI [of _ "[ev]"]) (simp add: split_beta)

lemma same_log_keep:
  "same_log sid st s \<Longrightarrow> ls_disk st' sid = ls_disk st sid \<Longrightarrow> writer st' sid = writer st sid \<Longrightarrow>
   (\<And>i. writer st sid = Some i \<Longrightarrow> inst_of st' i = inst_of st i) \<Longrightarrow> same_log sid st' s"
  by (auto simp: same_log_def split: option.splits)

lemma writer_cong: "om_get (ls_logs st') sid = om_get (ls_logs st) sid \<Longrightarrow> om_get (ls_opening st') sid = om_get (ls_opening st) sid \<Longrightarrow>
    writer st' sid = writer st sid"
  by (simp add: writer_def cong: option.case_cong)

lemma log_for_same: "store_fine st \<Longrightarrow> same_log sid st s \<Longrightarrow> same_log sid (log_for sd extra st) s"
  by (erule same_log_keep) (auto simp: log_for_def writer_def inst_of_def om_has_def split: option.splits)

lemma flush_done_same: "store_fine st \<Longrightarrow> same_log sid st s \<Longrightarrow> same_log sid (flush_done sd st) s"
  by (erule same_log_keep) (auto simp: flush_done_def writer_def inst_of_def split: option.splits nat.splits log_opening.splits)

lemma open_reads_sim:
  assumes f: "store_fine st" and s: "same_log sid st s"
  shows "simulates limit sid s (open_reads sd st) []"
proof (cases "\<exists>extra. om_get (ls_opening st) sd = Some (OpRead extra)")
  case True
  then obtain extra where e: "om_get (ls_opening st) sd = Some (OpRead extra)" by blast
  obtain m c o1 where d: "ls_disk st sd = (m, c, o1)" by (cases "ls_disk st sd") auto
  let ?st = "open_reads sd st"
  have eq: "ls_disk ?st = (ls_disk st)(sd := log_files (open_log extra m c o1))" "ls_logs ?st = ls_logs st"
    "ls_opening ?st = om_set sd (OpMeta (length (ls_insts st))) (ls_opening st)"
    "inst_of ?st (length (ls_insts st)) = open_log extra m c o1"
    "k < length (ls_insts st) \<Longrightarrow> inst_of ?st k = inst_of st k" for k
    using e d by (simp_all add: open_reads_def Let_def inst_of_def nth_append)
  show ?thesis
  proof (cases "sd = sid")
    case False
    have "same_log sid ?st s"
      by (rule same_log_keep [OF s]) (use eq False writer_sid [OF f] in \<open>auto intro: writer_cong\<close>)
    then show ?thesis by (rule simulates_none)
  next
    case True
    have "writer st sid = None" using e True opening_unlogged [OF f e] by (simp add: writer_def)
    then have "idle_tasks (tasks s)" "log_files s = (m, c, o1)" using s d True by (simp_all add: same_log_def)
    then obtain evs where evs: "list_all io_calm evs" "log_run limit s evs = (open_log extra m c o1, [])"
      using reopen_sim by blast
    have "same_log sid ?st (open_log extra m c o1)"
      using True opening_unlogged [OF f e] by (simp add: same_log_def writer_def eq [unfolded True])
    then show ?thesis unfolding simulates_def using evs by (intro exI [of _ evs]) simp
  qed
qed (auto simp: open_reads_def intro: simulates_none [OF s] split: option.splits log_opening.splits)

lemma evict_same:
  assumes f: "store_fine st" and s: "same_log sid st s"
  shows "same_log sid (evict_logs mx use keep st) s"
proof (cases "length (ls_logs st) \<le> 8 + mx \<or> List.find (evictable use keep st) (ls_logs st) = None")
  case False
  then obtain old i where o: "List.find (evictable use keep st) (ls_logs st) = Some (old, i)" "\<not> length (ls_logs st) \<le> 8 + mx" by auto
  note e = find_SomeD [OF o(1)]
  have i: "om_get (ls_logs st) old = Some i" using e fineD(1) [OF f] om_mem_get by fastforce
  note fi = fineD(2,3) [OF f i]
  let ?st = "evict_logs mx use keep st"
  have eq: "ls_logs ?st = om_delete old (ls_logs st)" "ls_opening ?st = ls_opening st" "ls_disk ?st = ls_disk st"
    using o by (auto simp: evict_logs_def close_inst_def)
  have k: "k \<noteq> i \<Longrightarrow> inst_of ?st k = inst_of st k" for k
    using o by (simp add: evict_logs_def close_inst_def inst_of_def)
  show ?thesis
  proof (cases "sid = old")
    case True
    have "with_files (ls_disk st sid) (inst_of st i) = s" using s i True by (auto simp: same_log_def writer_def)
    moreover have "tasks (inst_of st i) = []" using e by (simp add: evictable_def log_busy_def inst_of_def)
    ultimately have "tasks s = []" by (metis with_fields(1))
    then show ?thesis using s True fi by (simp add: same_log_def writer_def eq idle_tasks_def)
  next
    case False
    show ?thesis
    proof (rule same_log_keep [OF s])
      fix j assume "writer st sid = Some j"
      then have "j \<noteq> i" using writer_sid [OF f] fi False by auto
      then show "inst_of ?st j = inst_of st j" by (rule k)
    qed (use eq False in \<open>auto intro: writer_cong\<close>)
  qed
qed (auto simp: evict_logs_def s split: option.splits)

lemma publish_same:
  assumes f: "store_fine st" and i: "om_get (ls_opening st) sd = Some (OpMeta i)" and s: "same_log sid st s"
  shows "same_log sid (publish mx use sd i st) s"
  unfolding publish_def
proof (rule evict_same [OF give_out_fine [OF f i]])
  note fi = fineD(4) [OF f i] and n = opening_unlogged [OF f i]
  have "writer (give_out sd i st) sid = writer st sid"
    by (cases "sid = sd") (use i n in \<open>simp add: writer_def give_out_def, intro writer_cong, simp_all add: give_out_def\<close>)
  then show "same_log sid (give_out sd i st) s"
    by (intro same_log_keep [OF s]) (use fi in \<open>auto simp: inst_of_def nth_list_update give_out_def\<close>)
qed

lemma inst_does_sim:
  assumes f: "store_fine st" and g: "i < length (ls_insts st)" "harmless ev" and w: "io_whole ev" and s: "same_log sid st s"
    and o: "writer st (li_sid (ls_insts st ! i)) = Some i \<or> li_given (ls_insts st ! i)"
  shows "simulates limit sid s (fst (inst_does limit i ev st)) (acks sid (snd (inst_does limit i ev st)))"
proof -
  let ?st = "fst (inst_does limit i ev st)" and ?x = "li_sid (ls_insts st ! i)"
  note F = inst_does_fields [where limit = limit and i = i and ev = ev and st = st]
  let ?r = "log_step limit (with_files (ls_disk st ?x) (inst_of st i)) ev"
  have disk: "ls_disk ?st = (ls_disk st)(?x := log_files (fst ?r))" and outs: "snd (inst_does limit i ev st) = map (Pair ?x) (snd ?r)"
    by (simp_all add: inst_does_def Let_def inst_of_def)
  have wr: "writer ?st = writer st" by (rule ext) (rule writer_cong, simp_all add: F)
  have inst: "writer st y = Some j \<Longrightarrow> inst_of ?st j = (if j = i then fst ?r else inst_of st j)" for y j
    using writer_sid [OF f, of y j] F(7) [of j] by simp
  show ?thesis
  proof (cases "sid = ?x")
    case False
    have "same_log sid ?st s"
      by (rule same_log_keep [OF s]) (use False writer_sid [OF f] inst disk wr in auto)
    moreover have "acks sid (map (Pair ?x) (snd ?r)) = []" using False by (auto simp: acks_def filter_empty_conv)
    ultimately show ?thesis using simulates_none by (simp add: outs)
  next
    case True
    have a: "acks sid (map (Pair ?x) (snd ?r)) = filter is_ack (snd ?r)" using True by (simp add: acks_def filter_map comp_def)
    show ?thesis
    proof (cases "writer st ?x = Some i")
      case w1: True
      then have r: "?r = log_step limit s ev" using s True by (auto simp: same_log_def)
      have "same_log sid ?st (fst ?r)" using w1 True inst [OF w1] by (simp add: same_log_def wr disk)
      then show ?thesis using simulates_one [of ev] w g(2) a outs r by (cases ev) (simp_all add: io_calm_def)
    next
      case w2: False
      then have "om_get (ls_logs st) ?x \<noteq> Some i" by (auto simp: writer_def)
      then have c: "log_closed (with_files (ls_disk st ?x) (inst_of st i))" "list_all is_snap (tasks (with_files (ls_disk st ?x) (inst_of st i)))"
        using fineD(5) [OF f g(1)] o w2 by auto
      note cs = closed_step [OF c g(2), where limit = limit]
      have "same_log sid ?st s"
        by (rule same_log_keep [OF s]) (use w2 True inst disk wr cs(3) in auto)
      moreover have "filter is_ack (snd ?r) = []" using cs(4) by (auto simp: filter_empty_conv elim: is_ack.elims)
      ultimately show ?thesis using simulates_none a outs by simp
    qed
  qed
qed

lemma meta_goes:
  "tasks (inst_of st i) = [WriteMeta] \<Longrightarrow> io_meta io \<Longrightarrow> inst_does limit i (LogGoes io) st = inst_does limit i (LogGoes io_fine) st"
  "tasks (inst_of st i) = [WriteMeta] \<Longrightarrow> snd (inst_does limit i (LogGoes io) st) = []"
  by (simp_all add: inst_does_def Let_def log_goes_def inst_of_def io_fine_def)

lemma open_ends_sim:
  assumes f: "store_fine st" and s: "same_log sid st s"
  shows "simulates limit sid s (open_ends limit mx use sd io st) []"
proof (cases "\<exists>i. om_get (ls_opening st) sd = Some (OpMeta i)")
  case True
  then obtain i where i: "om_get (ls_opening st) sd = Some (OpMeta i)" by blast
  note fi = fineD(4) [OF f i]
  have w: "writer st sd = Some i" using i opening_unlogged [OF f i] by (simp add: writer_def)
  consider "tasks (inst_of st i) = []" | "tasks (inst_of st i) = [WriteMeta]" "io_meta io" | "tasks (inst_of st i) = [WriteMeta]" "\<not> io_meta io"
    using fi by (auto simp: idle_tasks_def)
  then show ?thesis
  proof cases
    case 1
    then show ?thesis using i publish_same [OF f i s] by (simp add: open_ends_def inst_of_def simulates_none)
  next
    case 2
    let ?st = "fst (inst_does limit i (LogGoes io_fine) st)"
    have g: "store_fine ?st" using inst_does_fine [OF f] fi by simp
    have i2: "om_get (ls_opening ?st) sd = Some (OpMeta i)" using i by (simp add: inst_does_fields)
    have "simulates limit sid s ?st []"
      using inst_does_sim [OF f, of i "LogGoes io_fine" sid s limit] fi w s meta_goes(2) [OF 2(1)] by (simp add: io_fine_def acks_def)
    then have "simulates limit sid s (publish mx use sd i ?st) []"
      unfolding simulates_def using publish_same [OF g i2] by blast
    then show ?thesis using i 2 meta_goes(1) [OF 2] by (simp add: open_ends_def inst_of_def)
  next
    case 3
    have "same_log sid (st\<lparr>ls_opening := om_delete sd (ls_opening st)\<rparr>) s" (is "same_log sid ?st s")
    proof (cases "sid = sd")
      case True
      have "with_files (ls_disk st sid) (inst_of st i) = s" using s w True by (auto simp: same_log_def)
      then have "idle_tasks (tasks s)" using fi by (metis with_fields(1))
      then show ?thesis using True s opening_unlogged [OF f i] by (simp add: same_log_def writer_def)
    next
      case False
      show ?thesis by (rule same_log_keep [OF s]) (use False in \<open>auto simp: inst_of_def intro: writer_cong\<close>)
    qed
    then show ?thesis using i 3 by (simp add: open_ends_def inst_of_def simulates_none)
  qed
qed (auto simp: open_ends_def intro: simulates_none [OF s] split: option.splits log_opening.splits)

subsection \<open>Runs\<close>

fun store_whole :: "store_event \<Rightarrow> bool" where
  "store_whole (AppendTo i ts body y) = io_whole (Append ts body y)"
| "store_whole (TaskRuns i io) = io_whole (LogGoes io)"
| "store_whole _ = True"

lemma store_step_sim:
  assumes f: "store_fine st" and s: "same_log sid st s" and w: "store_whole e"
  shows "simulates limit sid s (fst (store_step limit mx st e)) (acks sid (snd (store_step limit mx st e)))"
proof -
  have none: "simulates limit sid s st []" by (rule simulates_none [OF s])
  have nil: "acks sid [] = []" by (simp add: acks_def)
  note does = inst_does_sim [OF f _ _ _ s]
  show ?thesis
  proof (cases e)
    case (TaskRuns i io)
    let ?r = "inst_does limit i (LogGoes io) st"
    have "same_log sid (task_ran i st') s' = same_log sid st' s'" for st' s'
      by (simp add: same_log_def task_ran_def inst_of_def writer_def cong: option.case_cong)
    then have "simulates limit sid s (task_ran i (fst ?r)) (acks sid (snd ?r))" if "given st i"
      using does [of i "LogGoes io" limit] that w TaskRuns by (simp add: given_def simulates_def)
    then show ?thesis using none nil TaskRuns by (simp add: split_beta)
  next
    case (AppendTo i ts body y)
    then show ?thesis using none nil does [of i "Append ts body y" limit] w by (simp add: given_def)
  next
    case (ReplayFrom i r)
    then show ?thesis using none nil does [of i "Replay r" limit] by (simp add: given_def)
  qed (use nil simulates_none log_for_same [OF f s] flush_done_same [OF f s] open_reads_sim [OF f s] open_ends_sim [OF f s] in auto)
qed

lemma log_run_append: "log_run limit s (a @ b) = (case log_run limit s a of (s1, o1) \<Rightarrow> (case log_run limit s1 b of (s2, o2) \<Rightarrow> (s2, o1 @ o2)))"
  by (induction a arbitrary: s) (auto simp: split_beta)

lemma store_run_sim:
  "store_fine st \<Longrightarrow> same_log sid st s \<Longrightarrow> list_all store_whole es \<Longrightarrow>
   simulates limit sid s (fst (store_run limit mx st es)) (acks sid (snd (store_run limit mx st es)))"
proof (induction es arbitrary: st s)
  case Nil
  then show ?case using simulates_none by (simp add: acks_def)
next
  case (Cons e es)
  let ?st = "fst (store_step limit mx st e)"
  obtain a where a: "list_all io_calm a" "same_log sid ?st (fst (log_run limit s a))"
    "acks sid (snd (store_step limit mx st e)) = filter is_ack (snd (log_run limit s a))"
    using store_step_sim [OF Cons.prems(1,2), of e limit mx] Cons.prems(3) by (auto simp: simulates_def)
  obtain b where b: "list_all io_calm b" "same_log sid (fst (store_run limit mx ?st es)) (fst (log_run limit (fst (log_run limit s a)) b))"
    "acks sid (snd (store_run limit mx ?st es)) = filter is_ack (snd (log_run limit (fst (log_run limit s a)) b))"
    using Cons.IH [OF store_step_fine [OF Cons.prems(1)] a(2)] Cons.prems(3) by (auto simp: simulates_def)
  have "acks sid (x @ y) = acks sid x @ acks sid y" for x y by (simp add: acks_def)
  then show ?case unfolding simulates_def using a b
    by (intro exI [of _ "a @ b"]) (simp add: log_run_append split_beta)
qed

lemma empty_same: "same_log sid empty_store fresh_log"
  by (simp add: same_log_def writer_def empty_store_def open_log_tasks) (simp add: log_files_def open_log_def recover_def new_log_def inspect_none)

subsection \<open>What is acknowledged is what is on disk\<close>

fun acked :: "log_out list \<Rightarrow> nat list" where
  "acked [] = []"
| "acked (Appended n # xs) = n # acked xs"
| "acked (x # xs) = acked xs"

lemma acked_append [simp]: "acked (xs @ ys) = acked xs @ acked ys"
  by (induction xs rule: acked.induct) simp_all

lemma acked_filter [simp]: "acked (filter is_ack xs) = acked xs"
  by (induction xs rule: acked.induct) simp_all

lemma calm_landed:
  assumes "io_calm ev"
  shows "acked (snd (log_step limit s ev)) = map ev_seq (landed s ev)"
proof (cases ev)
  case (LogGoes io)
  show ?thesis
  proof (cases "tasks s")
    case (Cons t ts)
    have w: "acked (snd (write_event limit io e y s')) = (if io_write io = None then [ev_seq e] else [])" for e y s'
    proof -
      have "snd (rotate_log io s')" using assms LogGoes by (simp add: io_calm_def rotate_log_def Let_def)
      then show ?thesis using assms LogGoes by (auto simp: io_calm_def write_event_def Let_def split: option.splits)
    qed
    show ?thesis using LogGoes Cons w by (cases t) (simp_all add: log_goes_def)
  qed (use LogGoes in \<open>simp add: log_goes_def\<close>)
next
  case (LogCrash k)
  then have "k = 0" using assms by (simp add: io_calm_def)
  then show ?thesis using LogCrash by (simp add: Let_def split: list.splits log_task.splits)
qed (auto simp: append_event_def Let_def)

lemma landed_clean: "log_ok H s \<Longrightarrow> list_all ev_clean (landed s ev)"
  by (cases ev) (auto simp: log_ok_def log_parts_def split: list.splits log_task.splits)

lemma calm_run:
  "log_ok H s \<Longrightarrow> list_all ev_good H \<Longrightarrow> list_all io_calm evs \<Longrightarrow> \<forall>n \<in> set (acked (snd (log_run limit s evs))). n < 10 ^ 16 \<Longrightarrow>
   log_ok (H @ log_history limit s evs) (fst (log_run limit s evs)) \<and>
   acked (snd (log_run limit s evs)) = map ev_seq (log_history limit s evs)"
proof (induction evs arbitrary: H s)
  case (Cons ev evs)
  have l: "acked (snd (log_step limit s ev)) = map ev_seq (landed s ev)" using Cons.prems(3) by (intro calm_landed) simp
  have "list_all ev_good (landed s ev)"
    using landed_clean [OF Cons.prems(1), of ev] l Cons.prems(4) by (auto simp: list_all_iff ev_good_def split_beta)
  then have g: "list_all ev_good (H @ landed s ev)" using Cons.prems(2) by simp
  have "log_ok (H @ landed s ev) (fst (log_step limit s ev))"
    using log_step_ok [OF Cons.prems(1) _ g] Cons.prems(3) by (simp add: io_calm_def)
  then show ?case using Cons.IH [OF _ g, of "fst (log_step limit s ev)"] Cons.prems(3,4) l by (simp add: split_beta)
qed simp

text \<open>Claim C7. One writer per session, while the disk is sound: no write is torn (it lands whole or not at all), and the
  renames and meta writes of a synced append succeed (\<open>store_whole\<close>); the seqs stay below 10 to the 16. Then, however many
  instances of a session's log the broker opens, evicts, reopens and keeps references to, and however their appends and
  writes interleave, the seqs acknowledged for the session strictly increase over all of them together, and the session's
  two files hold exactly the acknowledged events, once each and in that order, apart from the oldest, which rotations
  dropped.\<close>

theorem one_writer_per_session:
  assumes run: "store_run limit mx empty_store es = (st, outs)" and whole: "list_all store_whole es"
    and small: "\<forall>n \<in> set (acked (acks sid outs)). n < 10 ^ 16"
  shows "\<exists>dropped older newer. acked (acks sid outs) = map ev_seq (dropped @ older @ newer) \<and>
    sorted_wrt (<) (map ev_seq (dropped @ older @ newer)) \<and>
    (case ls_disk st sid of (meta, cur, old) \<Rightarrow> holds_lines old older \<and> holds_lines cur newer)"
proof -
  obtain evs where e: "list_all io_calm evs" "same_log sid st (fst (log_run limit fresh_log evs))"
    "acks sid outs = filter is_ack (snd (log_run limit fresh_log evs))"
    using store_run_sim [OF empty_store_fine empty_same whole, of limit sid mx] run by (auto simp: simulates_def)
  let ?s = "fst (log_run limit fresh_log evs)"
  note c = calm_run [OF fresh_log_ok _ e(1), of limit]
  have ok: "log_ok (log_history limit fresh_log evs) ?s" "acked (acks sid outs) = map ev_seq (log_history limit fresh_log evs)"
    using c small e(3) by auto
  obtain D P C where "log_history limit fresh_log evs = D @ P @ C" "log_parts D P C ?s" using ok(1) by (auto simp: log_ok_def)
  moreover have "ls_disk st sid = log_files ?s" using e(2) by (simp add: same_log_def)
  ultimately show ?thesis using ok(2) log_partsD(1,2) log_ok_sorted [OF ok(1)] by (fastforce simp: log_files_def)
qed

text \<open>One session, opened by two callers; two appends, the first of which fails on disk.\<close>

definition store_day :: "store_event list" where
  "store_day = [LogFor 7 True, LogFor 7 False, OpenReads 7, OpenEnds [] 7 io_fine, AppendTo 0 5 ''lost\"}'' False, TaskRuns 0 io_full,
     AppendTo 0 6 ''prompt\"}'' False, TaskRuns 0 io_fine]"

definition day_log :: "nat \<Rightarrow> log_task list \<Rightarrow> (event \<times> nat) list \<Rightarrow> string option \<Rightarrow> slog" where
  "day_log n ts r f = \<lparr>last_seq = n, written_seq = 0, first_seq = 1, truncated = False, ring = r, ring_bytes = sum_list (map snd r),
     file_bytes = 0, cur_file = f, old_file = None, disk_meta = Some (0, 1, False), tasks = ts, log_closed = False\<rparr>"

definition day_store :: "slog \<Rightarrow> log_store" where
  "day_store s = \<lparr>ls_insts = [\<lparr>li_sid = 7, li_log = s, li_given = True\<rparr>], ls_logs = [(7, 0)], ls_opening = [], ls_closing = [],
     ls_disk = (\<lambda>_. (None, None, None))(7 := log_files s)\<rparr>"

lemma day_opened: "store_run limit mx empty_store (take 4 store_day) = (day_store (day_log 0 [] [] None), [])"
  by (simp add: store_day_def empty_store_def log_for_def om_has_def open_reads_def open_ends_def log_files_def publish_def give_out_def
      evict_logs_def om_set_def om_get_def om_delete_def inst_does_def with_files_def log_eval day_store_def day_log_def)

lemma day_step: "inst_does limit 0 ev (day_store s) = (day_store (fst (log_step limit s ev)), map (Pair 7) (snd (log_step limit s ev)))"
  by (simp add: inst_does_def day_store_def Let_def)

lemma day_given: "given (day_store s) 0" "task_ran i (day_store s) = day_store s"
  by (simp_all add: given_def day_store_def task_ran_def)

definition lost_event :: event where "lost_event = \<lparr>ev_seq = 1, ev_ts = 5, ev_body = ''lost\"}''\<rparr>"
definition kept_event :: event where "kept_event = \<lparr>ev_seq = 2, ev_ts = 6, ev_body = ''prompt\"}''\<rparr>"

lemma day_logged:
  "log_step limit (day_log 0 [] [] None) (Append 5 ''lost\"}'' False) = (day_log 1 [WriteEvent lost_event False] [(lost_event, 31)] None, [])"
  "log_step limit (day_log 1 [WriteEvent lost_event False] [(lost_event, 31)] None) (LogGoes io_full) =
    (day_log 1 [] [] (Some []), [AppendFailed 1])"
  "log_step limit (day_log 1 [] [] (Some [])) (Append 6 ''prompt\"}'' False) =
    (day_log 2 [WriteEvent kept_event False] [(kept_event, 33)] (Some []), [])"
  "snd (log_step limit (day_log 2 [WriteEvent kept_event False] [(kept_event, 33)] (Some [])) (LogGoes io_fine)) = [Appended 2]"
  by (simp_all add: day_log_def log_eval line_length dec_digit lost_event_def kept_event_def numeral_2_eq_2)

lemma store_day_acks: "acks 7 (snd (store_run limit mx empty_store store_day)) = [AppendFailed 1, Appended 2]"
proof -
  have d: "drop 4 store_day = [AppendTo 0 5 ''lost\"}'' False, TaskRuns 0 io_full, AppendTo 0 6 ''prompt\"}'' False, TaskRuns 0 io_fine]"
    by (simp add: store_day_def)
  have app: "store_run limit mx st (a @ b) = (case store_run limit mx st a of (s1, o1) \<Rightarrow> (case store_run limit mx s1 b of (s2, o2) \<Rightarrow> (s2, o1 @ o2)))"
    for a b st by (induction a arbitrary: st) (auto simp: split_beta)
  have "snd (store_run limit mx empty_store (take 4 store_day @ drop 4 store_day)) = [(7, AppendFailed 1), (7, Appended 2)]"
    unfolding app day_opened d by (simp add: day_given day_step day_logged [unfolded One_nat_def] split_beta del: log_step.simps)
  then show ?thesis by (simp add: acks_def)
qed

lemma store_day_whole: "list_all store_whole store_day"
  by (simp add: store_day_def io_fine_def io_full_def)

lemma one_writer_per_session_witness:
  "\<exists>dropped older newer. [2] = map ev_seq (dropped @ older @ newer) \<and>
    (case ls_disk (fst (store_run 1000 4 empty_store store_day)) 7 of (meta, cur, old) \<Rightarrow> holds_lines old older \<and> holds_lines cur newer)"
proof -
  have a: "acked (acks 7 (snd (store_run 1000 4 empty_store store_day))) = [2]" by (simp add: store_day_acks)
  have b: "\<forall>n \<in> set [2 :: nat]. n < 10 ^ 16" by simp
  show ?thesis using one_writer_per_session [OF prod.collapse [symmetric] store_day_whole, of 7 1000 4, unfolded a, OF b]
    by (elim exE conjE) (rule exI, rule exI, rule exI, rule conjI, assumption, assumption)
qed

end
