(* ===== verification/Js_Path.thy ===== *)
theory Js_Path
  imports Prelude
begin

text \<open>
  Node's \<open>path.posix\<close> as the sources use it: \<open>normalize\<close>, \<open>join\<close>, \<open>resolve\<close>, \<open>isAbsolute\<close> and \<open>relative\<close>, over the
  segments between the slashes. A \<open>..\<close> takes back the segment before it; above the root of an absolute path it is
  dropped, in a relative one it stays.
\<close>

abbreviation slash :: char where "slash \<equiv> CHR ''/''"

definition is_absolute :: "string \<Rightarrow> bool" where
  "is_absolute p \<longleftrightarrow> (case p of [] \<Rightarrow> False | c # _ \<Rightarrow> c = slash)"

definition path_segments :: "string \<Rightarrow> string list" where
  "path_segments p = js_split slash p"

text \<open>The segments after normalisation; \<open>acc\<close> holds those kept so far, the last first.\<close>

fun norm_segments :: "bool \<Rightarrow> string list \<Rightarrow> string list \<Rightarrow> string list" where
  "norm_segments absl acc [] = rev acc"
| "norm_segments absl acc (s # ss) =
    (if s = [] \<or> s = ''.'' then norm_segments absl acc ss
     else if s = ''..'' then
       (case acc of
          [] \<Rightarrow> norm_segments absl (if absl then [] else [s]) ss
        | a # as \<Rightarrow> norm_segments absl (if a = ''..'' then s # acc else as) ss)
     else norm_segments absl (s # acc) ss)"

definition path_resolve :: "string \<Rightarrow> string \<Rightarrow> string" where
  "path_resolve cwd p = slash # js_join ''/'' (norm_segments True []
     ((if is_absolute p then [] else path_segments cwd) @ path_segments p))"

definition path_normalize :: "string \<Rightarrow> string" where
  "path_normalize p =
    (if p = [] then ''.''
     else let segs = norm_segments (is_absolute p) [] (path_segments p);
              tail = (if last p = slash then ''/'' else [])
          in if is_absolute p then slash # js_join ''/'' segs @ (if segs = [] then [] else tail)
             else if segs = [] then (if tail = [] then ''.'' else ''./'') else js_join ''/'' segs @ tail)"

definition path_join :: "string \<Rightarrow> string \<Rightarrow> string" where
  "path_join a b = (if a = [] \<and> b = [] then ''.'' else
     path_normalize (if a = [] then b else if b = [] then a else a @ slash # b))"

definition plain_segment :: "string \<Rightarrow> bool" where
  "plain_segment s \<longleftrightarrow> s \<noteq> [] \<and> s \<noteq> ''.'' \<and> s \<noteq> ''..''"

lemma norm_segments_clean:
  "\<forall>a \<in> set acc. plain_segment a \<Longrightarrow> s \<in> set (norm_segments True acc ss) \<Longrightarrow> plain_segment s \<and> s \<in> set acc \<union> set ss"
proof (induction ss arbitrary: acc)
  case (Cons x ss)
  show ?case
  proof (cases "x = [] \<or> x = ''.''")
    case True
    then show ?thesis using Cons.IH [of acc] Cons.prems by auto
  next
    case dot: False
    show ?thesis
    proof (cases "x = ''..''")
      case True
      obtain acc' where acc': "norm_segments True acc (x # ss) = norm_segments True acc' ss" "set acc' \<subseteq> set acc"
        using True Cons.prems(1) by (cases acc) (auto simp: plain_segment_def)
      then show ?thesis using Cons.IH [of acc'] Cons.prems by auto
    next
      case False
      then have "norm_segments True acc (x # ss) = norm_segments True (x # acc) ss" "plain_segment x"
        using dot by (simp_all add: plain_segment_def)
      then show ?thesis using Cons.IH [of "x # acc"] Cons.prems by auto
    qed
  qed
qed simp

lemma norm_segments_id: "\<forall>s \<in> set ss. plain_segment s \<Longrightarrow> norm_segments absl acc ss = rev acc @ ss"
  by (induction ss arbitrary: acc) (simp_all add: plain_segment_def)

end
