(* ===== verification/Broker_Prompt.thy ===== *)
theory Broker_Prompt
  imports Js_Value Js_Path
begin

text \<open>
  What a prompt may carry (runtime/lib/session-broker.js, \<open>#checkPrompt\<close> and \<open>#workspaceFileUri\<close>): content blocks, and links to
  files, which the engine inlines and therefore have to be regular files of the workspace. Strings are UTF-8 bytes. The
  file system (\<open>realpath\<close>, \<open>stat\<close>) is what it answers at this moment; \<open>new URL\<close> is a parameter that gives the
  protocol and the path name of a URL.
\<close>

datatype prompt_error =
    PromptEmptyList | BlockNotObject | TextMissing | LinkInvalid | LinkNotFound | LinkOutside | LinkNotFile
  | LinkTooBig nat | ResourceEmpty | BlockUnknown | PromptEmpty | PromptIo

record file_env =
  fe_workspace :: string
  fe_real :: "string \<Rightarrow> string option"
  fe_stat :: "string \<Rightarrow> (bool \<times> nat) option" \<comment> \<open>whether it is a regular file, and its size\<close>
  fe_url :: "string \<Rightarrow> (string \<times> string) option"
  fe_max_kb :: nat \<comment> \<open>\<open>attachMaxKb\<close>\<close>
  fe_number :: "rat \<Rightarrow> string"

subsection \<open>Percent encoding\<close>

definition hex_value :: "char \<Rightarrow> nat option" where
  "hex_value c =
    (if is_digit c then Some (of_char c - 48)
     else if in_range CHR ''a'' CHR ''f'' c then Some (of_char c - 87)
     else if in_range CHR ''A'' CHR ''F'' c then Some (of_char c - 55)
     else None)"

text \<open>\<open>decodeURIComponent\<close>; it throws on a \<open>%\<close> that no two digits follow.\<close>

fun pct_decode :: "string \<Rightarrow> string option" where
  "pct_decode [] = Some []"
| "pct_decode (c # cs) =
    (if c \<noteq> CHR ''%'' then map_option (Cons c) (pct_decode cs)
     else (case cs of
       a # b # rest \<Rightarrow>
         (case (hex_value a, hex_value b) of
            (Some x, Some y) \<Rightarrow> map_option (Cons (char_of (16 * x + y))) (pct_decode rest)
          | _ \<Rightarrow> None)
     | _ \<Rightarrow> None))"

text \<open>The bytes \<open>pathToFileURL\<close> leaves as they are.\<close>

definition url_keeps :: "char \<Rightarrow> bool" where
  "url_keeps c \<longleftrightarrow> 32 < (of_char c :: nat) \<and> (of_char c :: nat) < 127 \<and> c \<notin> set ''\"#<>?^`{}%'' \<and> c \<noteq> CHR 0x5C"

definition hex_digit :: "nat \<Rightarrow> char" where
  "hex_digit n = (if n < 10 then char_of (48 + n) else char_of (55 + n))"

definition pct_char :: "char \<Rightarrow> string" where
  "pct_char c = (if url_keeps c then [c] else [CHR ''%'', hex_digit (of_char c div 16), hex_digit (of_char c mod 16)])"

definition pct_encode :: "string \<Rightarrow> string" where
  "pct_encode s = concat (map pct_char s)"

text \<open>\<open>pathToFileURL(real).href\<close>.\<close>

definition file_url :: "string \<Rightarrow> string" where
  "file_url p = ''file://'' @ pct_encode (path_resolve [] p)"

subsection \<open>Links\<close>

definition link_path :: "file_env \<Rightarrow> js \<Rightarrow> string option" where
  "link_path env uri =
    (case fe_url env (js_text (fe_number env) (js_or_null uri (JStr []))) of
       Some (protocol, pathname) \<Rightarrow> if protocol = ''file:'' then pct_decode pathname else None
     | None \<Rightarrow> None)"

definition inside :: "string \<Rightarrow> string \<Rightarrow> bool" where
  "inside base p \<longleftrightarrow> p = base \<or> prefix (base @ ''/'') p"

definition workspace_file_uri :: "file_env \<Rightarrow> js \<Rightarrow> prompt_error + string" where
  "workspace_file_uri env uri =
    (case link_path env uri of
       None \<Rightarrow> Inl LinkInvalid
     | Some file \<Rightarrow>
        (case fe_real env (fe_workspace env) of
           None \<Rightarrow> Inl PromptIo
         | Some base \<Rightarrow>
            (case fe_real env (if is_absolute file then file else path_join base file) of
               None \<Rightarrow> Inl LinkNotFound
             | Some rp \<Rightarrow>
                if \<not> inside base rp then Inl LinkOutside
                else (case fe_stat env rp of
                   None \<Rightarrow> Inl PromptIo
                 | Some (regular, sz) \<Rightarrow>
                    if \<not> regular then Inl LinkNotFile
                    else if sz > fe_max_kb env * 1024 then Inl (LinkTooBig sz)
                    else Inr (file_url rp)))))"

subsection \<open>Blocks\<close>

definition set_field :: "string \<Rightarrow> js \<Rightarrow> js \<Rightarrow> js" where
  "set_field k v b = (case b of JObj ps \<Rightarrow> JObj (AList.update k v ps) | _ \<Rightarrow> b)"

text \<open>The block as it is forwarded, and whether it has content.\<close>

definition check_block :: "file_env \<Rightarrow> js \<Rightarrow> prompt_error + (js \<times> bool)" where
  "check_block env b =
    (if \<not> is_objlike b then Inl BlockNotObject
     else let t = js_field b ''type'' in
       if t = JStr ''text'' then
         (case js_field b ''text'' of JStr x \<Rightarrow> Inr (b, js_trim x \<noteq> []) | _ \<Rightarrow> Inl TextMissing)
       else if t = JStr ''resource_link'' then
         (case workspace_file_uri env (js_field b ''uri'') of
            Inl e \<Rightarrow> Inl e
          | Inr u \<Rightarrow> Inr (set_field ''uri'' (JStr u) b, True))
       else if t = JStr ''resource'' then
         (let r = js_or_null (js_field b ''resource'') (JObj []) in
          if str_of (js_field r ''text'') = None \<and> str_of (js_field r ''blob'') = None then Inl ResourceEmpty else Inr (b, True))
       else if t = JStr ''image'' \<or> t = JStr ''audio'' then Inr (b, True)
       else Inl BlockUnknown)"

fun check_blocks :: "file_env \<Rightarrow> bool \<Rightarrow> js list \<Rightarrow> prompt_error + js list" where
  "check_blocks env content [] = (if content then Inr [] else Inl PromptEmpty)"
| "check_blocks env content (b # bs) =
    (case check_block env b of
       Inl e \<Rightarrow> Inl e
     | Inr (b1, c) \<Rightarrow> (case check_blocks env (content \<or> c) bs of Inl e \<Rightarrow> Inl e | Inr rest \<Rightarrow> Inr (b1 # rest)))"

definition check_prompt :: "file_env \<Rightarrow> js \<Rightarrow> prompt_error + js list" where
  "check_prompt env prompt =
    (case prompt of
       JArr (b # bs) \<Rightarrow> check_blocks env False (b # bs)
     | _ \<Rightarrow> Inl PromptEmptyList)"

end
