(* ===== verification/Prompt_Props.thy ===== *)
theory Prompt_Props
  imports Broker_Prompt
begin

text \<open>
  What reaches the engine of a prompt's attachments (runtime/lib/session-broker.js): only workspace files that were checked.
\<close>

subsection \<open>Percent encoding\<close>

lemma hex_value_digit: "n < 16 \<Longrightarrow> hex_value (hex_digit n) = Some n"
  by (auto simp: hex_digit_def hex_value_def is_digit_def in_range_def)

lemma url_keeps_pct: "url_keeps c \<Longrightarrow> c \<noteq> CHR ''%'' \<and> c \<noteq> CHR ''?'' \<and> c \<noteq> CHR ''#''"
  by (auto simp: url_keeps_def)

lemma pct_decode_char: "pct_decode (pct_char c @ s) = map_option (Cons c) (pct_decode s)"
proof (cases "url_keeps c")
  case True
  then show ?thesis using url_keeps_pct by (simp add: pct_char_def)
next
  case False
  have "(of_char c :: nat) div 16 < 16" using nat_of_char_less_256 [of c] by (intro less_mult_imp_div_less) simp
  then show ?thesis using False
    by (simp add: pct_char_def hex_value_digit)
qed

lemma pct_roundtrip: "pct_decode (pct_encode s) = Some s"
  by (induction s) (simp_all add: pct_encode_def pct_decode_char)

lemma hex_digit_clean: "n < 16 \<Longrightarrow> hex_digit n \<notin> {slash, CHR ''?'', CHR ''#''}"
proof -
  assume n: "n < 16"
  then have "(of_char (hex_digit n) :: nat) = (if n < 10 then 48 + n else 55 + n)" by (simp add: hex_digit_def)
  then have "(of_char (hex_digit n) :: nat) \<notin> {47, 63, 35}" using n by auto
  then show ?thesis by auto
qed

lemma pct_char_clean: "x \<in> set (pct_char c) \<Longrightarrow> x \<noteq> CHR ''?'' \<and> x \<noteq> CHR ''#'' \<and> (x = slash \<longrightarrow> c = slash)"
proof (cases "url_keeps c")
  case True
  then show "x \<in> set (pct_char c) \<Longrightarrow> ?thesis" using url_keeps_pct by (auto simp: pct_char_def)
next
  case False
  have "(of_char c :: nat) div 16 < 16" "(of_char c :: nat) mod 16 < 16"
    using nat_of_char_less_256 [of c] by (intro less_mult_imp_div_less, simp, simp)
  then show "x \<in> set (pct_char c) \<Longrightarrow> ?thesis"
    using False hex_digit_clean by (auto simp: pct_char_def)
qed

lemma pct_encode_split: "js_split slash (pct_encode s) = map pct_encode (js_split slash s)"
proof (induction s)
  case (Cons c s)
  have ap: "js_split slash (a @ b) = (case js_split slash b of p # ps \<Rightarrow> (a @ p) # ps | [] \<Rightarrow> [a])" if "slash \<notin> set a" for a b
    using that by (induction a) (auto split: list.splits)
  show ?case
  proof (cases "c = slash")
    case True
    then show ?thesis using Cons by (simp add: pct_encode_def pct_char_def url_keeps_def)
  next
    case False
    then have "slash \<notin> set (pct_char c)" using pct_char_clean by blast
    from ap [OF this, of "pct_encode s"] show ?thesis using Cons False
      by (auto simp: pct_encode_def split: list.splits)
  qed
qed (simp add: pct_encode_def)

subsection \<open>How the engine reads a file URL\<close>

text \<open>A URL parser cuts at the query and the fragment and resolves dot segments, also percent-encoded ones (\<open>None\<close>: another file
  may be meant); the rest is decoded.\<close>

definition dot_segment :: "string \<Rightarrow> bool" where
  "dot_segment x \<longleftrightarrow> (\<exists>d. pct_decode x = Some d \<and> (d = ''.'' \<or> d = ''..''))"

definition engine_reads :: "string \<Rightarrow> string option" where
  "engine_reads u =
    (if \<not> prefix ''file:///'' u then None
     else (let p = takeWhile (\<lambda>c. c \<noteq> CHR ''?'' \<and> c \<noteq> CHR ''#'') (drop 7 u) in
       if list_ex dot_segment (js_split slash p) then None else pct_decode p))"

text \<open>\<open>realpath\<close> gives canonical paths.\<close>

definition canonical_path :: "string \<Rightarrow> bool" where
  "canonical_path p \<longleftrightarrow> (\<exists>segs. p = slash # js_join ''/'' segs \<and> (\<forall>x \<in> set segs. plain_segment x \<and> slash \<notin> set x))"

lemma split_join: "\<forall>x \<in> set segs. slash \<notin> set x \<Longrightarrow> segs \<noteq> [] \<Longrightarrow> js_split slash (js_join ''/'' segs) = segs"
proof (induction segs)
  case (Cons x segs)
  then show ?case by (cases segs) (simp_all add: js_split_append js_split_no_sep)
qed simp

lemma canonical_segments:
  assumes "canonical_path p"
  shows "path_resolve cwd p = p" "\<forall>x \<in> set (js_split slash p). x \<noteq> ''.'' \<and> x \<noteq> ''..''" "\<exists>r. p = slash # r"
proof -
  obtain segs where p: "p = slash # js_join ''/'' segs" "\<forall>x \<in> set segs. plain_segment x \<and> slash \<notin> set x"
    using assms by (auto simp: canonical_path_def)
  have s: "js_split slash p = [] # (if segs = [] then [[]] else segs)"
    using split_join [of segs] p by simp
  have n: "norm_segments True [] ([] # (if segs = [] then [[]] else segs)) = segs"
    using norm_segments_id [of segs True "[]"] p(2) by simp
  show "path_resolve cwd p = p" using n s p(1) by (simp add: path_resolve_def is_absolute_def path_segments_def)
  show "\<forall>x \<in> set (js_split slash p). x \<noteq> ''.'' \<and> x \<noteq> ''..''" unfolding s using p(2) by (auto simp: plain_segment_def)
  show "\<exists>r. p = slash # r" using p(1) by blast
qed

lemma takeWhile_all: "\<forall>x \<in> set xs. P x \<Longrightarrow> takeWhile P xs = xs"
  by (induction xs) auto

lemma engine_reads_file_url:
  assumes "canonical_path p"
  shows "engine_reads (file_url p) = Some p"
proof -
  note c = canonical_segments [OF assms]
  have u: "file_url p = ''file://'' @ pct_encode p" by (simp add: file_url_def c(1))
  obtain r where r: "p = slash # r" using c(3) by blast
  have h: "pct_encode p = slash # pct_encode r" by (simp add: r pct_encode_def pct_char_def url_keeps_def)
  have "\<forall>x \<in> set (pct_encode p). x \<noteq> CHR ''?'' \<and> x \<noteq> CHR ''#''" using pct_char_clean by (fastforce simp: pct_encode_def)
  then have t: "takeWhile (\<lambda>c. c \<noteq> CHR ''?'' \<and> c \<noteq> CHR ''#'') (pct_encode p) = pct_encode p" by (rule takeWhile_all)
  have "\<not> list_ex dot_segment (js_split slash (pct_encode p))"
    unfolding pct_encode_split using c(2) pct_roundtrip by (auto simp: list_ex_iff dot_segment_def)
  moreover have "prefix ''file:///'' (file_url p)" "drop 7 (file_url p) = pct_encode p" by (simp_all add: u h)
  ultimately show ?thesis using pct_roundtrip by (simp only: engine_reads_def t Let_def not_True_eq_False if_False if_True)
qed

subsection \<open>The property\<close>

definition checked_file :: "file_env \<Rightarrow> string \<Rightarrow> bool" where
  "checked_file env p \<longleftrightarrow> (\<exists>base sz. fe_real env (fe_workspace env) = Some base \<and> inside base p \<and>
     fe_stat env p = Some (True, sz) \<and> sz \<le> fe_max_kb env * 1024 \<and> (\<exists>q. fe_real env q = Some p))"

lemma workspace_file_uri_checked: "workspace_file_uri env uri = Inr u \<Longrightarrow> \<exists>p. u = file_url p \<and> checked_file env p"
  by (auto simp: workspace_file_uri_def checked_file_def not_less split: option.splits if_splits) blast+

lemma set_field_get: "js_field b k' = JStr x \<Longrightarrow> js_field (set_field k v b) k = v"
  by (cases b) (auto simp: set_field_def update_conv')

lemma check_blocks_forwarded:
  "check_blocks env c bs = Inr out \<Longrightarrow> length out = length bs \<and> (c \<or> bs \<noteq> []) \<and>
   (\<forall>i < length bs. (js_field (bs ! i) ''type'' \<noteq> JStr ''resource_link'' \<longrightarrow> out ! i = bs ! i) \<and>
     (js_field (bs ! i) ''type'' = JStr ''resource_link'' \<longrightarrow>
        (\<exists>u. workspace_file_uri env (js_field (bs ! i) ''uri'') = Inr u \<and> js_field (out ! i) ''uri'' = JStr u)))"
proof (induction bs arbitrary: c out)
  case (Cons b bs)
  obtain b1 c1 rest where r: "check_block env b = Inr (b1, c1)" "check_blocks env (c \<or> c1) bs = Inr rest" "out = b1 # rest"
    using Cons.prems by (auto split: sum.splits prod.splits)
  have "(js_field b ''type'' \<noteq> JStr ''resource_link'' \<longrightarrow> b1 = b) \<and>
     (js_field b ''type'' = JStr ''resource_link'' \<longrightarrow>
        (\<exists>u. workspace_file_uri env (js_field b ''uri'') = Inr u \<and> js_field b1 ''uri'' = JStr u))"
    using r(1) set_field_get by (auto simp: check_block_def Let_def split: if_splits sum.splits js.splits)
  then show ?case using Cons.IH [OF r(2)] r(3) by (auto simp: less_Suc_eq_0_disj nth_Cons')
qed (auto split: if_splits)

text \<open>Claim C17. Attachments stay inside the workspace. A prompt that is admitted reaches the engine block by block, in order and
  otherwise unchanged; every link in it is rewritten to a URL which, decoded as a file URL is, names exactly a file that
  was found, after symlinks, inside the workspace, regular and within the size limit; a literal \<open>%2e%2e\<close>, \<open>#\<close> or \<open>?\<close> in a
  name does not make it read another one.\<close>

theorem attachments_checked:
  assumes canon: "\<forall>q p. fe_real env q = Some p \<longrightarrow> canonical_path p" and ok: "check_prompt env (JArr bs) = Inr out"
  shows "length out = length bs \<and>
    (\<forall>i < length bs. if js_field (bs ! i) ''type'' = JStr ''resource_link''
       then \<exists>u p. js_field (out ! i) ''uri'' = JStr u \<and> engine_reads u = Some p \<and> checked_file env p
       else out ! i = bs ! i)"
proof -
  have b: "check_blocks env False bs = Inr out" using ok by (auto simp: check_prompt_def split: list.splits)
  have "\<exists>u p. js_field (out ! i) ''uri'' = JStr u \<and> engine_reads u = Some p \<and> checked_file env p"
    if "i < length bs" "js_field (bs ! i) ''type'' = JStr ''resource_link''" for i
  proof -
    have "\<exists>u. workspace_file_uri env (js_field (bs ! i) ''uri'') = Inr u \<and> js_field (out ! i) ''uri'' = JStr u"
      using check_blocks_forwarded [OF b] that by simp
    then obtain u where u: "workspace_file_uri env (js_field (bs ! i) ''uri'') = Inr u" "js_field (out ! i) ''uri'' = JStr u" by (elim exE conjE)
    obtain p where p: "u = file_url p" "checked_file env p" using workspace_file_uri_checked [OF u(1)] by (elim exE conjE)
    have "canonical_path p" using p(2) canon by (auto simp: checked_file_def)
    then have "engine_reads u = Some p" using engine_reads_file_url p(1) by simp
    then show ?thesis using u(2) p(2) by (intro exI conjI)
  qed
  then show ?thesis using check_blocks_forwarded [OF b] by auto
qed

text \<open>A file whose name has a \<open>#\<close>, reached through a link.\<close>

definition sample_env :: file_env where
  "sample_env = \<lparr>fe_workspace = ''/w'', fe_real = (\<lambda>p. if p = ''/w'' then Some ''/w'' else if p = ''/w/l'' then Some ''/w/a#b'' else None),
     fe_stat = (\<lambda>p. if p = ''/w/a#b'' then Some (True, 100) else None),
     fe_url = (\<lambda>u. if u = ''file:///w/l'' then Some (''file:'', ''/w/l'') else None), fe_max_kb = 1, fe_number = (\<lambda>_. [])\<rparr>"

definition sample_blocks :: "js list" where
  "sample_blocks = [JObj [(''type'', JStr ''text''), (''text'', JStr ''read'')], JObj [(''type'', JStr ''resource_link''), (''uri'', JStr ''file:///w/l'')]]"

lemma sample_canonical: "canonical_path ''/w''" "canonical_path ''/w/a#b''"
  unfolding canonical_path_def
  by (rule exI [of _ "[''w'']"], simp add: plain_segment_def) (rule exI [of _ "[''w'', ''a#b'']"], simp add: plain_segment_def)

lemma attachments_checked_witness:
  "\<exists>u. check_prompt sample_env (JArr sample_blocks) = Inr [sample_blocks ! 0, JObj [(''type'', JStr ''resource_link''), (''uri'', JStr u)]] \<and>
     u = ''file:///w/a%23b'' \<and> engine_reads u = Some ''/w/a#b''"
proof -
  have c: "check_prompt sample_env (JArr sample_blocks) =
      Inr [sample_blocks ! 0, JObj [(''type'', JStr ''resource_link''), (''uri'', JStr ''file:///w/a%23b'')]]" by code_simp
  have "\<forall>q p. fe_real sample_env q = Some p \<longrightarrow> canonical_path p" using sample_canonical by (auto simp: sample_env_def split: if_splits)
  from attachments_checked [OF this c] obtain p where
    "engine_reads ''file:///w/a%23b'' = Some p" "checked_file sample_env p" by (auto simp: sample_blocks_def less_Suc_eq numeral_2_eq_2)
  moreover have "checked_file sample_env p \<Longrightarrow> p = ''/w/a#b''" by (auto simp: checked_file_def sample_env_def split: if_splits)
  ultimately show ?thesis using c by auto
qed

end
