(* ===== verification/File_Events.thy ===== *)
theory File_Events
  imports Js_Value Ordered_Map
begin

text \<open>
  The journal of file changes and its event streams (runtime/lib/file-events.js). A published record gets the next seq and
  stays in a bounded ring; a connection has a scope (a path), takes the records that concern it, and may
  resume from the id of the last frame it received. The sizes of frames, what \<open>res.write\<close> answers and how much it has
  buffered (\<open>writableLength\<close>) come from outside. The byte counters of the code are the totals of what they
  count; a publish made while another is delivered is delivered after it, so a delivery is one step.
\<close>

record ev_limits =
  lim_count :: nat \<comment> \<open>\<open>eventCount\<close>\<close>
  lim_bytes :: nat \<comment> \<open>\<open>eventBytes\<close>\<close>
  lim_sub :: nat \<comment> \<open>\<open>subscriberBytes\<close>\<close>

record fe_rec =
  fr_kind :: string
  fr_seq :: nat
  fr_payload :: js

datatype frame =
    EventFrame string nat js
  | ReadyFrame nat string bool "string option"
  | ResetFrame nat string string
  | KeepAlive

datatype write_result = WriteOk | WriteFull | WriteThrows

record wobs =
  wo_len :: nat \<comment> \<open>\<open>writableLength\<close>\<close>
  wo_result :: write_result

record fe_conn =
  fc_scope :: string
  fc_closed :: bool
  fc_live :: bool
  fc_blocked :: bool
  fc_queue :: "frame list"
  fc_rqueue :: "frame list" \<comment> \<open>\<open>replayQueue\<close>\<close>
  fc_ready :: frame
  fc_replay :: "frame list" \<comment> \<open>what \<open>attach\<close> still has to deliver after \<open>ready\<close>\<close>
  fc_written :: "frame list"

record file_events =
  fv_epoch :: string
  fv_boot :: string
  fv_seq :: nat
  fv_ring :: "fe_rec list"
  fv_issued :: "(nat, string option) omap" \<comment> \<open>\<open>issuedScopes\<close>; \<open>None\<close> is the code's \<open>null\<close>\<close>
  fv_resets :: "(string, nat) omap"
  fv_floor :: int
  fv_conns :: "fe_conn list"
  fv_subs :: "nat list"
  fv_closed :: bool

definition new_events :: "string \<Rightarrow> string \<Rightarrow> file_events" where
  "new_events epoch boot = \<lparr>fv_epoch = epoch, fv_boot = boot, fv_seq = 0, fv_ring = [], fv_issued = [], fv_resets = [], fv_floor = - 1,
     fv_conns = [], fv_subs = [], fv_closed = False\<rparr>"

subsection \<open>Scopes\<close>

definition intersects :: "string \<Rightarrow> string \<Rightarrow> bool" where
  "intersects scope p \<longleftrightarrow> p = [] \<or> scope = [] \<or> p = scope \<or> prefix (scope @ ''/'') p \<or> prefix (p @ ''/'') scope"

text \<open>The changes of a payload are objects: the property access on a null one throws, which is left out.\<close>

definition change_hits :: "string \<Rightarrow> js \<Rightarrow> bool" where
  "change_hits scope c \<longleftrightarrow> (case js_field c ''path'' of JStr p \<Rightarrow> intersects scope p | _ \<Rightarrow> False) \<or>
     (case js_field c ''from'' of JStr p \<Rightarrow> intersects scope p | _ \<Rightarrow> False)"

definition with_changes :: "js list \<Rightarrow> js \<Rightarrow> js" where
  "with_changes cs p = (case p of JObj fs \<Rightarrow> JObj (AList.update ''changes'' (JArr cs) fs) | _ \<Rightarrow> p)"

definition scoped_payload :: "string \<Rightarrow> js \<Rightarrow> js option" where
  "scoped_payload scope p =
    (if js_field p ''reason'' = JStr ''artifact-deleted'' \<and> str_of (js_field p ''artifactId'') \<noteq> None then Some p
     else (case js_field p ''changes'' of
       JArr cs \<Rightarrow> (let hit = filter (change_hits scope) cs in if hit = [] then None else Some (with_changes hit p))
     | _ \<Rightarrow> (case js_field p ''path'' of JStr q \<Rightarrow> if intersects scope q then Some p else None | _ \<Rightarrow> Some p)))"

definition item_for :: "string \<Rightarrow> fe_rec \<Rightarrow> frame option" where
  "item_for scope r = map_option (EventFrame (fr_kind r) (fr_seq r)) (scoped_payload scope (fr_payload r))"

text \<open>The frames of a list of records that concern a scope.\<close>

definition items_for :: "string \<Rightarrow> fe_rec list \<Rightarrow> frame list" where
  "items_for scope rs = List.map_filter (item_for scope) rs"

fun frame_seq :: "frame \<Rightarrow> nat option" where
  "frame_seq (EventFrame k n p) = Some n"
| "frame_seq (ReadyFrame n s b r) = Some n"
| "frame_seq (ResetFrame n s r) = Some n"
| "frame_seq KeepAlive = None"

subsection \<open>Bounded memory\<close>

definition total :: "('a \<Rightarrow> nat) \<Rightarrow> 'a list \<Rightarrow> nat" where
  "total f xs = sum_list (map f xs)"

definition rec_frame :: "fe_rec \<Rightarrow> frame" where
  "rec_frame r = EventFrame (fr_kind r) (fr_seq r) (fr_payload r)"

definition issued_cost :: "nat \<times> string option \<Rightarrow> nat" where
  "issued_cost x = 32 + (case snd x of None \<Rightarrow> 0 | Some s \<Rightarrow> length s)"

definition reset_cost :: "string \<times> nat \<Rightarrow> nat" where
  "reset_cost x = 32 + length (fst x)"

fun trim_ring :: "ev_limits \<Rightarrow> (frame \<Rightarrow> nat) \<Rightarrow> fe_rec list \<Rightarrow> fe_rec list" where
  "trim_ring lm fsize [] = []"
| "trim_ring lm fsize (r # rs) =
    (if length (r # rs) > lim_count lm \<or> total (fsize \<circ> rec_frame) (r # rs) > lim_bytes lm then trim_ring lm fsize rs else r # rs)"

text \<open>The two loops of \<open>#trimScopes\<close>; \<open>b\<close> is what the rest of the memory holds.\<close>

fun trim_issued :: "ev_limits \<Rightarrow> nat \<Rightarrow> (nat, string option) omap \<Rightarrow> (nat, string option) omap" where
  "trim_issued lm b [] = []"
| "trim_issued lm b (x # xs) =
    (if length (x # xs) > lim_count lm + 32 \<or> b + total issued_cost (x # xs) > lim_bytes lm then trim_issued lm b xs else x # xs)"

fun trim_resets :: "ev_limits \<Rightarrow> nat \<Rightarrow> int \<Rightarrow> (string, nat) omap \<Rightarrow> int \<times> (string, nat) omap" where
  "trim_resets lm b fl [] = (fl, [])"
| "trim_resets lm b fl (x # xs) =
    (if length (x # xs) > 32 \<or> b + total reset_cost (x # xs) > lim_bytes lm then trim_resets lm b (max fl (int (snd x))) xs
     else (fl, x # xs))"

definition trim_scopes :: "ev_limits \<Rightarrow> (frame \<Rightarrow> nat) \<Rightarrow> file_events \<Rightarrow> file_events" where
  "trim_scopes lm fsize s =
    (let rb = total (fsize \<circ> rec_frame) (fv_ring s);
         is = trim_issued lm (rb + total reset_cost (fv_resets s)) (fv_issued s);
         rs = trim_resets lm (rb + total issued_cost is) (fv_floor s) (fv_resets s)
     in s\<lparr>fv_issued := is, fv_floor := fst rs, fv_resets := snd rs\<rparr>)"

definition remember_scope :: "ev_limits \<Rightarrow> (frame \<Rightarrow> nat) \<Rightarrow> nat \<Rightarrow> string \<Rightarrow> file_events \<Rightarrow> file_events" where
  "remember_scope lm fsize n scope s =
    (let selected = (case om_get (fv_issued s) n of Some p \<Rightarrow> if p \<noteq> Some scope then None else Some scope | None \<Rightarrow> Some scope)
     in trim_scopes lm fsize (s\<lparr>fv_issued := om_set n selected (om_delete n (fv_issued s))\<rparr>))"

definition mark_overflow :: "ev_limits \<Rightarrow> (frame \<Rightarrow> nat) \<Rightarrow> string \<Rightarrow> file_events \<Rightarrow> file_events" where
  "mark_overflow lm fsize scope s =
    trim_scopes lm fsize (s\<lparr>fv_resets := om_set scope (fv_seq s) (om_delete scope (fv_resets s))\<rparr>)"

subsection \<open>Connections\<close>

definition mod_fc :: "nat \<Rightarrow> (fe_conn \<Rightarrow> fe_conn) \<Rightarrow> file_events \<Rightarrow> file_events" where
  "mod_fc c f s = s\<lparr>fv_conns := (fv_conns s)[c := f (fv_conns s ! c)]\<rparr>"

definition fc_cleanup :: "nat \<Rightarrow> file_events \<Rightarrow> file_events" where
  "fc_cleanup c s = (mod_fc c (\<lambda>v. v\<lparr>fc_closed := True, fc_queue := [], fc_rqueue := []\<rparr>) s)\<lparr>fv_subs := removeAll c (fv_subs s)\<rparr>"

text \<open>A connection that cannot take more is told to start over, when that still fits, and closed.\<close>

definition fc_overflow :: "ev_limits \<Rightarrow> (frame \<Rightarrow> nat) \<Rightarrow> nat \<Rightarrow> nat \<Rightarrow> file_events \<Rightarrow> file_events" where
  "fc_overflow lm fsize len c s =
    (let v = fv_conns s ! c in
     if fc_closed v then s
     else (let s1 = mark_overflow lm fsize (fc_scope v) s; frame = ResetFrame (fv_seq s1) (fc_scope v) ''overflow'';
               s2 = fc_cleanup c s1
           in if \<not> fc_blocked v \<and> len + fsize frame \<le> lim_sub lm then mod_fc c (\<lambda>v. v\<lparr>fc_written := fc_written v @ [frame]\<rparr>) s2 else s2))"

definition fc_held :: "(frame \<Rightarrow> nat) \<Rightarrow> fe_conn \<Rightarrow> nat" where
  "fc_held fsize v = total fsize (fc_queue v) + total fsize (fc_rqueue v)"

definition fc_write :: "ev_limits \<Rightarrow> (frame \<Rightarrow> nat) \<Rightarrow> wobs \<Rightarrow> nat \<Rightarrow> frame \<Rightarrow> file_events \<Rightarrow> file_events" where
  "fc_write lm fsize ob c x s =
    (let v = fv_conns s ! c in
     if fc_closed v then s
     else if fc_held fsize v + wo_len ob + fsize x > lim_sub lm then fc_overflow lm fsize (wo_len ob) c s
     else if wo_result ob = WriteThrows then fc_cleanup c s
     else (let s1 = mod_fc c (\<lambda>v. v\<lparr>fc_written := fc_written v @ [x], fc_blocked := (fc_blocked v \<or> wo_result ob = WriteFull)\<rparr>) s
           in (case frame_seq x of None \<Rightarrow> s1 | Some n \<Rightarrow> remember_scope lm fsize n (fc_scope v) s1)))"

definition fc_enqueue :: "ev_limits \<Rightarrow> (frame \<Rightarrow> nat) \<Rightarrow> wobs \<Rightarrow> nat \<Rightarrow> frame \<Rightarrow> file_events \<Rightarrow> file_events" where
  "fc_enqueue lm fsize ob c x s =
    (let v = fv_conns s ! c in
     if fc_closed v then s
     else if fc_held fsize v + wo_len ob + fsize x > lim_sub lm then fc_overflow lm fsize (wo_len ob) c s
     else if \<not> fc_live v \<or> fc_blocked v \<or> fc_queue v \<noteq> [] then mod_fc c (\<lambda>v. v\<lparr>fc_queue := fc_queue v @ [x]\<rparr>) s
     else fc_write lm fsize ob c x s)"

text \<open>The loop of \<open>drain\<close>; it takes one item a round, so as many rounds as there are items are enough.\<close>

fun drain_loop :: "ev_limits \<Rightarrow> (frame \<Rightarrow> nat) \<Rightarrow> (nat \<Rightarrow> wobs) \<Rightarrow> nat \<Rightarrow> nat \<Rightarrow> file_events \<Rightarrow> file_events" where
  "drain_loop lm fsize obs c 0 s = s"
| "drain_loop lm fsize obs c (Suc n) s =
    (let v = fv_conns s ! c in
     case fc_queue v of
       [] \<Rightarrow> s
     | x # xs \<Rightarrow>
        if fc_blocked v \<or> fc_closed v then s
        else drain_loop lm fsize obs c n (fc_write lm fsize (obs n) c x (mod_fc c (\<lambda>v. v\<lparr>fc_queue := xs\<rparr>) s)))"

definition fc_drain :: "ev_limits \<Rightarrow> (frame \<Rightarrow> nat) \<Rightarrow> (nat \<Rightarrow> wobs) \<Rightarrow> nat \<Rightarrow> file_events \<Rightarrow> file_events" where
  "fc_drain lm fsize obs c s =
    (let s1 = mod_fc c (\<lambda>v. v\<lparr>fc_blocked := False\<rparr>) s in
     if fc_live (fv_conns s1 ! c) then drain_loop lm fsize obs c (length (fc_queue (fv_conns s1 ! c))) s1 else s1)"

definition deliver_replay :: "ev_limits \<Rightarrow> (frame \<Rightarrow> nat) \<Rightarrow> nat \<Rightarrow> wobs \<Rightarrow> frame \<Rightarrow> file_events \<Rightarrow> file_events" where
  "deliver_replay lm fsize c ob x s =
    (let v = fv_conns s ! c in
     if fc_closed v then s
     else if fc_held fsize v + wo_len ob + fsize x > lim_sub lm then fc_overflow lm fsize (wo_len ob) c s
     else if fc_blocked v then mod_fc c (\<lambda>v. v\<lparr>fc_rqueue := fc_rqueue v @ [x]\<rparr>) s
     else fc_write lm fsize ob c x s)"

subsection \<open>Attaching\<close>

text \<open>A cursor is \<open>epoch.boot.seq\<close>; \<open>None\<close> is one that does not parse.\<close>

definition parse_cursor :: "string \<Rightarrow> (string \<times> string \<times> nat) option" where
  "parse_cursor raw =
    (if length raw > 512 then None
     else (case js_split CHR ''.'' raw of
       [a, b, n] \<Rightarrow>
         if a \<noteq> [] \<and> b \<noteq> [] \<and> list_all is_b64 a \<and> list_all is_b64 b \<and> n \<noteq> [] \<and> list_all is_digit n \<and> (n = ''0'' \<or> hd n \<noteq> CHR ''0'') \<and>
            int (parse_dec n) < 2 ^ 53
         then Some (a, b, parse_dec n) else None
     | _ \<Rightarrow> None))"

definition was_reset :: "file_events \<Rightarrow> string \<Rightarrow> string \<times> string \<times> nat \<Rightarrow> bool" where
  "was_reset s scope cur = (case cur of (e, b, n) \<Rightarrow> e = fv_epoch s \<and> b = fv_boot s \<and>
     (int n \<le> fv_floor s \<or> (case om_get (fv_resets s) scope of Some m \<Rightarrow> n \<le> m | None \<Rightarrow> False)))"

text \<open>Why a cursor is not resumed; \<open>None\<close> if it is.\<close>

definition cursor_reason :: "file_events \<Rightarrow> string \<Rightarrow> string \<Rightarrow> string option" where
  "cursor_reason s scope raw =
    (case parse_cursor raw of
       None \<Rightarrow> Some ''bad-cursor''
     | Some (e, b, n) \<Rightarrow>
        if e \<noteq> fv_epoch s then Some ''epoch''
        else if b \<noteq> fv_boot s then Some ''restart''
        else if was_reset s scope (e, b, n) \<or> fv_seq s < n \<or> n + 1 < (case fv_ring s of r # rs \<Rightarrow> fr_seq r | [] \<Rightarrow> fv_seq s + 1) then Some ''gap''
        else if om_get (fv_issued s) n \<noteq> Some (Some scope) then Some ''gap''
        else if list_ex (\<lambda>r. fr_kind r = ''reset'' \<and> n < fr_seq r \<and> scoped_payload scope (fr_payload r) \<noteq> None) (fv_ring s) then Some ''gap''
        else None)"

definition reset_reason :: "file_events \<Rightarrow> string \<Rightarrow> string \<Rightarrow> string" where
  "reset_reason s scope raw =
    (case parse_cursor raw of
       None \<Rightarrow> ''gap''
     | Some (e, b, n) \<Rightarrow>
        if was_reset s scope (e, b, n) then ''overflow''
        else if e \<noteq> fv_epoch s then ''epoch''
        else if b \<noteq> fv_boot s \<or> fv_seq s < n \<or> n + 1 < (case fv_ring s of r # rs \<Rightarrow> fr_seq r | [] \<Rightarrow> fv_seq s + 1) \<or>
            om_get (fv_issued s) n \<noteq> Some (Some scope) then ''gap''
        else (case List.find (\<lambda>r. fr_kind r = ''reset'' \<and> n < fr_seq r \<and> scoped_payload scope (fr_payload r) \<noteq> None) (fv_ring s) of
           Some r \<Rightarrow> (case js_field (fr_payload r) ''reason'' of JStr x \<Rightarrow> if x = [] then ''gap'' else x | _ \<Rightarrow> ''gap'')
         | None \<Rightarrow> ''gap''))"

text \<open>\<open>attach\<close> up to its \<open>writeHead\<close>: the connection subscribes, and what it has to be sent first is settled.\<close>

definition fe_attach :: "string \<Rightarrow> string \<Rightarrow> file_events \<Rightarrow> file_events" where
  "fe_attach scope raw s =
    (if fv_closed s then s
     else (let reason = (if raw = [] then None else cursor_reason s scope raw);
               resumed = (raw \<noteq> [] \<and> reason = None);
               after = (case parse_cursor raw of Some (e, b, n) \<Rightarrow> n | None \<Rightarrow> 0);
               start = (if resumed then after else fv_seq s);
               todo = (if resumed then items_for scope (filter (\<lambda>r. after < fr_seq r) (fv_ring s))
                       else if raw \<noteq> [] then [ResetFrame (fv_seq s) scope (reset_reason s scope raw)] else [])
           in s\<lparr>fv_conns := fv_conns s @ [\<lparr>fc_scope = scope, fc_closed = False, fc_live = False, fc_blocked = False, fc_queue = [], fc_rqueue = [],
                  fc_ready = ReadyFrame start scope resumed reason, fc_replay = todo, fc_written = []\<rparr>],
                fv_subs := fv_subs s @ [length (fv_conns s)]\<rparr>))"

text \<open>The rest of \<open>attach\<close>.\<close>

fun deliver_all :: "ev_limits \<Rightarrow> (frame \<Rightarrow> nat) \<Rightarrow> (nat \<Rightarrow> wobs) \<Rightarrow> nat \<Rightarrow> frame list \<Rightarrow> file_events \<Rightarrow> file_events" where
  "deliver_all lm fsize obs c [] s = s"
| "deliver_all lm fsize obs c (x # xs) s = deliver_all lm fsize obs c xs (deliver_replay lm fsize c (obs (length xs)) x s)"

definition fe_attach_goes :: "ev_limits \<Rightarrow> (frame \<Rightarrow> nat) \<Rightarrow> (nat \<Rightarrow> wobs) \<Rightarrow> (nat \<Rightarrow> wobs) \<Rightarrow> nat \<Rightarrow> file_events \<Rightarrow> file_events" where
  "fe_attach_goes lm fsize robs qobs c s =
    (let v = fv_conns s ! c in
     if fc_closed v \<or> fc_live v then s
     else (let s1 = deliver_all lm fsize robs c (fc_ready v # fc_replay v) s; w = fv_conns s1 ! c in
       if fc_closed w then s1
       else (let s2 = mod_fc c (\<lambda>w. w\<lparr>fc_queue := fc_rqueue w @ fc_queue w, fc_rqueue := [], fc_replay := [], fc_live := True\<rparr>) s1
             in if fc_blocked w then s2 else fc_drain lm fsize qobs c s2)))"

subsection \<open>Publishing\<close>

definition event_kinds :: "string set" where
  "event_kinds = {''invalidation'', ''index'', ''hydration'', ''persistence'', ''remote_replaced'', ''job'', ''reset''}"

definition gap_payload :: js where
  "gap_payload = JObj [(''path'', JStr []), (''reason'', JStr ''overflow'')]"

text \<open>The record of a publish; one too large to keep is replaced by a reset.\<close>

definition new_record :: "ev_limits \<Rightarrow> (frame \<Rightarrow> nat) \<Rightarrow> nat \<Rightarrow> string \<Rightarrow> js \<Rightarrow> fe_rec" where
  "new_record lm fsize n k p =
    (let r = \<lparr>fr_kind = k, fr_seq = n, fr_payload = p\<rparr> in
     if fsize (rec_frame r) > lim_bytes lm then \<lparr>fr_kind = ''reset'', fr_seq = n, fr_payload = gap_payload\<rparr> else r)"

fun accept_all :: "ev_limits \<Rightarrow> (frame \<Rightarrow> nat) \<Rightarrow> (nat \<Rightarrow> wobs) \<Rightarrow> fe_rec \<Rightarrow> nat list \<Rightarrow> file_events \<Rightarrow> file_events" where
  "accept_all lm fsize obs r [] s = s"
| "accept_all lm fsize obs r (c # cs) s =
    accept_all lm fsize obs r cs
      (case item_for (fc_scope (fv_conns s ! c)) r of None \<Rightarrow> s | Some x \<Rightarrow> fc_enqueue lm fsize (obs c) c x s)"

definition fe_publish :: "ev_limits \<Rightarrow> (frame \<Rightarrow> nat) \<Rightarrow> (nat \<Rightarrow> wobs) \<Rightarrow> string \<Rightarrow> js \<Rightarrow> file_events \<Rightarrow> file_events \<times> fe_rec list" where
  "fe_publish lm fsize obs k p s =
    (if fv_closed s \<or> k \<notin> event_kinds \<or> \<not> is_obj p then (s, [])
     else (let n = fv_seq s + 1; r = new_record lm fsize n k p;
               ring = (if fsize (rec_frame r) \<le> lim_bytes lm then fv_ring s @ [r] else fv_ring s);
               s1 = trim_scopes lm fsize (s\<lparr>fv_seq := n, fv_ring := trim_ring lm fsize ring\<rparr>)
           in (accept_all lm fsize obs r (fv_subs s1) s1, [r])))"

definition fe_close :: "file_events \<Rightarrow> file_events" where
  "fe_close s = (if fv_closed s then s
     else (fold fc_cleanup (fv_subs s) s)\<lparr>fv_closed := True, fv_ring := [], fv_issued := [], fv_resets := []\<rparr>)"

text \<open>Events: the calls of the service, and those of a connection (\<open>Gone\<close>: aborted, closed or failed; \<open>Stalled\<close>: its timer).\<close>

datatype fe_event =
    FePublish string js "nat \<Rightarrow> wobs"
  | FeAttach string string
  | FeAttachGoes nat "nat \<Rightarrow> wobs" "nat \<Rightarrow> wobs"
  | FeDrain nat "nat \<Rightarrow> wobs"
  | FeStalled nat nat
  | FeBeat nat wobs
  | FeGone nat
  | FeClose

fun fe_step :: "ev_limits \<Rightarrow> (frame \<Rightarrow> nat) \<Rightarrow> file_events \<Rightarrow> fe_event \<Rightarrow> file_events \<times> fe_rec list" where
  "fe_step lm fsize s (FePublish k p obs) = fe_publish lm fsize obs k p s"
| "fe_step lm fsize s (FeAttach scope raw) = (fe_attach scope raw s, [])"
| "fe_step lm fsize s (FeAttachGoes c robs qobs) = (if c < length (fv_conns s) then fe_attach_goes lm fsize robs qobs c s else s, [])"
| "fe_step lm fsize s (FeDrain c obs) = (if c < length (fv_conns s) \<and> \<not> fc_closed (fv_conns s ! c) then fc_drain lm fsize obs c s else s, [])"
| "fe_step lm fsize s (FeStalled c len) =
    (if c < length (fv_conns s) \<and> fc_blocked (fv_conns s ! c) then fc_overflow lm fsize len c s else s, [])"
| "fe_step lm fsize s (FeBeat c ob) =
    (if c < length (fv_conns s) \<and> fc_live (fv_conns s ! c) \<and> \<not> fc_closed (fv_conns s ! c) \<and> \<not> fc_blocked (fv_conns s ! c) \<and>
        fc_queue (fv_conns s ! c) = []
     then fc_enqueue lm fsize ob c KeepAlive s else s, [])"
| "fe_step lm fsize s (FeGone c) = (if c < length (fv_conns s) then fc_cleanup c s else s, [])"
| "fe_step lm fsize s FeClose = (fe_close s, [])"

text \<open>A run gives the final state and everything published.\<close>

fun fe_run :: "ev_limits \<Rightarrow> (frame \<Rightarrow> nat) \<Rightarrow> file_events \<Rightarrow> fe_event list \<Rightarrow> file_events \<times> fe_rec list" where
  "fe_run lm fsize s [] = (s, [])"
| "fe_run lm fsize s (e # es) =
    (case fe_step lm fsize s e of (s1, r1) \<Rightarrow> (case fe_run lm fsize s1 es of (s2, r2) \<Rightarrow> (s2, r1 @ r2)))"

end
