(* ===== verification/File_Events_Props.thy ===== *)
theory File_Events_Props
  imports File_Events Run_System
begin

text \<open>
  The streams of file changes (runtime/lib/file-events.js): what a connection has been sent is always an initial part of what
  concerns it after its cursor, in order; what is missing is queued unless the connection was closed. The memory of the
  journal and of its connections stays within the limits.
\<close>

subsection \<open>What a step leaves alone\<close>

fun is_event :: "frame \<Rightarrow> bool" where
  "is_event (EventFrame k n p) = True"
| "is_event _ = False"

definition sent :: "fe_conn \<Rightarrow> frame list" where
  "sent v = filter is_event (fc_written v)"

text \<open>Only connection \<open>c\<close> changed, and it is subscribed as long as it is open.\<close>

definition touches :: "nat \<Rightarrow> file_events \<Rightarrow> file_events \<Rightarrow> bool" where
  "touches c s s' \<longleftrightarrow> fv_seq s' = fv_seq s \<and> fv_ring s' = fv_ring s \<and> fv_closed s' = fv_closed s \<and>
     length (fv_conns s') = length (fv_conns s) \<and> (\<forall>d. d \<noteq> c \<longrightarrow> fv_conns s' ! d = fv_conns s ! d) \<and>
     fc_scope (fv_conns s' ! c) = fc_scope (fv_conns s ! c) \<and> fc_ready (fv_conns s' ! c) = fc_ready (fv_conns s ! c) \<and>
     (fv_subs s' = fv_subs s \<and> fc_closed (fv_conns s' ! c) = fc_closed (fv_conns s ! c) \<or>
      fv_subs s' = removeAll c (fv_subs s) \<and> fc_closed (fv_conns s' ! c))"

lemma touches_refl [simp]: "touches c s s"
  by (simp add: touches_def)

lemma touches_trans: "touches c s s' \<Longrightarrow> touches c s' s'' \<Longrightarrow> touches c s s''"
  unfolding touches_def by (elim conjE disjE) simp_all

lemma mod_fc_simps [simp]:
  "fv_seq (mod_fc c f s) = fv_seq s" "fv_ring (mod_fc c f s) = fv_ring s" "fv_closed (mod_fc c f s) = fv_closed s"
  "length (fv_conns (mod_fc c f s)) = length (fv_conns s)" "fv_subs (mod_fc c f s) = fv_subs s"
  "d \<noteq> c \<Longrightarrow> fv_conns (mod_fc c f s) ! d = fv_conns s ! d"
  "c < length (fv_conns s) \<Longrightarrow> fv_conns (mod_fc c f s) ! c = f (fv_conns s ! c)"
  by (simp_all add: mod_fc_def)

lemma trim_simps [simp]:
  "fv_seq (trim_scopes lm fsize s) = fv_seq s" "fv_ring (trim_scopes lm fsize s) = fv_ring s"
  "fv_closed (trim_scopes lm fsize s) = fv_closed s" "fv_conns (trim_scopes lm fsize s) = fv_conns s"
  "fv_subs (trim_scopes lm fsize s) = fv_subs s"
  by (simp_all add: trim_scopes_def Let_def)

lemma scopes_simps [simp]:
  "fv_seq (remember_scope lm fsize n p s) = fv_seq s" "fv_ring (remember_scope lm fsize n p s) = fv_ring s"
  "fv_closed (remember_scope lm fsize n p s) = fv_closed s" "fv_conns (remember_scope lm fsize n p s) = fv_conns s"
  "fv_subs (remember_scope lm fsize n p s) = fv_subs s"
  "fv_seq (mark_overflow lm fsize p s) = fv_seq s" "fv_ring (mark_overflow lm fsize p s) = fv_ring s"
  "fv_closed (mark_overflow lm fsize p s) = fv_closed s" "fv_conns (mark_overflow lm fsize p s) = fv_conns s"
  "fv_subs (mark_overflow lm fsize p s) = fv_subs s"
  by (simp_all add: remember_scope_def mark_overflow_def Let_def)

lemma cleanup_simps [simp]:
  "fv_seq (fc_cleanup c s) = fv_seq s" "fv_ring (fc_cleanup c s) = fv_ring s" "fv_closed (fc_cleanup c s) = fv_closed s"
  "length (fv_conns (fc_cleanup c s)) = length (fv_conns s)" "fv_subs (fc_cleanup c s) = removeAll c (fv_subs s)"
  "d \<noteq> c \<Longrightarrow> fv_conns (fc_cleanup c s) ! d = fv_conns s ! d"
  "c < length (fv_conns s) \<Longrightarrow> fv_conns (fc_cleanup c s) ! c = (fv_conns s ! c)\<lparr>fc_closed := True, fc_queue := [], fc_rqueue := []\<rparr>"
  by (simp_all add: fc_cleanup_def)

text \<open>A connection that was closed by the step, nothing more having been sent.\<close>

definition shut :: "fe_conn \<Rightarrow> fe_conn \<Rightarrow> bool" where
  "shut v v' \<longleftrightarrow> fc_closed v' \<and> sent v' = sent v"

lemma cleanup_shut: "c < length (fv_conns s) \<Longrightarrow> touches c s (fc_cleanup c s) \<and> shut (fv_conns s ! c) (fv_conns (fc_cleanup c s) ! c)"
  by (simp add: touches_def shut_def sent_def)

lemma overflow_shut:
  assumes "c < length (fv_conns s)" "\<not> fc_closed (fv_conns s ! c)"
  shows "touches c s (fc_overflow lm fsize len c s) \<and> shut (fv_conns s ! c) (fv_conns (fc_overflow lm fsize len c s) ! c)"
  using assms by (auto simp: fc_overflow_def Let_def touches_def shut_def sent_def)

lemma write_cases:
  assumes "c < length (fv_conns s)" "\<not> fc_closed (fv_conns s ! c)"
  shows "touches c s (fc_write lm fsize ob c x s)"
    "shut (fv_conns s ! c) (fv_conns (fc_write lm fsize ob c x s) ! c) \<or>
     (\<exists>b. fv_conns (fc_write lm fsize ob c x s) ! c = (fv_conns s ! c)\<lparr>fc_written := fc_written (fv_conns s ! c) @ [x], fc_blocked := b\<rparr>)"
proof -
  let ?v = "fv_conns s ! c"
  consider (full) "fc_held fsize ?v + wo_len ob + fsize x > lim_sub lm"
    | (throws) "fc_held fsize ?v + wo_len ob + fsize x \<le> lim_sub lm" "wo_result ob = WriteThrows"
    | (ok) "fc_held fsize ?v + wo_len ob + fsize x \<le> lim_sub lm" "wo_result ob \<noteq> WriteThrows"
    by linarith
  then have "touches c s (fc_write lm fsize ob c x s) \<and> (shut ?v (fv_conns (fc_write lm fsize ob c x s) ! c) \<or>
     (\<exists>b. fv_conns (fc_write lm fsize ob c x s) ! c = ?v\<lparr>fc_written := fc_written ?v @ [x], fc_blocked := b\<rparr>))"
  proof cases
    case full
    then show ?thesis using overflow_shut [OF assms, of lm fsize "wo_len ob"] assms by (simp add: fc_write_def Let_def)
  next
    case throws
    then show ?thesis using cleanup_shut [OF assms(1)] assms by (simp add: fc_write_def Let_def)
  next
    case ok
    let ?s1 = "mod_fc c (\<lambda>v. v\<lparr>fc_written := fc_written v @ [x], fc_blocked := (fc_blocked v \<or> wo_result ob = WriteFull)\<rparr>) s"
    have "fc_write lm fsize ob c x s = (case frame_seq x of None \<Rightarrow> ?s1 | Some n \<Rightarrow> remember_scope lm fsize n (fc_scope ?v) ?s1)"
      using ok assms by (simp add: fc_write_def Let_def)
    then have "fv_conns (fc_write lm fsize ob c x s) = fv_conns ?s1" "touches c s (fc_write lm fsize ob c x s)"
      using assms by (auto simp: touches_def split: option.splits)
    then show ?thesis using assms by auto
  qed
  then show "touches c s (fc_write lm fsize ob c x s)" "shut ?v (fv_conns (fc_write lm fsize ob c x s) ! c) \<or>
     (\<exists>b. fv_conns (fc_write lm fsize ob c x s) ! c = ?v\<lparr>fc_written := fc_written ?v @ [x], fc_blocked := b\<rparr>)" by auto
qed

lemma enqueue_cases:
  assumes "c < length (fv_conns s)" "\<not> fc_closed (fv_conns s ! c)"
  shows "touches c s (fc_enqueue lm fsize ob c x s)"
    "shut (fv_conns s ! c) (fv_conns (fc_enqueue lm fsize ob c x s) ! c) \<or>
     fv_conns (fc_enqueue lm fsize ob c x s) ! c = (fv_conns s ! c)\<lparr>fc_queue := fc_queue (fv_conns s ! c) @ [x]\<rparr> \<or>
     (fc_live (fv_conns s ! c) \<and> fc_queue (fv_conns s ! c) = [] \<and>
      (\<exists>b. fv_conns (fc_enqueue lm fsize ob c x s) ! c = (fv_conns s ! c)\<lparr>fc_written := fc_written (fv_conns s ! c) @ [x], fc_blocked := b\<rparr>))"
proof -
  let ?v = "fv_conns s ! c"
  have "touches c s (fc_enqueue lm fsize ob c x s) \<and> (shut ?v (fv_conns (fc_enqueue lm fsize ob c x s) ! c) \<or>
     fv_conns (fc_enqueue lm fsize ob c x s) ! c = ?v\<lparr>fc_queue := fc_queue ?v @ [x]\<rparr> \<or>
     (fc_live ?v \<and> fc_queue ?v = [] \<and>
      (\<exists>b. fv_conns (fc_enqueue lm fsize ob c x s) ! c = ?v\<lparr>fc_written := fc_written ?v @ [x], fc_blocked := b\<rparr>)))"
  proof (cases "fc_held fsize ?v + wo_len ob + fsize x > lim_sub lm")
    case True
    then show ?thesis using overflow_shut [OF assms, of lm fsize "wo_len ob"] assms by (simp add: fc_enqueue_def Let_def)
  next
    case False
    show ?thesis
    proof (cases "\<not> fc_live ?v \<or> fc_blocked ?v \<or> fc_queue ?v \<noteq> []")
      case True
      then have "fc_enqueue lm fsize ob c x s = mod_fc c (\<lambda>v. v\<lparr>fc_queue := fc_queue v @ [x]\<rparr>) s"
        using False assms by (simp add: fc_enqueue_def Let_def)
      then show ?thesis using assms by (auto simp: touches_def)
    next
      case n: False
      then have "fc_enqueue lm fsize ob c x s = fc_write lm fsize ob c x s"
        using False assms by (simp add: fc_enqueue_def Let_def)
      then show ?thesis using n write_cases [OF assms, of lm fsize ob x] by auto
    qed
  qed
  then show "touches c s (fc_enqueue lm fsize ob c x s)"
    "shut ?v (fv_conns (fc_enqueue lm fsize ob c x s) ! c) \<or>
     fv_conns (fc_enqueue lm fsize ob c x s) ! c = ?v\<lparr>fc_queue := fc_queue ?v @ [x]\<rparr> \<or>
     (fc_live ?v \<and> fc_queue ?v = [] \<and>
      (\<exists>b. fv_conns (fc_enqueue lm fsize ob c x s) ! c = ?v\<lparr>fc_written := fc_written ?v @ [x], fc_blocked := b\<rparr>))" by auto
qed

subsection \<open>A connection and what concerns it\<close>

definition conn_inv :: "frame list \<Rightarrow> fe_conn \<Rightarrow> bool" where
  "conn_inv R v \<longleftrightarrow>
     (if fc_closed v then prefix (sent v) R
      else if fc_live v then fc_rqueue v = [] \<and> sent v @ filter is_event (fc_queue v) = R
      else fc_written v = [] \<and> fc_rqueue v = [] \<and> \<not> fc_blocked v \<and> \<not> is_event (fc_ready v) \<and>
        list_all is_event (fc_queue v) \<and> filter is_event (fc_replay v) @ fc_queue v = R)"

lemma conn_inv_shut: "conn_inv R v \<Longrightarrow> \<not> fc_closed v \<Longrightarrow> shut v v' \<Longrightarrow> conn_inv R v'"
  by (auto simp: conn_inv_def shut_def sent_def split: if_splits)

lemma drain_loop_closed: "fc_closed (fv_conns s ! c) \<Longrightarrow> drain_loop lm fsize obs c n s = s"
  by (cases n) (auto simp: Let_def split: list.splits)

lemma drain_loop_inv:
  "c < length (fv_conns s) \<Longrightarrow> \<not> fc_closed (fv_conns s ! c) \<Longrightarrow> fc_live (fv_conns s ! c) \<Longrightarrow> conn_inv R (fv_conns s ! c) \<Longrightarrow>
   touches c s (drain_loop lm fsize obs c n s) \<and> conn_inv R (fv_conns (drain_loop lm fsize obs c n s) ! c)"
proof (induction n arbitrary: s)
  case (Suc n)
  let ?v = "fv_conns s ! c"
  show ?case
  proof (cases "fc_queue ?v = [] \<or> fc_blocked ?v")
    case True
    then have "drain_loop lm fsize obs c (Suc n) s = s" by (auto simp: Let_def split: list.splits)
    then show ?thesis using Suc.prems by simp
  next
    case False
    then obtain x xs where q: "fc_queue ?v = x # xs" by (cases "fc_queue ?v") auto
    let ?s0 = "mod_fc c (\<lambda>v. v\<lparr>fc_queue := xs\<rparr>) s"
    let ?s1 = "fc_write lm fsize (obs n) c x ?s0"
    have eq: "drain_loop lm fsize obs c (Suc n) s = drain_loop lm fsize obs c n ?s1" using False q Suc.prems(2) by (simp add: Let_def)
    have s0: "c < length (fv_conns ?s0)" "fv_conns ?s0 ! c = ?v\<lparr>fc_queue := xs\<rparr>" "\<not> fc_closed (fv_conns ?s0 ! c)"
      using Suc.prems by simp_all
    have t0: "touches c s ?s0" using Suc.prems by (simp add: touches_def)
    note w = write_cases [OF s0(1,3), of lm fsize "obs n" x]
    have t: "touches c s ?s1" using t0 w(1) by (rule touches_trans)
    have R: "sent ?v @ filter is_event (x # xs) = R" "fc_rqueue ?v = []" using Suc.prems q by (simp_all add: conn_inv_def)
    from w(2) show ?thesis
    proof
      assume sh: "shut (fv_conns ?s0 ! c) (fv_conns ?s1 ! c)"
      then have "conn_inv R (fv_conns ?s1 ! c)" using R(1) s0(2) by (auto simp: conn_inv_def shut_def sent_def)
      then show ?thesis using sh t by (simp add: eq drain_loop_closed shut_def del: drain_loop.simps)
    next
      assume "\<exists>b. fv_conns ?s1 ! c = (fv_conns ?s0 ! c)\<lparr>fc_written := fc_written (fv_conns ?s0 ! c) @ [x], fc_blocked := b\<rparr>"
      then obtain b where v1: "fv_conns ?s1 ! c = ?v\<lparr>fc_queue := xs, fc_written := fc_written ?v @ [x], fc_blocked := b\<rparr>" using s0(2) by auto
      have "conn_inv R (fv_conns ?s1 ! c)" using R Suc.prems(2,3) by (auto simp: conn_inv_def v1 sent_def split: if_splits)
      moreover have "c < length (fv_conns ?s1)" using t Suc.prems(1) by (simp add: touches_def)
      ultimately have "touches c ?s1 (drain_loop lm fsize obs c n ?s1) \<and> conn_inv R (fv_conns (drain_loop lm fsize obs c n ?s1) ! c)"
        using Suc.IH [of ?s1] v1 Suc.prems(2,3) by simp
      then show ?thesis using t touches_trans unfolding eq by blast
    qed
  qed
qed simp

lemma drain_inv:
  assumes "c < length (fv_conns s)" "\<not> fc_closed (fv_conns s ! c)" "conn_inv R (fv_conns s ! c)"
  shows "touches c s (fc_drain lm fsize obs c s)" "conn_inv R (fv_conns (fc_drain lm fsize obs c s) ! c)"
proof -
  let ?s1 = "mod_fc c (\<lambda>v. v\<lparr>fc_blocked := False\<rparr>) s"
  have v1: "fv_conns ?s1 ! c = (fv_conns s ! c)\<lparr>fc_blocked := False\<rparr>" "c < length (fv_conns ?s1)" using assms by simp_all
  have t: "touches c s ?s1" using assms by (simp add: touches_def)
  have i: "conn_inv R (fv_conns ?s1 ! c)" using assms by (auto simp: conn_inv_def v1 sent_def split: if_splits)
  have "touches c ?s1 (fc_drain lm fsize obs c s) \<and> conn_inv R (fv_conns (fc_drain lm fsize obs c s) ! c)"
  proof (cases "fc_live (fv_conns s ! c)")
    case True
    then show ?thesis using drain_loop_inv [OF v1(2), of R lm fsize obs "length (fc_queue (fv_conns ?s1 ! c))"] assms i v1
      by (simp add: fc_drain_def Let_def)
  next
    case False
    then show ?thesis using i v1 by (simp add: fc_drain_def Let_def)
  qed
  then show "touches c s (fc_drain lm fsize obs c s)" "conn_inv R (fv_conns (fc_drain lm fsize obs c s) ! c)"
    using t touches_trans by blast+
qed

text \<open>In the middle of a replay: \<open>xs\<close> is still to come.\<close>

definition replay_inv :: "frame list \<Rightarrow> frame list \<Rightarrow> fe_conn \<Rightarrow> bool" where
  "replay_inv R xs v \<longleftrightarrow>
     (if fc_closed v then prefix (sent v) R
      else \<not> fc_live v \<and> (fc_rqueue v \<noteq> [] \<longrightarrow> fc_blocked v) \<and> list_all is_event (fc_queue v) \<and>
        sent v @ filter is_event (fc_rqueue v) @ filter is_event xs @ fc_queue v = R)"

lemma deliver_replay_inv:
  assumes c: "c < length (fv_conns s)" and r: "replay_inv R (x # xs) (fv_conns s ! c)"
  shows "touches c s (deliver_replay lm fsize c ob x s) \<and> replay_inv R xs (fv_conns (deliver_replay lm fsize c ob x s) ! c)"
proof (cases "fc_closed (fv_conns s ! c)")
  case True
  then show ?thesis using r by (simp add: deliver_replay_def Let_def replay_inv_def)
next
  case o: False
  let ?v = "fv_conns s ! c" and ?s1 = "deliver_replay lm fsize c ob x s"
  have sh: "shut ?v v' \<Longrightarrow> replay_inv R xs v'" for v' using r o by (auto simp: replay_inv_def shut_def)
  consider (full) "fc_held fsize ?v + wo_len ob + fsize x > lim_sub lm"
    | (wait) "\<not> fc_held fsize ?v + wo_len ob + fsize x > lim_sub lm" "fc_blocked ?v"
    | (ok) "\<not> fc_held fsize ?v + wo_len ob + fsize x > lim_sub lm" "\<not> fc_blocked ?v" by blast
  then show ?thesis
  proof cases
    case full
    then have "?s1 = fc_overflow lm fsize (wo_len ob) c s" using o by (simp add: deliver_replay_def Let_def)
    then show ?thesis using overflow_shut [OF c o, of lm fsize "wo_len ob"] sh by simp
  next
    case wait
    then have "?s1 = mod_fc c (\<lambda>v. v\<lparr>fc_rqueue := fc_rqueue v @ [x]\<rparr>) s" using o by (simp add: deliver_replay_def Let_def)
    then show ?thesis using c r o wait by (auto simp: touches_def replay_inv_def sent_def split: if_splits)
  next
    case ok
    then have eq: "?s1 = fc_write lm fsize ob c x s" using o by (simp add: deliver_replay_def Let_def)
    have rq: "fc_rqueue ?v = []" using r o ok by (auto simp: replay_inv_def)
    note w = write_cases [OF c o, of lm fsize ob x]
    from w(2) have "replay_inv R xs (fv_conns (fc_write lm fsize ob c x s) ! c)"
    proof
      assume "\<exists>b. fv_conns (fc_write lm fsize ob c x s) ! c = ?v\<lparr>fc_written := fc_written ?v @ [x], fc_blocked := b\<rparr>"
      then obtain b where v1: "fv_conns (fc_write lm fsize ob c x s) ! c = ?v\<lparr>fc_written := fc_written ?v @ [x], fc_blocked := b\<rparr>" by blast
      show ?thesis unfolding v1 using r o rq by (cases "is_event x") (simp_all add: replay_inv_def sent_def)
    qed (rule sh)
    then show ?thesis using w(1) unfolding eq by blast
  qed
qed

lemma deliver_all_inv:
  "c < length (fv_conns s) \<Longrightarrow> replay_inv R xs (fv_conns s ! c) \<Longrightarrow>
   touches c s (deliver_all lm fsize obs c xs s) \<and> replay_inv R [] (fv_conns (deliver_all lm fsize obs c xs s) ! c)"
proof (induction xs arbitrary: s)
  case (Cons x xs)
  let ?s1 = "deliver_replay lm fsize c (obs (length xs)) x s"
  note d = deliver_replay_inv [OF Cons.prems, of lm fsize "obs (length xs)"]
  have "c < length (fv_conns ?s1)" using d Cons.prems(1) by (simp add: touches_def)
  then show ?case using Cons.IH [of ?s1] d touches_trans by (simp del: deliver_replay_def) blast
qed simp

lemma attach_goes_inv:
  assumes c: "c < length (fv_conns s)" and i: "conn_inv R (fv_conns s ! c)"
  shows "touches c s (fe_attach_goes lm fsize robs qobs c s) \<and> conn_inv R (fv_conns (fe_attach_goes lm fsize robs qobs c s) ! c)"
proof (cases "fc_closed (fv_conns s ! c) \<or> fc_live (fv_conns s ! c)")
  case True
  then show ?thesis using i by (auto simp: fe_attach_goes_def Let_def)
next
  case False
  let ?v = "fv_conns s ! c"
  let ?s1 = "deliver_all lm fsize robs c (fc_ready ?v # fc_replay ?v) s"
  let ?w = "fv_conns ?s1 ! c"
  have "replay_inv R (fc_ready ?v # fc_replay ?v) ?v" using i False by (auto simp: conn_inv_def replay_inv_def sent_def split: if_splits)
  from deliver_all_inv [OF c this, of lm fsize robs] have d: "touches c s ?s1" "replay_inv R [] ?w" by auto
  have c1: "c < length (fv_conns ?s1)" using d(1) c by (simp add: touches_def)
  show ?thesis
  proof (cases "fc_closed ?w")
    case True
    then show ?thesis using d False by (auto simp: fe_attach_goes_def Let_def conn_inv_def replay_inv_def simp del: deliver_all.simps)
  next
    case o: False
    let ?s2 = "mod_fc c (\<lambda>w. w\<lparr>fc_queue := fc_rqueue w @ fc_queue w, fc_rqueue := [], fc_replay := [], fc_live := True\<rparr>) ?s1"
    have v2: "fv_conns ?s2 ! c = ?w\<lparr>fc_queue := fc_rqueue ?w @ fc_queue ?w, fc_rqueue := [], fc_replay := [], fc_live := True\<rparr>"
      "c < length (fv_conns ?s2)" "\<not> fc_closed (fv_conns ?s2 ! c)" using c1 o by simp_all
    have t2: "touches c s ?s2" using d(1) c1 by (auto intro!: touches_trans [OF d(1)] simp: touches_def simp del: deliver_all.simps)
    have "conn_inv R (fv_conns ?s2 ! c)" unfolding v2(1) using d(2) o
      by (auto simp: conn_inv_def replay_inv_def sent_def list_all_iff)
    note dr = drain_inv [OF v2(2,3) this, of lm fsize qobs]
    have "fe_attach_goes lm fsize robs qobs c s = (if fc_blocked ?w then ?s2 else fc_drain lm fsize qobs c ?s2)"
      using False o by (simp add: fe_attach_goes_def Let_def del: deliver_all.simps)
    then show ?thesis using t2 dr \<open>conn_inv R (fv_conns ?s2 ! c)\<close> touches_trans [OF t2 dr(1)] by simp
  qed
qed

subsection \<open>The journal\<close>

fun start_of :: "fe_conn \<Rightarrow> nat" where
  "start_of v = (case fc_ready v of ReadyFrame n p b r \<Rightarrow> n | _ \<Rightarrow> 0)"

text \<open>What concerns a connection, after its start.\<close>

definition concerns :: "fe_rec list \<Rightarrow> fe_conn \<Rightarrow> frame list" where
  "concerns H v = items_for (fc_scope v) (filter (\<lambda>r. start_of v < fr_seq r) H)"

definition fe_ok :: "fe_rec list \<Rightarrow> file_events \<Rightarrow> bool" where
  "fe_ok H s \<longleftrightarrow> map fr_seq H = [1..<length H + 1] \<and> fv_seq s = length H \<and> (\<not> fv_closed s \<longrightarrow> suffix (fv_ring s) H) \<and>
     distinct (fv_subs s) \<and> (\<forall>c < length (fv_conns s). \<not> fc_closed (fv_conns s ! c) \<longrightarrow> c \<in> set (fv_subs s)) \<and>
     (\<forall>c \<in> set (fv_subs s). c < length (fv_conns s)) \<and>
     (\<forall>c < length (fv_conns s). start_of (fv_conns s ! c) \<le> length H \<and> conn_inv (concerns H (fv_conns s ! c)) (fv_conns s ! c))"

text \<open>A step on one connection keeps everything when it keeps that connection's invariant.\<close>

lemma touches_ok:
  assumes "fe_ok H s" "touches c s s'" "c < length (fv_conns s)" "conn_inv (concerns H (fv_conns s ! c)) (fv_conns s' ! c)"
  shows "fe_ok H s'"
proof -
  have same: "concerns H (fv_conns s' ! c) = concerns H (fv_conns s ! c)" "start_of (fv_conns s' ! c) = start_of (fv_conns s ! c)"
    using assms(2) by (auto simp: touches_def concerns_def)
  have "start_of (fv_conns s' ! d) \<le> length H \<and> conn_inv (concerns H (fv_conns s' ! d)) (fv_conns s' ! d)" if "d < length (fv_conns s)" for d
    using assms same that by (cases "d = c") (auto simp: fe_ok_def touches_def)
  moreover have "d \<in> set (fv_subs s')" if "d < length (fv_conns s)" "\<not> fc_closed (fv_conns s' ! d)" for d
    using assms(1,2) that by (cases "d = c") (auto simp: fe_ok_def touches_def)
  moreover have "distinct (fv_subs s')" "\<forall>c \<in> set (fv_subs s'). c < length (fv_conns s)"
    using assms(1,2) by (auto simp: fe_ok_def touches_def distinct_removeAll)
  moreover have "fv_seq s' = fv_seq s" "fv_ring s' = fv_ring s" "fv_closed s' = fv_closed s" "length (fv_conns s') = length (fv_conns s)"
    using assms(2) by (simp_all add: touches_def)
  moreover have "map fr_seq H = [1..<length H + 1]" "fv_seq s = length H" "\<not> fv_closed s \<longrightarrow> suffix (fv_ring s) H"
    using assms(1) by (simp_all add: fe_ok_def)
  ultimately show ?thesis unfolding fe_ok_def by (metis (no_types, lifting))
qed

lemma items_for_append: "items_for p (xs @ ys) = items_for p xs @ items_for p ys"
  by (simp add: items_for_def map_filter_def)

lemma items_for_Nil: "items_for p [] = []"
  by (simp add: items_for_def)

lemma items_for_one: "items_for p [r] = (case item_for p r of None \<Rightarrow> [] | Some x \<Rightarrow> [x])"
  by (auto simp: items_for_def map_filter_def split: option.splits)

lemma item_is_event: "item_for p r = Some x \<Longrightarrow> is_event x"
  by (auto simp: item_for_def)

lemma items_events: "list_all is_event (items_for p rs)"
  by (auto simp: items_for_def map_filter_def list_all_iff dest: item_is_event)

text \<open>A new record reaches the connections that are open, once each.\<close>

lemma accept_all_inv:
  "distinct cs \<Longrightarrow> \<forall>c \<in> set cs. c < length (fv_conns s) \<Longrightarrow> \<forall>d < length (fv_conns s). conn_inv (R d) (fv_conns s ! d) \<Longrightarrow>
   distinct (fv_subs s) \<Longrightarrow>
   (let s' = accept_all lm fsize obs r cs s in
     fv_seq s' = fv_seq s \<and> fv_ring s' = fv_ring s \<and> fv_closed s' = fv_closed s \<and> length (fv_conns s') = length (fv_conns s) \<and>
     distinct (fv_subs s') \<and> set (fv_subs s') \<subseteq> set (fv_subs s) \<and>
     (\<forall>d < length (fv_conns s). fc_scope (fv_conns s' ! d) = fc_scope (fv_conns s ! d) \<and> fc_ready (fv_conns s' ! d) = fc_ready (fv_conns s ! d) \<and>
       (\<not> fc_closed (fv_conns s' ! d) \<longrightarrow> \<not> fc_closed (fv_conns s ! d) \<and> (d \<in> set (fv_subs s) \<longrightarrow> d \<in> set (fv_subs s'))) \<and>
       (d \<in> set cs \<longrightarrow> conn_inv (R d @ items_for (fc_scope (fv_conns s ! d)) [r]) (fv_conns s' ! d)) \<and>
       (d \<notin> set cs \<longrightarrow> fv_conns s' ! d = fv_conns s ! d)))"
proof (induction cs arbitrary: s R)
  case Nil
  then show ?case by (simp add: Let_def)
next
  case (Cons c cs)
  let ?v = "fv_conns s ! c"
  let ?s1 = "case item_for (fc_scope ?v) r of None \<Rightarrow> s | Some x \<Rightarrow> fc_enqueue lm fsize (obs c) c x s"
  define R1 where "R1 = R(c := R c @ items_for (fc_scope ?v) [r])"
  have c: "c < length (fv_conns s)" "c \<notin> set cs" using Cons.prems by auto
  have iv: "conn_inv (R c) ?v" using Cons.prems c by blast
  have one: "touches c s ?s1 \<and> conn_inv (R1 c) (fv_conns ?s1 ! c)"
  proof (cases "item_for (fc_scope ?v) r")
    case None
    then show ?thesis using iv by (simp add: R1_def items_for_one)
  next
    case (Some x)
    have ev: "is_event x" using Some by (rule item_is_event)
    have R1: "R1 c = R c @ [x]" using Some by (simp add: R1_def items_for_one)
    show ?thesis
    proof (cases "fc_closed ?v")
      case True
      then show ?thesis using Some iv R1 by (simp add: fc_enqueue_def Let_def conn_inv_def)
    next
      case o: False
      note e = enqueue_cases [OF c(1) o, of lm fsize "obs c" x]
      from e(2) have "conn_inv (R c @ [x]) (fv_conns (fc_enqueue lm fsize (obs c) c x s) ! c)"
      proof (elim disjE conjE exE)
        assume "shut ?v (fv_conns (fc_enqueue lm fsize (obs c) c x s) ! c)"
        then show ?thesis using conn_inv_shut [OF iv o] by (auto simp: shut_def conn_inv_def)
      next
        assume q: "fv_conns (fc_enqueue lm fsize (obs c) c x s) ! c = ?v\<lparr>fc_queue := fc_queue ?v @ [x]\<rparr>"
        show ?thesis unfolding q using iv o ev by (auto simp: conn_inv_def sent_def)
      next
        fix b assume l: "fc_live ?v" "fc_queue ?v = []"
          and q: "fv_conns (fc_enqueue lm fsize (obs c) c x s) ! c = ?v\<lparr>fc_written := fc_written ?v @ [x], fc_blocked := b\<rparr>"
        show ?thesis unfolding q using iv o ev l by (auto simp: conn_inv_def sent_def)
      qed
      then show ?thesis using Some e(1) R1 by simp
    qed
  qed
  have len: "length (fv_conns ?s1) = length (fv_conns s)" and other: "d \<noteq> c \<Longrightarrow> fv_conns ?s1 ! d = fv_conns s ! d" for d
    using one by (auto simp: touches_def)
  have all: "\<forall>d < length (fv_conns ?s1). conn_inv (R1 d) (fv_conns ?s1 ! d)"
    using Cons.prems(3) one other len by (auto simp: R1_def)
  have dist: "distinct (fv_subs ?s1)" using one Cons.prems(4) by (auto simp: touches_def distinct_removeAll)
  have cs: "distinct cs" "\<forall>c \<in> set cs. c < length (fv_conns ?s1)" using Cons.prems(1,2) len by auto
  note IH = Cons.IH [OF cs all dist]
  show ?case unfolding Let_def
  proof (intro conjI allI impI)
    let ?s2 = "accept_all lm fsize obs r (c # cs) s"
    have s2: "?s2 = accept_all lm fsize obs r cs ?s1" by simp
    show "fv_seq ?s2 = fv_seq s" "fv_ring ?s2 = fv_ring s" "fv_closed ?s2 = fv_closed s" "length (fv_conns ?s2) = length (fv_conns s)"
      "distinct (fv_subs ?s2)" "set (fv_subs ?s2) \<subseteq> set (fv_subs s)"
      using IH one len by (auto simp: Let_def touches_def)
    fix d assume d: "d < length (fv_conns s)"
    have I: "fc_scope (fv_conns ?s2 ! d) = fc_scope (fv_conns ?s1 ! d)" "fc_ready (fv_conns ?s2 ! d) = fc_ready (fv_conns ?s1 ! d)"
      "\<not> fc_closed (fv_conns ?s2 ! d) \<Longrightarrow> \<not> fc_closed (fv_conns ?s1 ! d) \<and> (d \<in> set (fv_subs ?s1) \<longrightarrow> d \<in> set (fv_subs ?s2))"
      "d \<in> set cs \<Longrightarrow> conn_inv (R1 d @ items_for (fc_scope (fv_conns ?s1 ! d)) [r]) (fv_conns ?s2 ! d)"
      "d \<notin> set cs \<Longrightarrow> fv_conns ?s2 ! d = fv_conns ?s1 ! d"
      using IH d len unfolding s2 by (simp_all add: Let_def)
    have same: "fc_scope (fv_conns ?s1 ! d) = fc_scope (fv_conns s ! d)" "fc_ready (fv_conns ?s1 ! d) = fc_ready (fv_conns s ! d)"
      using one other by (cases "d = c"; simp add: touches_def)+
    show "fc_scope (fv_conns ?s2 ! d) = fc_scope (fv_conns s ! d)" "fc_ready (fv_conns ?s2 ! d) = fc_ready (fv_conns s ! d)"
      using I same by simp_all
    have cl: "d = c \<Longrightarrow> \<not> fc_closed (fv_conns ?s1 ! d) \<Longrightarrow> \<not> fc_closed ?v \<and> fv_subs ?s1 = fv_subs s"
      using one by (auto simp: touches_def)
    have sb: "d \<noteq> c \<Longrightarrow> d \<in> set (fv_subs s) \<Longrightarrow> d \<in> set (fv_subs ?s1)" using one by (auto simp: touches_def)
    show "\<not> fc_closed (fv_conns s ! d)" if "\<not> fc_closed (fv_conns ?s2 ! d)"
      using I(3) [OF that] cl other by (cases "d = c") auto
    show "d \<in> set (fv_subs ?s2)" if "\<not> fc_closed (fv_conns ?s2 ! d)" "d \<in> set (fv_subs s)"
      using I(3) [OF that(1)] cl sb that(2) by (cases "d = c") auto
    show "conn_inv (R d @ items_for (fc_scope (fv_conns s ! d)) [r]) (fv_conns ?s2 ! d)" if m: "d \<in> set (c # cs)"
    proof (cases "d = c")
      case True
      then show ?thesis using I(5) c(2) one by (simp add: R1_def del: accept_all.simps)
    next
      case False
      then show ?thesis using I(4) other [OF False] m by (simp add: R1_def del: accept_all.simps)
    qed
    show "fv_conns ?s2 ! d = fv_conns s ! d" if m: "d \<notin> set (c # cs)"
      using I(5) other [of d] m by (simp del: accept_all.simps)
  qed
qed

lemma trim_ring_suffix: "suffix (trim_ring lm fsize rs) rs"
  by (induction rs) (auto intro: suffix_ConsI)

lemma concerns_new:
  assumes "start_of v < fr_seq r"
  shows "concerns (H @ [r]) v = concerns H v @ items_for (fc_scope v) [r]"
  using assms by (simp add: concerns_def items_for_append)

text \<open>The reset that stands for a record too large to keep fits in the journal.\<close>

definition reset_fits :: "ev_limits \<Rightarrow> (frame \<Rightarrow> nat) \<Rightarrow> bool" where
  "reset_fits lm fsize \<longleftrightarrow> (\<forall>n. fsize (EventFrame ''reset'' n gap_payload) \<le> lim_bytes lm)"

lemma publish_ok:
  assumes ok: "fe_ok H s" and fits: "reset_fits lm fsize"
  shows "fe_ok (H @ snd (fe_publish lm fsize obs k p s)) (fst (fe_publish lm fsize obs k p s))"
proof (cases "fv_closed s \<or> k \<notin> event_kinds \<or> \<not> is_obj p")
  case True
  then show ?thesis using ok by (auto simp: fe_publish_def)
next
  case False
  define r where "r = new_record lm fsize (fv_seq s + 1) k p"
  have seqs: "map fr_seq H = [1..<length H + 1]" "fv_seq s = length H" and ring: "suffix (fv_ring s) H"
    using ok False by (auto simp: fe_ok_def)
  have rs: "fr_seq r = length H + 1" using seqs(2) by (simp add: r_def new_record_def Let_def)
  have size: "fsize (rec_frame r) \<le> lim_bytes lm"
    using fits by (auto simp: r_def new_record_def Let_def reset_fits_def rec_frame_def)
  define s1 where "s1 = trim_scopes lm fsize (s\<lparr>fv_seq := fv_seq s + 1, fv_ring := trim_ring lm fsize (fv_ring s @ [r])\<rparr>)"
  have pub: "fe_publish lm fsize obs k p s = (accept_all lm fsize obs r (fv_subs s1) s1, [r])"
    using False size by (simp add: fe_publish_def Let_def s1_def r_def)
  have s1: "fv_conns s1 = fv_conns s" "fv_subs s1 = fv_subs s" "fv_seq s1 = length H + 1" "fv_closed s1 = fv_closed s"
    "fv_ring s1 = trim_ring lm fsize (fv_ring s @ [r])" using seqs(2) by (simp_all add: s1_def)
  have pre: "distinct (fv_subs s1)" "\<forall>c \<in> set (fv_subs s1). c < length (fv_conns s1)"
    "\<forall>d < length (fv_conns s1). conn_inv (concerns H (fv_conns s ! d)) (fv_conns s1 ! d)" using ok by (auto simp: s1 fe_ok_def)
  note A = accept_all_inv [OF pre pre(1), of lm fsize obs r, unfolded Let_def]
  let ?s2 = "accept_all lm fsize obs r (fv_subs s1) s1"
  have start: "start_of (fv_conns s ! d) \<le> length H" if "d < length (fv_conns s)" for d using ok that by (simp add: fe_ok_def)
  have conn: "start_of (fv_conns ?s2 ! d) \<le> length H + 1 \<and> conn_inv (concerns (H @ [r]) (fv_conns ?s2 ! d)) (fv_conns ?s2 ! d)"
    if d: "d < length (fv_conns s)" for d
  proof -
    have same: "concerns (H @ [r]) (fv_conns ?s2 ! d) = concerns (H @ [r]) (fv_conns s ! d)" "start_of (fv_conns ?s2 ! d) = start_of (fv_conns s ! d)"
      using A d by (simp_all add: concerns_def s1)
    have new: "concerns (H @ [r]) (fv_conns s ! d) = concerns H (fv_conns s ! d) @ items_for (fc_scope (fv_conns s ! d)) [r]"
      by (rule concerns_new) (use start [OF d] rs in simp)
    show ?thesis
    proof (cases "d \<in> set (fv_subs s)")
      case True
      then have "conn_inv (concerns H (fv_conns s ! d) @ items_for (fc_scope (fv_conns s ! d)) [r]) (fv_conns ?s2 ! d)"
        using A d by (simp add: s1)
      then show ?thesis using same new start [OF d] by simp
    next
      case False
      then have "fv_conns ?s2 ! d = fv_conns s ! d" "fc_closed (fv_conns s ! d)" using A d ok by (auto simp: s1 fe_ok_def)
      moreover have "conn_inv (concerns H (fv_conns s ! d)) (fv_conns s ! d)" using ok d by (simp add: fe_ok_def)
      ultimately show ?thesis using new start [OF d] by (simp add: conn_inv_def)
    qed
  qed
  have "suffix (fv_ring ?s2) (H @ [r])"
    using A ring trim_ring_suffix [of lm fsize "fv_ring s @ [r]"] by (simp add: s1) (metis same_suffix_suffix suffix_order.trans append_Nil2 suffix_appendI)
  moreover have "map fr_seq (H @ [r]) = [1..<length (H @ [r]) + 1]" using seqs rs by simp
  moreover have "\<forall>c < length (fv_conns ?s2). \<not> fc_closed (fv_conns ?s2 ! c) \<longrightarrow> c \<in> set (fv_subs ?s2)"
    using A ok by (auto simp: s1 fe_ok_def)
  moreover have "\<forall>c \<in> set (fv_subs ?s2). c < length (fv_conns ?s2)" using A ok by (auto simp: s1 fe_ok_def)
  ultimately show ?thesis unfolding pub fe_ok_def using A conn by (simp add: s1)
qed

text \<open>The ring covers what a resumed cursor lacks.\<close>

lemma ring_covers:
  assumes seqs: "map fr_seq H = [1..<length H + 1]" and ring: "suffix rs H" and n: "(case rs of r # x \<Rightarrow> fr_seq r | [] \<Rightarrow> length H + 1) \<le> n + 1"
  shows "filter (\<lambda>r. n < fr_seq r) rs = filter (\<lambda>r. n < fr_seq r) H"
proof -
  obtain zs where H: "H = zs @ rs" using ring by (auto simp: suffix_def)
  have "sorted_wrt (<) (map fr_seq (zs @ rs))" using seqs by (simp del: upt_Suc add: H)
  moreover have "fr_seq x \<le> length H" if "x \<in> set zs" for x
  proof -
    have "fr_seq x \<in> set (map fr_seq H)" using that H by simp
    then show ?thesis unfolding seqs by auto
  qed
  ultimately have "fr_seq x \<le> n" if "x \<in> set zs" for x
    using n that by (cases rs) (fastforce simp: sorted_wrt_append)+
  then have "filter (\<lambda>r. n < fr_seq r) zs = []" by (fastforce simp: filter_empty_conv)
  then show ?thesis by (simp add: H)
qed

lemma resumed_cursor:
  assumes "cursor_reason s scope raw = None"
  obtains n where "parse_cursor raw = Some (fv_epoch s, fv_boot s, n)" "n \<le> fv_seq s"
    "(case fv_ring s of r # x \<Rightarrow> fr_seq r | [] \<Rightarrow> fv_seq s + 1) \<le> n + 1"
  using assms by (auto simp: cursor_reason_def not_less split: option.splits if_splits)

lemma attach_ok:
  assumes ok: "fe_ok H s"
  shows "fe_ok H (fe_attach scope raw s)"
proof (cases "fv_closed s")
  case True
  then show ?thesis using ok by (simp add: fe_attach_def)
next
  case False
  let ?s = "fe_attach scope raw s" and ?n = "length (fv_conns s)"
  let ?v = "fv_conns ?s ! ?n"
  have seqs: "map fr_seq H = [1..<length H + 1]" "fv_seq s = length H" "suffix (fv_ring s) H" using ok False by (auto simp: fe_ok_def)
  have old: "fv_conns ?s ! d = fv_conns s ! d" if "d < ?n" for d using False that by (simp add: fe_attach_def Let_def nth_append)
  have fields: "length (fv_conns ?s) = Suc ?n" "fv_subs ?s = fv_subs s @ [?n]" "fv_seq ?s = fv_seq s" "fv_ring ?s = fv_ring s" "fv_closed ?s = fv_closed s"
    using False by (simp_all add: fe_attach_def Let_def)
  have v: "start_of ?v \<le> length H \<and> conn_inv (concerns H ?v) ?v"
  proof (cases "raw \<noteq> [] \<and> cursor_reason s scope raw = None")
    case True
    then obtain n where n: "parse_cursor raw = Some (fv_epoch s, fv_boot s, n)" "n \<le> fv_seq s"
      "(case fv_ring s of r # x \<Rightarrow> fr_seq r | [] \<Rightarrow> fv_seq s + 1) \<le> n + 1" using resumed_cursor by blast
    have "filter (\<lambda>r. n < fr_seq r) (fv_ring s) = filter (\<lambda>r. n < fr_seq r) H"
      by (rule ring_covers [OF seqs(1,3)]) (use n(3) in \<open>simp only: seqs(2)\<close>)
    moreover have "filter is_event (items_for scope rs) = items_for scope rs" for rs
      using items_events [of scope rs] by (simp add: list_all_iff filter_id_conv)
    ultimately show ?thesis using False True n seqs(2)
      by (simp add: fe_attach_def Let_def nth_append concerns_def conn_inv_def)
  next
    case f: False
    have "fr_seq x \<le> length H" if "x \<in> set H" for x
    proof -
      have "fr_seq x \<in> set (map fr_seq H)" using that by simp
      then show ?thesis unfolding seqs(1) by auto
    qed
    then have "filter (\<lambda>r. length H < fr_seq r) H = []" by (fastforce simp: filter_empty_conv)
    then show ?thesis using False f seqs(2)
      by (auto simp: fe_attach_def Let_def nth_append concerns_def conn_inv_def items_for_Nil)
  qed
  have "d < Suc ?n \<Longrightarrow> d = ?n \<or> d < ?n" for d by auto
  then show ?thesis using ok v old fields unfolding fe_ok_def by (auto simp: less_Suc_eq)
qed

lemma cleanup_ok: "fe_ok H s \<Longrightarrow> c < length (fv_conns s) \<Longrightarrow> fe_ok H (fc_cleanup c s)"
proof (rule touches_ok [where c = c])
  assume a: "fe_ok H s" "c < length (fv_conns s)"
  then have "conn_inv (concerns H (fv_conns s ! c)) (fv_conns s ! c)" by (simp add: fe_ok_def)
  then show "conn_inv (concerns H (fv_conns s ! c)) (fv_conns (fc_cleanup c s) ! c)"
    using a(2) by (auto simp: conn_inv_def sent_def split: if_splits) (metis prefixI)
qed (simp_all add: cleanup_shut)

lemma fold_cleanup_ok: "fe_ok H s \<Longrightarrow> \<forall>c \<in> set cs. c < length (fv_conns s) \<Longrightarrow> fe_ok H (fold fc_cleanup cs s)"
  by (induction cs arbitrary: s) (simp_all add: cleanup_ok)

lemma fe_ok_conn: "fe_ok H s \<Longrightarrow> c < length (fv_conns s) \<Longrightarrow> conn_inv (concerns H (fv_conns s ! c)) (fv_conns s ! c)"
  by (simp add: fe_ok_def)

lemma one_conn_ok:
  assumes "fe_ok H s" "c < length (fv_conns s)" "touches c s s'" "shut (fv_conns s ! c) (fv_conns s' ! c)" "\<not> fc_closed (fv_conns s ! c)"
  shows "fe_ok H s'"
  by (rule touches_ok [OF assms(1,3,2) conn_inv_shut [OF fe_ok_conn [OF assms(1,2)] assms(5,4)]])

lemma beat_ok:
  assumes ok: "fe_ok H s" and c: "c < length (fv_conns s)" "\<not> fc_closed (fv_conns s ! c)" "fc_live (fv_conns s ! c)" "fc_queue (fv_conns s ! c) = []"
    "\<not> fc_blocked (fv_conns s ! c)"
  shows "fe_ok H (fc_enqueue lm fsize ob c KeepAlive s)"
proof -
  let ?v = "fv_conns s ! c"
  have iv: "conn_inv (concerns H ?v) ?v" using ok c by (simp add: fe_ok_def)
  note e = enqueue_cases [OF c(1,2), of lm fsize ob KeepAlive]
  from e(2) show ?thesis
  proof (elim disjE conjE exE)
    assume "shut ?v (fv_conns (fc_enqueue lm fsize ob c KeepAlive s) ! c)"
    then show ?thesis using one_conn_ok [OF ok c(1) e(1)] c(2) by blast
  next
    assume q: "fv_conns (fc_enqueue lm fsize ob c KeepAlive s) ! c = ?v\<lparr>fc_queue := fc_queue ?v @ [KeepAlive]\<rparr>"
    show ?thesis by (rule touches_ok [OF ok e(1) c(1)]) (use iv c q in \<open>auto simp: conn_inv_def sent_def\<close>)
  next
    fix b assume q: "fv_conns (fc_enqueue lm fsize ob c KeepAlive s) ! c = ?v\<lparr>fc_written := fc_written ?v @ [KeepAlive], fc_blocked := b\<rparr>"
    show ?thesis by (rule touches_ok [OF ok e(1) c(1)]) (use iv c q in \<open>auto simp: conn_inv_def sent_def\<close>)
  qed
qed

lemma step_ok:
  assumes ok: "fe_ok H s" and fits: "reset_fits lm fsize"
  shows "fe_ok (H @ snd (fe_step lm fsize s e)) (fst (fe_step lm fsize s e))"
proof (cases e)
  case (FePublish k p obs)
  then show ?thesis using publish_ok [OF ok fits] by simp
next
  case (FeAttach scope raw)
  then show ?thesis using attach_ok [OF ok] by simp
next
  case (FeAttachGoes c robs qobs)
  have "fe_ok H (fe_attach_goes lm fsize robs qobs c s)" if c: "c < length (fv_conns s)"
    using attach_goes_inv [OF c fe_ok_conn [OF ok c]] by (intro touches_ok [OF ok _ c]) blast+
  then show ?thesis using FeAttachGoes ok by simp
next
  case (FeDrain c obs)
  have "fe_ok H (fc_drain lm fsize obs c s)" if c: "c < length (fv_conns s)" "\<not> fc_closed (fv_conns s ! c)"
    by (rule touches_ok [OF ok drain_inv(1) [OF c fe_ok_conn [OF ok c(1)]] c(1) drain_inv(2) [OF c fe_ok_conn [OF ok c(1)]]])
  then show ?thesis using FeDrain ok by simp
next
  case (FeStalled c len)
  have "fe_ok H (fc_overflow lm fsize len c s)" if c: "c < length (fv_conns s)"
  proof (cases "fc_closed (fv_conns s ! c)")
    case True
    then show ?thesis using ok by (simp add: fc_overflow_def Let_def)
  next
    case False
    then show ?thesis using one_conn_ok [OF ok c] overflow_shut [OF c False] by blast
  qed
  then show ?thesis using FeStalled ok by simp
next
  case (FeBeat c ob)
  then show ?thesis using beat_ok [OF ok, of c] ok by simp
next
  case (FeGone c)
  then show ?thesis using cleanup_ok [OF ok] ok by simp
next
  case FeClose
  have "fe_ok H (fold fc_cleanup (fv_subs s) s)" by (rule fold_cleanup_ok [OF ok]) (use ok in \<open>simp add: fe_ok_def\<close>)
  then have "fe_ok H ((fold fc_cleanup (fv_subs s) s)\<lparr>fv_closed := True, fv_ring := [], fv_issued := [], fv_resets := []\<rparr>)"
    by (simp add: fe_ok_def)
  then show ?thesis using FeClose ok by (simp add: fe_close_def)
qed

lemma run_ok:
  "fe_ok H s \<Longrightarrow> reset_fits lm fsize \<Longrightarrow> fe_ok (H @ snd (fe_run lm fsize s es)) (fst (fe_run lm fsize s es))"
proof (induction es arbitrary: H s)
  case (Cons e es)
  show ?case using Cons.IH [OF step_ok [OF Cons.prems] Cons.prems(2)] by (simp add: split_beta)
qed simp

lemma new_ok: "fe_ok [] (new_events epoch boot)"
  by (simp add: fe_ok_def new_events_def)

subsection \<open>A connection keeps its scope and its start\<close>

definition keeps :: "file_events \<Rightarrow> file_events \<Rightarrow> bool" where
  "keeps s s' \<longleftrightarrow> length (fv_conns s) \<le> length (fv_conns s') \<and>
     (\<forall>d < length (fv_conns s). fc_scope (fv_conns s' ! d) = fc_scope (fv_conns s ! d) \<and> fc_ready (fv_conns s' ! d) = fc_ready (fv_conns s ! d))"

lemma keeps_refl [simp]: "keeps s s"
  by (simp add: keeps_def)

lemma keeps_trans: "keeps s s' \<Longrightarrow> keeps s' s'' \<Longrightarrow> keeps s s''"
  by (simp add: keeps_def)

lemma touches_keeps: "touches c s s' \<Longrightarrow> keeps s s'"
  unfolding keeps_def touches_def by (metis order_refl)

lemma fold_cleanup_keeps: "\<forall>c \<in> set cs. c < length (fv_conns s) \<Longrightarrow> keeps s (fold fc_cleanup cs s)"
proof (induction cs arbitrary: s)
  case (Cons c cs)
  have "keeps s (fc_cleanup c s)" using cleanup_shut [of c s] Cons.prems touches_keeps by auto
  then show ?case using Cons.IH [of "fc_cleanup c s"] Cons.prems keeps_trans by auto
qed simp

lemma publish_keeps:
  assumes ok: "fe_ok H s"
  shows "keeps s (fst (fe_publish lm fsize obs k p s))"
proof (cases "fv_closed s \<or> k \<notin> event_kinds \<or> \<not> is_obj p")
  case True
  then show ?thesis by (auto simp: fe_publish_def)
next
  case False
  define r where "r = new_record lm fsize (fv_seq s + 1) k p"
  define s1 where "s1 = trim_scopes lm fsize (s\<lparr>fv_seq := fv_seq s + 1, fv_ring := trim_ring lm fsize
    (if fsize (rec_frame r) \<le> lim_bytes lm then fv_ring s @ [r] else fv_ring s)\<rparr>)"
  have pub: "fst (fe_publish lm fsize obs k p s) = accept_all lm fsize obs r (fv_subs s1) s1"
    using False by (simp add: fe_publish_def Let_def s1_def r_def)
  have s1: "fv_conns s1 = fv_conns s" "fv_subs s1 = fv_subs s" by (simp_all add: s1_def)
  have pre: "distinct (fv_subs s1)" "\<forall>c \<in> set (fv_subs s1). c < length (fv_conns s1)"
    "\<forall>d < length (fv_conns s1). conn_inv (concerns H (fv_conns s ! d)) (fv_conns s1 ! d)" using ok by (auto simp: s1 fe_ok_def)
  show ?thesis using accept_all_inv [OF pre pre(1), of lm fsize obs r] unfolding pub by (simp add: keeps_def Let_def s1)
qed

lemma step_keeps:
  assumes ok: "fe_ok H s"
  shows "keeps s (fst (fe_step lm fsize s e))"
proof (cases e)
  case (FePublish k p obs)
  then show ?thesis using publish_keeps [OF ok] by simp
next
  case (FeAttach scope raw)
  then show ?thesis by (simp add: fe_attach_def Let_def keeps_def nth_append)
next
  case (FeAttachGoes c robs qobs)
  then show ?thesis using attach_goes_inv fe_ok_conn [OF ok] touches_keeps by fastforce
next
  case (FeDrain c obs)
  then show ?thesis using drain_inv(1) fe_ok_conn [OF ok] touches_keeps by fastforce
next
  case (FeStalled c len)
  have "keeps s (fc_overflow lm fsize len c s)" if c: "c < length (fv_conns s)"
  proof (cases "fc_closed (fv_conns s ! c)")
    case True
    then show ?thesis by (simp add: fc_overflow_def Let_def)
  next
    case False
    then show ?thesis using overflow_shut [OF c False] touches_keeps by blast
  qed
  then show ?thesis using FeStalled by simp
next
  case (FeBeat c ob)
  then show ?thesis using enqueue_cases(1) touches_keeps by fastforce
next
  case (FeGone c)
  then show ?thesis using cleanup_shut touches_keeps by fastforce
next
  case FeClose
  have "keeps s (fold fc_cleanup (fv_subs s) s)" by (rule fold_cleanup_keeps) (use ok in \<open>simp add: fe_ok_def\<close>)
  then show ?thesis using FeClose by (simp add: fe_close_def keeps_def)
qed

lemma run_keeps: "fe_ok H s \<Longrightarrow> reset_fits lm fsize \<Longrightarrow> keeps s (fst (fe_run lm fsize s es))"
proof (induction es arbitrary: H s)
  case (Cons e es)
  show ?case using keeps_trans [OF step_keeps [OF Cons.prems(1)] Cons.IH [OF step_ok [OF Cons.prems] Cons.prems(2)]]
    by (simp add: split_beta)
qed simp

subsection \<open>The properties\<close>

text \<open>Claim C32. A resumed stream misses nothing. When the journal accepts a cursor, the connection is sent, in order and once each,
  an initial part of everything published after the cursor that concerns its path, whatever is published, buffered, refused
  or closed meanwhile; and as long as it is open and nothing is queued for it, it has been sent all of it. A cursor that
  the journal could not continue from (another boot, a gap, an overflow) is not accepted. The byte limit of the journal
  must hold the reset frame that stands for a record too large to keep (\<open>reset_fits\<close>).\<close>

theorem resumed_stream_complete:
  assumes fits: "reset_fits lm fsize" and run1: "fe_run lm fsize (new_events epoch boot) es1 = (s1, H1)" and "\<not> fv_closed s1"
    and cursor: "raw \<noteq> []" "cursor_reason s1 scope raw = None" and run2: "fe_run lm fsize (fe_attach scope raw s1) es2 = (s2, H2)"
    and v: "v = fv_conns s2 ! length (fv_conns s1)"
  shows "\<exists>n. parse_cursor raw = Some (fv_epoch s1, fv_boot s1, n) \<and>
    (let due = items_for scope (filter (\<lambda>r. n < fr_seq r) (H1 @ H2)) in
      prefix (sent v) due \<and> (\<not> fc_closed v \<and> fc_live v \<and> fc_queue v = [] \<longrightarrow> sent v = due))"
proof -
  let ?s = "fe_attach scope raw s1" and ?c = "length (fv_conns s1)"
  have ok1: "fe_ok H1 s1" using run_ok [OF new_ok fits, of epoch boot es1] run1 by simp
  have ok: "fe_ok H1 ?s" by (rule attach_ok [OF ok1])
  have ok2: "fe_ok (H1 @ H2) s2" using run_ok [OF ok fits, of es2] run2 by simp
  have k: "keeps ?s s2" using run_keeps [OF ok fits, of es2] run2 by simp
  obtain n where n: "parse_cursor raw = Some (fv_epoch s1, fv_boot s1, n)" using resumed_cursor [OF cursor(2)] by blast
  have c: "?c < length (fv_conns ?s)" "fc_scope (fv_conns ?s ! ?c) = scope" "start_of (fv_conns ?s ! ?c) = n"
    using assms(3) cursor n by (simp_all add: fe_attach_def Let_def)
  have v2: "fc_scope v = scope" "start_of v = n" "?c < length (fv_conns s2)"
    using k c unfolding v keeps_def by auto
  have "conn_inv (concerns (H1 @ H2) v) v" using fe_ok_conn [OF ok2 v2(3)] v by simp
  moreover have "concerns (H1 @ H2) v = items_for scope (filter (\<lambda>r. n < fr_seq r) (H1 @ H2))" by (simp only: concerns_def v2)
  ultimately have "prefix (sent v) (items_for scope (filter (\<lambda>r. n < fr_seq r) (H1 @ H2)))"
    "\<not> fc_closed v \<and> fc_live v \<and> fc_queue v = [] \<longrightarrow> sent v = items_for scope (filter (\<lambda>r. n < fr_seq r) (H1 @ H2))"
    by (auto simp: conn_inv_def sent_def split: if_splits) (metis prefixI)
  then show ?thesis using n unfolding Let_def by blast
qed

subsection \<open>Memory\<close>

definition ring_small :: "ev_limits \<Rightarrow> (frame \<Rightarrow> nat) \<Rightarrow> file_events \<Rightarrow> bool" where
  "ring_small lm fsize s \<longleftrightarrow> length (fv_ring s) \<le> lim_count lm \<and> total (fsize \<circ> rec_frame) (fv_ring s) \<le> lim_bytes lm"

definition memory_small :: "ev_limits \<Rightarrow> (frame \<Rightarrow> nat) \<Rightarrow> file_events \<Rightarrow> bool" where
  "memory_small lm fsize s \<longleftrightarrow> ring_small lm fsize s \<and> length (fv_issued s) \<le> lim_count lm + 32 \<and> length (fv_resets s) \<le> 32 \<and>
     total (fsize \<circ> rec_frame) (fv_ring s) + total issued_cost (fv_issued s) + total reset_cost (fv_resets s) \<le> lim_bytes lm"

definition queues_small :: "ev_limits \<Rightarrow> (frame \<Rightarrow> nat) \<Rightarrow> file_events \<Rightarrow> bool" where
  "queues_small lm fsize s \<longleftrightarrow> (\<forall>v \<in> set (fv_conns s). fc_held fsize v \<le> lim_sub lm)"

definition all_small :: "ev_limits \<Rightarrow> (frame \<Rightarrow> nat) \<Rightarrow> file_events \<Rightarrow> bool" where
  "all_small lm fsize s \<longleftrightarrow> memory_small lm fsize s \<and> queues_small lm fsize s"

lemma total_simps [simp]: "total f [] = 0" "total f (x # xs) = f x + total f xs" "total f (xs @ ys) = total f xs + total f ys"
  by (simp_all add: total_def)

lemma trim_ring_small: "length (trim_ring lm fsize rs) \<le> lim_count lm \<and> total (fsize \<circ> rec_frame) (trim_ring lm fsize rs) \<le> lim_bytes lm"
  by (induction rs) (auto simp: comp_def)

lemma trim_issued_small:
  "trim_issued lm b xs = [] \<or> (length (trim_issued lm b xs) \<le> lim_count lm + 32 \<and> b + total issued_cost (trim_issued lm b xs) \<le> lim_bytes lm)"
  by (induction xs) auto

lemma trim_resets_small:
  "snd (trim_resets lm b fl xs) = [] \<or> (length (snd (trim_resets lm b fl xs)) \<le> 32 \<and> b + total reset_cost (snd (trim_resets lm b fl xs)) \<le> lim_bytes lm)"
  by (induction xs arbitrary: fl) auto

lemma trim_scopes_small:
  assumes "ring_small lm fsize s"
  shows "memory_small lm fsize (trim_scopes lm fsize s)"
proof -
  let ?rb = "total (fsize \<circ> rec_frame) (fv_ring s)"
  let ?is = "trim_issued lm (?rb + total reset_cost (fv_resets s)) (fv_issued s)"
  let ?rs = "trim_resets lm (?rb + total issued_cost ?is) (fv_floor s) (fv_resets s)"
  have "?is = [] \<or> (length ?is \<le> lim_count lm + 32 \<and> ?rb + total reset_cost (fv_resets s) + total issued_cost ?is \<le> lim_bytes lm)"
    by (rule trim_issued_small)
  moreover have "snd ?rs = [] \<or> (length (snd ?rs) \<le> 32 \<and> ?rb + total issued_cost ?is + total reset_cost (snd ?rs) \<le> lim_bytes lm)"
    by (rule trim_resets_small)
  ultimately show ?thesis using assms by (auto simp: memory_small_def ring_small_def trim_scopes_def Let_def)
qed

lemma trim_scopes_all: "ring_small lm fsize s \<Longrightarrow> queues_small lm fsize s \<Longrightarrow> all_small lm fsize (trim_scopes lm fsize s)"
  using trim_scopes_small [of lm fsize s] by (simp add: all_small_def queues_small_def)

lemma small_parts: "all_small lm fsize s \<Longrightarrow> ring_small lm fsize s \<and> queues_small lm fsize s"
  by (simp add: all_small_def memory_small_def)

lemma small_fields:
  "ring_small lm fsize (s\<lparr>fv_issued := is\<rparr>) = ring_small lm fsize s" "ring_small lm fsize (s\<lparr>fv_resets := rs\<rparr>) = ring_small lm fsize s"
  "queues_small lm fsize (s\<lparr>fv_issued := is\<rparr>) = queues_small lm fsize s" "queues_small lm fsize (s\<lparr>fv_resets := rs\<rparr>) = queues_small lm fsize s"
  by (simp_all add: ring_small_def queues_small_def)

lemma small_scopes:
  "all_small lm fsize s \<Longrightarrow> all_small lm fsize (remember_scope lm fsize n p s)"
  "all_small lm fsize s \<Longrightarrow> all_small lm fsize (mark_overflow lm fsize p s)"
  by (simp_all only: remember_scope_def mark_overflow_def Let_def) (auto intro!: trim_scopes_all simp: small_fields dest: small_parts)

lemma small_mod:
  assumes "all_small lm fsize s" "c < length (fv_conns s) \<Longrightarrow> fc_held fsize (f (fv_conns s ! c)) \<le> lim_sub lm"
  shows "all_small lm fsize (mod_fc c f s)"
proof -
  have "fc_held fsize v \<le> lim_sub lm" if "v \<in> set ((fv_conns s)[c := f (fv_conns s ! c)])" for v
    using that assms set_update_subset_insert [of "fv_conns s" c "f (fv_conns s ! c)"]
    by (cases "c < length (fv_conns s)") (auto simp: all_small_def queues_small_def not_less list_update_beyond)
  then show ?thesis using assms(1) by (simp add: all_small_def queues_small_def memory_small_def ring_small_def mod_fc_def)
qed

lemma small_conn: "all_small lm fsize s \<Longrightarrow> c < length (fv_conns s) \<Longrightarrow> fc_held fsize (fv_conns s ! c) \<le> lim_sub lm"
  by (simp add: all_small_def queues_small_def)

lemma small_subs: "all_small lm fsize (s\<lparr>fv_subs := x\<rparr>) = all_small lm fsize s"
  by (simp add: all_small_def queues_small_def memory_small_def ring_small_def)

lemma small_cleanup: "all_small lm fsize s \<Longrightarrow> all_small lm fsize (fc_cleanup c s)"
  unfolding fc_cleanup_def small_subs by (rule small_mod) (simp_all add: fc_held_def)

lemma small_overflow: "all_small lm fsize s \<Longrightarrow> all_small lm fsize (fc_overflow lm fsize len c s)"
  by (auto simp: fc_overflow_def Let_def fc_held_def intro!: small_mod small_cleanup small_scopes)

lemma small_write:
  assumes "all_small lm fsize s"
  shows "all_small lm fsize (fc_write lm fsize ob c x s)"
proof -
  have "all_small lm fsize (mod_fc c (\<lambda>v. v\<lparr>fc_written := fc_written v @ [x], fc_blocked := b v\<rparr>) s)" for b
    by (rule small_mod [OF assms]) (use small_conn [OF assms] in \<open>simp add: fc_held_def\<close>)
  then show ?thesis using assms small_overflow small_cleanup small_scopes
    by (auto simp: fc_write_def Let_def split: option.splits)
qed

lemma small_enqueue: "all_small lm fsize s \<Longrightarrow> all_small lm fsize (fc_enqueue lm fsize ob c x s)"
  by (auto simp: fc_enqueue_def Let_def fc_held_def intro!: small_overflow small_write small_mod)

lemma small_deliver: "all_small lm fsize s \<Longrightarrow> all_small lm fsize (deliver_replay lm fsize c ob x s)"
  by (auto simp: deliver_replay_def Let_def fc_held_def intro!: small_overflow small_write small_mod)

lemma small_deliver_all: "all_small lm fsize s \<Longrightarrow> all_small lm fsize (deliver_all lm fsize obs c xs s)"
  by (induction xs arbitrary: s) (simp_all add: small_deliver)

lemma small_drain_loop: "all_small lm fsize s \<Longrightarrow> all_small lm fsize (drain_loop lm fsize obs c n s)"
proof (induction n arbitrary: s)
  case (Suc n)
  have "all_small lm fsize (mod_fc c (\<lambda>v. v\<lparr>fc_queue := xs\<rparr>) s)" if "fc_queue (fv_conns s ! c) = x # xs" for x xs
    by (rule small_mod [OF Suc.prems]) (use small_conn [OF Suc.prems, of c] that in \<open>simp add: fc_held_def\<close>)
  then show ?case using Suc small_write by (auto simp: Let_def split: list.splits)
qed simp

lemma small_drain: "all_small lm fsize s \<Longrightarrow> all_small lm fsize (fc_drain lm fsize obs c s)"
proof -
  assume s: "all_small lm fsize s"
  have "all_small lm fsize (mod_fc c (\<lambda>v. v\<lparr>fc_blocked := False\<rparr>) s)"
    by (rule small_mod [OF s]) (use small_conn [OF s, of c] in \<open>simp add: fc_held_def\<close>)
  then show ?thesis using small_drain_loop by (auto simp: fc_drain_def Let_def)
qed

lemma small_goes:
  assumes s: "all_small lm fsize s"
  shows "all_small lm fsize (fe_attach_goes lm fsize robs qobs c s)"
proof -
  let ?s1 = "deliver_all lm fsize robs c (fc_ready (fv_conns s ! c) # fc_replay (fv_conns s ! c)) s"
  have s1: "all_small lm fsize ?s1" by (rule small_deliver_all [OF s])
  have "all_small lm fsize (mod_fc c (\<lambda>w. w\<lparr>fc_queue := fc_rqueue w @ fc_queue w, fc_rqueue := [], fc_replay := [], fc_live := True\<rparr>) ?s1)"
    by (rule small_mod [OF s1]) (use small_conn [OF s1, of c] in \<open>simp add: fc_held_def del: deliver_all.simps\<close>)
  then show ?thesis using s s1 small_drain by (auto simp: fe_attach_goes_def Let_def simp del: deliver_all.simps)
qed

lemma small_accept_all: "all_small lm fsize s \<Longrightarrow> all_small lm fsize (accept_all lm fsize obs r cs s)"
  by (induction cs arbitrary: s) (auto simp: small_enqueue split: option.splits)

lemma small_step:
  assumes s: "all_small lm fsize s"
  shows "all_small lm fsize (fst (fe_step lm fsize s e))"
proof (cases e)
  case (FePublish k p obs)
  have q: "queues_small lm fsize s" using s by (simp add: all_small_def)
  have "all_small lm fsize (trim_scopes lm fsize (s\<lparr>fv_seq := n, fv_ring := trim_ring lm fsize rs\<rparr>))" for n rs
    using trim_scopes_small [of lm fsize "s\<lparr>fv_seq := n, fv_ring := trim_ring lm fsize rs\<rparr>"] trim_ring_small q
    by (simp add: all_small_def ring_small_def queues_small_def)
  then show ?thesis using FePublish s by (auto simp: fe_publish_def Let_def intro!: small_accept_all)
next
  case (FeAttach scope raw)
  then show ?thesis using s
    by (auto simp: fe_attach_def Let_def all_small_def queues_small_def memory_small_def ring_small_def fc_held_def)
next
  case FeClose
  have "all_small lm fsize (fold fc_cleanup cs t)" if "all_small lm fsize t" for cs t
    using that by (induction cs arbitrary: t) (simp_all add: small_cleanup)
  from this [OF s, of "fv_subs s"] show ?thesis using FeClose s
    by (auto simp: fe_close_def all_small_def queues_small_def memory_small_def ring_small_def)
qed (use s small_goes small_drain small_overflow small_enqueue small_cleanup in auto)

interpretation journal_memory: run_invariant "\<lambda>s e. fst (fe_step lm fsize s e)" "all_small lm fsize" for lm fsize
  by unfold_locales (rule small_step)

lemma fe_run_fst: "fst (fe_run lm fsize s es) = foldl (\<lambda>s e. fst (fe_step lm fsize s e)) s es"
  by (induction es arbitrary: s) (simp_all add: split_beta)

text \<open>Claim C33. The journal's memory is bounded however many browsers connect, stall and disappear: the kept records, the scopes
  of the issued ids and the overflow marks take at most \<open>eventBytes\<close> together (and each its own count), and no connection
  has more than \<open>subscriberBytes\<close> waiting for it.\<close>

theorem journal_bounded:
  "all_small lm fsize (fst (fe_run lm fsize (new_events epoch boot) es))"
  unfolding fe_run_fst
  by (rule journal_memory.run_inv) (simp add: all_small_def memory_small_def ring_small_def queues_small_def new_events_def)

text \<open>A browser watches \<open>a\<close>, sees one change, goes away, misses two and comes back with its last id.\<close>

definition small_limits :: ev_limits where
  "small_limits = \<lparr>lim_count = 4, lim_bytes = 500, lim_sub = 100\<rparr>"

definition write_ok :: "nat \<Rightarrow> wobs" where
  "write_ok i = \<lparr>wo_len = 0, wo_result = WriteOk\<rparr>"

definition change_at :: "string \<Rightarrow> js" where
  "change_at p = JObj [(''path'', JStr p)]"

definition watch_events :: "fe_event list" where
  "watch_events = [FeAttach ''a'' [], FeAttachGoes 0 write_ok write_ok, FePublish ''invalidation'' (change_at ''a/x'') write_ok, FeGone 0,
     FePublish ''invalidation'' (change_at ''b/y'') write_ok, FePublish ''invalidation'' (change_at ''a/z'') write_ok]"

definition watch_state :: file_events where
  "watch_state = fst (fe_run small_limits (\<lambda>_. 10) (new_events ''e'' ''b'') watch_events)"

lemma watch_cursor: "cursor_reason watch_state ''a'' ''e.b.1'' = None" "\<not> fv_closed watch_state" "length (fv_conns watch_state) = 1"
  by code_simp+

lemma watch_again:
  "let v = fv_conns (fst (fe_run small_limits (\<lambda>_. 10) (fe_attach ''a'' ''e.b.1'' watch_state) [FeAttachGoes 1 write_ok write_ok])) ! 1
   in \<not> fc_closed v \<and> fc_live v \<and> fc_queue v = []"
  by code_simp

lemma watch_fits: "reset_fits small_limits (\<lambda>_. 10)"
  by (simp add: reset_fits_def small_limits_def)

lemma watch_published:
  "snd (fe_run small_limits (\<lambda>_. 10) (new_events ''e'' ''b'') watch_events) =
    [\<lparr>fr_kind = ''invalidation'', fr_seq = 1, fr_payload = change_at ''a/x''\<rparr>, \<lparr>fr_kind = ''invalidation'', fr_seq = 2, fr_payload = change_at ''b/y''\<rparr>,
     \<lparr>fr_kind = ''invalidation'', fr_seq = 3, fr_payload = change_at ''a/z''\<rparr>]"
  by code_simp

lemma resumed_stream_complete_witness:
  "sent (fv_conns (fst (fe_run small_limits (\<lambda>_. 10) (fe_attach ''a'' ''e.b.1'' watch_state) [FeAttachGoes 1 write_ok write_ok])) ! 1) =
    [EventFrame ''invalidation'' 3 (change_at ''a/z'')]"
proof -
  let ?r = "fe_run small_limits (\<lambda>_. 10) (fe_attach ''a'' ''e.b.1'' watch_state) [FeAttachGoes 1 write_ok write_ok]"
  have run1: "fe_run small_limits (\<lambda>_. 10) (new_events ''e'' ''b'') watch_events =
      (watch_state, snd (fe_run small_limits (\<lambda>_. 10) (new_events ''e'' ''b'') watch_events))" by (simp add: watch_state_def)
  have p: "parse_cursor ''e.b.1'' = Some (''e'', ''b'', 1)" by code_simp
  have none: "snd ?r = []" by (simp add: split_beta)
  have due: "items_for ''a'' (filter (\<lambda>r. 1 < fr_seq r) (snd (fe_run small_limits (\<lambda>_. 10) (new_events ''e'' ''b'') watch_events) @ [])) =
      [EventFrame ''invalidation'' 3 (change_at ''a/z'')]" unfolding watch_published by code_simp
  obtain n where n: "parse_cursor ''e.b.1'' = Some (fv_epoch watch_state, fv_boot watch_state, n)"
    "let due = items_for ''a'' (filter (\<lambda>r. n < fr_seq r) (snd (fe_run small_limits (\<lambda>_. 10) (new_events ''e'' ''b'') watch_events) @ snd ?r)) in
      prefix (sent (fv_conns (fst ?r) ! 1)) due \<and>
      (\<not> fc_closed (fv_conns (fst ?r) ! 1) \<and> fc_live (fv_conns (fst ?r) ! 1) \<and> fc_queue (fv_conns (fst ?r) ! 1) = [] \<longrightarrow>
        sent (fv_conns (fst ?r) ! 1) = due)"
    using resumed_stream_complete [OF watch_fits run1 watch_cursor(2) _ watch_cursor(1) prod.collapse [symmetric], of _ "[FeAttachGoes 1 write_ok write_ok]"]
    unfolding watch_cursor(3) by blast
  have "n = 1" using n(1) p by simp
  then show ?thesis using n(2) watch_again due none by (simp add: Let_def del: fe_run.simps)
qed

end
