(* ===== verification/Processing_Ops.thy ===== *)
theory Processing_Ops
  imports Js_Value
begin

text \<open>
  processing-operations.js: what an agent may ask about a finished processing job. \<open>summarizeResult\<close>
  pages the inventory of a sealed manifest under a byte budget; \<open>readProductText\<close> reads a text product by
  byte ranges from the owning service.

  A manifest and a job are parsed JSON objects (\<open>js\<close>). The byte length of \<open>JSON.stringify\<close> of a value is the
  parameter \<open>bytes_of\<close>; the service behind \<open>download\<close> is a function from the range header to its response.
  Bytes are natural numbers below 256, text is the list of its code points.
\<close>

subsection \<open>Errors and integer parameters\<close>

datatype proc_error =
    Invalid_Request string
  | Summary_Quality_Too_Large
  | Product_Integrity
  | Not_Text_Product
  | Offset_Beyond_Product
  | Invalid_Text_Range
  | Type_Error
  | Download_Failed string

abbreviation (input) max_safe :: int where
  "max_safe \<equiv> 9007199254740991"

text \<open>\<open>Number.isSafeInteger\<close>, and the integer it accepts.\<close>

fun safe_int :: "js \<Rightarrow> int option" where
  "safe_int (JNum n) =
     (if n = of_int \<lfloor>n\<rfloor> \<and> - max_safe \<le> \<lfloor>n\<rfloor> \<and> \<lfloor>n\<rfloor> \<le> max_safe then Some \<lfloor>n\<rfloor> else None)"
| "safe_int _ = None"

definition int_param :: "js \<Rightarrow> int \<Rightarrow> int \<Rightarrow> int \<Rightarrow> string \<Rightarrow> proc_error + int" where
  "int_param v fallback lo hi name =
     (case (if nullish v then Some fallback else safe_int v) of
        None \<Rightarrow> Inl (Invalid_Request name)
      | Some n \<Rightarrow> if n < lo \<or> hi < n then Inl (Invalid_Request name) else Inr n)"

text \<open>\<open>a || b\<close>.\<close>

definition js_or :: "js \<Rightarrow> js \<Rightarrow> js" where
  "js_or a b = (if truthy a then a else b)"

subsection \<open>processingEvent\<close>

text \<open>The log record of an event is built from an allowlist: names, then the shape of their values.\<close>

definition PROCESSING_EVENTS :: "string list" where
  "PROCESSING_EVENTS = [''request.prepared'', ''dispatch.unknown'', ''request.accepted'', ''wait.expired'',
     ''job.transition'', ''export.verified'', ''source.prepared'', ''cancellation.pending'', ''cancellation.settled'']"

definition EVENT_IDS :: "string list" where
  "EVENT_IDS = [''workspaceId'', ''workspaceEpoch'', ''rootId'', ''sessionId'', ''requestId'', ''jobId'', ''exportId'',
     ''invocationId'', ''waitId'', ''origin'', ''operationOutcome'', ''jobOutcome'']"

definition EVENT_DIGESTS :: "string list" where
  "EVENT_DIGESTS = [''sourceSha256'', ''profileDigest'', ''destinationSha256'', ''productSha256'']"

definition id_shape :: "string \<Rightarrow> bool" where
  "id_shape s \<longleftrightarrow> 1 \<le> length s \<and> length s \<le> 256
     \<and> list_all (\<lambda>c. is_alnum c \<or> c \<in> {CHR ''_'', CHR ''.'', CHR '':'', CHR ''-''}) s"

definition digest_shape :: "string \<Rightarrow> bool" where
  "digest_shape s \<longleftrightarrow> length s = 64 \<and> list_all is_hex s"

text \<open>The fields of \<open>keys\<close> whose value is a string of the given shape.\<close>

definition shaped_fields :: "(string \<Rightarrow> bool) \<Rightarrow> js \<Rightarrow> string list \<Rightarrow> (string \<times> js) list" where
  "shaped_fields shape values ks = concat (map (\<lambda>k. case js_field values k of
      JStr s \<Rightarrow> if shape s then [(k, JStr s)] else [] | _ \<Rightarrow> []) ks)"

definition bytes_field :: "js \<Rightarrow> (string \<times> js) list" where
  "bytes_field values = (case safe_int (js_field values ''bytes'') of
      Some n \<Rightarrow> if 0 \<le> n then [(''bytes'', JNum (of_int n))] else [] | None \<Rightarrow> [])"

text \<open>The line that is logged, if any.\<close>

definition processing_event :: "string \<Rightarrow> js \<Rightarrow> (string \<times> (string \<times> js) list) option" where
  "processing_event event values =
     (if event \<notin> set PROCESSING_EVENTS then None
      else Some (''processing.'' @ event,
             shaped_fields id_shape values EVENT_IDS @ shaped_fields digest_shape values EVENT_DIGESTS
             @ bytes_field values))"

text \<open>Whatever a caller puts into the values, a string that is logged is a short identifier under a listed name.\<close>

lemma event_strings_allowed:
  assumes "processing_event event values = Some (line, fs)" "(k, JStr s) \<in> set fs"
  shows "k \<in> set EVENT_IDS \<and> id_shape s \<or> k \<in> set EVENT_DIGESTS \<and> digest_shape s"
  using assms by (auto simp: processing_event_def shaped_fields_def bytes_field_def
      split: if_splits js.splits option.splits)

subsection \<open>summarizeResult\<close>

definition inventory_keys :: "string list" where
  "inventory_keys = [''tables'', ''products'', ''figures'', ''findings'']"

text \<open>\<open>Array.isArray(manifest[key]) ? manifest[key] : []\<close>.\<close>

definition entries_of :: "js \<Rightarrow> string \<Rightarrow> js list" where
  "entries_of manifest key = (case js_field manifest key of JArr xs \<Rightarrow> xs | _ \<Rightarrow> [])"

text \<open>What an entry is shown as: a table says that its header rows are not inferred.\<close>

definition shown_item :: "string \<Rightarrow> js \<Rightarrow> js" where
  "shown_item key entry =
     (if key = ''tables''
      then JObj (AList.update ''rowMeaning'' (JStr ''source/logical rows, including any header-looking rows'')
                  (AList.update ''header'' (JStr ''not-inferred'') (spread entry)))
      else entry)"

text \<open>The pointer left for an entry that does not fit a page of its own.\<close>

definition stub_item :: "string \<Rightarrow> js \<Rightarrow> int \<Rightarrow> js" where
  "stub_item key entry start = JObj
     ([(''id'', js_or_null (js_field entry ''id'') JNull)]
      @ (if key = ''findings'' then [(''code'', js_or_null (js_field entry ''code'') JNull)] else [])
      @ [(''truncated'', JBool True), (''fullEntry'', JStr ''sealed-manifest''),
         (''inventoryOffset'', JNum (of_int start))])"

text \<open>The loop over one page: \<open>acc\<close> is what \<open>inventory[key]\<close> holds, \<open>remaining\<close> the bytes left.\<close>

fun page_items :: "(js \<Rightarrow> int) \<Rightarrow> string \<Rightarrow> int \<Rightarrow> js list \<Rightarrow> int \<Rightarrow> js list \<Rightarrow> js list" where
  "page_items bytes_of key start acc remaining [] = acc"
| "page_items bytes_of key start acc remaining (entry # rest) =
     (let item = shown_item key entry in
      if remaining < bytes_of item then
        (if acc \<noteq> [] \<or> remaining < 256 then acc else acc @ [stub_item key entry start])
      else page_items bytes_of key start (acc @ [item]) (remaining - bytes_of item) rest)"

record nav =
  nav_offset :: int
  nav_count :: nat
  nav_total :: nat
  nav_next :: "int option"

record summary =
  sum_quality :: js
  sum_confirmation :: "(string \<times> nat) list"
  sum_inventory :: "(string \<times> js list) list"
  sum_truncated :: bool
  sum_navigation :: "(string \<times> nav) list"

definition quality_of :: "js \<Rightarrow> js \<Rightarrow> js" where
  "quality_of manifest job = (let m = js_field manifest; j = js_field job in JObj
     [(''jobId'', js_or (j ''id'') (js_or (j ''jobId'') (m ''jobId''))),
      (''resultId'', js_or (m ''resultId'') (j ''resultId'')),
      (''resultAvailable'', JBool True),
      (''outcome'', js_or (m ''outcome'') (js_or (j ''state'') JNull)),
      (''source'', js_or (m ''source'') (js_or (j ''source'') JNull)),
      (''selectedModel'',
         js_or (js_field (j ''modelSelection'') ''selectedModel'')
        (js_or (js_field (j ''resolvedProfile'') ''model'')
        (js_or (js_field (js_field (m ''pipeline'') ''models'') ''vision'')
        (js_or (js_field (js_field (m ''profile'') ''models'') ''vision'')
        (js_or (m ''selectedModel'') JNull))))),
      (''coverage'', js_or_null (m ''coverage'') JNull),
      (''stages'', js_or_null (m ''stages'') (JArr [])),
      (''provenance'', js_or_null (m ''provenance'') JNull)])"

definition page_nav :: "int \<Rightarrow> nat \<Rightarrow> nat \<Rightarrow> nav" where
  "page_nav start shown tot =
     \<lparr>nav_offset = start, nav_count = shown, nav_total = tot,
      nav_next = (if start + int shown < int tot then Some (start + int shown) else None)\<rparr>"

definition page_of :: "(js \<Rightarrow> int) \<Rightarrow> js \<Rightarrow> string \<Rightarrow> int \<Rightarrow> int \<Rightarrow> int \<Rightarrow> js list" where
  "page_of bytes_of manifest key start count budget =
     page_items bytes_of key start [] (budget div 4)
       (take (nat count) (drop (nat start) (entries_of manifest key)))"

text \<open>The counts of table confirmations; a status outside the list counts as unresolved.\<close>

definition known_statuses :: "string list" where
  "known_statuses = [''confirmed'', ''agreed'', ''unresolved'', ''failed'', ''pending'', ''not_checked'',
                     ''not-checked'', ''not-applicable'']"

definition table_status :: "js \<Rightarrow> string" where
  "table_status table =
     (let conf = js_field table ''confirmation'';
          reported = (case conf of JStr s \<Rightarrow> conf
                      | _ \<Rightarrow> js_or (js_field conf ''status'') (js_field conf ''state''))
      in case reported of JStr s \<Rightarrow> if s \<in> set known_statuses then s else ''unresolved''
         | _ \<Rightarrow> ''unresolved'')"

fun bump :: "string \<Rightarrow> (string \<times> nat) list \<Rightarrow> (string \<times> nat) list" where
  "bump k [] = [(k, 1)]"
| "bump k (p # ps) = (if fst p = k then (k, Suc (snd p)) # ps else p # bump k ps)"

text \<open>What \<open>for ... of (v || [])\<close> iterates over, if it can.\<close>

fun iterated :: "js \<Rightarrow> js list option" where
  "iterated (JArr xs) = Some xs"
| "iterated (JStr s) = Some (map (\<lambda>c. JStr [c]) s)"
| "iterated v = (if truthy v then None else Some [])"

fun confirmations :: "js list \<Rightarrow> (string \<times> nat) list \<Rightarrow> proc_error + (string \<times> nat) list" where
  "confirmations [] acc = Inr acc"
| "confirmations (t # ts) acc =
     (if nullish t then Inl Type_Error else confirmations ts (bump (table_status t) acc))"

definition table_confirmation :: "js \<Rightarrow> proc_error + (string \<times> nat) list" where
  "table_confirmation manifest = (case iterated (js_field manifest ''tables'') of
      None \<Rightarrow> Inl Type_Error | Some ts \<Rightarrow> confirmations ts [])"

text \<open>\<open>items.some((item) => item.truncated)\<close> over all items: reading a field of \<open>null\<close> throws.\<close>

fun some_truncated :: "js list \<Rightarrow> proc_error + bool" where
  "some_truncated [] = Inr False"
| "some_truncated (item # rest) =
     (if nullish item then Inl Type_Error
      else if truthy (js_field item ''truncated'') then Inr True else some_truncated rest)"

definition inventory_at :: "(js \<Rightarrow> int) \<Rightarrow> js \<Rightarrow> int \<Rightarrow> int \<Rightarrow> int \<Rightarrow> (string \<times> js list) list" where
  "inventory_at bytes_of manifest start count budget =
     map (\<lambda>key. (key, page_of bytes_of manifest key start count budget)) inventory_keys"

definition navigation_at :: "js \<Rightarrow> int \<Rightarrow> (string \<times> js list) list \<Rightarrow> (string \<times> nav) list" where
  "navigation_at manifest start inventory =
     map (\<lambda>p. (fst p, page_nav start (length (snd p)) (length (entries_of manifest (fst p))))) inventory"

definition truncated_at :: "int \<Rightarrow> (string \<times> js list) list \<Rightarrow> (string \<times> nav) list \<Rightarrow> proc_error + bool" where
  "truncated_at start inventory navigation =
     (if list_ex (\<lambda>p. nav_next (snd p) \<noteq> None \<or> 0 < start \<and> 0 < nav_total (snd p)) navigation
      then Inr True else some_truncated (concat (map snd inventory)))"

definition summary_at :: "(js \<Rightarrow> int) \<Rightarrow> js \<Rightarrow> js \<Rightarrow> int \<Rightarrow> int \<Rightarrow> int \<Rightarrow> proc_error + summary" where
  "summary_at bytes_of manifest job start count budget =
     (let inventory = inventory_at bytes_of manifest start count budget;
          navigation = navigation_at manifest start inventory
      in case table_confirmation manifest of Inl e \<Rightarrow> Inl e
         | Inr conf \<Rightarrow>
           (case truncated_at start inventory navigation of Inl e \<Rightarrow> Inl e
            | Inr trunc \<Rightarrow> Inr \<lparr>sum_quality = quality_of manifest job, sum_confirmation = conf,
                sum_inventory = inventory, sum_truncated = trunc, sum_navigation = navigation\<rparr>))"

definition inventory_budget :: "(js \<Rightarrow> int) \<Rightarrow> js \<Rightarrow> js \<Rightarrow> int \<Rightarrow> int" where
  "inventory_budget bytes_of manifest job bound = bound - bytes_of (quality_of manifest job) - 2048"

definition summarize_result :: "(js \<Rightarrow> int) \<Rightarrow> js \<Rightarrow> js \<Rightarrow> js \<Rightarrow> js \<Rightarrow> js \<Rightarrow> proc_error + summary" where
  "summarize_result bytes_of manifest job offset limit maxBytes =
     (case int_param offset 0 0 max_safe ''offset'' of Inl e \<Rightarrow> Inl e | Inr start \<Rightarrow>
      (case int_param limit 50 1 100 ''limit'' of Inl e \<Rightarrow> Inl e | Inr count \<Rightarrow>
      (case int_param maxBytes 65536 4096 262144 ''maxBytes'' of Inl e \<Rightarrow> Inl e | Inr bound \<Rightarrow>
         if inventory_budget bytes_of manifest job bound < 1024 then Inl Summary_Quality_Too_Large
         else summary_at bytes_of manifest job start count (inventory_budget bytes_of manifest job bound))))"

subsection \<open>UTF-8 as \<open>TextDecoder("utf-8", {fatal: true})\<close> reads it\<close>

abbreviation (input) cont_byte :: "nat \<Rightarrow> bool" where
  "cont_byte b \<equiv> 128 \<le> b \<and> b \<le> 191"

text \<open>The first character of a byte sequence, and the bytes after it; nothing when they are not well formed.\<close>

fun utf8_next :: "nat list \<Rightarrow> (nat \<times> nat list) option" where
  "utf8_next [] = None"
| "utf8_next (b # bs) =
    (if b \<le> 127 then Some (b, bs)
     else if 194 \<le> b \<and> b \<le> 223 then
       (case bs of c # r \<Rightarrow> if cont_byte c then Some ((b - 192) * 64 + (c - 128), r) else None | _ \<Rightarrow> None)
     else if 224 \<le> b \<and> b \<le> 239 then
       (case bs of c # d # r \<Rightarrow>
          if cont_byte c \<and> cont_byte d \<and> (b = 224 \<longrightarrow> 160 \<le> c) \<and> (b = 237 \<longrightarrow> c \<le> 159)
          then Some ((b - 224) * 4096 + (c - 128) * 64 + (d - 128), r) else None
        | _ \<Rightarrow> None)
     else if 240 \<le> b \<and> b \<le> 244 then
       (case bs of c # d # e # r \<Rightarrow>
          if cont_byte c \<and> cont_byte d \<and> cont_byte e \<and> (b = 240 \<longrightarrow> 144 \<le> c) \<and> (b = 244 \<longrightarrow> c \<le> 143)
          then Some ((b - 240) * 262144 + (c - 128) * 4096 + (d - 128) * 64 + (e - 128), r) else None
        | _ \<Rightarrow> None)
     else None)"

lemma utf8_next_shorter: "utf8_next bs = Some (c, r) \<Longrightarrow> length r < length bs"
  by (cases bs) (auto split: if_splits list.splits)

function utf8_decode :: "nat list \<Rightarrow> nat list option" where
  "utf8_decode bs =
     (if bs = [] then Some []
      else (case utf8_next bs of None \<Rightarrow> None
            | Some p \<Rightarrow> map_option ((#) (fst p)) (utf8_decode (snd p))))"
  by pat_completeness auto
termination by (relation "measure length") (auto dest: utf8_next_shorter)

declare utf8_decode.simps [simp del]

text \<open>A byte order mark at the start of what is decoded is dropped.\<close>

definition strip_bom :: "nat list \<Rightarrow> nat list" where
  "strip_bom cs = (case cs of c # r \<Rightarrow> if c = 65279 then r else cs | [] \<Rightarrow> [])"

definition text_decode :: "nat list \<Rightarrow> nat list option" where
  "text_decode bs = map_option strip_bom (utf8_decode bs)"

subsection \<open>readProductText\<close>

record http_response =
  resp_status :: int
  resp_range :: "string option"
  resp_body :: "nat list list option"

record product_text =
  pt_text :: "nat list"
  pt_offset :: int
  pt_bytes :: nat
  pt_total :: int
  pt_next :: "int option"

text \<open>The loop of \<open>boundedBytes\<close> over the chunks the body's reader yields.\<close>

fun read_chunks :: "nat list list \<Rightarrow> nat \<Rightarrow> int \<Rightarrow> nat list \<Rightarrow> proc_error + nat list" where
  "read_chunks [] got bound acc = Inr acc"
| "read_chunks (c # cs) got bound acc =
     (if bound < int (got + length c) then Inl Product_Integrity
      else read_chunks cs (got + length c) bound (acc @ c))"

definition bounded_bytes :: "http_response \<Rightarrow> int \<Rightarrow> proc_error + nat list" where
  "bounded_bytes response bound = (case resp_body response of None \<Rightarrow> Inr []
     | Some chunks \<Rightarrow> read_chunks chunks 0 bound [])"

text \<open>\<open>/^[0-9a-f]{64}$/\<close> and the media types of text.\<close>

definition sha256_ok :: "js \<Rightarrow> bool" where
  "sha256_ok v = (case v of JStr s \<Rightarrow> length s = 64 \<and> list_all is_hex s | _ \<Rightarrow> False)"

definition media_char :: "char \<Rightarrow> bool" where
  "media_char c \<longleftrightarrow> is_lower c \<or> c = CHR ''.'' \<or> c = CHR ''+'' \<or> c = CHR ''-''"

text \<open>The optional \<open>[a-z.+-]+\+\<close> before \<open>jsonl\<close>: some split at a plus sign with a nonempty part before it.\<close>

definition plus_jsonl :: "string \<Rightarrow> bool" where
  "plus_jsonl s = list_ex (\<lambda>i. list_all media_char (take i s) \<and> prefix ''+jsonl'' (drop i s)) [1..<Suc (length s)]"

definition text_media :: "js \<Rightarrow> bool" where
  "text_media v = (case v of
      JStr s \<Rightarrow> prefix ''text/'' s
        \<or> prefix ''application/'' s
          \<and> (let t = drop 12 s in prefix ''json'' t \<or> prefix ''x-ndjson'' t \<or> plus_jsonl t)
    | _ \<Rightarrow> False)"

definition range_header :: "int \<Rightarrow> int \<Rightarrow> string" where
  "range_header start stop = ''bytes='' @ dec_int start @ ''-'' @ dec_int stop"

definition content_range :: "int \<Rightarrow> int \<Rightarrow> int \<Rightarrow> string" where
  "content_range start stop tot = ''bytes '' @ dec_int start @ ''-'' @ dec_int stop @ ''/'' @ dec_int tot"

text \<open>The service answered with exactly the range that was asked for.\<close>

definition range_answered :: "http_response \<Rightarrow> int \<Rightarrow> int \<Rightarrow> int \<Rightarrow> bool" where
  "range_answered r start stop tot \<longleftrightarrow>
     resp_status r = 206 \<and> resp_range r = Some (content_range start stop tot)
     \<or> resp_status r = 200 \<and> start = 0 \<and> stop = tot - 1"

text \<open>The loop over \<open>used\<close>: up to three bytes less, unless the range ends the product.\<close>

fun decode_back :: "bool \<Rightarrow> nat list \<Rightarrow> nat \<Rightarrow> nat \<Rightarrow> (nat list \<times> nat) option" where
  "decode_back last_range bs low used =
     (if used < low then None
      else (case text_decode (take used bs) of
              Some text \<Rightarrow> Some (text, used)
            | None \<Rightarrow> if last_range \<or> used = 0 then None else decode_back last_range bs low (used - 1)))"

declare decode_back.simps [simp del]

definition decoded_page :: "nat list \<Rightarrow> int \<Rightarrow> int \<Rightarrow> int \<Rightarrow> proc_error + product_text" where
  "decoded_page bs start stop tot =
     (case decode_back (stop = tot - 1) bs (max 1 (length bs - 3)) (length bs) of
        None \<Rightarrow> Inl Invalid_Text_Range
      | Some p \<Rightarrow> Inr \<lparr>pt_text = fst p, pt_offset = start, pt_bytes = snd p, pt_total = tot,
                      pt_next = (if start + int (snd p) < tot then Some (start + int (snd p)) else None)\<rparr>)"

definition read_range :: "(string \<Rightarrow> proc_error + http_response) \<Rightarrow> int \<Rightarrow> int \<Rightarrow> int \<Rightarrow> proc_error + product_text" where
  "read_range download start stop tot =
     (case download (range_header start stop) of Inl e \<Rightarrow> Inl e | Inr response \<Rightarrow>
        if \<not> range_answered response start stop tot then Inl Product_Integrity
        else (case bounded_bytes response (stop - start + 1) of Inl e \<Rightarrow> Inl e | Inr bs \<Rightarrow>
                if int (length bs) \<noteq> stop - start + 1 then Inl Product_Integrity
                else decoded_page bs start stop tot))"

definition read_product_text ::
    "js \<Rightarrow> (string \<Rightarrow> proc_error + http_response) \<Rightarrow> js \<Rightarrow> js \<Rightarrow> proc_error + product_text" where
  "read_product_text product download offset limit =
     (case int_param offset 0 0 max_safe ''offset'' of Inl e \<Rightarrow> Inl e | Inr start \<Rightarrow>
      (case int_param limit 16384 1 65536 ''limit'' of Inl e \<Rightarrow> Inl e | Inr count \<Rightarrow>
      (case safe_int (js_field product ''bytes'') of None \<Rightarrow> Inl Product_Integrity | Some tot \<Rightarrow>
       if tot < 0 \<or> \<not> sha256_ok (js_field product ''sha256'') then Inl Product_Integrity
       else if \<not> text_media (js_field product ''mediaType'') then Inl Not_Text_Product
       else if tot < start then Inl Offset_Beyond_Product
       else if start = tot then
         Inr \<lparr>pt_text = [], pt_offset = start, pt_bytes = 0, pt_total = tot, pt_next = None\<rparr>
       else read_range download start (min tot (start + count) - 1) tot)))"

end
