(* ===== verification/Processing_Props.thy ===== *)
theory Processing_Props
  imports Processing_Ops
begin

text \<open>
  What processing-operations.js promises an agent that reads a result page by page: following \<open>nextOffset\<close>
  visits every entry of the inventory once, in order and in a bounded number of pages, and reading a text
  product range by range gives the product's text.
\<close>

subsection \<open>One page of the inventory\<close>

lemma page_items_shape:
  "(\<exists>n \<le> length xs. page_items b key start acc rem xs = acc @ map (shown_item key) (take n xs))
   \<or> acc = [] \<and> xs \<noteq> [] \<and> page_items b key start acc rem xs = [stub_item key (hd xs) start]"
proof (induction xs arbitrary: acc rem)
  case (Cons x xs)
  show ?case
  proof (cases "rem < b (shown_item key x)")
    case True
    then show ?thesis by (auto simp: Let_def intro!: exI [of _ 0])
  next
    case False
    from Cons [of "acc @ [shown_item key x]" "rem - b (shown_item key x)"]
    obtain n where "n \<le> length xs"
      "page_items b key start (acc @ [shown_item key x]) (rem - b (shown_item key x)) xs
       = acc @ map (shown_item key) (take (Suc n) (x # xs))" by auto
    with False show ?thesis by (auto simp: Let_def intro!: exI [of _ "Suc n"])
  qed
qed simp

lemma page_items_progress: "xs \<noteq> [] \<Longrightarrow> 256 \<le> rem \<Longrightarrow> page_items b key start [] rem xs \<noteq> []"
proof -
  assume "xs \<noteq> []" "256 \<le> rem"
  then obtain x ys where x: "xs = x # ys" by (cases xs) auto
  from page_items_shape [of ys b key start "[shown_item key x]" "rem - b (shown_item key x)"]
  have "page_items b key start [shown_item key x] (rem - b (shown_item key x)) ys \<noteq> []" by auto
  with x \<open>256 \<le> rem\<close> show ?thesis by (simp add: Let_def)
qed

lemma page_items_bytes:
  "acc = [] \<and> xs \<noteq> [] \<and> page_items b key start acc rem xs = [stub_item key (hd xs) start]
   \<or> (\<Sum>i\<leftarrow>page_items b key start acc rem xs. b i) \<le> (\<Sum>i\<leftarrow>acc. b i) + max 0 rem"
proof (induction xs arbitrary: acc rem)
  case (Cons x xs)
  show ?case
  proof (cases "rem < b (shown_item key x)")
    case True
    then show ?thesis by (simp add: Let_def)
  next
    case False
    with Cons [of "acc @ [shown_item key x]" "rem - b (shown_item key x)"]
    have "(\<Sum>i\<leftarrow>page_items b key start acc rem (x # xs). b i)
        \<le> (\<Sum>i\<leftarrow>acc @ [shown_item key x]. b i) + max 0 (rem - b (shown_item key x))"
      by (simp add: Let_def)
    with False show ?thesis by (intro disjI2) (auto simp: max_def)
  qed
qed simp

lemma page_of_shape:
  assumes "0 \<le> start"
  shows "(\<exists>n. n \<le> nat count \<and> page_of b m key start count budget
              = map (shown_item key) (take n (drop (nat start) (entries_of m key))))
         \<or> nat start < length (entries_of m key)
           \<and> page_of b m key start count budget = [stub_item key (entries_of m key ! nat start) start]"
proof -
  let ?xs = "take (nat count) (drop (nat start) (entries_of m key))"
  have hd: "hd ?xs = entries_of m key ! nat start" "nat start < length (entries_of m key)" if "?xs \<noteq> []"
    using that by (auto simp: hd_drop_conv_nth)
  from page_items_shape [of ?xs b key start "[]" "budget div 4"] show ?thesis
  proof (elim disjE exE conjE)
    fix n assume "n \<le> length ?xs" "page_items b key start [] (budget div 4) ?xs = [] @ map (shown_item key) (take n ?xs)"
    then show ?thesis by (intro disjI1 exI [of _ "min n (nat count)"]) (simp add: page_of_def min.commute)
  qed (use hd in \<open>auto simp: page_of_def\<close>)
qed

lemma page_of_progress:
  "0 \<le> start \<Longrightarrow> nat start < length (entries_of m key) \<Longrightarrow> 1 \<le> count \<Longrightarrow> 1024 \<le> budget
   \<Longrightarrow> page_of b m key start count budget \<noteq> []"
  unfolding page_of_def by (rule page_items_progress) auto

text \<open>Every item of a page shows the entry at its place, in full or by a pointer with its offset.\<close>

definition shows_entry :: "string \<Rightarrow> js \<Rightarrow> int \<Rightarrow> js \<Rightarrow> bool" where
  "shows_entry key entry i item \<longleftrightarrow> item = shown_item key entry \<or> item = stub_item key entry i"

lemma page_of_nth:
  assumes "0 \<le> start" "i < length (page_of b m key start count budget)"
  shows "nat start + i < length (entries_of m key)
    \<and> shows_entry key (entries_of m key ! (nat start + i)) (start + int i) (page_of b m key start count budget ! i)"
  using page_of_shape [OF assms(1), of count b m key budget] assms(2)
  by (auto simp: shows_entry_def assms(1))

lemma page_of_length:
  assumes "0 \<le> start" "nat start \<le> length (entries_of m key)"
  shows "nat start + length (page_of b m key start count budget) \<le> length (entries_of m key)"
  using page_of_nth [OF assms(1), of "length (page_of b m key start count budget) - 1" b m key count budget] assms(2)
  by (cases "page_of b m key start count budget") auto

subsection \<open>The summary\<close>

lemma keys_expand: "key \<in> set inventory_keys \<longleftrightarrow>
    key = ''tables'' \<or> key = ''products'' \<or> key = ''figures'' \<or> key = ''findings''"
  by (auto simp: inventory_keys_def)

lemma map_of_keyed: "k \<in> set ks \<Longrightarrow> map_of (map (\<lambda>key. (key, f key)) ks) k = Some (f k)"
  by (induction ks) auto

lemma inventory_of_key:
  "key \<in> set inventory_keys \<Longrightarrow>
   map_of (inventory_at b m start count budget) key = Some (page_of b m key start count budget)"
  unfolding inventory_at_def by (rule map_of_keyed)

lemma navigation_of_key:
  "key \<in> set inventory_keys \<Longrightarrow>
   map_of (navigation_at m start (inventory_at b m start count budget)) key
     = Some (page_nav start (length (page_of b m key start count budget)) (length (entries_of m key)))"
  unfolding navigation_at_def inventory_at_def
  by (simp add: comp_def map_of_keyed [where f = "\<lambda>key. page_nav start (length (page_of b m key start count budget)) (length (entries_of m key))"])

lemma some_truncated_total: "list_all (\<lambda>v. \<not> nullish v) items \<Longrightarrow> \<exists>t. some_truncated items = Inr t"
  by (induction items) auto

lemma some_truncated_False: "some_truncated items = Inr False \<Longrightarrow> item \<in> set items \<Longrightarrow> \<not> truthy (js_field item ''truncated'')"
  by (induction items) (auto split: if_splits)

lemma nullish_shown [simp]: "nullish (shown_item key e) \<longleftrightarrow> nullish e \<and> key \<noteq> ''tables''"
  by (simp add: shown_item_def)

lemma nullish_stub [simp]: "\<not> nullish (stub_item key e i)"
  by (simp add: stub_item_def)

lemma stub_truncated [simp]: "truthy (js_field (stub_item key e i) ''truncated'')"
  by (simp add: stub_item_def)

definition entries_present :: "js \<Rightarrow> bool" where
  "entries_present m = list_all (\<lambda>key. list_all (\<lambda>e. \<not> nullish e) (entries_of m key)) inventory_keys"

lemma entries_present_nth:
  "entries_present m \<Longrightarrow> key \<in> set inventory_keys \<Longrightarrow> i < length (entries_of m key)
   \<Longrightarrow> \<not> nullish (entries_of m key ! i)"
  by (auto simp: entries_present_def list_all_iff)

lemma page_of_present:
  assumes "entries_present m" "key \<in> set inventory_keys" "0 \<le> start"
  shows "list_all (\<lambda>v. \<not> nullish v) (page_of b m key start count budget)"
  unfolding list_all_length
proof (intro allI impI)
  fix i assume "i < length (page_of b m key start count budget)"
  with page_of_nth [OF assms(3), of i b m key count budget] entries_present_nth [OF assms(1,2)]
  show "\<not> nullish (page_of b m key start count budget ! i)" by (auto simp: shows_entry_def)
qed

lemma truncated_total:
  assumes "entries_present m" "0 \<le> start"
  shows "\<exists>t. truncated_at start (inventory_at b m start count budget) nv = Inr t"
proof -
  have "list_all (\<lambda>v. \<not> nullish v) (concat (map snd (inventory_at b m start count budget)))"
    using page_of_present [OF assms(1) _ assms(2)]
    by (auto simp: inventory_at_def list_all_iff)
  then show ?thesis by (auto simp: truncated_at_def dest: some_truncated_total)
qed

lemma summary_at_Inr:
  "summary_at b m job start count budget = Inr s \<Longrightarrow>
   sum_inventory s = inventory_at b m start count budget
   \<and> sum_navigation s = navigation_at m start (inventory_at b m start count budget)
   \<and> truncated_at start (sum_inventory s) (sum_navigation s) = Inr (sum_truncated s)
   \<and> table_confirmation m = Inr (sum_confirmation s)"
  by (auto simp: summary_at_def Let_def split: sum.splits)

lemma int_param_bounds: "int_param v d lo hi nm = Inr n \<Longrightarrow> lo \<le> n \<and> n \<le> hi"
  by (auto simp: int_param_def split: option.splits if_splits)

lemma int_param_offset: "0 \<le> n \<Longrightarrow> n \<le> max_safe \<Longrightarrow> int_param (JNum (of_int n)) d 0 max_safe nm = Inr n"
  by (simp add: int_param_def)

lemma summarize_Inr:
  assumes "summarize_result b m job off lm mx = Inr s"
  obtains start count bound where
    "int_param off 0 0 max_safe ''offset'' = Inr start" "int_param lm 50 1 100 ''limit'' = Inr count"
    "int_param mx 65536 4096 262144 ''maxBytes'' = Inr bound"
    "1024 \<le> inventory_budget b m job bound"
    "summary_at b m job start count (inventory_budget b m job bound) = Inr s"
  using assms by (auto simp: summarize_result_def not_less split: sum.splits if_splits)

subsection \<open>Following the pages\<close>

text \<open>A reader that starts at offset 0 and follows \<open>nextOffset\<close> of one kind of entry, at most \<open>n\<close> pages.\<close>

fun read_inventory ::
    "(js \<Rightarrow> int) \<Rightarrow> js \<Rightarrow> js \<Rightarrow> js \<Rightarrow> js \<Rightarrow> string \<Rightarrow> nat \<Rightarrow> int \<Rightarrow> js list option" where
  "read_inventory b m job lm mx key 0 start = None"
| "read_inventory b m job lm mx key (Suc n) start =
     (case summarize_result b m job (JNum (of_int start)) lm mx of Inl _ \<Rightarrow> None
      | Inr s \<Rightarrow> (case (map_of (sum_inventory s) key, map_of (sum_navigation s) key) of
           (Some items, Some v) \<Rightarrow> (case nav_next v of None \<Rightarrow> Some items
             | Some off \<Rightarrow> map_option (append items) (read_inventory b m job lm mx key n off))
         | _ \<Rightarrow> None))"

text \<open>What the pages from \<open>start\<close> on must show.\<close>

definition shows_rest :: "js \<Rightarrow> string \<Rightarrow> int \<Rightarrow> js list \<Rightarrow> bool" where
  "shows_rest m key start items \<longleftrightarrow>
     nat start + length items = length (entries_of m key)
     \<and> (\<forall>i < length items. shows_entry key (entries_of m key ! (nat start + i)) (start + int i) (items ! i))"

lemma shows_rest_append:
  assumes "0 \<le> start"
    "\<forall>i < length page. shows_entry key (entries_of m key ! (nat start + i)) (start + int i) (page ! i)"
    "shows_rest m key (start + int (length page)) rest"
  shows "shows_rest m key start (page @ rest)"
proof -
  have n: "nat (start + int (length page)) = nat start + length page" using assms(1) by simp
  have "shows_entry key (entries_of m key ! (nat start + i)) (start + int i) ((page @ rest) ! i)"
    if i: "i < length (page @ rest)" for i
  proof (cases "i < length page")
    case True
    with assms(2) show ?thesis by (simp add: nth_append)
  next
    case False
    with i have "i - length page < length rest" by simp
    with assms(3) have "shows_entry key (entries_of m key ! (nat start + length page + (i - length page)))
        (start + int (length page) + int (i - length page)) (rest ! (i - length page))"
      unfolding shows_rest_def n by blast
    with False show ?thesis by (simp add: nth_append)
  qed
  moreover from assms(3) have "nat start + length (page @ rest) = length (entries_of m key)"
    by (simp add: shows_rest_def n)
  ultimately show ?thesis by (simp add: shows_rest_def)
qed

lemma summary_served:
  assumes "entries_present m" "0 \<le> start" "table_confirmation m = Inr conf"
  shows "\<exists>s. summary_at b m job start count budget = Inr s"
proof -
  obtain t where "truncated_at start (inventory_at b m start count budget)
      (navigation_at m start (inventory_at b m start count budget)) = Inr t"
    using truncated_total [OF assms(1,2)] by blast
  with assms(3) show ?thesis by (simp add: summary_at_def Let_def)
qed

lemma read_inventory_from:
  assumes lm: "int_param lm 50 1 100 ''limit'' = Inr count"
    and mx: "int_param mx 65536 4096 262144 ''maxBytes'' = Inr bound"
    and bud: "1024 \<le> inventory_budget b m job bound"
    and conf: "table_confirmation m = Inr conf"
    and ok: "entries_present m" "key \<in> set inventory_keys"
    and small: "int (length (entries_of m key)) \<le> max_safe"
  shows "0 \<le> start \<Longrightarrow> nat start \<le> length (entries_of m key)
    \<Longrightarrow> length (entries_of m key) - nat start < n
    \<Longrightarrow> \<exists>items. read_inventory b m job lm mx key n start = Some items \<and> shows_rest m key start items"
proof (induction n arbitrary: start)
  case (Suc n)
  let ?budget = "inventory_budget b m job bound"
  let ?page = "page_of b m key start count ?budget"
  from lm have count: "1 \<le> count" using int_param_bounds by blast
  have off: "int_param (JNum (of_int start)) 0 0 max_safe ''offset'' = Inr start"
    using Suc.prems small by (intro int_param_offset) auto
  obtain s where s: "summary_at b m job start count ?budget = Inr s"
    using summary_served [OF ok(1) Suc.prems(1) conf] by blast
  have res: "summarize_result b m job (JNum (of_int start)) lm mx = Inr s"
    using off lm mx bud s by (simp add: summarize_result_def)
  have look: "map_of (sum_inventory s) key = Some ?page"
    "map_of (sum_navigation s) key = Some (page_nav start (length ?page) (length (entries_of m key)))"
    using summary_at_Inr [OF s] inventory_of_key [OF ok(2)] navigation_of_key [OF ok(2)] by auto
  have pg: "\<forall>i < length ?page. shows_entry key (entries_of m key ! (nat start + i)) (start + int i) (?page ! i)"
    using page_of_nth [OF Suc.prems(1)] by blast
  have len: "nat start + length ?page \<le> length (entries_of m key)"
    using page_of_length [OF Suc.prems(1,2)] .
  show ?case
  proof (cases "start + int (length ?page) < int (length (entries_of m key))")
    case True
    then have "nat start < length (entries_of m key)" using Suc.prems(1) by linarith
    then have "?page \<noteq> []" using page_of_progress [OF Suc.prems(1) _ count bud] by blast
    then have "0 < length ?page" by simp
    then have o: "0 \<le> start + int (length ?page)" "nat (start + int (length ?page)) \<le> length (entries_of m key)"
      "length (entries_of m key) - nat (start + int (length ?page)) < n"
      using Suc.prems len by linarith+
    then obtain rest where "read_inventory b m job lm mx key n (start + int (length ?page)) = Some rest"
        "shows_rest m key (start + int (length ?page)) rest"
      using Suc.IH [of "start + int (length ?page)"] o by blast
    with True res look shows_rest_append [OF Suc.prems(1) pg] show ?thesis by (simp add: page_nav_def)
  next
    case False
    with len have "nat start + length ?page = length (entries_of m key)" using Suc.prems(1) by linarith
    with False res look pg show ?thesis by (simp add: page_nav_def shows_rest_def)
  qed
qed simp

text \<open>Claim C27. An agent that pages through the inventory of a result sees all of it. When the first page is
  served, following \<open>nextOffset\<close> of any kind of entry ends after at most one page per entry, and the items of
  the pages, in order, are the entries of the manifest, each once: in full, or, when an entry alone exceeds the
  byte budget of a page, as a pointer that carries its offset.\<close>

theorem inventory_pages_complete:
  assumes "summarize_result bytes_of manifest job JUndef limit maxBytes = Inr s0"
    and "entries_present manifest"
    and "key \<in> set inventory_keys"
    and "int (length (entries_of manifest key)) \<le> max_safe"
  shows "\<exists>items. read_inventory bytes_of manifest job limit maxBytes key
                   (Suc (length (entries_of manifest key))) 0 = Some items
           \<and> length items = length (entries_of manifest key)
           \<and> (\<forall>i < length items. items ! i = shown_item key (entries_of manifest key ! i)
                \<or> items ! i = stub_item key (entries_of manifest key ! i) (int i))"
proof -
  from assms(1) obtain start count bound where
    c: "int_param limit 50 1 100 ''limit'' = Inr count"
       "int_param maxBytes 65536 4096 262144 ''maxBytes'' = Inr bound"
       "1024 \<le> inventory_budget bytes_of manifest job bound"
       "summary_at bytes_of manifest job start count (inventory_budget bytes_of manifest job bound) = Inr s0"
    by (rule summarize_Inr)
  from summary_at_Inr [OF c(4)] have conf: "table_confirmation manifest = Inr (sum_confirmation s0)" by simp
  from read_inventory_from [OF c(1,2,3) conf assms(2,3,4), where start = 0
      and n = "Suc (length (entries_of manifest key))"]
  show ?thesis by (auto simp: shows_rest_def shows_entry_def)
qed

text \<open>Three tables and a finding on pages of one entry; the second table is larger than a page.\<close>

definition ex_manifest :: js where
  "ex_manifest = JObj [(''tables'', JArr [JObj [(''id'', JStr ''t1'')], JObj [(''id'', JStr ''big'')], JObj [(''id'', JStr ''t3'')]]),
                       (''findings'', JArr [JObj [(''code'', JStr ''x'')]])]"

definition ex_bytes :: "js \<Rightarrow> int" where
  "ex_bytes v = (if js_field v ''id'' = JStr ''big'' then 9000 else 40)"

lemma inventory_pages_complete_witness:
  "\<exists>items. read_inventory ex_bytes ex_manifest (JObj []) (JNum 1) (JNum 4096) ''tables'' 4 0 = Some items
     \<and> length items = 3 \<and> items ! 1 = stub_item ''tables'' (JObj [(''id'', JStr ''big'')]) 1"
proof -
  have len: "length (entries_of ex_manifest ''tables'') = 3" by (simp add: entries_of_def ex_manifest_def)
  have "\<not> isl (summarize_result ex_bytes ex_manifest (JObj []) JUndef (JNum 1) (JNum 4096))"
    by code_simp
  then obtain s where s: "summarize_result ex_bytes ex_manifest (JObj []) JUndef (JNum 1) (JNum 4096) = Inr s"
    by (cases "summarize_result ex_bytes ex_manifest (JObj []) JUndef (JNum 1) (JNum 4096)") auto
  have "entries_present ex_manifest" by code_simp
  from inventory_pages_complete [OF s this, of "''tables''"] len
  obtain items where i: "read_inventory ex_bytes ex_manifest (JObj []) (JNum 1) (JNum 4096) ''tables'' 4 0 = Some items"
    "length items = 3" by (auto simp: inventory_keys_def numeral_eq_Suc)
  moreover have "map_option (\<lambda>items. items ! 1) (read_inventory ex_bytes ex_manifest (JObj []) (JNum 1) (JNum 4096) ''tables'' 4 0)
      = Some (stub_item ''tables'' (JObj [(''id'', JStr ''big'')]) 1)"
    by code_simp
  ultimately show ?thesis by auto
qed


subsection \<open>Well-formed text and where it may be cut\<close>

text \<open>A character occupies at most four bytes, decodes whatever follows it, and none of its proper prefixes decodes.\<close>

definition char_bytes :: "nat list \<Rightarrow> nat \<Rightarrow> bool" where
  "char_bytes p c \<longleftrightarrow> p \<noteq> [] \<and> length p \<le> 4 \<and> (\<forall>s. utf8_next (p @ s) = Some (c, s))
     \<and> (\<forall>k < length p. utf8_next (take k p) = None)"

lemma utf8_next_char:
  assumes "utf8_next bs = Some (c, r)"
  shows "\<exists>p. bs = p @ r \<and> char_bytes p c"
proof -
  from assms obtain b t where b: "bs = b # t" by (cases bs) auto
  have "(\<exists>x. t = x # r \<and> char_bytes [b, x] c) \<or> (\<exists>x y. t = x # y # r \<and> char_bytes [b, x, y] c)
      \<or> (\<exists>x y z. t = x # y # z # r \<and> char_bytes [b, x, y, z] c) \<or> t = r \<and> char_bytes [b] c"
    using assms unfolding b
    by (auto simp: char_bytes_def less_Suc_eq_0_disj split: if_splits list.splits)
  then show ?thesis unfolding b by (metis append_Cons append_Nil)
qed

lemma decode_char: "char_bytes p c \<Longrightarrow> utf8_decode (p @ s) = map_option ((#) c) (utf8_decode s)"
  by (subst utf8_decode.simps) (auto simp: char_bytes_def)

lemma decode_cut_char:
  assumes "char_bytes p c" "0 < k" "k < length p"
  shows "utf8_decode (take k p) = None"
proof -
  have "take k p \<noteq> []" using assms by (cases p; cases k) auto
  with assms show ?thesis by (subst utf8_decode.simps) (simp add: char_bytes_def)
qed

lemma decode_cases:
  assumes "utf8_decode bs = Some cs" "bs \<noteq> []"
  obtains p c r ds where "bs = p @ r" "char_bytes p c" "utf8_decode r = Some ds" "cs = c # ds"
    "utf8_next bs = Some (c, r)"
proof -
  from assms obtain c r where n: "utf8_next bs = Some (c, r)"
    by (subst (asm) utf8_decode.simps) (auto split: option.splits)
  from utf8_next_char [OF n] obtain p where p: "bs = p @ r" "char_bytes p c" by blast
  from assms(1) decode_char [OF p(2), of r] p(1) obtain ds where "utf8_decode r = Some ds" "cs = c # ds" by auto
  with p n that show thesis by blast
qed

text \<open>The last character boundary at or before \<open>n\<close> is at most three bytes back; nothing between decodes.\<close>

lemma decode_cut:
  "utf8_decode bs = Some cs \<Longrightarrow> n \<le> length bs \<Longrightarrow>
   \<exists>k pre suf. k \<le> n \<and> n \<le> k + 3 \<and> cs = pre @ suf \<and> utf8_decode (take k bs) = Some pre
     \<and> utf8_decode (drop k bs) = Some suf \<and> (\<forall>j. k < j \<and> j \<le> n \<longrightarrow> utf8_decode (take j bs) = None)"
proof (induction "length bs" arbitrary: bs cs n rule: less_induct)
  case less
  show ?case
  proof (cases "bs = []")
    case True
    with less.prems show ?thesis by (auto simp: utf8_decode.simps [of "[]"] intro!: exI [of _ 0])
  next
    case False
    with less.prems(1) obtain p c r ds where p: "bs = p @ r" "char_bytes p c" "utf8_decode r = Some ds" "cs = c # ds"
      by (rule decode_cases)
    have plen: "0 < length p" "length p \<le> 4" using p(2) by (auto simp: char_bytes_def)
    show ?thesis
    proof (cases "n < length p")
      case True
      then have "\<forall>j. 0 < j \<and> j \<le> n \<longrightarrow> utf8_decode (take j bs) = None"
        using decode_cut_char [OF p(2)] p(1) by auto
      moreover have "utf8_decode [] = Some []" by (subst utf8_decode.simps) simp
      ultimately show ?thesis using True plen less.prems
        by (intro exI [of _ 0] exI [of _ "[]"] exI [of _ cs]) auto
    next
      case False
      have "length r < length bs" "n - length p \<le> length r" using plen p(1) less.prems(2) by auto
      from less.hyps [OF this(1) p(3) this(2)] obtain k pre suf where k: "k \<le> n - length p" "n - length p \<le> k + 3"
        "ds = pre @ suf" "utf8_decode (take k r) = Some pre" "utf8_decode (drop k r) = Some suf"
        "\<forall>j. k < j \<and> j \<le> n - length p \<longrightarrow> utf8_decode (take j r) = None" by blast
      have "utf8_decode (take j bs) = None" if "length p + k < j \<and> j \<le> n" for j
      proof -
        from that k(6) have "utf8_decode (take (j - length p) r) = None" by (metis diff_le_mono less_diff_conv add.commute)
        with that decode_char [OF p(2), of "take (j - length p) r"] p(1) show ?thesis by simp
      qed
      moreover have "utf8_decode (take (length p + k) bs) = Some (c # pre)"
        using decode_char [OF p(2), of "take k r"] k(4) p(1) by simp
      ultimately show ?thesis using k False p(1,4)
        by (intro exI [of _ "length p + k"] exI [of _ "c # pre"] exI [of _ suf]) auto
    qed
  qed
qed

lemma decode_back_finds:
  "utf8_decode (take k bs) = Some pre \<Longrightarrow> k \<le> used \<Longrightarrow> low \<le> k \<Longrightarrow>
   (\<forall>j. k < j \<and> j \<le> used \<longrightarrow> utf8_decode (take j bs) = None) \<Longrightarrow> (last_range \<longrightarrow> k = used) \<Longrightarrow>
   decode_back last_range bs low used = Some (strip_bom pre, k)"
proof (induction used)
  case (Suc u)
  show ?case
  proof (cases "k = Suc u")
    case True
    with Suc.prems show ?thesis by (subst decode_back.simps) (simp add: text_decode_def)
  next
    case False
    with Suc.prems have "utf8_decode (take (Suc u) bs) = None" "\<not> last_range" "k \<le> u" by auto
    with Suc show ?thesis by (subst decode_back.simps) (auto simp: text_decode_def)
  qed
qed (subst decode_back.simps, simp add: text_decode_def)

subsection \<open>Reading a text product\<close>

lemma decode_back_nonzero: "decode_back lr bs low used = Some (t, k) \<Longrightarrow> low \<le> k \<and> k \<le> used"
  by (induction lr bs low used rule: decode_back.induct)
     (subst (asm) decode_back.simps, auto split: option.splits if_splits)

lemma read_chunks_all:
  "int (got + length (concat chunks)) \<le> bound \<Longrightarrow> read_chunks chunks got bound acc = Inr (acc @ concat chunks)"
  by (induction chunks arbitrary: got acc) auto

text \<open>The owning service serves the bytes of the product: a range inside it is answered as that range.\<close>

definition serves_range :: "(string \<Rightarrow> proc_error + http_response) \<Rightarrow> nat list \<Rightarrow> nat \<Rightarrow> nat \<Rightarrow> bool" where
  "serves_range download content a z = (case download (range_header (int a) (int z)) of
      Inl _ \<Rightarrow> False
    | Inr r \<Rightarrow> range_answered r (int a) (int z) (int (length content))
        \<and> (case resp_body r of None \<Rightarrow> False | Some chunks \<Rightarrow> concat chunks = take (Suc z - a) (drop a content)))"

definition serves :: "(string \<Rightarrow> proc_error + http_response) \<Rightarrow> nat list \<Rightarrow> bool" where
  "serves download content =
     list_all (\<lambda>z. list_all (\<lambda>a. serves_range download content a z) [0..<Suc z]) [0..<length content]"

lemma serves_bytes:
  assumes "serves download content" "a \<le> z" "z < length content"
  obtains r where "download (range_header (int a) (int z)) = Inr r"
    "range_answered r (int a) (int z) (int (length content))"
    "bounded_bytes r (int z - int a + 1) = Inr (take (Suc z - a) (drop a content))"
proof -
  from assms have "serves_range download content a z" 
    unfolding serves_def list_all_iff by (metis atLeastLessThan_iff le_imp_less_Suc set_upt zero_le)
  then obtain r chunks where r: "download (range_header (int a) (int z)) = Inr r"
      "range_answered r (int a) (int z) (int (length content))" "resp_body r = Some chunks"
      "concat chunks = take (Suc z - a) (drop a content)"
    by (auto simp: serves_range_def split: sum.splits option.splits)
  moreover have "bounded_bytes r (int z - int a + 1) = Inr (concat chunks)"
    using r(3,4) assms(2,3) read_chunks_all [of 0 chunks "int z - int a + 1" "[]"]
    by (auto simp: bounded_bytes_def of_nat_diff)
  ultimately show thesis using that by simp
qed

text \<open>One page, when what is left decodes and the limit leaves room for a character.\<close>

lemma decoded_page_cuts:
  assumes dec: "utf8_decode (drop a content) = Some cs" and z: "a \<le> z" "z < length content"
    and room: "z = length content - 1 \<or> 4 \<le> Suc z - a"
  shows "\<exists>k pre suf. 1 \<le> k \<and> a + k \<le> length content \<and> cs = pre @ suf
     \<and> utf8_decode (drop (a + k) content) = Some suf
     \<and> decoded_page (take (Suc z - a) (drop a content)) (int a) (int z) (int (length content))
       = Inr \<lparr>pt_text = strip_bom pre, pt_offset = int a, pt_bytes = k, pt_total = int (length content),
              pt_next = (if a + k < length content then Some (int (a + k)) else None)\<rparr>"
proof -
  let ?w = "take (Suc z - a) (drop a content)"
  have wlen: "length ?w = Suc z - a" using z by simp
  have "Suc z - a \<le> length (drop a content)" using z by simp
  from decode_cut [OF dec this] obtain k pre suf where k: "k \<le> Suc z - a" "Suc z - a \<le> k + 3"
    "cs = pre @ suf" "utf8_decode (take k (drop a content)) = Some pre"
    "utf8_decode (drop k (drop a content)) = Some suf"
    "\<forall>j. k < j \<and> j \<le> Suc z - a \<longrightarrow> utf8_decode (take j (drop a content)) = None" by blast
  have full: "k = Suc z - a" if "z = length content - 1"
  proof (rule ccontr)
    assume "k \<noteq> Suc z - a"
    with k(1,6) have "utf8_decode (take (Suc z - a) (drop a content)) = None" by auto
    with that z dec show False by simp
  qed
  have cut: "take j ?w = take j (drop a content)" if "j \<le> Suc z - a" for j
    using that by (simp add: min_def)
  have k1: "1 \<le> k" using room full k(2) z(1) by linarith
  have "decode_back (int z = int (length content) - 1) ?w (max 1 (length ?w - 3)) (length ?w) = Some (strip_bom pre, k)"
    using k z full k1 wlen cut by (intro decode_back_finds) auto
  then show ?thesis using k k1 z
    by (intro exI [of _ k] exI [of _ pre] exI [of _ suf]) (auto simp: decoded_page_def add.commute)
qed

text \<open>A reader that starts at byte 0 and follows \<open>nextOffset\<close>, at most \<open>n\<close> pages.\<close>

fun read_text ::
    "js \<Rightarrow> (string \<Rightarrow> proc_error + http_response) \<Rightarrow> js \<Rightarrow> nat \<Rightarrow> int \<Rightarrow> nat list option" where
  "read_text product download limit 0 start = None"
| "read_text product download limit (Suc n) start =
     (case read_product_text product download (JNum (of_int start)) limit of Inl _ \<Rightarrow> None
      | Inr page \<Rightarrow> (case pt_next page of None \<Rightarrow> Some (pt_text page)
          | Some off \<Rightarrow> map_option (append (pt_text page)) (read_text product download limit n off)))"

text \<open>A sealed text product of this content.\<close>

definition sealed_text :: "js \<Rightarrow> nat list \<Rightarrow> bool" where
  "sealed_text product content \<longleftrightarrow>
     js_field product ''bytes'' = JNum (of_int (int (length content))) \<and> int (length content) \<le> max_safe
     \<and> sha256_ok (js_field product ''sha256'') \<and> text_media (js_field product ''mediaType'')"

lemma read_page:
  assumes "sealed_text product content" "int_param limit 16384 1 65536 ''limit'' = Inr count" "a < length content"
  shows "read_product_text product download (JNum (of_int (int a))) limit
    = read_range download (int a) (min (int (length content)) (int a + count) - 1) (int (length content))"
proof -
  from assms have "int_param (JNum (of_int (int a))) 0 0 max_safe ''offset'' = Inr (int a)"
    by (intro int_param_offset) (auto simp: sealed_text_def)
  with assms show ?thesis by (simp add: read_product_text_def sealed_text_def)
qed

lemma read_range_served:
  assumes "serves download content" "a \<le> z" "z < length content"
  shows "read_range download (int a) (int z) (int (length content))
    = decoded_page (take (Suc z - a) (drop a content)) (int a) (int z) (int (length content))"
proof -
  from serves_bytes [OF assms] obtain r where r: "download (range_header (int a) (int z)) = Inr r"
    "range_answered r (int a) (int z) (int (length content))"
    "bounded_bytes r (int z - int a + 1) = Inr (take (Suc z - a) (drop a content))" by blast
  have "int (length (take (Suc z - a) (drop a content))) = int z - int a + 1" using assms(2,3) by simp
  with r show ?thesis unfolding read_range_def by simp
qed

lemma strip_bom_id: "65279 \<notin> set cs \<Longrightarrow> strip_bom cs = cs"
  by (cases cs) (auto simp: strip_bom_def)

lemma read_text_from:
  assumes seal: "sealed_text product content" and srv: "serves download content"
    and lm: "int_param limit 16384 1 65536 ''limit'' = Inr count" "4 \<le> count"
  shows "a < length content \<Longrightarrow> utf8_decode (drop a content) = Some cs \<Longrightarrow> 65279 \<notin> set cs
    \<Longrightarrow> length content - a \<le> n \<Longrightarrow> read_text product download limit n (int a) = Some cs"
proof (induction n arbitrary: a cs)
  case (Suc n)
  define z where "z = nat (min (int (length content)) (int a + count) - 1)"
  have z: "a \<le> z" "z < length content" "min (int (length content)) (int a + count) - 1 = int z"
    "z = length content - 1 \<or> 4 \<le> Suc z - a"
    using Suc.prems(1) lm(2) by (auto simp: z_def)
  from decoded_page_cuts [OF Suc.prems(2) z(1,2,4)] obtain k pre suf where k: "1 \<le> k" "a + k \<le> length content"
    "cs = pre @ suf" "utf8_decode (drop (a + k) content) = Some suf"
    "decoded_page (take (Suc z - a) (drop a content)) (int a) (int z) (int (length content))
       = Inr \<lparr>pt_text = strip_bom pre, pt_offset = int a, pt_bytes = k, pt_total = int (length content),
              pt_next = (if a + k < length content then Some (int (a + k)) else None)\<rparr>" by blast
  have "strip_bom pre = pre" using Suc.prems(3) k(3) by (intro strip_bom_id) auto
  then have page: "read_product_text product download (JNum (of_int (int a))) limit
     = Inr \<lparr>pt_text = pre, pt_offset = int a, pt_bytes = k, pt_total = int (length content),
              pt_next = (if a + k < length content then Some (int (a + k)) else None)\<rparr>"
    using read_page [OF seal lm(1) Suc.prems(1), of download] read_range_served [OF srv z(1,2)] k(5)
    unfolding z(3) by (simp only:)
  show ?case
  proof (cases "a + k < length content")
    case True
    moreover have "65279 \<notin> set suf" "length content - (a + k) \<le> n" using Suc.prems k by auto
    ultimately have "read_text product download limit n (int (a + k)) = Some suf" using Suc.IH k(4) by blast
    with page True k(3) show ?thesis by simp
  next
    case False
    with k(2,4) have "suf = []" by (simp add: utf8_decode.simps [of "[]"])
    with page False k(3) show ?thesis by simp
  qed
qed simp

text \<open>Claim C26. Reading a text product range by range gives its text. When the service serves the bytes of a
  sealed UTF-8 product and the limit has room for one character, following \<open>nextOffset\<close> from byte 0 ends, and the
  texts of the pages concatenate to the text of the product: no page fails on a character cut by the end of its
  range, and none is lost, repeated or garbled. The product must not contain a byte order mark, which
  \<open>TextDecoder\<close> drops at the start of a page (\<open>page_start_loses_mark\<close>).\<close>

theorem product_text_read_back:
  assumes "sealed_text product content"
    and "serves download content"
    and "int_param limit 16384 1 65536 ''limit'' = Inr count" and "4 \<le> count"
    and "content \<noteq> []" and "utf8_decode content = Some cs" and "65279 \<notin> set cs"
  shows "read_text product download limit (length content) 0 = Some cs"
  using read_text_from [OF assms(1-4), of 0 cs "length content"] assms(5-7) by simp

subsection \<open>A service and two products\<close>

text \<open>A service that answers every range of the content, in two chunks.\<close>

definition ex_service :: "nat list \<Rightarrow> string \<Rightarrow> proc_error + http_response" where
  "ex_service content h =
     (case cut_at CHR ''-'' (drop 6 h) of None \<Rightarrow> Inl (Download_Failed ''416'')
      | Some p \<Rightarrow> (let a = parse_dec (fst p); z = parse_dec (snd p) in Inr \<lparr>resp_status = 206,
          resp_range = Some (content_range (int a) (int z) (int (length content))),
          resp_body = Some [[content ! a], take (z - a) (drop (Suc a) content)]\<rparr>))"

definition ex_product :: "nat \<Rightarrow> js" where
  "ex_product n = JObj [(''id'', JStr ''p1''), (''bytes'', JNum (of_nat n)),
     (''sha256'', JStr (replicate 64 CHR ''a'')), (''mediaType'', JStr ''text/markdown'')]"

text \<open>"Hi!" and a euro sign: the first page of four bytes ends inside it.\<close>

lemma product_text_read_back_witness:
  "read_text (ex_product 6) (ex_service [72, 105, 33, 226, 130, 172]) (JNum 4)
     (length [72, 105, 33, 226, 130, 172 :: nat]) 0 = Some [72, 105, 33, 8364]"
proof (rule product_text_read_back)
  show "sealed_text (ex_product 6) [72, 105, 33, 226, 130, 172]" by code_simp
  show "serves (ex_service [72, 105, 33, 226, 130, 172]) [72, 105, 33, 226, 130, 172]" by code_simp
  show "int_param (JNum 4) 16384 1 65536 ''limit'' = Inr 4" by code_simp
  show "utf8_decode [72, 105, 33, 226, 130, 172] = Some [72, 105, 33, 8364]"
    by (simp add: utf8_decode.simps)
qed simp_all

text \<open>A zero-width no-break space (bytes EF BB BF) that happens to start a page is missing from what is read.\<close>

lemma page_start_loses_mark:
  "utf8_decode [97, 98, 99, 100, 239, 187, 191, 101] = Some [97, 98, 99, 100, 65279, 101]"
  "decoded_page [97, 98, 99, 100] 0 3 8
     = Inr \<lparr>pt_text = [97, 98, 99, 100], pt_offset = 0, pt_bytes = 4, pt_total = 8, pt_next = Some 4\<rparr>"
  "decoded_page [239, 187, 191, 101] 4 7 8
     = Inr \<lparr>pt_text = [101], pt_offset = 4, pt_bytes = 4, pt_total = 8, pt_next = None\<rparr>"
  by (simp_all add: utf8_decode.simps decoded_page_def decode_back.simps text_decode_def strip_bom_def)

end
