(* ===== verification/Processing_Waits.thy ===== *)
theory Processing_Waits
  imports Processing_Ops Run_System
begin

text \<open>
  The observation waits of processing-operations.js (\<open>class ProcessingWaits\<close>). A caller has at most one wait
  pending; a wait asks \<open>observe\<close> again and again until the observation is ready, has changed, or its budget
  ends. \<open>wait\<close> is cut at its two awaits: a pending wait is at one of them (\<open>Observing\<close>, \<open>Sleeping\<close>) and the
  events resume it. \<open>randomUUID\<close> is a counter, \<open>JSON.stringify\<close> the parameter \<open>stringify\<close>, and the random
  factor of a backoff comes with its event. Times are milliseconds.
\<close>

definition TERMINAL_STATES :: "string list" where
  "TERMINAL_STATES = [''succeeded'', ''partial'', ''failed'', ''cancelled'', ''interrupted'']"

text \<open>\<open>observationKey\<close>: in an array, JSON writes an absent value as \<open>null\<close>.\<close>

definition observation_key :: "(js \<Rightarrow> string) \<Rightarrow> js \<Rightarrow> string" where
  "observation_key stringify obs = stringify (JArr (map (\<lambda>k. js_or_null (js_field obs k) JNull)
     [''state'', ''stage'', ''progress'', ''resultAvailable'', ''resultId'', ''cancelRequestedAt'', ''hold'',
      ''operationOutcome'']))"

definition obs_ready :: "js \<Rightarrow> bool" where
  "obs_ready obs \<longleftrightarrow> is_true (js_field obs ''resultAvailable'')
     \<or> (case js_field obs ''state'' of JStr s \<Rightarrow> s \<in> set TERMINAL_STATES | _ \<Rightarrow> False)"

datatype wait_phase = Observing | Sleeping

record wait =
  w_id :: nat
  w_handle :: js
  w_last :: js
  w_baseline :: "string option"
  w_attempt :: nat
  w_deadline :: rat
  w_phase :: wait_phase

record waits =
  w_pending :: "string \<Rightarrow> wait option"
  w_next :: nat


datatype wait_event =
    Wait_Called string js js bool rat   \<comment> \<open>caller, handle, timeoutMs, the signal is aborted, now\<close>
  | Observed string js rat rat          \<comment> \<open>an observation, now, the random factor\<close>
  | Observe_Failed string string
  | Slept string
  | Timer_Expired string
  | Caller_Aborted string
  | Abort_All "string list"             \<comment> \<open>the callers, in the map's order\<close>

datatype wait_out =
    Refused_Request string
  | In_Progress string nat js
  | Observe string nat
  | Sleep string rat
  | Answered nat js js bool bool        \<comment> \<open>wait, handle, what was last observed, timed out, ready\<close>
  | Threw nat string

definition before_first :: js where
  "before_first = JObj [(''state'', JStr ''unknown''), (''resultAvailable'', JBool False)]"

definition end_wait :: "waits \<Rightarrow> string \<Rightarrow> waits" where
  "end_wait s k = s\<lparr>w_pending := (w_pending s)(k := None)\<rparr>"

definition set_wait :: "waits \<Rightarrow> string \<Rightarrow> wait \<Rightarrow> waits" where
  "set_wait s k w = s\<lparr>w_pending := (w_pending s)(k := Some w)\<rparr>"

text \<open>\<open>Math.min(1000, pollMs * 1.5 ** Math.min(attempt, 8))\<close> and the sleep around it.\<close>

definition backoff_ms :: "rat \<Rightarrow> nat \<Rightarrow> rat" where
  "backoff_ms poll attempt = min 1000 (poll * (3 / 2) ^ min attempt 8)"

definition sleep_ms :: "rat \<Rightarrow> nat \<Rightarrow> rat \<Rightarrow> rat \<Rightarrow> rat" where
  "sleep_ms poll attempt left rnd = max 1 (min left (backoff_ms poll attempt * (3 / 4 + rnd / 2)))"

text \<open>From the call to the first \<open>observe\<close>. A signal that is aborted already throws before it, after the entry
  was set and removed again.\<close>

definition call_wait :: "waits \<Rightarrow> string \<Rightarrow> js \<Rightarrow> js \<Rightarrow> bool \<Rightarrow> rat \<Rightarrow> waits \<times> wait_out list" where
  "call_wait s k handle timeout aborted now =
     (case int_param timeout 20000 0 20000 ''timeoutMs'' of
        Inl _ \<Rightarrow> (s, [Refused_Request k])
      | Inr budget \<Rightarrow> (case w_pending s k of
          Some w \<Rightarrow> (s, [In_Progress k (w_id w) (w_handle w)])
        | None \<Rightarrow>
           (let n = w_next s; s1 = s\<lparr>w_next := Suc n\<rparr> in
            if aborted then (s1, [Threw n ''AbortError''])
            else (set_wait s1 k \<lparr>w_id = n, w_handle = handle, w_last = before_first, w_baseline = None,
                    w_attempt = 0, w_deadline = now + of_int budget, w_phase = Observing\<rparr>,
                  [Observe k n]))))"

text \<open>One turn of the loop after an observation arrived.\<close>

definition observe_wait ::
    "(js \<Rightarrow> string) \<Rightarrow> rat \<Rightarrow> waits \<Rightarrow> string \<Rightarrow> wait \<Rightarrow> js \<Rightarrow> rat \<Rightarrow> rat \<Rightarrow> waits \<times> wait_out list" where
  "observe_wait stringify poll s k w obs now rnd =
     (let key = observation_key stringify obs;
          changed = (w_baseline w \<noteq> None \<and> w_baseline w \<noteq> Some key);
          ready = obs_ready obs;
          late = (\<not> changed \<and> \<not> ready \<and> w_deadline w \<le> now)
      in if changed \<or> ready \<or> late then (end_wait s k, [Answered (w_id w) (w_handle w) obs late ready])
         else (set_wait s k (w\<lparr>w_last := obs, w_baseline := Some key, w_attempt := Suc (w_attempt w),
                               w_phase := Sleeping\<rparr>),
               [Sleep k (sleep_ms poll (w_attempt w) (w_deadline w - now) rnd)]))"

text \<open>The rejection of whatever the wait awaits: an expired budget is an answer, anything else is thrown.\<close>

definition expire_wait :: "waits \<Rightarrow> string \<Rightarrow> wait \<Rightarrow> waits \<times> wait_out list" where
  "expire_wait s k w = (end_wait s k, [Answered (w_id w) (w_handle w) (w_last w) True False])"

definition throw_wait :: "waits \<Rightarrow> string \<Rightarrow> wait \<Rightarrow> string \<Rightarrow> waits \<times> wait_out list" where
  "throw_wait s k w why = (end_wait s k, [Threw (w_id w) why])"

fun abort_all :: "waits \<Rightarrow> string list \<Rightarrow> waits \<times> wait_out list" where
  "abort_all s [] = (s, [])"
| "abort_all s (k # ks) =
     (case w_pending s k of None \<Rightarrow> abort_all s ks
      | Some w \<Rightarrow> (case throw_wait s k w ''AbortError'' of (s1, o1) \<Rightarrow>
          (case abort_all s1 ks of (s2, o2) \<Rightarrow> (s2, o1 @ o2))))"

definition with_wait :: "waits \<Rightarrow> string \<Rightarrow> (wait \<Rightarrow> waits \<times> wait_out list) \<Rightarrow> waits \<times> wait_out list" where
  "with_wait s k f = (case w_pending s k of None \<Rightarrow> (s, []) | Some w \<Rightarrow> f w)"

fun wait_step :: "(js \<Rightarrow> string) \<Rightarrow> rat \<Rightarrow> waits \<Rightarrow> wait_event \<Rightarrow> waits \<times> wait_out list" where
  "wait_step stringify poll s (Wait_Called k handle timeout aborted now) = call_wait s k handle timeout aborted now"
| "wait_step stringify poll s (Observed k obs now rnd) =
     with_wait s k (\<lambda>w. if w_phase w = Observing then observe_wait stringify poll s k w obs now rnd else (s, []))"
| "wait_step stringify poll s (Observe_Failed k why) =
     with_wait s k (\<lambda>w. if w_phase w = Observing then throw_wait s k w why else (s, []))"
| "wait_step stringify poll s (Slept k) =
     with_wait s k (\<lambda>w. if w_phase w = Sleeping
       then (set_wait s k (w\<lparr>w_phase := Observing\<rparr>), [Observe k (w_id w)]) else (s, []))"
| "wait_step stringify poll s (Timer_Expired k) = with_wait s k (expire_wait s k)"
| "wait_step stringify poll s (Caller_Aborted k) = with_wait s k (\<lambda>w. throw_wait s k w ''AbortError'')"
| "wait_step stringify poll s (Abort_All ks) = abort_all s ks"

subsection \<open>Every wait is answered once\<close>

text \<open>The waits an output settles, and those that are pending.\<close>

fun settles :: "wait_out \<Rightarrow> nat list" where
  "settles (Answered n _ _ _ _) = [n]"
| "settles (Threw n _) = [n]"
| "settles _ = []"

definition settled :: "wait_out list \<Rightarrow> nat list" where
  "settled outs = concat (map settles outs)"

definition is_pending :: "waits \<Rightarrow> nat \<Rightarrow> bool" where
  "is_pending s n \<longleftrightarrow> (\<exists>k w. w_pending s k = Some w \<and> w_id w = n)"

text \<open>Every wait that began is settled or pending, never both, and pending under one caller only.\<close>

definition one_caller :: "waits \<Rightarrow> bool" where
  "one_caller s \<longleftrightarrow> (\<forall>k1 k2 w1 w2. w_pending s k1 = Some w1 \<and> w_pending s k2 = Some w2 \<and> w_id w1 = w_id w2 \<longrightarrow> k1 = k2)"

definition waits_ok :: "waits \<times> wait_out list \<Rightarrow> bool" where
  "waits_ok r \<longleftrightarrow> distinct (settled (snd r)) \<and> one_caller (fst r)
     \<and> set (settled (snd r)) \<inter> Collect (is_pending (fst r)) = {}
     \<and> set (settled (snd r)) \<union> Collect (is_pending (fst r)) = {..< w_next (fst r)}"

lemma settled_append [simp]: "settled (xs @ ys) = settled xs @ settled ys"
  by (simp add: settled_def)

lemma settled_Nil [simp]: "settled [] = []"
  by (simp add: settled_def)

lemma settled_Cons [simp]: "settled (x # xs) = settles x @ settled xs"
  by (simp add: settled_def)

lemma is_pendingI: "w_pending s k = Some w \<Longrightarrow> is_pending s (w_id w)"
  by (auto simp: is_pending_def)

lemma one_callerD: "one_caller s \<Longrightarrow> w_pending s k1 = Some w1 \<Longrightarrow> w_pending s k2 = Some w2 \<Longrightarrow> w_id w1 = w_id w2 \<Longrightarrow> k1 = k2"
  unfolding one_caller_def by blast

text \<open>Ending a pending wait with one answer, keeping it with none, and beginning one.\<close>

lemma pending_end:
  assumes "one_caller s" "w_pending s k = Some w"
  shows "Collect (is_pending (end_wait s k)) = Collect (is_pending s) - {w_id w}"
proof (rule set_eqI)
  fix n
  have "is_pending (end_wait s k) n \<longleftrightarrow> (\<exists>j v. j \<noteq> k \<and> w_pending s j = Some v \<and> w_id v = n)"
    by (auto simp: is_pending_def end_wait_def)
  also have "\<dots> \<longleftrightarrow> is_pending s n \<and> n \<noteq> w_id w"
    using assms one_callerD [OF assms(1) _ assms(2)] unfolding is_pending_def by (metis option.inject)
  finally show "n \<in> Collect (is_pending (end_wait s k)) \<longleftrightarrow> n \<in> Collect (is_pending s) - {w_id w}" by simp
qed

lemma one_caller_end: "one_caller s \<Longrightarrow> one_caller (end_wait s k)"
  unfolding one_caller_def end_wait_def by (simp split: if_splits)

lemma waits_ok_end:
  assumes ok: "waits_ok (s, outs)" and w: "w_pending s k = Some w" and o: "settled os = [w_id w]"
  shows "waits_ok (end_wait s k, outs @ os)"
proof -
  have one: "one_caller s" using ok by (simp add: waits_ok_def)
  have "w_next (end_wait s k) = w_next s" by (simp add: end_wait_def)
  with ok o is_pendingI [OF w] one_caller_end [OF one] pending_end [OF one w] show ?thesis
    unfolding waits_ok_def by auto
qed

lemma is_pending_end: "is_pending (end_wait s k) n \<longleftrightarrow> (\<exists>j v. j \<noteq> k \<and> w_pending s j = Some v \<and> w_id v = n)"
  by (auto simp: is_pending_def end_wait_def)

lemma is_pending_set: "is_pending (set_wait s k v) n \<longleftrightarrow> n = w_id v \<or> is_pending (end_wait s k) n"
  unfolding is_pending_end unfolding is_pending_def set_wait_def by simp metis

lemma pending_set: "Collect (is_pending (set_wait s k v)) = insert (w_id v) (Collect (is_pending (end_wait s k)))"
  by (auto simp: is_pending_set)

lemma one_caller_set:
  assumes "one_caller s" "\<not> is_pending (end_wait s k) (w_id v)"
  shows "one_caller (set_wait s k v)"
  unfolding one_caller_def
proof (intro allI impI)
  fix k1 k2 w1 w2
  assume a: "w_pending (set_wait s k v) k1 = Some w1 \<and> w_pending (set_wait s k v) k2 = Some w2 \<and> w_id w1 = w_id w2"
  have other: "w_id u \<noteq> w_id v" if "j \<noteq> k" "w_pending s j = Some u" for j u
    using assms(2) that unfolding is_pending_end by blast
  show "k1 = k2"
  proof (cases "k1 = k \<or> k2 = k")
    case True
    with a other [of k1 w1] other [of k2 w2] show ?thesis by (auto simp: set_wait_def split: if_splits)
  next
    case False
    with a one_callerD [OF assms(1), of k1 w1 k2 w2] show ?thesis by (simp add: set_wait_def)
  qed
qed

lemma waits_ok_keep:
  assumes ok: "waits_ok (s, outs)" and w: "w_pending s k = Some w" "w_id v = w_id w" and o: "settled os = []"
  shows "waits_ok (set_wait s k v, outs @ os)"
proof -
  have one: "one_caller s" using ok by (simp add: waits_ok_def)
  have "Collect (is_pending (set_wait s k v)) = Collect (is_pending s)"
    using pending_set [of s k v] pending_end [OF one w(1)] is_pendingI [OF w(1)] w(2) by auto
  moreover have "one_caller (set_wait s k v)"
    using pending_end [OF one w(1)] w(2) by (intro one_caller_set [OF one]) auto
  moreover have "w_next (set_wait s k v) = w_next s" by (simp add: set_wait_def)
  ultimately show ?thesis using ok o unfolding waits_ok_def by simp
qed

text \<open>A new wait takes the next identity.\<close>

abbreviation next_wait :: "waits \<Rightarrow> waits" where
  "next_wait s \<equiv> s\<lparr>w_next := Suc (w_next s)\<rparr>"

lemma pending_next: "Collect (is_pending (next_wait s)) = Collect (is_pending s)"
  by (auto simp: is_pending_def)

lemma waits_ok_fresh: "waits_ok (s, outs) \<Longrightarrow> \<not> is_pending s (w_next s) \<and> w_next s \<notin> set (settled outs)"
  unfolding waits_ok_def by auto

lemma waits_ok_begin:
  assumes ok: "waits_ok (s, outs)" and free: "w_pending s k = None" and v: "w_id v = w_next s" and o: "settled os = []"
  shows "waits_ok (set_wait (next_wait s) k v, outs @ os)"
proof -
  have one: "one_caller (next_wait s)" using ok by (simp add: waits_ok_def one_caller_def)
  have e: "end_wait (next_wait s) k = next_wait s" using free by (simp add: end_wait_def fun_upd_idem)
  have pend: "Collect (is_pending (set_wait (next_wait s) k v)) = insert (w_next s) (Collect (is_pending s))"
    unfolding pending_set e pending_next v ..
  have "one_caller (set_wait (next_wait s) k v)"
    using waits_ok_fresh [OF ok] v by (intro one_caller_set [OF one]) (simp add: e is_pending_def)
  moreover have "w_next (set_wait (next_wait s) k v) = Suc (w_next s)" by (simp add: set_wait_def)
  ultimately show ?thesis using ok waits_ok_fresh [OF ok] o
    unfolding waits_ok_def fst_conv snd_conv pend by (auto simp: lessThan_Suc)
qed

lemma waits_ok_aborted_call:
  assumes ok: "waits_ok (s, outs)"
  shows "waits_ok (next_wait s, outs @ [Threw (w_next s) why])"
proof -
  have "one_caller (next_wait s)" using ok by (simp add: waits_ok_def one_caller_def)
  with ok waits_ok_fresh [OF ok] show ?thesis
    unfolding waits_ok_def fst_conv snd_conv pending_next by (auto simp: lessThan_Suc)
qed

lemma waits_ok_quiet: "waits_ok (s, outs) \<Longrightarrow> settled os = [] \<Longrightarrow> waits_ok (s, outs @ os)"
  by (simp add: waits_ok_def)

lemma abort_all_ok: "waits_ok (s, outs) \<Longrightarrow> abort_all s ks = (s1, os) \<Longrightarrow> waits_ok (s1, outs @ os)"
proof (induction ks arbitrary: s outs os)
  case (Cons k ks)
  show ?case
  proof (cases "w_pending s k")
    case None
    with Cons show ?thesis by simp
  next
    case (Some w)
    with Cons.prems obtain o2 where o: "abort_all (end_wait s k) ks = (s1, o2)" "os = Threw (w_id w) ''AbortError'' # o2"
      by (auto simp: throw_wait_def split: prod.splits)
    have "waits_ok (end_wait s k, outs @ [Threw (w_id w) ''AbortError''])"
      using waits_ok_end [OF Cons.prems(1) Some] by simp
    from Cons.IH [OF this o(1)] o(2) show ?thesis by simp
  qed
qed simp

lemma observe_wait_ok:
  assumes "waits_ok (s, outs)" "w_pending s k = Some w" "observe_wait stringify poll s k w obs now rnd = (s1, os)"
  shows "waits_ok (s1, outs @ os)"
  using assms(3) unfolding observe_wait_def Let_def
  by (auto split: if_splits intro!: waits_ok_end [OF assms(1,2)] waits_ok_keep [OF assms(1,2)])

lemma call_wait_ok:
  assumes "waits_ok (s, outs)" "call_wait s k handle timeout aborted now = (s1, os)"
  shows "waits_ok (s1, outs @ os)"
proof (cases "int_param timeout 20000 0 20000 ''timeoutMs''")
  case (Inl e)
  with assms(2) have "s1 = s" "os = [Refused_Request k]" by (simp_all add: call_wait_def)
  with waits_ok_quiet [OF assms(1), of os] show ?thesis by simp
next
  case (Inr b)
  show ?thesis
  proof (cases "w_pending s k")
    case None
    show ?thesis
    proof (cases aborted)
      case True
      with Inr None assms(2) have "s1 = next_wait s" "os = [Threw (w_next s) ''AbortError'']"
        by (simp_all add: call_wait_def Let_def)
      with waits_ok_aborted_call [OF assms(1)] show ?thesis by simp
    next
      case False
      with Inr None assms(2) have "os = [Observe k (w_next s)]"
        "s1 = set_wait (next_wait s) k \<lparr>w_id = w_next s, w_handle = handle, w_last = before_first, w_baseline = None,
                w_attempt = 0, w_deadline = now + of_int b, w_phase = Observing\<rparr>"
        by (simp_all add: call_wait_def Let_def)
      with waits_ok_begin [OF assms(1) None, of _ os] show ?thesis by simp
    qed
  next
    case (Some w)
    with Inr assms(2) have "s1 = s" "os = [In_Progress k (w_id w) (w_handle w)]" by (simp_all add: call_wait_def)
    with waits_ok_quiet [OF assms(1), of os] show ?thesis by simp
  qed
qed

lemma with_wait_ok:
  assumes "waits_ok (s, outs)" "with_wait s k f = (s1, os)"
    and "\<And>w. w_pending s k = Some w \<Longrightarrow> f w = (s1, os) \<Longrightarrow> waits_ok (s1, outs @ os)"
  shows "waits_ok (s1, outs @ os)"
  using assms by (cases "w_pending s k") (auto simp: with_wait_def)

lemma throw_wait_ok:
  assumes "waits_ok (s, outs)" "w_pending s k = Some w" "throw_wait s k w why = (s1, os)"
  shows "waits_ok (s1, outs @ os)"
  using waits_ok_end [OF assms(1,2), of os] assms(3) by (simp add: throw_wait_def) fastforce

lemma expire_wait_ok:
  assumes "waits_ok (s, outs)" "w_pending s k = Some w" "expire_wait s k w = (s1, os)"
  shows "waits_ok (s1, outs @ os)"
  using waits_ok_end [OF assms(1,2), of os] assms(3) by (simp add: expire_wait_def) fastforce

text \<open>A continuation that only runs in its phase.\<close>

lemma in_phase_ok:
  assumes "waits_ok (s, outs)" "(if ph then p else (s, [])) = (s1, os)" "ph \<Longrightarrow> p = (s1, os) \<Longrightarrow> waits_ok (s1, outs @ os)"
  shows "waits_ok (s1, outs @ os)"
  using assms by (cases ph) auto

lemma wait_step_ok:
  assumes ok: "waits_ok (s, outs)" and st: "wait_step stringify poll s e = (s1, os)"
  shows "waits_ok (s1, outs @ os)"
proof (cases e)
  case (Wait_Called k h t a now)
  with st show ?thesis by (simp add: call_wait_ok [OF ok])
next
  case (Observed k obs now rnd)
  from st show ?thesis unfolding Observed wait_step.simps
    by (rule with_wait_ok [OF ok]) (erule in_phase_ok [OF ok], rule observe_wait_ok [OF ok])
next
  case (Observe_Failed k why)
  from st show ?thesis unfolding Observe_Failed wait_step.simps
    by (rule with_wait_ok [OF ok]) (erule in_phase_ok [OF ok], rule throw_wait_ok [OF ok])
next
  case (Slept k)
  from st show ?thesis unfolding Slept wait_step.simps
  proof (rule with_wait_ok [OF ok])
    fix w assume w: "w_pending s k = Some w"
      "(if w_phase w = Sleeping then (set_wait s k (w\<lparr>w_phase := Observing\<rparr>), [Observe k (w_id w)]) else (s, [])) = (s1, os)"
    show "waits_ok (s1, outs @ os)"
      using ok waits_ok_keep [OF ok w(1), of "w\<lparr>w_phase := Observing\<rparr>" os] w(2) by (cases "w_phase w = Sleeping") auto
  qed
next
  case (Timer_Expired k)
  from st show ?thesis unfolding Timer_Expired wait_step.simps
    by (rule with_wait_ok [OF ok]) (rule expire_wait_ok [OF ok])
next
  case (Caller_Aborted k)
  from st show ?thesis unfolding Caller_Aborted wait_step.simps
    by (rule with_wait_ok [OF ok]) (rule throw_wait_ok [OF ok])
next
  case (Abort_All ks)
  with st show ?thesis by (simp add: abort_all_ok [OF ok])
qed

definition wait_run :: "(js \<Rightarrow> string) \<Rightarrow> rat \<Rightarrow> waits \<times> wait_out list \<Rightarrow> wait_event \<Rightarrow> waits \<times> wait_out list" where
  "wait_run stringify poll r e = (case wait_step stringify poll (fst r) e of (s1, os) \<Rightarrow> (s1, snd r @ os))"

interpretation wait_runs: run_invariant "wait_run stringify poll" waits_ok for stringify poll
proof unfold_locales
  fix r e assume "waits_ok r"
  then show "waits_ok (wait_run stringify poll r e)"
    using wait_step_ok [of "fst r" "snd r" stringify poll e] by (simp add: wait_run_def split: prod.splits)
qed


subsection \<open>What a wait answers\<close>



definition obs_of :: "nat \<Rightarrow> (nat \<times> js) list \<Rightarrow> js list" where
  "obs_of n seen = map snd (filter (\<lambda>x. fst x = n) seen)"




lemma obs_of_snoc [simp]: "obs_of n (seen @ [(m, obs)]) = (if m = n then obs_of n seen @ [obs] else obs_of n seen)"
  by (simp add: obs_of_def)
















text \<open>A wait that is not out of time reports something new or something final.\<close>

lemma answer_is_news:
  "observe_wait stringify poll s k w obs now rnd = (s1, os) \<Longrightarrow> Answered n h v False ready \<in> set os \<Longrightarrow>
   n = w_id w \<and> v = obs \<and> (obs_ready obs \<or> (\<exists>b. w_baseline w = Some b \<and> b \<noteq> observation_key stringify obs))"
  by (auto simp: observe_wait_def Let_def split: if_splits)

text \<open>A sleep never reaches past the deadline, except for its floor of one millisecond, and the backoff never
  exceeds one second.\<close>

lemma sleep_bounded: "1 \<le> sleep_ms poll attempt left rnd \<and> sleep_ms poll attempt left rnd \<le> max 1 left"
  by (simp add: sleep_ms_def)

end
