(* ===== verification/Managed_Catalog.thy ===== *)
theory Managed_Catalog
  imports Js_Value "HOL-Library.List_Lexorder" "HOL-Library.Char_ord"
begin

text \<open>
  managed-catalog.js: the catalog of models that the backend manages. A discovery document is checked field by
  field, becomes an artifact that names the backend, project and generation it is for and carries a digest of
  its content, and is published to a file that the next start reads when the backend cannot be reached. A file is the string of its bytes.

  Parsed JSON is \<open>js\<close>. \<open>URL\<close>, SHA-256, \<open>JSON.stringify\<close> and the decoding of a file (\<open>TextDecoder\<close>,
  \<open>JSON.parse\<close>) are the fields of \<open>catalog_env\<close>. An object's properties keep the order in which they were
  added; the one place where the order matters (\<open>canonical\<close>) sorts them.
\<close>

record url_parts =
  url_protocol :: string
  url_plain :: bool      \<comment> \<open>no user name, password, search or hash\<close>
  url_href :: string

record catalog_env =
  ce_url :: "string \<Rightarrow> url_parts option"
  ce_sha256 :: "string \<Rightarrow> string"
  ce_stringify :: "js \<Rightarrow> string"
  ce_parse :: "string \<Rightarrow> js option"

datatype catalog_error =
    Schema_Unsupported
  | Invalid_Field string
  | Invalid_Model string string     \<comment> \<open>the model, the field of its declaration\<close>
  | Invalid_Backend_Url
  | Invalid_Identity
  | Identity_Mismatch
  | Digest_Mismatch
  | Invalid_Json
  | Invalid_File
  | Response_Too_Large
  | Discovery_Unavailable
  | Io_Error

subsection \<open>Model identifiers\<close>

text \<open>The controls and format characters below code unit 256, and the class that no identifier may contain.\<close>

definition is_control :: "char \<Rightarrow> bool" where
  "is_control c \<longleftrightarrow> (of_char c :: nat) \<le> 31 \<or> 127 \<le> (of_char c :: nat) \<and> (of_char c :: nat) \<le> 159
     \<or> (of_char c :: nat) = 173"

definition model_id :: "js \<Rightarrow> bool" where
  "model_id v = (case v of
      JStr s \<Rightarrow> s \<noteq> [] \<and> list_all (\<lambda>c. \<not> is_space c \<and> \<not> is_control c
          \<and> c \<notin> {CHR ''#'', CHR ''?'', CHR 0x5C, CHR '':''}) s
    | _ \<Rightarrow> False)"

text \<open>\<open>slice(0, slash)\<close> with \<open>slash = -1\<close> drops the last character, and \<open>slice(0)\<close> is the whole reference.\<close>

definition managed_model_id :: "js \<Rightarrow> string option" where
  "managed_model_id reference = (case reference of
      JStr r \<Rightarrow>
       (case cut_at CHR ''/'' r of
          Some (a, b) \<Rightarrow> if a = ''proxy'' \<and> model_id (JStr b) then Some b else None
        | None \<Rightarrow> if butlast r = ''proxy'' \<and> model_id (JStr r) then Some r else None)
    | _ \<Rightarrow> None)"

subsection \<open>Checks\<close>

fun obj_props :: "js \<Rightarrow> (string \<times> js) list" where
  "obj_props (JObj ps) = ps"
| "obj_props _ = []"

definition own :: "js \<Rightarrow> string \<Rightarrow> bool" where
  "own v k \<longleftrightarrow> k \<in> fst ` set (obj_props v)"

text \<open>\<open>fields\<close>: an object with exactly these properties.\<close>

definition has_fields :: "js \<Rightarrow> string list \<Rightarrow> bool" where
  "has_fields v accepted \<longleftrightarrow>
     is_obj v \<and> length (obj_props v) = length accepted \<and> list_all (own v) accepted"

definition effort_id :: "js \<Rightarrow> bool" where
  "effort_id v = (case v of
      JStr s \<Rightarrow> s \<noteq> [] \<and> is_alnum (hd s) \<and> length s \<le> 64
        \<and> list_all (\<lambda>c. is_alnum c \<or> c \<in> {CHR ''_'', CHR ''.'', CHR ''-''}) (tl s)
    | _ \<Rightarrow> False)"

definition reasoning_efforts :: "string list" where
  "reasoning_efforts = [''none'', ''minimal'', ''low'', ''medium'', ''high'', ''xhigh'', ''max'']"

definition MODALITIES :: "string list" where
  "MODALITIES = [''text'', ''image'', ''audio'', ''video'', ''pdf'']"

fun positive_int :: "js \<Rightarrow> bool" where
  "positive_int (JNum n) \<longleftrightarrow> n = of_int \<lfloor>n\<rfloor> \<and> 0 < \<lfloor>n\<rfloor> \<and> \<lfloor>n\<rfloor> \<le> 9007199254740991"
| "positive_int _ \<longleftrightarrow> False"

fun strings_of :: "js list \<Rightarrow> string list option" where
  "strings_of [] = Some []"
| "strings_of (JStr s # vs) = map_option ((#) s) (strings_of vs)"
| "strings_of _ = None"

definition modalities_ok :: "js \<Rightarrow> bool" where
  "modalities_ok v = (case v of
      JArr vs \<Rightarrow> vs \<noteq> [] \<and> (case strings_of vs of None \<Rightarrow> False
        | Some ss \<Rightarrow> distinct ss \<and> list_all (\<lambda>s. s \<in> set MODALITIES) ss)
    | _ \<Rightarrow> False)"

definition name_ok :: "js \<Rightarrow> bool" where
  "name_ok v = (case v of JStr s \<Rightarrow> js_trim s \<noteq> [] \<and> list_all (\<lambda>c. \<not> is_control c) s | _ \<Rightarrow> False)"

fun num_or_zero :: "js \<Rightarrow> rat" where
  "num_or_zero (JNum n) = n"
| "num_or_zero _ = 0"

text \<open>The variants of a model: \<open>seen\<close> are the identifiers so far. The result is the field that fails.\<close>

fun variants_fail :: "string list \<Rightarrow> js list \<Rightarrow> string option" where
  "variants_fail seen [] = None"
| "variants_fail seen (v # vs) =
     (let i = js_field v ''id''; settings = js_field v ''settings''; reasoning = js_field settings ''reasoning'' in
      if \<not> has_fields v [''id'', ''settings''] then Some ''.variants[]''
      else if \<not> effort_id i \<or> (case i of JStr s \<Rightarrow> s \<in> set seen | _ \<Rightarrow> False) then Some ''.variants[].id''
      else if \<not> has_fields settings [''reasoning''] then Some ''.variants[].settings''
      else if \<not> has_fields reasoning [''effort''] then Some ''.variants[].settings.reasoning''
      else if \<not> (case js_field reasoning ''effort'' of JStr s \<Rightarrow> s \<in> set reasoning_efforts | _ \<Rightarrow> False)
      then Some ''.variants[].settings.reasoning.effort''
      else variants_fail ((case i of JStr s \<Rightarrow> s | _ \<Rightarrow> []) # seen) vs)"

text \<open>The first check of a list that fails names its field.\<close>

fun first_fail :: "(bool \<times> string) list \<Rightarrow> string option" where
  "first_fail [] = None"
| "first_fail (c # cs) = (if fst c then first_fail cs else Some (snd c))"

fun is_bool :: "js \<Rightarrow> bool" where
  "is_bool (JBool _) = True"
| "is_bool _ = False"

definition model_checks :: "js \<Rightarrow> (bool \<times> string) list" where
  "model_checks item =
     (let caps = js_field item ''capabilities''; limits = js_field item ''limit'' in
        [(has_fields item [''name'', ''capabilities'', ''limit'', ''variants''], []),
         (name_ok (js_field item ''name''), ''.name''),
         (has_fields caps [''tools'', ''input'', ''output''], ''.capabilities''),
         (is_bool (js_field caps ''tools''), ''.capabilities.tools''),
         (modalities_ok (js_field caps ''input''), ''.capabilities.input''),
         (modalities_ok (js_field caps ''output''), ''.capabilities.output''),
         (has_fields limits [''context'', ''input'', ''output''], ''.limit''),
         (positive_int (js_field limits ''context''), ''.limit.context''),
         (positive_int (js_field limits ''input''), ''.limit.input''),
         (positive_int (js_field limits ''output''), ''.limit.output''),
         (num_or_zero (js_field limits ''input'')
            \<le> num_or_zero (js_field limits ''context'') - num_or_zero (js_field limits ''output''),
          ''.limit.input+output'')])"

definition model_fail :: "js \<Rightarrow> string option" where
  "model_fail item =
     (case first_fail (model_checks item) of
        Some f \<Rightarrow> Some f
      | None \<Rightarrow> (case js_field item ''variants'' of JArr vs \<Rightarrow> variants_fail [] vs | _ \<Rightarrow> Some ''.variants''))"

fun models_of :: "js \<Rightarrow> string list \<Rightarrow> catalog_error + (string \<times> js) list" where
  "models_of managed [] = Inr []"
| "models_of managed (i # ids) =
     (case model_fail (js_field managed i) of
        Some f \<Rightarrow> Inl (Invalid_Model i f)
      | None \<Rightarrow> (case models_of managed ids of Inl e \<Rightarrow> Inl e
                 | Inr ms \<Rightarrow> Inr ((i, js_field managed i) # ms)))"

definition valid_ids :: "js \<Rightarrow> string list option" where
  "valid_ids v = (case v of
      JArr vs \<Rightarrow> (if list_all model_id vs then (case strings_of vs of
          Some ids \<Rightarrow> if distinct ids then Some ids else None | None \<Rightarrow> None) else None)
    | _ \<Rightarrow> None)"

definition discovery :: "string list \<Rightarrow> js \<Rightarrow> (string \<times> js) list \<Rightarrow> js" where
  "discovery ids dflt models = JObj
     [(''discovery_schema_version'', JNum 2), (''allowed_model_ids'', JArr (map JStr ids)),
      (''default_model_id'', dflt), (''managed_models'', JObj models)]"

definition validate_discovery :: "js \<Rightarrow> catalog_error + js" where
  "validate_discovery value =
     (if \<not> is_obj value \<or> js_field value ''discovery_schema_version'' \<noteq> JNum 2 then Inl Schema_Unsupported
      else (case valid_ids (js_field value ''allowed_model_ids'') of
        None \<Rightarrow> Inl (Invalid_Field ''allowed_model_ids'')
      | Some ids \<Rightarrow>
         (let managed = js_field value ''managed_models''; dflt = js_field value ''default_model_id'' in
          if \<not> is_obj managed \<or> length (obj_props managed) \<noteq> length ids \<or> \<not> list_all (own managed) ids
          then Inl (Invalid_Field ''managed_models'')
          else if dflt \<noteq> JNull \<and> (\<not> model_id dflt \<or> dflt \<notin> set (map JStr ids))
          then Inl (Invalid_Field ''default_model_id'')
          else (case models_of managed ids of Inl e \<Rightarrow> Inl e
                | Inr models \<Rightarrow> Inr (discovery ids dflt models)))))"

subsection \<open>The artifact\<close>

definition strip_slashes :: "string \<Rightarrow> string" where
  "strip_slashes s = rev (dropWhile (\<lambda>c. c = CHR ''/'') (rev s))"

definition normalize_backend_url :: "catalog_env \<Rightarrow> js \<Rightarrow> string option" where
  "normalize_backend_url env v = (case v of
      JStr s \<Rightarrow> (case ce_url env s of
          Some u \<Rightarrow> if url_protocol u \<in> {''http:'', ''https:''} \<and> url_plain u
                    then Some (strip_slashes (url_href u)) else None
        | None \<Rightarrow> None)
    | _ \<Rightarrow> None)"

record identity =
  id_url :: string
  id_project :: string
  id_generation :: "string option"

definition plain_name :: "js \<Rightarrow> string option" where
  "plain_name v = (case v of JStr s \<Rightarrow> if s \<noteq> [] \<and> list_all (\<lambda>c. \<not> is_control c) s then Some s else None | _ \<Rightarrow> None)"

definition normalize_identity :: "catalog_env \<Rightarrow> js \<Rightarrow> catalog_error + identity" where
  "normalize_identity env value =
     (case plain_name (js_field value ''projectId'') of
        None \<Rightarrow> Inl Invalid_Identity
      | Some project \<Rightarrow>
         (let g = js_field value ''runtimeGeneration'' in
          if \<not> is_obj value \<or> g \<noteq> JNull \<and> plain_name g = None then Inl Invalid_Identity
          else (case normalize_backend_url env (js_field value ''backendBaseUrl'') of
             None \<Rightarrow> Inl Invalid_Backend_Url
           | Some u \<Rightarrow> Inr \<lparr>id_url = u, id_project = project, id_generation = plain_name g\<rparr>)))"

definition generation_json :: "string option \<Rightarrow> js" where
  "generation_json g = (case g of None \<Rightarrow> JNull | Some s \<Rightarrow> JStr s)"

text \<open>\<open>canonical\<close> sorts the properties of every object by code units before it is written.\<close>

fun canon :: "js \<Rightarrow> js" where
  "canon (JObj ps) = JObj (map (\<lambda>p. (fst p, canon (snd p))) (sort_key (\<lambda>p. fst p) ps))"
| "canon (JArr vs) = JArr (map canon vs)"
| "canon v = v"

definition identity_json :: "identity \<Rightarrow> js" where
  "identity_json i = JObj [(''backendBaseUrl'', JStr (id_url i)), (''projectId'', JStr (id_project i)),
     (''runtimeGeneration'', generation_json (id_generation i))]"

definition canonical :: "catalog_env \<Rightarrow> js \<Rightarrow> string" where
  "canonical env v = ce_stringify env (canon v)"

definition catalog_digest :: "catalog_env \<Rightarrow> js \<Rightarrow> string" where
  "catalog_digest env catalog = ce_sha256 env (canonical env (JObj
     [(''default_model_id'', js_field catalog ''default_model_id''),
      (''managed_models'', js_field catalog ''managed_models'')]))"

definition artifact_json :: "identity \<Rightarrow> string \<Rightarrow> js \<Rightarrow> js" where
  "artifact_json i digest catalog = JObj
     [(''artifactSchemaVersion'', JNum 1), (''backendBaseUrl'', JStr (id_url i)),
      (''projectId'', JStr (id_project i)), (''runtimeGeneration'', generation_json (id_generation i)),
      (''discoverySchemaVersion'', JNum 2), (''digest'', JStr digest), (''catalog'', catalog)]"

definition create_artifact :: "catalog_env \<Rightarrow> js \<Rightarrow> js \<Rightarrow> catalog_error + js" where
  "create_artifact env value identity = (case validate_discovery value of Inl e \<Rightarrow> Inl e
     | Inr catalog \<Rightarrow> (case normalize_identity env identity of Inl e \<Rightarrow> Inl e
         | Inr i \<Rightarrow> Inr (artifact_json i (catalog_digest env catalog) catalog)))"

definition ARTIFACT_FIELDS :: "string list" where
  "ARTIFACT_FIELDS = [''artifactSchemaVersion'', ''backendBaseUrl'', ''projectId'', ''runtimeGeneration'',
     ''discoverySchemaVersion'', ''digest'', ''catalog'']"

definition CATALOG_FIELDS :: "string list" where
  "CATALOG_FIELDS = [''discovery_schema_version'', ''allowed_model_ids'', ''default_model_id'', ''managed_models'']"

definition validate_artifact :: "catalog_env \<Rightarrow> js \<Rightarrow> js \<Rightarrow> catalog_error + js" where
  "validate_artifact env value identity =
     (if \<not> has_fields value ARTIFACT_FIELDS then Inl (Invalid_Field ''artifact'')
      else if \<not> has_fields (js_field value ''catalog'') CATALOG_FIELDS then Inl (Invalid_Field ''artifact.catalog'')
      else if js_field value ''artifactSchemaVersion'' \<noteq> JNum 1 \<or> js_field value ''discoverySchemaVersion'' \<noteq> JNum 2
      then Inl Schema_Unsupported
      else (case normalize_identity env identity of Inl e \<Rightarrow> Inl e | Inr expected \<Rightarrow>
           (case normalize_identity env value of Inl e \<Rightarrow> Inl e | Inr actual \<Rightarrow>
             if canonical env (identity_json expected) \<noteq> canonical env (identity_json actual)
                \<or> js_field value ''backendBaseUrl'' \<noteq> JStr (id_url actual) then Inl Identity_Mismatch
             else (case create_artifact env (js_field value ''catalog'') (identity_json actual) of Inl e \<Rightarrow> Inl e
                 | Inr validated \<Rightarrow>
                     if js_field value ''digest'' \<noteq> js_field validated ''digest'' then Inl Digest_Mismatch
                     else Inr validated))))"

subsection \<open>Fetching, publishing and reading\<close>

datatype catalog_file = Absent | Regular string | Not_Regular

text \<open>\<open>readCatalogArtifact\<close>; a symbolic link or a missing file does not open.\<close>

definition read_artifact :: "catalog_env \<Rightarrow> catalog_file \<Rightarrow> js \<Rightarrow> nat \<Rightarrow> catalog_error + js" where
  "read_artifact env file identity max_bytes = (case file of
      Absent \<Rightarrow> Inl Io_Error
    | Not_Regular \<Rightarrow> Inl Invalid_File
    | Regular text \<Rightarrow>
        if max_bytes < length text then Inl Invalid_File
        else (case ce_parse env text of None \<Rightarrow> Inl Invalid_Json
              | Some v \<Rightarrow> validate_artifact env v identity))"

text \<open>The steps of \<open>publishCatalog\<close> on the disk: the temporary file beside the target, then the rename.\<close>

record catalog_disk =
  cd_target :: catalog_file
  cd_temp :: "string option"

datatype publish_op = Create_Temp | Write_Temp string | Sync_Temp | Rename_Temp | Sync_Parent | Unlink_Temp

fun publish_op_step :: "catalog_disk \<Rightarrow> publish_op \<Rightarrow> catalog_disk" where
  "publish_op_step d Create_Temp = d\<lparr>cd_temp := Some []\<rparr>"
| "publish_op_step d (Write_Temp text) = (case cd_temp d of None \<Rightarrow> d | Some t \<Rightarrow> d\<lparr>cd_temp := Some (t @ text)\<rparr>)"
| "publish_op_step d Sync_Temp = d"
| "publish_op_step d Rename_Temp =
     (case cd_temp d of None \<Rightarrow> d | Some t \<Rightarrow> d\<lparr>cd_target := Regular t, cd_temp := None\<rparr>)"
| "publish_op_step d Sync_Parent = d"
| "publish_op_step d Unlink_Temp = d\<lparr>cd_temp := None\<rparr>"

text \<open>How far a publish gets; a write that fails may have written some of its bytes.\<close>

datatype publish_end = Temp_Fails | Write_Fails nat | Rename_Fails | Sync_Fails | Published

definition artifact_text :: "catalog_env \<Rightarrow> js \<Rightarrow> string" where
  "artifact_text env artifact = ce_stringify env artifact @ [CHR 0x0A]"

fun publish_ops :: "string \<Rightarrow> publish_end \<Rightarrow> publish_op list" where
  "publish_ops text Temp_Fails = [Unlink_Temp]"
| "publish_ops text (Write_Fails n) = [Create_Temp, Write_Temp (take n text), Unlink_Temp]"
| "publish_ops text Rename_Fails = [Create_Temp, Write_Temp text, Sync_Temp, Unlink_Temp]"
| "publish_ops text Sync_Fails = [Create_Temp, Write_Temp text, Sync_Temp, Rename_Temp, Unlink_Temp]"
| "publish_ops text Published = [Create_Temp, Write_Temp text, Sync_Temp, Rename_Temp, Sync_Parent, Unlink_Temp]"

text \<open>\<open>publishCatalog\<close>: the operations it performs, and what it returns. A validation error performs none.\<close>

definition publish_catalog ::
    "catalog_env \<Rightarrow> js \<Rightarrow> js \<Rightarrow> publish_end \<Rightarrow> publish_op list \<times> (catalog_error + js)" where
  "publish_catalog env value identity how = (case create_artifact env value identity of
      Inl e \<Rightarrow> ([], Inl e)
    | Inr artifact \<Rightarrow> (publish_ops (artifact_text env artifact) how,
        if how = Published then Inr artifact else Inl Io_Error))"

text \<open>\<open>fetchDiscovery\<close>: what the backend's answer becomes. \<open>None\<close> is a request that failed.\<close>

fun read_limited :: "nat \<Rightarrow> string list \<Rightarrow> string \<Rightarrow> catalog_error + string" where
  "read_limited mx [] acc = Inr acc"
| "read_limited mx (c # cs) acc =
     (if mx < length acc + length c then Inl Response_Too_Large else read_limited mx cs (acc @ c))"

definition fetch_discovery :: "catalog_env \<Rightarrow> nat \<Rightarrow> (bool \<times> string list option) option \<Rightarrow> catalog_error + js" where
  "fetch_discovery env mx response = (case response of
      None \<Rightarrow> Inl Io_Error
    | Some (ok, body) \<Rightarrow> (case body of
        None \<Rightarrow> Inl Discovery_Unavailable
      | Some chunks \<Rightarrow>
         if \<not> ok then Inl Discovery_Unavailable
         else (case read_limited mx chunks [] of Inl e \<Rightarrow> Inl e
               | Inr text \<Rightarrow> (case ce_parse env text of None \<Rightarrow> Inl Invalid_Json
                   | Some v \<Rightarrow> validate_discovery v))))"

datatype catalog_state = Fresh js | Stale js | Unavailable

text \<open>\<open>startupCatalog\<close>: the disk it leaves and the catalog the engine starts with.\<close>

definition startup_catalog ::
    "catalog_env \<Rightarrow> nat \<Rightarrow> js \<Rightarrow> (bool \<times> string list option) option \<Rightarrow> publish_end \<Rightarrow> catalog_disk
     \<Rightarrow> catalog_error + catalog_disk \<times> catalog_state" where
  "startup_catalog env mx configured response how d =
     (case normalize_identity env configured of Inl e \<Rightarrow> Inl e
      | Inr i \<Rightarrow>
       (case (case fetch_discovery env mx response of Inl e \<Rightarrow> ([], Inl e)
              | Inr value \<Rightarrow> publish_catalog env value (identity_json i) how) of
          (ops, Inr artifact) \<Rightarrow> Inr (foldl publish_op_step d ops, Fresh artifact)
        | (ops, Inl e) \<Rightarrow>
            (let d1 = foldl publish_op_step d ops in
             Inr (d1, (case read_artifact env (cd_target d1) (identity_json i) (mx + 4096) of
                     Inr artifact \<Rightarrow> Stale artifact | Inl _ \<Rightarrow> Unavailable)))))"

end
