(* ===== verification/Catalog_Props.thy ===== *)
theory Catalog_Props
  imports Managed_Catalog
begin

text \<open>
  What managed-catalog.js promises: a document that passes the check passes it again unchanged and holds
  nothing but the declared fields, and the artifact that a start publishes is the one that the next start
  reads, whole, and only for the same backend, project and generation.
\<close>

subsection \<open>Validation is idempotent\<close>

lemma strings_of_map [simp]: "strings_of (map JStr ss) = Some ss"
  by (induction ss) auto

lemma strings_of_Some: "strings_of vs = Some ss \<Longrightarrow> vs = map JStr ss"
  by (induction vs arbitrary: ss rule: strings_of.induct) auto

lemma valid_ids_Some: "valid_ids v = Some ids \<Longrightarrow> v = JArr (map JStr ids) \<and> distinct ids \<and> (\<forall>i \<in> set ids. model_id (JStr i))"
  by (auto simp: valid_ids_def list_all_iff split: js.splits option.splits if_splits dest!: strings_of_Some)

lemma valid_ids_again: "distinct ids \<Longrightarrow> \<forall>i \<in> set ids. model_id (JStr i) \<Longrightarrow> valid_ids (JArr (map JStr ids)) = Some ids"
  by (simp add: valid_ids_def list_all_iff)

lemma models_of_Inr:
  "models_of managed ids = Inr ms \<Longrightarrow>
   map fst ms = ids \<and> (\<forall>p \<in> set ms. snd p = js_field managed (fst p) \<and> model_fail (snd p) = None)"
  by (induction ids arbitrary: ms) (auto split: option.splits sum.splits)

lemma models_of_same:
  "(\<forall>i \<in> set ids. js_field managed i = js_field other i) \<Longrightarrow> models_of managed ids = models_of other ids"
  by (induction ids) (auto split: option.splits sum.splits)

lemma field_of_distinct:
  "distinct (map fst ms) \<Longrightarrow> (k, v) \<in> set ms \<Longrightarrow> js_field (JObj ms) k = v"
  by (simp add: map_of_is_SomeI)

lemma own_obj: "own (JObj ps) k \<longleftrightarrow> k \<in> set (map fst ps)"
  by (auto simp: own_def)

text \<open>What the check passes is a discovery document with these parts.\<close>

lemma validate_Inr:
  assumes "validate_discovery v = Inr c"
  obtains ids dflt ms where
    "c = discovery ids dflt ms" "distinct ids" "\<forall>i \<in> set ids. model_id (JStr i)"
    "dflt = JNull \<or> model_id dflt \<and> dflt \<in> set (map JStr ids)"
    "map fst ms = ids" "\<forall>p \<in> set ms. model_fail (snd p) = None"
proof -
  from assms obtain ids where ids: "valid_ids (js_field v ''allowed_model_ids'') = Some ids"
    by (auto simp: validate_discovery_def split: option.splits if_splits)
  with assms obtain ms where ms: "models_of (js_field v ''managed_models'') ids = Inr ms"
    "c = discovery ids (js_field v ''default_model_id'') ms"
    "js_field v ''default_model_id'' = JNull \<or> model_id (js_field v ''default_model_id'')
       \<and> js_field v ''default_model_id'' \<in> set (map JStr ids)"
    by (auto simp: validate_discovery_def Let_def split: if_splits sum.splits)
  from valid_ids_Some [OF ids] models_of_Inr [OF ms(1)] ms(2,3) that show thesis by blast
qed

lemma discovery_fields [simp]:
  "js_field (discovery ids dflt ms) ''discovery_schema_version'' = JNum 2"
  "js_field (discovery ids dflt ms) ''allowed_model_ids'' = JArr (map JStr ids)"
  "js_field (discovery ids dflt ms) ''default_model_id'' = dflt"
  "js_field (discovery ids dflt ms) ''managed_models'' = JObj ms"
  "is_obj (discovery ids dflt ms)"
  by (simp_all add: discovery_def)

lemma validate_again:
  assumes "validate_discovery v = Inr c"
  shows "validate_discovery c = Inr c"
proof -
  from validate_Inr [OF assms] obtain ids dflt ms where c: "c = discovery ids dflt ms" "distinct ids"
    "\<forall>i \<in> set ids. model_id (JStr i)" "dflt = JNull \<or> model_id dflt \<and> dflt \<in> set (map JStr ids)"
    "map fst ms = ids" "\<forall>p \<in> set ms. model_fail (snd p) = None" by blast
  have "models_of (JObj ms) (map fst ms') = Inr ms'" if "set ms' \<subseteq> set ms" for ms'
    using that
  proof (induction ms')
    case (Cons p ps)
    then have "js_field (JObj ms) (fst p) = snd p" using c(2,5) by (intro field_of_distinct) auto
    with Cons c(6) show ?case by auto
  qed simp
  from this [of ms] c(5) have "models_of (JObj ms) ids = Inr ms" by simp
  moreover have "length ms = length ids" "list_all (own (JObj ms)) ids"
    using c(5) by (auto simp: own_obj list_all_iff)
  ultimately show ?thesis using c(2-4) unfolding validate_discovery_def c(1)
    by (auto simp: valid_ids_again)
qed

subsection \<open>The artifact is its own check\<close>

text \<open>Documented of \<open>URL\<close>: writing a parsed URL out and parsing it again changes nothing.\<close>

definition url_stable :: "catalog_env \<Rightarrow> bool" where
  "url_stable env \<longleftrightarrow> (\<forall>v u. normalize_backend_url env v = Some u \<longrightarrow> normalize_backend_url env (JStr u) = Some u)"

lemma plain_name_Some: "plain_name v = Some s \<Longrightarrow> v = JStr s \<and> plain_name (JStr s) = Some s"
  by (auto simp: plain_name_def split: js.splits if_splits)

lemma normalize_Inr:
  assumes "normalize_identity env v = Inr i"
  shows "js_field v ''projectId'' = JStr (id_project i)" "plain_name (JStr (id_project i)) = Some (id_project i)"
    "js_field v ''runtimeGeneration'' = generation_json (id_generation i)"
    "plain_name (generation_json (id_generation i)) = id_generation i"
    "normalize_backend_url env (js_field v ''backendBaseUrl'') = Some (id_url i)"
  using assms
  by (auto simp: normalize_identity_def Let_def generation_json_def plain_name_def
      split: option.splits if_splits js.splits)

lemma normalize_again:
  assumes "url_stable env" "normalize_identity env v = Inr i" "is_obj w"
    "js_field w ''projectId'' = JStr (id_project i)" "js_field w ''runtimeGeneration'' = generation_json (id_generation i)"
    "js_field w ''backendBaseUrl'' = JStr (id_url i)"
  shows "normalize_identity env w = Inr i"
proof -
  have "normalize_backend_url env (JStr (id_url i)) = Some (id_url i)"
    using assms(1) normalize_Inr(5) [OF assms(2)] unfolding url_stable_def by blast
  moreover have "generation_json (id_generation i) \<noteq> JNull \<Longrightarrow> plain_name (generation_json (id_generation i)) \<noteq> None"
    using normalize_Inr(4) [OF assms(2)] by (auto simp: generation_json_def split: option.splits)
  ultimately show ?thesis using assms normalize_Inr [OF assms(2)] by (auto simp: normalize_identity_def Let_def)
qed

lemma identity_json_fields [simp]:
  "js_field (identity_json i) ''projectId'' = JStr (id_project i)"
  "js_field (identity_json i) ''runtimeGeneration'' = generation_json (id_generation i)"
  "js_field (identity_json i) ''backendBaseUrl'' = JStr (id_url i)" "is_obj (identity_json i)"
  by (simp_all add: identity_json_def)

lemma artifact_json_fields [simp]:
  "js_field (artifact_json i d c) ''projectId'' = JStr (id_project i)"
  "js_field (artifact_json i d c) ''runtimeGeneration'' = generation_json (id_generation i)"
  "js_field (artifact_json i d c) ''backendBaseUrl'' = JStr (id_url i)" "is_obj (artifact_json i d c)"
  "js_field (artifact_json i d c) ''artifactSchemaVersion'' = JNum 1"
  "js_field (artifact_json i d c) ''discoverySchemaVersion'' = JNum 2"
  "js_field (artifact_json i d c) ''digest'' = JStr d" "js_field (artifact_json i d c) ''catalog'' = c"
  by (simp_all add: artifact_json_def)

lemma create_Inr:
  assumes "create_artifact env value identity = Inr a"
  obtains c i where "validate_discovery value = Inr c" "normalize_identity env identity = Inr i"
    "a = artifact_json i (catalog_digest env c) c"
  using assms by (auto simp: create_artifact_def split: sum.splits)

lemma artifact_validates:
  assumes "url_stable env" "create_artifact env value identity = Inr a"
  shows "validate_artifact env a identity = Inr a"
proof -
  from create_Inr [OF assms(2)] obtain c i where a: "validate_discovery value = Inr c"
    "normalize_identity env identity = Inr i" "a = artifact_json i (catalog_digest env c) c" by blast
  have ids: "normalize_identity env (artifact_json i (catalog_digest env c) c) = Inr i"
      "normalize_identity env (identity_json i) = Inr i"
    by (rule normalize_again [OF assms(1) a(2)]; simp)+
  have "has_fields (artifact_json i (catalog_digest env c) c) ARTIFACT_FIELDS"
    by (simp add: has_fields_def ARTIFACT_FIELDS_def artifact_json_def own_def)
  moreover have "has_fields c CATALOG_FIELDS"
    by (rule validate_Inr [OF a(1)]) (simp add: has_fields_def CATALOG_FIELDS_def discovery_def own_def)
  moreover have "create_artifact env c (identity_json i) = Inr (artifact_json i (catalog_digest env c) c)"
    using validate_again [OF a(1)] ids(2) by (simp add: create_artifact_def)
  ultimately show ?thesis using a(2) ids(1) by (simp add: validate_artifact_def a(3))
qed

text \<open>An artifact that is accepted is the one for this identity: when different identities are written
  differently, nothing of another backend, project or generation passes, nor a catalog that was changed
  without its digest.\<close>

lemma accepted_artifact:
  assumes "url_stable env" "validate_artifact env v identity = Inr a"
    and inj: "\<And>x y. canonical env (identity_json x) = canonical env (identity_json y) \<Longrightarrow> x = y"
  shows "\<exists>i c. normalize_identity env identity = Inr i \<and> validate_discovery (js_field v ''catalog'') = Inr c
     \<and> a = artifact_json i (catalog_digest env c) c \<and> js_field v ''digest'' = JStr (catalog_digest env c)"
proof -
  from assms(2) obtain e i where i: "normalize_identity env identity = Inr e" "normalize_identity env v = Inr i"
      "canonical env (identity_json e) = canonical env (identity_json i)"
      "create_artifact env (js_field v ''catalog'') (identity_json i) = Inr a" "js_field v ''digest'' = js_field a ''digest''"
    by (auto simp: validate_artifact_def split: if_splits sum.splits)
  from create_Inr [OF i(4)] obtain c j where c: "validate_discovery (js_field v ''catalog'') = Inr c"
    "normalize_identity env (identity_json i) = Inr j" "a = artifact_json j (catalog_digest env c) c" by blast
  have "normalize_identity env (identity_json i) = Inr i"
    by (rule normalize_again [OF assms(1) i(2)]) simp_all
  with c(2) have "j = i" by simp
  with inj [OF i(3)] i(1,5) c show ?thesis by simp
qed

subsection \<open>Nothing but the declared fields\<close>

text \<open>Every property name that occurs anywhere in a value.\<close>

fun all_keys :: "js \<Rightarrow> string list" where
  "all_keys (JObj ps) = concat (map (\<lambda>p. fst p # all_keys (snd p)) ps)"
| "all_keys (JArr vs) = concat (map all_keys vs)"
| "all_keys _ = []"

definition MODEL_FIELDS :: "string list" where
  "MODEL_FIELDS = [''name'', ''capabilities'', ''tools'', ''input'', ''output'', ''limit'', ''context'', ''variants'',
     ''id'', ''settings'', ''reasoning'', ''effort'']"

lemma has_fields_props:
  assumes "has_fields v acc" "distinct acc"
  shows "\<exists>ps. v = JObj ps \<and> fst ` set ps = set acc \<and> (\<forall>p \<in> set ps. snd p = js_field v (fst p))"
proof -
  from assms(1) obtain ps where v: "v = JObj ps" "length ps = length acc" "set acc \<subseteq> fst ` set ps"
    by (cases v) (auto simp: has_fields_def own_def list_all_iff)
  have "card (fst ` set ps) \<le> card (set acc)"
    using v(2) card_image_le [of "set ps" fst] card_length [of ps] distinct_card [OF assms(2)] by simp
  then have eq: "fst ` set ps = set acc" using card_seteq [OF _ v(3)] by simp
  then have "distinct (map fst ps)" using v(2) distinct_card [OF assms(2)] by (intro card_distinct) simp
  then have "\<forall>p \<in> set ps. snd p = js_field v (fst p)" using v(1) field_of_distinct by (auto simp: map_of_is_SomeI)
  with v(1) eq show ?thesis by blast
qed

lemma keys_of_fields:
  assumes "has_fields v acc" "distinct acc" "set acc \<subseteq> K" "\<And>k. k \<in> set acc \<Longrightarrow> set (all_keys (js_field v k)) \<subseteq> K"
  shows "set (all_keys v) \<subseteq> K"
proof -
  from has_fields_props [OF assms(1,2)] obtain ps where ps: "v = JObj ps" "fst ` set ps = set acc"
    "\<forall>p \<in> set ps. snd p = js_field v (fst p)" by blast
  have "insert (fst p) (set (all_keys (snd p))) \<subseteq> K" if "p \<in> set ps" for p
  proof -
    have "fst p \<in> set acc" using that ps(2) by blast
    moreover have "snd p = js_field v (fst p)" using that ps(3) by blast
    ultimately show ?thesis using assms(3) assms(4) [of "fst p"] by auto
  qed
  then show ?thesis unfolding ps(1) by auto
qed

lemma keys_of_strings: "strings_of vs = Some ss \<Longrightarrow> all_keys (JArr vs) = []"
  by (induction vs arbitrary: ss rule: strings_of.induct) auto

lemma leaf_keys:
  "modalities_ok v \<Longrightarrow> all_keys v = []" "positive_int v \<Longrightarrow> all_keys v = []" "name_ok v \<Longrightarrow> all_keys v = []"
  "effort_id v \<Longrightarrow> all_keys v = []"
  by (auto simp: modalities_ok_def name_ok_def effort_id_def split: js.splits option.splits dest: keys_of_strings)
     (cases v; simp)

lemma model_field_names:
  "set [''id'', ''settings''] \<subseteq> set MODEL_FIELDS" "set [''reasoning''] \<subseteq> set MODEL_FIELDS"
  "set [''effort''] \<subseteq> set MODEL_FIELDS" "set [''tools'', ''input'', ''output''] \<subseteq> set MODEL_FIELDS"
  "set [''context'', ''input'', ''output''] \<subseteq> set MODEL_FIELDS"
  "set [''name'', ''capabilities'', ''limit'', ''variants''] \<subseteq> set MODEL_FIELDS"
  by (simp_all add: MODEL_FIELDS_def)

lemma variant_step:
  assumes "variants_fail seen (w # vs) = None"
  shows "has_fields w [''id'', ''settings'']" "effort_id (js_field w ''id'')"
    "has_fields (js_field w ''settings'') [''reasoning'']"
    "has_fields (js_field (js_field w ''settings'') ''reasoning'') [''effort'']"
    "\<exists>s. js_field (js_field (js_field w ''settings'') ''reasoning'') ''effort'' = JStr s"
    "\<exists>seen'. variants_fail seen' vs = None"
proof -
  show "\<exists>s. js_field (js_field (js_field w ''settings'') ''reasoning'') ''effort'' = JStr s"
    using assms by (cases "js_field (js_field (js_field w ''settings'') ''reasoning'') ''effort''")
      (simp_all add: Let_def split: if_splits)
qed (use assms in \<open>auto simp: Let_def simp del: js_field.simps split: if_splits\<close>)

lemma variant_keys:
  assumes "variants_fail seen (w # vs) = None"
  shows "set (all_keys w) \<subseteq> set MODEL_FIELDS"
proof -
  note f = variant_step [OF assms]
  have "set (all_keys (js_field (js_field w ''settings'') ''reasoning'')) \<subseteq> set MODEL_FIELDS"
    by (rule keys_of_fields [OF f(4)]) (use f(5) model_field_names(3) in auto)
  then have "set (all_keys (js_field w ''settings'')) \<subseteq> set MODEL_FIELDS"
    using model_field_names(2) by (intro keys_of_fields [OF f(3), of "set MODEL_FIELDS"]) simp_all
  then show ?thesis
    using model_field_names(1) leaf_keys(4) [OF f(2)] by (intro keys_of_fields [OF f(1), of "set MODEL_FIELDS"]) auto
qed

lemma variants_keys: "variants_fail seen vs = None \<Longrightarrow> v \<in> set vs \<Longrightarrow> set (all_keys v) \<subseteq> set MODEL_FIELDS"
proof (induction vs arbitrary: seen)
  case (Cons w vs)
  show ?case
  proof (cases "v = w")
    case True
    with variant_keys [OF Cons.prems(1)] show ?thesis by simp
  next
    case False
    with Cons.prems(2) variant_step(6) [OF Cons.prems(1)] Cons.IH show ?thesis by auto
  qed
qed simp

lemma first_fail_None: "first_fail cs = None \<longleftrightarrow> (\<forall>c \<in> set cs. fst c)"
  by (induction cs) auto

lemma model_checks_hold:
  assumes "model_fail item = None"
  shows "\<forall>c \<in> set (model_checks item). fst c"
    "\<exists>vs. js_field item ''variants'' = JArr vs \<and> variants_fail [] vs = None"
proof -
  from assms show "\<forall>c \<in> set (model_checks item). fst c"
    unfolding model_fail_def first_fail_None [symmetric] by (auto split: option.splits)
  then have "first_fail (model_checks item) = None" by (simp add: first_fail_None)
  with assms show "\<exists>vs. js_field item ''variants'' = JArr vs \<and> variants_fail [] vs = None"
    by (cases "js_field item ''variants''") (simp_all add: model_fail_def)
qed

lemma is_bool_keys: "is_bool v \<Longrightarrow> all_keys v = []"
  by (cases v) auto

lemma model_keys:
  assumes "model_fail item = None"
  shows "set (all_keys item) \<subseteq> set MODEL_FIELDS"
proof -
  let ?caps = "js_field item ''capabilities''"
  let ?limits = "js_field item ''limit''"
  from model_checks_hold(1) [OF assms]
  have f: "has_fields item [''name'', ''capabilities'', ''limit'', ''variants'']" "name_ok (js_field item ''name'')"
    "has_fields ?caps [''tools'', ''input'', ''output'']" "is_bool (js_field ?caps ''tools'')"
    "modalities_ok (js_field ?caps ''input'')" "modalities_ok (js_field ?caps ''output'')"
    "has_fields ?limits [''context'', ''input'', ''output'']" "positive_int (js_field ?limits ''context'')"
    "positive_int (js_field ?limits ''input'')" "positive_int (js_field ?limits ''output'')"
    unfolding model_checks_def Let_def by simp_all
  have caps: "set (all_keys ?caps) \<subseteq> set MODEL_FIELDS"
    using leaf_keys(1) [OF f(5)] leaf_keys(1) [OF f(6)] is_bool_keys [OF f(4)] model_field_names(4)
    by (intro keys_of_fields [OF f(3), of "set MODEL_FIELDS"]) auto
  have limits: "set (all_keys ?limits) \<subseteq> set MODEL_FIELDS"
    using leaf_keys(2) [OF f(8)] leaf_keys(2) [OF f(9)] leaf_keys(2) [OF f(10)] model_field_names(5)
    by (intro keys_of_fields [OF f(7), of "set MODEL_FIELDS"]) auto
  from model_checks_hold(2) [OF assms] obtain vs where vs: "js_field item ''variants'' = JArr vs" "variants_fail [] vs = None" by blast
  have "set (all_keys (js_field item ''variants'')) \<subseteq> set MODEL_FIELDS"
    unfolding vs(1) using variants_keys [OF vs(2)] by auto
  with caps limits show ?thesis
    using leaf_keys(3) [OF f(2)] model_field_names(6) by (intro keys_of_fields [OF f(1), of "set MODEL_FIELDS"]) auto
qed

lemma discovery_keys:
  assumes "validate_discovery v = Inr c"
  shows "set (all_keys c) \<subseteq> set CATALOG_FIELDS \<union> set MODEL_FIELDS
     \<union> {i. \<exists>ids. js_field c ''allowed_model_ids'' = JArr (map JStr ids) \<and> i \<in> set ids}"
proof -
  from validate_Inr [OF assms] obtain ids dflt ms where d: "c = discovery ids dflt ms" "distinct ids"
    "\<forall>i \<in> set ids. model_id (JStr i)" "dflt = JNull \<or> model_id dflt \<and> dflt \<in> set (map JStr ids)"
    "map fst ms = ids" "\<forall>p \<in> set ms. model_fail (snd p) = None" by blast
  note c = d(1) d(4-6)
  have "all_keys dflt = []" using c(2) by (auto simp: model_id_def split: js.splits)
  moreover have "all_keys (JArr (map JStr ids)) = []" by (rule keys_of_strings) simp
  moreover have "set (all_keys (JObj ms)) \<subseteq> set MODEL_FIELDS \<union> set ids"
  proof -
    have "fst p \<in> set ids" "set (all_keys (snd p)) \<subseteq> set MODEL_FIELDS" if "p \<in> set ms" for p
      using that c(3,4) model_keys by auto
    then show ?thesis by fastforce
  qed
  ultimately show ?thesis unfolding c(1) by (auto simp: discovery_def CATALOG_FIELDS_def)
qed

text \<open>Claim C25. No account data reaches the disk or the engine. Whatever the backend's document contains
  besides the catalog (usage, credentials, fields of a later version), the artifact that a start publishes has
  no property, at any depth, other than those of the artifact, of the catalog and of a model's declaration, and
  the names of the allowed models; its identity is the machine's own.\<close>

theorem artifact_is_only_the_catalog:
  assumes "create_artifact env value identity = Inr a"
  shows "set (all_keys a) \<subseteq> set ARTIFACT_FIELDS \<union> set CATALOG_FIELDS \<union> set MODEL_FIELDS
      \<union> {i. \<exists>ids. js_field (js_field a ''catalog'') ''allowed_model_ids'' = JArr (map JStr ids) \<and> i \<in> set ids}"
proof -
  from create_Inr [OF assms] obtain c i where a: "validate_discovery value = Inr c"
    "a = artifact_json i (catalog_digest env c) c" by blast
  have "all_keys (generation_json g) = []" for g by (simp add: generation_json_def split: option.splits)
  then have "set (all_keys a) \<subseteq> set ARTIFACT_FIELDS \<union> set (all_keys c)"
    unfolding a(2) by (auto simp: artifact_json_def ARTIFACT_FIELDS_def)
  with discovery_keys [OF a(1)] show ?thesis unfolding a(2) by auto
qed

text \<open>A document with one model and an account field.\<close>

definition ex_model :: js where
  "ex_model = JObj [(''name'', JStr ''Model''),
     (''capabilities'', JObj [(''tools'', JBool True), (''input'', JArr [JStr ''text'']), (''output'', JArr [JStr ''text''])]),
     (''limit'', JObj [(''context'', JNum 100), (''input'', JNum 60), (''output'', JNum 40)]), (''variants'', JArr [])]"

definition ex_document :: js where
  "ex_document = JObj [(''discovery_schema_version'', JNum 2), (''allowed_model_ids'', JArr [JStr ''m'']),
     (''default_model_id'', JNull), (''managed_models'', JObj [(''m'', ex_model)]), (''balance'', JNum 12)]"

definition ex_catalog :: js where
  "ex_catalog = discovery [''m''] JNull [(''m'', ex_model)]"

definition ex_identity :: js where
  "ex_identity = JObj [(''backendBaseUrl'', JStr ''http://b''), (''projectId'', JStr ''p''), (''runtimeGeneration'', JNull)]"

definition ex_owner :: identity where
  "ex_owner = \<lparr>id_url = ''http://b'', id_project = ''p'', id_generation = None\<rparr>"

definition ex_env :: catalog_env where
  "ex_env = \<lparr>ce_url = (\<lambda>s. Some \<lparr>url_protocol = ''http:'', url_plain = True, url_href = s\<rparr>), ce_sha256 = (\<lambda>_. ''d''),
     ce_stringify = (\<lambda>_. ''artifact''),
     ce_parse = (\<lambda>t. if t = ''doc'' then Some ex_document else Some (artifact_json ex_owner ''d'' ex_catalog))\<rparr>"

lemma ex_parse: "ce_parse ex_env ''doc'' = Some ex_document"
  by (simp add: ex_env_def)

lemma ex_document_valid: "validate_discovery ex_document = Inr ex_catalog"
  by code_simp

lemma ex_owner_normal: "normalize_identity ex_env ex_identity = Inr ex_owner"
  by code_simp

lemma ex_owner_again: "normalize_identity ex_env (identity_json ex_owner) = Inr ex_owner"
  by code_simp

lemma ex_digest: "catalog_digest ex_env c = ''d''"
  by (simp add: catalog_digest_def ex_env_def)

lemma ex_artifact: "create_artifact ex_env ex_document (identity_json ex_owner) = Inr (artifact_json ex_owner ''d'' ex_catalog)"
  by (simp add: create_artifact_def ex_document_valid ex_owner_again ex_digest)

lemma artifact_is_only_the_catalog_witness:
  "''balance'' \<in> set (all_keys ex_document)
   \<and> ''balance'' \<notin> set (all_keys (artifact_json ex_owner ''d'' ex_catalog))"
proof
  show "''balance'' \<in> set (all_keys ex_document)" by (simp add: ex_document_def)
  have "js_field (js_field (artifact_json ex_owner ''d'' ex_catalog) ''catalog'') ''allowed_model_ids'' = JArr (map JStr [''m''])"
    by (simp add: ex_catalog_def)
  with artifact_is_only_the_catalog [OF ex_artifact] inj_map_eq_map [of JStr]
  show "''balance'' \<notin> set (all_keys (artifact_json ex_owner ''d'' ex_catalog))"
    by (auto simp: ARTIFACT_FIELDS_def CATALOG_FIELDS_def MODEL_FIELDS_def map_eq_Cons_conv)
qed

text \<open>A reference without a slash is taken for a managed model when it is \<open>proxy\<close> and one more character:
  \<open>slice(0, -1)\<close> drops that character and \<open>slice(0)\<close> is the whole reference.\<close>

lemma reference_without_slash: "managed_model_id (JStr ''proxyx'') = Some ''proxyx''"
  by code_simp

subsection \<open>What a start publishes, the next start reads\<close>

lemma publish_atomic:
  "cd_target (foldl publish_op_step d (take n (publish_ops text how))) \<in> {cd_target d, Regular text}"
proof -
  have split: "n = 0 \<or> n = 1 \<or> n = 2 \<or> n = 3 \<or> n = 4 \<or> n = 5 \<or> n \<ge> 6" by arith
  show ?thesis
    by (cases how; use split in \<open>elim disjE\<close>; simp add: eval_nat_numeral take_Cons')
qed

lemma publish_done:
  "foldl publish_op_step d (publish_ops text Published) = \<lparr>cd_target = Regular text, cd_temp = None\<rparr>"
  by (cases d) simp

text \<open>Claim C24. The catalog survives a restart. A start that fetched a discovery document and published it leaves,
  wherever its publication stops, the previous file or the complete new one; and the next start that cannot
  reach the backend reads the same artifact back, for the same backend, project and generation.\<close>

theorem published_catalog_read_back:
  assumes "url_stable env"
    and "normalize_identity env configured = Inr i"
    and "fetch_discovery env mx response = Inr value"
    and "create_artifact env value (identity_json i) = Inr a"
    and "ce_parse env (artifact_text env a) = Some a" and "length (artifact_text env a) \<le> mx + 4096"
  shows "(\<forall>how n. cd_target (foldl publish_op_step d (take n (fst (publish_catalog env value (identity_json i) how))))
             \<in> {cd_target d, Regular (artifact_text env a)})
    \<and> (\<exists>d1. startup_catalog env mx configured response Published d = Inr (d1, Fresh a)
         \<and> (\<forall>how. startup_catalog env mx configured None how d1 = Inr (d1, Stale a)))"
proof -
  have "\<forall>how n. cd_target (foldl publish_op_step d (take n (fst (publish_catalog env value (identity_json i) how))))
             \<in> {cd_target d, Regular (artifact_text env a)}"
    using publish_atomic assms(4) by (simp add: publish_catalog_def)
  moreover have "startup_catalog env mx configured response Published d
      = Inr (\<lparr>cd_target = Regular (artifact_text env a), cd_temp = None\<rparr>, Fresh a)"
    using assms(2-4) by (simp add: startup_catalog_def publish_catalog_def publish_done del: publish_ops.simps)
  moreover have "read_artifact env (Regular (artifact_text env a)) (identity_json i) (mx + 4096) = Inr a"
    using artifact_validates [OF assms(1,4)] assms(5,6) by (simp add: read_artifact_def)
  then have "startup_catalog env mx configured None how \<lparr>cd_target = Regular (artifact_text env a), cd_temp = None\<rparr>
      = Inr (\<lparr>cd_target = Regular (artifact_text env a), cd_temp = None\<rparr>, Stale a)" for how
    using assms(2) by (simp add: startup_catalog_def fetch_discovery_def)
  ultimately show ?thesis by blast
qed

text \<open>A second start without a backend, on the disk that the first one left.\<close>

lemma published_catalog_read_back_witness:
  "\<exists>d1. startup_catalog ex_env 1000 ex_identity (Some (True, Some [''do'', ''c''])) Published \<lparr>cd_target = Absent, cd_temp = None\<rparr>
      = Inr (d1, Fresh (artifact_json ex_owner ''d'' ex_catalog))
    \<and> startup_catalog ex_env 1000 ex_identity None Published d1
      = Inr (d1, Stale (artifact_json ex_owner ''d'' ex_catalog))"
proof -
  have stable: "url_stable ex_env"
    by (auto simp: url_stable_def normalize_backend_url_def ex_env_def strip_slashes_def split: js.splits)
  have fetch: "fetch_discovery ex_env 1000 (Some (True, Some [''do'', ''c''])) = Inr ex_catalog"
    by (simp add: fetch_discovery_def ex_document_valid ex_parse)
  have art: "create_artifact ex_env ex_catalog (identity_json ex_owner) = Inr (artifact_json ex_owner ''d'' ex_catalog)"
    using validate_again [OF ex_document_valid]
    by (simp add: create_artifact_def ex_owner_again ex_digest)
  have reread: "ce_parse ex_env (artifact_text ex_env (artifact_json ex_owner ''d'' ex_catalog))
      = Some (artifact_json ex_owner ''d'' ex_catalog)" "length (artifact_text ex_env (artifact_json ex_owner ''d'' ex_catalog)) \<le> 1000 + 4096"
    by (simp_all add: artifact_text_def ex_env_def)
  from published_catalog_read_back [OF stable ex_owner_normal fetch art reread] show ?thesis by blast
qed

end
