(* ===== verification/Account_Usage.thy ===== *)
theory Account_Usage
  imports Managed_Catalog
begin

text \<open>
  account-usage.js: which managed models a conversation may use, from the catalog that was installed at the
  start and the latest discovery. A discovery is advisory: it can withdraw a model, never add one.
\<close>

record usage =
  us_installed :: js           \<comment> \<open>the artifact of the start, or null\<close>
  us_snapshot :: js            \<comment> \<open>the last discovery document, or null\<close>
  us_available :: bool
  us_identity :: "bool option" \<comment> \<open>identityMatches; unset before the first check\<close>
  us_restart :: bool           \<comment> \<open>catalogRestartRequired\<close>
  us_reason :: "catalog_error option"

definition new_usage :: "js \<Rightarrow> usage" where
  "new_usage installed = \<lparr>us_installed = installed, us_snapshot = JNull, us_available = False,
     us_identity = None, us_restart = False, us_reason = None\<rparr>"

definition installed_models :: "usage \<Rightarrow> js" where
  "installed_models u = js_field (js_field (us_installed u) ''catalog'') ''managed_models''"

definition installed_model :: "usage \<Rightarrow> js \<Rightarrow> bool" where
  "installed_model u model \<longleftrightarrow> us_identity u \<noteq> Some False
     \<and> (case managed_model_id model of None \<Rightarrow> False
        | Some i \<Rightarrow> truthy (js_field (us_installed u) ''catalog'') \<and> own (installed_models u) i)"

definition allowed_ids :: "js \<Rightarrow> js list" where
  "allowed_ids snapshot = (case js_field snapshot ''allowed_model_ids'' of JArr vs \<Rightarrow> vs | _ \<Rightarrow> [])"

definition allowed_model :: "usage \<Rightarrow> js \<Rightarrow> bool" where
  "allowed_model u model \<longleftrightarrow> installed_model u model
     \<and> (case managed_model_id model of None \<Rightarrow> False | Some i \<Rightarrow> JStr i \<in> set (allowed_ids (us_snapshot u)))"

definition sessions_available :: "usage \<Rightarrow> bool" where
  "sessions_available u \<longleftrightarrow> us_identity u \<noteq> Some False
     \<and> \<not> nullish (js_field (js_field (us_installed u) ''catalog'') ''default_model_id'')"

subsection \<open>A discovery\<close>

definition model_digest :: "catalog_env \<Rightarrow> string \<Rightarrow> js \<Rightarrow> string" where
  "model_digest env i declaration = catalog_digest env (JObj
     [(''default_model_id'', JNull), (''managed_models'', JObj [(i, declaration)])])"

definition restart_required :: "catalog_env \<Rightarrow> js \<Rightarrow> js \<Rightarrow> bool" where
  "restart_required env installed found =
     (let catalog = js_field installed ''catalog''; models = js_field catalog ''managed_models'' in
      \<not> truthy catalog
      \<or> js_field found ''default_model_id'' \<noteq> js_field catalog ''default_model_id''
      \<or> list_ex (\<lambda>p. \<not> own models (fst p)
           \<or> model_digest env (fst p) (snd p) \<noteq> model_digest env (fst p) (js_field models (fst p)))
          (obj_props (js_field found ''managed_models'')))"

text \<open>The check of the installed artifact, when it names a backend.\<close>

definition artifact_checked :: "catalog_env \<Rightarrow> js \<Rightarrow> js \<Rightarrow> catalog_error option" where
  "artifact_checked env installed configured =
     (case normalize_identity env configured of Inl e \<Rightarrow> Some e
      | Inr i \<Rightarrow> (case validate_artifact env installed (identity_json i) of Inl e \<Rightarrow> Some e | Inr _ \<Rightarrow> None))"

definition use_discovery :: "catalog_env \<Rightarrow> catalog_error + js \<Rightarrow> usage \<Rightarrow> usage" where
  "use_discovery env found u = (case found of
      Inl e \<Rightarrow> u\<lparr>us_available := False, us_reason := Some e\<rparr>
    | Inr v \<Rightarrow> u\<lparr>us_restart := restart_required env (us_installed u) v, us_snapshot := v,
                us_available := True, us_reason := None\<rparr>)"

definition fetch_usage :: "catalog_env \<Rightarrow> js \<Rightarrow> nat \<Rightarrow> (bool \<times> string list option) option \<Rightarrow> usage \<Rightarrow> usage" where
  "fetch_usage env configured mx response u =
     (if truthy (js_field (us_installed u) ''backendBaseUrl'')
      then (case artifact_checked env (us_installed u) configured of
              Some e \<Rightarrow> u\<lparr>us_snapshot := JNull, us_identity := Some False, us_available := False, us_reason := Some e\<rparr>
            | None \<Rightarrow> use_discovery env (fetch_discovery env mx response) (u\<lparr>us_identity := Some True\<rparr>))
      else use_discovery env (fetch_discovery env mx response) u)"

subsection \<open>What clients are offered\<close>

definition array_of :: "js \<Rightarrow> js list" where
  "array_of v = (case v of JArr vs \<Rightarrow> vs | _ \<Rightarrow> [])"

definition filter_option :: "usage \<Rightarrow> js \<Rightarrow> js" where
  "filter_option u opt =
     (if js_field opt ''id'' \<noteq> JStr ''model'' then opt
      else (let current = js_field opt ''currentValue''; ok = allowed_model u current in JObj
        (AList.update ''options'' (JArr (filter (\<lambda>item. allowed_model u (js_field item ''value'')) (array_of (js_field opt ''options''))))
        (AList.update ''_meta'' (JObj (AList.update ''unavailableModelId'' (if ok then JNull else js_or_null current JNull)
                                        (spread (js_field opt ''_meta''))))
        (AList.update ''currentValue'' (if ok then current else JNull) (spread opt))))))"

definition filter_options :: "usage \<Rightarrow> js \<Rightarrow> js" where
  "filter_options u options = (case options of JArr vs \<Rightarrow> JArr (map (filter_option u) vs) | _ \<Rightarrow> JNull)"

text \<open>Only an installed model is ever allowed, and after the identity failed to match none is.\<close>

lemma allowed_installed: "allowed_model u m \<Longrightarrow> installed_model u m"
  by (simp add: allowed_model_def)

lemma identity_mismatch_disallows:
  "artifact_checked env (us_installed u) configured = Some e \<Longrightarrow> truthy (js_field (us_installed u) ''backendBaseUrl'') \<Longrightarrow>
   \<not> allowed_model (fetch_usage env configured mx response u) m"
  by (simp add: fetch_usage_def allowed_model_def installed_model_def)

text \<open>A failed discovery keeps the last one: it is stale, and what it allowed stays allowed.\<close>

lemma stale_keeps_allowed:
  assumes "fetch_discovery env mx response = Inl e" "us_identity u = Some True"
    "artifact_checked env (us_installed u) configured = None"
  shows "allowed_model (fetch_usage env configured mx response u) m = allowed_model u m"
proof -
  have "fetch_usage env configured mx response u = u\<lparr>us_available := False, us_reason := Some e\<rparr>"
    using assms by (cases u) (simp add: fetch_usage_def use_discovery_def)
  then show ?thesis
    by (simp add: allowed_model_def installed_model_def installed_models_def cong: option.case_cong)
qed

lemma not_null_allowed: "\<not> allowed_model u JNull"
  by (simp add: allowed_model_def managed_model_id_def)

lemma field_update: "js_field (JObj (AList.update k v ps)) j = (if j = k then v else js_field (JObj ps) j)"
  by (simp add: update_conv')

lemma field_spread: "js_field (JObj (spread v)) k = js_field v k" if "is_obj v"
  using that by (cases v) auto

text \<open>The model option that a client sees offers allowed models only, and none as the current one unless it is
  allowed.\<close>

lemma filter_option_model:
  assumes "js_field opt ''id'' = JStr ''model''"
  shows "js_field (filter_option u opt) ''id'' = JStr ''model''"
    "js_field (filter_option u opt) ''currentValue''
       = (if allowed_model u (js_field opt ''currentValue'') then js_field opt ''currentValue'' else JNull)"
    "\<forall>item \<in> set (array_of (js_field (filter_option u opt) ''options'')). allowed_model u (js_field item ''value'')"
proof -
  have obj: "is_obj opt" using assms by (cases opt) auto
  from assms show "js_field (filter_option u opt) ''id'' = JStr ''model''"
    by (simp add: filter_option_def Let_def field_update field_spread [OF obj] del: js_field.simps)
  from assms show "js_field (filter_option u opt) ''currentValue''
       = (if allowed_model u (js_field opt ''currentValue'') then js_field opt ''currentValue'' else JNull)"
    by (simp add: filter_option_def Let_def field_update del: js_field.simps)
  from assms show "\<forall>item \<in> set (array_of (js_field (filter_option u opt) ''options'')). allowed_model u (js_field item ''value'')"
    by (simp add: filter_option_def Let_def field_update array_of_def del: js_field.simps)
qed

end
