(* ===== verification/Broker_Options.thy ===== *)
theory Broker_Options
  imports Account_Usage Run_System
begin

text \<open>
  The configuration options of a conversation in the session broker (session-broker.js): the model that the
  user selected, what the engine reports when the conversation is resumed, what clients are shown, and the
  setters. A setter is cut at its awaits; its phase says at which one it stands. The state is that of one
  conversation, the engine's generation, the account's usage and the count of engine users.
\<close>

subsection \<open>Options\<close>

definition CLIENT_CONFIG_IDS :: "js list" where
  "CLIENT_CONFIG_IDS = [JStr ''model'', JStr ''effort'']"

definition client_config_options :: "js \<Rightarrow> js" where
  "client_config_options options =
     (case options of JArr vs \<Rightarrow> JArr (filter (\<lambda>v. js_field v ''id'' \<in> set CLIENT_CONFIG_IDS) vs) | _ \<Rightarrow> JNull)"

text \<open>\<open>options?.find?.((o) => o?.id === name)\<close>.\<close>

definition option_named :: "js \<Rightarrow> string \<Rightarrow> js" where
  "option_named options name =
     (case List.find (\<lambda>v. js_field v ''id'' = JStr name) (array_of options) of Some v \<Rightarrow> v | None \<Rightarrow> JUndef)"

text \<open>The getter \<open>modelId\<close>.\<close>

definition model_of :: "js \<Rightarrow> js" where
  "model_of options = js_or_null (js_field (option_named options ''model'') ''currentValue'') JNull"

definition default_effort_for :: "js \<Rightarrow> string \<Rightarrow> string option" where
  "default_effort_for options want =
     (let effort = option_named options ''effort'' in
      if js_field effort ''currentValue'' = JStr ''default'' \<and> want \<noteq> ''default''
         \<and> list_ex (\<lambda>c. js_field c ''value'' = JStr want) (array_of (js_field effort ''options''))
      then Some want else None)"

subsection \<open>The conversation\<close>

record oconv =
  oc_options :: js
  oc_saved :: js
  oc_unavailable :: js
  oc_effort_pending :: bool
  oc_archived :: bool
  oc_lost :: bool
  oc_bound :: int

text \<open>\<open>#clientConfigOptions\<close> and \<open>#models\<close>.\<close>

definition hide_model :: "js \<Rightarrow> js \<Rightarrow> js" where
  "hide_model unavailable opt =
     (if js_field opt ''id'' = JStr ''model''
      then JObj (AList.update ''_meta'' (JObj (AList.update ''unavailableModelId'' unavailable (spread (js_field opt ''_meta''))))
             (AList.update ''currentValue'' JNull (spread opt)))
      else opt)"

definition client_options :: "usage \<Rightarrow> oconv \<Rightarrow> js" where
  "client_options u v =
     (let options = filter_options u (client_config_options (oc_options v)) in
      if truthy (oc_unavailable v)
      then (case options of JArr os \<Rightarrow> JArr (map (hide_model (oc_unavailable v)) os) | _ \<Rightarrow> options)
      else options)"

record models =
  md_current :: js
  md_available :: "(js \<times> js \<times> js) list"   \<comment> \<open>modelId, name, description\<close>

definition models_shown :: "usage \<Rightarrow> oconv \<Rightarrow> models option" where
  "models_shown u v =
     (let opt = option_named (client_options u v) ''model'' in
      if opt = JUndef then None
      else Some \<lparr>md_current = js_or_null (js_field opt ''currentValue'') JNull,
                 md_available = map (\<lambda>c. (js_field c ''value'', js_or_null (js_field c ''name'') (js_field c ''value''),
                    js_or_null (js_field c ''description'') JNull)) (array_of (js_field opt ''options''))\<rparr>)"

text \<open>The \<open>unavailableModelId\<close> of \<open>#convMeta\<close>.\<close>

definition meta_unavailable :: "usage \<Rightarrow> oconv \<Rightarrow> js" where
  "meta_unavailable u v =
     (let selected = js_or_null (oc_unavailable v) (js_or_null (model_of (oc_options v)) (oc_saved v)) in
      js_or_null (oc_unavailable v) (if truthy selected \<and> \<not> allowed_model u selected then selected else JNull))"

subsection \<open>Setters\<close>

datatype set_phase =
    Set_Refreshing
  | Set_Waiting_Ready
  | Set_Binding
  | Set_Asking js        \<comment> \<open>the model before\<close>
  | Set_Effort
  | Set_Logging
  | Set_Touching
  | Set_Recording
  | Set_Over

record setter =
  st_config :: string
  st_value :: js
  st_phase :: set_phase

datatype set_error =
    Opt_Archived | Opt_Lost | Opt_Invalid | Opt_Not_Installed | Opt_Not_Allowed | Opt_Usage_Unavailable
  | Opt_Not_Ready | Opt_Bind_Failed | Opt_Engine_Failed | Opt_Log_Failed

datatype opt_out =
    Set_Failed nat set_error
  | Asked_Engine string js
  | Selected js
  | Was_Bound bool           \<comment> \<open>the engine resumed the saved model, or none was saved\<close>
  | Set_Logged string js
  | Published js
  | Set_Answered nat
  | Prompt_Passed js
  | Prompt_Refused js
  | Prompt_Retried js        \<comment> \<open>a prompt sent again after the engine had lost the binding\<close>

datatype turn_at = No_Turn | Prompting bool | Rebinding   \<comment> \<open>prompting: retried already\<close>

record opt_state =
  op_conv :: oconv
  op_setters :: "setter list"
  op_gen :: nat
  op_usage :: usage
  op_users :: nat
  op_effort :: string       \<comment> \<open>config.defaultEffort\<close>
  op_turn :: turn_at

definition opt_init :: "js \<Rightarrow> usage \<Rightarrow> string \<Rightarrow> opt_state" where
  "opt_init saved u effort = \<lparr>op_conv = \<lparr>oc_options = JNull, oc_saved = saved, oc_unavailable = JNull,
      oc_effort_pending = False, oc_archived = False, oc_lost = False, oc_bound = - 1\<rparr>,
    op_setters = [], op_gen = 0, op_usage = u, op_users = 0, op_effort = effort, op_turn = No_Turn\<rparr>"

definition upd_conv :: "(oconv \<Rightarrow> oconv) \<Rightarrow> opt_state \<Rightarrow> opt_state" where
  "upd_conv f s = s\<lparr>op_conv := f (op_conv s)\<rparr>"

definition set_phase_of :: "nat \<Rightarrow> set_phase \<Rightarrow> opt_state \<Rightarrow> opt_state" where
  "set_phase_of n p s = s\<lparr>op_setters := (op_setters s)[n := (op_setters s ! n)\<lparr>st_phase := p\<rparr>]\<rparr>"

text \<open>\<open>if (Array.isArray(response?.configOptions)) conv.configOptions = ...\<close>.\<close>

definition take_options :: "js \<Rightarrow> oconv \<Rightarrow> oconv" where
  "take_options response v =
     (case js_field response ''configOptions'' of JArr os \<Rightarrow> v\<lparr>oc_options := JArr os\<rparr> | _ \<Rightarrow> v)"

subsection \<open>Binding\<close>

text \<open>Whether a resumed conversation still runs the saved model.\<close>

definition saved_resumed :: "usage \<Rightarrow> oconv \<Rightarrow> bool" where
  "saved_resumed u v \<longleftrightarrow> \<not> truthy (oc_saved v) \<or> oc_saved v = model_of (oc_options v) \<and> installed_model u (oc_saved v)"

datatype resume_end = Resume_Ok js | Resume_Unknown | Resume_Error

text \<open>The rest of \<open>#bind\<close> after \<open>resumeSession\<close> was asked in generation \<open>g\<close>.\<close>

definition resume_returns :: "nat \<Rightarrow> resume_end \<Rightarrow> opt_state \<Rightarrow> opt_state \<times> opt_out list" where
  "resume_returns g r s = (case r of
      Resume_Ok response \<Rightarrow>
        if op_gen s \<noteq> g then (s, [])
        else (let v = take_options response ((op_conv s)\<lparr>oc_bound := int g\<rparr>); ok = saved_resumed (op_usage s) v in
              (s\<lparr>op_conv := (if ok then v else v\<lparr>oc_unavailable := oc_saved v\<rparr>)\<rparr>, [Was_Bound ok]))
    | Resume_Unknown \<Rightarrow> (upd_conv (\<lambda>v. v\<lparr>oc_archived := True, oc_lost := True\<rparr>) s, [])
    | Resume_Error \<Rightarrow> (s, []))"

subsection \<open>#setConfigOption\<close>

definition start_user :: "nat \<Rightarrow> opt_state \<Rightarrow> opt_state" where
  "start_user n s = set_phase_of n Set_Waiting_Ready (s\<lparr>op_users := Suc (op_users s)\<rparr>)"

definition call_setter :: "string \<Rightarrow> js \<Rightarrow> opt_state \<Rightarrow> opt_state \<times> opt_out list" where
  "call_setter config v s =
     (let n = length (op_setters s);
          s1 = s\<lparr>op_setters := op_setters s @ [\<lparr>st_config = config, st_value = v, st_phase = Set_Refreshing\<rparr>]\<rparr>;
          refuse = (\<lambda>e. (set_phase_of n Set_Over s1, [Set_Failed n e]))
      in if oc_archived (op_conv s) then refuse (if oc_lost (op_conv s) then Opt_Lost else Opt_Archived)
         else if (case v of JStr t \<Rightarrow> t = [] | _ \<Rightarrow> True) then refuse Opt_Invalid
         else if config = ''model'' then
           (if installed_model (op_usage s) v then (s1, []) else refuse Opt_Not_Installed)
         else (start_user n s1, []))"

text \<open>After the usage was refreshed.\<close>

definition setter_refreshed :: "nat \<Rightarrow> opt_state \<Rightarrow> opt_state \<times> opt_out list" where
  "setter_refreshed n s =
     (if allowed_model (op_usage s) (st_value (op_setters s ! n)) then (start_user n s, [])
      else (set_phase_of n Set_Over s,
            [Set_Failed n (if us_available (op_usage s) then Opt_Not_Allowed else Opt_Usage_Unavailable)]))"

text \<open>The \<open>finally\<close>: one engine user less.\<close>

definition end_user :: "nat \<Rightarrow> set_phase \<Rightarrow> opt_state \<Rightarrow> opt_state" where
  "end_user n p s = set_phase_of n p (s\<lparr>op_users := op_users s - 1\<rparr>)"

definition setter_fails :: "nat \<Rightarrow> set_error \<Rightarrow> opt_state \<Rightarrow> opt_state \<times> opt_out list" where
  "setter_fails n e s = (end_user n Set_Over s, [Set_Failed n e])"

definition setter_ready :: "nat \<Rightarrow> bool \<Rightarrow> opt_state \<Rightarrow> opt_state \<times> opt_out list" where
  "setter_ready n ok s = (if ok then (set_phase_of n Set_Binding s, []) else setter_fails n Opt_Not_Ready s)"

text \<open>\<open>#bind\<close> returned: the conversation is bound to this generation.\<close>

definition setter_bound :: "nat \<Rightarrow> bool \<Rightarrow> opt_state \<Rightarrow> opt_state \<times> opt_out list" where
  "setter_bound n ok s =
     (if \<not> ok then setter_fails n Opt_Bind_Failed s
      else if oc_bound (op_conv s) \<noteq> int (op_gen s) then (s, [])
      else (set_phase_of n (Set_Asking (model_of (oc_options (op_conv s)))) s,
            [Asked_Engine (st_config (op_setters s ! n)) (st_value (op_setters s ! n))]))"

text \<open>The engine answered. A model change asks for the default effort when it left the new model on none.\<close>

definition select_model :: "js \<Rightarrow> js \<Rightarrow> oconv \<Rightarrow> oconv" where
  "select_model new before v = v\<lparr>oc_saved := new, oc_unavailable := JNull,
     oc_effort_pending := (new \<noteq> before \<or> oc_effort_pending v)\<rparr>"

definition setter_answered :: "nat \<Rightarrow> js option \<Rightarrow> js \<Rightarrow> opt_state \<Rightarrow> opt_state \<times> opt_out list" where
  "setter_answered n response before s = (case response of
      None \<Rightarrow> setter_fails n Opt_Engine_Failed s
    | Some r \<Rightarrow>
       (let st = op_setters s ! n; s1 = upd_conv (take_options r) s in
        if st_config st = ''model'' then
          (let s2 = upd_conv (select_model (st_value st) before) s1 in
           if \<not> oc_effort_pending (op_conv s2) then (end_user n Set_Logging s2, [Selected (st_value st)])
           else (case default_effort_for (oc_options (op_conv s2)) (op_effort s2) of
              Some e \<Rightarrow> (set_phase_of n Set_Effort s2, [Selected (st_value st), Asked_Engine ''effort'' (JStr e)])
            | None \<Rightarrow> (end_user n Set_Logging (upd_conv (\<lambda>v. v\<lparr>oc_effort_pending := False\<rparr>) s2), [Selected (st_value st)])))
        else (end_user n Set_Logging (if st_config st = ''effort'' then upd_conv (\<lambda>v. v\<lparr>oc_effort_pending := False\<rparr>) s1 else s1), [])))"

definition effort_answered :: "nat \<Rightarrow> js option \<Rightarrow> opt_state \<Rightarrow> opt_state \<times> opt_out list" where
  "effort_answered n response s = (case response of
      None \<Rightarrow> setter_fails n Opt_Engine_Failed s
    | Some r \<Rightarrow> (end_user n Set_Logging (upd_conv (\<lambda>v. (take_options r v)\<lparr>oc_effort_pending := False\<rparr>) s), []))"

text \<open>The setting is in the log; a model is also noted in the index before the options are published.\<close>

definition publish_options :: "nat \<Rightarrow> opt_state \<Rightarrow> opt_state \<times> opt_out list" where
  "publish_options n s = (set_phase_of n Set_Recording s, [Published (client_options (op_usage s) (op_conv s))])"

definition setter_logged :: "nat \<Rightarrow> bool \<Rightarrow> opt_state \<Rightarrow> opt_state \<times> opt_out list" where
  "setter_logged n ok s =
     (let st = op_setters s ! n; logged = Set_Logged (st_config st) (st_value st) in
      if \<not> ok then (set_phase_of n Set_Over s, [Set_Failed n Opt_Log_Failed])
      else if st_config st = ''model'' then (set_phase_of n Set_Touching s, [logged])
      else (case publish_options n s of (s1, os) \<Rightarrow> (s1, logged # os)))"

definition setter_recorded :: "nat \<Rightarrow> bool \<Rightarrow> opt_state \<Rightarrow> opt_state \<times> opt_out list" where
  "setter_recorded n ok s = (set_phase_of n Set_Over s, [if ok then Set_Answered n else Set_Failed n Opt_Log_Failed])"

text \<open>What an await of a setter returned; only an answer to the await it stands at resumes it.\<close>

datatype set_obs = Refresh_Over | Ready_Over bool | Bind_Over bool | Engine_Said "js option" | Log_Over bool

definition setter_goes :: "nat \<Rightarrow> set_obs \<Rightarrow> opt_state \<Rightarrow> opt_state \<times> opt_out list" where
  "setter_goes n ob s =
     (case (st_phase (op_setters s ! n), ob) of
        (Set_Refreshing, Refresh_Over) \<Rightarrow> setter_refreshed n s
      | (Set_Waiting_Ready, Ready_Over ok) \<Rightarrow> setter_ready n ok s
      | (Set_Binding, Bind_Over ok) \<Rightarrow> setter_bound n ok s
      | (Set_Asking before, Engine_Said r) \<Rightarrow> setter_answered n r before s
      | (Set_Effort, Engine_Said r) \<Rightarrow> effort_answered n r s
      | (Set_Logging, Log_Over ok) \<Rightarrow> setter_logged n ok s
      | (Set_Touching, Log_Over ok) \<Rightarrow> publish_options n s
      | (Set_Recording, Log_Over ok) \<Rightarrow> setter_recorded n ok s
      | _ \<Rightarrow> (s, []))"

text \<open>The check of a prompt after its conversation was bound and the usage refreshed.\<close>

definition prompt_gate :: "opt_state \<Rightarrow> opt_state \<times> opt_out list" where
  "prompt_gate s =
     (let v = op_conv s; m = model_of (oc_options v) in
      if truthy (oc_unavailable v) \<or> \<not> allowed_model (op_usage s) m
      then (s, [Prompt_Refused (js_or_null (oc_unavailable v) (js_or_null (oc_saved v) m))])
      else (s\<lparr>op_turn := Prompting False\<rparr>, [Prompt_Passed m]))"

text \<open>\<open>#enginePrompt\<close> when the engine has lost the binding: bind once more, then prompt again.\<close>

definition binding_lost :: "opt_state \<Rightarrow> opt_state \<times> opt_out list" where
  "binding_lost s =
     (if op_turn s = Prompting False \<and> \<not> oc_archived (op_conv s)
      then ((upd_conv (\<lambda>v. v\<lparr>oc_bound := - 1\<rparr>) s)\<lparr>op_turn := Rebinding\<rparr>, []) else (s, []))"

definition retry_goes :: "bool \<Rightarrow> opt_state \<Rightarrow> opt_state \<times> opt_out list" where
  "retry_goes ok s =
     (if op_turn s \<noteq> Rebinding then (s, [])
      else if \<not> ok then (s\<lparr>op_turn := No_Turn\<rparr>, [])
      else if oc_bound (op_conv s) \<noteq> int (op_gen s) then (s, [])
      else (s\<lparr>op_turn := Prompting True\<rparr>, [Prompt_Retried (model_of (oc_options (op_conv s)))]))"

text \<open>A setter that a client calls: only \<open>model\<close> and \<open>effort\<close> are its to change.\<close>

datatype opt_event =
    Client_Sets string js
  | Setter_Goes nat set_obs
  | Resume_Returns nat resume_end
  | Usage_Refreshed usage
  | Engine_Generation nat
  | Prompt_Gate
  | Binding_Lost
  | Retry_Goes bool
  | Turn_Over
  | Engine_Update js         \<comment> \<open>a config_option_update of the engine, which the broker ignores\<close>

fun opt_step :: "opt_state \<Rightarrow> opt_event \<Rightarrow> opt_state \<times> opt_out list" where
  "opt_step s (Client_Sets config v) =
     (if JStr config \<in> set CLIENT_CONFIG_IDS then call_setter config v s else (s, []))"
| "opt_step s (Setter_Goes n ob) = (if n < length (op_setters s) then setter_goes n ob s else (s, []))"
| "opt_step s (Resume_Returns g r) = resume_returns g r s"
| "opt_step s (Usage_Refreshed u) = (s\<lparr>op_usage := u\<rparr>, [])"
| "opt_step s (Engine_Generation g) = (s\<lparr>op_gen := g\<rparr>, [])"
| "opt_step s Prompt_Gate = (if oc_bound (op_conv s) = - 1 \<or> op_turn s \<noteq> No_Turn then (s, []) else prompt_gate s)"
| "opt_step s Binding_Lost = binding_lost s"
| "opt_step s (Retry_Goes ok) = retry_goes ok s"
| "opt_step s Turn_Over = (s\<lparr>op_turn := No_Turn\<rparr>, [])"
| "opt_step s (Engine_Update update) = (s, [])"

end
