(* ===== verification/Options_Props.thy ===== *)
theory Options_Props
  imports Broker_Options
begin

text \<open>
  The model a user selected stays the conversation's model: an engine that resumed with another one does not
  replace it, a prompt passes the check only with the selected one, and clients are not shown another one as
  current. This needs an engine that keeps to what it was told when it answers a setter (\<open>engine_honest\<close>): the
  broker does not compare such an answer with the saved model (\<open>effort_answer_unchecked\<close>). One path past the
  check is a defect (\<open>retry_skips_check\<close>).
\<close>

subsection \<open>What was selected last\<close>

fun selected_by :: "js \<Rightarrow> opt_out \<Rightarrow> js" where
  "selected_by v (Selected w) = w"
| "selected_by v _ = v"

definition last_selected :: "js \<Rightarrow> opt_out list \<Rightarrow> js" where
  "last_selected v outs = foldl selected_by v outs"

text \<open>A model is the selected one, when one is selected.\<close>

definition is_selected :: "js \<Rightarrow> js \<Rightarrow> bool" where
  "is_selected selected m \<longleftrightarrow> (truthy selected \<longrightarrow> m = selected)"

definition was_bound :: "opt_out list \<Rightarrow> bool" where
  "was_bound outs \<longleftrightarrow> Was_Bound True \<in> set outs \<or> Was_Bound False \<in> set outs"

lemma history_append [simp]:
  "last_selected v (xs @ ys) = last_selected (last_selected v xs) ys"
  "was_bound (xs @ ys) \<longleftrightarrow> was_bound xs \<or> was_bound ys"
  by (auto simp: last_selected_def was_bound_def)

subsection \<open>What is relied on of the engine\<close>

text \<open>An engine that sets a model answers with options whose model is that one, and an answer about the effort
  does not report another model than before.\<close>

fun honest_answer :: "opt_state \<Rightarrow> opt_event \<Rightarrow> bool" where
  "honest_answer s (Setter_Goes n (Engine_Said (Some r))) =
     (let st = op_setters s ! n;
          was = model_of (oc_options (op_conv s));
          told = model_of (oc_options (take_options r (op_conv s)))
      in case st_phase st of
           Set_Asking _ \<Rightarrow> told = (if st_config st = ''model'' then st_value st else was)
         | Set_Effort \<Rightarrow> told = was
         | _ \<Rightarrow> True)"
| "honest_answer s _ = True"

fun engine_honest :: "opt_state \<Rightarrow> opt_event list \<Rightarrow> bool" where
  "engine_honest s [] = True"
| "engine_honest s (e # es) = (honest_answer s e \<and> engine_honest (fst (opt_step s e)) es)"

subsection \<open>What clients are shown\<close>

lemma find_map_id:
  assumes "\<And>x. js_field (f x) ''id'' = js_field x ''id''"
  shows "List.find (\<lambda>v. js_field v ''id'' = k) (map f vs) = map_option f (List.find (\<lambda>v. js_field v ''id'' = k) vs)"
  by (induction vs) (auto simp: assms)

lemma find_is: "List.find P xs = Some x \<Longrightarrow> P x"
  by (induction xs) (auto split: if_splits)

lemma model_obj: "js_field opt ''id'' = JStr ''model'' \<Longrightarrow> is_obj opt"
  by (cases opt) auto

lemma hide_model_id: "js_field (hide_model m opt) ''id'' = js_field opt ''id''"
  by (auto simp: hide_model_def field_update field_spread [OF model_obj] simp del: js_field.simps)

lemma filter_option_id: "js_field (filter_option u opt) ''id'' = js_field opt ''id''"
  using filter_option_model(1) [of opt u] by (cases "js_field opt ''id'' = JStr ''model''") (auto simp: filter_option_def)

lemma option_named_map:
  assumes "\<And>x. js_field (f x) ''id'' = js_field x ''id''"
  shows "option_named (JArr (map f vs)) n = JUndef \<and> option_named (JArr vs) n = JUndef
       \<or> (\<exists>x. js_field x ''id'' = JStr n \<and> option_named (JArr vs) n = x \<and> option_named (JArr (map f vs)) n = f x)"
  using find_map_id [OF assms, of "JStr n" vs] find_is [of "\<lambda>v. js_field v ''id'' = JStr n" vs]
  by (cases "List.find (\<lambda>v. js_field v ''id'' = JStr n) vs") (auto simp: option_named_def array_of_def)

lemma hide_model_current: "js_field opt ''id'' = JStr ''model'' \<Longrightarrow> js_field (hide_model m opt) ''currentValue'' = JNull"
  by (simp add: hide_model_def field_update del: js_field.simps)

lemma model_of_hidden: "model_of (JArr (map (hide_model m) os)) = JNull"
  using option_named_map [where f = "hide_model m" and vs = os and n = "''model''", OF hide_model_id] hide_model_current
  by (auto simp: model_of_def js_or_null_def)

lemma model_of_filtered: "model_of (filter_options u options) = JNull \<or> allowed_model u (model_of (filter_options u options))"
proof (cases options)
  case (JArr vs)
  have "model_of (JArr (map (filter_option u) vs)) = JNull \<or> allowed_model u (model_of (JArr (map (filter_option u) vs)))"
    using option_named_map [where f = "filter_option u" and vs = vs and n = "''model''", OF filter_option_id]
    by (auto simp: model_of_def js_or_null_def filter_option_model(2) split: if_splits)
  with JArr show ?thesis by (simp add: filter_options_def)
qed (auto simp: filter_options_def model_of_def option_named_def array_of_def js_or_null_def)

text \<open>The current model of the options that clients get is an allowed one or none.\<close>

lemma shown_model_allowed: "model_of (client_options u v) = JNull \<or> allowed_model u (model_of (client_options u v))"
  using model_of_filtered [of u "client_config_options (oc_options v)"] model_of_hidden
  by (auto simp: client_options_def Let_def split: js.splits)

lemma unavailable_hides_model:
  assumes "truthy (oc_unavailable v)"
  shows "model_of (client_options u v) = JNull"
proof (cases "filter_options u (client_config_options (oc_options v))")
  case (JArr os)
  with assms model_of_hidden show ?thesis by (simp add: client_options_def)
next
  case JNull
  with assms show ?thesis by (simp add: client_options_def model_of_def option_named_def array_of_def js_or_null_def)
qed (auto simp: filter_options_def split: js.splits)

text \<open>Neither filter puts another model in the place of the engine's.\<close>

lemma find_of_filtered:
  "Q k \<Longrightarrow> List.find (\<lambda>v. f v = k) (filter (\<lambda>v. Q (f v)) vs) = List.find (\<lambda>v. f v = k) vs"
  by (induction vs) auto

lemma model_of_client_config: "model_of (client_config_options options) = model_of options"
proof (cases options)
  case (JArr vs)
  have "option_named (client_config_options (JArr vs)) ''model'' = option_named (JArr vs) ''model''"
    using find_of_filtered [where Q = "\<lambda>k. k \<in> set CLIENT_CONFIG_IDS" and k = "JStr ''model''" and f = "\<lambda>v. js_field v ''id''"]
    by (simp add: option_named_def client_config_options_def array_of_def CLIENT_CONFIG_IDS_def)
  with JArr show ?thesis by (simp add: model_of_def)
qed (auto simp: client_config_options_def model_of_def option_named_def array_of_def)

lemma model_of_filtered_same: "model_of (filter_options u options) = JNull \<or> model_of (filter_options u options) = model_of options"
proof (cases options)
  case (JArr vs)
  have "model_of (JArr (map (filter_option u) vs)) = JNull \<or> model_of (JArr (map (filter_option u) vs)) = model_of (JArr vs)"
    using option_named_map [where f = "filter_option u" and vs = vs and n = "''model''", OF filter_option_id]
    by (auto simp: model_of_def js_or_null_def filter_option_model(2) split: if_splits)
  with JArr show ?thesis by (simp add: filter_options_def)
qed (auto simp: filter_options_def model_of_def option_named_def array_of_def js_or_null_def)

lemma shown_model_same:
  "model_of (client_options u v) = JNull \<or> \<not> truthy (oc_unavailable v) \<and> model_of (client_options u v) = model_of (oc_options v)"
  using model_of_filtered_same [of u "client_config_options (oc_options v)"] unavailable_hides_model [of v u]
  by (cases "truthy (oc_unavailable v)") (simp_all add: model_of_client_config client_options_def)

subsection \<open>Engine users\<close>

fun uses_engine :: "set_phase \<Rightarrow> bool" where
  "uses_engine Set_Waiting_Ready = True"
| "uses_engine Set_Binding = True"
| "uses_engine (Set_Asking _) = True"
| "uses_engine Set_Effort = True"
| "uses_engine _ = False"

definition engine_users :: "setter list \<Rightarrow> nat" where
  "engine_users sts = length (filter (\<lambda>st. uses_engine (st_phase st)) sts)"

text \<open>A setter that has been past its bind.\<close>

fun past_bind :: "set_phase \<Rightarrow> bool" where
  "past_bind (Set_Asking _) = True"
| "past_bind Set_Effort = True"
| "past_bind Set_Logging = True"
| "past_bind Set_Touching = True"
| "past_bind Set_Recording = True"
| "past_bind _ = False"

subsection \<open>The invariant\<close>

definition history_ok :: "js \<Rightarrow> opt_out list \<Rightarrow> bool" where
  "history_ok saved outs \<longleftrightarrow>
     (\<forall>pre m post. outs = pre @ Prompt_Passed m # post \<longrightarrow> is_selected (last_selected saved pre) m)
     \<and> (\<forall>pre opts post. outs = pre @ Published opts # post
          \<longrightarrow> model_of opts = JNull \<or> is_selected (last_selected saved pre) (model_of opts))"

text \<open>The engine's model, while it is not marked as another one.\<close>

definition model_ok :: "bool \<Rightarrow> oconv \<Rightarrow> bool" where
  "model_ok bound v \<longleftrightarrow>
     (truthy (oc_unavailable v) \<or> is_selected (oc_saved v) (model_of (oc_options v))
      \<or> \<not> bound \<and> model_of (oc_options v) = JNull)"

definition opt_ok :: "js \<Rightarrow> opt_state \<times> opt_out list \<Rightarrow> bool" where
  "opt_ok saved r \<longleftrightarrow> (case r of (s, outs) \<Rightarrow>
     oc_saved (op_conv s) = last_selected saved outs
     \<and> model_ok (was_bound outs) (op_conv s)
     \<and> (oc_bound (op_conv s) \<noteq> - 1 \<longrightarrow> was_bound outs)
     \<and> (\<forall>st \<in> set (op_setters s). past_bind (st_phase st) \<longrightarrow> was_bound outs)
     \<and> op_users s = engine_users (op_setters s)
     \<and> history_ok saved outs)"

text \<open>What clients are shown of such a conversation.\<close>

lemma shown_model_selected:
  "model_ok b v \<Longrightarrow> model_of (client_options u v) = JNull \<or> is_selected (oc_saved v) (model_of (client_options u v))"
  using shown_model_same [of u v] by (auto simp: model_ok_def)

subsection \<open>One step\<close>

lemma split_append:
  assumes "xs @ ys = pre @ x # post"
  obtains us where "pre = xs @ us" "ys = us @ x # post" | us where "xs = pre @ x # us"
proof -
  from assms consider us where "xs @ us = pre" "ys = us @ x # post" | us where "xs = pre @ us" "us @ ys = x # post"
    by (auto simp: append_eq_append_conv2)
  then show thesis
  proof cases
    case 1
    then show thesis using that(1) by blast
  next
    case (2 us)
    then show thesis using that by (cases us) auto
  qed
qed

lemma history_ok_append:
  assumes "history_ok saved outs"
    and "\<And>pre m post. os = pre @ Prompt_Passed m # post \<Longrightarrow> is_selected (last_selected saved (outs @ pre)) m"
    and "\<And>pre opts post. os = pre @ Published opts # post
      \<Longrightarrow> model_of opts = JNull \<or> is_selected (last_selected saved (outs @ pre)) (model_of opts)"
  shows "history_ok saved (outs @ os)"
  unfolding history_ok_def
proof (intro conjI allI impI)
  fix pre m post assume "outs @ os = pre @ Prompt_Passed m # post"
  then show "is_selected (last_selected saved pre) m"
    by (rule split_append) (use assms(1,2) in \<open>unfold history_ok_def, blast+\<close>)
next
  fix pre opts post assume "outs @ os = pre @ Published opts # post"
  then show "model_of opts = JNull \<or> is_selected (last_selected saved pre) (model_of opts)"
    by (rule split_append) (use assms(1,3) in \<open>unfold history_ok_def, blast+\<close>)
qed

text \<open>Outputs that neither admit a prompt nor publish need no history.\<close>

fun silent :: "opt_out \<Rightarrow> bool" where
  "silent (Prompt_Passed _) = False"
| "silent (Published _) = False"
| "silent _ = True"

lemma history_ok_silent: "history_ok saved outs \<Longrightarrow> list_all silent os \<Longrightarrow> history_ok saved (outs @ os)"
  by (rule history_ok_append) auto

lemma opt_okD:
  assumes "opt_ok saved (s, outs)"
  shows "oc_saved (op_conv s) = last_selected saved outs"
    "model_ok (was_bound outs) (op_conv s)"
    "oc_bound (op_conv s) \<noteq> - 1 \<Longrightarrow> was_bound outs"
    "st \<in> set (op_setters s) \<Longrightarrow> past_bind (st_phase st) \<Longrightarrow> was_bound outs"
    "op_users s = engine_users (op_setters s)" "history_ok saved outs"
  using assms unfolding opt_ok_def by auto

text \<open>Steps that leave the conversation's decision alone: silent outputs, and setters that stay counted.\<close>

lemma opt_ok_frame:
  assumes ok: "opt_ok saved (s, outs)"
    and conv: "oc_saved (op_conv s1) = oc_saved (op_conv s)" "oc_unavailable (op_conv s1) = oc_unavailable (op_conv s)"
      "oc_bound (op_conv s1) = - 1 \<or> oc_bound (op_conv s1) = oc_bound (op_conv s)"
      "model_of (oc_options (op_conv s1)) = model_of (oc_options (op_conv s))"
    and sts: "\<And>st. st \<in> set (op_setters s1) \<Longrightarrow> past_bind (st_phase st) \<Longrightarrow> was_bound outs"
    and users: "op_users s1 = engine_users (op_setters s1)"
    and outs: "last_selected (last_selected saved outs) os = last_selected saved outs"
      "\<not> was_bound os"
    and hist: "history_ok saved (outs @ os)"
  shows "opt_ok saved (s1, outs @ os)"
  using opt_okD [OF ok] conv sts users outs hist unfolding opt_ok_def model_ok_def by auto

text \<open>Replacing one setter's phase.\<close>

lemma engine_users_update:
  "n < length sts \<Longrightarrow> engine_users (sts[n := st]) + (if uses_engine (st_phase (sts ! n)) then 1 else 0)
     = engine_users sts + (if uses_engine (st_phase st) then 1 else 0)"
proof (induction sts arbitrary: n)
  case (Cons x xs)
  then show ?case
    by (cases n; cases "uses_engine (st_phase x)") (simp_all add: engine_users_def)
qed simp

lemma engine_users_pos: "n < length sts \<Longrightarrow> uses_engine (st_phase (sts ! n)) \<Longrightarrow> 0 < engine_users sts"
  unfolding engine_users_def by (auto simp: filter_empty_conv intro!: Nat.gr0I)

lemma phase_fields [simp]:
  "op_conv (set_phase_of n p s) = op_conv s" "op_usage (set_phase_of n p s) = op_usage s"
  "op_gen (set_phase_of n p s) = op_gen s" "op_users (set_phase_of n p s) = op_users s"
  "op_setters (set_phase_of n p s) = (op_setters s)[n := (op_setters s ! n)\<lparr>st_phase := p\<rparr>]"
  by (simp_all add: set_phase_of_def)

lemma end_user_fields [simp]:
  "op_conv (end_user n p s) = op_conv s" "op_users (end_user n p s) = op_users s - 1"
  "op_setters (end_user n p s) = (op_setters s)[n := (op_setters s ! n)\<lparr>st_phase := p\<rparr>]"
  by (simp_all add: end_user_def)

lemma upd_conv_fields [simp]:
  "op_conv (upd_conv f s) = f (op_conv s)" "op_users (upd_conv f s) = op_users s"
  "op_setters (upd_conv f s) = op_setters s" "op_effort (upd_conv f s) = op_effort s" "op_usage (upd_conv f s) = op_usage s"
  by (simp_all add: upd_conv_def)

lemma take_options_fields [simp]:
  "oc_saved (take_options r v) = oc_saved v" "oc_unavailable (take_options r v) = oc_unavailable v"
  "oc_bound (take_options r v) = oc_bound v"
  by (simp_all add: take_options_def split: js.splits)

lemma select_model_fields [simp]:
  "oc_saved (select_model m b v) = m" "oc_unavailable (select_model m b v) = JNull" "oc_bound (select_model m b v) = oc_bound v"
  "oc_options (select_model m b v) = oc_options v"
  by (simp_all add: select_model_def)

subsection \<open>The steps\<close>

lemma past_bind_updated:
  assumes "opt_ok saved (s, outs)" "n < length (op_setters s)" "past_bind p \<Longrightarrow> was_bound outs"
    and "st \<in> set ((op_setters s)[n := (op_setters s ! n)\<lparr>st_phase := p\<rparr>])" "past_bind (st_phase st)"
  shows "was_bound outs"
proof -
  from assms(4) set_update_subset_insert consider "st = (op_setters s ! n)\<lparr>st_phase := p\<rparr>" | "st \<in> set (op_setters s)" by fast
  then show ?thesis using assms(3,5) opt_okD(4) [OF assms(1)] by cases auto
qed

text \<open>A setter moves on with nobody decided: what it outputs is silent.\<close>

lemma opt_ok_moves:
  assumes ok: "opt_ok saved (s, outs)" and n: "n < length (op_setters s)"
    and conv: "oc_saved (op_conv s1) = oc_saved (op_conv s)" "oc_unavailable (op_conv s1) = oc_unavailable (op_conv s)"
      "oc_bound (op_conv s1) = oc_bound (op_conv s)"
      "model_of (oc_options (op_conv s1)) = model_of (oc_options (op_conv s))"
    and sts: "op_setters s1 = (op_setters s)[n := (op_setters s ! n)\<lparr>st_phase := p\<rparr>]"
    and past: "past_bind p \<Longrightarrow> was_bound outs"
    and users: "op_users s1 + (if uses_engine (st_phase (op_setters s ! n)) then 1 else 0)
        = op_users s + (if uses_engine p then 1 else 0)"
    and outs: "last_selected (last_selected saved outs) os = last_selected saved outs"
      "\<not> was_bound os"
    and hist: "history_ok saved (outs @ os)"
  shows "opt_ok saved (s1, outs @ os)"
proof (rule opt_ok_frame [OF ok conv(1,2) _ conv(4) _ _ outs hist])
  show "op_users s1 = engine_users (op_setters s1)"
    using engine_users_update [OF n, of "(op_setters s ! n)\<lparr>st_phase := p\<rparr>"] users opt_okD(5) [OF ok] sts by simp
  show "was_bound outs" if "st \<in> set (op_setters s1)" "past_bind (st_phase st)" for st
    using past_bind_updated [OF ok n past] that sts by simp
qed (use conv(3) in simp)

lemmas out_simps = last_selected_def was_bound_def

lemma users_positive:
  "opt_ok saved (s, outs) \<Longrightarrow> n < length (op_setters s) \<Longrightarrow> uses_engine (st_phase (op_setters s ! n)) \<Longrightarrow> 0 < op_users s"
  using opt_okD(5) engine_users_pos by metis

lemma setter_fails_ok:
  assumes "opt_ok saved (s, outs)" "n < length (op_setters s)" "uses_engine (st_phase (op_setters s ! n))"
    "setter_fails n e s = (s1, os)"
  shows "opt_ok saved (s1, outs @ os)"
proof -
  from assms(4) have r: "s1 = end_user n Set_Over s" "os = [Set_Failed n e]" by (simp_all add: setter_fails_def)
  show ?thesis unfolding r
    by (rule opt_ok_moves [OF assms(1,2), where p = Set_Over])
       (use assms(3) users_positive [OF assms(1-3)] opt_okD(6) [OF assms(1)] history_ok_silent in \<open>auto simp: out_simps\<close>)
qed

lemma setter_refreshed_ok:
  assumes "opt_ok saved (s, outs)" "n < length (op_setters s)" "st_phase (op_setters s ! n) = Set_Refreshing"
    "setter_refreshed n s = (s1, os)"
  shows "opt_ok saved (s1, outs @ os)"
proof (cases "allowed_model (op_usage s) (st_value (op_setters s ! n))")
  case True
  with assms(4) have r: "s1 = start_user n s" "os = []" by (simp_all add: setter_refreshed_def)
  show ?thesis unfolding r
    by (rule opt_ok_moves [OF assms(1,2), where p = Set_Waiting_Ready])
       (use assms(3) opt_okD(6) [OF assms(1)] in \<open>auto simp: out_simps start_user_def\<close>)
next
  case False
  with assms(4) obtain e where r: "s1 = set_phase_of n Set_Over s" "os = [Set_Failed n e]" by (auto simp: setter_refreshed_def)
  show ?thesis unfolding r
    by (rule opt_ok_moves [OF assms(1,2), where p = Set_Over])
       (use assms(3) opt_okD(6) [OF assms(1)] history_ok_silent in \<open>auto simp: out_simps\<close>)
qed

lemma setter_ready_ok:
  assumes "opt_ok saved (s, outs)" "n < length (op_setters s)" "st_phase (op_setters s ! n) = Set_Waiting_Ready"
    "setter_ready n ok s = (s1, os)"
  shows "opt_ok saved (s1, outs @ os)"
proof (cases ok)
  case True
  with assms(4) have r: "s1 = set_phase_of n Set_Binding s" "os = []" by (simp_all add: setter_ready_def)
  show ?thesis unfolding r
    by (rule opt_ok_moves [OF assms(1,2), where p = Set_Binding])
       (use assms(3) opt_okD(6) [OF assms(1)] in \<open>auto simp: out_simps\<close>)
next
  case False
  with assms show ?thesis by (intro setter_fails_ok [OF assms(1,2)]) (auto simp: setter_ready_def)
qed

lemma opt_ok_stays: "opt_ok saved (s, outs) \<Longrightarrow> (s, []) = (s1, os) \<Longrightarrow> opt_ok saved (s1, outs @ os)"
  by auto

lemma setter_bound_ok:
  assumes "opt_ok saved (s, outs)" "n < length (op_setters s)" "st_phase (op_setters s ! n) = Set_Binding"
    "setter_bound n ok s = (s1, os)"
  shows "opt_ok saved (s1, outs @ os)"
proof (cases "ok \<and> oc_bound (op_conv s) = int (op_gen s)")
  case True
  with assms(4) obtain c x where r: "s1 = set_phase_of n (Set_Asking (model_of (oc_options (op_conv s)))) s" "os = [Asked_Engine c x]"
    by (auto simp: setter_bound_def)
  have "was_bound outs" using True opt_okD(3) [OF assms(1)] by simp
  then show ?thesis unfolding r
    by (intro opt_ok_moves [OF assms(1,2), where p = "Set_Asking (model_of (oc_options (op_conv s)))"])
       (use assms(3) opt_okD(6) [OF assms(1)] history_ok_silent in \<open>auto simp: out_simps\<close>)
next
  case False
  show ?thesis
  proof (cases ok)
    case True
    with False assms(4) show ?thesis by (intro opt_ok_stays [OF assms(1)]) (simp add: setter_bound_def)
  next
    case False
    with assms show ?thesis by (intro setter_fails_ok [OF assms(1,2)]) (auto simp: setter_bound_def)
  qed
qed

text \<open>A selection decides: it is the saved model from now on.\<close>

lemma opt_ok_selects:
  assumes ok: "opt_ok saved (s, outs)" and n: "n < length (op_setters s)" and wb: "was_bound outs"
    and conv: "oc_saved (op_conv s1) = v" "model_of (oc_options (op_conv s1)) = v"
    and sts: "op_setters s1 = (op_setters s)[n := (op_setters s ! n)\<lparr>st_phase := p\<rparr>]"
    and users: "op_users s1 + (if uses_engine (st_phase (op_setters s ! n)) then 1 else 0)
        = op_users s + (if uses_engine p then 1 else 0)"
    and os: "os = [Selected v] \<or> (\<exists>c x. os = [Selected v, Asked_Engine c x])"
  shows "opt_ok saved (s1, outs @ os)"
proof -
  have "op_users s1 = engine_users (op_setters s1)"
    using engine_users_update [OF n, of "(op_setters s ! n)\<lparr>st_phase := p\<rparr>"] users opt_okD(5) [OF ok] sts by simp
  moreover have "history_ok saved (outs @ os)" using os opt_okD(6) [OF ok] by (intro history_ok_silent) auto
  moreover have "last_selected saved (outs @ os) = v" "was_bound (outs @ os)"
    using os wb by (auto simp: last_selected_def)
  ultimately show ?thesis using conv wb unfolding opt_ok_def model_ok_def is_selected_def by simp
qed

lemma setter_answered_ok:
  assumes ok: "opt_ok saved (s, outs)" and n: "n < length (op_setters s)"
    and hon: "honest_answer s (Setter_Goes n (Engine_Said response))"
    and ph: "st_phase (op_setters s ! n) = Set_Asking before" and st: "setter_answered n response before s = (s1, os)"
  shows "opt_ok saved (s1, outs @ os)"
proof (cases response)
  case None
  with assms show ?thesis by (intro setter_fails_ok [OF ok n]) (auto simp: setter_answered_def)
next
  case (Some r)
  have wb: "was_bound outs" using opt_okD(4) [OF ok nth_mem [OF n]] ph by simp
  note pos = users_positive [OF ok n, unfolded ph, simplified]
  show ?thesis
  proof (cases "st_config (op_setters s ! n) = ''model''")
    case True
    let ?v = "st_value (op_setters s ! n)"
    have told: "model_of (oc_options (take_options r (op_conv s))) = ?v" using hon Some ph True by (simp add: Let_def)
    let ?s2 = "upd_conv (select_model ?v before) (upd_conv (take_options r) s)"
    consider "s1 = end_user n Set_Logging ?s2" "os = [Selected ?v]"
      | e where "s1 = set_phase_of n Set_Effort ?s2" "os = [Selected ?v, Asked_Engine ''effort'' (JStr e)]"
      | "s1 = end_user n Set_Logging (upd_conv (\<lambda>v. v\<lparr>oc_effort_pending := False\<rparr>) ?s2)" "os = [Selected ?v]"
      using st Some True by (auto simp: setter_answered_def Let_def split: if_splits option.splits)
    then show ?thesis
    proof cases
      case 2
      then show ?thesis using ph told by (intro opt_ok_selects [OF ok n wb, where v = ?v and p = Set_Effort]) simp_all
    qed (use pos ph told in \<open>intro opt_ok_selects [OF ok n wb, where v = ?v and p = Set_Logging]; simp\<close>)+
  next
    case False
    with st Some have r: "os = []" "s1 = end_user n Set_Logging (upd_conv (take_options r) s)
        \<or> s1 = end_user n Set_Logging (upd_conv (\<lambda>v. v\<lparr>oc_effort_pending := False\<rparr>) (upd_conv (take_options r) s))"
      by (auto simp: setter_answered_def Let_def split: if_splits)
    have told: "model_of (oc_options (take_options r (op_conv s))) = model_of (oc_options (op_conv s))"
      using hon Some ph False by (simp add: Let_def)
    show ?thesis unfolding r(1)
      by (rule opt_ok_moves [OF ok n, where p = Set_Logging])
         (use r(2) told ph pos wb opt_okD(6) [OF ok] in \<open>auto simp: out_simps\<close>)
  qed
qed

lemma effort_answered_ok:
  assumes ok: "opt_ok saved (s, outs)" and n: "n < length (op_setters s)"
    and hon: "honest_answer s (Setter_Goes n (Engine_Said response))"
    and ph: "st_phase (op_setters s ! n) = Set_Effort" and st: "effort_answered n response s = (s1, os)"
  shows "opt_ok saved (s1, outs @ os)"
proof (cases response)
  case None
  with assms show ?thesis by (intro setter_fails_ok [OF ok n]) (auto simp: effort_answered_def)
next
  case (Some r)
  have wb: "was_bound outs" using opt_okD(4) [OF ok nth_mem [OF n]] ph by simp
  from Some st have r: "s1 = end_user n Set_Logging (upd_conv (\<lambda>v. (take_options r v)\<lparr>oc_effort_pending := False\<rparr>) s)" "os = []"
    by (simp_all add: effort_answered_def)
  have told: "model_of (oc_options (take_options x (op_conv s))) = model_of (oc_options (op_conv s))" if "x = r" for x
    using hon Some ph that by (simp add: Let_def)
  show ?thesis unfolding r
    by (rule opt_ok_moves [OF ok n, where p = Set_Logging])
       (use ph told users_positive [OF ok n] wb opt_okD(6) [OF ok] in \<open>auto simp: out_simps\<close>)
qed

lemma publish_options_ok:
  assumes ok: "opt_ok saved (s, outs)" and n: "n < length (op_setters s)" and wb: "was_bound outs"
    and ph: "\<not> uses_engine (st_phase (op_setters s ! n))" and st: "publish_options n s = (s1, os)"
  shows "opt_ok saved (s1, outs @ os)"
proof -
  from st have r: "s1 = set_phase_of n Set_Recording s" "os = [Published (client_options (op_usage s) (op_conv s))]"
    by (simp_all add: publish_options_def)
  have "model_of (client_options (op_usage s) (op_conv s)) = JNull
      \<or> is_selected (last_selected saved outs) (model_of (client_options (op_usage s) (op_conv s)))"
    using shown_model_selected [OF opt_okD(2) [OF ok], of "op_usage s"] opt_okD(1) [OF ok] by simp
  then have "history_ok saved (outs @ os)" unfolding r
    by (intro history_ok_append [OF opt_okD(6) [OF ok]]) (auto simp: Cons_eq_append_conv)
  then show ?thesis unfolding r(1)
    by (intro opt_ok_moves [OF ok n, where p = Set_Recording]) (use ph wb r in \<open>auto simp: out_simps\<close>)
qed

lemma setter_logged_ok:
  assumes ok: "opt_ok saved (s, outs)" and n: "n < length (op_setters s)"
    and ph: "st_phase (op_setters s ! n) = Set_Logging" and st: "setter_logged n good s = (s1, os)"
  shows "opt_ok saved (s1, outs @ os)"
proof -
  have wb: "was_bound outs" using opt_okD(4) [OF ok nth_mem [OF n]] ph by simp
  let ?logged = "Set_Logged (st_config (op_setters s ! n)) (st_value (op_setters s ! n))"
  have same: "opt_ok saved (s, outs @ [?logged])"
    by (rule opt_ok_frame [OF ok]) (use opt_okD [OF ok] history_ok_silent in \<open>auto simp: out_simps\<close>)
  consider "\<not> good" | "good" "st_config (op_setters s ! n) = ''model''" | "good" "st_config (op_setters s ! n) \<noteq> ''model''" by blast
  then show ?thesis
  proof cases
    case 3
    then obtain os' where o: "publish_options n s = (s1, os')" "os = ?logged # os'"
      using st by (auto simp: setter_logged_def Let_def split: prod.splits)
    have "opt_ok saved (s1, (outs @ [?logged]) @ os')"
      by (rule publish_options_ok [OF same n _ _ o(1)]) (use wb ph in auto)
    with o(2) show ?thesis by simp
  next
    case 1
    with st have r: "s1 = set_phase_of n Set_Over s" "os = [Set_Failed n Opt_Log_Failed]"
      by (simp_all add: setter_logged_def Let_def)
    show ?thesis unfolding r
      by (rule opt_ok_moves [OF ok n, where p = Set_Over])
         (use ph opt_okD(6) [OF ok] history_ok_silent in \<open>auto simp: out_simps\<close>)
  next
    case 2
    with st have r: "s1 = set_phase_of n Set_Touching s" "os = [?logged]" by (simp_all add: setter_logged_def Let_def)
    show ?thesis unfolding r
      by (rule opt_ok_moves [OF ok n, where p = Set_Touching])
         (use ph wb opt_okD(6) [OF ok] history_ok_silent in \<open>auto simp: out_simps\<close>)
  qed
qed

lemma setter_recorded_ok:
  assumes ok: "opt_ok saved (s, outs)" and n: "n < length (op_setters s)"
    and ph: "st_phase (op_setters s ! n) = Set_Recording" and st: "setter_recorded n good s = (s1, os)"
  shows "opt_ok saved (s1, outs @ os)"
proof -
  from st have r: "s1 = set_phase_of n Set_Over s" "os = [if good then Set_Answered n else Set_Failed n Opt_Log_Failed]"
    by (simp_all add: setter_recorded_def)
  show ?thesis unfolding r
    by (rule opt_ok_moves [OF ok n, where p = Set_Over])
       (use ph opt_okD(6) [OF ok] history_ok_silent in \<open>auto simp: out_simps\<close>)
qed

lemma setter_goes_ok:
  assumes ok: "opt_ok saved (s, outs)" and n: "n < length (op_setters s)" and hon: "honest_answer s (Setter_Goes n ob)"
    and st: "setter_goes n ob s = (s1, os)"
  shows "opt_ok saved (s1, outs @ os)"
proof (cases "st_phase (op_setters s ! n)")
  case Set_Refreshing
  with st setter_refreshed_ok [OF ok n] opt_ok_stays [OF ok] show ?thesis by (cases ob) (auto simp: setter_goes_def)
next
  case Set_Waiting_Ready
  with st setter_ready_ok [OF ok n] opt_ok_stays [OF ok] show ?thesis by (cases ob) (auto simp: setter_goes_def)
next
  case Set_Binding
  with st setter_bound_ok [OF ok n] opt_ok_stays [OF ok] show ?thesis by (cases ob) (auto simp: setter_goes_def)
next
  case (Set_Asking before)
  with st hon setter_answered_ok [OF ok n] opt_ok_stays [OF ok] show ?thesis by (cases ob) (auto simp: setter_goes_def)
next
  case Set_Effort
  with st hon effort_answered_ok [OF ok n] opt_ok_stays [OF ok] show ?thesis by (cases ob) (auto simp: setter_goes_def)
next
  case Set_Logging
  with st setter_logged_ok [OF ok n] opt_ok_stays [OF ok] show ?thesis by (cases ob) (auto simp: setter_goes_def)
next
  case Set_Touching
  then have "was_bound outs" using opt_okD(4) [OF ok nth_mem [OF n]] by simp
  with Set_Touching st publish_options_ok [OF ok n] opt_ok_stays [OF ok] show ?thesis
    by (cases ob) (auto simp: setter_goes_def)
next
  case Set_Recording
  with st setter_recorded_ok [OF ok n] opt_ok_stays [OF ok] show ?thesis by (cases ob) (auto simp: setter_goes_def)
next
  case Set_Over
  with st opt_ok_stays [OF ok] show ?thesis by (cases ob) (auto simp: setter_goes_def)
qed

text \<open>A call adds a setter that is over, refreshing or an engine user.\<close>

lemma opt_ok_called:
  assumes ok: "opt_ok saved (s, outs)" and conv: "op_conv s1 = op_conv s"
    and sts: "op_setters s1 = op_setters s @ [st]" "\<not> past_bind (st_phase st)"
    and users: "op_users s1 = op_users s + (if uses_engine (st_phase st) then 1 else 0)"
    and os: "os = [] \<or> (\<exists>n e. os = [Set_Failed n e])"
  shows "opt_ok saved (s1, outs @ os)"
proof (rule opt_ok_frame [OF ok])
  show "op_users s1 = engine_users (op_setters s1)"
    using users sts(1) opt_okD(5) [OF ok] by (simp add: engine_users_def)
  show "was_bound outs" if "u \<in> set (op_setters s1)" "past_bind (st_phase u)" for u
    using that sts opt_okD(4) [OF ok] by auto
  show "history_ok saved (outs @ os)" using os opt_okD(6) [OF ok] by (intro history_ok_silent) auto
qed (use conv os in \<open>auto simp: out_simps\<close>)

lemma call_setter_ok:
  assumes ok: "opt_ok saved (s, outs)" and st: "call_setter config v s = (s1, os)"
  shows "opt_ok saved (s1, outs @ os)"
proof -
  let ?st = "\<lambda>p. \<lparr>st_config = config, st_value = v, st_phase = p\<rparr>"
  from st consider
      e where "s1 = s\<lparr>op_setters := op_setters s @ [?st Set_Over]\<rparr>" "os = [Set_Failed (length (op_setters s)) e]"
    | "s1 = s\<lparr>op_setters := op_setters s @ [?st Set_Refreshing]\<rparr>" "os = []"
    | "s1 = s\<lparr>op_setters := op_setters s @ [?st Set_Waiting_Ready], op_users := Suc (op_users s)\<rparr>" "os = []"
    unfolding call_setter_def Let_def
    by (auto simp: set_phase_of_def start_user_def split: if_splits)
  then show ?thesis
  proof cases
    case 1
    then show ?thesis by (intro opt_ok_called [OF ok, where st = "?st Set_Over"]) auto
  next
    case 2
    then show ?thesis by (intro opt_ok_called [OF ok, where st = "?st Set_Refreshing"]) auto
  next
    case 3
    then show ?thesis by (intro opt_ok_called [OF ok, where st = "?st Set_Waiting_Ready"]) auto
  qed
qed

text \<open>A resume decides too: either the saved model was resumed, or it becomes unavailable.\<close>

lemma resume_returns_ok:
  assumes ok: "opt_ok saved (s, outs)" and st: "resume_returns g r s = (s1, os)"
  shows "opt_ok saved (s1, outs @ os)"
proof (cases r)
  case (Resume_Ok response)
  show ?thesis
  proof (cases "op_gen s = g")
    case True
    define v where "v = take_options response ((op_conv s)\<lparr>oc_bound := int g\<rparr>)"
    define b where "b = saved_resumed (op_usage s) v"
    from st Resume_Ok True have r: "s1 = s\<lparr>op_conv := (if b then v else v\<lparr>oc_unavailable := oc_saved v\<rparr>)\<rparr>" "os = [Was_Bound b]"
      by (auto simp: resume_returns_def Let_def v_def b_def)
    have conv: "oc_saved v = oc_saved (op_conv s)" "oc_saved (op_conv s1) = oc_saved v"
        "op_setters s1 = op_setters s" "op_users s1 = op_users s"
      by (simp_all add: v_def r(1))
    have model: "model_ok True (op_conv s1)"
    proof (cases b)
      case True
      then have "is_selected (oc_saved v) (model_of (oc_options v))" unfolding b_def saved_resumed_def is_selected_def by auto
      with True show ?thesis by (simp add: r(1) model_ok_def)
    next
      case False
      then have "truthy (oc_saved v)" by (simp add: b_def saved_resumed_def)
      with False show ?thesis by (simp add: r(1) model_ok_def)
    qed
    have hist: "history_ok saved (outs @ os)" using r(2) opt_okD(6) [OF ok] by (intro history_ok_silent) auto
    have os: "was_bound (outs @ os)" "last_selected saved (outs @ os) = last_selected saved outs"
      unfolding r(2) by (cases b; simp add: was_bound_def last_selected_def)+
    show ?thesis using opt_okD(1,5) [OF ok] conv model hist os unfolding opt_ok_def by simp
  next
    case False
    with st Resume_Ok show ?thesis by (intro opt_ok_stays [OF ok]) (simp add: resume_returns_def)
  qed
next
  case Resume_Unknown
  with st have "os = []" "s1 = upd_conv (\<lambda>v. v\<lparr>oc_archived := True, oc_lost := True\<rparr>) s" by (auto simp: resume_returns_def)
  with opt_okD [OF ok] show ?thesis by (auto simp: opt_ok_def model_ok_def)
next
  case Resume_Error
  with st show ?thesis by (intro opt_ok_stays [OF ok]) (simp add: resume_returns_def)
qed

lemma prompt_gate_ok:
  assumes ok: "opt_ok saved (s, outs)" and b: "oc_bound (op_conv s) \<noteq> - 1" and st: "prompt_gate s = (s1, os)"
  shows "opt_ok saved (s1, outs @ os)"
proof -
  have wb: "was_bound outs" using b opt_okD(3) [OF ok] by simp
  let ?m = "model_of (oc_options (op_conv s))"
  show ?thesis
  proof (cases "truthy (oc_unavailable (op_conv s)) \<or> \<not> allowed_model (op_usage s) ?m")
    case True
    with st obtain x where r: "s1 = s" "os = [Prompt_Refused x]" by (auto simp: prompt_gate_def Let_def)
    show ?thesis unfolding r
      by (rule opt_ok_frame [OF ok]) (use opt_okD [OF ok] history_ok_silent in \<open>auto simp: out_simps\<close>)
  next
    case False
    with st have r: "s1 = s\<lparr>op_turn := Prompting False\<rparr>" "os = [Prompt_Passed ?m]" by (auto simp: prompt_gate_def Let_def)
    have "is_selected (last_selected saved outs) ?m"
      using False wb opt_okD(1,2) [OF ok] by (simp add: model_ok_def)
    then have "history_ok saved (outs @ os)" unfolding r
      by (intro history_ok_append [OF opt_okD(6) [OF ok]]) (auto simp: Cons_eq_append_conv)
    then show ?thesis unfolding r(1)
      by (intro opt_ok_frame [OF ok]) (use opt_okD [OF ok] r in \<open>auto simp: out_simps\<close>)
  qed
qed

text \<open>The remaining steps leave the conversation's decision and its setters as they are.\<close>

lemma opt_ok_quiet:
  assumes ok: "opt_ok saved (s, outs)"
    and same: "oc_saved (op_conv s1) = oc_saved (op_conv s)" "oc_unavailable (op_conv s1) = oc_unavailable (op_conv s)"
      "oc_bound (op_conv s1) = - 1 \<or> oc_bound (op_conv s1) = oc_bound (op_conv s)"
      "model_of (oc_options (op_conv s1)) = model_of (oc_options (op_conv s))"
      "op_setters s1 = op_setters s" "op_users s1 = op_users s"
    and os: "os = [] \<or> (\<exists>m. os = [Prompt_Retried m])"
  shows "opt_ok saved (s1, outs @ os)"
  by (rule opt_ok_frame [OF ok same(1-4)])
     (use same(5,6) os opt_okD [OF ok] history_ok_silent in \<open>auto simp: out_simps\<close>)

lemma opt_step_ok:
  assumes ok: "opt_ok saved (s, outs)" and hon: "honest_answer s e" and st: "opt_step s e = (s1, os)"
  shows "opt_ok saved (s1, outs @ os)"
proof (cases e)
  case (Client_Sets config v)
  with st call_setter_ok [OF ok] opt_ok_stays [OF ok] show ?thesis by (auto split: if_splits)
next
  case (Setter_Goes n ob)
  with st hon setter_goes_ok [OF ok] opt_ok_stays [OF ok] show ?thesis by (auto split: if_splits)
next
  case (Resume_Returns g r)
  with st resume_returns_ok [OF ok] show ?thesis by auto
next
  case Prompt_Gate
  with st prompt_gate_ok [OF ok] opt_ok_stays [OF ok] show ?thesis by (auto split: if_splits)
next
  case Binding_Lost
  with st show ?thesis by (intro opt_ok_quiet [OF ok]) (auto simp: binding_lost_def split: if_splits)
next
  case (Retry_Goes good)
  with st show ?thesis by (intro opt_ok_quiet [OF ok]) (auto simp: retry_goes_def split: if_splits)
next
  case (Usage_Refreshed u)
  with st show ?thesis by (intro opt_ok_quiet [OF ok]) auto
next
  case (Engine_Generation g)
  with st show ?thesis by (intro opt_ok_quiet [OF ok]) auto
next
  case (Engine_Update u)
  with st show ?thesis by (intro opt_ok_quiet [OF ok]) auto
next
  case Turn_Over
  with st show ?thesis by (intro opt_ok_quiet [OF ok]) auto
qed

definition opt_run :: "opt_state \<times> opt_out list \<Rightarrow> opt_event \<Rightarrow> opt_state \<times> opt_out list" where
  "opt_run r e = (case opt_step (fst r) e of (s1, os) \<Rightarrow> (s1, snd r @ os))"

lemma opt_run_ok:
  "opt_ok saved r \<Longrightarrow> engine_honest (fst r) evs \<Longrightarrow> opt_ok saved (foldl opt_run r evs)"
proof (induction evs arbitrary: r)
  case (Cons e evs)
  obtain s outs where r: "r = (s, outs)" by fastforce
  obtain s1 os where st: "opt_step s e = (s1, os)" by fastforce
  from Cons.prems have "opt_ok saved (s1, outs @ os)" "engine_honest s1 evs"
    using opt_step_ok [of saved s outs e s1 os] r st by simp_all
  then show ?case using Cons.IH [of "(s1, outs @ os)"] r st by (simp add: opt_run_def)
qed simp

lemma opt_init_ok: "opt_ok saved (opt_init saved u effort, [])"
  by (auto simp: opt_ok_def opt_init_def last_selected_def was_bound_def engine_users_def history_ok_def model_ok_def
      model_of_def option_named_def array_of_def js_or_null_def)

subsection \<open>The properties\<close>

text \<open>Claim C15. The model of a conversation changes only by its user's hand. However setters, resumes, engine
  restarts and prompts interleave, with an engine that keeps to what it was told when it answers a setter
  (\<open>engine_honest\<close>: the answer to a model setter reports that model, an answer about the effort reports no other
  model than before) and that may resume with any model: the saved model is the last one that a setter set; when
  one is saved, a prompt passes the check only if the engine reports exactly that model, and the options that
  clients get name that model or none as the current one, whenever they are published or asked for; and the
  count of engine users is the number of setters that hold the engine. The exceptions are an engine that
  answers otherwise (\<open>effort_answer_unchecked\<close>) and a prompt that is sent again after the engine lost the
  binding, which is not checked again (\<open>retry_skips_check\<close>).\<close>

theorem selection_never_replaced:
  assumes "engine_honest (opt_init saved u effort) evs"
  shows "case foldl opt_run (opt_init saved u effort, []) evs of (s, outs) \<Rightarrow>
     oc_saved (op_conv s) = last_selected saved outs
     \<and> (\<forall>pre m post. outs = pre @ Prompt_Passed m # post \<longrightarrow> is_selected (last_selected saved pre) m)
     \<and> (\<forall>pre opts post. outs = pre @ Published opts # post
          \<longrightarrow> model_of opts = JNull \<or> is_selected (last_selected saved pre) (model_of opts))
     \<and> (let shown = model_of (client_options (op_usage s) (op_conv s)) in
          shown = JNull \<or> is_selected (last_selected saved outs) shown)
     \<and> op_users s = engine_users (op_setters s)"
proof -
  obtain s outs where r: "foldl opt_run (opt_init saved u effort, []) evs = (s, outs)" by fastforce
  with opt_run_ok [OF opt_init_ok, of saved u effort evs] assms have ok: "opt_ok saved (s, outs)" by simp
  from shown_model_selected [OF opt_okD(2) [OF ok]] r ok show ?thesis
    unfolding opt_ok_def history_ok_def Let_def by simp
qed

text \<open>Two installed models; the engine resumes with the other one, and the user selects again.\<close>

definition ex_installed :: js where
  "ex_installed = JObj [(''catalog'', JObj [(''managed_models'', JObj [(''a'', JNull), (''b'', JNull)])])]"

definition ex_usage :: usage where
  "ex_usage = (new_usage ex_installed)\<lparr>us_snapshot := JObj [(''allowed_model_ids'', JArr [JStr ''a'', JStr ''b''])],
     us_available := True\<rparr>"

definition ex_options :: "string \<Rightarrow> js" where
  "ex_options m = JObj [(''configOptions'', JArr [JObj [(''id'', JStr ''model''), (''currentValue'', JStr m)]])]"

definition ex_selection :: "opt_event list" where
  "ex_selection = [Engine_Generation 1, Resume_Returns 1 (Resume_Ok (ex_options ''proxy/b'')), Prompt_Gate,
     Client_Sets ''model'' (JStr ''proxy/a''), Setter_Goes 0 Refresh_Over, Setter_Goes 0 (Ready_Over True),
     Setter_Goes 0 (Bind_Over True), Setter_Goes 0 (Engine_Said (Some (ex_options ''proxy/a''))), Prompt_Gate]"

lemma ex_selection_run:
  "snd (foldl opt_run (opt_init (JStr ''proxy/a'') ex_usage ''high'', []) ex_selection)
     = [Was_Bound False, Prompt_Refused (JStr ''proxy/a''), Asked_Engine ''model'' (JStr ''proxy/a''),
        Selected (JStr ''proxy/a''), Prompt_Passed (JStr ''proxy/a'')]"
  by code_simp

lemma ex_selection_honest: "engine_honest (opt_init (JStr ''proxy/a'') ex_usage ''high'') ex_selection"
  by code_simp

lemma selection_never_replaced_witness:
  "is_selected (last_selected (JStr ''proxy/a'') [Was_Bound False, Prompt_Refused (JStr ''proxy/a''),
       Asked_Engine ''model'' (JStr ''proxy/a''), Selected (JStr ''proxy/a'')]) (JStr ''proxy/a'')
   \<and> \<not> is_selected (JStr ''proxy/a'') (JStr ''proxy/b'')"
proof
  show "is_selected (last_selected (JStr ''proxy/a'') [Was_Bound False, Prompt_Refused (JStr ''proxy/a''),
       Asked_Engine ''model'' (JStr ''proxy/a''), Selected (JStr ''proxy/a'')]) (JStr ''proxy/a'')"
    using selection_never_replaced [OF ex_selection_honest] ex_selection_run by (auto split: prod.splits)
qed (simp add: is_selected_def)

text \<open>The broker takes the options of any answer as they are: an answer about the effort that reports another
  model is not compared with the saved one, the next prompt passes with the other model and clients are shown
  it as the current one.\<close>

definition ex_effort :: "opt_event list" where
  "ex_effort = [Engine_Generation 1, Resume_Returns 1 (Resume_Ok (ex_options ''proxy/a'')), Client_Sets ''effort'' (JStr ''high''),
     Setter_Goes 0 (Ready_Over True), Setter_Goes 0 (Bind_Over True), Setter_Goes 0 (Engine_Said (Some (ex_options ''proxy/b''))),
     Prompt_Gate]"

lemma effort_answer_unchecked:
  "case foldl opt_run (opt_init (JStr ''proxy/a'') ex_usage ''high'', []) ex_effort of (s, outs) \<Rightarrow>
     outs = [Was_Bound True, Asked_Engine ''effort'' (JStr ''high''), Prompt_Passed (JStr ''proxy/b'')]
     \<and> oc_saved (op_conv s) = JStr ''proxy/a''
     \<and> model_of (client_options (op_usage s) (op_conv s)) = JStr ''proxy/b''"
  by code_simp

text \<open>The path past the check: the engine loses the binding during a prompt that passed, the broker resumes the
  conversation, the engine comes back with another model, and the prompt is sent again on it, although the
  conversation is marked as having lost its model and the next prompt is refused.\<close>

definition ex_retry :: "opt_event list" where
  "ex_retry = [Engine_Generation 1, Resume_Returns 1 (Resume_Ok (ex_options ''proxy/a'')), Prompt_Gate, Binding_Lost,
     Resume_Returns 1 (Resume_Ok (ex_options ''proxy/b'')), Retry_Goes True, Turn_Over, Prompt_Gate]"

lemma retry_skips_check:
  "snd (foldl opt_run (opt_init (JStr ''proxy/a'') ex_usage ''high'', []) ex_retry)
     = [Was_Bound True, Prompt_Passed (JStr ''proxy/a''), Was_Bound False, Prompt_Retried (JStr ''proxy/b''),
        Prompt_Refused (JStr ''proxy/a'')]"
  by code_simp

end
