(* ===== verification/Session_Index.thy ===== *)
theory Session_Index
  imports Js_Value Ordered_Map Js_Path
begin

text \<open>
  The list of conversations (runtime/lib/session-index.js): loading and validating index.json, the rebuild from the
  session logs, the one-time import and archive of older conversations, the operations, the pruning at boot, the
  save and the paged list. An entry is the JavaScript object itself, its properties in order; the disk is the set of
  folders and files the code looks at. \<open>String(n)\<close> of a number and \<open>toISOString\<close> are the language's, given in the
  configuration. Failures of the file system, which the code logs and passes over, are not modelled.
\<close>

definition PAGE_SIZE :: nat where "PAGE_SIZE = 50"
definition INDEX_VERSION :: rat where "INDEX_VERSION = 3"

type_synonym entry = "(string \<times> js) list"

datatype json_file = Absent | Broken | Parsed js

record log_dir =
  ld_meta :: json_file
  ld_events :: bool \<comment> \<open>a nonempty events.ndjson\<close>
  ld_rotated :: bool

record disk =
  d_index :: json_file
  d_backup :: "js option"
  d_kept :: "json_file list"
  d_logs :: "(string \<times> log_dir) list"
  d_aside :: "(string \<times> log_dir) list"
  d_runs :: "(string \<times> nat) list"
  d_data :: "string list"
  d_history :: "string \<Rightarrow> json_file"

record index_cfg =
  runs_subdir :: string
  cline_data_dir :: string
  conversations_dir :: string
  workspace_dir :: string
  num_text :: "rat \<Rightarrow> string"
  iso_text :: "rat \<Rightarrow> string"

record index =
  entries :: "(string, entry) omap"
  quarantine :: "js list"
  legacy_imported :: bool
  damaged :: bool

subsection \<open>Ids and properties\<close>

definition engine_id :: "string \<Rightarrow> bool" where
  "engine_id s \<longleftrightarrow> prefix ''ses_'' s \<and> drop 4 s \<noteq> [] \<and> list_all is_alnum (drop 4 s)"

definition cline_id :: "string \<Rightarrow> bool" where
  "cline_id s \<longleftrightarrow> length s = 13 \<and> list_all is_digit s"

definition safe_id :: "string \<Rightarrow> bool" where
  "safe_id s \<longleftrightarrow> 1 \<le> length s \<and> length s \<le> 128 \<and> list_all is_b64 s"

definition fget :: "entry \<Rightarrow> string \<Rightarrow> js" where
  "fget e k = js_field (JObj e) k"

definition fput :: "string \<Rightarrow> js \<Rightarrow> entry \<Rightarrow> entry" where
  "fput k v e = om_set k v e"

definition finite_or :: "js \<Rightarrow> rat \<Rightarrow> rat" where
  "finite_or v d = (case num_of v of Some n \<Rightarrow> n | None \<Rightarrow> d)"

definition id_of_raw :: "index_cfg \<Rightarrow> js \<Rightarrow> string option" where
  "id_of_raw cfg v = (case v of JStr s \<Rightarrow> Some s | JNum n \<Rightarrow> Some (num_text cfg n) | JInf p \<Rightarrow> Some (js_text (num_text cfg) v)
     | _ \<Rightarrow> None)"

subsection \<open>Reading the file\<close>

definition problem_of :: "index_cfg \<Rightarrow> (string, entry) omap \<Rightarrow> js \<Rightarrow> string option" where
  "problem_of cfg es raw =
    (case raw of
       JObj fs \<Rightarrow>
        (case id_of_raw cfg (fget fs ''sessionId'') of
           None \<Rightarrow> Some ''missing or unsafe sessionId''
         | Some i \<Rightarrow>
            if \<not> safe_id i then Some ''missing or unsafe sessionId''
            else if om_has es i then Some (''duplicate sessionId '' @ i)
            else (case List.find (\<lambda>k. \<not> nullish (fget fs k) \<and> str_of (fget fs k) = None) [''title'', ''runDir'', ''dataDir''] of
                    Some k \<Rightarrow> Some (k @ '' is not a string ('' @ i @ '')'')
                  | None \<Rightarrow> None))
     | _ \<Rightarrow> Some ''not an object'')"

definition props :: "js \<Rightarrow> entry" where
  "props v = (case v of JObj fs \<Rightarrow> fs | _ \<Rightarrow> [])"

definition normal_entry :: "index_cfg \<Rightarrow> entry \<Rightarrow> entry" where
  "normal_entry cfg fs =
    (let e0 = fput ''sessionId'' (JStr (js_text (num_text cfg) (fget fs ''sessionId''))) fs;
         created = finite_or (fget e0 ''createdAt'') (finite_or (fget e0 ''updatedAt'') 0);
         e1 = fput ''createdAt'' (JNum created) e0;
         e2 = fput ''updatedAt'' (JNum (finite_or (fget e1 ''updatedAt'') created)) e1
     in if fget e2 ''title'' \<in> {JUndef, JStr []} then fput ''title'' JNull e2 else e2)"

definition entry_id :: "entry \<Rightarrow> string" where
  "entry_id e = (case fget e ''sessionId'' of JStr s \<Rightarrow> s | _ \<Rightarrow> [])"

fun ingest :: "index_cfg \<Rightarrow> js list \<Rightarrow> index \<Rightarrow> index" where
  "ingest cfg [] idx = idx"
| "ingest cfg (raw # raws) idx = ingest cfg raws
    (case problem_of cfg (entries idx) raw of
       Some _ \<Rightarrow> idx\<lparr>quarantine := quarantine idx @ [raw]\<rparr>
     | None \<Rightarrow> (let e = normal_entry cfg (props raw) in idx\<lparr>entries := om_set (entry_id e) e (entries idx)\<rparr>))"

definition has_logs :: "disk \<Rightarrow> bool" where
  "has_logs d \<longleftrightarrow> list_ex (\<lambda>(n, l). safe_id n \<and> ld_events l) (d_logs d)"

definition rebuilt_entry :: "index_cfg \<Rightarrow> string \<Rightarrow> log_dir \<Rightarrow> entry" where
  "rebuilt_entry cfg i l =
    (let m = (case ld_meta l of Parsed v \<Rightarrow> props v | _ \<Rightarrow> []);
         created = finite_or (fget m ''createdAt'') 0
     in [(''sessionId'', JStr i)] @ (if engine_id i then [(''engine'', JStr ''opencode'')] else []) @
        [(''runDir'', case fget m ''runDir'' of JStr s \<Rightarrow> JStr s
             | _ \<Rightarrow> if engine_id i then JStr (runs_subdir cfg @ ''/'' @ i) else JNull),
         (''agentMode'', case fget m ''agentMode'' of JStr s \<Rightarrow> JStr s | _ \<Rightarrow> JNull),
         (''title'', case fget m ''title'' of JStr (c # s) \<Rightarrow> JStr (c # s)
             | _ \<Rightarrow> if ld_events l then JStr ''(recovered conversation)'' else JNull),
         (''createdAt'', JNum created),
         (''updatedAt'', JNum (finite_or (fget m ''updatedAt'') created)),
         (''recovered'', JBool True)])"

fun rebuild_from_logs :: "index_cfg \<Rightarrow> (string \<times> log_dir) list \<Rightarrow> (string, entry) omap \<Rightarrow> (string, entry) omap" where
  "rebuild_from_logs cfg [] es = es"
| "rebuild_from_logs cfg ((i, l) # ls) es = rebuild_from_logs cfg ls
    (if safe_id i \<and> \<not> om_has es i then om_set i (rebuilt_entry cfg i l) es else es)"

definition known_ids :: "index_cfg \<Rightarrow> index \<Rightarrow> string list" where
  "known_ids cfg idx = om_keys (entries idx) @ filter safe_id (map (\<lambda>raw. case raw of
      JObj fs \<Rightarrow> (if nullish (fget fs ''sessionId'') then [] else js_text (num_text cfg) (fget fs ''sessionId'')) | _ \<Rightarrow> [])
     (quarantine idx))"

subsection \<open>Import and archive\<close>

definition items_of :: "json_file \<Rightarrow> js list" where
  "items_of f = (case f of Parsed (JArr xs) \<Rightarrow> xs | _ \<Rightarrow> [])"

definition imported_entry :: "index_cfg \<Rightarrow> string \<Rightarrow> entry \<Rightarrow> entry" where
  "imported_entry cfg i m =
    [(''sessionId'', JStr i), (''dataDir'', JStr (cline_data_dir cfg)), (''runDir'', JNull), (''legacy'', JBool True),
     (''title'', case fget m ''task'' of JStr (c # s) \<Rightarrow> JStr (take 120 (c # s)) | _ \<Rightarrow> JNull),
     (''createdAt'', JNum (finite_or (fget m ''ts'') 0)), (''updatedAt'', JNum (finite_or (fget m ''ts'') 0))]"

fun import_items :: "index_cfg \<Rightarrow> js list \<Rightarrow> (string, entry) omap \<Rightarrow> (string, entry) omap" where
  "import_items cfg [] es = es"
| "import_items cfg (v # vs) es = import_items cfg vs
    (let m = props v; i = js_text (num_text cfg) (fget m ''id'') in
     if \<not> is_obj v \<or> \<not> truthy (fget m ''id'') \<or> \<not> truthy (fget m ''ts'') \<or> truthy (fget m ''specialist'') then es
     else if om_has es i \<or> \<not> safe_id i then es
     else om_set i (imported_entry cfg i m) es)"

definition import_legacy :: "index_cfg \<Rightarrow> disk \<Rightarrow> index \<Rightarrow> index" where
  "import_legacy cfg d idx = idx\<lparr>entries := import_items cfg (items_of (d_history d (cline_data_dir cfg))) (entries idx),
     legacy_imported := True\<rparr>"

definition data_dir_of :: "index_cfg \<Rightarrow> entry \<Rightarrow> string" where
  "data_dir_of cfg e = (case fget e ''dataDir'' of JStr (c # s) \<Rightarrow> c # s
     | _ \<Rightarrow> if truthy (fget e ''legacy'') then cline_data_dir cfg else path_join (conversations_dir cfg) (entry_id e))"

definition stats_of :: "js \<Rightarrow> js" where
  "stats_of item = JObj
    [(''tokensIn'', JNum (finite_or (js_field item ''tokensIn'') 0)), (''tokensOut'', JNum (finite_or (js_field item ''tokensOut'') 0)),
     (''totalCost'', JNum (finite_or (js_field item ''totalCost'') 0)),
     (''modelId'', case js_field item ''modelId'' of JStr s \<Rightarrow> JStr s | _ \<Rightarrow> JNull),
     (''size'', case num_of (js_field item ''size'') of Some n \<Rightarrow> JNum n | None \<Rightarrow> JNull)]"

definition archive_entry :: "index_cfg \<Rightarrow> disk \<Rightarrow> entry \<Rightarrow> entry" where
  "archive_entry cfg d e =
    (if engine_id (entry_id e) then e
     else let e1 = (if is_true (fget e ''archived'') then e else fput ''archived'' (JBool True) e) in
       if is_obj (fget e1 ''stats'') then e1
       else (case List.find (\<lambda>h. is_obj h \<and> js_text (num_text cfg) (js_field h ''id'') = entry_id e1)
               (items_of (d_history d (data_dir_of cfg e1))) of
             Some h \<Rightarrow> fput ''stats'' (stats_of h) e1
           | None \<Rightarrow> fput ''stats'' (stats_of JUndef) e1))"

definition needs_archive :: "entry \<Rightarrow> bool" where
  "needs_archive e \<longleftrightarrow> \<not> engine_id (entry_id e) \<and> (\<not> is_true (fget e ''archived'') \<or> \<not> is_obj (fget e ''stats''))"

definition archive_all :: "index_cfg \<Rightarrow> disk \<Rightarrow> index \<Rightarrow> index" where
  "archive_all cfg d idx = idx\<lparr>entries := map (\<lambda>(i, e). (i, archive_entry cfg d e)) (entries idx)\<rparr>"

subsection \<open>Saving and loading\<close>

text \<open>What \<open>JSON.parse(JSON.stringify(v))\<close> makes of a value: no \<open>undefined\<close>, no infinity.\<close>

fun json_trip :: "js \<Rightarrow> js" where
  "json_trip (JInf p) = JNull"
| "json_trip (JArr xs) = JArr (map (\<lambda>x. if x = JUndef then JNull else json_trip x) xs)"
| "json_trip (JObj ps) = JObj (map (\<lambda>p. (fst p, json_trip (snd p))) (filter (\<lambda>p. snd p \<noteq> JUndef) ps))"
| "json_trip v = v"

definition save_index :: "index \<Rightarrow> disk \<Rightarrow> disk" where
  "save_index idx d = d\<lparr>d_index := Parsed (json_trip (JObj
     [(''version'', JNum INDEX_VERSION), (''legacyImported'', JBool (legacy_imported idx)),
      (''sessions'', JArr (map (\<lambda>(i, e). JObj e) (entries idx) @ quarantine idx))]))\<rparr>"

definition raw_file :: "disk \<Rightarrow> entry option" where
  "raw_file d = (case d_index d of Parsed (JObj fs) \<Rightarrow> Some fs | _ \<Rightarrow> None)"

text \<open>The file's own \<open>sessions\<close>, its \<open>legacyImported\<close>, and whether it is damaged.\<close>

definition file_sessions :: "disk \<Rightarrow> js" where
  "file_sessions d = (case raw_file d of Some fs \<Rightarrow> fget fs ''sessions'' | None \<Rightarrow> JUndef)"

definition file_imported :: "disk \<Rightarrow> bool" where
  "file_imported d = (case raw_file d of Some fs \<Rightarrow> is_true (fget fs ''legacyImported'') | None \<Rightarrow> False)"

definition file_damaged :: "disk \<Rightarrow> bool" where
  "file_damaged d \<longleftrightarrow> (d_index d \<noteq> Absent \<and> raw_file d = None) \<or>
     (raw_file d \<noteq> None \<and> (case file_sessions d of JArr _ \<Rightarrow> False | JUndef \<Rightarrow> False | _ \<Rightarrow> True)) \<or>
     (d_index d = Absent \<and> has_logs d)"

definition file_version3 :: "disk \<Rightarrow> bool" where
  "file_version3 d = (case raw_file d of Some fs \<Rightarrow> fget fs ''version'' = JNum INDEX_VERSION | None \<Rightarrow> False)"

definition read_index :: "index_cfg \<Rightarrow> disk \<Rightarrow> index" where
  "read_index cfg d =
    (let i1 = ingest cfg (case file_sessions d of JArr xs \<Rightarrow> xs | _ \<Rightarrow> [])
           \<lparr>entries = [], quarantine = [], legacy_imported = file_imported d, damaged = file_damaged d\<rparr>
     in if file_damaged d then i1\<lparr>entries := rebuild_from_logs cfg (d_logs d) (entries i1)\<rparr> else i1)"

definition with_legacy :: "index_cfg \<Rightarrow> disk \<Rightarrow> index \<Rightarrow> index" where
  "with_legacy cfg d idx = (if legacy_imported idx then idx else import_legacy cfg d idx)"

definition load_index :: "index_cfg \<Rightarrow> disk \<Rightarrow> index \<times> disk" where
  "load_index cfg d =
    (let d1 = (if d_index d \<noteq> Absent \<and> raw_file d = None then d\<lparr>d_kept := d_kept d @ [d_index d]\<rparr> else d);
         i2 = read_index cfg d;
         i3 = with_legacy cfg d i2;
         i4 = archive_all cfg d i3
     in if file_version3 d \<and> \<not> file_damaged d \<and> legacy_imported i2 \<and> \<not> list_ex (\<lambda>(i, e). needs_archive e) (entries i3)
        then (i4, d1)
        else (i4, save_index i4
           (if raw_file d \<noteq> None \<and> \<not> file_version3 d \<and> d_backup d1 = None
            then d1\<lparr>d_backup := map_option JObj (raw_file d)\<rparr> else d1)))"

subsection \<open>Operations\<close>

definition has_entry :: "index \<Rightarrow> string \<Rightarrow> bool" where
  "has_entry idx i \<longleftrightarrow> om_has (entries idx) i"

definition is_archived :: "index \<Rightarrow> string \<Rightarrow> bool" where
  "is_archived idx i \<longleftrightarrow> (case om_get (entries idx) i of Some e \<Rightarrow> is_true (fget e ''archived'') | None \<Rightarrow> False)"

text \<open>\<open>add\<close>: refused (a \<open>TypeError\<close>) for what is not an engine id.\<close>

definition add_entry :: "index_cfg \<Rightarrow> string \<Rightarrow> string option \<Rightarrow> string option \<Rightarrow> rat \<Rightarrow> index \<Rightarrow> index option" where
  "add_entry cfg i run_dir mode now idx =
    (if \<not> engine_id i then None
     else Some (idx\<lparr>entries := om_set i
       [(''sessionId'', JStr i), (''engine'', JStr ''opencode''),
        (''runDir'', JStr (case run_dir of Some r \<Rightarrow> r | None \<Rightarrow> runs_subdir cfg @ ''/'' @ i)),
        (''agentMode'', case mode of Some m \<Rightarrow> JStr m | None \<Rightarrow> JNull), (''title'', JNull),
        (''createdAt'', JNum now), (''updatedAt'', JNum now)] (entries idx)\<rparr>))"

definition TOUCH_FIELDS :: "string list" where
  "TOUCH_FIELDS = [''title'', ''modelId'', ''contextUsed'', ''contextSize'']"

definition touch_entry :: "string \<Rightarrow> (string \<times> js) list \<Rightarrow> rat \<Rightarrow> index \<Rightarrow> index \<times> bool" where
  "touch_entry i sets now idx =
    (case om_get (entries idx) i of
       None \<Rightarrow> (idx, False)
     | Some e \<Rightarrow> (idx\<lparr>entries := om_set i (fput ''updatedAt'' (JNum now)
         (fold (\<lambda>(k, v) e. if k \<in> set TOUCH_FIELDS \<and> v \<noteq> JUndef then fput k v e else e) sets e)) (entries idx)\<rparr>, True))"

definition archive_one :: "string \<Rightarrow> bool \<Rightarrow> rat \<Rightarrow> index \<Rightarrow> index \<times> bool" where
  "archive_one i lost now idx =
    (case om_get (entries idx) i of
       None \<Rightarrow> (idx, False)
     | Some e \<Rightarrow> (idx\<lparr>entries := om_set i (fput ''updatedAt'' (JNum now)
         ((if lost then fput ''lost'' (JBool True) else id) (fput ''archived'' (JBool True) e))) (entries idx)\<rparr>, True))"

definition remove_entry :: "string \<Rightarrow> index \<Rightarrow> index \<times> bool" where
  "remove_entry i idx =
    (if om_has (entries idx) i then (idx\<lparr>entries := om_delete i (entries idx)\<rparr>, True) else (idx, False))"

subsection \<open>Pruning at boot\<close>

text \<open>\<open>rmdir\<close>: only an empty run folder goes.\<close>

definition remove_run_dir :: "string \<Rightarrow> disk \<Rightarrow> disk" where
  "remove_run_dir i d = d\<lparr>d_runs := filter (\<lambda>(n, files). \<not> (n = i \<and> files = 0)) (d_runs d)\<rparr>"

definition remove_log :: "string \<Rightarrow> disk \<Rightarrow> disk" where
  "remove_log i d = d\<lparr>d_logs := filter (\<lambda>(n, l). n \<noteq> i) (d_logs d)\<rparr>"

text \<open>\<open>#ownedDataDir\<close>: the data folder of the conversation itself, never another.\<close>

definition owned_data_dir :: "index_cfg \<Rightarrow> string \<Rightarrow> entry \<Rightarrow> bool" where
  "owned_data_dir cfg cwd e = (case fget e ''dataDir'' of JStr (c # s) \<Rightarrow>
      path_resolve cwd (c # s) = path_join (path_resolve cwd (conversations_dir cfg)) (entry_id e) | _ \<Rightarrow> False)"

definition unprompted :: "entry \<Rightarrow> bool" where
  "unprompted e \<longleftrightarrow> \<not> truthy (fget e ''title'') \<and> \<not> truthy (fget e ''legacy'')"

definition prune_one :: "index_cfg \<Rightarrow> string \<Rightarrow> string \<times> entry \<Rightarrow> index \<times> disk \<times> string list \<Rightarrow> index \<times> disk \<times> string list" where
  "prune_one cfg cwd ie st = (case ie of (i, e) \<Rightarrow> case st of (idx, d, gone) \<Rightarrow>
     (idx\<lparr>entries := om_delete (entry_id e) (entries idx)\<rparr>,
      (let d1 = remove_run_dir (entry_id e) (remove_log (entry_id e) d) in
       if truthy (fget e ''archived'')
       then (if owned_data_dir cfg cwd e then d1\<lparr>d_data := filter (\<lambda>n. n \<noteq> entry_id e) (d_data d1)\<rparr> else d1) else d1),
      if engine_id (entry_id e) \<and> \<not> truthy (fget e ''archived'') then gone @ [entry_id e] else gone))"

definition prune_unprompted :: "index_cfg \<Rightarrow> string \<Rightarrow> index \<Rightarrow> disk \<Rightarrow> index \<times> disk \<times> string list" where
  "prune_unprompted cfg cwd idx d =
    (let gone = filter (\<lambda>(i, e). unprompted e) (entries idx) in
     if gone = [] then (idx, d, [])
     else (case fold (prune_one cfg cwd) gone (idx, d, []) of (idx', d', ids) \<Rightarrow> (idx', save_index idx' d', ids)))"

definition any_id :: "string \<Rightarrow> bool" where
  "any_id n \<longleftrightarrow> engine_id n \<or> cline_id n"

definition prune_orphans :: "index_cfg \<Rightarrow> index \<Rightarrow> disk \<Rightarrow> disk \<times> nat" where
  "prune_orphans cfg idx d =
    (let known = known_ids cfg idx;
         orphan = (\<lambda>n. any_id n \<and> n \<notin> set known);
         old = (\<lambda>n. cline_id n \<and> n \<notin> set known);
         runs' = filter (\<lambda>(n, files). \<not> (orphan n \<and> files = 0)) (d_runs d)
     in (d\<lparr>d_logs := filter (\<lambda>(n, l). \<not> orphan n) (d_logs d),
           d_aside := d_aside d @ filter (\<lambda>(n, l). orphan n \<and> ld_events l) (d_logs d),
           d_runs := runs',
           d_data := filter (\<lambda>n. \<not> old n) (d_data d)\<rparr>,
         length (filter (\<lambda>(n, l). orphan n) (d_logs d)) + (length (d_runs d) - length runs') + length (filter old (d_data d))))"

text \<open>The gateway's boot (runtime/server.js): a damaged index is never a reason to prune.\<close>

definition boot_index :: "index_cfg \<Rightarrow> string \<Rightarrow> disk \<Rightarrow> index \<times> disk \<times> string list" where
  "boot_index cfg cwd d =
    (case load_index cfg d of (idx, d1) \<Rightarrow>
       if damaged idx then (idx, d1, [])
       else (case prune_unprompted cfg cwd idx d1 of (idx', d2, gone) \<Rightarrow> (idx', fst (prune_orphans cfg idx' d2), gone)))"

subsection \<open>The list\<close>

definition updated_at :: "entry \<Rightarrow> rat" where
  "updated_at e = finite_or (fget e ''updatedAt'') 0"

definition iso_date :: "index_cfg \<Rightarrow> rat \<Rightarrow> string" where
  "iso_date cfg ms = (if \<bar>ms\<bar> \<le> 8640000000000000 then iso_text cfg ms else iso_text cfg 0)"

definition row_of :: "index_cfg \<Rightarrow> entry \<Rightarrow> js" where
  "row_of cfg e =
    (let arch = is_true (fget e ''archived''); cline = arch \<and> \<not> engine_id (entry_id e);
         stats = (if cline then JObj (props (fget e ''stats'')) else JObj []);
         null_or = (\<lambda>v. js_or_null v JNull)
     in JObj [(''sessionId'', fget e ''sessionId''), (''cwd'', JStr (workspace_dir cfg)), (''title'', fget e ''title''),
        (''updatedAt'', JStr (iso_date cfg (updated_at e))),
        (''_meta'', JObj ([(''archived'', JBool arch), (''legacy'', JBool (truthy (fget e ''legacy''))),
           (''runDir'', null_or (fget e ''runDir'')), (''agentMode'', null_or (fget e ''agentMode'')),
           (''modelId'', null_or (if cline then js_field stats ''modelId'' else fget e ''modelId'')),
           (''tokensIn'', if cline then js_or_null (js_field stats ''tokensIn'') (JNum 0) else JNull),
           (''tokensOut'', if cline then js_or_null (js_field stats ''tokensOut'') (JNum 0) else JNull),
           (''contextUsed'', if cline then JNull else null_or (fget e ''contextUsed'')),
           (''contextSize'', if cline then JNull else null_or (fget e ''contextSize'')),
           (''size'', if cline then null_or (js_field stats ''size'') else JNull)] @
           (if is_true (fget e ''lost'') then [(''lost'', JBool True)] else [])))])"

text \<open>\<open>Number.parseInt(s, 10)\<close>: blanks, a sign and digits; the rest is ignored.\<close>

definition parse_int :: "string \<Rightarrow> int option" where
  "parse_int s =
    (let t = dropWhile is_space s;
         neg = (t \<noteq> [] \<and> hd t = CHR ''-'');
         u = (if t \<noteq> [] \<and> hd t \<in> {CHR ''-'', CHR ''+''} then tl t else t);
         ds = takeWhile is_digit u
     in if ds = [] then None else Some (if neg then - int (parse_dec ds) else int (parse_dec ds)))"

definition offset_of :: "string option \<Rightarrow> nat" where
  "offset_of cursor = (case parse_int (case cursor of Some c \<Rightarrow> c | None \<Rightarrow> ''0'') of Some n \<Rightarrow> nat n | None \<Rightarrow> 0)"

definition listed_entries :: "index \<Rightarrow> entry list" where
  "listed_entries idx = sort_key (\<lambda>e. - updated_at e) (filter (\<lambda>e. truthy (fget e ''title'')) (map snd (entries idx)))"

definition list_page :: "index_cfg \<Rightarrow> index \<Rightarrow> string option \<Rightarrow> js list \<times> string option" where
  "list_page cfg idx cursor =
    (let off = offset_of cursor; all = listed_entries idx in
     (map (row_of cfg) (take PAGE_SIZE (drop off all)),
      if off + PAGE_SIZE < length all then Some (dec_nat (off + PAGE_SIZE)) else None))"

end
