(* ===== verification/Session_Index_Props.thy ===== *)
theory Session_Index_Props
  imports Session_Index "HOL-Library.Multiset"
begin

text \<open>
  The properties of the conversation list (runtime/lib/session-index.js): paging, the types of what it holds, what a
  second load finds, and what pruning may remove.
\<close>

lemma fget_fput [simp]: "fget (fput k v e) k' = (if k' = k then v else fget e k')"
proof -
  have "fget m j = (case om_get m j of Some x \<Rightarrow> x | None \<Rightarrow> JUndef)" for m j by (simp add: fget_def om_get_def)
  then show ?thesis by (simp add: fput_def)
qed

subsection \<open>Paging\<close>

lemma digit_not_space: "is_digit c \<Longrightarrow> \<not> is_space c \<and> c \<notin> {CHR ''-'', CHR ''+''}"
  by (auto simp: char_class_defs)

lemma parse_int_dec: "parse_int (dec_nat n) = Some (int n)"
proof -
  have all: "list_all is_digit (dec_nat n)" by (rule dec_nat_digits)
  obtain c cs where c: "dec_nat n = c # cs" by (cases "dec_nat n") auto
  have d: "is_digit c" using all c by simp
  have "takeWhile is_digit cs = cs" using all c by (simp add: takeWhile_eq_all_conv list_all_iff)
  then show ?thesis using digit_not_space [OF d] d parse_dec_dec_nat [of n] by (simp add: parse_int_def Let_def c takeWhile_eq_all_conv [THEN iffD2])
qed

lemma offset_of_next [simp]: "offset_of (Some (dec_nat n)) = n"
  by (simp add: offset_of_def parse_int_dec)

lemma offset_of_first [simp]: "offset_of None = 0"
proof -
  have "dec_nat 0 = ''0''" by code_simp
  then show ?thesis using parse_int_dec [of 0] by (simp add: offset_of_def)
qed

text \<open>A client that follows the cursors from the given one.\<close>

function pages :: "index_cfg \<Rightarrow> index \<Rightarrow> string option \<Rightarrow> js list" where
  "pages cfg idx cursor =
    (case list_page cfg idx cursor of (rows, next) \<Rightarrow>
       rows @ (case next of None \<Rightarrow> [] | Some c \<Rightarrow> pages cfg idx (Some c)))"
  by pat_completeness auto
termination
  by (relation "measure (\<lambda>(cfg, idx, cursor). length (listed_entries idx) - offset_of cursor)")
     (auto simp: list_page_def Let_def PAGE_SIZE_def split: if_splits)

declare pages.simps [simp del]

lemma pages_from: "pages cfg idx cursor = map (row_of cfg) (drop (offset_of cursor) (listed_entries idx))"
proof (induction cfg idx cursor rule: pages.induct)
  case (1 cfg idx cursor)
  let ?all = "listed_entries idx" and ?off = "offset_of cursor"
  have split: "drop ?off ?all = take PAGE_SIZE (drop ?off ?all) @ drop (?off + PAGE_SIZE) ?all"
    by (metis append_take_drop_id drop_drop add.commute)
  show ?case
  proof (cases "?off + PAGE_SIZE < length ?all")
    case True
    then have "pages cfg idx (Some (dec_nat (?off + PAGE_SIZE))) = map (row_of cfg) (drop (?off + PAGE_SIZE) ?all)"
      using "1.IH" by (simp add: list_page_def Let_def)
    then show ?thesis using True split by (subst pages.simps) (simp add: list_page_def Let_def flip: map_append)
  next
    case False
    then show ?thesis using split by (subst pages.simps) (simp add: list_page_def Let_def)
  qed
qed

text \<open>Claim C39. Following the cursors of \<open>session/list\<close> from the first page, over an index that does not change meanwhile, ends, and the pages together are every
  conversation with a title exactly once, the most recently updated first.\<close>

theorem paging_lists_all:
  "pages cfg idx None = map (row_of cfg) (listed_entries idx) \<and>
   mset (listed_entries idx) = {#e \<in># mset (map snd (entries idx)). truthy (fget e ''title'')#} \<and>
   sorted_wrt (\<lambda>a b. updated_at b \<le> updated_at a) (listed_entries idx)"
proof -
  have "sorted (map (\<lambda>e. - updated_at e) (listed_entries idx))" by (simp add: listed_entries_def)
  then have "sorted_wrt (\<lambda>a b. updated_at b \<le> updated_at a) (listed_entries idx)" by (simp add: sorted_map)
  then show ?thesis by (simp add: pages_from listed_entries_def)
qed

subsection \<open>What the index holds\<close>

definition typed_entry :: "string \<Rightarrow> entry \<Rightarrow> bool" where
  "typed_entry i e \<longleftrightarrow> fget e ''sessionId'' = JStr i \<and> safe_id i \<and> num_of (fget e ''createdAt'') \<noteq> None \<and>
     num_of (fget e ''updatedAt'') \<noteq> None \<and> (fget e ''title'' = JNull \<or> str_of (fget e ''title'') \<noteq> None) \<and>
     (\<forall>k \<in> {''runDir'', ''dataDir''}. nullish (fget e k) \<or> str_of (fget e k) \<noteq> None)"

definition typed_entries :: "(string, entry) omap \<Rightarrow> bool" where
  "typed_entries es \<longleftrightarrow> om_ok es \<and> (\<forall>i e. om_get es i = Some e \<longrightarrow> typed_entry i e)"

lemma typed_set: "typed_entries es \<Longrightarrow> typed_entry i e \<Longrightarrow> typed_entries (om_set i e es)"
  by (simp add: typed_entries_def)

lemma typed_delete: "typed_entries es \<Longrightarrow> typed_entries (om_delete i es)"
  by (simp add: typed_entries_def)

lemma fget_Nil [simp]: "fget [] k = JUndef"
  by (simp add: fget_def)

lemma fget_Cons [simp]: "fget ((k, v) # e) j = (if j = k then v else fget e j)"
  by (simp add: fget_def)

lemma problem_NoneD:
  assumes "problem_of cfg es raw = None"
  obtains fs i where "raw = JObj fs" "id_of_raw cfg (fget fs ''sessionId'') = Some i" "safe_id i" "om_get es i = None"
    "\<forall>k \<in> {''title'', ''runDir'', ''dataDir''}. nullish (fget fs k) \<or> str_of (fget fs k) \<noteq> None"
proof -
  obtain fs where fs: "raw = JObj fs" using assms by (cases raw) (auto simp: problem_of_def)
  obtain i where i: "id_of_raw cfg (fget fs ''sessionId'') = Some i"
    using assms fs by (cases "id_of_raw cfg (fget fs ''sessionId'')") (auto simp: problem_of_def)
  show thesis using that [OF fs i] assms fs i
    by (auto simp: problem_of_def om_has_def split: if_splits option.splits)
qed

lemma id_text: "id_of_raw cfg v = Some i \<Longrightarrow> js_text (num_text cfg) v = i"
  by (cases v) (auto simp: id_of_raw_def)

lemma num_of_finite [simp]: "num_of (JNum x) \<noteq> None"
  by simp

lemma typed_normal:
  assumes "problem_of cfg es raw = None" "e = normal_entry cfg (props raw)"
  shows "typed_entry (entry_id e) e" "om_get es (entry_id e) = None"
    "id_of_raw cfg (fget (props raw) ''sessionId'') = Some (entry_id e)"
proof -
  obtain fs i where r: "raw = JObj fs" "id_of_raw cfg (fget fs ''sessionId'') = Some i" "safe_id i" "om_get es i = None"
    "\<forall>k \<in> {''title'', ''runDir'', ''dataDir''}. nullish (fget fs k) \<or> str_of (fget fs k) \<noteq> None"
    using problem_NoneD [OF assms(1)] .
  have e: "e = normal_entry cfg fs" using assms(2) r(1) by (simp add: props_def)
  have id: "entry_id e = i" using id_text [OF r(2)] by (simp add: e normal_entry_def Let_def entry_id_def)
  have title: "fget fs ''title'' \<in> {JUndef, JNull} \<or> str_of (fget fs ''title'') \<noteq> None"
    using r(5) by (cases "fget fs ''title''") auto
  show "typed_entry (entry_id e) e" unfolding typed_entry_def id
    using r(3,5) id_text [OF r(2)] title by (auto simp: e normal_entry_def Let_def)
  show "om_get es (entry_id e) = None" "id_of_raw cfg (fget (props raw) ''sessionId'') = Some (entry_id e)"
    using r id by (simp_all add: props_def)
qed

lemma typed_ingest: "typed_entries (entries idx) \<Longrightarrow> typed_entries (entries (ingest cfg raws idx))"
proof (induction raws arbitrary: idx)
  case (Cons raw raws)
  show ?case
  proof (cases "problem_of cfg (entries idx) raw")
    case None
    let ?e = "normal_entry cfg (props raw)"
    have "typed_entries (om_set (entry_id ?e) ?e (entries idx))"
      by (rule typed_set [OF Cons.prems typed_normal(1) [OF None refl]])
    then show ?thesis using Cons.IH [of "idx\<lparr>entries := om_set (entry_id ?e) ?e (entries idx)\<rparr>"] None by (simp add: Let_def)
  next
    case (Some p)
    then show ?thesis using Cons.IH [of "idx\<lparr>quarantine := quarantine idx @ [raw]\<rparr>"] Cons.prems by simp
  qed
qed simp

lemma js_title: "(case v of JStr (c # s) \<Rightarrow> JStr (f c s) | _ \<Rightarrow> JNull) = JNull \<or>
    str_of (case v of JStr (c # s) \<Rightarrow> JStr (f c s) | _ \<Rightarrow> JNull) \<noteq> None"
  by (simp split: js.split list.split)

lemma typed_rebuilt: "safe_id i \<Longrightarrow> typed_entry i (rebuilt_entry cfg i l)"
  by (cases "engine_id i") (simp_all add: typed_entry_def rebuilt_entry_def Let_def split: js.split list.split)

lemma typed_rebuild: "typed_entries es \<Longrightarrow> typed_entries (rebuild_from_logs cfg ls es)"
  by (induction cfg ls es rule: rebuild_from_logs.induct) (simp_all add: typed_rebuilt typed_set)

lemma typed_imported: "safe_id i \<Longrightarrow> typed_entry i (imported_entry cfg i m)"
  using js_title [where v = "fget m ''task''" and f = "\<lambda>c s. take 120 (c # s)"] by (simp add: typed_entry_def imported_entry_def)

lemma typed_import: "typed_entries es \<Longrightarrow> typed_entries (import_items cfg vs es)"
  by (induction cfg vs es rule: import_items.induct) (simp_all add: typed_imported typed_set Let_def)

lemma fget_archive: "k \<notin> {''archived'', ''stats''} \<Longrightarrow> fget (archive_entry cfg d e) k = fget e k"
  by (simp add: archive_entry_def Let_def split: option.split)

lemma typed_archive: "typed_entry i e \<Longrightarrow> typed_entry i (archive_entry cfg d e)"
  by (simp add: typed_entry_def fget_archive)

lemma om_get_map: "om_get (map (\<lambda>(i, e). (i, f e)) m) i = map_option f (om_get m i)"
  by (induction m) (auto simp: om_get_def)

lemma typed_archive_all: "typed_entries (entries idx) \<Longrightarrow> typed_entries (entries (archive_all cfg d idx))"
  by (auto simp: typed_entries_def archive_all_def om_get_map typed_archive om_ok_def comp_def split_beta)

lemma typed_load: "typed_entries (entries (fst (load_index cfg d)))"
proof -
  have "typed_entries []" by (simp add: typed_entries_def)
  then have "typed_entries (entries (read_index cfg d))"
    by (simp add: read_index_def Let_def typed_rebuild typed_ingest)
  then show ?thesis
    by (simp add: load_index_def Let_def with_legacy_def import_legacy_def typed_archive_all typed_import)
qed

text \<open>The operations of the gateway after boot, in any order.\<close>

datatype index_op =
    OpAdd string "string option" "string option" rat
  | OpTouch string "(string \<times> js) list" rat
  | OpArchive string bool rat
  | OpRemove string
  | OpPrune

fun index_step :: "index_cfg \<Rightarrow> string \<Rightarrow> index_op \<Rightarrow> index \<times> disk \<Rightarrow> index \<times> disk" where
  "index_step cfg cwd (OpAdd i r m now) (idx, d) =
     (case add_entry cfg i r m now idx of None \<Rightarrow> (idx, d) | Some idx' \<Rightarrow> (idx', save_index idx' d))"
| "index_step cfg cwd (OpTouch i sets now) (idx, d) =
     (case touch_entry i sets now idx of (idx', ok) \<Rightarrow> (idx', if ok then save_index idx' d else d))"
| "index_step cfg cwd (OpArchive i lost now) (idx, d) =
     (case archive_one i lost now idx of (idx', ok) \<Rightarrow> (idx', if ok then save_index idx' d else d))"
| "index_step cfg cwd (OpRemove i) (idx, d) =
     (case remove_entry i idx of (idx', ok) \<Rightarrow> (idx', if ok then save_index idx' d else d))"
| "index_step cfg cwd OpPrune (idx, d) = (case prune_unprompted cfg cwd idx d of (idx', d', gone) \<Rightarrow> (idx', d'))"

definition run_index :: "index_cfg \<Rightarrow> string \<Rightarrow> disk \<Rightarrow> index_op list \<Rightarrow> index \<times> disk" where
  "run_index cfg cwd d ops = fold (index_step cfg cwd) ops (load_index cfg d)"

text \<open>A title is set to a string, to null, or left as it is.\<close>

fun titles_ok :: "index_op \<Rightarrow> bool" where
  "titles_ok (OpTouch i sets now) = list_all (\<lambda>(k, v). k = ''title'' \<longrightarrow> v \<in> {JUndef, JNull} \<or> str_of v \<noteq> None) sets"
| "titles_ok _ = True"

lemma engine_safe:
  assumes "engine_id i" "length i \<le> 128"
  shows "safe_id i"
proof -
  obtain t where t: "i = ''ses_'' @ t" "list_all is_alnum t" using assms(1) by (auto simp: engine_id_def prefix_def)
  have "list_all is_b64 t" using t(2) by (auto simp: list_all_iff is_b64_def)
  moreover have "list_all is_b64 ''ses_''" by code_simp
  ultimately have "list_all is_b64 i" by (simp only: t(1) list_all_append)
  then show ?thesis using assms(2) by (simp add: safe_id_def t(1))
qed

fun ids_ok :: "index_op \<Rightarrow> bool" where
  "ids_ok (OpAdd i r m now) = (length i \<le> 128)"
| "ids_ok _ = True"

lemma typed_touch_field:
  "typed_entry i e \<Longrightarrow> k \<in> set TOUCH_FIELDS \<Longrightarrow> (k = ''title'' \<longrightarrow> v = JNull \<or> str_of v \<noteq> None) \<Longrightarrow> typed_entry i (fput k v e)"
  by (auto simp: typed_entry_def TOUCH_FIELDS_def)

lemma typed_touch_fields:
  "typed_entry i e \<Longrightarrow> list_all (\<lambda>(k, v). k = ''title'' \<longrightarrow> v \<in> {JUndef, JNull} \<or> str_of v \<noteq> None) sets \<Longrightarrow>
   typed_entry i (fold (\<lambda>(k, v) e. if k \<in> set TOUCH_FIELDS \<and> v \<noteq> JUndef then fput k v e else e) sets e)"
proof (induction sets arbitrary: e)
  case (Cons kv sets)
  then show ?case using typed_touch_field by (cases kv) auto
qed simp

lemma typed_updated: "typed_entry i e \<Longrightarrow> typed_entry i (fput ''updatedAt'' (JNum t) e)"
  by (simp add: typed_entry_def)

lemma typed_flag: "typed_entry i e \<Longrightarrow> k \<in> {''archived'', ''lost''} \<Longrightarrow> typed_entry i (fput k v e)"
  by (auto simp: typed_entry_def)

lemma typed_prune: "typed_entries (entries idx) \<Longrightarrow> typed_entries (entries (fst (prune_unprompted cfg cwd idx d)))"
proof -
  have "typed_entries (entries (fst (fold (prune_one cfg cwd) gone (idx, d, ids))))" if "typed_entries (entries idx)" for gone ids d idx
    using that
  proof (induction gone arbitrary: idx d ids)
    case (Cons ie gone)
    then show ?case by (cases ie) (simp add: prune_one_def typed_delete del: fold_simps(1))
  qed simp
  then show "typed_entries (entries idx) \<Longrightarrow> ?thesis" by (simp add: prune_unprompted_def Let_def split_beta)
qed

lemma typed_step:
  assumes "typed_entries (entries (fst st))" "titles_ok op" "ids_ok op"
  shows "typed_entries (entries (fst (index_step cfg cwd op st)))"
proof (cases st)
  case (Pair idx d)
  then have t: "typed_entries (entries idx)" using assms(1) by simp
  then have e: "om_get (entries idx) i = Some e \<Longrightarrow> typed_entry i e" for i e by (simp add: typed_entries_def)
  show ?thesis
  proof (cases op)
    case (OpAdd i r m now)
    then show ?thesis using Pair t assms(3) engine_safe
      by (auto simp: add_entry_def typed_entry_def intro!: typed_set split: option.split)
  next
    case (OpTouch i sets now)
    then show ?thesis using Pair t assms(2) e
      by (auto simp: touch_entry_def intro!: typed_set typed_updated typed_touch_fields split: option.split)
  next
    case (OpArchive i lost now)
    then show ?thesis using Pair t e
      by (auto simp: archive_one_def intro!: typed_set typed_updated typed_flag split: option.split)
  next
    case (OpRemove i)
    then show ?thesis using Pair t by (simp add: remove_entry_def typed_delete)
  next
    case OpPrune
    then show ?thesis using Pair t typed_prune by (simp add: split_beta)
  qed
qed

lemma typed_run:
  assumes "list_all titles_ok ops" "list_all ids_ok ops"
  shows "typed_entries (entries (fst (run_index cfg cwd d ops)))"
proof -
  have "typed_entries (entries (fst (fold (index_step cfg cwd) ops st)))" if "typed_entries (entries (fst st))" for st
    using that assms
  proof (induction ops arbitrary: st)
    case (Cons op ops)
    then show ?case using typed_step by simp
  qed simp
  then show ?thesis using typed_load by (simp add: run_index_def)
qed

text \<open>Whatever is in index.json and the session logs, and whatever the gateway then adds, touches, archives,
  removes and prunes, every row of every page of \<open>session/list\<close> has a safe id and a title that is a nonempty string.\<close>

theorem listed_rows_typed:
  assumes "list_all titles_ok ops" "list_all ids_ok ops"
    "row \<in> set (fst (list_page cfg (fst (run_index cfg cwd d ops)) cursor))"
  shows "\<exists>i t. js_field row ''sessionId'' = JStr i \<and> safe_id i \<and> js_field row ''title'' = JStr t \<and> t \<noteq> []"
proof -
  let ?es = "entries (fst (run_index cfg cwd d ops))"
  have t: "typed_entries ?es" by (rule typed_run [OF assms(1,2)])
  obtain e where e: "row = row_of cfg e" "e \<in> set (listed_entries (fst (run_index cfg cwd d ops)))"
    using assms(3) by (auto simp: list_page_def Let_def dest: in_set_takeD in_set_dropD)
  then obtain i where "(i, e) \<in> set ?es" and title: "truthy (fget e ''title'')" by (auto simp: listed_entries_def)
  then have "om_get ?es i = Some e" using t by (auto simp: typed_entries_def intro: om_mem_get)
  then have "typed_entry i e" using t by (simp add: typed_entries_def)
  then show ?thesis using title e(1) by (auto simp: typed_entry_def row_of_def Let_def)
qed

theorem listed_rows_typed_witness:
  "let row = hd (fst (list_page \<lparr>runs_subdir = ''runs'', cline_data_dir = ''/d'', conversations_dir = ''/c'', workspace_dir = ''/w'',
       num_text = (\<lambda>n. ''1''), iso_text = (\<lambda>n. ''then'')\<rparr>
     (fst (run_index \<lparr>runs_subdir = ''runs'', cline_data_dir = ''/d'', conversations_dir = ''/c'', workspace_dir = ''/w'',
       num_text = (\<lambda>n. ''1''), iso_text = (\<lambda>n. ''then'')\<rparr> ''/''
       \<lparr>d_index = Absent, d_backup = None, d_kept = [], d_logs = [], d_aside = [], d_runs = [], d_data = [], d_history = (\<lambda>p. Absent)\<rparr>
       [OpAdd ''ses_a'' None None 1, OpTouch ''ses_a'' [(''title'', JStr ''one'')] 2])) None))
   in \<exists>i t. js_field row ''sessionId'' = JStr i \<and> safe_id i \<and> js_field row ''title'' = JStr t \<and> t \<noteq> []"
  unfolding Let_def
  by (rule listed_rows_typed [where ops = "[OpAdd ''ses_a'' None None 1, OpTouch ''ses_a'' [(''title'', JStr ''one'')] 2]"
        and cursor = None], simp, simp, rule hd_in_set, code_simp)

end
