(* ===== verification/Session_Index_Load.thy ===== *)
theory Session_Index_Load
  imports Session_Index_Props
begin

text \<open>
  Boot of the conversation list (runtime/lib/session-index.js, runtime/server.js): what is on disk after a load is a
  fixed point of loading, and no boot loses a run folder's files or a prompted conversation's current transcript.
\<close>

subsection \<open>Pruning\<close>

lemma prune_fold_logs:
  assumes "(n, l) \<in> set (d_logs d)" "\<forall>(i, e) \<in> set gone. entry_id e \<noteq> n"
  shows "(n, l) \<in> set (d_logs (fst (snd (fold (prune_one cfg cwd) gone (idx, d, ids)))))"
  using assms
proof (induction gone arbitrary: idx d ids)
  case (Cons ie gone)
  obtain i e where ie: "ie = (i, e)" by (cases ie)
  obtain idx' d' ids' where st: "prune_one cfg cwd ie (idx, d, ids) = (idx', d', ids')" by (metis prod_cases3)
  then have "(n, l) \<in> set (d_logs d')" using Cons.prems ie
    by (auto simp: prune_one_def remove_run_dir_def remove_log_def Let_def split: if_splits)
  then show ?case using Cons.IH Cons.prems(2) st ie by simp
qed simp

lemma prune_fold_runs:
  assumes "(n, files) \<in> set (d_runs d)" "0 < files"
  shows "(n, files) \<in> set (d_runs (fst (snd (fold (prune_one cfg cwd) gone (idx, d, ids)))))"
  using assms
proof (induction gone arbitrary: idx d ids)
  case (Cons ie gone)
  obtain i e where ie: "ie = (i, e)" by (cases ie)
  obtain idx' d' ids' where st: "prune_one cfg cwd ie (idx, d, ids) = (idx', d', ids')" by (metis prod_cases3)
  then have "(n, files) \<in> set (d_runs d')" using Cons.prems ie
    by (auto simp: prune_one_def remove_run_dir_def remove_log_def Let_def split: if_splits)
  then show ?case using Cons.IH Cons.prems(2) st ie by simp
qed simp

lemma load_keeps_folders [simp]:
  "d_logs (snd (load_index cfg d)) = d_logs d" "d_runs (snd (load_index cfg d)) = d_runs d"
  "d_aside (snd (load_index cfg d)) = d_aside d"
  by (simp_all add: load_index_def Let_def save_index_def)

text \<open>Claim C22. A boot keeps what a conversation produced: every run folder with a file in it is still there, and every
  transcript with a nonempty \<open>events.ndjson\<close> is where it was or set aside, unless the index knows its conversation as one
  that was never prompted. A transcript that is only in the rotated file is not kept (\<open>rotated_orphan_removed\<close>).\<close>

theorem boot_keeps_outputs:
  assumes "boot_index cfg cwd d = (idx, d', gone)" "(n, l) \<in> set (d_logs d)" "ld_events l"
    "(m, files) \<in> set (d_runs d)" "0 < files"
  shows "(m, files) \<in> set (d_runs d') \<and>
    ((n, l) \<in> set (d_logs d' @ d_aside d') \<or>
     (\<exists>e. om_get (entries (fst (load_index cfg d))) n = Some e \<and> unprompted e))"
proof -
  obtain i0 d0 where l: "load_index cfg d = (i0, d0)" by fastforce
  have kept: "d_logs d0 = d_logs d" "d_runs d0 = d_runs d" using load_keeps_folders [of cfg d] l by simp_all
  have t: "typed_entries (entries i0)" using typed_load [of cfg d] l by simp
  show ?thesis
  proof (cases "damaged i0")
    case True
    then show ?thesis using assms l kept by (simp add: boot_index_def)
  next
    case False
    obtain i1 d1 g1 where p: "prune_unprompted cfg cwd i0 d0 = (i1, d1, g1)" by (metis prod_cases3)
    have d': "d' = fst (prune_orphans cfg i1 d1)" using assms(1) l False p by (auto simp: boot_index_def)
    let ?gone = "filter (\<lambda>(i, e). unprompted e) (entries i0)"
    obtain i2 d2 g2 where f: "fold (prune_one cfg cwd) ?gone (i0, d0, []) = (i2, d2, g2)" by (metis prod_cases3)
    have d1: "d_logs d1 = (if ?gone = [] then d_logs d0 else d_logs d2)" "d_runs d1 = (if ?gone = [] then d_runs d0 else d_runs d2)"
      using p f by (auto simp: prune_unprompted_def Let_def save_index_def split: if_splits)
    have "(m, files) \<in> set (d_runs d1)"
      using prune_fold_runs [of m files d0 cfg cwd ?gone i0 "[]"] assms(4,5) kept d1 f by (simp split: if_splits)
    then have runs: "(m, files) \<in> set (d_runs d')" using assms(5) by (simp add: d' prune_orphans_def Let_def)
    have logs: "(n, l) \<in> set (d_logs d1)" if "\<not> (\<exists>e. om_get (entries i0) n = Some e \<and> unprompted e)"
    proof -
      have "entry_id e \<noteq> n" if "(i, e) \<in> set ?gone" for i e
      proof -
        have ie: "(i, e) \<in> set (entries i0)" "unprompted e" using that by auto
        then have g: "om_get (entries i0) i = Some e" using t by (auto simp: typed_entries_def intro: om_mem_get)
        then have "entry_id e = i" using t by (simp add: typed_entries_def typed_entry_def entry_id_def)
        then show ?thesis using \<open>\<not> (\<exists>e. _ e)\<close> g ie by auto
      qed
      then show ?thesis
        using prune_fold_logs [of n l d0 ?gone cfg cwd i0 "[]"] assms(2) kept d1 f by (auto split: if_splits)
    qed
    have "(n, l) \<in> set (d_logs d' @ d_aside d')" if "(n, l) \<in> set (d_logs d1)"
      using that assms(3) by (auto simp: d' prune_orphans_def Let_def)
    then show ?thesis using runs logs l by auto
  qed
qed

subsection \<open>Loading again\<close>

text \<open>A value that \<open>JSON.stringify\<close> and \<open>JSON.parse\<close> give back unchanged.\<close>

fun plain_js :: "js \<Rightarrow> bool" where
  "plain_js JUndef = False"
| "plain_js (JInf p) = False"
| "plain_js (JArr xs) = (\<forall>x \<in> set xs. plain_js x)"
| "plain_js (JObj ps) = (\<forall>p \<in> set ps. plain_js (snd p))"
| "plain_js v = True"

lemma plain_trip: "plain_js v \<Longrightarrow> json_trip v = v"
proof (induction v rule: plain_js.induct)
  case (3 xs)
  then have "map (\<lambda>x. if x = JUndef then JNull else json_trip x) xs = xs" by (intro map_idI) auto
  then show ?case by simp
next
  case (4 ps)
  then have "filter (\<lambda>p. snd p \<noteq> JUndef) ps = ps" by (auto simp: filter_id_conv)
  moreover have "map (\<lambda>p. (fst p, json_trip (snd p))) ps = ps" using 4 by (intro map_idI) auto
  ultimately show ?case by simp
qed auto

text \<open>Entries as a load leaves them.\<close>

definition plain_entry :: "entry \<Rightarrow> bool" where
  "plain_entry e \<longleftrightarrow> (\<forall>p \<in> set e. plain_js (snd p))"

definition settled :: "string \<Rightarrow> entry \<Rightarrow> bool" where
  "settled i e \<longleftrightarrow> typed_entry i e \<and> fget e ''title'' \<noteq> JStr [] \<and> plain_entry e"

definition settled_entries :: "(string, entry) omap \<Rightarrow> bool" where
  "settled_entries es \<longleftrightarrow> om_ok es \<and> (\<forall>(i, e) \<in> set es. settled i e)"

lemma om_set_mem: "p \<in> set (om_set k v m) \<Longrightarrow> p = (k, v) \<or> p \<in> set m"
  by (induction m) (auto simp: om_set_def split: if_splits)

lemma settled_set: "settled_entries es \<Longrightarrow> settled i e \<Longrightarrow> settled_entries (om_set i e es)"
  by (fastforce simp: settled_entries_def dest: om_set_mem)

lemma fput_plain: "plain_entry e \<Longrightarrow> plain_js v \<Longrightarrow> plain_entry (fput k v e)"
  by (auto simp: plain_entry_def fput_def dest: om_set_mem)

lemma om_set_same: "om_get m k = Some v \<Longrightarrow> om_set k v m = m"
  by (induction m) (auto simp: om_get_def om_set_def split: if_splits)

lemma fput_same: "fget e k = v \<Longrightarrow> v \<noteq> JUndef \<Longrightarrow> fput k v e = e"
proof -
  have "fget e k = (case om_get e k of Some x \<Rightarrow> x | None \<Rightarrow> JUndef)" by (simp add: fget_def om_get_def)
  then show "fget e k = v \<Longrightarrow> v \<noteq> JUndef \<Longrightarrow> ?thesis" by (auto simp: fput_def intro: om_set_same split: option.splits)
qed

lemma normal_settled: "settled i e \<Longrightarrow> normal_entry cfg e = e"
proof -
  assume s: "settled i e"
  then obtain c u where e: "fget e ''sessionId'' = JStr i" "fget e ''createdAt'' = JNum c" "fget e ''updatedAt'' = JNum u"
    "fget e ''title'' \<noteq> JUndef" "fget e ''title'' \<noteq> JStr []"
    by (auto simp: settled_def typed_entry_def)
  then show ?thesis by (simp add: normal_entry_def Let_def finite_or_def fput_same)
qed

lemma normal_plain: "plain_entry fs \<Longrightarrow> plain_entry (normal_entry cfg fs)"
  by (simp add: normal_entry_def Let_def fput_plain)

lemma normal_title: "fget (normal_entry cfg fs) ''title'' \<noteq> JStr []"
  by (simp add: normal_entry_def Let_def)

definition clean_quarantine :: "index_cfg \<Rightarrow> index \<Rightarrow> bool" where
  "clean_quarantine cfg idx \<longleftrightarrow> (\<forall>raw \<in> set (quarantine idx). plain_js raw \<and> problem_of cfg (entries idx) raw \<noteq> None)"

definition grows :: "(string, entry) omap \<Rightarrow> (string, entry) omap \<Rightarrow> bool" where
  "grows es es' \<longleftrightarrow> (\<forall>i. om_has es i \<longrightarrow> om_has es' i)"

lemma problem_mono:
  assumes "problem_of cfg es raw \<noteq> None" "grows es es'"
  shows "problem_of cfg es' raw \<noteq> None"
proof
  assume "problem_of cfg es' raw = None"
  then obtain fs i where r: "raw = JObj fs" "id_of_raw cfg (fget fs ''sessionId'') = Some i" "safe_id i" "om_get es' i = None"
    "\<forall>k \<in> {''title'', ''runDir'', ''dataDir''}. nullish (fget fs k) \<or> str_of (fget fs k) \<noteq> None"
    using problem_NoneD by metis
  have "\<not> om_has es i" using assms(2) r(4) by (auto simp: grows_def om_has_def)
  moreover have "List.find (\<lambda>k. \<not> nullish (fget fs k) \<and> str_of (fget fs k) = None) [''title'', ''runDir'', ''dataDir''] = None"
    using r(5) by (simp add: find_None_iff)
  ultimately have "problem_of cfg es raw = None" using r(1-3) by (simp add: problem_of_def)
  then show False using assms(1) by simp
qed

lemma clean_grows: "clean_quarantine cfg idx \<Longrightarrow> grows (entries idx) (entries idx') \<Longrightarrow> quarantine idx' = quarantine idx \<Longrightarrow>
    clean_quarantine cfg idx'"
  unfolding clean_quarantine_def using problem_mono by metis

lemma grows_refl: "grows es es"
  by (simp add: grows_def)

lemma grows_set: "grows (om_set i e es) es' \<Longrightarrow> grows es es'"
  by (auto simp: grows_def om_has_def)

lemma grows_set_one: "grows es (om_set i e es)"
  by (simp add: grows_def om_has_def)

lemma grows_rebuild: "grows es (rebuild_from_logs cfg ls es)"
  by (induction cfg ls es rule: rebuild_from_logs.induct) (auto simp: grows_refl intro: grows_set)

lemma grows_import: "grows es (import_items cfg vs es)"
  by (induction cfg vs es rule: import_items.induct) (auto simp: grows_refl Let_def intro: grows_set)

lemma grows_map: "grows es (map (\<lambda>(i, e). (i, f e)) es)"
  by (simp add: grows_def om_has_def om_get_map)

lemma settled_rebuild: "settled_entries es \<Longrightarrow> settled_entries (rebuild_from_logs cfg ls es)"
proof (induction cfg ls es rule: rebuild_from_logs.induct)
  case (2 cfg i l ls es)
  have "settled i (rebuilt_entry cfg i l)" if "safe_id i"
    using typed_rebuilt [OF that, of cfg l]
    by (cases "engine_id i")
       (simp_all add: settled_def plain_entry_def rebuilt_entry_def Let_def split: js.split list.split)
  then show ?case using 2 settled_set by simp
qed simp

lemma settled_import: "settled_entries es \<Longrightarrow> settled_entries (import_items cfg vs es)"
proof (induction cfg vs es rule: import_items.induct)
  case (2 cfg v vs es)
  have "settled i (imported_entry cfg i m)" if "safe_id i" for i m
    using typed_imported [OF that, of cfg m]
    by (simp add: settled_def plain_entry_def imported_entry_def split: js.split list.split)
  then show ?case using 2 settled_set by (simp add: Let_def)
qed simp

lemma settled_archive: "settled i e \<Longrightarrow> settled i (archive_entry cfg d e)"
proof -
  assume s: "settled i e"
  have "plain_js (stats_of h)" for h by (simp add: stats_of_def split: js.split option.split)
  then have "plain_entry (archive_entry cfg d e)" using s
    by (simp add: settled_def archive_entry_def Let_def fput_plain split: option.split)
  then show ?thesis using s typed_archive by (simp add: settled_def fget_archive)
qed

lemma settled_archive_all: "settled_entries (entries idx) \<Longrightarrow> settled_entries (entries (archive_all cfg d idx))"
  by (auto simp: settled_entries_def archive_all_def settled_archive om_ok_def comp_def split_beta)

lemma archive_done: "\<not> needs_archive (archive_entry cfg d e)"
proof -
  have "entry_id (archive_entry cfg d e) = entry_id e" by (simp add: entry_id_def fget_archive)
  then show ?thesis
    by (auto simp: needs_archive_def archive_entry_def Let_def stats_of_def split: option.split)
qed

lemma archive_fixed: "\<not> needs_archive e \<Longrightarrow> archive_entry cfg d e = e"
  by (auto simp: needs_archive_def archive_entry_def Let_def)

lemma ingest_settled:
  assumes "settled_entries (entries idx)" "clean_quarantine cfg idx" "list_all plain_js raws"
  shows "settled_entries (entries (ingest cfg raws idx)) \<and> clean_quarantine cfg (ingest cfg raws idx)"
  using assms
proof (induction raws arbitrary: idx)
  case (Cons raw raws)
  have plain: "plain_js raw" "list_all plain_js raws" using Cons.prems(3) by simp_all
  show ?case
  proof (cases "problem_of cfg (entries idx) raw")
    case None
    let ?e = "normal_entry cfg (props raw)"
    let ?idx = "idx\<lparr>entries := om_set (entry_id ?e) ?e (entries idx)\<rparr>"
    obtain fs i where "raw = JObj fs" using problem_NoneD [OF None] by metis
    then have "plain_entry (props raw)" using plain(1) by (simp add: plain_entry_def props_def)
    then have "settled (entry_id ?e) ?e"
      using typed_normal(1) [OF None refl] normal_plain normal_title by (simp add: settled_def)
    then have "settled_entries (entries ?idx)" using settled_set [OF Cons.prems(1)] by simp
    moreover have "clean_quarantine cfg ?idx" using clean_grows [OF Cons.prems(2), of ?idx] grows_set_one by simp
    ultimately show ?thesis using Cons.IH [of ?idx] plain(2) None by (simp add: Let_def)
  next
    case (Some p)
    then have "clean_quarantine cfg (idx\<lparr>quarantine := quarantine idx @ [raw]\<rparr>)"
      using Cons.prems(2) plain(1) by (simp add: clean_quarantine_def)
    then show ?thesis using Cons.IH [of "idx\<lparr>quarantine := quarantine idx @ [raw]\<rparr>"] Cons.prems(1) plain(2) Some by simp
  qed
qed simp

text \<open>The file a load wrote is read back as it was.\<close>

lemma ingest_back_entries:
  assumes "om_ok (es0 @ es)" "\<forall>(i, e) \<in> set es. settled i e"
  shows "ingest cfg (map (\<lambda>(i, e). JObj e) es @ raws) \<lparr>entries = es0, quarantine = q, legacy_imported = li, damaged = da\<rparr> =
    ingest cfg raws \<lparr>entries = es0 @ es, quarantine = q, legacy_imported = li, damaged = da\<rparr>"
  using assms
proof (induction es arbitrary: es0)
  case (Cons ie es)
  obtain i e where ie: "ie = (i, e)" by (cases ie)
  then have s: "settled i e" and new: "om_get es0 i = None" using Cons.prems
    by (auto simp: om_ok_def om_get_def map_of_eq_None_iff)
  have t: "typed_entry i e" using s by (simp add: settled_def)
  then have id: "entry_id e = i" "id_of_raw cfg (fget e ''sessionId'') = Some i" "safe_id i"
    by (simp_all add: typed_entry_def entry_id_def id_of_raw_def)
  have "List.find (\<lambda>k. \<not> nullish (fget e k) \<and> str_of (fget e k) = None) [''title'', ''runDir'', ''dataDir''] = None"
    using t by (auto simp: typed_entry_def find_None_iff)
  then have "problem_of cfg es0 (JObj e) = None" using id new by (simp add: problem_of_def om_has_def)
  moreover have "om_set i e es0 = es0 @ [(i, e)]" using new
    by (induction es0) (auto simp: om_set_def om_get_def split: if_splits)
  ultimately show ?case using Cons.IH [of "es0 @ [(i, e)]"] Cons.prems ie normal_settled [OF s] id
    by (simp add: props_def Let_def)
qed simp

lemma ingest_back_quarantine:
  assumes "\<forall>raw \<in> set raws. problem_of cfg (entries idx) raw \<noteq> None"
  shows "ingest cfg raws idx = idx\<lparr>quarantine := quarantine idx @ raws\<rparr>"
  using assms by (induction raws arbitrary: idx) auto

text \<open>What a load returns.\<close>

definition loaded_ok :: "index_cfg \<Rightarrow> index \<Rightarrow> bool" where
  "loaded_ok cfg idx \<longleftrightarrow> settled_entries (entries idx) \<and> clean_quarantine cfg idx \<and> legacy_imported idx \<and>
     (\<forall>(i, e) \<in> set (entries idx). \<not> needs_archive e)"

definition plain_file :: "disk \<Rightarrow> bool" where
  "plain_file d \<longleftrightarrow> (case d_index d of Parsed v \<Rightarrow> plain_js v | _ \<Rightarrow> True)"

lemma plain_field: "plain_js (JObj fs) \<Longrightarrow> fget fs k = v \<Longrightarrow> v \<noteq> JUndef \<Longrightarrow> plain_js v"
  by (auto simp: fget_def split: option.splits dest!: map_of_SomeD)

lemma loaded_archive:
  "settled_entries (entries idx) \<Longrightarrow> clean_quarantine cfg idx \<Longrightarrow> legacy_imported idx \<Longrightarrow> loaded_ok cfg (archive_all cfg d idx)"
proof -
  assume s: "settled_entries (entries idx)" "clean_quarantine cfg idx" "legacy_imported idx"
  have "clean_quarantine cfg (archive_all cfg d idx)"
    by (rule clean_grows [OF s(2)]) (simp_all add: archive_all_def grows_map)
  moreover have "\<forall>(i, e) \<in> set (entries (archive_all cfg d idx)). \<not> needs_archive e"
    using archive_done by (auto simp: archive_all_def)
  ultimately show ?thesis using s settled_archive_all by (simp add: loaded_ok_def archive_all_def)
qed

lemma ingest_damaged: "damaged (ingest cfg raws idx) = damaged idx \<and> legacy_imported (ingest cfg raws idx) = legacy_imported idx"
proof (induction raws arbitrary: idx)
  case (Cons raw raws)
  then show ?case by (simp add: Let_def split: option.split)
qed simp

lemma read_ok:
  assumes "plain_file d"
  shows "settled_entries (entries (read_index cfg d))" "clean_quarantine cfg (read_index cfg d)"
    "damaged (read_index cfg d) = file_damaged d"
proof -
  let ?listed = "case file_sessions d of JArr xs \<Rightarrow> xs | _ \<Rightarrow> []"
  let ?i0 = "\<lparr>entries = [], quarantine = [], legacy_imported = file_imported d, damaged = file_damaged d\<rparr>"
  define i1 where "i1 = ingest cfg ?listed ?i0"
  define i2 where "i2 = i1\<lparr>entries := rebuild_from_logs cfg (d_logs d) (entries i1)\<rparr>"
  have read: "read_index cfg d = (if file_damaged d then i2 else i1)"
    by (simp only: read_index_def Let_def i1_def i2_def)
  have "list_all plain_js ?listed"
  proof (cases "raw_file d")
    case (Some fs)
    then have "plain_js (JObj fs)" using assms by (simp add: raw_file_def plain_file_def split: json_file.splits js.splits)
    then have "file_sessions d \<noteq> JUndef \<Longrightarrow> plain_js (file_sessions d)"
      using plain_field [of fs] Some by (simp add: file_sessions_def)
    then show ?thesis by (cases "file_sessions d") (simp_all add: list_all_iff)
  qed (simp add: file_sessions_def)
  then have i1: "settled_entries (entries i1) \<and> clean_quarantine cfg i1"
    unfolding i1_def by (intro ingest_settled) (simp_all add: settled_entries_def clean_quarantine_def)
  then have i2: "settled_entries (entries i2) \<and> clean_quarantine cfg i2"
    using settled_rebuild clean_grows [of cfg i1 i2] grows_rebuild by (simp add: i2_def)
  then show "settled_entries (entries (read_index cfg d))" "clean_quarantine cfg (read_index cfg d)"
    using i1 i2 by (simp_all add: read)
  show "damaged (read_index cfg d) = file_damaged d" using ingest_damaged by (simp add: read i1_def i2_def)
qed

lemma legacy_ok:
  assumes "settled_entries (entries idx)" "clean_quarantine cfg idx"
  shows "settled_entries (entries (with_legacy cfg d idx))" "clean_quarantine cfg (with_legacy cfg d idx)"
    "legacy_imported (with_legacy cfg d idx)" "damaged (with_legacy cfg d idx) = damaged idx"
proof -
  have "clean_quarantine cfg (import_legacy cfg d idx)"
    by (rule clean_grows [OF assms(2)]) (simp_all add: import_legacy_def grows_import)
  then show "settled_entries (entries (with_legacy cfg d idx))" "clean_quarantine cfg (with_legacy cfg d idx)"
    "legacy_imported (with_legacy cfg d idx)" "damaged (with_legacy cfg d idx) = damaged idx"
    using assms settled_import by (simp_all add: with_legacy_def import_legacy_def)
qed

lemma load_shape:
  assumes "plain_file d"
  shows "loaded_ok cfg (fst (load_index cfg d))"
    "(snd (load_index cfg d) = d \<and> \<not> damaged (fst (load_index cfg d))) \<or>
     (\<exists>b k. snd (load_index cfg d) = save_index (fst (load_index cfg d)) (d\<lparr>d_kept := k, d_backup := b\<rparr>))"
proof -
  note r = read_ok [OF assms, of cfg]
  note l = legacy_ok [OF r(1,2), of d]
  let ?i4 = "archive_all cfg d (with_legacy cfg d (read_index cfg d))"
  have fst_load: "fst (load_index cfg d) = ?i4" by (simp add: load_index_def Let_def)
  have dam: "damaged ?i4 = file_damaged d" using l(4) r(3) by (simp add: archive_all_def)
  show "loaded_ok cfg (fst (load_index cfg d))" using loaded_archive [OF l(1-3)] fst_load by simp
  show "(snd (load_index cfg d) = d \<and> \<not> damaged (fst (load_index cfg d))) \<or>
     (\<exists>b k. snd (load_index cfg d) = save_index (fst (load_index cfg d)) (d\<lparr>d_kept := k, d_backup := b\<rparr>))"
  proof (cases "file_version3 d \<and> \<not> file_damaged d \<and> legacy_imported (read_index cfg d) \<and>
      \<not> list_ex (\<lambda>(i, e). needs_archive e) (entries (with_legacy cfg d (read_index cfg d)))")
    case True
    then have "snd (load_index cfg d) = d" by (auto simp: load_index_def Let_def file_damaged_def)
    then show ?thesis using fst_load dam True by simp
  next
    case False
    define d1 where "d1 = (if d_index d \<noteq> Absent \<and> raw_file d = None then d\<lparr>d_kept := d_kept d @ [d_index d]\<rparr> else d)"
    define d2 where "d2 = (if raw_file d \<noteq> None \<and> \<not> file_version3 d \<and> d_backup d1 = None
            then d1\<lparr>d_backup := map_option JObj (raw_file d)\<rparr> else d1)"
    have "snd (load_index cfg d) = save_index ?i4 d2"
      unfolding load_index_def Let_def d1_def [symmetric] d2_def [symmetric] if_not_P [OF False] by simp
    moreover have "d2 = d\<lparr>d_kept := d_kept d2, d_backup := d_backup d2\<rparr>" by (simp add: d2_def d1_def)
    ultimately show ?thesis using fst_load by metis
  qed
qed

text \<open>Claim C21. Loading is idempotent: after a load, whatever damage, import and migration it did, a second load finds the
  same conversations and the same malformed entries, and has nothing to write. The numbers of the index file are ones
  that JSON can write (\<open>plain_file\<close>).\<close>

theorem load_is_idempotent:
  assumes "plain_file d"
  shows "load_index cfg (snd (load_index cfg d)) = ((fst (load_index cfg d))\<lparr>damaged := False\<rparr>, snd (load_index cfg d))"
proof -
  obtain idx d' where l: "load_index cfg d = (idx, d')" by fastforce
  have ok: "loaded_ok cfg idx" using load_shape(1) [OF assms, of cfg] l by simp
  note f = ok [unfolded loaded_ok_def]
  show ?thesis
  proof (cases "d' = d \<and> \<not> damaged idx")
    case True
    then show ?thesis using l by (cases idx) simp
  next
    case False
    then obtain b k where d': "d' = save_index idx (d\<lparr>d_kept := k, d_backup := b\<rparr>)"
      using load_shape(2) [OF assms, of cfg] l by auto
    let ?file = "[(''version'', JNum INDEX_VERSION), (''legacyImported'', JBool (legacy_imported idx)),
      (''sessions'', JArr (map (\<lambda>(i, e). JObj e) (entries idx) @ quarantine idx))]"
    have "plain_js (JObj ?file)" using f
      by (auto simp: settled_entries_def settled_def plain_entry_def clean_quarantine_def split_beta)
    then have raw: "raw_file d' = Some ?file" using d' plain_trip by (simp only: save_index_def raw_file_def) simp
    have s: "file_sessions d' = JArr (map (\<lambda>(i, e). JObj e) (entries idx) @ quarantine idx)"
      "file_imported d'" "file_version3 d'" using raw f
      by (simp_all add: file_sessions_def file_imported_def file_version3_def)
    have nd: "\<not> file_damaged d'" using raw s by (auto simp: file_damaged_def d' save_index_def)
    have "read_index cfg d' = idx\<lparr>damaged := False\<rparr>"
    proof -
      have "om_ok ([] @ entries idx)" "\<forall>(i, e) \<in> set (entries idx). settled i e"
        using f by (auto simp: settled_entries_def)
      from ingest_back_entries [OF this, of cfg "quarantine idx" "[]" True False]
      have "ingest cfg (map (\<lambda>(i, e). JObj e) (entries idx) @ quarantine idx)
          \<lparr>entries = [], quarantine = [], legacy_imported = True, damaged = False\<rparr> = idx\<lparr>damaged := False\<rparr>"
        using f by (subst (asm) ingest_back_quarantine) (auto simp: clean_quarantine_def)
      then show ?thesis using s nd by (simp add: read_index_def Let_def)
    qed
    then have i3: "with_legacy cfg d' (read_index cfg d') = idx\<lparr>damaged := False\<rparr>" using f by (simp add: with_legacy_def)
    have none: "\<not> list_ex (\<lambda>(i, e). needs_archive e) (entries idx)" using f by (auto simp: list_ex_iff)
    have "archive_all cfg d' (idx\<lparr>damaged := False\<rparr>) = idx\<lparr>damaged := False\<rparr>"
    proof -
      have "map (\<lambda>(i, e). (i, archive_entry cfg d' e)) (entries idx) = entries idx"
        using f archive_fixed by (intro map_idI) auto
      then show ?thesis by (simp add: archive_all_def)
    qed
    then have "load_index cfg d' = (idx\<lparr>damaged := False\<rparr>, d')"
      using s nd i3 none f \<open>read_index cfg d' = _\<close> raw by (simp add: load_index_def Let_def)
    then show ?thesis using l by simp
  qed
qed

subsection \<open>Examples\<close>

definition sample_index_cfg :: index_cfg where
  "sample_index_cfg = \<lparr>runs_subdir = ''runs'', cline_data_dir = ''/d'', conversations_dir = ''/c'', workspace_dir = ''/w'',
     num_text = (\<lambda>n. ''1''), iso_text = (\<lambda>n. ''then'')\<rparr>"

definition sample_entry :: "string \<Rightarrow> string \<Rightarrow> js" where
  "sample_entry i t = JObj [(''sessionId'', JStr i), (''engine'', JStr ''opencode''), (''runDir'', JNull), (''title'', JStr t),
     (''createdAt'', JNum 1), (''updatedAt'', JNum 2)]"

definition sample_disk :: disk where
  "sample_disk = \<lparr>d_index = Parsed (JObj [(''version'', JNum 3), (''legacyImported'', JBool True),
       (''sessions'', JArr [sample_entry ''ses_a'' ''one'', sample_entry ''ses_a'' ''two''])]),
     d_backup = None, d_kept = [], d_logs = [(''ses_b'', \<lparr>ld_meta = Absent, ld_events = True, ld_rotated = False\<rparr>)],
     d_aside = [], d_runs = [(''ses_b'', 1), (''ses_c'', 0)], d_data = [], d_history = (\<lambda>p. Absent)\<rparr>"

theorem load_is_idempotent_witness:
  "load_index sample_index_cfg (snd (load_index sample_index_cfg sample_disk)) =
     ((fst (load_index sample_index_cfg sample_disk))\<lparr>damaged := False\<rparr>, snd (load_index sample_index_cfg sample_disk))"
  by (rule load_is_idempotent) code_simp

theorem boot_keeps_outputs_witness:
  "(''ses_b'', 1) \<in> set (d_runs (fst (snd (boot_index sample_index_cfg ''/'' sample_disk)))) \<and>
   ((''ses_b'', \<lparr>ld_meta = Absent, ld_events = True, ld_rotated = False\<rparr>) \<in>
      set (d_logs (fst (snd (boot_index sample_index_cfg ''/'' sample_disk))) @ d_aside (fst (snd (boot_index sample_index_cfg ''/'' sample_disk)))) \<or>
    (\<exists>e. om_get (entries (fst (load_index sample_index_cfg sample_disk))) ''ses_b'' = Some e \<and> unprompted e))"
proof (rule boot_keeps_outputs)
  show "boot_index sample_index_cfg ''/'' sample_disk = (fst (boot_index sample_index_cfg ''/'' sample_disk),
      fst (snd (boot_index sample_index_cfg ''/'' sample_disk)), snd (snd (boot_index sample_index_cfg ''/'' sample_disk)))"
    by simp
qed (simp_all add: sample_disk_def)

text \<open>Two entries with one id in the file: the second is kept aside and its conversation is known. Removing the first
  saves the second back into the file, and the next load lists it: the deleted conversation is there again.\<close>

lemma removed_conversation_returns:
  "let (idx, d) = run_index sample_index_cfg ''/'' sample_disk [OpRemove ''ses_a''];
       (idx', d') = load_index sample_index_cfg d
   in \<not> has_entry idx ''ses_a'' \<and> has_entry idx' ''ses_a''"
  by code_simp

text \<open>After a rotation and before the next event is written, a transcript is only in \<open>events.1.ndjson\<close>. If the index
  does not know the conversation then, the boot removes the transcript instead of setting it aside.\<close>

definition rotated_disk :: disk where
  "rotated_disk = sample_disk\<lparr>d_logs := [(''ses_b'', \<lparr>ld_meta = Absent, ld_events = False, ld_rotated = True\<rparr>)]\<rparr>"

lemma rotated_orphan_removed:
  "let d = fst (snd (boot_index sample_index_cfg ''/'' rotated_disk)) in d_logs d = [] \<and> d_aside d = []"
  by code_simp

end
