(* ===== verification/Result_Protocol.thy ===== *)
theory Result_Protocol
  imports Js_Value Ordered_Map
begin

text \<open>
  What a specialist hands back to the orchestrator (opencode/config/lib/result-protocol.js) and the usage denials it may
  carry (opencode/config/lib/managed-usage.js): unwrapping, finding and validating the result, the normalised result,
  truncation, and what the hook after a specialist's call makes of it. \<open>JSON.parse\<close>, \<open>JSON.stringify\<close> and number printing are the
  language's, in \<open>json_api\<close>.
\<close>

record json_api =
  parse_json :: "string \<Rightarrow> js option"
  stringify :: "js \<Rightarrow> string option"
  pretty_json :: "js \<Rightarrow> string"
  number_text :: "rat \<Rightarrow> string"
  text_number :: "string \<Rightarrow> rat option"

definition shown :: "json_api \<Rightarrow> js \<Rightarrow> string" where
  "shown J v = (case stringify J v of Some s \<Rightarrow> s | None \<Rightarrow> ''undefined'')"

definition put_field :: "string \<Rightarrow> js \<Rightarrow> js \<Rightarrow> js" where
  "put_field k v obj = (case obj of JObj fs \<Rightarrow> JObj (om_set k v fs) | _ \<Rightarrow> obj)"

definition has_field :: "js \<Rightarrow> string \<Rightarrow> bool" where
  "has_field obj k = (case obj of JObj fs \<Rightarrow> om_has fs k | _ \<Rightarrow> False)"

subsection \<open>Usage denials\<close>

record denial =
  dn_code :: string
  dn_message :: string
  dn_recovery :: string

definition reasons :: "(string \<times> string \<times> string) list" where
  "reasons = [(''usage_limit_reached'', ''Your model allowance is used for this period.'',
       ''Restore your allowance or upgrade, then make an explicit new submission.''),
     (''model_not_allowed'', ''This model is not available for your account.'',
       ''Choose an eligible model or restore its entitlement, then make an explicit new submission.''),
     (''account_inactive'', ''This account is inactive. New model requests are paused.'',
       ''Restore account access before making an explicit new submission.''),
     (''request_already_admitted'', ''This model request has already been admitted.'',
       ''Inspect the retained result and request status before making an explicit new submission.''),
     (''usage_unavailable'', ''Usage could not be checked. New model requests are paused.'',
       ''Retry account status after the usage service recovers, then make an explicit new submission.'')]"

definition denial_for :: "string \<Rightarrow> denial option" where
  "denial_for code = map_option (\<lambda>(m, r). \<lparr>dn_code = code, dn_message = m, dn_recovery = r\<rparr>) (map_of reasons code)"

definition denial_js :: "denial \<Rightarrow> js" where
  "denial_js d = JObj [(''code'', JStr (dn_code d)), (''message'', JStr (dn_message d)), (''retryable'', JBool False),
     (''recovery'', JStr (dn_recovery d))]"

definition is_code_char :: "char \<Rightarrow> bool" where
  "is_code_char c \<longleftrightarrow> is_lower c \<or> c = CHR ''_''"

text \<open>The first \<open>[geocluster:code]\<close>.\<close>

fun marker :: "string \<Rightarrow> string option" where
  "marker [] = None"
| "marker (c # cs) =
    (if prefix ''[geocluster:'' (c # cs)
     then (let r = drop 11 cs; code = takeWhile is_code_char r in
       if code \<noteq> [] \<and> prefix '']'' (dropWhile is_code_char r) then Some code else marker cs)
     else marker cs)"

text \<open>From the first \<open>{\<close> to the last \<open>}\<close>.\<close>

definition braced :: "string \<Rightarrow> string option" where
  "braced s = (let t = rev (dropWhile (\<lambda>c. c \<noteq> CHR ''}'') (rev (dropWhile (\<lambda>c. c \<noteq> CHR ''{'') s))) in
     if length t < 2 then None else Some t)"

definition denial_keys :: "string list" where
  "denial_keys = [''code'', ''type'', ''errorName'', ''usageDenial'', ''error'', ''data'', ''cause'', ''reason'',
     ''responseBody'', ''body'', ''message'']"

text \<open>\<open>visit\<close>, with the levels left: nine, one for each depth up to 8.\<close>

fun visit :: "json_api \<Rightarrow> nat \<Rightarrow> js \<Rightarrow> denial option" where
  "visit J 0 v = None"
| "visit J (Suc k) v =
    (case v of
       JStr s \<Rightarrow>
        (case denial_for (js_lower s) of
           Some d \<Rightarrow> Some d
         | None \<Rightarrow>
            (case marker s of
               Some code \<Rightarrow> denial_for code
             | None \<Rightarrow> (case braced s of
                 None \<Rightarrow> None
               | Some t \<Rightarrow> (case parse_json J t of None \<Rightarrow> None | Some w \<Rightarrow> visit J k w))))
     | JObj fs \<Rightarrow> (case List.find (\<lambda>d. d \<noteq> None) (map (\<lambda>key. visit J k (js_field (JObj fs) key)) denial_keys) of
         Some d \<Rightarrow> d | None \<Rightarrow> None)
     | _ \<Rightarrow> None)"

definition managed_denial :: "json_api \<Rightarrow> js \<Rightarrow> denial option" where
  "managed_denial J v = visit J 9 v"

subsection \<open>The wrapper\<close>

text \<open>\<open>unwrap\<close>: the text is one \<open><subagent ...>...</subagent>\<close>, blanks around it. An attribute is a word, an equals sign
  and a quoted value; of two with one name the later counts.\<close>

definition is_word :: "char \<Rightarrow> bool" where
  "is_word c \<longleftrightarrow> is_alnum c \<or> c = CHR ''_''"

definition attr_at :: "string \<Rightarrow> ((string \<times> string) \<times> string) option" where
  "attr_at s =
    (let k = takeWhile is_word s; r = drop (length k) s in
     if k = [] \<or> \<not> prefix [CHR ''='', CHR 0x22] r then None
     else map_option (\<lambda>(v, rest). ((k, v), rest)) (cut_at (CHR 0x22) (drop 2 r)))"

fun attrs_go :: "nat \<Rightarrow> string \<Rightarrow> (string \<times> string) list" where
  "attrs_go 0 s = []"
| "attrs_go (Suc n) [] = []"
| "attrs_go (Suc n) (c # cs) =
    (case attr_at (c # cs) of Some (kv, rest) \<Rightarrow> kv # attrs_go n rest | None \<Rightarrow> attrs_go n cs)"

definition attrs_of :: "string \<Rightarrow> (string, string) omap" where
  "attrs_of s = fold (\<lambda>(k, v) m. om_set k v m) (attrs_go (length s) s) []"

text \<open>\<open>\r?\n?\<close> at the start and at the end of the text between the tags.\<close>

definition skip_char :: "char \<Rightarrow> string \<Rightarrow> string" where
  "skip_char c s = (if s \<noteq> [] \<and> hd s = c then tl s else s)"

definition inner_text :: "string \<Rightarrow> string" where
  "inner_text s = rev (skip_char (CHR 13) (skip_char (CHR 10) (rev (skip_char (CHR 10) (skip_char (CHR 13) s)))))"

definition open_tag :: string where "open_tag = ''<subagent''"
definition close_tag :: string where "close_tag = ''</subagent>''"

definition unwrap :: "string \<Rightarrow> ((string, string) omap \<times> string) option" where
  "unwrap text =
    (let t = dropWhile is_space text; r = drop 9 t in
     if \<not> prefix open_tag t \<or> (r \<noteq> [] \<and> is_word (hd r)) then None
     else (case cut_at (CHR ''>'') r of
         None \<Rightarrow> None
       | Some (a, b) \<Rightarrow>
          (let e = rev (dropWhile is_space (rev b)) in
           if suffix close_tag e then Some (attrs_of a, inner_text (take (length e - 11) e)) else None)))"

text \<open>\<open>readText\<close> and \<open>withText\<close>: the text of a result's content, and the content with another text.\<close>

definition is_text_part :: "js \<Rightarrow> bool" where
  "is_text_part p \<longleftrightarrow> js_field p ''type'' = JStr ''text''"

definition read_text :: "json_api \<Rightarrow> js \<Rightarrow> string option" where
  "read_text J content =
    (case content of
       JStr s \<Rightarrow> Some s
     | JArr ps \<Rightarrow> Some (concat (map (\<lambda>p. let v = js_field p ''text'' in if nullish v then [] else js_text (number_text J) v)
         (filter is_text_part ps)))
     | _ \<Rightarrow> None)"

definition with_text :: "js \<Rightarrow> string \<Rightarrow> js" where
  "with_text content text =
    (case content of
       JArr ps \<Rightarrow> JArr (JObj [(''type'', JStr ''text''), (''text'', JStr text)] # filter (\<lambda>p. \<not> is_text_part p) ps)
     | _ \<Rightarrow> JStr text)"

subsection \<open>Finding the result\<close>

definition SPECIALISTS :: "string list" where
  "SPECIALISTS = [''dataops'', ''transform'', ''analytics'', ''geoviz'', ''voxel'', ''extended'']"

definition STATUSES :: "string list" where "STATUSES = [''success'', ''partial'', ''error'']"
definition MANAGERS :: "string list" where "MANAGERS = [''pip'', ''apt'', ''conda'']"
definition MAX_RESULTS_CHARS :: nat where "MAX_RESULTS_CHARS = 8000"
definition RAW_TAIL_CHARS :: nat where "RAW_TAIL_CHARS = 2000"

text \<open>\<open>objectSpans\<close>: \<open>acc\<close> is the open span, the last character first.\<close>

fun spans_go :: "string \<Rightarrow> nat \<Rightarrow> bool \<Rightarrow> string \<Rightarrow> string list" where
  "spans_go [] depth quoted acc = []"
| "spans_go (c # cs) depth quoted acc =
    (if quoted then
       (if c = CHR 0x5C then (case cs of [] \<Rightarrow> [] | d # ds \<Rightarrow> spans_go ds depth True (d # c # acc))
        else spans_go cs depth (c \<noteq> CHR 0x22) (c # acc))
     else if c = CHR 0x22 \<and> 0 < depth then spans_go cs depth True (c # acc)
     else if c = CHR ''{'' then spans_go cs (depth + 1) False (if depth = 0 then [c] else c # acc)
     else if c = CHR ''}'' \<and> 0 < depth then
       (if depth = 1 then rev (c # acc) # spans_go cs 0 False [] else spans_go cs (depth - 1) False (c # acc))
     else spans_go cs depth False (c # acc))"

definition object_spans :: "string \<Rightarrow> string list" where
  "object_spans text = spans_go text 0 False []"

text \<open>Fenced blocks: three backquotes, an optional \<open>json\<close>, blanks with a line end, the content, three backquotes.\<close>

definition fence :: string where "fence = replicate 3 (CHR 0x60)"

definition after_last_newline :: "string \<Rightarrow> string" where
  "after_last_newline ws = rev (takeWhile (\<lambda>c. c \<noteq> CHR ''\<newline>'') (rev ws))"

definition fence_open :: "string \<Rightarrow> string option" where
  "fence_open s =
    (let r = drop 3 s; t = (if prefix ''json'' r \<or> prefix ''JSON'' r then drop 4 r else r); ws = takeWhile is_space t in
     if prefix fence s \<and> CHR ''\<newline>'' \<in> set ws then Some (after_last_newline ws @ dropWhile is_space t) else None)"

fun fenced :: "nat \<Rightarrow> string \<Rightarrow> string list" where
  "fenced 0 s = []"
| "fenced (Suc k) [] = []"
| "fenced (Suc k) (c # cs) =
    (case fence_open (c # cs) of
       None \<Rightarrow> fenced k cs
     | Some body \<Rightarrow> (case cut_sub fence body of None \<Rightarrow> fenced k cs | Some (a, b) \<Rightarrow> a # fenced k b))"

definition is_plain_obj :: "js \<Rightarrow> bool" where
  "is_plain_obj v \<longleftrightarrow> (case v of JObj _ \<Rightarrow> True | _ \<Rightarrow> False)"

definition str_in :: "js \<Rightarrow> string list \<Rightarrow> bool" where
  "str_in v xs = (case v of JStr s \<Rightarrow> s \<in> set xs | _ \<Rightarrow> False)"

definition validate :: "json_api \<Rightarrow> js \<Rightarrow> string list" where
  "validate J v =
    (if \<not> is_plain_obj v then [''not a JSON object'']
     else if js_field v ''type'' = JStr ''capability_gap'' then
       (let req = js_field v ''permission_request'' in
        if \<not> is_objlike req then [''capability_gap without a \"permission_request\" object'']
        else (case js_field req ''package'' of JStr s \<Rightarrow> if js_trim s = [] then [''permission_request.package is missing''] else []
                | _ \<Rightarrow> [''permission_request.package is missing'']) @
             (if str_in (js_field req ''manager'') MANAGERS then []
              else [''permission_request.manager must be one of '' @ js_join '', '' MANAGERS]))
     else if js_field v ''type'' \<noteq> JStr ''completion'' then
       [''\"type\" must be \"completion\" or \"capability_gap\" (got '' @ shown J (js_field v ''type'') @ '')'']
     else (if str_in (js_field v ''status'') STATUSES then []
           else [''\"status\" must be one of '' @ js_join '', '' STATUSES @ '' (got '' @ shown J (js_field v ''status'') @ '')'']) @
          (if is_plain_obj (js_field v ''results'') then [] else [''\"results\" must be an object'']))"

definition candidates :: "string \<Rightarrow> string list" where
  "candidates body = rev (fenced (length body) body @ [body] @ object_spans body)"

fun try_candidates :: "json_api \<Rightarrow> string list option \<Rightarrow> string list \<Rightarrow> string list + js" where
  "try_candidates J best [] = Inl (case best of Some ps \<Rightarrow> ps | None \<Rightarrow> [''no JSON object found''])"
| "try_candidates J best (t # ts) =
    (case parse_json J (js_trim t) of
       None \<Rightarrow> try_candidates J best ts
     | Some v \<Rightarrow> (let problems = validate J v in
         if problems = [] then Inr v
         else try_candidates J (if best = None \<and> is_plain_obj v then Some problems else best) ts))"

definition extract_result :: "json_api \<Rightarrow> string \<Rightarrow> string list + js" where
  "extract_result J body = try_candidates J None (candidates body)"

subsection \<open>The normalised result\<close>

definition tail_text :: "string \<Rightarrow> string" where
  "tail_text t = (if length t > RAW_TAIL_CHARS then ''... '' @ take_last RAW_TAIL_CHARS t else t)"

definition error_result :: "string \<Rightarrow> string \<Rightarrow> string \<Rightarrow> js" where
  "error_result task message body = JObj [(''task_id'', JStr task), (''type'', JStr ''completion''), (''status'', JStr ''error''),
     (''results'', JObj [(''raw_output'', JStr (tail_text (js_trim body)))]), (''errors'', JArr [JStr message])]"

definition error_list :: "json_api \<Rightarrow> js \<Rightarrow> string list option" where
  "error_list J errors =
    (if nullish errors \<or> errors = JStr [] then None
     else (let xs = map (\<lambda>x. case x of JStr s \<Rightarrow> s | _ \<Rightarrow> (case stringify J x of Some t \<Rightarrow> t | None \<Rightarrow> js_text (number_text J) x))
             (case errors of JArr ys \<Rightarrow> ys | y \<Rightarrow> [y])
           in if xs = [] then None else Some xs))"

definition task_of :: "string \<Rightarrow> string option \<Rightarrow> string" where
  "task_of specialist session = (case session of Some (c # s) \<Rightarrow> c # s | _ \<Rightarrow> specialist @ ''_unknown'')"

definition normalize_result :: "json_api \<Rightarrow> string \<Rightarrow> string option \<Rightarrow> string option \<Rightarrow> string \<Rightarrow> js" where
  "normalize_result J specialist session state body =
    (let task = task_of specialist session in
     case managed_denial J (JStr body) of
       Some d \<Rightarrow> put_field ''usageDenial'' (denial_js d) (error_result task (''Specialist \"'' @ specialist @ ''\" (subagent) paused: '' @
          dn_message d @ '' Preserve completed results; do not retry or redispatch automatically. Next step: '' @ dn_recovery d) [])
     | None \<Rightarrow>
        (if state \<noteq> None \<and> state \<noteq> Some [] \<and> state \<noteq> Some ''completed''
         then error_result task (''Specialist \"'' @ specialist @ ''\" (subagent) ended in state \"'' @ the state @
           ''\" without a result. Next step: dispatch it again with a smaller objective, or tell the user this step failed.'') body
         else (case extract_result J body of
            Inl problems \<Rightarrow> error_result task (''Specialist \"'' @ specialist @
              ''\" (subagent) returned no valid SpecialistResult JSON ('' @ js_join ''; '' problems @
              ''). Its output is in results.raw_output; do not treat it as verified. Next step: continue this specialist (task_id '' @
              task @ '') and ask for the result as the JSON object its instructions define, or dispatch it again.'') body
          | Inr r \<Rightarrow> put_field ''task_id'' (JStr task)
              (if has_field r ''errors''
               then put_field ''errors'' (JArr (map JStr (case error_list J (js_field r ''errors'') of Some es \<Rightarrow> es | None \<Rightarrow> []))) r
               else r))))"

text \<open>\<open>Object.entries\<close>.\<close>

definition js_entries :: "js \<Rightarrow> (string \<times> js) list" where
  "js_entries v = (case v of JObj fs \<Rightarrow> fs | JArr xs \<Rightarrow> map (\<lambda>i. (dec_nat i, xs ! i)) [0 ..< length xs]
     | JStr s \<Rightarrow> map (\<lambda>i. (dec_nat i, JStr [s ! i])) [0 ..< length s] | _ \<Rightarrow> [])"

text \<open>\<open>truncate\<close>; \<open>file\<close> is where \<open>save\<close> puts the full result.\<close>

definition truncated_value :: "json_api \<Rightarrow> js \<Rightarrow> js" where
  "truncated_value J v = (let text = (case stringify J v of Some t \<Rightarrow> t | None \<Rightarrow> []) in
     if length text \<le> 500 then v else JStr (''(truncated - '' @ dec_nat (length text) @ '' chars)''))"

definition truncate_result :: "json_api \<Rightarrow> string \<Rightarrow> js \<Rightarrow> js" where
  "truncate_result J file r =
    (let full = shown J (js_or_null (js_field r ''results'') (JObj [])) in
     if length full \<le> MAX_RESULTS_CHARS then r
     else put_field ''results'' (JObj (fold (\<lambda>(k, v) acc. om_set k (truncated_value J v) acc) (js_entries (js_field r ''results''))
       [(''_truncation_notice'', JStr (''Full result ('' @ dec_nat (length full) @ '' chars) saved to: '' @ file))])) r)"

subsection \<open>After a specialist's call\<close>

text \<open>\<open>execute.after\<close> for the subagent tool and one of the specialists: what becomes of the result's content, and what is
  settled in the ledger (status, task id, errors). \<open>saved\<close> is the file an oversized result was written to, \<open>None\<close> when
  that failed. \<open>Object.entries\<close> lists the names that are array indices first.\<close>

definition is_index :: "string \<Rightarrow> bool" where
  "is_index k \<longleftrightarrow> k \<noteq> [] \<and> list_all is_digit k \<and> dec_nat (parse_dec k) = k \<and> parse_dec k < 2 ^ 32 - 1"

definition own_order :: "(string, 'a) omap \<Rightarrow> (string, 'a) omap" where
  "own_order m = sort_key (\<lambda>(k, v). parse_dec k) (filter (\<lambda>(k, v). is_index k) m) @ filter (\<lambda>(k, v). \<not> is_index k) m"

definition attrs_text :: "(string, string) omap \<Rightarrow> string" where
  "attrs_text m = concat (map (\<lambda>(k, v). '' '' @ k @ [CHR ''='', CHR 0x22] @ v @ [CHR 0x22]) m)"

definition wrap :: "(string, string) omap \<Rightarrow> string \<Rightarrow> string" where
  "wrap attrs text = open_tag @ attrs_text (own_order attrs) @ [CHR ''>'', CHR 10] @ text @ [CHR 10] @ close_tag"

record tool_end =
  te_tool :: string
  te_agent :: string
  te_id :: string
  te_completed :: bool
  te_error :: string
  te_content :: js

text \<open>The wrapped text a completed call came back with.\<close>

definition wrapped_text :: "json_api \<Rightarrow> tool_end \<Rightarrow> ((string, string) omap \<times> string) option" where
  "wrapped_text J e =
    (if te_completed e then (case read_text J (te_content e) of Some t \<Rightarrow> unwrap t | None \<Rightarrow> None) else None)"

type_synonym settlement = "string \<times> string option \<times> js"

definition result_settlement :: "json_api \<Rightarrow> js \<Rightarrow> settlement" where
  "result_settlement J r =
    ((if js_field r ''type'' = JStr ''capability_gap'' then ''capability_gap'' else js_text (number_text J) (js_field r ''status'')),
     str_of (js_field r ''task_id''),
     (case error_list J (js_field r ''errors'') of None \<Rightarrow> JUndef | Some es \<Rightarrow> JArr (map JStr es)))"

definition handed_back :: "json_api \<Rightarrow> string option \<Rightarrow> string \<Rightarrow> (string, string) omap \<Rightarrow> string \<Rightarrow> js" where
  "handed_back J saved specialist attrs body =
    (let r = normalize_result J specialist (om_get attrs ''sessionID'') (om_get attrs ''state'') body in
     case saved of Some file \<Rightarrow> truncate_result J file r | None \<Rightarrow> r)"

definition after_specialist :: "json_api \<Rightarrow> string option \<Rightarrow> tool_end \<Rightarrow> js \<times> settlement option" where
  "after_specialist J saved e =
    (if te_tool e \<noteq> ''subagent'' \<or> te_agent e \<notin> set SPECIALISTS then (te_content e, None)
     else if \<not> te_completed e then (te_content e, Some (''error'', None, JArr [JStr (te_error e)]))
     else (case wrapped_text J e of
         None \<Rightarrow> (te_content e, Some (''unknown'', None, JUndef))
       | Some (attrs, body) \<Rightarrow>
          (let r = handed_back J saved (te_agent e) attrs body in
           (with_text (te_content e) (wrap attrs (pretty_json J r)), Some (result_settlement J r)))))"

end
