(* ===== verification/Result_Props.thy ===== *)
theory Result_Props
  imports Result_Protocol
begin

text \<open>
  What the orchestrator can rely on (opencode/config/lib/result-protocol.js): a specialist's call that the engine
  completed hands back a valid result, and a success is one that the specialist itself wrote.
\<close>

subsection \<open>Candidates are pieces of the text\<close>

lemma spans_sublist: "x \<in> set (spans_go cs d q acc) \<Longrightarrow> sublist x (rev acc @ cs)"
proof (induction cs d q acc rule: spans_go.induct)
  case (2 c cs depth quoted acc)
  have one: "sublist x (c # cs) \<Longrightarrow> sublist x (rev acc @ c # cs)"
    by (rule sublist_order.order.trans [OF _ sublist_append_leftI])
  have none: "sublist x (rev acc @ c # cs)" if "sublist x cs"
    by (rule one) (simp add: sublist_Cons_right that)
  consider (q) "quoted" | (str) "\<not> quoted" "c = CHR 0x22" "0 < depth" | (op) "\<not> quoted" "\<not> (c = CHR 0x22 \<and> 0 < depth)" "c = CHR ''{''"
    | (cl) "\<not> quoted" "c = CHR ''}''" "0 < depth" | (oth) "\<not> quoted" "\<not> (c = CHR 0x22 \<and> 0 < depth)" "c \<noteq> CHR ''{''" "\<not> (c = CHR ''}'' \<and> 0 < depth)"
    by blast
  then show ?case
  proof cases
    case q
    then show ?thesis using 2 by (auto split: list.splits if_splits)
  next
    case str
    then show ?thesis using 2 by simp
  next
    case op
    then show ?thesis using 2 one by (auto split: if_splits)
  next
    case cl
    then show ?thesis using 2 none by (auto split: if_splits intro: prefix_imp_sublist simp: prefix_def)
  next
    case oth
    then show ?thesis using 2 by (auto split: if_splits)
  qed
qed simp

lemma fence_open_suffix: "fence_open s = Some body \<Longrightarrow> suffix body s"
proof -
  assume a: "fence_open s = Some body"
  define t where "t = (if prefix ''json'' (drop 3 s) \<or> prefix ''JSON'' (drop 3 s) then drop 4 (drop 3 s) else drop 3 s)"
  have body: "body = after_last_newline (takeWhile is_space t) @ dropWhile is_space t"
    using a unfolding fence_open_def Let_def t_def [symmetric] by (auto split: if_splits)
  have al: "suffix (after_last_newline ws) ws" for ws
    by (metis after_last_newline_def prefix_def rev_append rev_rev_ident suffix_def takeWhile_dropWhile_id)
  obtain u where "takeWhile is_space t = u @ after_last_newline (takeWhile is_space t)" using al by (auto simp: suffix_def)
  then have "t = u @ body" using body takeWhile_dropWhile_id [of is_space t] by (metis append_assoc)
  then have "suffix body t" by (simp add: suffix_def)
  moreover have "suffix t s" by (simp add: t_def suffix_drop)
  ultimately show ?thesis by (rule suffix_order.trans)
qed

lemma fenced_sublist: "x \<in> set (fenced k s) \<Longrightarrow> sublist x s"
proof (induction k s rule: fenced.induct)
  case (3 k c cs)
  show ?case
  proof (cases "fence_open (c # cs)")
    case None
    then show ?thesis using 3 by (simp add: sublist_Cons_right)
  next
    case (Some body)
    note suf = fence_open_suffix [OF Some]
    show ?thesis
    proof (cases "cut_sub fence body")
      case None
      then show ?thesis using 3 Some by (simp add: sublist_Cons_right)
    next
      case ab: (Some ab)
      obtain a b where ab: "cut_sub fence body = Some (a, b)" using ab by (cases ab) auto
      then have b: "body = a @ fence @ b" by (rule cut_sub_Some)
      have "x = a \<or> sublist x b" using 3 Some ab by auto
      then have "sublist x body" unfolding b by (auto simp: sublist_append intro: sublist_order.order.trans)
      then show ?thesis using suf by (meson sublist_order.order.trans suffix_imp_sublist)
    qed
  qed
qed simp_all

lemma candidates_sublist: "t \<in> set (candidates body) \<Longrightarrow> sublist t body"
  using fenced_sublist spans_sublist [of t body 0 False "[]"] by (auto simp: candidates_def object_spans_def)

lemma trim_sublist: "sublist (js_trim t) t"
proof -
  have "suffix (dropWhile is_space t) t" by (rule suffix_dropWhile)
  moreover have "prefix (js_trim t) (dropWhile is_space t)"
    unfolding js_trim_def by (metis rev_rev_ident suffix_dropWhile suffix_to_prefix)
  ultimately show ?thesis by (meson prefix_imp_sublist sublist_order.order.trans suffix_imp_sublist)
qed

lemma try_candidates_Inr:
  "try_candidates J best ts = Inr v \<Longrightarrow> \<exists>t \<in> set ts. parse_json J (js_trim t) = Some v \<and> validate J v = []"
  by (induction J best ts rule: try_candidates.induct) (auto simp: Let_def split: option.splits if_splits)

lemma extract_Inr:
  assumes "extract_result J body = Inr v"
  obtains piece where "sublist piece body" "parse_json J piece = Some v" "validate J v = []"
proof -
  obtain t where "t \<in> set (candidates body)" "parse_json J (js_trim t) = Some v" "validate J v = []"
    using try_candidates_Inr assms unfolding extract_result_def by blast
  then show thesis using that [of "js_trim t"] candidates_sublist trim_sublist sublist_order.order.trans by blast
qed

subsection \<open>Every handback is a valid result\<close>

lemma field_put: "js_field (put_field k v obj) j = (if is_plain_obj obj \<and> j = k then v else js_field obj j)"
  by (cases obj) (auto simp: put_field_def is_plain_obj_def om_get_def [symmetric])

lemma put_plain [simp]: "is_plain_obj (put_field k v obj) = is_plain_obj obj"
  by (simp add: put_field_def is_plain_obj_def split: js.split)

lemma validate_put:
  assumes "k \<notin> {''type'', ''status'', ''results'', ''permission_request''}"
  shows "validate J (put_field k v obj) = validate J obj"
proof -
  have "js_field (put_field k v obj) ''type'' = js_field obj ''type''" "js_field (put_field k v obj) ''status'' = js_field obj ''status''"
    "js_field (put_field k v obj) ''results'' = js_field obj ''results''"
    "js_field (put_field k v obj) ''permission_request'' = js_field obj ''permission_request''"
    using assms by (auto simp: field_put)
  then show ?thesis by (simp only: validate_def put_plain)
qed

lemma validate_error_result: "validate J (error_result task message body) = []"
  by (simp add: validate_def error_result_def is_plain_obj_def str_in_def STATUSES_def)

lemma normalize_valid: "validate J (normalize_result J specialist session state body) = []"
  by (auto simp: normalize_result_def Let_def validate_put validate_error_result elim!: extract_Inr
      split: option.split sum.split)

lemma validate_plain: "validate J r = [] \<Longrightarrow> is_plain_obj r"
  by (auto simp: validate_def split: if_splits)

lemma truncate_valid: "validate J r = [] \<Longrightarrow> validate J (truncate_result J file r) = []"
proof -
  assume v: "validate J r = []"
  then have "validate J (put_field ''results'' (JObj fs) r) = []" for fs
    using validate_plain [OF v] by (simp add: validate_def field_put) (simp add: is_plain_obj_def split: if_splits)
  then show ?thesis using v by (simp add: truncate_result_def Let_def)
qed

lemma handed_back_valid: "validate J (handed_back J saved specialist attrs body) = []"
  by (simp add: handed_back_def Let_def normalize_valid truncate_valid split: option.split)

lemma normalize_task:
  "js_field (normalize_result J specialist session state body) ''task_id'' = JStr (task_of specialist session)"
proof (cases "managed_denial J (JStr body)")
  case None
  show ?thesis
  proof (cases "extract_result J body")
    case (Inr r)
    then have "is_plain_obj r" by (elim extract_Inr) (rule validate_plain)
    then show ?thesis using None Inr by (simp add: normalize_result_def Let_def field_put error_result_def)
  qed (use None in \<open>simp add: normalize_result_def Let_def error_result_def\<close>)
qed (simp add: normalize_result_def Let_def field_put error_result_def)

lemma handed_back_task:
  "js_field (handed_back J saved specialist attrs body) ''task_id'' = JStr (task_of specialist (om_get attrs ''sessionID''))"
  by (simp add: handed_back_def Let_def truncate_result_def field_put normalize_task split: option.split)

text \<open>What is settled for a valid result.\<close>

lemma settled_status: "validate J r = [] \<Longrightarrow> fst (result_settlement J r) \<in> insert ''capability_gap'' (set STATUSES)"
  by (auto simp: result_settlement_def validate_def str_in_def split: if_splits js.splits)

subsection \<open>The wrapper around it can be read again\<close>

text \<open>Attributes as \<open>unwrap\<close> yields them.\<close>

definition attr_ok :: "string \<times> string \<Rightarrow> bool" where
  "attr_ok kv \<longleftrightarrow> fst kv \<noteq> [] \<and> list_all is_word (fst kv) \<and> CHR 0x22 \<notin> set (snd kv) \<and> CHR ''>'' \<notin> set (snd kv)"

lemma not_word [simp]: "\<not> is_word CHR '' ''" "\<not> is_word CHR ''>''" "\<not> is_word CHR ''=''"
  by (simp_all add: is_word_def char_class_defs)

lemma attr_at_Some:
  assumes "attr_at s = Some (kv, rest)" "CHR ''>'' \<notin> set s"
  shows "attr_ok kv" "CHR ''>'' \<notin> set rest"
proof -
  let ?k = "takeWhile is_word s"
  obtain v where v: "kv = (?k, v)" "cut_at (CHR 0x22) (drop 2 (drop (length ?k) s)) = Some (v, rest)" "?k \<noteq> []"
    using assms(1) by (auto simp: attr_at_def Let_def split: if_splits)
  note c = cut_at_Some [OF v(2)]
  have "set (v @ CHR 0x22 # rest) \<subseteq> set s" unfolding c [THEN conjunct1, symmetric] by (auto dest!: in_set_dropD)
  then have "CHR ''>'' \<notin> set v" "CHR ''>'' \<notin> set rest" using assms(2) by auto
  then show "attr_ok kv" "CHR ''>'' \<notin> set rest"
    using v c by (auto simp: attr_ok_def list_all_iff dest: set_takeWhileD)
qed

lemma attrs_go_ok: "CHR ''>'' \<notin> set s \<Longrightarrow> list_all attr_ok (attrs_go n s)"
proof (induction n s rule: attrs_go.induct)
  case (3 n c cs)
  show ?case
  proof (cases "attr_at (c # cs)")
    case (Some w)
    obtain kv rest where w: "w = (kv, rest)" by (cases w)
    show ?thesis using attr_at_Some [OF Some [unfolded w] 3(3)] 3(2) [OF Some w [symmetric]] Some w by simp
  qed (use 3 in simp)
qed simp_all

lemma fold_om_set_ok:
  "list_all attr_ok xs \<Longrightarrow> list_all attr_ok m \<and> om_ok m \<Longrightarrow>
   list_all attr_ok (fold (\<lambda>(k, v) m. om_set k v m) xs m) \<and> om_ok (fold (\<lambda>(k, v) m. om_set k v m) xs m)"
proof (induction xs arbitrary: m)
  case (Cons x xs)
  obtain k v where x: "x = (k, v)" by (cases x)
  have "set (om_set k v m) \<subseteq> insert (k, v) (set m)"
    unfolding om_set_def by (induction m) auto
  then have "list_all attr_ok (om_set k v m)" using Cons.prems x by (auto simp: list_all_iff)
  then show ?case using Cons x by simp
qed simp

lemma unwrap_attrs_ok:
  assumes "unwrap text = Some (attrs, body)"
  shows "list_all attr_ok attrs" "om_ok attrs"
proof -
  obtain a b r where "cut_at (CHR ''>'') r = Some (a, b)" "attrs = attrs_of a"
    using assms by (auto simp: unwrap_def Let_def split: if_splits option.splits)
  then have "CHR ''>'' \<notin> set a" "attrs = attrs_of a" using cut_at_Some by blast+
  then show "list_all attr_ok attrs" "om_ok attrs"
    using fold_om_set_ok [of "attrs_go (length a) a" "[]"] attrs_go_ok [of a "length a"] by (simp_all add: attrs_of_def)
qed

lemma attrs_go_text:
  "list_all attr_ok m \<Longrightarrow> length (attrs_text m) \<le> n \<Longrightarrow> attrs_go n (attrs_text m) = m"
proof (induction m arbitrary: n)
  case Nil
  then show ?case by (cases n) (simp_all add: attrs_text_def)
next
  case (Cons x m)
  obtain k v where x: "x = (k, v)" by (cases x)
  have k: "k \<noteq> []" "list_all is_word k" "CHR 0x22 \<notin> set v" using Cons.prems(1) x by (simp_all add: attr_ok_def)
  let ?s = "k @ [CHR ''='', CHR 0x22] @ v @ CHR 0x22 # attrs_text m"
  have shape: "attrs_text (x # m) = CHR '' '' # ?s" using x by (simp add: attrs_text_def)
  have tw: "takeWhile is_word ?s = k"
    using k(2) by (simp add: takeWhile_append list_all_iff)
  then have hit: "attr_at ?s = Some ((k, v), attrs_text m)"
    using k(1) cut_at_append [OF k(3)] by (simp add: attr_at_def Let_def)
  obtain n' where n: "n = Suc (Suc n')" using Cons.prems(2) shape by (cases n; cases "n - 1") auto
  obtain c cs where s: "?s = c # cs" using k(1) by (cases k) auto
  have "attr_at (CHR '' '' # ?s) = None" by (simp add: attr_at_def)
  then have "attrs_go n (attrs_text (x # m)) = attrs_go (Suc n') ?s" unfolding shape n by simp
  also have "\<dots> = (k, v) # attrs_go n' (attrs_text m)" using hit unfolding s by simp
  also have "\<dots> = x # m" using Cons x n shape by simp
  finally show ?case .
qed

lemma fold_om_set_distinct:
  "distinct (map fst m) \<Longrightarrow> set (map fst m) \<inter> set (map fst acc) = {} \<Longrightarrow>
   fold (\<lambda>(k, v) m. om_set k v m) m acc = acc @ m"
proof (induction m arbitrary: acc)
  case (Cons x m)
  obtain k v where x: "x = (k, v)" by (cases x)
  have "k \<notin> set (map fst acc)" using Cons.prems(2) x by auto
  then have "om_set k v acc = acc @ [(k, v)]" unfolding om_set_def by (induction acc) auto
  then show ?case using Cons x by auto
qed simp

lemma attrs_of_text: "list_all attr_ok m \<Longrightarrow> om_ok m \<Longrightarrow> attrs_of (attrs_text m) = m"
  by (simp add: attrs_of_def attrs_go_text fold_om_set_distinct om_ok_def)

lemma set_own_order: "set (own_order m) = set m"
  by (auto simp: own_order_def)

lemma own_order_ok:
  assumes "list_all attr_ok m" "om_ok m"
  shows "list_all attr_ok (own_order m)" "om_ok (own_order m)"
proof -
  show "list_all attr_ok (own_order m)" using assms(1) by (simp add: list_all_iff set_own_order)
  have "distinct m" using assms(2) by (auto simp: om_ok_def distinct_map)
  then have "distinct (own_order m)" by (auto simp: own_order_def)
  moreover have "inj_on fst (set m)" using assms(2) by (simp add: om_ok_def distinct_map)
  ultimately show "om_ok (own_order m)" by (simp add: om_ok_def distinct_map set_own_order)
qed

lemma inner_text_lines:
  assumes "p \<noteq> []" "hd p \<noteq> CHR 10" "last p \<noteq> CHR 13"
  shows "inner_text (CHR 10 # p @ [CHR 10]) = p"
  using assms by (simp add: inner_text_def skip_char_def hd_rev)

lemma tag_chars [simp]: "length open_tag = 9" "length close_tag = 11"
  by (simp_all add: open_tag_def close_tag_def)

theorem unwrap_wrap:
  assumes "list_all attr_ok attrs" "om_ok attrs" "p = ''{'' @ mid @ ''}''"
  shows "unwrap (wrap attrs p) = Some (own_order attrs, p)"
proof -
  let ?a = "attrs_text (own_order attrs)" and ?b = "CHR 10 # p @ [CHR 10] @ close_tag"
  note ok = own_order_ok [OF assms(1,2)]
  have start: "dropWhile is_space (wrap attrs p) = wrap attrs p"
    by (simp add: wrap_def open_tag_def char_class_defs)
  have r: "drop 9 (wrap attrs p) = ?a @ CHR ''>'' # ?b" by (simp add: wrap_def)
  have "CHR ''>'' \<notin> set ?a"
    using ok(1) by (force simp: attrs_text_def list_all_iff attr_ok_def)
  then have cut: "cut_at (CHR ''>'') (?a @ CHR ''>'' # ?b) = Some (?a, ?b)" by (rule cut_at_append)
  have hd: "\<not> is_word (hd (?a @ CHR ''>'' # ?b))"
    by (cases "own_order attrs") (auto simp: attrs_text_def)
  have "rev (dropWhile is_space (rev ?b)) = ?b"
    by (simp add: close_tag_def char_class_defs)
  moreover have "suffix close_tag ?b" by (simp add: suffix_def)
  moreover have "take (length ?b - 11) ?b = CHR 10 # p @ [CHR 10]" by simp
  moreover have "inner_text (CHR 10 # p @ [CHR 10]) = p"
    by (rule inner_text_lines) (simp_all add: assms(3))
  moreover have "prefix open_tag (wrap attrs p)" by (simp add: wrap_def)
  ultimately show ?thesis
    using hd attrs_of_text [OF ok] by (simp add: unwrap_def Let_def start r cut [simplified])
qed

lemma read_with_text: "read_text J c \<noteq> None \<Longrightarrow> read_text J (with_text c t) = Some t"
  by (cases c) (simp_all add: read_text_def with_text_def is_text_part_def comp_def)

text \<open>Claim C40. What its orchestrator receives for a specialist's call. A completed call that came back with a
  \<open><subagent>\<close> text is replaced by one with the same attributes around a valid SpecialistResult, whatever the
  specialist's text was, also after an oversized result was moved into a file (or that failed); its task id is the
  session's, and the ledger is settled with a status of such a result. A call that failed, or one without such a text, is
  left as it came and settled as an error or as unknown. \<open>JSON.stringify\<close> of an object starts and ends with its
  braces.\<close>

theorem handback_always_valid:
  assumes "\<forall>r. is_plain_obj r \<longrightarrow> (\<exists>mid. pretty_json J r = ''{'' @ mid @ ''}'')"
    and "te_tool e = ''subagent''" "te_agent e \<in> set SPECIALISTS"
  shows "case wrapped_text J e of
      None \<Rightarrow> after_specialist J saved e = (te_content e,
        Some (if te_completed e then (''unknown'', None, JUndef) else (''error'', None, JArr [JStr (te_error e)])))
    | Some (attrs, body) \<Rightarrow>
        (\<exists>r text. fst (after_specialist J saved e) = with_text (te_content e) text \<and>
           read_text J (fst (after_specialist J saved e)) = Some text \<and>
           unwrap text = Some (own_order attrs, pretty_json J r) \<and> validate J r = [] \<and>
           js_field r ''task_id'' = JStr (task_of (te_agent e) (om_get attrs ''sessionID'')) \<and>
           (\<exists>st task errs. snd (after_specialist J saved e) = Some (st, task, errs) \<and>
              st \<in> insert ''capability_gap'' (set STATUSES)))"
proof (cases "wrapped_text J e")
  case None
  then show ?thesis using assms(2,3) by (simp add: after_specialist_def)
next
  case (Some w)
  obtain attrs body where w: "w = (attrs, body)" by (cases w)
  obtain t where t: "te_completed e" "read_text J (te_content e) = Some t" "unwrap t = Some (attrs, body)"
    using Some w by (auto simp: wrapped_text_def split: if_splits option.splits)
  let ?r = "handed_back J saved (te_agent e) attrs body"
  let ?text = "wrap attrs (pretty_json J ?r)"
  have v: "validate J ?r = []" by (rule handed_back_valid)
  obtain mid where "pretty_json J ?r = ''{'' @ mid @ ''}''" using assms(1) validate_plain [OF v] by blast
  then have u: "unwrap ?text = Some (own_order attrs, pretty_json J ?r)"
    by (rule unwrap_wrap [OF unwrap_attrs_ok [OF t(3)]])
  have a: "after_specialist J saved e = (with_text (te_content e) ?text, Some (result_settlement J ?r))"
    using assms(2,3) Some w t(1) by (simp add: after_specialist_def Let_def)
  have s: "fst (result_settlement J ?r) \<in> insert ''capability_gap'' (set STATUSES)" by (rule settled_status [OF v])
  have rd: "read_text J (with_text (te_content e) ?text) = Some ?text" by (rule read_with_text) (simp add: t(2))
  show ?thesis
    using Some w a u v s rd handed_back_task [of J saved "te_agent e" attrs body]
    by (cases "result_settlement J ?r") (auto simp del: insert_iff)
qed

text \<open>Claim C13. A result that says success is the specialist's own: its text holds JSON that is a valid result with that
  status; the specialist ended in state completed (or said none), and no usage denial was in its text. Prose never
  passes for success.\<close>

theorem success_is_the_specialists:
  assumes "js_field (normalize_result J specialist session state body) ''status'' = JStr ''success''"
  shows "managed_denial J (JStr body) = None \<and> state \<in> {None, Some [], Some ''completed''} \<and>
    (\<exists>piece v. sublist piece body \<and> parse_json J piece = Some v \<and> validate J v = [] \<and>
       js_field v ''status'' = JStr ''success'' \<and>
       js_field (normalize_result J specialist session state body) ''results'' = js_field v ''results'')"
proof -
  have err: "js_field (error_result a b c) ''status'' = JStr ''error''" for a b c by (simp add: error_result_def)
  have none: "managed_denial J (JStr body) = None"
    using assms err by (cases "managed_denial J (JStr body)") (simp_all add: normalize_result_def Let_def field_put)
  have st: "state \<in> {None, Some [], Some ''completed''}"
    using assms none err by (auto simp: normalize_result_def Let_def split: if_splits)
  obtain v where v: "extract_result J body = Inr v"
    using assms none st err by (cases "extract_result J body") (auto simp: normalize_result_def Let_def)
  obtain piece where p: "sublist piece body" "parse_json J piece = Some v" "validate J v = []" using extract_Inr [OF v] .
  have "js_field (normalize_result J specialist session state body) k = js_field v k" if "k \<in> {''status'', ''results''}" for k
    using none st v that by (auto simp: normalize_result_def Let_def field_put)
  then show ?thesis using none st p assms by auto
qed

definition sample_text :: string where
  "sample_text = ''{\"type\":\"completion\",\"status\":\"success\",\"results\":{}}''"

definition sample_api :: json_api where
  "sample_api = \<lparr>parse_json = (\<lambda>t. if t = sample_text
       then Some (JObj [(''type'', JStr ''completion''), (''status'', JStr ''success''), (''results'', JObj [])]) else None),
     stringify = (\<lambda>v. None), pretty_json = (\<lambda>v. []), number_text = (\<lambda>n. ''1''), text_number = (\<lambda>t. None)\<rparr>"

theorem success_is_the_specialists_witness:
  "managed_denial sample_api (JStr sample_text) = None \<and> Some ''completed'' \<in> {None, Some [], Some ''completed''} \<and>
    (\<exists>piece v. sublist piece sample_text \<and> parse_json sample_api piece = Some v \<and> validate sample_api v = [] \<and>
       js_field v ''status'' = JStr ''success'' \<and>
       js_field (normalize_result sample_api ''dataops'' (Some ''ses_a'') (Some ''completed'') sample_text) ''results'' = js_field v ''results'')"
  by (rule success_is_the_specialists) code_simp

definition braced_api :: json_api where
  "braced_api = sample_api\<lparr>pretty_json := (\<lambda>v. ''{...}'')\<rparr>"

definition sample_end :: tool_end where
  "sample_end = \<lparr>te_tool = ''subagent'', te_agent = ''dataops'', te_id = ''1'', te_completed = True, te_error = [],
     te_content = JStr (''<subagent sessionID=\"ses_a\" state=\"completed\">'' @ sample_text @ ''</subagent>'')\<rparr>"

lemma sample_end_wrapped:
  "wrapped_text braced_api sample_end = Some ([(''sessionID'', ''ses_a''), (''state'', ''completed'')], sample_text)"
  by code_simp

theorem handback_always_valid_witness:
  "\<exists>r text. read_text braced_api (fst (after_specialist braced_api None sample_end)) = Some text \<and>
     unwrap text = Some (own_order [(''sessionID'', ''ses_a''), (''state'', ''completed'')], ''{...}'') \<and>
     validate braced_api r = [] \<and> js_field r ''task_id'' = JStr ''ses_a''"
proof -
  have "\<forall>r. is_plain_obj r \<longrightarrow> (\<exists>mid. pretty_json braced_api r = ''{'' @ mid @ ''}'')"
    by (auto simp: braced_api_def intro: exI [of _ "''...''"])
  moreover have "te_tool sample_end = ''subagent''" "te_agent sample_end \<in> set SPECIALISTS"
    by (simp_all add: sample_end_def SPECIALISTS_def)
  ultimately show ?thesis
    using handback_always_valid [of braced_api sample_end None]
    by (auto simp: sample_end_wrapped task_of_def om_get_def) (auto simp: braced_api_def)
qed

end
