(* ===== verification/Dispatch_Ledger.thy ===== *)
theory Dispatch_Ledger
  imports Result_Protocol
begin

text \<open>
  The dispatch ledger and the handbacks of one conversation (opencode/config/lib/result-protocol.js, \<open>setup\<close>): entries in
  memory and in ledger.json, loaded once and merged, saved after every change, rendered for the orchestrator; and the
  results of earlier orchestrator sessions. Whether a session is an orchestrator of the conversation is the engine's
  answer, a parameter.
\<close>

definition HISTORY_SHOWN :: nat where "HISTORY_SHOWN = 20"
definition HANDBACK_SHOWN_CHARS :: nat where "HANDBACK_SHOWN_CHARS = 12000"
definition PRIOR_SHOWN_CHARS :: nat where "PRIOR_SHOWN_CHARS = 4000"
definition LEDGER_READ_MAX :: nat where "LEDGER_READ_MAX = 1024 * 1024"
definition LEDGER_KEPT :: nat where "LEDGER_KEPT = 500"

record dispatch =
  ds_session :: string
  ds_call :: string
  ds_task :: string
  ds_spec :: string
  ds_status :: string
  ds_objective :: string
  ds_started :: js
  ds_seconds :: "js option"
  ds_errors :: "string list option"

subsection \<open>Entries\<close>

text \<open>\<open>Number(v) || 0\<close>.\<close>

definition js_number :: "json_api \<Rightarrow> js \<Rightarrow> js" where
  "js_number J v = (case v of JNum n \<Rightarrow> v | JInf p \<Rightarrow> v | JBool b \<Rightarrow> JNum (if b then 1 else 0)
     | JStr s \<Rightarrow> JNum (case text_number J s of Some n \<Rightarrow> n | None \<Rightarrow> 0)
     | JArr xs \<Rightarrow> JNum (case text_number J (js_text (number_text J) v) of Some n \<Rightarrow> n | None \<Rightarrow> 0)
     | _ \<Rightarrow> JNum 0)"

definition text_or :: "json_api \<Rightarrow> js \<Rightarrow> string \<Rightarrow> string" where
  "text_or J v other = js_text (number_text J) (js_or_null v (JStr other))"

definition short_errors :: "json_api \<Rightarrow> js \<Rightarrow> string list option" where
  "short_errors J v = map_option (\<lambda>es. map (take 300) (take 5 es)) (error_list J v)"

definition bounded_entry :: "json_api \<Rightarrow> js \<Rightarrow> dispatch" where
  "bounded_entry J x = \<lparr>
     ds_session = text_or J (js_field x ''session'') [],
     ds_call = take 100 (text_or J (js_field x ''callId'') []),
     ds_task = take 100 (text_or J (js_field x ''taskId'') ''(new)''),
     ds_spec = text_or J (js_field x ''specialist'') [],
     ds_status = text_or J (js_field x ''status'') [],
     ds_objective = take 500 (text_or J (js_field x ''objective'') []),
     ds_started = js_number J (js_field x ''started''),
     ds_seconds = (if nullish (js_field x ''seconds'') then None else Some (js_number J (js_field x ''seconds''))),
     ds_errors = short_errors J (js_field x ''errors'')\<rparr>"

text \<open>What is saved: \<open>JSON.stringify\<close> drops what is undefined.\<close>

definition entry_js :: "dispatch \<Rightarrow> js" where
  "entry_js x = JObj ([(''session'', JStr (ds_session x)), (''callId'', JStr (ds_call x)), (''taskId'', JStr (ds_task x)),
     (''specialist'', JStr (ds_spec x)), (''status'', JStr (ds_status x)), (''objective'', JStr (ds_objective x)),
     (''started'', case ds_started x of JInf p \<Rightarrow> JNull | v \<Rightarrow> v)] @
     (case ds_seconds x of None \<Rightarrow> [] | Some v \<Rightarrow> [(''seconds'', case v of JInf p \<Rightarrow> JNull | w \<Rightarrow> w)]) @
     (case ds_errors x of None \<Rightarrow> [] | Some es \<Rightarrow> [(''errors'', JArr (map JStr es))]))"

definition STATUS_WORDS :: "string list" where
  "STATUS_WORDS = [''pending'', ''success'', ''partial'', ''error'', ''unknown'', ''capability_gap'', ''interrupted (engine restart)'']"

definition session_id :: "string \<Rightarrow> bool" where
  "session_id s \<longleftrightarrow> prefix ''ses_'' s \<and> drop 4 s \<noteq> [] \<and> list_all is_alnum (drop 4 s)"

definition stored_ok :: "json_api \<Rightarrow> (string \<Rightarrow> bool) \<Rightarrow> js \<Rightarrow> bool" where
  "stored_ok J orch x \<longleftrightarrow> is_objlike x \<and> session_id (text_or J (js_field x ''session'') []) \<and>
     str_in (js_field x ''specialist'') SPECIALISTS \<and> orch (text_or J (js_field x ''session'') [])"

text \<open>A dispatch that was pending in the file died with the engine that ran it.\<close>

definition revived_status :: "json_api \<Rightarrow> js \<Rightarrow> string" where
  "revived_status J v = (if v = JStr ''pending'' then ''interrupted (engine restart)''
     else if js_text (number_text J) v \<in> set STATUS_WORDS then js_text (number_text J) v else ''unknown'')"

definition revived :: "json_api \<Rightarrow> js \<Rightarrow> dispatch" where
  "revived J x = (bounded_entry J x)\<lparr>ds_status := revived_status J (js_field x ''status'')\<rparr>"

definition same_dispatch :: "dispatch \<Rightarrow> dispatch \<Rightarrow> bool" where
  "same_dispatch x y \<longleftrightarrow> ds_session x = ds_session y \<and> ds_call x = ds_call y \<and> ds_started x = ds_started y"

fun dedupe_from :: "dispatch list \<Rightarrow> dispatch list \<Rightarrow> dispatch list" where
  "dedupe_from out [] = out"
| "dedupe_from out (x # xs) = dedupe_from (if list_ex (same_dispatch x) out then out else out @ [x]) xs"

definition dedupe :: "dispatch list \<Rightarrow> dispatch list" where
  "dedupe xs = dedupe_from [] xs"

subsection \<open>The ledger of a conversation\<close>

datatype stored = Missing | Unreadable | Stored js

record ledger =
  lg_entries :: "dispatch list"
  lg_loaded :: bool
  lg_persist :: bool
  lg_file :: stored

definition new_ledger :: "stored \<Rightarrow> ledger" where
  "new_ledger f = \<lparr>lg_entries = [], lg_loaded = False, lg_persist = False, lg_file = f\<rparr>"

text \<open>\<open>saveLedger\<close>; \<open>writes\<close> tells whether the write succeeded (a failure leaves the file as it is).\<close>

definition save_ledger :: "bool \<Rightarrow> ledger \<Rightarrow> ledger" where
  "save_ledger writes s =
    (if lg_persist s \<and> writes then s\<lparr>lg_file := Stored (JArr (map entry_js (take_last LEDGER_KEPT (lg_entries s))))\<rparr> else s)"

text \<open>\<open>readSmallFile\<close>: a file of more bytes than the limit is not read. A character above 127 takes two.\<close>

definition file_bytes :: "json_api \<Rightarrow> js \<Rightarrow> nat" where
  "file_bytes J v = sum_list (map (\<lambda>c. if (of_char c :: nat) < 128 then 1 else 2) (shown J v))"

definition read_stored :: "json_api \<Rightarrow> stored \<Rightarrow> stored" where
  "read_stored J f = (case f of Stored v \<Rightarrow> if LEDGER_READ_MAX < file_bytes J v then Unreadable else Stored v | _ \<Rightarrow> f)"

definition load_ledger :: "json_api \<Rightarrow> (string \<Rightarrow> bool) \<Rightarrow> bool \<Rightarrow> bool \<Rightarrow> ledger \<Rightarrow> ledger" where
  "load_ledger J orch unresolved writes s =
    (let finish = (\<lambda>xs. let s1 = s\<lparr>lg_entries := dedupe (xs @ lg_entries s), lg_loaded := True, lg_persist := True\<rparr>
                       in if lg_entries s \<noteq> [] then save_ledger writes s1 else s1)
     in if unresolved then s
        else (case read_stored J (lg_file s) of
            Missing \<Rightarrow> finish []
          | Unreadable \<Rightarrow> s
          | Stored v \<Rightarrow> (case v of JArr xs \<Rightarrow> finish (map (revived J) (filter (stored_ok J orch) xs)) | _ \<Rightarrow> s)))"

definition ledger_of :: "json_api \<Rightarrow> (string \<Rightarrow> bool) \<Rightarrow> bool \<Rightarrow> bool \<Rightarrow> ledger \<Rightarrow> ledger" where
  "ledger_of J orch unresolved writes s = (if lg_loaded s then s else load_ledger J orch unresolved writes s)"

text \<open>\<open>execute.before\<close> of a specialist's dispatch.\<close>

record call =
  cl_session :: string
  cl_id :: string
  cl_agent :: string
  cl_resumes :: "string option"
  cl_objective :: string

definition record_dispatch :: "json_api \<Rightarrow> (string \<Rightarrow> bool) \<Rightarrow> bool \<Rightarrow> bool \<Rightarrow> call \<Rightarrow> rat \<Rightarrow> ledger \<Rightarrow> ledger" where
  "record_dispatch J orch unresolved writes e now s =
    (if cl_agent e \<notin> set SPECIALISTS then s
     else (let s1 = ledger_of J orch unresolved writes s;
               x = bounded_entry J (JObj [(''session'', JStr (cl_session e)), (''callId'', JStr (cl_id e)),
                     (''taskId'', JStr (case cl_resumes e of Some i \<Rightarrow> i | None \<Rightarrow> ''(new)'')),
                     (''specialist'', JStr (cl_agent e)), (''status'', JStr ''pending''),
                     (''objective'', JStr (cl_objective e)), (''started'', JNum now)])
           in save_ledger writes (s1\<lparr>lg_entries := lg_entries s1 @ [x]\<rparr>)))"

text \<open>\<open>settle\<close>: the newest pending entry of the call.\<close>

fun update_last :: "('a \<Rightarrow> bool) \<Rightarrow> ('a \<Rightarrow> 'a) \<Rightarrow> 'a list \<Rightarrow> 'a list option" where
  "update_last P f [] = None"
| "update_last P f (x # xs) = (case update_last P f xs of Some ys \<Rightarrow> Some (x # ys)
     | None \<Rightarrow> if P x then Some (f x # xs) else None)"

definition seconds_since :: "rat \<Rightarrow> js \<Rightarrow> js" where
  "seconds_since now started = (case started of JNum t \<Rightarrow> JNum (of_int \<lfloor>(now - t) / 1000 + 1 / 2\<rfloor>) | v \<Rightarrow> JNull)"

definition settle_dispatch :: "json_api \<Rightarrow> (string \<Rightarrow> bool) \<Rightarrow> bool \<Rightarrow> bool \<Rightarrow> string \<Rightarrow> string \<Rightarrow> string \<Rightarrow> string option \<Rightarrow> js \<Rightarrow> rat \<Rightarrow> ledger \<Rightarrow> ledger" where
  "settle_dispatch J orch unresolved writes session call_id status task errors now s =
    (let s1 = ledger_of J orch unresolved writes s in
     case update_last (\<lambda>x. ds_session x = session \<and> ds_call x = call_id \<and> ds_status x = ''pending'')
            (\<lambda>x. x\<lparr>ds_status := status, ds_seconds := Some (seconds_since now (ds_started x)),
                   ds_task := (case task of Some (c # t) \<Rightarrow> c # t | _ \<Rightarrow> ds_task x), ds_errors := short_errors J errors\<rparr>)
            (lg_entries s1) of
       None \<Rightarrow> s1
     | Some es \<Rightarrow> save_ledger writes (s1\<lparr>lg_entries := es\<rparr>))"

subsection \<open>Foreground calls\<close>

text \<open>\<open>forceForeground\<close>: whatever asked for the background runs in the foreground.\<close>

definition force_foreground :: "js \<Rightarrow> js" where
  "force_foreground input = (if is_plain_obj input \<and> (has_field input ''background'' \<or> truthy (js_field input ''background''))
     then put_field ''background'' (JBool False) input else input)"

definition before_call :: "string \<Rightarrow> js \<Rightarrow> js" where
  "before_call tool input =
    (if tool = ''shell'' then
       force_foreground (if is_plain_obj input \<and> js_field input ''timeout'' = JUndef then put_field ''timeout'' (JNum 0) input else input)
     else if tool = ''subagent'' then force_foreground input else input)"

subsection \<open>Rendering\<close>

definition count_status :: "string \<Rightarrow> dispatch list \<Rightarrow> nat" where
  "count_status st xs = length (filter (\<lambda>x. ds_status x = st) xs)"

definition render_entry :: "json_api \<Rightarrow> dispatch \<Rightarrow> string list" where
  "render_entry J x =
    [''- ['' @ ds_task x @ ''] '' @ ds_spec x @ '': '' @ ds_status x @
       (case ds_seconds x of None \<Rightarrow> [] | Some v \<Rightarrow> '' ('' @ js_text (number_text J) v @ ''s)'')] @
    (case ds_errors x of None \<Rightarrow> [] | Some es \<Rightarrow> if es = [] then [] else [''    Errors: '' @ take 300 (js_join ''; '' es)]) @
    [''  Objective: '' @ take 200 (ds_objective x)]"

definition EARLIER_HEADING :: string where
  "EARLIER_HEADING = ''## Earlier orchestrator sessions (not resumable from yours: dispatch fresh specialists with their files)''"

definition THIS_HEADING :: string where "THIS_HEADING = ''## This session''"

definition render_history :: "json_api \<Rightarrow> dispatch list \<Rightarrow> string option \<Rightarrow> string list" where
  "render_history J es current =
    (if es = [] then []
     else (let older = take (length es - HISTORY_SHOWN) es;
               recent = take_last HISTORY_SHOWN es;
               top = [''# Specialist history (every specialist dispatch in this conversation, across all orchestrator sessions; it survives context compaction)''] @
                 (if older = [] then [] else [''['' @ dec_nat (length older) @ '' earlier dispatches: '' @
                    dec_nat (count_status ''success'' older) @ '' success, '' @ dec_nat (count_status ''error'' older) @ '' error, '' @
                    dec_nat (count_status ''pending'' older) @ '' pending]''])
           in (case current of
             None \<Rightarrow> top @ concat (map (render_entry J) recent)
           | Some cur \<Rightarrow>
              (let earlier = filter (\<lambda>x. ds_session x \<noteq> [] \<and> ds_session x \<noteq> cur) recent;
                   own = filter (\<lambda>x. ds_session x = [] \<or> ds_session x = cur) recent
               in top @ (if earlier = [] then [] else EARLIER_HEADING # concat (map (render_entry J) earlier)) @
                  (if own = [] then [] else THIS_HEADING # concat (map (render_entry J) own))))))"

end
