(* ===== verification/Ledger_Props.thy ===== *)
theory Ledger_Props
  imports Dispatch_Ledger
begin

text \<open>
  The dispatch ledger survives restarts of the engine while its file is within the size limit
  (opencode/config/lib/result-protocol.js).
\<close>

definition recorded :: "(string \<Rightarrow> bool) \<Rightarrow> dispatch \<Rightarrow> bool" where
  "recorded orch x \<longleftrightarrow> session_id (ds_session x) \<and> orch (ds_session x) \<and> ds_spec x \<in> set SPECIALISTS \<and>
     length (ds_call x) \<le> 100 \<and> length (ds_task x) \<le> 100 \<and> length (ds_objective x) \<le> 500 \<and> ds_status x \<in> set STATUS_WORDS \<and>
     num_of (ds_started x) \<noteq> None \<and> (\<forall>v. ds_seconds x = Some v \<longrightarrow> num_of v \<noteq> None) \<and>
     (\<forall>es. ds_errors x = Some es \<longrightarrow> es \<noteq> [] \<and> length es \<le> 5 \<and> (\<forall>e \<in> set es. length e \<le> 300))"

definition interrupted :: "dispatch \<Rightarrow> dispatch" where
  "interrupted x = (if ds_status x = ''pending'' then x\<lparr>ds_status := ''interrupted (engine restart)''\<rparr> else x)"

lemma text_or_str [simp]: "text_or J (JStr s) d = s"
  by (simp add: text_or_def js_or_null_def)

lemma text_or_undef [simp]: "text_or J JUndef d = d"
  by (simp add: text_or_def js_or_null_def)

lemma entry_fields:
  "js_field (entry_js x) ''session'' = JStr (ds_session x)" "js_field (entry_js x) ''callId'' = JStr (ds_call x)"
  "js_field (entry_js x) ''taskId'' = JStr (ds_task x)" "js_field (entry_js x) ''specialist'' = JStr (ds_spec x)"
  "js_field (entry_js x) ''status'' = JStr (ds_status x)" "js_field (entry_js x) ''objective'' = JStr (ds_objective x)"
  "js_field (entry_js x) ''started'' = (case ds_started x of JInf p \<Rightarrow> JNull | v \<Rightarrow> v)"
  by (simp_all add: entry_js_def)

lemma entry_seconds: "num_of v \<noteq> None \<Longrightarrow> ds_seconds x = Some v \<Longrightarrow> js_field (entry_js x) ''seconds'' = v"
  by (auto simp: entry_js_def)

lemma entry_no_seconds: "ds_seconds x = None \<Longrightarrow> js_field (entry_js x) ''seconds'' = JUndef"
  by (simp add: entry_js_def split: option.split)

lemma entry_errors: "js_field (entry_js x) ''errors'' = (case ds_errors x of None \<Rightarrow> JUndef | Some es \<Rightarrow> JArr (map JStr es))"
  by (simp add: entry_js_def split: option.split)

lemma error_list_strings: "es \<noteq> [] \<Longrightarrow> error_list J (JArr (map JStr es)) = Some es"
  by (simp add: error_list_def comp_def)

lemma take_short: "length xs \<le> n \<Longrightarrow> take n xs = xs"
  by simp

text \<open>Reading back a saved entry.\<close>

lemma revived_entry:
  assumes "recorded orch x"
  shows "revived J (entry_js x) = interrupted x"
proof -
  note r = assms [unfolded recorded_def]
  obtain n where n: "ds_started x = JNum n" using r by auto
  have secs: "(if nullish (js_field (entry_js x) ''seconds'') then None else Some (js_number J (js_field (entry_js x) ''seconds''))) = ds_seconds x"
  proof (cases "ds_seconds x")
    case (Some v)
    then obtain m where "v = JNum m" using r by auto
    then show ?thesis using Some entry_seconds [of v x] by (simp add: js_number_def)
  qed (simp add: entry_no_seconds)
  have errs: "short_errors J (js_field (entry_js x) ''errors'') = ds_errors x"
  proof (cases "ds_errors x")
    case (Some es)
    then have es: "es \<noteq> []" "length es \<le> 5" "\<forall>e \<in> set es. length e \<le> 300" using r by auto
    then have "map (take 300) es = es" by (intro map_idI) simp
    then show ?thesis using Some es by (simp add: entry_errors short_errors_def error_list_strings)
  qed (simp add: entry_errors short_errors_def error_list_def)
  have "revived_status J (JStr (ds_status x)) = (if ds_status x = ''pending'' then ''interrupted (engine restart)'' else ds_status x)"
    using r by (simp add: revived_status_def)
  then have "revived J (entry_js x) = x\<lparr>ds_status := if ds_status x = ''pending'' then ''interrupted (engine restart)'' else ds_status x\<rparr>"
    using r n secs errs by (simp add: revived_def bounded_entry_def entry_fields js_number_def)
  then show ?thesis by (simp add: interrupted_def)
qed

lemma stored_entry: "recorded orch x \<Longrightarrow> stored_ok J orch (entry_js x)"
  by (simp add: recorded_def stored_ok_def entry_fields str_in_def) (simp add: entry_js_def)

text \<open>The events of one conversation.\<close>

datatype ledger_op =
    Dispatch call rat
  | Settle string string string "string option" js rat
  | Restart \<comment> \<open>a new engine process: the memory is gone, the file stays\<close>

fun ledger_step :: "json_api \<Rightarrow> (string \<Rightarrow> bool) \<Rightarrow> ledger_op \<Rightarrow> ledger \<Rightarrow> ledger" where
  "ledger_step J orch (Dispatch e now) s = record_dispatch J orch False True e now s"
| "ledger_step J orch (Settle session call_id status task errors now) s =
     settle_dispatch J orch False True session call_id status task errors now s"
| "ledger_step J orch Restart s = new_ledger (lg_file s)"

fun ledger_op_ok :: "(string \<Rightarrow> bool) \<Rightarrow> ledger_op \<Rightarrow> bool" where
  "ledger_op_ok orch (Dispatch e now) = (session_id (cl_session e) \<and> orch (cl_session e))"
| "ledger_op_ok orch Restart = True"
| "ledger_op_ok orch (Settle session call_id status task errors now) =
     (status \<in> set STATUS_WORDS \<and> (case task of Some t \<Rightarrow> length t \<le> 100 | None \<Rightarrow> True))"

text \<open>The file of a conversation is small enough to be read.\<close>

definition fits :: "json_api \<Rightarrow> ledger \<Rightarrow> bool" where
  "fits J s \<longleftrightarrow> (case lg_file s of Stored v \<Rightarrow> file_bytes J v \<le> LEDGER_READ_MAX | _ \<Rightarrow> True)"

text \<open>What the next engine finds.\<close>

definition reread :: "json_api \<Rightarrow> (string \<Rightarrow> bool) \<Rightarrow> ledger \<Rightarrow> dispatch list" where
  "reread J orch s = lg_entries (ledger_of J orch False True (new_ledger (lg_file s)))"

definition kept_entries :: "dispatch list \<Rightarrow> dispatch list" where
  "kept_entries es = dedupe (map interrupted (take_last LEDGER_KEPT es))"

text \<open>The file holds recorded entries; the memory is the file's reading, or has been saved since.\<close>

definition file_holds :: "dispatch list \<Rightarrow> stored \<Rightarrow> bool" where
  "file_holds fs f \<longleftrightarrow> f = Stored (JArr (map entry_js fs)) \<or> (fs = [] \<and> f = Missing)"

definition saved :: "(string \<Rightarrow> bool) \<Rightarrow> ledger \<Rightarrow> bool" where
  "saved orch s \<longleftrightarrow> (\<exists>fs. list_all (recorded orch) fs \<and> length fs \<le> LEDGER_KEPT \<and>
     file_holds fs (lg_file s) \<and>
     (if lg_loaded s
      then lg_persist s \<and> list_all (recorded orch) (lg_entries s) \<and> kept_entries fs = kept_entries (lg_entries s)
      else lg_entries s = []))"

lemma savedE:
  assumes "saved orch s"
  obtains fs where "list_all (recorded orch) fs" "length fs \<le> LEDGER_KEPT"
    "file_holds fs (lg_file s)"
    "lg_loaded s \<Longrightarrow> lg_persist s \<and> list_all (recorded orch) (lg_entries s) \<and> kept_entries fs = kept_entries (lg_entries s)"
    "\<not> lg_loaded s \<Longrightarrow> lg_entries s = []"
proof -
  obtain fs where fs: "list_all (recorded orch) fs" "length fs \<le> LEDGER_KEPT" "file_holds fs (lg_file s)"
    "if lg_loaded s then lg_persist s \<and> list_all (recorded orch) (lg_entries s) \<and> kept_entries fs = kept_entries (lg_entries s)
     else lg_entries s = []"
    using assms unfolding saved_def by blast
  show thesis by (rule that [OF fs(1-3)]) (use fs(4) in simp_all)
qed

lemma short_errors_ok: "short_errors J v = Some es \<Longrightarrow> es \<noteq> [] \<and> length es \<le> 5 \<and> (\<forall>e \<in> set es. length e \<le> 300)"
  by (auto simp: short_errors_def error_list_def Let_def split: if_splits)

lemma set_dedupe_from: "set (dedupe_from out xs) \<subseteq> set out \<union> set xs"
  by (induction out xs rule: dedupe_from.induct) (auto split: if_splits)

lemma set_dedupe: "set (dedupe xs) \<subseteq> set xs"
  using set_dedupe_from [of "[]" xs] by (simp add: dedupe_def)

lemma recorded_interrupted: "recorded orch x \<Longrightarrow> recorded orch (interrupted x)"
proof -
  have "''interrupted (engine restart)'' \<in> set STATUS_WORDS" by (simp add: STATUS_WORDS_def)
  then show "recorded orch x \<Longrightarrow> recorded orch (interrupted x)" by (simp add: recorded_def interrupted_def)
qed

lemma interrupted_idem [simp]: "interrupted (interrupted x) = interrupted x"
  by (simp add: interrupted_def)

text \<open>A list without two of a kind is what \<open>dedupe\<close> yields, and yields itself.\<close>

fun no_twins :: "dispatch list \<Rightarrow> bool" where
  "no_twins [] = True"
| "no_twins (x # xs) = (\<not> list_ex (same_dispatch x) xs \<and> no_twins xs)"

lemma no_twins_snoc: "no_twins (xs @ [x]) \<longleftrightarrow> no_twins xs \<and> \<not> list_ex (\<lambda>y. same_dispatch y x) xs"
  by (induction xs) auto

lemma same_dispatch_sym: "same_dispatch x y \<longleftrightarrow> same_dispatch y x"
  by (auto simp: same_dispatch_def)

lemma dedupe_from_no_twins: "no_twins out \<Longrightarrow> no_twins (dedupe_from out xs)"
  by (induction out xs rule: dedupe_from.induct)
    (auto simp: no_twins_snoc list_ex_iff same_dispatch_sym split: if_splits)

lemma dedupe_from_id: "no_twins (out @ xs) \<Longrightarrow> dedupe_from out xs = out @ xs"
proof (induction out xs rule: dedupe_from.induct)
  case (2 out x xs)
  have "no_twins (out @ [x])" using 2(2) by (induction out) auto
  then have "\<not> list_ex (same_dispatch x) out" by (auto simp: no_twins_snoc list_ex_iff same_dispatch_sym)
  then show ?case using 2 by simp
qed simp

lemma dedupe_idem: "dedupe (dedupe xs) = dedupe xs"
  using dedupe_from_no_twins [of "[]" xs] dedupe_from_id [of "[]" "dedupe xs"] by (simp add: dedupe_def)

lemma length_dedupe_from: "length (dedupe_from out xs) \<le> length out + length xs"
  by (induction out xs rule: dedupe_from.induct) (auto split: if_splits)

lemma map_id_on: "(\<And>x. x \<in> set xs \<Longrightarrow> f x = x) \<Longrightarrow> map f xs = xs"
  by (induction xs) auto

text \<open>What was read can be kept and read again.\<close>

lemma kept_again: "length fs \<le> LEDGER_KEPT \<Longrightarrow> kept_entries (kept_entries fs) = kept_entries fs"
proof -
  assume n: "length fs \<le> LEDGER_KEPT"
  let ?es = "dedupe (map interrupted fs)"
  have "length ?es \<le> LEDGER_KEPT"
    using n length_dedupe_from [of "[]" "map interrupted fs"] by (simp add: dedupe_def)
  moreover have "map interrupted ?es = ?es"
    by (rule map_id_on) (use set_dedupe [of "map interrupted fs"] in auto)
  ultimately show ?thesis using n by (simp add: kept_entries_def take_last_def dedupe_idem)
qed

text \<open>Reading the file of a ledger.\<close>

lemma load_file:
  assumes "list_all (recorded orch) fs" "length fs \<le> LEDGER_KEPT" "fits J s" "lg_entries s = []"
    "file_holds fs (lg_file s)"
  shows "load_ledger J orch False True s = s\<lparr>lg_entries := kept_entries fs, lg_loaded := True, lg_persist := True\<rparr>"
proof -
  have rd: "read_stored J (lg_file s) = lg_file s"
    using assms(3) by (cases "lg_file s") (simp_all add: fits_def read_stored_def)
  have f: "filter (stored_ok J orch) (map entry_js fs) = map entry_js fs"
    using assms(1) stored_entry by (auto simp: list_all_iff intro!: filter_True)
  have m: "map (revived J) (map entry_js fs) = map interrupted fs"
    unfolding map_map comp_def by (intro map_cong refl) (use assms(1) revived_entry in \<open>auto simp: list_all_iff\<close>)
  have k: "kept_entries fs = dedupe (map interrupted fs)" using assms(2) by (simp add: kept_entries_def take_last_def)
  show ?thesis
  proof (cases "fs = []")
    case True
    then show ?thesis using assms(4,5) rd k by (auto simp: file_holds_def load_ledger_def Let_def dedupe_def)
  next
    case False
    then show ?thesis using assms(4,5) rd k f m by (simp add: file_holds_def load_ledger_def Let_def del: map_map)
  qed
qed

lemma saved_load:
  assumes "saved orch s" "fits J s"
  shows "saved orch (ledger_of J orch False True s) \<and> lg_loaded (ledger_of J orch False True s) \<and>
    lg_file (ledger_of J orch False True s) = lg_file s"
proof (cases "lg_loaded s")
  case True
  then show ?thesis using assms by (simp add: ledger_of_def)
next
  case False
  obtain fs where fs: "list_all (recorded orch) fs" "length fs \<le> LEDGER_KEPT"
    "file_holds fs (lg_file s)"
    "lg_entries s = []" using assms(1) False by (elim savedE) blast
  have "list_all (recorded orch) (kept_entries fs)"
    using fs(1) set_dedupe [of "map interrupted fs"] fs(2) recorded_interrupted
    by (auto simp: kept_entries_def take_last_def list_all_iff)
  then show ?thesis
    using False fs load_file [OF fs(1,2) assms(2) fs(4,3)] kept_again [OF fs(2)]
    by (auto simp: ledger_of_def saved_def intro!: exI [of _ fs])
qed

text \<open>What the next engine reads is what this one would keep.\<close>

lemma saved_reread:
  assumes "saved orch s" "fits J s"
  shows "reread J orch s = kept_entries (lg_entries (ledger_of J orch False True s))"
proof -
  obtain fs where fs: "list_all (recorded orch) fs" "length fs \<le> LEDGER_KEPT"
    "file_holds fs (lg_file s)"
    "lg_loaded s \<Longrightarrow> kept_entries fs = kept_entries (lg_entries s)" "\<not> lg_loaded s \<Longrightarrow> lg_entries s = []"
    using assms(1) by (elim savedE) blast
  let ?n = "new_ledger (lg_file s)"
  have n: "lg_file ?n = lg_file s" "lg_entries ?n = []" "\<not> lg_loaded ?n" by (simp_all add: new_ledger_def)
  have "fits J ?n" using assms(2) by (simp add: fits_def n)
  then have "load_ledger J orch False True ?n = ?n\<lparr>lg_entries := kept_entries fs, lg_loaded := True, lg_persist := True\<rparr>"
    by (rule load_file [OF fs(1,2) _ n(2)]) (simp only: n(1) fs(3))
  then have "reread J orch s = kept_entries fs" using n(3) by (simp add: reread_def ledger_of_def)
  then show ?thesis
    using fs(4,5) load_file [OF fs(1,2) assms(2) _ fs(3)] kept_again [OF fs(2)] by (cases "lg_loaded s") (auto simp: ledger_of_def)
qed

lemma update_last_all:
  "update_last P f xs = Some ys \<Longrightarrow> list_all Q xs \<Longrightarrow> (\<And>x. Q x \<Longrightarrow> P x \<Longrightarrow> Q (f x)) \<Longrightarrow> list_all Q ys \<and> ys \<noteq> []"
  by (induction xs arbitrary: ys) (auto split: option.splits if_splits)

lemma saved_written:
  assumes "list_all (recorded orch) (lg_entries s)" "lg_loaded s" "lg_persist s"
  shows "saved orch (save_ledger True s)"
proof -
  let ?fs = "take_last LEDGER_KEPT (lg_entries s)"
  have "take_last LEDGER_KEPT ?fs = ?fs" by (simp add: take_last_def)
  then have "kept_entries ?fs = kept_entries (lg_entries s)" by (simp add: kept_entries_def)
  moreover have "list_all (recorded orch) ?fs"
    using assms(1) set_take_last [of LEDGER_KEPT "lg_entries s"] by (auto simp: list_all_iff)
  ultimately show ?thesis
    using assms by (simp add: saved_def save_ledger_def file_holds_def) (rule exI [of _ ?fs], simp)
qed

lemma saved_step:
  assumes "saved orch s" "ledger_op_ok orch op" "fits J s"
  shows "saved orch (ledger_step J orch op s)"
proof -
  define s1 where "s1 = ledger_of J orch False True s"
  have l: "saved orch s1" "lg_loaded s1" using saved_load [OF assms(1,3)] by (simp_all add: s1_def)
  have e1: "list_all (recorded orch) (lg_entries s1)" "lg_persist s1" using l by (auto elim: savedE)
  have wr: "saved orch (save_ledger True (s1\<lparr>lg_entries := es\<rparr>))" if "list_all (recorded orch) es" for es
    using that l(2) e1(2) by (intro saved_written) simp_all
  show ?thesis
  proof (cases op)
    case (Dispatch e now)
    let ?x = "bounded_entry J (JObj [(''session'', JStr (cl_session e)), (''callId'', JStr (cl_id e)),
                     (''taskId'', JStr (case cl_resumes e of Some i \<Rightarrow> i | None \<Rightarrow> ''(new)'')),
                     (''specialist'', JStr (cl_agent e)), (''status'', JStr ''pending''),
                     (''objective'', JStr (cl_objective e)), (''started'', JNum now)])"
    have "recorded orch ?x" if "cl_agent e \<in> set SPECIALISTS"
      using that assms(2) Dispatch
      by (simp add: recorded_def bounded_entry_def STATUS_WORDS_def js_number_def short_errors_def error_list_def)
    then have "list_all (recorded orch) (lg_entries s1 @ [?x])" if "cl_agent e \<in> set SPECIALISTS"
      using that e1(1) by simp
    then show ?thesis using Dispatch assms(1) wr
      by (simp add: record_dispatch_def Let_def flip: s1_def)
  next
    case (Settle session call_id status task errors now)
    let ?P = "\<lambda>x. ds_session x = session \<and> ds_call x = call_id \<and> ds_status x = ''pending''"
    let ?f = "\<lambda>x. x\<lparr>ds_status := status, ds_seconds := Some (seconds_since now (ds_started x)),
                   ds_task := (case task of Some (c # t) \<Rightarrow> c # t | _ \<Rightarrow> ds_task x), ds_errors := short_errors J errors\<rparr>"
    have f: "recorded orch (?f x)" if "recorded orch x" for x
    proof -
      have "length (case task of Some (c # t) \<Rightarrow> c # t | _ \<Rightarrow> ds_task x) \<le> 100"
        using that assms(2) Settle by (auto simp: recorded_def split: option.splits list.splits)
      then show ?thesis using that assms(2) Settle short_errors_ok
        by (auto simp: recorded_def seconds_since_def)
    qed
    show ?thesis
    proof (cases "update_last ?P ?f (lg_entries s1)")
      case None
      then show ?thesis using Settle l by (simp add: settle_dispatch_def Let_def flip: s1_def)
    next
      case (Some es)
      then have "list_all (recorded orch) es \<and> es \<noteq> []"
        using update_last_all [OF Some, of "recorded orch"] e1(1) f by simp
      then show ?thesis using Settle Some wr by (simp add: settle_dispatch_def Let_def flip: s1_def)
    qed
  next
    case Restart
    obtain fs where "list_all (recorded orch) fs" "length fs \<le> LEDGER_KEPT"
      "file_holds fs (lg_file s)"
      using assms(1) by (elim savedE) blast
    then show ?thesis unfolding Restart saved_def by (intro exI [of _ fs]) (simp add: new_ledger_def)
  qed
qed

lemma saved_run:
  assumes "list_all (ledger_op_ok orch) ops" "\<forall>n. fits J (fold (ledger_step J orch) (take n ops) (new_ledger Missing))"
  shows "saved orch (fold (ledger_step J orch) ops (new_ledger Missing))"
  using assms
proof (induction ops rule: rev_induct)
  case Nil
  show ?case by (simp add: saved_def new_ledger_def file_holds_def exI [of _ "[]"])
next
  case (snoc op ops)
  let ?s = "\<lambda>xs. fold (ledger_step J orch) xs (new_ledger Missing)"
  have f: "fits J (?s (take n ops))" for n
    using snoc.prems(2) [rule_format, of "min n (length ops)"] by (cases "n \<le> length ops") simp_all
  have "saved orch (?s ops)" using snoc.IH snoc.prems(1) f by simp
  moreover have "fits J (?s ops)" using f [of "length ops"] by simp
  ultimately show ?case using snoc.prems(1) saved_step [of orch "?s ops" op J] by simp
qed

text \<open>Claim C23. The ledger survives restarts of the engine: after any dispatches, settlements and restarts of a
  conversation, the next engine finds the last five hundred entries in order, each as it was except that the ones still
  pending are interrupted, and of entries with the same session, call and start only the first. For the runs in which
  every write of the file succeeded and the file never grew beyond the mebibyte that is read back (\<open>fits\<close>), in
  which the dispatching sessions are orchestrators and settled task ids have at most 100 characters (\<open>ledger_op_ok\<close>);
  \<open>oversized_ledger_stays\<close> below says what happens beyond it.\<close>

theorem ledger_survives_restart:
  assumes "list_all (ledger_op_ok orch) ops" "\<forall>n. fits J (fold (ledger_step J orch) (take n ops) (new_ledger Missing))"
    "s = fold (ledger_step J orch) ops (new_ledger Missing)"
  shows "lg_entries (ledger_of J orch False True (new_ledger (lg_file s))) =
    dedupe (map interrupted (take_last LEDGER_KEPT (lg_entries (ledger_of J orch False True s))))"
  using saved_reread [OF saved_run [OF assms(1,2)]] assms(2) [rule_format, of "length ops"] assms(3)
  by (simp add: reread_def kept_entries_def)

definition sample_json :: json_api where
  "sample_json = \<lparr>parse_json = (\<lambda>t. None), stringify = (\<lambda>v. None), pretty_json = (\<lambda>v. []), number_text = (\<lambda>n. ''1''),
     text_number = (\<lambda>t. None)\<rparr>"

definition sample_ops :: "ledger_op list" where
  "sample_ops = [Dispatch \<lparr>cl_session = ''ses_o'', cl_id = ''1'', cl_agent = ''dataops'', cl_resumes = None, cl_objective = ''load''\<rparr> 1000,
     Settle ''ses_o'' ''1'' ''success'' (Some ''ses_a'') JUndef 4000,
     Dispatch \<lparr>cl_session = ''ses_o'', cl_id = ''2'', cl_agent = ''geoviz'', cl_resumes = Some ''ses_b'', cl_objective = ''map''\<rparr> 5000]"

theorem ledger_survives_restart_witness:
  "let s = fold (ledger_step sample_json (\<lambda>i. True)) sample_ops (new_ledger Missing) in
   lg_entries (ledger_of sample_json (\<lambda>i. True) False True (new_ledger (lg_file s))) =
     dedupe (map interrupted (take_last LEDGER_KEPT (lg_entries (ledger_of sample_json (\<lambda>i. True) False True s))))"
proof -
  have "file_bytes sample_json v \<le> LEDGER_READ_MAX" for v
    by (simp add: file_bytes_def shown_def sample_json_def LEDGER_READ_MAX_def)
  then have "\<forall>n. fits sample_json (fold (ledger_step sample_json (\<lambda>i. True)) (take n sample_ops) (new_ledger Missing))"
    by (simp add: fits_def split: stored.split)
  moreover have "list_all (ledger_op_ok (\<lambda>i. True)) sample_ops" by code_simp
  ultimately show ?thesis unfolding Let_def by (intro ledger_survives_restart [OF _ _ refl])
qed

text \<open>A file that grew beyond the limit is never read nor written again: five hundred entries of two thousand characters
  are enough. The entries in it are not shown any more, and what later engines record is lost with each of them.\<close>

lemma oversized_load:
  assumes "lg_file s = Stored v" "LEDGER_READ_MAX < file_bytes J v" "\<not> lg_loaded s"
  shows "ledger_of J orch unresolved writes s = s"
  using assms by (simp add: ledger_of_def load_ledger_def read_stored_def)

lemma oversized_ledger_stays:
  assumes "lg_file s = Stored v" "LEDGER_READ_MAX < file_bytes J v" "\<not> lg_loaded s" "\<not> lg_persist s"
  shows "lg_file (fold (ledger_step J orch) ops s) = Stored v \<and> \<not> lg_loaded (fold (ledger_step J orch) ops s)"
  using assms
proof (induction ops arbitrary: s)
  case (Cons op ops)
  have load: "ledger_of J orch False True s = s" using oversized_load Cons.prems by blast
  have "lg_file (ledger_step J orch op s) = Stored v \<and> \<not> lg_loaded (ledger_step J orch op s) \<and>
      \<not> lg_persist (ledger_step J orch op s)"
    using Cons.prems load
    by (cases op) (simp_all add: record_dispatch_def settle_dispatch_def save_ledger_def new_ledger_def Let_def split: option.split)
  then show ?case using Cons.IH Cons.prems(2) by simp
qed simp

end
