(* ===== verification/Run_Dir.thy ===== *)
theory Run_Dir
  imports Js_Path Ordered_Map
begin

text \<open>
  Where a conversation's agents may write (opencode/config/lib/run-dir.js): the root session of any session through the
  parent chain, the edit policy with its symlink checks, the queue that gives a shell command its run folder, and the
  environment of tool shells. An absolute path is the list of its segments (\<open>path.resolve\<close> leaves no empty, \<open>.\<close> or \<open>..\<close>
  segment); the file system and the engine's session lookup are parameters.
\<close>

type_synonym path = "string list"

subsection \<open>The root session\<close>

record session_info =
  si_id :: string
  si_parent :: "string option"

text \<open>\<open>resolveRoot\<close>: \<open>None\<close> when a lookup fails or the chain is deeper than the levels left.\<close>

fun resolve_from :: "(string \<Rightarrow> session_info option) \<Rightarrow> nat \<Rightarrow> (string, string) omap \<Rightarrow> string list \<Rightarrow> string \<Rightarrow>
    (string, string) omap \<times> string option" where
  "resolve_from look 0 cache chain cur = (cache, None)"
| "resolve_from look (Suc k) cache chain cur =
    (case om_get cache cur of
       Some known \<Rightarrow> (fold (\<lambda>s c. om_set s known c) chain cache, Some known)
     | None \<Rightarrow>
        (case look cur of
           None \<Rightarrow> (cache, None)
         | Some i \<Rightarrow>
            (case si_parent i of
               Some (c # p) \<Rightarrow> resolve_from look k cache (chain @ [cur]) (c # p)
             | _ \<Rightarrow> (fold (\<lambda>s c. om_set s (si_id i) c) (chain @ [cur]) cache, Some (si_id i)))))"

definition resolve_root :: "(string \<Rightarrow> session_info option) \<Rightarrow> (string, string) omap \<Rightarrow> string \<Rightarrow> (string, string) omap \<times> string option" where
  "resolve_root look cache s = resolve_from look 16 cache [] s"

subsection \<open>The edit policy\<close>

datatype lstat = IsDir | IsFile | IsLink | NoEntry | StatError

record file_system =
  fs_lstat :: "path \<Rightarrow> lstat"
  fs_real :: "path \<Rightarrow> path option"
  fs_dir :: "path \<Rightarrow> bool" \<comment> \<open>\<open>stat\<close> of a real path says directory\<close>

record run_cfg =
  workspace :: path
  real_workspace :: path
  run_env :: "(string \<times> string) list"
  shared_files :: "(string \<times> path list) list"

definition inside :: "path \<Rightarrow> path \<Rightarrow> bool" where
  "inside base target \<longleftrightarrow> target = base \<or> (base \<noteq> [] \<and> prefix base target)"

definition private_names :: "string list" where
  "private_names = [''.runtime'', ''.ide-state'', ''.datasets-staging'', ''.clinerules'', ''.git'', ''.upload-tmp'']"

definition private_name :: "string \<Rightarrow> bool" where
  "private_name n \<longleftrightarrow> n \<in> set private_names \<or> prefix ''.gc-file-'' n \<or> n = ''.env'' \<or> prefix ''.env.'' n"

definition is_private :: "path \<Rightarrow> bool" where
  "is_private relative = list_ex private_name relative"

text \<open>\<open>destination\<close>: the real path of the deepest existing ancestor and what is missing below it; the argument path is
  reversed. \<open>None\<close> is a thrown error.\<close>

fun dest_go :: "file_system \<Rightarrow> path \<Rightarrow> path \<Rightarrow> path option" where
  "dest_go fs cur missing =
    (case fs_lstat fs (rev cur) of
       StatError \<Rightarrow> None
     | NoEntry \<Rightarrow> (case cur of [] \<Rightarrow> None | s # up \<Rightarrow> dest_go fs up (s # missing))
     | st \<Rightarrow>
        (case fs_real fs (rev cur) of
           None \<Rightarrow> None
         | Some real \<Rightarrow> if missing \<noteq> [] \<and> st \<noteq> IsDir \<and> \<not> (st = IsLink \<and> fs_dir fs real) then None else Some (real @ missing)))"

definition destination :: "file_system \<Rightarrow> path \<Rightarrow> path option" where
  "destination fs p = dest_go fs (rev p) []"

definition resolve_in :: "path \<Rightarrow> string \<Rightarrow> path" where
  "resolve_in base p = norm_segments True [] ((if is_absolute p then [] else base) @ path_segments p)"

definition state_names :: "string list" where
  "state_names = [''RUNTIME_STATE_ROOT'', ''OPENCODE_CONFIG_DIR'', ''XDG_CONFIG_HOME'', ''XDG_DATA_HOME'', ''XDG_STATE_HOME'',
     ''XDG_CACHE_HOME'']"

definition state_paths :: "run_cfg \<Rightarrow> path list" where
  "state_paths cfg = concat (map (\<lambda>n. case map_of (run_env cfg) n of
       Some (c # v) \<Rightarrow> if inside (workspace cfg) (resolve_in (workspace cfg) (c # v)) then [resolve_in (workspace cfg) (c # v)] else []
     | _ \<Rightarrow> []) state_names)"

definition blocked :: "path \<Rightarrow> string \<Rightarrow> string option" where
  "blocked relative root =
    (if is_private relative then Some ''private runtime state''
     else (case relative of
         p0 # rest \<Rightarrow> if p0 \<noteq> ''runs'' then None
           else (case rest of
               [] \<Rightarrow> Some ''another conversation's run folder''
             | p1 # rest2 \<Rightarrow> if p1 \<noteq> root then Some ''another conversation's run folder''
                 else (case rest2 of p2 # _ \<Rightarrow> if p2 = ''_orchestrator'' then Some ''the runtime's own record of this conversation'' else None
                     | [] \<Rightarrow> None))
       | [] \<Rightarrow> None))"

definition relative_to :: "path \<Rightarrow> path \<Rightarrow> path" where
  "relative_to base p = drop (length base) p"

definition run_path :: "path \<Rightarrow> string \<Rightarrow> path" where
  "run_path base root = base @ [''runs'', root]"

datatype policy = Refuse string | Allow | Ask

text \<open>The loop over the state folders: \<open>None\<close> when one of them cannot be resolved.\<close>

fun state_check :: "file_system \<Rightarrow> path list \<Rightarrow> path \<Rightarrow> path \<Rightarrow> policy option option" where
  "state_check fs [] target real = Some None"
| "state_check fs (st # sts) target real =
    (if inside st target then Some (Some (Refuse ''private runtime state''))
     else (case destination fs st of
         None \<Rightarrow> None
       | Some d \<Rightarrow> if inside d real then Some (Some (Refuse ''private runtime state'')) else state_check fs sts target real))"

definition edit_policy :: "run_cfg \<Rightarrow> file_system \<Rightarrow> string \<Rightarrow> string \<Rightarrow> string \<Rightarrow> policy option" where
  "edit_policy cfg fs resource root agent =
    (let ws = workspace cfg; rws = real_workspace cfg; target = resolve_in ws resource in
     if \<not> inside ws target then Some (Refuse ''outside the workspace'')
     else (case blocked (relative_to ws target) root of
       Some why \<Rightarrow> Some (Refuse why)
     | None \<Rightarrow>
        (case destination fs target of
           None \<Rightarrow> None
         | Some real \<Rightarrow>
            if \<not> inside rws real then Some (Refuse ''outside the workspace after resolving symlinks'')
            else (case blocked (relative_to rws real) root of
              Some why \<Rightarrow> Some (Refuse why)
            | None \<Rightarrow>
               (case state_check fs (state_paths cfg) target real of
                  None \<Rightarrow> None
                | Some (Some p) \<Rightarrow> Some p
                | Some None \<Rightarrow>
                   (let own = inside (run_path ws root) target; real_own = inside (run_path rws root) real;
                        shared = list_ex (\<lambda>f. target = ws @ f \<and> real = rws @ f)
                          (case map_of (shared_files cfg) agent of Some fsx \<Rightarrow> fsx | None \<Rightarrow> [])
                    in if own \<and> \<not> real_own
                       then Some (Refuse ''this conversation's run folder resolves to a different destination'')
                       else Some (if (own \<and> real_own) \<or> shared then Allow else Ask)))))))"

datatype verdict = Denied string | Allowed | Asked

text \<open>\<open>permission evaluate\<close>: the first refusal denies; one \<open>ask\<close> makes the whole edit ask.\<close>

fun evaluate_edit :: "run_cfg \<Rightarrow> file_system \<Rightarrow> string \<Rightarrow> string \<Rightarrow> string list \<Rightarrow> verdict \<Rightarrow> verdict" where
  "evaluate_edit cfg fs root agent [] sofar = sofar"
| "evaluate_edit cfg fs root agent (res # ress) sofar =
    (case (case edit_policy cfg fs res root agent of Some p \<Rightarrow> p | None \<Rightarrow> Refuse ''the destination cannot be verified'') of
       Refuse why \<Rightarrow> Denied (''Refused: '' @ res @ '' is '' @ why @
         ''. Choose an ordinary workspace file or write under runs/'' @ root @ ''/results/.'')
     | Allow \<Rightarrow> evaluate_edit cfg fs root agent ress sofar
     | Ask \<Rightarrow> evaluate_edit cfg fs root agent ress Asked)"

definition edit_permission :: "run_cfg \<Rightarrow> file_system \<Rightarrow> string \<Rightarrow> string \<Rightarrow> string list \<Rightarrow> verdict" where
  "edit_permission cfg fs root agent ress = evaluate_edit cfg fs root agent ress Allowed"

subsection \<open>Shell commands\<close>

definition QUEUE_TTL_MS :: int where "QUEUE_TTL_MS = 10 * 60 * 1000"

type_synonym shell_queue = "(string, (string \<times> int) list) omap"

definition prune_queue :: "int \<Rightarrow> shell_queue \<Rightarrow> shell_queue" where
  "prune_queue now q = filter (\<lambda>(cmd, xs). xs \<noteq> [])
     (map (\<lambda>(cmd, xs). (cmd, dropWhile (\<lambda>x. snd x < now - QUEUE_TTL_MS) xs)) q)"

definition shell_before :: "string \<Rightarrow> string \<Rightarrow> int \<Rightarrow> shell_queue \<Rightarrow> shell_queue" where
  "shell_before cmd root now q =
    (let q1 = prune_queue now q; xs = (case om_get q1 cmd of Some xs \<Rightarrow> xs | None \<Rightarrow> []) in om_set cmd (xs @ [(root, now)]) q1)"

definition TOOL_XDG :: "(string \<times> string) list" where
  "TOOL_XDG = [(''XDG_CONFIG_HOME'', ''.config''), (''XDG_DATA_HOME'', ''.local/share''), (''XDG_STATE_HOME'', ''.local/state''),
     (''XDG_CACHE_HOME'', ''.cache'')]"

definition TOOL_ENV_SCRUB :: "string list" where
  "TOOL_ENV_SCRUB = [''IDE_LLM_TOKEN'', ''OPENCODE_PASSWORD'', ''OPENCODE_SERVER_PASSWORD'']"

definition tool_env :: "string \<Rightarrow> (string, string) omap \<Rightarrow> (string, string) omap" where
  "tool_env tool_home env =
    (let env1 = (if tool_home = [] then env
         else fold (\<lambda>(n, sub) m. om_set n (path_join tool_home sub) m) TOOL_XDG (om_set ''HOME'' tool_home env))
     in fold om_delete TOOL_ENV_SCRUB env1)"

definition shell_create :: "string \<Rightarrow> string \<Rightarrow> (string, string) omap \<Rightarrow> shell_queue \<Rightarrow> shell_queue \<times> (string, string) omap" where
  "shell_create tool_home cmd env q =
    (let env1 = tool_env tool_home env in
     case om_get q cmd of
       Some ((root, at) # xs) \<Rightarrow> ((if xs = [] then om_delete cmd q else om_set cmd xs q),
           om_set ''GEOCLUSTER_RUN_DIR'' (''runs/'' @ root) env1)
     | _ \<Rightarrow> (om_delete cmd q, env1))"

end
