(* ===== verification/Run_Dir_Props.thy ===== *)
theory Run_Dir_Props
  imports Run_Dir
begin

text \<open>
  The write fence of a conversation (opencode/config/lib/run-dir.js): what an edit that is not refused can reach.
\<close>

lemma state_check_None:
  "state_check fs sts a real = Some None \<Longrightarrow> st \<in> set sts \<Longrightarrow> \<not> inside st a \<and> (\<exists>d. destination fs st = Some d \<and> \<not> inside d real)"
  by (induction sts) (auto split: if_splits option.splits)

lemma state_check_Refuse: "state_check fs sts a real = Some (Some p) \<Longrightarrow> \<exists>why. p = Refuse why"
  by (induction sts) (auto split: if_splits option.splits)

text \<open>What may be written: a real path of the workspace, outside every private and state folder, every other
  conversation's run folder and the runtime's own record.\<close>

definition fenced_path :: "run_cfg \<Rightarrow> file_system \<Rightarrow> string \<Rightarrow> path \<Rightarrow> bool" where
  "fenced_path cfg fs root real \<longleftrightarrow> inside (real_workspace cfg) real \<and>
     list_all (\<lambda>n. \<not> private_name n) (relative_to (real_workspace cfg) real) \<and>
     (prefix [''runs''] (relative_to (real_workspace cfg) real) \<longrightarrow>
        prefix [''runs'', root] (relative_to (real_workspace cfg) real) \<and>
        \<not> prefix [''runs'', root, ''_orchestrator''] (relative_to (real_workspace cfg) real)) \<and>
     (\<forall>st \<in> set (state_paths cfg). \<exists>d. destination fs st = Some d \<and> \<not> inside d real)"

lemma blocked_None:
  "blocked rel root = None \<Longrightarrow> list_all (\<lambda>n. \<not> private_name n) rel \<and>
     (prefix [''runs''] rel \<longrightarrow> prefix [''runs'', root] rel \<and> \<not> prefix [''runs'', root, ''_orchestrator''] rel)"
  by (auto simp: blocked_def is_private_def list_ex_iff list_all_iff split: if_splits list.splits)

lemma edit_policy_open:
  assumes "edit_policy cfg fs res root agent = Some p" "p \<in> {Allow, Ask}"
  obtains real where "destination fs (resolve_in (workspace cfg) res) = Some real" "fenced_path cfg fs root real"
    "p = Allow \<Longrightarrow> inside (run_path (real_workspace cfg) root) real \<or>
       (\<exists>fsx f. map_of (shared_files cfg) agent = Some fsx \<and> f \<in> set fsx \<and> real = real_workspace cfg @ f)"
proof -
  let ?ws = "workspace cfg" and ?rws = "real_workspace cfg" and ?abs = "resolve_in (workspace cfg) res"
  have a: "inside ?ws ?abs" "blocked (relative_to ?ws ?abs) root = None"
    using assms by (auto simp: edit_policy_def Let_def split: if_splits option.splits)
  obtain real where r: "destination fs ?abs = Some real"
    using assms a by (auto simp: edit_policy_def Let_def split: if_splits option.splits)
  have b: "inside ?rws real" "blocked (relative_to ?rws real) root = None"
    using assms a r by (auto simp: edit_policy_def Let_def split: if_splits option.splits)
  have c: "state_check fs (state_paths cfg) ?abs real = Some None"
    using assms a r b state_check_Refuse by (fastforce simp: edit_policy_def Let_def split: if_splits option.splits)
  have f: "fenced_path cfg fs root real"
    using b(1) blocked_None [OF b(2)] state_check_None [OF c] by (auto simp: fenced_path_def)
  have "p = Allow \<Longrightarrow> inside (run_path ?rws root) real \<or>
      (\<exists>fsx f. map_of (shared_files cfg) agent = Some fsx \<and> f \<in> set fsx \<and> real = ?rws @ f)"
    using assms a r b c by (auto simp: edit_policy_def Let_def list_ex_iff split: if_splits option.splits)
  with r f show thesis by (rule that)
qed

lemma evaluate_open:
  "evaluate_edit cfg fs root agent ress sofar = v \<Longrightarrow> v \<in> {Allowed, Asked} \<Longrightarrow> res \<in> set ress \<Longrightarrow>
     \<exists>p. edit_policy cfg fs res root agent = Some p \<and> p \<in> {Allow, Ask} \<and> (v = Allowed \<longrightarrow> p = Allow)"
proof (induction ress arbitrary: sofar)
  case (Cons r ress)
  have asked: "evaluate_edit cfg fs root agent rs Asked \<noteq> Allowed" for rs
    by (induction rs) (auto split: option.splits policy.splits)
  show ?case using Cons asked by (auto split: option.splits policy.splits)
qed simp

text \<open>Claim C11. An edit that is not refused reaches, symlinks resolved, only ordinary files of the workspace: no private or
  state folder, no other conversation's run folder, not the runtime's own record. One that needs no approval reaches only
  the conversation's own run folder or a file its agent shares.\<close>

theorem edits_stay_fenced:
  assumes "edit_permission cfg fs root agent ress = v" "v \<in> {Allowed, Asked}" "res \<in> set ress"
  shows "\<exists>real. destination fs (resolve_in (workspace cfg) res) = Some real \<and> fenced_path cfg fs root real \<and>
    (v = Allowed \<longrightarrow> inside (run_path (real_workspace cfg) root) real \<or>
       (\<exists>fsx f. map_of (shared_files cfg) agent = Some fsx \<and> f \<in> set fsx \<and> real = real_workspace cfg @ f))"
proof -
  obtain p where p: "edit_policy cfg fs res root agent = Some p" "p \<in> {Allow, Ask}" "v = Allowed \<longrightarrow> p = Allow"
    using evaluate_open assms unfolding edit_permission_def by blast
  from edit_policy_open [OF p(1,2)] p(3) show ?thesis by metis
qed

text \<open>The root that is found is the end of the parent chain, with the cache or without it.\<close>

fun root_after :: "(string \<Rightarrow> session_info option) \<Rightarrow> nat \<Rightarrow> string \<Rightarrow> string option" where
  "root_after look 0 cur = None"
| "root_after look (Suc k) cur =
    (case look cur of None \<Rightarrow> None
     | Some i \<Rightarrow> (case si_parent i of Some (c # p) \<Rightarrow> root_after look k (c # p) | _ \<Rightarrow> Some (si_id i)))"

definition rooted :: "(string \<Rightarrow> session_info option) \<Rightarrow> string \<Rightarrow> string \<Rightarrow> bool" where
  "rooted look s r \<longleftrightarrow> (\<exists>k. root_after look k s = Some r)"

lemma root_after_step:
  "look cur = Some i \<Longrightarrow> si_parent i = Some (c # p) \<Longrightarrow> rooted look (c # p) r \<Longrightarrow> rooted look cur r"
  unfolding rooted_def by (metis (mono_tags, lifting) list.simps(5) option.simps(5) root_after.simps(2))

definition cache_ok :: "(string \<Rightarrow> session_info option) \<Rightarrow> (string, string) omap \<Rightarrow> bool" where
  "cache_ok look cache \<longleftrightarrow> (\<forall>s r. om_get cache s = Some r \<longrightarrow> rooted look s r)"

lemma cache_all:
  "cache_ok look cache \<Longrightarrow> \<forall>s \<in> set chain. rooted look s r \<Longrightarrow> cache_ok look (fold (\<lambda>s c. om_set s r c) chain cache)"
proof (induction chain arbitrary: cache)
  case (Cons s chain)
  then have "cache_ok look (om_set s r cache)" by (simp add: cache_ok_def)
  then show ?case using Cons by simp
qed simp

lemma resolve_from_sound:
  assumes "cache_ok look cache" "\<And>r. rooted look cur r \<Longrightarrow> \<forall>s \<in> set chain. rooted look s r"
    "resolve_from look k cache chain cur = (cache', res)"
  shows "cache_ok look cache' \<and> (\<forall>r. res = Some r \<longrightarrow> rooted look cur r)"
  using assms
proof (induction k arbitrary: chain cur)
  case (Suc k)
  show ?case
  proof (cases "om_get cache cur")
    case (Some known)
    then have "rooted look cur known" using Suc.prems(1) by (simp add: cache_ok_def)
    then show ?thesis using Some Suc.prems cache_all by auto
  next
    case None
    show ?thesis
    proof (cases "look cur")
      case nolook: None
      then show ?thesis using None Suc.prems by auto
    next
      case (Some i)
      show ?thesis
      proof (cases "\<exists>c p. si_parent i = Some (c # p)")
        case True
        then obtain c p where p: "si_parent i = Some (c # p)" by blast
        have up: "rooted look cur r" if "rooted look (c # p) r" for r using root_after_step [OF Some p that] .
        have "cache_ok look cache' \<and> (\<forall>r. res = Some r \<longrightarrow> rooted look (c # p) r)"
        proof (rule Suc.IH [OF Suc.prems(1)])
          show "\<forall>s \<in> set (chain @ [cur]). rooted look s r" if "rooted look (c # p) r" for r
            using Suc.prems(2) [OF up [OF that]] up [OF that] by simp
          show "resolve_from look k cache (chain @ [cur]) (c # p) = (cache', res)" using Suc.prems(3) None Some p by simp
        qed
        then show ?thesis using up by blast
      next
        case False
        then have "si_parent i = None \<or> si_parent i = Some []" by (cases "si_parent i") (auto, metis list.exhaust)
        then have e: "root_after look (Suc 0) cur = Some (si_id i)" "resolve_from look (Suc k) cache chain cur =
            (fold (\<lambda>s c. om_set s (si_id i) c) (chain @ [cur]) cache, Some (si_id i))"
          using None Some by (auto simp: split_beta)
        then have r: "rooted look cur (si_id i)" unfolding rooted_def by blast
        then have "\<forall>s \<in> set (chain @ [cur]). rooted look s (si_id i)" using Suc.prems(2) by auto
        from cache_all [OF Suc.prems(1) this] show ?thesis using r Suc.prems(3) e(2) by (simp del: fold_append)
      qed
    qed
  qed
qed auto

lemma resolve_root_sound:
  "cache_ok look cache \<Longrightarrow> resolve_root look cache s = (cache', res) \<Longrightarrow>
   cache_ok look cache' \<and> (\<forall>r. res = Some r \<longrightarrow> rooted look s r)"
  unfolding resolve_root_def by (rule resolve_from_sound) auto

text \<open>Concrete paths.\<close>

definition sample_run_cfg :: run_cfg where
  "sample_run_cfg = \<lparr>workspace = [''w''], real_workspace = [''w''], run_env = [(''XDG_DATA_HOME'', ''/w/.state'')],
     shared_files = [(''extended'', [[''environment.yaml'']])]\<rparr>"

definition sample_fs :: file_system where
  "sample_fs = \<lparr>fs_lstat = (\<lambda>p. if p \<in> {[], [''w''], [''w'', ''runs''], [''w'', ''runs'', ''ses_a'']} then IsDir else NoEntry),
     fs_real = (\<lambda>p. Some p), fs_dir = (\<lambda>p. True)\<rparr>"

theorem edits_stay_fenced_witness:
  "edit_permission sample_run_cfg sample_fs ''ses_a'' ''dataops'' [''runs/ses_a/results/x.csv''] = Allowed \<and>
   (\<exists>real. destination sample_fs (resolve_in (workspace sample_run_cfg) ''runs/ses_a/results/x.csv'') = Some real \<and>
     fenced_path sample_run_cfg sample_fs ''ses_a'' real \<and>
     (Allowed = Allowed \<longrightarrow> inside (run_path (real_workspace sample_run_cfg) ''ses_a'') real \<or>
       (\<exists>fsx f. map_of (shared_files sample_run_cfg) ''dataops'' = Some fsx \<and> f \<in> set fsx \<and> real = real_workspace sample_run_cfg @ f)))"
proof -
  have e: "edit_permission sample_run_cfg sample_fs ''ses_a'' ''dataops'' [''runs/ses_a/results/x.csv''] = Allowed" by code_simp
  from edits_stay_fenced [OF e] e show ?thesis by simp
qed

end
