(* ===== verification/Spec2Isabelle.thy ===== *)
theory Spec2Isabelle
  imports Prelude Js_Value Ordered_Map Run_System Gate_Props Agent_Props Mcp_Props Turn_Tracker Citation_Guard Log_Props Broker_Props Ports_Props Children_Props Admission_Props Root_Props Safe_Fs_Props Logs_Props Prompt_Props File_Events_Props Processing_Props Processing_Waits Catalog_Props Options_Props Session_Index_Load Result_Props Ledger_Props Handback Run_Dir_Props
begin

text \<open>
  The geocluster research harness: a verification development beside its JavaScript sources.

  The program. A machine runs one container per workspace. Requests reach it through the access gate
  (runtime/gate.cjs), which exchanges a one-time token for a session cookie and forwards to the server
  (runtime/server.js). The server owns a session broker (runtime/lib/session-broker.js): it admits prompts of
  several conversations, runs each as a turn of the agent engine, checks the answer's citations and may ask
  again. The engine is a child process owned by a supervisor (runtime/lib/agent-supervisor.js); the tools come
  from an MCP server with a supervisor of its own (runtime/lib/mcp-supervisor.js). What a turn streams is
  observed by a tracker (turn-tracker.js), judged by the citation guard (citation-guard.js), written to a log
  per conversation (session-log.js) and listed in an index (session-index.js). Inside the engine, plugins keep
  what specialists hand back to the orchestrator in a fixed protocol (opencode/config/lib/result-protocol.js) and
  confine what agents write to the conversation's run folder (opencode/config/lib/run-dir.js).

  What the machine tells its backend about its turns is counted in activity.js and root-activity.js; files change
  under a file service whose events (file-events.js) clients follow and whose writes go through a fence
  (safe-fs/); finished processing jobs are read page by page (processing-operations.js); and the models that may
  be used come from a catalog (managed-catalog.js) and the account (account-usage.js).

  The theories, in the order of that description:

  \<^item> \<open>Prelude\<close>, \<open>Js_Value\<close>, \<open>Js_Path\<close>, \<open>Ordered_Map\<close>: the language. String operations, values with
    \<open>undefined\<close>, Node's \<open>path.posix\<close>, and \<open>Map\<close> with its insertion order (locale \<open>js_map\<close>).
  \<^item> \<open>Run_System\<close>: what the stateful components have in common. \<open>run_invariant\<close> lifts what a step keeps to whole
    runs, \<open>monotone_run\<close> adds a counter that never falls, \<open>rate_limited\<close> is the sliding window that bounds
    restarts. Every component with a step function interprets them on it.
  \<^item> \<open>Gate_Auth\<close>, \<open>Gate_Http\<close>, \<open>Gate_Server\<close>: gate.cjs in three parts (credentials; decisions and forwarded headers;
    the server's dispatch) and workspace-relay.cjs. \<open>Gate_Facts\<close>, \<open>Gate_Props\<close>: a token is accepted once, only
    authenticated requests are forwarded and without the gate's credentials, a cookie that was issued verifies.
  \<^item> \<open>Agent_Supervisor\<close>: \<open>sup\<close> is the supervisor's object, \<open>sup_step\<close> its methods and the continuations of its
    awaits. \<open>Agent_Facts\<close> holds the invariant \<open>sup_ok\<close>, \<open>Agent_Props\<close> what follows: one engine at a time,
    consecutive generations, a stop that stays one, bounded restarts, no call that hangs.
  \<^item> \<open>Mcp_Supervisor\<close>, \<open>Mcp_Props\<close>: the same for the tool server, with the invariant \<open>mcp_ok\<close>. A start that waits for a
    stop looks only once, as the source does, so a second stop can be overtaken; \<open>calm\<close> names the runs without that.
  \<^item> \<open>Turn_Tracker\<close>, \<open>Citation_Guard\<close>: the answer of a turn, the files it read, and the citations of files it
    did not read; each theory ends with its properties.
  \<^item> \<open>Broker\<close>, \<open>Broker_Turn\<close>: the broker's state \<open>broker\<close> (its conversations, \<open>conv\<close>, and the suspended prompts,
    \<open>run\<close>) and its events \<open>broker_step\<close>. \<open>Broker_Facts\<close> states the abstract turn machine \<open>turn_step\<close>, an inductive
    relation on a \<open>view\<close> that only knows each conversation's turn state, and proves that the broker refines it;
    \<open>Broker_Perms\<close> that no handler duplicates a permission request, or loses one unless the log fails
    while the request is being recorded (the awaits before its registration are steps); \<open>Broker_Live\<close> that a running turn's
    watchdog can always end it. \<open>Broker_Props\<close> draws the properties.
  \<^item> The broker's other parts, each with the state it needs of the same file. \<open>Broker_Ports\<close>, \<open>Ports_Facts\<close>,
    \<open>Ports_Props\<close>: sockets, live events and replays; a socket whose replay runs alone
    and finishes gets every event once, in order.
    \<open>Broker_Children\<close>, \<open>Children_Props\<close>: which call spawned which sub-agent. \<open>Broker_Logs\<close>, \<open>Logs_Props\<close>: the
    open logs of a conversation, over all of which one history is written. \<open>Broker_Prompt\<close>, \<open>Prompt_Props\<close>: the content
    of a prompt and the files it links to. \<open>Broker_Options\<close>, \<open>Options_Props\<close>: the model a user selected, its
    setters, and resumes that come back with another one. What is relied on of the engine's answers is \<open>engine_honest\<close>.
  \<^item> \<open>Managed_Catalog\<close>, \<open>Catalog_Props\<close>: the catalog of models, from the check of a discovery document to the file that
    the next start reads. \<open>Account_Usage\<close>: which of its models are allowed, used by \<open>Broker_Options\<close>.
  \<^item> \<open>Session_Log\<close>: files as byte strings, the write queue as the list of its pending operations, crash and reopening
    as events. \<open>Log_Facts\<close> ties files, ring and counters to the history of events; \<open>Log_Props\<close>: no seq is used
    twice; while no write is torn, a replay is exactly what its caller lacks (\<open>io_whole\<close>, for the open logs \<open>store_whole\<close>).
  \<^item> \<open>Session_Index\<close>: the list of conversations on an explicit disk. \<open>Session_Index_Props\<close>: types of the rows, paging.
    \<open>Session_Index_Load\<close>: what a boot writes is what the next boot reads, and no boot removes files of a run folder or a
    current transcript.
  \<^item> \<open>Admission\<close>, \<open>Admission_Props\<close>: internal-admission.js; permits are given in order (locale \<open>permit_pool\<close>, interpreted
    for both of its providers). \<open>Activity\<close>, \<open>Activity_Props\<close>, \<open>Root_Activity\<close>, \<open>Root_Props\<close>: what is reported of turns
    and questions, and when the machine may be called idle: the time of the poll that a report rests on is part of the state.
  \<^item> \<open>File_Events\<close>, \<open>File_Events_Props\<close>: the bounded journal of file changes and its streams with their cursors and back
    pressure. \<open>Safe_Policy\<close>, \<open>Safe_Fs\<close>, \<open>Safe_Fs_Props\<close>: safe-fs on an explicit tree of nodes with identities; no
    rename, creation or removal through a workspace handle changes a protected one.
  \<^item> \<open>Processing_Ops\<close>, \<open>Processing_Props\<close>: the paged summary of a result and the reading of a text product by byte
    ranges, with UTF-8 written out. \<open>Processing_Waits\<close>: observation waits, each answered once, with the last
    observation it was delivered.
  \<^item> \<open>Result_Protocol\<close>, \<open>Dispatch_Ledger\<close>, \<open>Handback\<close>: what a specialist hands back and what the hook after its call
    makes of it, the ledger of dispatches with its file and that file's size limit, the handbacks to the next orchestrator; managed-usage.js is in the first. \<open>Result_Props\<close>, \<open>Ledger_Props\<close>.
  \<^item> \<open>Run_Dir\<close>, \<open>Run_Dir_Props\<close>: the root session of an agent, the edit policy, the queue that gives a shell its folder.

  State and steps. An object of the source is a record with the fields of the object; an operation is a function
  from the record to the record and what the operation sends. An \<open>async\<close> function is cut at its awaits: the piece
  that is suspended is a value (a launch, a stop, a start attempt, a prompt's \<open>run\<close>) whose phase says at which
  await it stands, and an event resumes it with what the await returned. Every interleaving that the JavaScript
  event loop can produce is then a list of events, and the properties speak of all lists of events from the initial
  state. Promises a component hands out are numbers, in the order they were made.

  The model of a step keeps the source's guards and their order; a step that the source would not take in a state
  (an answer to an await that nobody stands at) leaves the state as it is.

  Parameters. The language's \<open>JSON.parse\<close>, \<open>JSON.stringify\<close>, \<open>String\<close> of a number and \<open>toISOString\<close>, Node's \<open>crypto\<close>
  and \<open>URL\<close>, the file system as seen by the edit policy (\<open>realpath\<close>, \<open>lstat\<close>) and the engine's session lookup are
  arguments. A theorem that needs one of their documented laws names it as a hypothesis, and its witness gives a
  concrete instance. Numbers of JSON are rationals. Strings are \<open>string\<close>: a \<open>char\<close> is a UTF-16 code unit below 256, and
  the few literals of the sources outside that range (an ellipsis, a dash) are written with ASCII characters.

  Bounds and fuel. The search for a usage denial visits nested values to the source's own depth 8, and
  \<open>resolveRoot\<close> follows the source's own 16 levels: neither is a bound of the model. The scanners of fenced blocks and of
  quoted markers take the length of the text as fuel and consume a character at each call. The readers that follow
  \<open>nextOffset\<close> (\<open>read_inventory\<close>, \<open>read_text\<close>) are specifications: they take one page per entry, or per byte, and the
  theorems show that this is enough. Restart windows,
  retry counts, page sizes and ring sizes are the sources' constants.

  Not modelled. Of the broker: the early frame buffer and the creation of a session, the memory guard, the export
  of reports and the reaping of tool processes, status and shutdown, which mostly call other components in order.
  Of the other modelled components: sockets and timers as such, log lines, process trees and /proc. Left out
  entirely: the files API, whose meaning is that of SQL statements over SQLite and of a native module; the voxel
  code, which is double-precision arithmetic partly copied from another project; the document processor and the
  cloud workspace (workspace-files.js, cloud-import-worker.js, owned-demo.js), clients of remote services whose
  answers decide nearly every step and whose stores are SQLite tables; the readers of GIS files and workbooks,
  wrappers of external programs; environment parsing, server wiring, command lines and build scripts.

  Modelling showed defects, each proved as a lemma on the model. A launch whose tools are slow reports \<open>ready\<close> for an
  engine that is being stopped (\<open>ready_while_stopping\<close>); a start of the tool server that waited for one stop launches
  against the next (\<open>stop_overtaken\<close>); a permission request is lost when the log fails while it is recorded
  (\<open>log_failure_loses_request\<close>); a ledger that outgrew its size limit is not read again (\<open>oversized_ledger_stays\<close>); an event appended after a torn write is acknowledged but not
  readable from the file (\<open>torn_write_hides_next\<close>); a removed conversation is listed again when the index held a
  quarantined duplicate of it (\<open>removed_conversation_returns\<close>), and one that is only in its rotated file may be removed at boot (\<open>rotated_orphan_removed\<close>); two loads of a conversation on one socket send its events
  twice (\<open>load_sends_twice\<close>); a replay that fails drops the events that were queued meanwhile (\<open>failed_replay_drops\<close>); a
  question that is answered while it is being logged leaves the machine reported as waiting for an answer
  (\<open>stale_question\<close>); a byte order mark at the start of a page
  is missing from the text (\<open>page_start_loses_mark\<close>); a reference without a slash is taken for a managed model
  (\<open>reference_without_slash\<close>); a prompt that is retried after the engine lost its binding skips the model check
  (\<open>retry_skips_check\<close>), and an engine's answer about the effort that reports another model is taken as it is
  (\<open>effort_answer_unchecked\<close>).
\<close>

end
